(* ===== verification/Aurum_Prelude.thy ===== *)
theory Aurum_Prelude
  imports Main "HOL-Library.Word" "HOL-Library.Monad_Syntax" "HOL-Library.Code_Target_Nat"
begin

text \<open>
  What every theory of the development shares.

  \<^item> Panics. A Rust function that can panic is a function into \<open>'a option\<close>, where
    \<open>None\<close> is the panic: a slice index out of bounds, an \<open>expect\<close> on \<open>None\<close>, an
    arithmetic overflow or a failed \<open>debug_assert!\<close>. This is the debug profile of the
    workspace; where the model returns \<open>Some\<close>, no check fired and the release profile
    computes the same value. Rust's own \<open>Result\<close> is a sum type below the option.
  \<^item> Integers. A counter, a length, a sequence number or a delivery tag is a \<open>nat\<close>
    and every addition and subtraction of the source that could leave the type's range goes
    through \<open>add_u32\<close>, \<open>add_u64\<close> or \<open>sub_uint\<close>. A bit mask, a byte and an
    identifier that is only compared is a \<open>word\<close> of its width.
  \<^item> \<open>ok m P\<close> says that a computation returns (no panic) and that its result satisfies
    \<open>P\<close>; its rules turn a \<open>do\<close> block into its verification conditions.
  \<^item> The set bits of a word in ascending order, \<open>bits_of\<close>, with which every
    \<open>trailing_zeros\<close> loop of the source is a recursion over a list.
\<close>

unbundle bit_operations_syntax

named_theorems ok_simps \<open>verification conditions of computations that may panic\<close>
named_theorems bits_simps \<open>bits of words and of word arrays\<close>

section \<open>Computations that may panic\<close>

definition ok :: "'a option \<Rightarrow> ('a \<Rightarrow> bool) \<Rightarrow> bool" where
  "ok m P \<longleftrightarrow> (\<exists>x. m = Some x \<and> P x)"

lemma ok_Some [simp, ok_simps]: "ok (Some x) P = P x"
  by (simp add: ok_def)

lemma ok_None [simp, ok_simps]: "\<not> ok None P"
  by (simp add: ok_def)

text \<open>
  For evaluation: with \<open>bind\<close> unfolded to a case distinction, the rest of a computation is
  only evaluated on the value of its first part.
\<close>

lemma bind_case [code_unfold]: "Option.bind m f = (case m of None \<Rightarrow> None | Some x \<Rightarrow> f x)"
  by (cases m) simp_all

lemma ok_bind [simp, ok_simps]: "ok (Option.bind m f) P = ok m (\<lambda>x. ok (f x) P)"
  by (cases m) (auto simp: ok_def)

lemma ok_if [ok_simps]: "ok (if b then m else n) P = ((b \<longrightarrow> ok m P) \<and> (\<not> b \<longrightarrow> ok n P))"
  by simp

lemma ok_case_prod [simp, ok_simps]: "ok (case p of (a, b) \<Rightarrow> f a b) P = (case p of (a, b) \<Rightarrow> ok (f a b) P)"
  by (cases p) simp

lemma ok_case_option [ok_simps]:
  "ok (case x of None \<Rightarrow> m | Some a \<Rightarrow> f a) P = (case x of None \<Rightarrow> ok m P | Some a \<Rightarrow> ok (f a) P)"
  by (cases x) simp_all

lemma ok_case_sum [ok_simps]:
  "ok (case x of Inl a \<Rightarrow> f a | Inr b \<Rightarrow> g b) P = (case x of Inl a \<Rightarrow> ok (f a) P | Inr b \<Rightarrow> ok (g b) P)"
  by (cases x) simp_all

lemma ok_map_option [simp, ok_simps]: "ok (map_option f m) P = ok m (\<lambda>x. P (f x))"
  by (cases m) (auto simp: ok_def)

lemma ok_mono: "ok m P \<Longrightarrow> (\<And>x. P x \<Longrightarrow> Q x) \<Longrightarrow> ok m Q"
  by (auto simp: ok_def)

lemma ok_mono_eq: "ok m P \<Longrightarrow> (\<And>x. m = Some x \<Longrightarrow> P x \<Longrightarrow> Q x) \<Longrightarrow> ok m Q"
  by (auto simp: ok_def)

lemma ok_not_None: "ok m P \<Longrightarrow> m \<noteq> None"
  by (auto simp: ok_def)

lemma okD: "ok m P \<Longrightarrow> \<exists>x. m = Some x \<and> P x"
  by (simp add: ok_def)

lemma okE: "ok m P \<Longrightarrow> (\<And>x. m = Some x \<Longrightarrow> P x \<Longrightarrow> thesis) \<Longrightarrow> thesis"
  by (auto simp: ok_def)

lemma ok_SomeD: "ok m P \<Longrightarrow> m = Some x \<Longrightarrow> P x"
  by (simp add: ok_def)

lemma ok_conj: "ok m P \<Longrightarrow> ok m Q \<Longrightarrow> ok m (\<lambda>x. P x \<and> Q x)"
  by (auto simp: ok_def)

definition guard :: "bool \<Rightarrow> unit option" where
  "guard b = (if b then Some () else None)"

lemma guard_True [simp]: "guard True = Some ()"
  by (simp add: guard_def)

lemma guard_False [simp]: "guard False = None"
  by (simp add: guard_def)

lemma ok_guard [simp, ok_simps]: "ok (guard b) P = (b \<and> P ())"
  by (auto simp: guard_def)

section \<open>Checked machine arithmetic\<close>

definition u8_max :: nat where
  "u8_max = 255"

definition u32_max :: nat where
  "u32_max = 4294967295"

definition u64_max :: nat where
  "u64_max = 18446744073709551615"

definition add_u32 :: "nat \<Rightarrow> nat \<Rightarrow> nat option" where
  "add_u32 a b = (if a + b \<le> u32_max then Some (a + b) else None)"

definition add_u64 :: "nat \<Rightarrow> nat \<Rightarrow> nat option" where
  "add_u64 a b = (if a + b \<le> u64_max then Some (a + b) else None)"

definition sub_uint :: "nat \<Rightarrow> nat \<Rightarrow> nat option" where
  "sub_uint a b = (if b \<le> a then Some (a - b) else None)"

definition saturating_add_u32 :: "nat \<Rightarrow> nat \<Rightarrow> nat" where
  "saturating_add_u32 a b = min (a + b) u32_max"

text \<open>\<open>1u64 << n\<close> and \<open>w - 1\<close> on a \<open>u64\<close> value.\<close>

definition shl_u64 :: "64 word \<Rightarrow> nat \<Rightarrow> 64 word option" where
  "shl_u64 w n = (if n < 64 then Some (push_bit n w) else None)"

definition dec_u64 :: "64 word \<Rightarrow> 64 word option" where
  "dec_u64 w = (if w = 0 then None else Some (w - 1))"

definition shl_u8 :: "nat \<Rightarrow> 8 word option" where
  "shl_u8 n = (if n < 8 then Some (push_bit n 1) else None)"

lemma ok_shl_u8 [simp, ok_simps]: "ok (shl_u8 n) P = (n < 8 \<and> P (push_bit n 1))"
  by (simp add: shl_u8_def)

lemma ok_shl_u64 [simp, ok_simps]: "ok (shl_u64 w n) P = (n < 64 \<and> P (push_bit n w))"
  by (simp add: shl_u64_def)

lemma ok_dec_u64 [simp, ok_simps]: "ok (dec_u64 w) P = (w \<noteq> 0 \<and> P (w - 1))"
  by (simp add: dec_u64_def)

lemma ok_add_u32 [simp, ok_simps]: "ok (add_u32 a b) P = (a + b \<le> u32_max \<and> P (a + b))"
  by (simp add: add_u32_def)

lemma ok_add_u64 [simp, ok_simps]: "ok (add_u64 a b) P = (a + b \<le> u64_max \<and> P (a + b))"
  by (simp add: add_u64_def)

lemma ok_sub_uint [simp, ok_simps]: "ok (sub_uint a b) P = (b \<le> a \<and> P (a - b))"
  by (simp add: sub_uint_def)

lemma add_u32_eq_Some: "add_u32 a b = Some c \<longleftrightarrow> a + b \<le> u32_max \<and> c = a + b"
  by (auto simp: add_u32_def)

lemma add_u64_eq_Some: "add_u64 a b = Some c \<longleftrightarrow> a + b \<le> u64_max \<and> c = a + b"
  by (auto simp: add_u64_def)

lemma sub_uint_eq_Some: "sub_uint a b = Some c \<longleftrightarrow> b \<le> a \<and> c = a - b"
  by (auto simp: sub_uint_def)

lemmas checked_Some = add_u32_eq_Some add_u64_eq_Some sub_uint_eq_Some

section \<open>Slices: indexing panics out of bounds\<close>

definition idx :: "'a list \<Rightarrow> nat \<Rightarrow> 'a option" where
  "idx xs i = (if i < length xs then Some (xs ! i) else None)"

definition upd :: "'a list \<Rightarrow> nat \<Rightarrow> ('a \<Rightarrow> 'a) \<Rightarrow> 'a list option" where
  "upd xs i f = (if i < length xs then Some (xs[i := f (xs ! i)]) else None)"

lemma ok_idx [simp, ok_simps]: "ok (idx xs i) P = (i < length xs \<and> P (xs ! i))"
  by (simp add: idx_def)

lemma ok_upd [simp, ok_simps]:
  "ok (upd xs i f) P = (i < length xs \<and> P (xs[i := f (xs ! i)]))"
  by (simp add: upd_def)

lemma idx_eq_Some: "idx xs i = Some x \<longleftrightarrow> i < length xs \<and> x = xs ! i"
  by (auto simp: idx_def)

lemma upd_eq_Some: "upd xs i f = Some ys \<longleftrightarrow> i < length xs \<and> ys = xs[i := f (xs ! i)]"
  by (auto simp: upd_def)

section \<open>The set bits of a word, in ascending order\<close>

definition bits_of :: "'a::len word \<Rightarrow> nat list" where
  "bits_of w = filter (bit w) [0..<LENGTH('a)]"

text \<open>\<open>count_ones\<close> and \<open>trailing_zeros\<close> are Rust's methods on unsigned integers.\<close>

definition count_ones :: "'a::len word \<Rightarrow> nat" where
  "count_ones w = length (bits_of w)"

definition trailing_zeros :: "'a::len word \<Rightarrow> nat" where
  "trailing_zeros w = length (takeWhile (\<lambda>i. \<not> bit w i) [0..<LENGTH('a)])"

lemma set_bits_of [simp]: "set (bits_of w) = {i. bit w i}"
  by (auto simp: bits_of_def dest: bit_imp_le_length)

lemma sorted_bits_of [simp]: "sorted_wrt (<) (bits_of w)"
  by (simp add: bits_of_def sorted_wrt_filter)

lemma distinct_bits_of [simp]: "distinct (bits_of w)"
  by (simp add: bits_of_def)

lemma bits_of_less: "i \<in> set (bits_of (w :: 'a::len word)) \<Longrightarrow> i < LENGTH('a)"
  by (auto simp: bits_of_def)

lemma finite_bits [simp]: "finite {i. bit (w :: 'a::len word) i}"
  by (rule finite_subset [of _ "{..<LENGTH('a)}"]) (auto dest: bit_imp_le_length)

lemma count_ones_card: "count_ones w = card {i. bit w i}"
  by (metis count_ones_def distinct_bits_of distinct_card set_bits_of)

lemma count_ones_le: "count_ones (w :: 'a::len word) \<le> LENGTH('a)"
  unfolding count_ones_def bits_of_def
  by (rule order_trans [OF length_filter_le]) simp

lemma bits_of_0 [simp]: "bits_of 0 = []"
  by (simp add: bits_of_def)

lemma bits_of_eq_Nil [simp]: "bits_of w = [] \<longleftrightarrow> w = 0"
proof
  assume "bits_of w = []"
  then have "{i. bit w i} = {}"
    by (metis empty_set set_bits_of)
  then show "w = 0"
    by (intro bit_eqI) auto
qed simp

lemma count_ones_0 [simp]: "count_ones 0 = 0"
  by (simp add: count_ones_def)

lemma count_ones_eq_0 [simp]: "count_ones w = 0 \<longleftrightarrow> w = 0"
  by (simp add: count_ones_def)

lemma count_ones_pos: "w \<noteq> 0 \<Longrightarrow> 0 < count_ones w"
  using count_ones_eq_0 [of w] by linarith

lemma bits_of_unique:
  assumes "sorted_wrt (<) xs" and "\<And>i. bit w i \<longleftrightarrow> i \<in> set xs"
  shows "bits_of w = xs"
proof -
  have "set (bits_of w) = set xs"
    using assms(2) by auto
  then show ?thesis
    by (metis strict_sorted_equal [OF sorted_bits_of assms(1)])
qed

lemma bits_of_inject: "bits_of v = bits_of w \<Longrightarrow> v = w"
  by (rule bit_eqI) (metis mem_Collect_eq set_bits_of)

text \<open>The two steps of every \<open>while w != 0 { w.trailing_zeros(); w &= w - 1 }\<close> loop.\<close>

lemma bit_exp_word [simp]: "n < LENGTH('a) \<Longrightarrow> bit (2 ^ n :: 'a::len word) i \<longleftrightarrow> i = n"
  by (auto simp: bit_exp_iff possible_bit_def)

lemma takeWhile_not_filter:
  "length (takeWhile (\<lambda>i. \<not> P i) [m..<n]) = hd (filter P [m..<n]) - m"
  if "filter P [m..<n] \<noteq> []"
  using that
proof (induction "n - m" arbitrary: m)
  case 0
  then show ?case by simp
next
  case (Suc k)
  then have less: "m < n" by simp
  show ?case
  proof (cases "P m")
    case True
    then show ?thesis using less by (simp add: upt_conv_Cons)
  next
    case False
    then have ne: "filter P [Suc m..<n] \<noteq> []"
      using Suc.prems less by (simp add: upt_conv_Cons)
    have "hd (filter P [Suc m..<n]) \<in> set (filter P [Suc m..<n])"
      using ne by (rule hd_in_set)
    then have "Suc m \<le> hd (filter P [Suc m..<n])" by simp
    then show ?thesis
      using False less Suc.hyps(1) [of "Suc m"] Suc.hyps(2) ne by (simp add: upt_conv_Cons)
  qed
qed

lemma trailing_zeros_hd: "w \<noteq> 0 \<Longrightarrow> trailing_zeros w = hd (bits_of w)"
  for w :: "'a::len word"
  using takeWhile_not_filter [of "bit w" 0 "LENGTH('a)"] bits_of_eq_Nil [of w]
  by (simp add: trailing_zeros_def bits_of_def)

lemma trailing_zeros_0: "trailing_zeros (0 :: 'a::len word) = LENGTH('a)"
  by (simp add: trailing_zeros_def takeWhile_eq_all_conv [THEN iffD2])

lemma trailing_zeros_bit: "w \<noteq> 0 \<Longrightarrow> bit w (trailing_zeros w)"
  using hd_in_set [of "bits_of w"] by (simp add: trailing_zeros_hd)

lemma trailing_zeros_least: "bit w i \<Longrightarrow> trailing_zeros w \<le> i"
proof -
  assume "bit w i"
  then have "w \<noteq> 0" and "i \<in> set (bits_of w)" by auto
  then show ?thesis
    using sorted_bits_of [of w] by (cases "bits_of w") (auto simp: trailing_zeros_hd)
qed

lemma trailing_zeros_less: "w \<noteq> 0 \<Longrightarrow> trailing_zeros (w :: 'a::len word) < LENGTH('a)"
  by (rule bit_imp_le_length [OF trailing_zeros_bit])

lemma bit_clear_lowest:
  fixes w :: "'a::len word"
  assumes "w \<noteq> 0"
  shows "bit (w AND (w - 1)) i \<longleftrightarrow> bit w i \<and> i \<noteq> trailing_zeros w"
proof -
  let ?t = "trailing_zeros w"
  define v where "v = w AND NOT (2 ^ ?t)"
  have t: "?t < LENGTH('a)" using assms by (rule trailing_zeros_less)
  have bv: "bit v j \<longleftrightarrow> bit w j \<and> j \<noteq> ?t" for j
    using t by (auto simp: v_def bit_simps dest: bit_imp_le_length)
  have disj: "v AND 2 ^ ?t = 0"
    by (rule bit_eqI) (auto simp: bit_and_iff bv bit_exp_iff)
  have "v + 2 ^ ?t = v OR 2 ^ ?t"
    using disj by (rule disjunctive_add_eq_or)
  also have "\<dots> = w"
    by (rule bit_eqI) (use trailing_zeros_bit [OF assms] in \<open>auto simp: bit_or_iff bv bit_exp_iff\<close>)
  finally have w: "w = v + 2 ^ ?t" by simp
  have "v AND mask ?t = 0"
    by (rule bit_eqI) (auto simp: bit_and_iff bv bit_mask_iff dest: trailing_zeros_least)
  then have "v + mask ?t = v OR mask ?t"
    by (rule disjunctive_add_eq_or)
  moreover have "w - 1 = v + mask ?t"
    by (subst w) (simp add: mask_eq_exp_minus_1)
  ultimately have "w - 1 = v OR mask ?t" by simp
  then show ?thesis
    by (auto simp: bit_and_iff bit_or_iff bv bit_mask_iff dest: trailing_zeros_least)
qed

lemma bits_of_Cons: "w \<noteq> 0 \<Longrightarrow> bits_of w = trailing_zeros w # bits_of (w AND (w - 1))"
proof -
  assume w: "w \<noteq> 0"
  have "bits_of (w AND (w - 1)) = tl (bits_of w)"
  proof (rule bits_of_unique)
    show "sorted_wrt (<) (tl (bits_of w))"
      using sorted_bits_of [of w] by (cases "bits_of w") auto
    show "bit (w AND (w - 1)) i \<longleftrightarrow> i \<in> set (tl (bits_of w))" for i
      using w distinct_bits_of [of w] set_bits_of [of w]
      by (cases "bits_of w") (auto simp: bit_clear_lowest trailing_zeros_hd)
  qed
  then show ?thesis
    using w by (simp add: trailing_zeros_hd)
qed

lemma count_ones_clear_lowest: "w \<noteq> 0 \<Longrightarrow> count_ones (w AND (w - 1)) < count_ones w"
  by (simp add: count_ones_def bits_of_Cons [of w])

end
