(* ===== verification/Kernels.thy ===== *)
theory Kernels
  imports Aurum_Prelude
begin

text \<open>
  The bit kernels of \<open>crates/aurum-kernels/src/lib.rs\<close>: \<open>low_mask\<close>,
  \<open>take_lowest_bits\<close>, \<open>set_range\<close> and \<open>clear_range\<close>, with what each does to the
  bits of a word or of an array of words. \<open>wbit ws i\<close> is bit \<open>i\<close> of the array
  \<open>ws\<close> of 64-bit words.
\<close>

section \<open>The kernels\<close>

definition low_mask :: "nat \<Rightarrow> 64 word" where
  "low_mask bits = (if bits = 0 then 0 else if 64 \<le> bits then - 1 else push_bit bits 1 - 1)"

fun take_lowest_loop :: "nat \<Rightarrow> 64 word \<Rightarrow> 64 word \<Rightarrow> 64 word option" where
  "take_lowest_loop 0 src msk = Some msk"
| "take_lowest_loop (Suc remaining) src msk = do {
     one \<leftarrow> shl_u64 1 (trailing_zeros src);
     pred \<leftarrow> dec_u64 src;
     take_lowest_loop remaining (src AND pred) (msk OR one)
   }"

text \<open>The result is the mask taken and the new value of \<open>*word\<close>.\<close>

definition take_lowest_bits :: "64 word \<Rightarrow> nat \<Rightarrow> (64 word \<times> 64 word) option" where
  "take_lowest_bits w mx =
     (if w = 0 \<or> mx = 0 then Some (0, w)
      else let available = count_ones w; tk = min available mx
           in if tk = available then Some (w, 0)
              else do {
                msk \<leftarrow> take_lowest_loop tk w 0;
                Some (msk, w AND NOT msk)
              })"

function set_range_loop :: "64 word list \<Rightarrow> nat \<Rightarrow> nat \<Rightarrow> 64 word list option" where
  "set_range_loop ws i stop =
     (if i < stop then do {
        let b = i mod 64;
        let tk = min (64 - b) (stop - i);
        let msk = push_bit b (low_mask tk);
        ws \<leftarrow> upd ws (i div 64) (\<lambda>w. w OR msk);
        set_range_loop ws (i + tk) stop
      } else Some ws)"
  by pat_completeness auto
termination
  by (relation "measure (\<lambda>(ws, i, stop). stop - i)") auto

definition set_range :: "64 word list \<Rightarrow> nat \<Rightarrow> nat \<Rightarrow> 64 word list option" where
  "set_range ws start_bit n =
     (if n = 0 then Some ws
      else do { stop \<leftarrow> add_u64 start_bit n; set_range_loop ws start_bit stop })"

function clear_range_loop :: "64 word list \<Rightarrow> nat \<Rightarrow> nat \<Rightarrow> 64 word list option" where
  "clear_range_loop ws i stop =
     (if i < stop then do {
        let b = i mod 64;
        let tk = min (64 - b) (stop - i);
        let msk = push_bit b (low_mask tk);
        ws \<leftarrow> upd ws (i div 64) (\<lambda>w. w AND NOT msk);
        clear_range_loop ws (i + tk) stop
      } else Some ws)"
  by pat_completeness auto
termination
  by (relation "measure (\<lambda>(ws, i, stop). stop - i)") auto

definition clear_range :: "64 word list \<Rightarrow> nat \<Rightarrow> nat \<Rightarrow> 64 word list option" where
  "clear_range ws start_bit n =
     (if n = 0 then Some ws
      else do { stop \<leftarrow> add_u64 start_bit n; clear_range_loop ws start_bit stop })"

declare set_range_loop.simps [simp del] clear_range_loop.simps [simp del]

section \<open>Bits of a word array\<close>

definition wbit :: "64 word list \<Rightarrow> nat \<Rightarrow> bool" where
  "wbit ws i \<longleftrightarrow> i div 64 < length ws \<and> bit (ws ! (i div 64)) (i mod 64)"

lemma wbit_update:
  "w < length ws \<Longrightarrow> wbit (ws[w := v]) i \<longleftrightarrow> (if i div 64 = w then bit v (i mod 64) else wbit ws i)"
  by (auto simp: wbit_def nth_list_update)

lemma wbit_same: "w < length ws \<Longrightarrow> i div 64 = w \<Longrightarrow> wbit ws i \<longleftrightarrow> bit (ws ! w) (i mod 64)"
  by (simp add: wbit_def)

lemma bit_low_mask [bits_simps]: "bit (low_mask n) i \<longleftrightarrow> i < n \<and> i < 64"
proof -
  have "push_bit n 1 - 1 = (mask n :: 64 word)"
    by (simp add: mask_eq_exp_minus_1 push_bit_of_1)
  then show ?thesis
    by (auto simp: low_mask_def bit_mask_iff bit_minus_1_iff possible_bit_def)
qed

lemma range_mask_bit:
  "tk \<le> 64 - b \<Longrightarrow> bit (push_bit b (low_mask tk)) i \<longleftrightarrow> b \<le> i \<and> i < b + tk"
  by (auto simp: bit_push_bit_iff bit_low_mask possible_bit_def)

text \<open>One word of the loop: the bits \<open>[i, i + tk)\<close> of the array, in the word that holds them.\<close>

lemma same_word_iff:
  fixes i j tk :: nat
  assumes "tk \<le> 64 - i mod 64"
  shows "j div 64 = i div 64 \<and> i mod 64 \<le> j mod 64 \<and> j mod 64 < i mod 64 + tk \<longleftrightarrow>
    i \<le> j \<and> j < i + tk" (is "?L \<longleftrightarrow> ?R")
proof
  assume ?L
  then show ?R
    using div_mult_mod_eq [of i 64] div_mult_mod_eq [of j 64] by linarith
next
  assume R: ?R
  have i: "i = i div 64 * 64 + i mod 64" by simp
  have "i mod 64 < 64" by simp
  have "j div 64 = i div 64"
  proof (rule div_nat_eqI)
    show "64 * (i div 64) \<le> j" using R i by linarith
    show "j < 64 * Suc (i div 64)" using R i assms \<open>i mod 64 < 64\<close> unfolding mult_Suc_right by linarith
  qed
  moreover from this have "j = i div 64 * 64 + j mod 64" by (metis div_mult_mod_eq)
  ultimately show ?L using R i by linarith
qed

lemma range_step_bit:
  assumes "tk \<le> 64 - i mod 64"
  shows "j div 64 = i div 64 \<and> bit (push_bit (i mod 64) (low_mask tk)) (j mod 64) \<longleftrightarrow>
    i \<le> j \<and> j < i + tk"
  unfolding range_mask_bit [OF assms] by (rule same_word_iff [OF assms])

lemma set_range_loop_ok:
  "stop \<le> 64 * length ws \<Longrightarrow>
   ok (set_range_loop ws i stop) (\<lambda>ws'. length ws' = length ws \<and>
     (\<forall>j. wbit ws' j \<longleftrightarrow> wbit ws j \<or> (i \<le> j \<and> j < stop)))"
proof (induction ws i stop rule: set_range_loop.induct)
  case (1 ws i stop)
  show ?case
  proof (cases "i < stop")
    case False
    then show ?thesis by (subst set_range_loop.simps) auto
  next
    case True
    define tk where "tk = min (64 - i mod 64) (stop - i)"
    define m where "m = push_bit (i mod 64) (low_mask tk)"
    let ?ws = "ws[i div 64 := ws ! (i div 64) OR m]"
    have tk: "tk \<le> 64 - i mod 64" "i + tk \<le> stop" "0 < tk"
      using True by (auto simp: tk_def)
    have w: "i div 64 < length ws"
      using True "1.prems" by linarith
    have step: "wbit ?ws j \<longleftrightarrow> wbit ws j \<or> (i \<le> j \<and> j < i + tk)" for j
      using range_step_bit [OF tk(1), of j, folded m_def] wbit_same [OF w, of j] w
      by (cases "j div 64 = i div 64") (auto simp: wbit_update bit_or_iff)
    have split: "i \<le> j \<and> j < stop \<longleftrightarrow> (i \<le> j \<and> j < i + tk) \<or> (i + tk \<le> j \<and> j < stop)" for j
      using tk by linarith
    have IH: "ok (set_range_loop ?ws (i + tk) stop) (\<lambda>ws'. length ws' = length ?ws \<and>
       (\<forall>j. wbit ws' j \<longleftrightarrow> wbit ?ws j \<or> (i + tk \<le> j \<and> j < stop)))"
      using "1.IH" [OF True refl tk_def m_def, of ?ws] w "1.prems" by (simp add: upd_def)
    have "ok (set_range_loop ?ws (i + tk) stop) (\<lambda>ws'. length ws' = length ws \<and>
       (\<forall>j. wbit ws' j \<longleftrightarrow> wbit ws j \<or> (i \<le> j \<and> j < stop)))"
      by (rule ok_mono [OF IH]) (simp add: step, use tk split in blast)
    then show ?thesis
      using True w by (subst set_range_loop.simps) (simp add: Let_def flip: tk_def m_def)
  qed
qed

lemma clear_range_loop_ok:
  "stop \<le> 64 * length ws \<Longrightarrow>
   ok (clear_range_loop ws i stop) (\<lambda>ws'. length ws' = length ws \<and>
     (\<forall>j. wbit ws' j \<longleftrightarrow> wbit ws j \<and> \<not> (i \<le> j \<and> j < stop)))"
proof (induction ws i stop rule: clear_range_loop.induct)
  case (1 ws i stop)
  show ?case
  proof (cases "i < stop")
    case False
    then show ?thesis by (subst clear_range_loop.simps) auto
  next
    case True
    define tk where "tk = min (64 - i mod 64) (stop - i)"
    define m where "m = push_bit (i mod 64) (low_mask tk)"
    let ?ws = "ws[i div 64 := ws ! (i div 64) AND NOT m]"
    have tk: "tk \<le> 64 - i mod 64" "i + tk \<le> stop" "0 < tk"
      using True by (auto simp: tk_def)
    have w: "i div 64 < length ws"
      using True "1.prems" by linarith
    have step: "wbit ?ws j \<longleftrightarrow> wbit ws j \<and> \<not> (i \<le> j \<and> j < i + tk)" for j
      using range_step_bit [OF tk(1), of j, folded m_def] wbit_same [OF w, of j] w
      by (cases "j div 64 = i div 64")
        (auto simp: wbit_update bit_and_iff bit_not_iff possible_bit_def)
    have split: "i \<le> j \<and> j < stop \<longleftrightarrow> (i \<le> j \<and> j < i + tk) \<or> (i + tk \<le> j \<and> j < stop)" for j
      using tk by linarith
    have IH: "ok (clear_range_loop ?ws (i + tk) stop) (\<lambda>ws'. length ws' = length ?ws \<and>
       (\<forall>j. wbit ws' j \<longleftrightarrow> wbit ?ws j \<and> \<not> (i + tk \<le> j \<and> j < stop)))"
      using "1.IH" [OF True refl tk_def m_def, of ?ws] w "1.prems" by (simp add: upd_def)
    have "ok (clear_range_loop ?ws (i + tk) stop) (\<lambda>ws'. length ws' = length ws \<and>
       (\<forall>j. wbit ws' j \<longleftrightarrow> wbit ws j \<and> \<not> (i \<le> j \<and> j < stop)))"
      by (rule ok_mono [OF IH]) (simp add: step, use tk split in blast)
    then show ?thesis
      using True w by (subst clear_range_loop.simps) (simp add: Let_def flip: tk_def m_def)
  qed
qed

section \<open>The kernels on the bits\<close>

lemma set_range_ok:
  assumes "start + n \<le> 64 * length ws" and "64 * length ws \<le> u64_max"
  shows "ok (set_range ws start n) (\<lambda>ws'. length ws' = length ws \<and>
    (\<forall>j. wbit ws' j \<longleftrightarrow> wbit ws j \<or> (start \<le> j \<and> j < start + n)))"
  using assms set_range_loop_ok [of "start + n" ws start] by (auto simp: set_range_def)

lemma clear_range_ok:
  assumes "start + n \<le> 64 * length ws" and "64 * length ws \<le> u64_max"
  shows "ok (clear_range ws start n) (\<lambda>ws'. length ws' = length ws \<and>
    (\<forall>j. wbit ws' j \<longleftrightarrow> wbit ws j \<and> \<not> (start \<le> j \<and> j < start + n)))"
  using assms clear_range_loop_ok [of "start + n" ws start] by (auto simp: clear_range_def)

lemma take_lowest_loop_ok:
  "n \<le> count_ones src \<Longrightarrow>
   ok (take_lowest_loop n src msk)
     (\<lambda>r. \<forall>i. bit r i \<longleftrightarrow> bit msk i \<or> i \<in> set (take n (bits_of src)))"
proof (induction n arbitrary: src msk)
  case 0
  then show ?case by simp
next
  case (Suc n)
  then have src: "src \<noteq> 0" by auto
  have t: "trailing_zeros src < 64"
    using trailing_zeros_less [OF src] by simp
  have c: "count_ones src = Suc (count_ones (src AND (src - 1)))"
    using src by (simp add: count_ones_def bits_of_Cons)
  have "ok (take_lowest_loop n (src AND (src - 1)) (msk OR push_bit (trailing_zeros src) 1))
     (\<lambda>r. \<forall>i. bit r i \<longleftrightarrow> bit msk i \<or> i \<in> set (take (Suc n) (bits_of src)))"
    by (rule ok_mono [OF Suc.IH])
      (use Suc.prems c t src in
        \<open>auto simp: bits_of_Cons [of src] bit_or_iff\<close>)
  then show ?case using src t by simp
qed

lemma bits_of_take:
  "(\<And>i. bit m i \<longleftrightarrow> i \<in> set (take n (bits_of w))) \<Longrightarrow> bits_of m = take n (bits_of w)"
  for m w :: "'a::len word"
  by (rule bits_of_unique) (simp_all add: sorted_wrt_take)

lemma take_lowest_loop_bits:
  assumes "n \<le> count_ones src"
  shows "ok (take_lowest_loop n src 0) (\<lambda>r. bits_of r = take n (bits_of src))"
  by (rule ok_mono [OF take_lowest_loop_ok [OF assms]]) (rule bits_of_take, simp)

lemma take_lowest_bits_ok:
  "ok (take_lowest_bits w mx)
     (\<lambda>(m, w'). bits_of m = take mx (bits_of w) \<and> bits_of w' = drop mx (bits_of w))"
proof (cases "w = 0 \<or> mx = 0 \<or> count_ones w \<le> mx")
  case True
  then show ?thesis
    by (auto simp: take_lowest_bits_def count_ones_def Let_def)
next
  case False
  have "ok (take_lowest_loop mx w 0)
     (\<lambda>m. bits_of m = take mx (bits_of w) \<and> bits_of (w AND NOT m) = drop mx (bits_of w))"
  proof (rule ok_mono [OF take_lowest_loop_bits])
    fix m :: "64 word"
    assume m: "bits_of m = take mx (bits_of w)"
    have "bit (w AND NOT m) i \<longleftrightarrow> i \<in> set (drop mx (bits_of w))" for i
    proof -
      have "bit m i \<longleftrightarrow> i \<in> set (take mx (bits_of w))"
        using m by (metis mem_Collect_eq set_bits_of)
      moreover have "bit w i \<longleftrightarrow> i \<in> set (take mx (bits_of w)) \<or> i \<in> set (drop mx (bits_of w))"
        by (metis Un_iff append_take_drop_id mem_Collect_eq set_append set_bits_of)
      moreover have "set (take mx (bits_of w)) \<inter> set (drop mx (bits_of w)) = {}"
        by (simp add: set_take_disj_set_drop_if_distinct)
      ultimately show ?thesis
        by (auto simp: bit_and_iff bit_not_iff possible_bit_def dest: bit_imp_le_length)
    qed
    then have "bits_of (w AND NOT m) = drop mx (bits_of w)"
      by (intro bits_of_unique) (simp_all add: sorted_wrt_drop)
    with m show "bits_of m = take mx (bits_of w) \<and> bits_of (w AND NOT m) = drop mx (bits_of w)"
      by simp
  qed (use False in simp)
  then show ?thesis
    using False by (simp add: take_lowest_bits_def Let_def min_def)
qed

section \<open>Properties\<close>

text \<open>
  C19: on an array of words that holds the bits \<open>[start, start + n)\<close>, \<open>set_range\<close> and
  \<open>clear_range\<close> do not panic; they set (clear) exactly these bits, over any number of word
  boundaries, and leave every other bit as it was.
\<close>

theorem range_kernels_exact:
  assumes "start + n \<le> 64 * length ws" and "64 * length ws \<le> u64_max"
  shows "ok (set_range ws start n) (\<lambda>ws'. length ws' = length ws \<and>
      (\<forall>j. wbit ws' j \<longleftrightarrow> wbit ws j \<or> (start \<le> j \<and> j < start + n)))
    \<and> ok (clear_range ws start n) (\<lambda>ws'. length ws' = length ws \<and>
      (\<forall>j. wbit ws' j \<longleftrightarrow> wbit ws j \<and> \<not> (start \<le> j \<and> j < start + n)))"
  using set_range_ok [OF assms] clear_range_ok [OF assms] by blast

theorem range_kernels_exact_witness:
  "ok (set_range [0, 0, 0, 0] 60 10) (\<lambda>ws'. length ws' = 4 \<and> wbit ws' 63 \<and> wbit ws' 69 \<and> \<not> wbit ws' 70)
    \<and> ok (clear_range [- 1, - 1] 60 10) (\<lambda>ws'. length ws' = 2 \<and> wbit ws' 59 \<and> \<not> wbit ws' 64)"
proof
  have "ok (set_range [0, 0, 0, 0] 60 10) (\<lambda>ws'. length ws' = length [0, 0, 0, 0 :: 64 word] \<and>
      (\<forall>j. wbit ws' j \<longleftrightarrow> wbit [0, 0, 0, 0] j \<or> (60 \<le> j \<and> j < 60 + 10)))"
    using range_kernels_exact [of 60 10 "[0, 0, 0, 0]"] by (simp add: u64_max_def)
  then show "ok (set_range [0, 0, 0, 0] 60 10)
      (\<lambda>ws'. length ws' = 4 \<and> wbit ws' 63 \<and> wbit ws' 69 \<and> \<not> wbit ws' 70)"
    by (rule ok_mono) (simp add: wbit_def [of "[0, 0, 0, 0]"])
  have "ok (clear_range [- 1, - 1] 60 10) (\<lambda>ws'. length ws' = length [- 1, - 1 :: 64 word] \<and>
      (\<forall>j. wbit ws' j \<longleftrightarrow> wbit [- 1, - 1] j \<and> \<not> (60 \<le> j \<and> j < 60 + 10)))"
    using range_kernels_exact [of 60 10 "[- 1, - 1]"] by (simp add: u64_max_def)
  then show "ok (clear_range [- 1, - 1] 60 10) (\<lambda>ws'. length ws' = 2 \<and> wbit ws' 59 \<and> \<not> wbit ws' 64)"
    by (rule ok_mono) (simp add: wbit_def [of "[- 1, - 1]"])
qed

text \<open>
  \<open>take_lowest_bits\<close> never panics; it removes from the word its \<open>max\<close> lowest set bits
  (all of them when there are fewer) and returns exactly these bits.
\<close>

lemma take_lowest_bits_splits:
  "ok (take_lowest_bits w mx) (\<lambda>(m, w').
     bits_of m = take mx (bits_of w) \<and> bits_of w' = drop mx (bits_of w))"
  by (rule take_lowest_bits_ok)

end
