(* ===== verification/Intrusive_List.thy ===== *)
theory Intrusive_List
  imports Aurum_Prelude
begin

text \<open>
  The intrusive doubly linked list of \<open>crates/aurum-intrusive/src/lib.rs\<close>: \<open>Index\<close>,
  \<open>LinkState\<close>, \<open>Link\<close>, the trait \<open>Linked\<close> as a dictionary of its two methods, the
  list header \<open>IndexList\<close> and every operation on it. The nodes live in a slice that the
  caller owns, so every operation takes the header and the slice and returns both. The const
  generic \<open>LINK\<close> is the dictionary argument, the const generic \<open>TAG\<close> a word argument;
  \<open>valid_tag\<close> is what \<open>checked_list_tag\<close> asserts when the crate is compiled. Rust's
  \<open>retain\<close> may follow a cyclic chain for ever and is a \<open>partial_function\<close>; every
  other loop is bounded by the header's length and is total.
\<close>

section \<open>Index\<close>

text \<open>\<open>Index\<close> stores \<open>raw + 1\<close> in a \<open>NonZeroU32\<close>.\<close>

datatype Index = Index "32 word"

definition MAX_INDEX_RAW :: nat where
  "MAX_INDEX_RAW = u32_max - 1"

definition index_new :: "32 word \<Rightarrow> Index option" where
  "index_new raw =
     (if unat raw + 1 \<le> u32_max
      then (if raw + 1 \<noteq> 0 then Some (Index (raw + 1)) else None)
      else None)"

definition index_from_usize :: "nat \<Rightarrow> Index option" where
  "index_from_usize v = (if v > MAX_INDEX_RAW then None else index_new (of_nat v))"

fun index_get :: "Index \<Rightarrow> 32 word" where
  "index_get (Index v) = v - 1"

definition as_usize :: "Index \<Rightarrow> nat" where
  "as_usize i = unat (index_get i)"

section \<open>Link state and links\<close>

definition LINKED :: "32 word" where
  "LINKED = push_bit 31 1"

definition TAG_MASK :: "32 word" where
  "TAG_MASK = NOT LINKED"

definition MAX_LIST_TAG :: "32 word" where
  "MAX_LIST_TAG = push_bit 31 1 - 1"

definition valid_tag :: "32 word \<Rightarrow> bool" where
  "valid_tag tag \<longleftrightarrow> tag \<le> MAX_LIST_TAG"

definition state_linked :: "32 word \<Rightarrow> 32 word" where
  "state_linked tag = LINKED OR tag"

definition state_is_linked :: "32 word \<Rightarrow> bool" where
  "state_is_linked s \<longleftrightarrow> s AND LINKED \<noteq> 0"

definition state_tag :: "32 word \<Rightarrow> 32 word option" where
  "state_tag s = (if state_is_linked s then Some (s AND TAG_MASK) else None)"

definition state_belongs_to :: "32 word \<Rightarrow> 32 word \<Rightarrow> bool" where
  "state_belongs_to tag s \<longleftrightarrow> s = (LINKED OR tag)"

record Link =
  prev_ix :: "Index option"
  next_ix :: "Index option"
  link_state :: "32 word"

definition link_new :: Link where
  "link_new = \<lparr>prev_ix = None, next_ix = None, link_state = 0\<rparr>"

definition link_between :: "32 word \<Rightarrow> Index option \<Rightarrow> Index option \<Rightarrow> Link \<Rightarrow> Link" where
  "link_between tag p n k = k\<lparr>prev_ix := p, next_ix := n, link_state := state_linked tag\<rparr>"

text \<open>The trait \<open>Linked\<close>: reading the link of a node and updating it in place.\<close>

record 'n Linked =
  lk :: "'n \<Rightarrow> Link"
  lk_mut :: "(Link \<Rightarrow> Link) \<Rightarrow> 'n \<Rightarrow> 'n"

definition link_at :: "'n Linked \<Rightarrow> 'n list \<Rightarrow> Index \<Rightarrow> Link option" where
  "link_at d nodes i = do { n \<leftarrow> idx nodes (as_usize i); Some (lk d n) }"

definition link_mut :: "'n Linked \<Rightarrow> 'n list \<Rightarrow> Index \<Rightarrow> (Link \<Rightarrow> Link) \<Rightarrow> 'n list option" where
  "link_mut d nodes i f = upd nodes (as_usize i) (lk_mut d f)"

section \<open>The list header and its errors\<close>

record IndexList =
  il_head :: "Index option"
  il_tail :: "Index option"
  il_len :: nat

definition il_new :: IndexList where
  "il_new = \<lparr>il_head = None, il_tail = None, il_len = 0\<rparr>"

definition clear_header :: "IndexList \<Rightarrow> IndexList" where
  "clear_header l = l\<lparr>il_head := None, il_tail := None, il_len := 0\<rparr>"

definition il_is_empty :: "IndexList \<Rightarrow> bool" where
  "il_is_empty l \<longleftrightarrow> il_len l = 0"

datatype ListError =
    IndexOutOfBounds Index nat
  | AlreadyLinked Index "32 word option"
  | NotLinked Index
  | WrongList Index "32 word" "32 word option"
  | LengthOverflow

datatype ValidateError =
    EmptyListHasHead "Index option"
  | EmptyListHasTail "Index option"
  | NonEmptyListMissingHead
  | NonEmptyListMissingTail
  | LenExceedsNodes nat nat
  | VIndexOutOfBounds Index nat
  | UnlinkedNodeInList Index
  | WrongTag Index "32 word" "32 word option"
  | BrokenPrev Index "Index option" "Index option"
  | BrokenNext Index "Index option" "Index option"
  | TailMismatch "Index option" "Index option"
  | HeadMismatch "Index option" "Index option"
  | LengthMismatch nat nat
  | CycleDetected

section \<open>Iteration\<close>

record 'n Iter =
  it_nodes :: "'n list"
  it_next :: "Index option"
  it_remaining :: nat

text \<open>
  One \<open>next\<close> of \<open>Iter\<close> (direction \<open>next_ix\<close>) and of \<open>IterRev\<close> (direction
  \<open>prev_ix\<close>): the item, if any, and the advanced iterator.
\<close>

definition iter_next :: "'n Linked \<Rightarrow> 'n Iter \<Rightarrow> (Index option \<times> 'n Iter) option" where
  "iter_next d it =
     (if it_remaining it = 0 then Some (None, it\<lparr>it_next := None\<rparr>)
      else case it_next it of
        None \<Rightarrow> Some (None, it)
      | Some index \<Rightarrow> do {
          k \<leftarrow> link_at d (it_nodes it) index;
          Some (Some index, it\<lparr>it_next := next_ix k, it_remaining := it_remaining it - 1\<rparr>)
        })"

definition iter_rev_next :: "'n Linked \<Rightarrow> 'n Iter \<Rightarrow> (Index option \<times> 'n Iter) option" where
  "iter_rev_next d it =
     (if it_remaining it = 0 then Some (None, it\<lparr>it_next := None\<rparr>)
      else case it_next it of
        None \<Rightarrow> Some (None, it)
      | Some index \<Rightarrow> do {
          k \<leftarrow> link_at d (it_nodes it) index;
          Some (Some index, it\<lparr>it_next := prev_ix k, it_remaining := it_remaining it - 1\<rparr>)
        })"

definition il_iter :: "IndexList \<Rightarrow> 'n list \<Rightarrow> 'n Iter" where
  "il_iter l nodes = \<lparr>it_nodes = nodes, it_next = il_head l, it_remaining = il_len l\<rparr>"

definition il_iter_rev :: "IndexList \<Rightarrow> 'n list \<Rightarrow> 'n Iter" where
  "il_iter_rev l nodes = \<lparr>it_nodes = nodes, it_next = il_tail l, it_remaining = il_len l\<rparr>"

text \<open>
  The consumers of an iterator: \<open>collect\<close> and \<open>any\<close> of the standard library, which
  call \<open>next\<close> until it returns \<open>None\<close>. The number of calls that yield an item is at
  most \<open>it_remaining\<close>.
\<close>

fun collect_n :: "('n Iter \<Rightarrow> (Index option \<times> 'n Iter) option) \<Rightarrow> nat \<Rightarrow> 'n Iter \<Rightarrow> Index list option" where
  "collect_n nx 0 it = do { (x, it') \<leftarrow> nx it; guard (x = None); Some [] }"
| "collect_n nx (Suc n) it = do {
     (x, it') \<leftarrow> nx it;
     (case x of None \<Rightarrow> Some [] | Some i \<Rightarrow> do { r \<leftarrow> collect_n nx n it'; Some (i # r) })
   }"

fun any_n :: "('n Iter \<Rightarrow> (Index option \<times> 'n Iter) option) \<Rightarrow> (Index \<Rightarrow> bool) \<Rightarrow> nat \<Rightarrow> 'n Iter \<Rightarrow> bool option" where
  "any_n nx p 0 it = do { (x, it') \<leftarrow> nx it; guard (x = None); Some False }"
| "any_n nx p (Suc n) it = do {
     (x, it') \<leftarrow> nx it;
     (case x of None \<Rightarrow> Some False | Some i \<Rightarrow> if p i then Some True else any_n nx p n it')
   }"

definition iter_collect :: "'n Linked \<Rightarrow> 'n Iter \<Rightarrow> Index list option" where
  "iter_collect d it = collect_n (iter_next d) (it_remaining it) it"

definition iter_rev_collect :: "'n Linked \<Rightarrow> 'n Iter \<Rightarrow> Index list option" where
  "iter_rev_collect d it = collect_n (iter_rev_next d) (it_remaining it) it"

definition iter_nodes_collect :: "'n Linked \<Rightarrow> IndexList \<Rightarrow> 'n list \<Rightarrow> (Index \<times> 'n) list option" where
  "iter_nodes_collect d l nodes = do {
     is \<leftarrow> iter_collect d (il_iter l nodes);
     those (map (\<lambda>i. do { n \<leftarrow> idx nodes (as_usize i); Some (i, n) }) is)
   }"

definition il_contains :: "'n Linked \<Rightarrow> IndexList \<Rightarrow> 'n list \<Rightarrow> Index \<Rightarrow> bool option" where
  "il_contains d l nodes index = any_n (iter_next d) (\<lambda>c. c = index) (il_len l) (il_iter l nodes)"

section \<open>Preconditions\<close>

definition check_index :: "'n list \<Rightarrow> Index \<Rightarrow> ListError + unit" where
  "check_index nodes i =
     (if as_usize i \<ge> length nodes then Inl (IndexOutOfBounds i (length nodes)) else Inr ())"

definition debug_assert_insertable :: "'n Linked \<Rightarrow> IndexList \<Rightarrow> 'n list \<Rightarrow> Index \<Rightarrow> unit option" where
  "debug_assert_insertable d l nodes i = do {
     guard (as_usize i < length nodes);
     n \<leftarrow> idx nodes (as_usize i);
     guard (\<not> state_is_linked (link_state (lk d n)));
     guard (il_len l < u32_max)
   }"

definition check_insert_preconditions ::
  "'n Linked \<Rightarrow> IndexList \<Rightarrow> 'n list \<Rightarrow> Index \<Rightarrow> (ListError + unit) option" where
  "check_insert_preconditions d l nodes i =
     (case check_index nodes i of
        Inl e \<Rightarrow> Some (Inl e)
      | Inr _ \<Rightarrow> do {
          n \<leftarrow> idx nodes (as_usize i);
          let k = lk d n;
          (if state_is_linked (link_state k) then Some (Inl (AlreadyLinked i (state_tag (link_state k))))
           else if il_len l = u32_max then Some (Inl LengthOverflow)
           else Some (Inr ()))
        })"

definition check_remove_preconditions ::
  "'n Linked \<Rightarrow> 32 word \<Rightarrow> IndexList \<Rightarrow> 'n list \<Rightarrow> Index \<Rightarrow> (ListError + unit) option" where
  "check_remove_preconditions d tag l nodes i =
     (case check_index nodes i of
        Inl e \<Rightarrow> Some (Inl e)
      | Inr _ \<Rightarrow> do {
          n \<leftarrow> idx nodes (as_usize i);
          let k = lk d n;
          (if \<not> state_is_linked (link_state k) then Some (Inl (NotLinked i))
           else do {
             wrong \<leftarrow> (if \<not> state_belongs_to tag (link_state k) then Some True
                      else do { c \<leftarrow> il_contains d l nodes i; Some (\<not> c) });
             Some (if wrong then Inl (WrongList i tag (state_tag (link_state k))) else Inr ())
           })
        })"

section \<open>Insertion\<close>

definition push_back ::
  "'n Linked \<Rightarrow> 32 word \<Rightarrow> IndexList \<Rightarrow> 'n list \<Rightarrow> Index \<Rightarrow> (IndexList \<times> 'n list) option" where
  "push_back d tag l nodes i = do {
     debug_assert_insertable d l nodes i;
     let old_tail = il_tail l;
     nodes \<leftarrow> link_mut d nodes i (link_between tag old_tail None);
     (l, nodes) \<leftarrow> (case old_tail of
         Some t \<Rightarrow> do { nodes \<leftarrow> link_mut d nodes t (\<lambda>k. k\<lparr>next_ix := Some i\<rparr>); Some (l, nodes) }
       | None \<Rightarrow> Some (l\<lparr>il_head := Some i\<rparr>, nodes));
     let l = l\<lparr>il_tail := Some i\<rparr>;
     n \<leftarrow> add_u32 (il_len l) 1;
     Some (l\<lparr>il_len := n\<rparr>, nodes)
   }"

definition push_front ::
  "'n Linked \<Rightarrow> 32 word \<Rightarrow> IndexList \<Rightarrow> 'n list \<Rightarrow> Index \<Rightarrow> (IndexList \<times> 'n list) option" where
  "push_front d tag l nodes i = do {
     debug_assert_insertable d l nodes i;
     let old_head = il_head l;
     nodes \<leftarrow> link_mut d nodes i (link_between tag None old_head);
     (l, nodes) \<leftarrow> (case old_head of
         Some h \<Rightarrow> do { nodes \<leftarrow> link_mut d nodes h (\<lambda>k. k\<lparr>prev_ix := Some i\<rparr>); Some (l, nodes) }
       | None \<Rightarrow> Some (l\<lparr>il_tail := Some i\<rparr>, nodes));
     let l = l\<lparr>il_head := Some i\<rparr>;
     n \<leftarrow> add_u32 (il_len l) 1;
     Some (l\<lparr>il_len := n\<rparr>, nodes)
   }"

definition insert_after ::
  "'n Linked \<Rightarrow> 32 word \<Rightarrow> IndexList \<Rightarrow> 'n list \<Rightarrow> Index \<Rightarrow> Index \<Rightarrow> (IndexList \<times> 'n list) option" where
  "insert_after d tag l nodes at i = do {
     c \<leftarrow> il_contains d l nodes at;
     guard c;
     debug_assert_insertable d l nodes i;
     (if il_tail l = Some at then push_back d tag l nodes i
      else do {
        k \<leftarrow> link_at d nodes at;
        nxt \<leftarrow> next_ix k;
        nodes \<leftarrow> link_mut d nodes i (link_between tag (Some at) (Some nxt));
        nodes \<leftarrow> link_mut d nodes at (\<lambda>k. k\<lparr>next_ix := Some i\<rparr>);
        nodes \<leftarrow> link_mut d nodes nxt (\<lambda>k. k\<lparr>prev_ix := Some i\<rparr>);
        n \<leftarrow> add_u32 (il_len l) 1;
        Some (l\<lparr>il_len := n\<rparr>, nodes)
      })
   }"

definition insert_before ::
  "'n Linked \<Rightarrow> 32 word \<Rightarrow> IndexList \<Rightarrow> 'n list \<Rightarrow> Index \<Rightarrow> Index \<Rightarrow> (IndexList \<times> 'n list) option" where
  "insert_before d tag l nodes at i = do {
     c \<leftarrow> il_contains d l nodes at;
     guard c;
     debug_assert_insertable d l nodes i;
     (if il_head l = Some at then push_front d tag l nodes i
      else do {
        k \<leftarrow> link_at d nodes at;
        prv \<leftarrow> prev_ix k;
        nodes \<leftarrow> link_mut d nodes i (link_between tag (Some prv) (Some at));
        nodes \<leftarrow> link_mut d nodes prv (\<lambda>k. k\<lparr>next_ix := Some i\<rparr>);
        nodes \<leftarrow> link_mut d nodes at (\<lambda>k. k\<lparr>prev_ix := Some i\<rparr>);
        n \<leftarrow> add_u32 (il_len l) 1;
        Some (l\<lparr>il_len := n\<rparr>, nodes)
      })
   }"

text \<open>A failed check returns the error and leaves the list and the nodes as they were.\<close>

definition checked ::
  "(ListError + unit) option \<Rightarrow> IndexList \<Rightarrow> 'n list \<Rightarrow> (IndexList \<times> 'n list) option
   \<Rightarrow> ((ListError + unit) \<times> IndexList \<times> 'n list) option" where
  "checked chk l nodes act = do {
     r \<leftarrow> chk;
     (case r of
        Inl e \<Rightarrow> Some (Inl e, l, nodes)
      | Inr _ \<Rightarrow> do { (l, nodes) \<leftarrow> act; Some (Inr (), l, nodes) })
   }"

definition try_push_back where
  "try_push_back d tag l nodes i =
     checked (check_insert_preconditions d l nodes i) l nodes (push_back d tag l nodes i)"

definition try_push_front where
  "try_push_front d tag l nodes i =
     checked (check_insert_preconditions d l nodes i) l nodes (push_front d tag l nodes i)"

definition check_both ::
  "(ListError + unit) option \<Rightarrow> (ListError + unit) option \<Rightarrow> (ListError + unit) option" where
  "check_both a b = do { r \<leftarrow> a; (case r of Inl e \<Rightarrow> Some (Inl e) | Inr _ \<Rightarrow> b) }"

definition try_insert_after where
  "try_insert_after d tag l nodes at i =
     checked (check_both (check_remove_preconditions d tag l nodes at)
                         (check_insert_preconditions d l nodes i))
       l nodes (insert_after d tag l nodes at i)"

definition try_insert_before where
  "try_insert_before d tag l nodes at i =
     checked (check_both (check_remove_preconditions d tag l nodes at)
                         (check_insert_preconditions d l nodes i))
       l nodes (insert_before d tag l nodes at i)"

section \<open>Removal and movement\<close>

definition splice_out ::
  "'n Linked \<Rightarrow> IndexList \<Rightarrow> 'n list \<Rightarrow> Index \<Rightarrow> (IndexList \<times> 'n list) option" where
  "splice_out d l nodes i = do {
     k \<leftarrow> link_at d nodes i;
     let prv = prev_ix k;
     let nxt = next_ix k;
     (l, nodes) \<leftarrow> (case prv of
         Some p \<Rightarrow> do { nodes \<leftarrow> link_mut d nodes p (\<lambda>k. k\<lparr>next_ix := nxt\<rparr>); Some (l, nodes) }
       | None \<Rightarrow> Some (l\<lparr>il_head := nxt\<rparr>, nodes));
     (case nxt of
         Some n \<Rightarrow> do { nodes \<leftarrow> link_mut d nodes n (\<lambda>k. k\<lparr>prev_ix := prv\<rparr>); Some (l, nodes) }
       | None \<Rightarrow> Some (l\<lparr>il_tail := prv\<rparr>, nodes))
   }"

definition unlink_known_member ::
  "'n Linked \<Rightarrow> 32 word \<Rightarrow> IndexList \<Rightarrow> 'n list \<Rightarrow> Index \<Rightarrow> (IndexList \<times> 'n list) option" where
  "unlink_known_member d tag l nodes i = do {
     guard (0 < il_len l);
     k \<leftarrow> link_at d nodes i;
     guard (state_belongs_to tag (link_state k));
     (l, nodes) \<leftarrow> splice_out d l nodes i;
     nodes \<leftarrow> link_mut d nodes i (\<lambda>_. link_new);
     n \<leftarrow> sub_uint (il_len l) 1;
     Some (l\<lparr>il_len := n\<rparr>, nodes)
   }"

definition pop_front ::
  "'n Linked \<Rightarrow> 32 word \<Rightarrow> IndexList \<Rightarrow> 'n list \<Rightarrow> (Index option \<times> IndexList \<times> 'n list) option" where
  "pop_front d tag l nodes =
     (case il_head l of
        None \<Rightarrow> Some (None, l, nodes)
      | Some i \<Rightarrow> do { (l, nodes) \<leftarrow> unlink_known_member d tag l nodes i; Some (Some i, l, nodes) })"

definition pop_back ::
  "'n Linked \<Rightarrow> 32 word \<Rightarrow> IndexList \<Rightarrow> 'n list \<Rightarrow> (Index option \<times> IndexList \<times> 'n list) option" where
  "pop_back d tag l nodes =
     (case il_tail l of
        None \<Rightarrow> Some (None, l, nodes)
      | Some i \<Rightarrow> do { (l, nodes) \<leftarrow> unlink_known_member d tag l nodes i; Some (Some i, l, nodes) })"

definition try_remove where
  "try_remove d tag l nodes i =
     checked (check_remove_preconditions d tag l nodes i) l nodes (unlink_known_member d tag l nodes i)"

definition il_remove ::
  "'n Linked \<Rightarrow> 32 word \<Rightarrow> IndexList \<Rightarrow> 'n list \<Rightarrow> Index \<Rightarrow> (bool \<times> IndexList \<times> 'n list) option" where
  "il_remove d tag l nodes i = do {
     k \<leftarrow> link_at d nodes i;
     (if \<not> state_is_linked (link_state k) then Some (False, l, nodes)
      else do {
        guard (state_belongs_to tag (link_state k));
        c \<leftarrow> il_contains d l nodes i;
        guard c;
        (l, nodes) \<leftarrow> unlink_known_member d tag l nodes i;
        Some (True, l, nodes)
      })
   }"

definition move_to_back ::
  "'n Linked \<Rightarrow> 32 word \<Rightarrow> IndexList \<Rightarrow> 'n list \<Rightarrow> Index \<Rightarrow> (IndexList \<times> 'n list) option" where
  "move_to_back d tag l nodes i =
     (if il_tail l = Some i then Some (l, nodes)
      else do {
        c \<leftarrow> il_contains d l nodes i;
        guard c;
        k \<leftarrow> link_at d nodes i;
        guard (state_belongs_to tag (link_state k));
        old_tail \<leftarrow> il_tail l;
        (l, nodes) \<leftarrow> splice_out d l nodes i;
        nodes \<leftarrow> link_mut d nodes i (link_between tag (Some old_tail) None);
        nodes \<leftarrow> link_mut d nodes old_tail (\<lambda>k. k\<lparr>next_ix := Some i\<rparr>);
        Some (l\<lparr>il_tail := Some i\<rparr>, nodes)
      })"

definition move_to_front ::
  "'n Linked \<Rightarrow> 32 word \<Rightarrow> IndexList \<Rightarrow> 'n list \<Rightarrow> Index \<Rightarrow> (IndexList \<times> 'n list) option" where
  "move_to_front d tag l nodes i =
     (if il_head l = Some i then Some (l, nodes)
      else do {
        c \<leftarrow> il_contains d l nodes i;
        guard c;
        k \<leftarrow> link_at d nodes i;
        guard (state_belongs_to tag (link_state k));
        old_head \<leftarrow> il_head l;
        (l, nodes) \<leftarrow> splice_out d l nodes i;
        nodes \<leftarrow> link_mut d nodes i (link_between tag None (Some old_head));
        nodes \<leftarrow> link_mut d nodes old_head (\<lambda>k. k\<lparr>prev_ix := Some i\<rparr>);
        Some (l\<lparr>il_head := Some i\<rparr>, nodes)
      })"

text \<open>The result of \<open>append\<close> is \<open>self\<close>, \<open>other\<close> and the nodes.\<close>

definition il_append ::
  "'n Linked \<Rightarrow> IndexList \<Rightarrow> IndexList \<Rightarrow> 'n list \<Rightarrow> (IndexList \<times> IndexList \<times> 'n list) option" where
  "il_append d l other nodes =
     (if il_is_empty other then Some (l, other, nodes)
      else if il_is_empty l
      then Some (l\<lparr>il_head := il_head other, il_tail := il_tail other, il_len := il_len other\<rparr>,
                 clear_header other, nodes)
      else do {
        self_tail \<leftarrow> il_tail l;
        other_head \<leftarrow> il_head other;
        nodes \<leftarrow> link_mut d nodes self_tail (\<lambda>k. k\<lparr>next_ix := Some other_head\<rparr>);
        nodes \<leftarrow> link_mut d nodes other_head (\<lambda>k. k\<lparr>prev_ix := Some self_tail\<rparr>);
        let l = l\<lparr>il_tail := il_tail other\<rparr>;
        n \<leftarrow> add_u32 (il_len l) (il_len other);
        Some (l\<lparr>il_len := n\<rparr>, clear_header other, nodes)
      })"

fun clear_loop :: "'n Linked \<Rightarrow> nat \<Rightarrow> Index option \<Rightarrow> 'n list \<Rightarrow> 'n list option" where
  "clear_loop d 0 current nodes = Some nodes"
| "clear_loop d (Suc remaining) current nodes = do {
     i \<leftarrow> current;
     k \<leftarrow> link_at d nodes i;
     nodes \<leftarrow> link_mut d nodes i (\<lambda>_. link_new);
     clear_loop d remaining (next_ix k) nodes
   }"

definition il_clear :: "'n Linked \<Rightarrow> IndexList \<Rightarrow> 'n list \<Rightarrow> (IndexList \<times> 'n list) option" where
  "il_clear d l nodes = do {
     nodes \<leftarrow> clear_loop d (il_len l) (il_head l) nodes;
     Some (clear_header l, nodes)
   }"

text \<open>
  The closures of \<open>retain\<close> and \<open>for_each_mut\<close> are \<open>FnMut\<close>: they carry a state
  \<open>s\<close> and may change the node.
\<close>

partial_function (option) retain_loop ::
  "'n Linked \<Rightarrow> 32 word \<Rightarrow> ('s \<Rightarrow> Index \<Rightarrow> 'n \<Rightarrow> 's \<times> 'n \<times> bool) \<Rightarrow> 's \<Rightarrow> IndexList \<Rightarrow> 'n list
   \<Rightarrow> Index option \<Rightarrow> ('s \<times> IndexList \<times> 'n list) option" where
  "retain_loop d tag keep s l nodes current =
     (case current of
        None \<Rightarrow> Some (s, l, nodes)
      | Some i \<Rightarrow> do {
          k \<leftarrow> link_at d nodes i;
          n \<leftarrow> idx nodes (as_usize i);
          let (s, n, kept) = keep s i n;
          nodes \<leftarrow> upd nodes (as_usize i) (\<lambda>_. n);
          (l, nodes) \<leftarrow> (if kept then Some (l, nodes) else unlink_known_member d tag l nodes i);
          retain_loop d tag keep s l nodes (next_ix k)
        })"

definition il_retain where
  "il_retain d tag keep s l nodes = retain_loop d tag keep s l nodes (il_head l)"

fun for_each_loop ::
  "'n Linked \<Rightarrow> ('s \<Rightarrow> Index \<Rightarrow> 'n \<Rightarrow> 's \<times> 'n) \<Rightarrow> nat \<Rightarrow> Index option \<Rightarrow> 's \<Rightarrow> 'n list
   \<Rightarrow> ('s \<times> 'n list) option" where
  "for_each_loop d f 0 current s nodes = Some (s, nodes)"
| "for_each_loop d f (Suc remaining) current s nodes = do {
     i \<leftarrow> current;
     k \<leftarrow> link_at d nodes i;
     n \<leftarrow> idx nodes (as_usize i);
     let (s, n) = f s i n;
     nodes \<leftarrow> upd nodes (as_usize i) (\<lambda>_. n);
     for_each_loop d f remaining (next_ix k) s nodes
   }"

definition for_each_mut where
  "for_each_mut d f s l nodes = for_each_loop d f (il_len l) (il_head l) s nodes"

section \<open>Validation\<close>

definition validate_empty :: "IndexList \<Rightarrow> ValidateError + unit" where
  "validate_empty l =
     (if il_head l \<noteq> None then Inl (EmptyListHasHead (il_head l))
      else if il_tail l \<noteq> None then Inl (EmptyListHasTail (il_tail l))
      else Inr ())"

definition validate_index :: "'n list \<Rightarrow> Index \<Rightarrow> ValidateError + unit" where
  "validate_index nodes i =
     (if as_usize i \<ge> length nodes then Inl (VIndexOutOfBounds i (length nodes)) else Inr ())"

definition validate_link :: "32 word \<Rightarrow> Index \<Rightarrow> Link \<Rightarrow> ValidateError + unit" where
  "validate_link tag i k =
     (if \<not> state_is_linked (link_state k) then Inl (UnlinkedNodeInList i)
      else if \<not> state_belongs_to tag (link_state k)
      then Inl (WrongTag i tag (state_tag (link_state k)))
      else Inr ())"

text \<open>
  The two walks. Their loop returns the last node seen and the number of nodes, or the first
  error; it stops with \<open>CycleDetected\<close> once it has counted more nodes than there are.
\<close>

function forward_loop ::
  "'n Linked \<Rightarrow> 32 word \<Rightarrow> 'n list \<Rightarrow> nat \<Rightarrow> Index option \<Rightarrow> Index option
   \<Rightarrow> (ValidateError + (Index option \<times> nat)) option" where
  "forward_loop d tag nodes count prv current =
     (case current of
        None \<Rightarrow> Some (Inr (prv, count))
      | Some i \<Rightarrow>
          if count > length nodes then Some (Inl CycleDetected)
          else (case validate_index nodes i of
            Inl e \<Rightarrow> Some (Inl e)
          | Inr _ \<Rightarrow> do {
              n \<leftarrow> idx nodes (as_usize i);
              let k = lk d n;
              (case validate_link tag i k of
                 Inl e \<Rightarrow> Some (Inl e)
               | Inr _ \<Rightarrow>
                   if prev_ix k \<noteq> prv then Some (Inl (BrokenPrev i prv (prev_ix k)))
                   else do {
                     c \<leftarrow> add_u32 count 1;
                     forward_loop d tag nodes c (Some i) (next_ix k)
                   })
            }))"
  by pat_completeness auto
termination
  by (relation "measure (\<lambda>(d, tag, nodes, count, prv, current). Suc (length nodes) - count)")
    (auto simp: add_u32_eq_Some)

function backward_loop ::
  "'n Linked \<Rightarrow> 32 word \<Rightarrow> 'n list \<Rightarrow> nat \<Rightarrow> Index option \<Rightarrow> Index option
   \<Rightarrow> (ValidateError + (Index option \<times> nat)) option" where
  "backward_loop d tag nodes count nxt current =
     (case current of
        None \<Rightarrow> Some (Inr (nxt, count))
      | Some i \<Rightarrow>
          if count > length nodes then Some (Inl CycleDetected)
          else (case validate_index nodes i of
            Inl e \<Rightarrow> Some (Inl e)
          | Inr _ \<Rightarrow> do {
              n \<leftarrow> idx nodes (as_usize i);
              let k = lk d n;
              (case validate_link tag i k of
                 Inl e \<Rightarrow> Some (Inl e)
               | Inr _ \<Rightarrow>
                   if next_ix k \<noteq> nxt then Some (Inl (BrokenNext i nxt (next_ix k)))
                   else do {
                     c \<leftarrow> add_u32 count 1;
                     backward_loop d tag nodes c (Some i) (prev_ix k)
                   })
            }))"
  by pat_completeness auto
termination
  by (relation "measure (\<lambda>(d, tag, nodes, count, nxt, current). Suc (length nodes) - count)")
    (auto simp: add_u32_eq_Some)

declare forward_loop.simps [simp del] backward_loop.simps [simp del]

definition validate_forward ::
  "'n Linked \<Rightarrow> 32 word \<Rightarrow> IndexList \<Rightarrow> 'n list \<Rightarrow> (ValidateError + unit) option" where
  "validate_forward d tag l nodes = do {
     r \<leftarrow> forward_loop d tag nodes 0 None (il_head l);
     Some (case r of
        Inl e \<Rightarrow> Inl e
      | Inr (final, count) \<Rightarrow>
          if final \<noteq> il_tail l then Inl (TailMismatch final (il_tail l))
          else if count \<noteq> il_len l then Inl (LengthMismatch (il_len l) count)
          else Inr ())
   }"

definition validate_backward ::
  "'n Linked \<Rightarrow> 32 word \<Rightarrow> IndexList \<Rightarrow> 'n list \<Rightarrow> (ValidateError + unit) option" where
  "validate_backward d tag l nodes = do {
     r \<leftarrow> backward_loop d tag nodes 0 None (il_tail l);
     Some (case r of
        Inl e \<Rightarrow> Inl e
      | Inr (first, count) \<Rightarrow>
          if first \<noteq> il_head l then Inl (HeadMismatch first (il_head l))
          else if count \<noteq> il_len l then Inl (LengthMismatch (il_len l) count)
          else Inr ())
   }"

definition il_validate ::
  "'n Linked \<Rightarrow> 32 word \<Rightarrow> IndexList \<Rightarrow> 'n list \<Rightarrow> (ValidateError + unit) option" where
  "il_validate d tag l nodes =
     (if il_len l = 0 then Some (validate_empty l)
      else if il_head l = None then Some (Inl NonEmptyListMissingHead)
      else if il_tail l = None then Some (Inl NonEmptyListMissingTail)
      else if il_len l > length nodes then Some (Inl (LenExceedsNodes (il_len l) (length nodes)))
      else do {
        r \<leftarrow> validate_forward d tag l nodes;
        (case r of Inl e \<Rightarrow> Some (Inl e) | Inr _ \<Rightarrow> validate_backward d tag l nodes)
      })"

end
