(* ===== verification/List_Repr.thy ===== *)
theory List_Repr
  imports Intrusive_List
begin

text \<open>
  What the intrusive list of \<open>Intrusive_List\<close> represents. \<open>list_repr ks tag l xs\<close> says
  that the header \<open>l\<close> and the links \<open>ks\<close> of the node slice form the doubly linked list
  of the indices \<open>xs\<close>. The locale \<open>linked_slot\<close> is the contract of the trait
  \<open>Linked\<close>: writing through \<open>link_mut\<close> is read back by \<open>link\<close> and leaves the rest
  of the node alone. Inside it, every operation of the list is the operation on \<open>xs\<close> that
  its documentation names.
\<close>

section \<open>Chains of links\<close>

definition hd_or :: "'a list \<Rightarrow> 'a option \<Rightarrow> 'a option" where
  "hd_or xs n = (case xs of [] \<Rightarrow> n | x # _ \<Rightarrow> Some x)"

definition last_or :: "'a option \<Rightarrow> 'a list \<Rightarrow> 'a option" where
  "last_or p xs = (if xs = [] then p else Some (last xs))"

lemma hd_or_simps [simp]:
  "hd_or [] n = n" "hd_or (x # xs) n = Some x" "hd_or (xs @ ys) n = hd_or xs (hd_or ys n)"
  by (auto simp: hd_or_def split: list.splits)

lemma last_or_simps [simp]:
  "last_or p [] = p" "last_or p (x # xs) = last_or (Some x) xs"
  "last_or p (xs @ ys) = last_or (last_or p xs) ys"
  by (auto simp: last_or_def)

lemma hd_or_None [simp]: "hd_or xs None = None \<longleftrightarrow> xs = []"
  by (cases xs) auto

lemma last_or_None [simp]: "last_or None xs = None \<longleftrightarrow> xs = []"
  by (auto simp: last_or_def)

lemma hd_or_Some: "hd_or xs None = Some x \<longleftrightarrow> (\<exists>ys. xs = x # ys)"
  by (cases xs) auto

lemma last_or_Some: "last_or None xs = Some x \<longleftrightarrow> (\<exists>ys. xs = ys @ [x])"
  by (cases xs rule: rev_cases) (auto simp: last_or_def)

fun chain :: "Link list \<Rightarrow> 32 word \<Rightarrow> Index option \<Rightarrow> Index list \<Rightarrow> Index option \<Rightarrow> bool" where
  "chain ks tag p [] n = True"
| "chain ks tag p (x # xs) n =
     (as_usize x < length ks \<and>
      ks ! as_usize x = \<lparr>prev_ix = p, next_ix = hd_or xs n, link_state = state_linked tag\<rparr> \<and>
      chain ks tag (Some x) xs n)"

definition list_repr :: "Link list \<Rightarrow> 32 word \<Rightarrow> IndexList \<Rightarrow> Index list \<Rightarrow> bool" where
  "list_repr ks tag l xs \<longleftrightarrow>
     distinct xs \<and> chain ks tag None xs None \<and>
     il_head l = hd_or xs None \<and> il_tail l = last_or None xs \<and>
     il_len l = length xs \<and> length xs \<le> u32_max"

lemma as_usize_inj [simp]: "as_usize i = as_usize j \<longleftrightarrow> i = j"
  by (cases i; cases j) (simp add: as_usize_def flip: word_unat_eq_iff)

lemma chain_append [simp]:
  "chain ks tag p (xs @ ys) n \<longleftrightarrow>
     chain ks tag p xs (hd_or ys n) \<and> chain ks tag (last_or p xs) ys n"
  by (induction xs arbitrary: p) auto

lemma chain_update [simp]:
  "i \<notin> set xs \<Longrightarrow> chain (ks[as_usize i := k]) tag p xs n = chain ks tag p xs n"
  by (induction xs arbitrary: p) (auto simp: nth_list_update)

lemma chain_cong:
  "length ks' = length ks \<Longrightarrow> (\<And>i. i \<in> set xs \<Longrightarrow> ks' ! as_usize i = ks ! as_usize i) \<Longrightarrow>
   chain ks' tag p xs n = chain ks tag p xs n"
  by (induction xs arbitrary: p) auto

lemma chain_in_bounds: "chain ks tag p xs n \<Longrightarrow> i \<in> set xs \<Longrightarrow> as_usize i < length ks"
  by (induction xs arbitrary: p) auto

lemma chain_state:
  "chain ks tag p xs n \<Longrightarrow> i \<in> set xs \<Longrightarrow> link_state (ks ! as_usize i) = state_linked tag"
  by (induction xs arbitrary: p) auto

lemma state_linked_is_linked [simp]: "state_is_linked (state_linked tag)"
proof -
  have "bit ((LINKED OR tag) AND LINKED) 31"
    by (simp add: LINKED_def bit_simps)
  then show ?thesis
    by (auto simp: state_is_linked_def state_linked_def)
qed

lemma state_linked_belongs [simp]: "state_belongs_to tag (state_linked tag)"
  by (simp add: state_belongs_to_def state_linked_def)

lemma state_new_unlinked [simp]: "\<not> state_is_linked (link_state link_new)"
  by (simp add: state_is_linked_def link_new_def)

lemma link_between_eq [simp]:
  "link_between tag p n k = \<lparr>prev_ix = p, next_ix = n, link_state = state_linked tag\<rparr>"
  by (simp add: link_between_def)

lemma list_repr_unlinked:
  "list_repr ks tag l xs \<Longrightarrow> \<not> state_is_linked (link_state (ks ! as_usize i)) \<Longrightarrow> i \<notin> set xs"
  by (auto simp: list_repr_def dest: chain_state)

lemma list_repr_bounds: "list_repr ks tag l xs \<Longrightarrow> i \<in> set xs \<Longrightarrow> as_usize i < length ks"
  by (auto simp: list_repr_def dest: chain_in_bounds)

lemma list_repr_linked:
  "list_repr ks tag l xs \<Longrightarrow> i \<in> set xs \<Longrightarrow> link_state (ks ! as_usize i) = state_linked tag"
  by (auto simp: list_repr_def dest: chain_state)

lemma list_repr_new [simp]: "list_repr ks tag il_new []"
  by (simp add: list_repr_def il_new_def)

lemma list_repr_cong:
  "length ks' = length ks \<Longrightarrow> (\<And>i. i \<in> set xs \<Longrightarrow> ks' ! as_usize i = ks ! as_usize i) \<Longrightarrow>
   list_repr ks' tag l xs = list_repr ks tag l xs"
  using chain_cong [of ks' ks xs tag None None] by (simp add: list_repr_def)

lemma list_repr_length: "list_repr ks tag l xs \<Longrightarrow> length xs \<le> length ks"
proof -
  assume r: "list_repr ks tag l xs"
  have "card (as_usize ` set xs) = length xs"
    using r by (simp add: list_repr_def distinct_card card_image inj_on_def)
  moreover have "as_usize ` set xs \<subseteq> {..<length ks}"
    using r list_repr_bounds by auto
  ultimately show ?thesis
    by (metis card_lessThan card_mono finite_lessThan)
qed

text \<open>A list determines the sequence it represents.\<close>

lemma chain_unique:
  "chain ks tag p xs None \<Longrightarrow> chain ks tag p ys None \<Longrightarrow> hd_or xs None = hd_or ys None \<Longrightarrow> xs = ys"
proof (induction xs arbitrary: p ys)
  case Nil
  then show ?case by (metis hd_or_None)
next
  case (Cons x xs)
  then obtain ys' where ys: "ys = x # ys'" by (cases ys) auto
  have "hd_or xs None = hd_or ys' None"
    using Cons.prems(1,2) by (simp add: ys)
  then show ?case
    using Cons.prems(1,2) Cons.IH [of "Some x" ys'] by (simp add: ys)
qed

lemma list_repr_unique: "list_repr ks tag l xs \<Longrightarrow> list_repr ks tag l ys \<Longrightarrow> xs = ys"
  by (auto simp: list_repr_def intro: chain_unique)

text \<open>A chain that starts at a node without predecessor visits no node twice.\<close>

lemma chain_prev:
  "chain ks tag None xs n \<Longrightarrow> j < length xs \<Longrightarrow>
   prev_ix (ks ! as_usize (xs ! j)) = (if j = 0 then None else Some (xs ! (j - 1)))"
proof (induction xs arbitrary: n rule: rev_induct)
  case Nil
  then show ?case by simp
next
  case (snoc x xs)
  then show ?case
    by (cases "j < length xs") (auto simp: nth_append last_or_def last_conv_nth less_Suc_eq)
qed

lemma chain_nth_neq:
  "chain ks tag None xs n \<Longrightarrow> j < k \<Longrightarrow> k < length xs \<Longrightarrow> xs ! j \<noteq> xs ! k"
proof (induction j arbitrary: k)
  case 0
  then have "prev_ix (ks ! as_usize (xs ! 0)) \<noteq> prev_ix (ks ! as_usize (xs ! k))"
    using chain_prev [of ks tag xs n] by (metis gr_implies_not0 less_trans option.discI)
  then show ?case by metis
next
  case (Suc j)
  have "xs ! j \<noteq> xs ! (k - 1)" using Suc.IH [of "k - 1"] Suc.prems by simp
  then show ?case
    using chain_prev [of ks tag xs n "Suc j"] chain_prev [of ks tag xs n k] Suc.prems by auto
qed

lemma chain_distinct: "chain ks tag None xs n \<Longrightarrow> distinct xs"
  by (metis chain_nth_neq distinct_conv_nth linorder_neqE_nat)

section \<open>The contract of a link slot\<close>

text \<open>
  \<open>payload\<close> is the part of the node that the slot does not hold. \<open>kept\<close> is what an
  operation on the indices \<open>S\<close> leaves alone: every payload, and every link outside \<open>S\<close>.
\<close>

definition kept :: "'n Linked \<Rightarrow> ('n \<Rightarrow> 'p) \<Rightarrow> Index set \<Rightarrow> 'n list \<Rightarrow> 'n list \<Rightarrow> bool" where
  "kept d payload S nodes nodes' \<longleftrightarrow>
     map payload nodes' = map payload nodes \<and>
     (\<forall>i. i \<notin> S \<longrightarrow> map (lk d) nodes' ! as_usize i = map (lk d) nodes ! as_usize i)"

lemma kept_length: "kept d payload S nodes nodes' \<Longrightarrow> length nodes' = length nodes"
  by (metis kept_def length_map)

lemma kept_refl [simp]: "kept d payload S nodes nodes"
  by (simp add: kept_def)

lemma kept_trans:
  "kept d payload S nodes nodes' \<Longrightarrow> kept d payload T nodes' nodes'' \<Longrightarrow>
   kept d payload (S \<union> T) nodes nodes''"
  by (simp add: kept_def)

lemma kept_mono: "kept d payload S nodes nodes' \<Longrightarrow> S \<subseteq> T \<Longrightarrow> kept d payload T nodes nodes'"
  by (auto simp: kept_def)

text \<open>\<open>retain\<close> and \<open>for_each_mut\<close> on the represented sequence.\<close>

fun retain_seq ::
  "('s \<Rightarrow> Index \<Rightarrow> 'p \<Rightarrow> 's \<times> 'p \<times> bool) \<Rightarrow> 's \<Rightarrow> Index list \<Rightarrow> 'p list \<Rightarrow> 's \<times> Index list \<times> 'p list" where
  "retain_seq kp s [] ps = (s, [], ps)"
| "retain_seq kp s (x # xs) ps =
     (let (s1, p, kk) = kp s x (ps ! as_usize x);
          (s2, ys, ps') = retain_seq kp s1 xs (ps[as_usize x := p])
      in (s2, if kk then x # ys else ys, ps'))"

fun for_each_seq ::
  "('s \<Rightarrow> Index \<Rightarrow> 'n \<Rightarrow> 's \<times> 'n) \<Rightarrow> 's \<Rightarrow> Index list \<Rightarrow> 'n list \<Rightarrow> 's \<times> 'n list" where
  "for_each_seq f s [] nodes = (s, nodes)"
| "for_each_seq f s (x # xs) nodes =
     (let (s1, n) = f s x (nodes ! as_usize x) in for_each_seq f s1 xs (nodes[as_usize x := n]))"

lemma map_nth_same [simp]: "i < length xs \<Longrightarrow> (map f xs)[i := f (xs ! i)] = map f xs"
  by (metis length_map list_update_id nth_map)

lemmas link_list_simps = list_repr_def link_mut_def kept_def map_update nth_list_update Let_def

locale linked_slot =
  fixes d :: "'n Linked" and payload :: "'n \<Rightarrow> 'p"
  assumes lk_of_mut: "lk d (lk_mut d f n) = f (lk d n)"
    and payload_of_mut: "payload (lk_mut d f n) = payload n"
begin

declare lk_of_mut [simp] payload_of_mut [simp]

lemma ok_link_at [simp]:
  "ok (link_at d nodes i) P = (as_usize i < length nodes \<and> P (map (lk d) nodes ! as_usize i))"
  by (auto simp: link_at_def)

lemma link_mut_ok:
  "as_usize i < length nodes \<Longrightarrow>
   ok (link_mut d nodes i f) (\<lambda>nodes'.
     map (lk d) nodes' = (map (lk d) nodes)[as_usize i := f (map (lk d) nodes ! as_usize i)] \<and>
     map payload nodes' = map payload nodes)"
  by (simp add: link_mut_def map_update)

lemma link_mut_kept: "link_mut d nodes i f = Some nodes' \<Longrightarrow> i \<in> S \<Longrightarrow> kept d payload S nodes nodes'"
  by (auto simp: upd_eq_Some link_list_simps)

lemma ok_insertable [simp]:
  "ok (debug_assert_insertable d l nodes i) P \<longleftrightarrow>
     as_usize i < length nodes \<and> \<not> state_is_linked (link_state (map (lk d) nodes ! as_usize i)) \<and>
     il_len l < u32_max \<and> P ()"
  by (auto simp: debug_assert_insertable_def)

lemma push_back_ok:
  assumes r: "list_repr (map (lk d) nodes) tag l xs"
    and i: "as_usize i < length nodes" "\<not> state_is_linked (link_state (map (lk d) nodes ! as_usize i))"
    and n: "length xs < u32_max"
  shows "ok (push_back d tag l nodes i) (\<lambda>(l', nodes').
    list_repr (map (lk d) nodes') tag l' (xs @ [i]) \<and> kept d payload (insert i (set xs)) nodes nodes')"
proof -
  have ni: "i \<notin> set xs" using list_repr_unlinked [OF r i(2)] .
  show ?thesis
  proof (cases xs rule: rev_cases)
    case Nil
    then show ?thesis
      using r i n
      by (auto simp: push_back_def link_list_simps)
  next
    case (snoc ys t)
    then show ?thesis
      using r i n ni
      by (auto simp: push_back_def link_list_simps)
  qed
qed

lemma push_front_ok:
  assumes r: "list_repr (map (lk d) nodes) tag l xs"
    and i: "as_usize i < length nodes" "\<not> state_is_linked (link_state (map (lk d) nodes ! as_usize i))"
    and n: "length xs < u32_max"
  shows "ok (push_front d tag l nodes i) (\<lambda>(l', nodes').
    list_repr (map (lk d) nodes') tag l' (i # xs) \<and> kept d payload (insert i (set xs)) nodes nodes')"
proof -
  have ni: "i \<notin> set xs" using list_repr_unlinked [OF r i(2)] .
  show ?thesis
    using r i n ni
    by (cases xs) (auto simp: push_front_def link_list_simps last_or_def)
qed

text \<open>Membership and iteration read the represented sequence.\<close>

lemma collect_next:
  "chain (map (lk d) nodes) tag p xs None \<Longrightarrow>
   collect_n (iter_next d) (length xs) \<lparr>it_nodes = nodes, it_next = hd_or xs None, it_remaining = length xs\<rparr>
     = Some xs"
  by (induction xs arbitrary: p) (auto simp: iter_next_def link_at_def idx_def)

lemma collect_rev_next:
  "chain (map (lk d) nodes) tag None xs n \<Longrightarrow>
   collect_n (iter_rev_next d) (length xs) \<lparr>it_nodes = nodes, it_next = last_or None xs, it_remaining = length xs\<rparr>
     = Some (rev xs)"
  by (induction xs arbitrary: n rule: rev_induct) (auto simp: iter_rev_next_def link_at_def idx_def)

lemma any_next:
  "chain (map (lk d) nodes) tag p xs None \<Longrightarrow>
   any_n (iter_next d) q (length xs) \<lparr>it_nodes = nodes, it_next = hd_or xs None, it_remaining = length xs\<rparr>
     = Some (\<exists>x\<in>set xs. q x)"
  by (induction xs arbitrary: p) (auto simp: iter_next_def link_at_def idx_def)

lemma iter_repr: "list_repr (map (lk d) nodes) tag l xs \<Longrightarrow> iter_collect d (il_iter l nodes) = Some xs"
  by (auto simp: list_repr_def iter_collect_def il_iter_def collect_next)

lemma iter_rev_repr:
  "list_repr (map (lk d) nodes) tag l xs \<Longrightarrow> iter_rev_collect d (il_iter_rev l nodes) = Some (rev xs)"
  by (auto simp: list_repr_def iter_rev_collect_def il_iter_rev_def collect_rev_next)

lemma contains_repr:
  "list_repr (map (lk d) nodes) tag l xs \<Longrightarrow> il_contains d l nodes i = Some (i \<in> set xs)"
  by (auto simp: list_repr_def il_contains_def il_iter_def any_next)

text \<open>Removal splits the sequence at the removed index.\<close>

lemma splice_out_ok:
  assumes r: "list_repr (map (lk d) nodes) tag l (ys @ i # zs)"
  shows "ok (splice_out d l nodes i) (\<lambda>(l', nodes').
    distinct (ys @ zs) \<and> i \<notin> set (ys @ zs) \<and> chain (map (lk d) nodes') tag None (ys @ zs) None \<and>
    il_head l' = hd_or (ys @ zs) None \<and> il_tail l' = last_or None (ys @ zs) \<and> il_len l' = il_len l \<and>
    kept d payload (set (ys @ zs)) nodes nodes')"
  using r
  by (cases ys rule: rev_cases; cases zs) (auto simp: splice_out_def link_list_simps last_or_def)

lemma unlink_known_member_ok:
  assumes r: "list_repr (map (lk d) nodes) tag l (ys @ i # zs)"
  shows "ok (unlink_known_member d tag l nodes i) (\<lambda>(l', nodes').
    list_repr (map (lk d) nodes') tag l' (ys @ zs) \<and> map (lk d) nodes' ! as_usize i = link_new \<and>
    kept d payload (set (ys @ i # zs)) nodes nodes')"
proof -
  have i: "as_usize i < length nodes" using list_repr_bounds [OF r, of i] by simp
  have st: "link_state (map (lk d) nodes ! as_usize i) = state_linked tag"
    using list_repr_linked [OF r, of i] by simp
  have len: "il_len l = Suc (length (ys @ zs))" "Suc (length (ys @ zs)) \<le> u32_max"
    using r by (auto simp: list_repr_def)
  from splice_out_ok [OF r] obtain l1 n1 where sp: "splice_out d l nodes i = Some (l1, n1)"
    and c: "distinct (ys @ zs)" "i \<notin> set (ys @ zs)" "chain (map (lk d) n1) tag None (ys @ zs) None"
      "il_head l1 = hd_or (ys @ zs) None" "il_tail l1 = last_or None (ys @ zs)" "il_len l1 = il_len l"
    and k1: "kept d payload (set (ys @ zs)) nodes n1"
    by (elim okE) auto
  have i1: "as_usize i < length n1" using i kept_length [OF k1] by simp
  from link_mut_ok [OF i1, of "\<lambda>_. link_new"] obtain n2
    where m: "link_mut d n1 i (\<lambda>_. link_new) = Some n2"
      and l2: "map (lk d) n2 = (map (lk d) n1)[as_usize i := link_new]"
    by (elim okE) auto
  have "list_repr (map (lk d) n2) tag (l1\<lparr>il_len := il_len l - 1\<rparr>) (ys @ zs)"
    using c len unfolding l2 list_repr_def by (simp del: hd_or_simps last_or_simps chain_append)
  moreover have "kept d payload (set (ys @ i # zs)) nodes n2"
    by (rule kept_mono [OF kept_trans [OF k1 link_mut_kept [OF m, of "{i}"]]]) auto
  ultimately show ?thesis
    using i st len c(6) i1 by (simp add: unlink_known_member_def sp m l2)
qed

lemma pop_front_ok:
  assumes r: "list_repr (map (lk d) nodes) tag l xs"
  shows "ok (pop_front d tag l nodes) (\<lambda>(x, l', nodes').
    x = hd_or xs None \<and> list_repr (map (lk d) nodes') tag l' (tl xs) \<and>
    (\<forall>i. x = Some i \<longrightarrow> map (lk d) nodes' ! as_usize i = link_new) \<and>
    kept d payload (set xs) nodes nodes')"
proof (cases xs)
  case Nil
  then show ?thesis using r by (simp add: pop_front_def list_repr_def)
next
  case (Cons i zs)
  have h: "il_head l = Some i" using r Cons by (simp add: list_repr_def)
  have "list_repr (map (lk d) nodes) tag l ([] @ i # zs)" using r Cons by simp
  from unlink_known_member_ok [OF this] show ?thesis
    by (simp add: pop_front_def h Cons)
qed

lemma pop_back_ok:
  assumes r: "list_repr (map (lk d) nodes) tag l xs"
  shows "ok (pop_back d tag l nodes) (\<lambda>(x, l', nodes').
    x = last_or None xs \<and> list_repr (map (lk d) nodes') tag l' (butlast xs) \<and>
    (\<forall>i. x = Some i \<longrightarrow> map (lk d) nodes' ! as_usize i = link_new) \<and>
    kept d payload (set xs) nodes nodes')"
proof (cases xs rule: rev_cases)
  case Nil
  then show ?thesis using r by (simp add: pop_back_def list_repr_def)
next
  case (snoc ys i)
  have h: "il_tail l = Some i" using r snoc by (simp add: list_repr_def)
  from unlink_known_member_ok [of nodes tag l ys i "[]"] r snoc show ?thesis
    by (simp add: pop_back_def h)
qed

lemma remove1_split: "distinct (ys @ i # zs) \<Longrightarrow> remove1 i (ys @ i # zs) = ys @ zs"
  by (simp add: remove1_append)

lemma unlink_member_ok:
  assumes r: "list_repr (map (lk d) nodes) tag l xs" and "i \<in> set xs"
  shows "ok (unlink_known_member d tag l nodes i) (\<lambda>(l', nodes').
    list_repr (map (lk d) nodes') tag l' (remove1 i xs) \<and> map (lk d) nodes' ! as_usize i = link_new \<and>
    kept d payload (set xs) nodes nodes')"
proof -
  from split_list [OF assms(2)] obtain ys zs where xs: "xs = ys @ i # zs" by blast
  have "distinct xs" using r by (simp add: list_repr_def)
  then show ?thesis
    using unlink_known_member_ok [of nodes tag l ys i zs] r by (simp add: xs remove1_split)
qed

lemma remove_member_ok:
  assumes r: "list_repr (map (lk d) nodes) tag l xs" and i: "i \<in> set xs"
  shows "ok (il_remove d tag l nodes i) (\<lambda>(b, l', nodes').
    b \<and> list_repr (map (lk d) nodes') tag l' (remove1 i xs) \<and>
    map (lk d) nodes' ! as_usize i = link_new \<and> kept d payload (set xs) nodes nodes')"
  using unlink_member_ok [OF r i] list_repr_bounds [OF r i] list_repr_linked [OF r i]
  by (simp add: il_remove_def contains_repr [OF r] i)

lemma remove_unlinked:
  assumes "as_usize i < length nodes" and "\<not> state_is_linked (link_state (map (lk d) nodes ! as_usize i))"
  shows "il_remove d tag l nodes i = Some (False, l, nodes)"
  using assms by (simp add: il_remove_def link_at_def idx_def)

text \<open>The checked operations: the error on every rejected input, the operation otherwise.\<close>

lemma check_insert_repr:
  assumes r: "list_repr (map (lk d) nodes) tag l xs"
  shows "check_insert_preconditions d l nodes i = Some
    (if as_usize i \<ge> length nodes then Inl (IndexOutOfBounds i (length nodes))
     else if state_is_linked (link_state (map (lk d) nodes ! as_usize i))
     then Inl (AlreadyLinked i (state_tag (link_state (map (lk d) nodes ! as_usize i))))
     else if length xs = u32_max then Inl LengthOverflow else Inr ())"
  using r by (simp add: check_insert_preconditions_def check_index_def idx_def list_repr_def)

lemma check_remove_repr:
  assumes r: "list_repr (map (lk d) nodes) tag l xs"
  shows "check_remove_preconditions d tag l nodes i = Some
    (if i \<in> set xs then Inr ()
     else if as_usize i \<ge> length nodes then Inl (IndexOutOfBounds i (length nodes))
     else if \<not> state_is_linked (link_state (map (lk d) nodes ! as_usize i)) then Inl (NotLinked i)
     else Inl (WrongList i tag (state_tag (link_state (map (lk d) nodes ! as_usize i)))))"
  using list_repr_bounds [OF r, of i] list_repr_linked [OF r, of i]
  by (auto simp: check_remove_preconditions_def check_index_def idx_def contains_repr [OF r] Let_def)

lemma insert_after_ok:
  assumes r: "list_repr (map (lk d) nodes) tag l (ys @ at # zs)"
    and i: "as_usize i < length nodes" "\<not> state_is_linked (link_state (map (lk d) nodes ! as_usize i))"
    and n: "length (ys @ at # zs) < u32_max"
  shows "ok (insert_after d tag l nodes at i) (\<lambda>(l', nodes').
    list_repr (map (lk d) nodes') tag l' (ys @ at # i # zs) \<and>
    kept d payload (insert i (set (ys @ at # zs))) nodes nodes')"
proof (cases zs)
  case Nil
  have "il_tail l = Some at" using r Nil by (simp add: list_repr_def)
  then show ?thesis
    using push_back_ok [OF r i n] i n r
    by (simp add: insert_after_def contains_repr [OF r] Nil list_repr_def [of _ _ l])
next
  case (Cons z zs')
  have ni: "i \<notin> set (ys @ at # zs)" using list_repr_unlinked [OF r i(2)] .
  have t: "il_tail l \<noteq> Some at" using r Cons by (auto simp: list_repr_def last_or_def split: if_splits)
  show ?thesis
    using r i n ni t
    by (auto simp: insert_after_def contains_repr [OF r] Cons link_at_def link_list_simps ok_simps)
qed

lemma insert_before_ok:
  assumes r: "list_repr (map (lk d) nodes) tag l (ys @ at # zs)"
    and i: "as_usize i < length nodes" "\<not> state_is_linked (link_state (map (lk d) nodes ! as_usize i))"
    and n: "length (ys @ at # zs) < u32_max"
  shows "ok (insert_before d tag l nodes at i) (\<lambda>(l', nodes').
    list_repr (map (lk d) nodes') tag l' (ys @ i # at # zs) \<and>
    kept d payload (insert i (set (ys @ at # zs))) nodes nodes')"
proof (cases ys rule: rev_cases)
  case Nil
  have "il_head l = Some at" using r Nil by (simp add: list_repr_def)
  then show ?thesis
    using push_front_ok [OF r i n] i n r
    by (simp add: insert_before_def contains_repr [OF r] Nil list_repr_def [of _ _ l])
next
  case (snoc ys' y)
  have ni: "i \<notin> set (ys @ at # zs)" using list_repr_unlinked [OF r i(2)] .
  have h: "il_head l \<noteq> Some at" using r snoc by (cases ys') (auto simp: list_repr_def)
  show ?thesis
    using r i n ni h
    by (auto simp: insert_before_def contains_repr [OF r] snoc link_at_def link_list_simps ok_simps)
qed

lemma move_to_back_ok:
  assumes r: "list_repr (map (lk d) nodes) tag l (ys @ i # zs)"
  shows "ok (move_to_back d tag l nodes i) (\<lambda>(l', nodes').
    list_repr (map (lk d) nodes') tag l' (ys @ zs @ [i]) \<and>
    kept d payload (set (ys @ i # zs)) nodes nodes')"
proof (cases zs rule: rev_cases)
  case Nil
  then show ?thesis using r by (simp add: move_to_back_def list_repr_def)
next
  case (snoc zs' t)
  from splice_out_ok [OF r] obtain l1 n1 where sp: "splice_out d l nodes i = Some (l1, n1)"
    and c: "distinct (ys @ zs)" "i \<notin> set (ys @ zs)" "chain (map (lk d) n1) tag None (ys @ zs) None"
      "il_head l1 = hd_or (ys @ zs) None" "il_len l1 = il_len l"
    and k1: "kept d payload (set (ys @ zs)) nodes n1"
    by (elim okE) auto
  have b: "as_usize i < length n1" "as_usize t < length n1"
    using list_repr_bounds [OF r, of i] list_repr_bounds [OF r, of t] kept_length [OF k1] snoc by auto
  from link_mut_ok [OF b(1), of "link_between tag (Some t) None"] obtain n2
    where m2: "link_mut d n1 i (link_between tag (Some t) None) = Some n2" and
      l2: "map (lk d) n2 = (map (lk d) n1)[as_usize i :=
        \<lparr>prev_ix = Some t, next_ix = None, link_state = state_linked tag\<rparr>]"
    by (elim okE) (auto simp: link_between_eq)
  have k2: "kept d payload {i} n1 n2" by (rule link_mut_kept [OF m2]) simp
  have b2: "as_usize t < length n2" using b kept_length [OF k2] by simp
  from link_mut_ok [OF b2, of "\<lambda>k. k\<lparr>next_ix := Some i\<rparr>"] obtain n3
    where m3: "link_mut d n2 t (\<lambda>k. k\<lparr>next_ix := Some i\<rparr>) = Some n3" and
      l3: "map (lk d) n3 = (map (lk d) n2)[as_usize t := (map (lk d) n2 ! as_usize t)\<lparr>next_ix := Some i\<rparr>]"
    by (elim okE) auto
  have k3: "kept d payload {t} n2 n3" by (rule link_mut_kept [OF m3]) simp
  have "list_repr (map (lk d) n3) tag (l1\<lparr>il_tail := Some i\<rparr>) (ys @ zs @ [i])"
    using c b r unfolding l3 l2 list_repr_def by (auto simp: snoc nth_list_update)
  moreover have "kept d payload (set (ys @ i # zs)) nodes n3"
    by (rule kept_mono [OF kept_trans [OF kept_trans [OF k1 k2] k3]]) (auto simp: snoc)
  moreover have "il_tail l = Some t" "i \<noteq> t" using r snoc by (auto simp: list_repr_def)
  ultimately show ?thesis
    using list_repr_bounds [OF r, of i] list_repr_linked [OF r, of i]
    by (simp add: move_to_back_def contains_repr [OF r] sp m2 m3)
qed

lemma move_to_front_ok:
  assumes r: "list_repr (map (lk d) nodes) tag l (ys @ i # zs)"
  shows "ok (move_to_front d tag l nodes i) (\<lambda>(l', nodes').
    list_repr (map (lk d) nodes') tag l' (i # ys @ zs) \<and>
    kept d payload (set (ys @ i # zs)) nodes nodes')"
proof (cases ys)
  case Nil
  then show ?thesis using r by (simp add: move_to_front_def list_repr_def)
next
  case (Cons h ys')
  from splice_out_ok [OF r] obtain l1 n1 where sp: "splice_out d l nodes i = Some (l1, n1)"
    and c: "distinct (ys @ zs)" "i \<notin> set (ys @ zs)" "chain (map (lk d) n1) tag None (ys @ zs) None"
      "il_tail l1 = last_or None (ys @ zs)" "il_len l1 = il_len l"
    and k1: "kept d payload (set (ys @ zs)) nodes n1"
    by (elim okE) auto
  have b: "as_usize i < length n1" "as_usize h < length n1"
    using list_repr_bounds [OF r, of i] list_repr_bounds [OF r, of h] kept_length [OF k1] Cons by auto
  from link_mut_ok [OF b(1), of "link_between tag None (Some h)"] obtain n2
    where m2: "link_mut d n1 i (link_between tag None (Some h)) = Some n2" and
      l2: "map (lk d) n2 = (map (lk d) n1)[as_usize i :=
        \<lparr>prev_ix = None, next_ix = Some h, link_state = state_linked tag\<rparr>]"
    by (elim okE) (auto simp: link_between_eq)
  have k2: "kept d payload {i} n1 n2" by (rule link_mut_kept [OF m2]) simp
  have b2: "as_usize h < length n2" using b kept_length [OF k2] by simp
  from link_mut_ok [OF b2, of "\<lambda>k. k\<lparr>prev_ix := Some i\<rparr>"] obtain n3
    where m3: "link_mut d n2 h (\<lambda>k. k\<lparr>prev_ix := Some i\<rparr>) = Some n3" and
      l3: "map (lk d) n3 = (map (lk d) n2)[as_usize h := (map (lk d) n2 ! as_usize h)\<lparr>prev_ix := Some i\<rparr>]"
    by (elim okE) auto
  have k3: "kept d payload {h} n2 n3" by (rule link_mut_kept [OF m3]) simp
  have "list_repr (map (lk d) n3) tag (l1\<lparr>il_head := Some i\<rparr>) (i # ys @ zs)"
    using c b r unfolding l3 l2 list_repr_def by (auto simp: Cons nth_list_update)
  moreover have "kept d payload (set (ys @ i # zs)) nodes n3"
    by (rule kept_mono [OF kept_trans [OF kept_trans [OF k1 k2] k3]]) (auto simp: Cons)
  moreover have "il_head l = Some h" "i \<noteq> h" using r Cons by (auto simp: list_repr_def)
  ultimately show ?thesis
    using list_repr_bounds [OF r, of i] list_repr_linked [OF r, of i]
    by (simp add: move_to_front_def contains_repr [OF r] sp m2 m3)
qed

lemma append_ok:
  assumes r: "list_repr (map (lk d) nodes) tag l xs" and o: "list_repr (map (lk d) nodes) tag other ys"
    and disj: "set xs \<inter> set ys = {}" and n: "length xs + length ys \<le> u32_max"
  shows "ok (il_append d l other nodes) (\<lambda>(l', other', nodes').
    list_repr (map (lk d) nodes') tag l' (xs @ ys) \<and> list_repr (map (lk d) nodes') tag other' [] \<and>
    kept d payload (set xs \<union> set ys) nodes nodes')"
proof -
  consider "ys = []" | "ys \<noteq> []" "xs = []"
    | t xs' h ys' where "ys = h # ys'" "xs = xs' @ [t]"
    by (cases ys; cases xs rule: rev_cases) auto
  then show ?thesis
  proof cases
    case 1
    then show ?thesis using r o by (simp add: il_append_def il_is_empty_def list_repr_def)
  next
    case 2
    then show ?thesis
      using r o by (simp add: il_append_def il_is_empty_def list_repr_def clear_header_def)
  next
    case 3
    then show ?thesis
      using r o disj n
      by (auto simp: il_append_def il_is_empty_def clear_header_def link_list_simps last_or_def)
  qed
qed

lemma clear_loop_ok:
  "chain (map (lk d) nodes) tag p xs None \<Longrightarrow> distinct xs \<Longrightarrow>
   ok (clear_loop d (length xs) (hd_or xs None) nodes) (\<lambda>nodes'.
     (\<forall>i\<in>set xs. map (lk d) nodes' ! as_usize i = link_new) \<and> kept d payload (set xs) nodes nodes')"
proof (induction xs arbitrary: p nodes)
  case Nil
  then show ?case by simp
next
  case (Cons x xs)
  have b: "as_usize x < length nodes" using Cons.prems by simp
  from link_mut_ok [OF b, of "\<lambda>_. link_new"] obtain n1
    where m: "link_mut d nodes x (\<lambda>_. link_new) = Some n1"
      and l1: "map (lk d) n1 = (map (lk d) nodes)[as_usize x := link_new]"
    by (elim okE) auto
  have k1: "kept d payload {x} nodes n1" by (rule link_mut_kept [OF m]) simp
  have "chain (map (lk d) n1) tag (Some x) xs None" "distinct xs" "x \<notin> set xs"
    using Cons.prems by (auto simp: l1)
  from Cons.IH [OF this(1,2)] have "ok (clear_loop d (length xs) (hd_or xs None) n1) (\<lambda>nodes'.
     (\<forall>i\<in>set (x # xs). map (lk d) nodes' ! as_usize i = link_new) \<and> kept d payload (set (x # xs)) nodes nodes')"
  proof (rule ok_mono)
    fix n2 assume c: "(\<forall>i\<in>set xs. map (lk d) n2 ! as_usize i = link_new) \<and> kept d payload (set xs) n1 n2"
    then have "map (lk d) n2 ! as_usize x = link_new"
      using \<open>x \<notin> set xs\<close> b l1 by (simp add: kept_def)
    then show "(\<forall>i\<in>set (x # xs). map (lk d) n2 ! as_usize i = link_new) \<and> kept d payload (set (x # xs)) nodes n2"
      using c kept_trans [OF k1, of "set xs" n2] by simp
  qed
  then show ?case
    using Cons.prems b by (simp add: m)
qed

lemma clear_ok:
  assumes r: "list_repr (map (lk d) nodes) tag l xs"
  shows "ok (il_clear d l nodes) (\<lambda>(l', nodes').
    list_repr (map (lk d) nodes') tag l' [] \<and>
    (\<forall>i\<in>set xs. map (lk d) nodes' ! as_usize i = link_new) \<and> kept d payload (set xs) nodes nodes')"
proof -
  have c: "chain (map (lk d) nodes) tag None xs None" "distinct xs"
    and h: "il_head l = hd_or xs None" "il_len l = length xs"
    using r by (auto simp: list_repr_def)
  from clear_loop_ok [OF c] show ?thesis
    by (auto simp: il_clear_def h clear_header_def list_repr_def elim!: ok_mono)
qed

text \<open>
  \<open>retain\<close> and \<open>for_each_mut\<close> with a closure that respects the documented rule: it
  leaves the link alone and does not look at it. \<open>kp\<close> is the closure on the payload.
\<close>

lemma retain_loop_ok:
  assumes keep: "\<And>s i n. lk d (fst (snd (keep s i n))) = lk d n"
    and kp: "\<And>s i n. kp s i (payload n) =
      (fst (keep s i n), payload (fst (snd (keep s i n))), snd (snd (keep s i n)))"
  shows "list_repr (map (lk d) nodes) tag l (ys @ xs) \<Longrightarrow>
    ok (retain_loop d tag keep s l nodes (hd_or xs None)) (\<lambda>(s', l', nodes').
      case retain_seq kp s xs (map payload nodes) of (s'', zs, ps) \<Rightarrow>
        s' = s'' \<and> list_repr (map (lk d) nodes') tag l' (ys @ zs) \<and> map payload nodes' = ps)"
proof (induction xs arbitrary: ys s l nodes)
  case Nil
  then show ?case by (subst retain_loop.simps) simp
next
  case (Cons x xs)
  have b: "as_usize x < length nodes" using list_repr_bounds [OF Cons.prems, of x] by simp
  have nx: "next_ix (map (lk d) nodes ! as_usize x) = hd_or xs None"
    using Cons.prems by (simp add: list_repr_def)
  obtain s1 n1 kk where kx: "keep s x (nodes ! as_usize x) = (s1, n1, kk)" by (metis prod_cases3)
  define nodes1 where "nodes1 = nodes[as_usize x := n1]"
  have l1: "map (lk d) nodes1 = map (lk d) nodes"
    using keep [of s x "nodes ! as_usize x"] b by (simp add: nodes1_def map_update kx)
  have p1: "map payload nodes1 = (map payload nodes)[as_usize x := payload n1]"
    by (simp add: nodes1_def map_update)
  have kpx: "kp s x (payload (nodes ! as_usize x)) = (s1, payload n1, kk)"
    using kp [of s x "nodes ! as_usize x"] by (simp add: kx)
  obtain s2 zs ps where q: "retain_seq kp s1 xs (map payload nodes1) = (s2, zs, ps)" by (metis prod_cases3)
  have r1: "list_repr (map (lk d) nodes1) tag l (ys @ x # xs)" using Cons.prems by (simp add: l1)
  show ?case
  proof (cases kk)
    case True
    have "list_repr (map (lk d) nodes1) tag l ((ys @ [x]) @ xs)" using r1 by simp
    from Cons.IH [OF this, of s1] show ?thesis
      using b nx by (subst retain_loop.simps)
        (simp add: kx kpx True q flip: nodes1_def p1)
  next
    case False
    from unlink_known_member_ok [OF r1] obtain l2 n2
      where u: "unlink_known_member d tag l nodes1 x = Some (l2, n2)"
        and r2: "list_repr (map (lk d) n2) tag l2 (ys @ xs)"
        and p2: "map payload n2 = map payload nodes1"
      by (elim okE) (auto simp: kept_def)
    from Cons.IH [OF r2, of s1] show ?thesis
      using b nx by (subst retain_loop.simps)
        (simp add: kx kpx False u p2 q flip: nodes1_def p1)
  qed
qed

lemma for_each_loop_ok:
  assumes f: "\<And>s i n. lk d (snd (f s i n)) = lk d n"
  shows "chain (map (lk d) nodes) tag p xs None \<Longrightarrow>
    for_each_loop d f (length xs) (hd_or xs None) s nodes = Some (for_each_seq f s xs nodes)"
proof (induction xs arbitrary: p s nodes)
  case Nil
  then show ?case by simp
next
  case (Cons x xs)
  obtain s1 n1 where fx: "f s x (nodes ! as_usize x) = (s1, n1)" by fastforce
  have "map (lk d) (nodes[as_usize x := n1]) = map (lk d) nodes"
    using f [of s x "nodes ! as_usize x"] Cons.prems by (simp add: map_update fx)
  then have "chain (map (lk d) (nodes[as_usize x := n1])) tag (Some x) xs None"
    using Cons.prems by simp
  from Cons.IH [OF this, of s1] show ?case
    using Cons.prems by (auto simp: fx link_at_def idx_def upd_def)
qed

lemma for_each_mut_repr:
  assumes "\<And>s i n. lk d (snd (f s i n)) = lk d n" and r: "list_repr (map (lk d) nodes) tag l xs"
  shows "for_each_mut d f s l nodes = Some (for_each_seq f s xs nodes)"
  using for_each_loop_ok [of f, OF assms(1)] r by (auto simp: for_each_mut_def list_repr_def)

text \<open>\<open>validate\<close> accepts exactly the headers that represent a sequence.\<close>

lemma forward_loop_chain:
  "chain (map (lk d) nodes) tag p xs None \<Longrightarrow> count + length xs \<le> length nodes \<Longrightarrow>
   length nodes \<le> u32_max \<Longrightarrow>
   forward_loop d tag nodes count p (hd_or xs None) = Some (Inr (last_or p xs, count + length xs))"
proof (induction xs arbitrary: p count)
  case Nil
  then show ?case by (subst forward_loop.simps) simp
next
  case (Cons x xs)
  then have b: "as_usize x < length nodes" and k: "lk d (nodes ! as_usize x) = \<lparr>prev_ix = p, next_ix = hd_or xs None, link_state = state_linked tag\<rparr>"
    and c: "chain (map (lk d) nodes) tag (Some x) xs None"
    by auto
  show ?case
    using Cons.prems(2,3) b Cons.IH [OF c, of "Suc count"]
    by (subst forward_loop.simps) (simp add: k validate_index_def validate_link_def idx_def Let_def add_u32_def)
qed

lemma backward_loop_chain:
  "chain (map (lk d) nodes) tag None xs n \<Longrightarrow> count + length xs \<le> length nodes \<Longrightarrow>
   length nodes \<le> u32_max \<Longrightarrow>
   backward_loop d tag nodes count n (last_or None xs) = Some (Inr (hd_or xs n, count + length xs))"
proof (induction xs arbitrary: n count rule: rev_induct)
  case Nil
  then show ?case by (subst backward_loop.simps) simp
next
  case (snoc x xs)
  then have b: "as_usize x < length nodes" and k: "lk d (nodes ! as_usize x) = \<lparr>prev_ix = last_or None xs, next_ix = n, link_state = state_linked tag\<rparr>"
    and c: "chain (map (lk d) nodes) tag None xs (Some x)"
    by auto
  show ?case
    using snoc.prems(2,3) b snoc.IH [OF c, of "Suc count"]
    by (subst backward_loop.simps) (simp add: k validate_index_def validate_link_def idx_def Let_def add_u32_def)
qed

lemma forward_loop_result:
  "forward_loop d tag nodes count p cur = Some (Inr (q, n)) \<Longrightarrow>
   \<exists>xs. chain (map (lk d) nodes) tag p xs None \<and> cur = hd_or xs None \<and> q = last_or p xs \<and>
        n = count + length xs"
proof (induction d tag nodes count p cur rule: forward_loop.induct)
  case (1 d tag nodes count p cur)
  show ?case
  proof (cases cur)
    case None
    then have "q = p" "n = count" using "1.prems" by (simp_all add: forward_loop.simps [of _ _ _ _ _ None])
    then show ?thesis using None by (intro exI [of _ "[]"]) simp
  next
    case (Some i)
    let ?k = "lk d (nodes ! as_usize i)"
    have c: "count \<le> length nodes" "as_usize i < length nodes"
      "state_belongs_to tag (link_state ?k)" "prev_ix ?k = p" "count + 1 \<le> u32_max"
      and rec: "forward_loop d tag nodes (count + 1) (Some i) (next_ix ?k) = Some (Inr (q, n))"
      using "1.prems"
      by (auto simp: forward_loop.simps [of _ _ _ _ _ "Some i"] Some validate_index_def validate_link_def
          idx_def Let_def add_u32_def split: if_splits)
    have "\<exists>xs. chain (map (lk d) nodes) tag (Some i) xs None \<and> next_ix ?k = hd_or xs None \<and>
        q = last_or (Some i) xs \<and> n = count + 1 + length xs"
      by (rule "1.IH" [OF Some, of "()" "nodes ! as_usize i" ?k "()" "count + 1"])
        (use c rec in \<open>auto simp: validate_index_def validate_link_def idx_def add_u32_def
          state_belongs_to_def state_linked_def [symmetric]\<close>)
    then obtain xs where xs: "chain (map (lk d) nodes) tag (Some i) xs None" "next_ix ?k = hd_or xs None"
        "q = last_or (Some i) xs" "n = count + 1 + length xs"
      by blast
    have "?k = \<lparr>prev_ix = p, next_ix = hd_or xs None, link_state = state_linked tag\<rparr>"
      using c xs(2) by (simp add: state_belongs_to_def state_linked_def Link.equality)
    then have "chain (map (lk d) nodes) tag p (i # xs) None" using c xs by simp
    then show ?thesis using Some xs(3,4) by (intro exI [of _ "i # xs"]) auto
  qed
qed

lemma forward_loop_returns: "length nodes < u32_max \<Longrightarrow> forward_loop d tag nodes count p cur \<noteq> None"
proof (induction d tag nodes count p cur rule: forward_loop.induct)
  case (1 d tag nodes count p cur)
  then show ?case
    by (subst forward_loop.simps)
      (auto simp: validate_index_def idx_def Let_def add_u32_def split: option.splits sum.splits)
qed

lemma backward_loop_returns: "length nodes < u32_max \<Longrightarrow> backward_loop d tag nodes count n cur \<noteq> None"
proof (induction d tag nodes count n cur rule: backward_loop.induct)
  case (1 d tag nodes count n cur)
  then show ?case
    by (subst backward_loop.simps)
      (auto simp: validate_index_def idx_def Let_def add_u32_def split: option.splits sum.splits)
qed

lemma validate_returns: "length nodes < u32_max \<Longrightarrow> il_validate d tag l nodes \<noteq> None"
  using forward_loop_returns [of nodes tag 0 None "il_head l"]
    backward_loop_returns [of nodes tag 0 None "il_tail l"]
  by (auto simp: il_validate_def validate_forward_def validate_backward_def split: sum.splits)

lemma validate_repr:
  assumes r: "list_repr (map (lk d) nodes) tag l xs" and n: "length nodes \<le> u32_max"
  shows "il_validate d tag l nodes = Some (Inr ())"
proof (cases "xs = []")
  case True
  then show ?thesis using r by (simp add: il_validate_def validate_empty_def list_repr_def)
next
  case False
  have "length xs \<le> length nodes" using list_repr_length [OF r] by simp
  moreover have "chain (map (lk d) nodes) tag None xs None" using r by (simp add: list_repr_def)
  ultimately have "forward_loop d tag nodes 0 None (hd_or xs None) = Some (Inr (last_or None xs, length xs))"
    "backward_loop d tag nodes 0 None (last_or None xs) = Some (Inr (hd_or xs None, length xs))"
    using forward_loop_chain [of nodes tag None xs 0] backward_loop_chain [of nodes tag xs None 0] n by simp_all
  then show ?thesis
    using r False \<open>length xs \<le> length nodes\<close>
    by (auto simp: il_validate_def validate_forward_def validate_backward_def list_repr_def)
qed

lemma validate_sound:
  assumes v: "il_validate d tag l nodes = Some (Inr ())" and n: "length nodes \<le> u32_max"
  shows "\<exists>xs. list_repr (map (lk d) nodes) tag l xs"
proof (cases "il_len l = 0")
  case True
  then have "list_repr (map (lk d) nodes) tag l []"
    using v by (auto simp: il_validate_def validate_empty_def list_repr_def split: if_splits)
  then show ?thesis ..
next
  case False
  then have "il_len l \<le> length nodes"
    and "forward_loop d tag nodes 0 None (il_head l) = Some (Inr (il_tail l, il_len l))"
    using v by (auto simp: il_validate_def validate_forward_def bind_eq_Some_conv split: if_splits sum.splits)
  from forward_loop_result [OF this(2)] this(1) n show ?thesis
    by (auto simp: list_repr_def intro: chain_distinct)
qed

lemma try_push_back_ok:
  assumes r: "list_repr (map (lk d) nodes) tag l xs"
  shows "ok (try_push_back d tag l nodes i) (\<lambda>(res, l', nodes').
    case res of
      Inl e \<Rightarrow> l' = l \<and> nodes' = nodes \<and>
        (as_usize i \<ge> length nodes \<or> state_is_linked (link_state (map (lk d) nodes ! as_usize i)) \<or>
         length xs = u32_max)
    | Inr _ \<Rightarrow> list_repr (map (lk d) nodes') tag l' (xs @ [i]) \<and>
        kept d payload (insert i (set xs)) nodes nodes')"
proof -
  have "length xs \<le> u32_max" using r by (simp add: list_repr_def)
  then show ?thesis
    using push_back_ok [OF r, of i]
    by (auto simp: try_push_back_def checked_def check_insert_repr [OF r])
qed

lemma try_remove_ok:
  assumes r: "list_repr (map (lk d) nodes) tag l xs"
  shows "ok (try_remove d tag l nodes i) (\<lambda>(res, l', nodes').
    if i \<in> set xs
    then res = Inr () \<and> list_repr (map (lk d) nodes') tag l' (remove1 i xs) \<and>
      map (lk d) nodes' ! as_usize i = link_new \<and> kept d payload (set xs) nodes nodes'
    else l' = l \<and> nodes' = nodes \<and> res = Inl
      (if as_usize i \<ge> length nodes then IndexOutOfBounds i (length nodes)
       else if \<not> state_is_linked (link_state (map (lk d) nodes ! as_usize i)) then NotLinked i
       else WrongList i tag (state_tag (link_state (map (lk d) nodes ! as_usize i)))))"
  using unlink_member_ok [OF r, of i]
  by (auto simp: try_remove_def checked_def check_remove_repr [OF r])

end

end
