(* ===== verification/Aurum_Types.thy ===== *)
theory Aurum_Types
  imports Aurum_Prelude
begin

text \<open>
  The plain data the components exchange: the delivery types of
  \<open>crates/aurum-types/src/lib.rs\<close> and the settlement batches of
  \<open>crates/aurum-core/src/queue/work.rs\<close>. A \<open>Seq\<close>, a \<open>BlockIndex\<close> and a
  \<open>WordIndex\<close> are \<open>nat\<close>; a mask is a 64-bit word. A \<open>SmallVec\<close> is a list.
\<close>

section \<open>Deliveries\<close>

record DeliveryRange =
  dr_start_seq :: nat
  dr_len :: nat

definition DeliveryRange_new :: "nat \<Rightarrow> nat \<Rightarrow> DeliveryRange" where
  "DeliveryRange_new start n = \<lparr>dr_start_seq = start, dr_len = n\<rparr>"

record DeliveryMask =
  dm_block :: nat
  dm_word :: nat
  dm_mask :: "64 word"

definition DeliveryMask_new :: "nat \<Rightarrow> nat \<Rightarrow> 64 word \<Rightarrow> DeliveryMask" where
  "DeliveryMask_new b w m = \<lparr>dm_block = b, dm_word = w, dm_mask = m\<rparr>"

record DeliveryWork =
  dw_ranges :: "DeliveryRange list"
  dw_masks :: "DeliveryMask list"

definition work_default :: DeliveryWork where
  "work_default = \<lparr>dw_ranges = [], dw_masks = []\<rparr>"

definition work_clear :: "DeliveryWork \<Rightarrow> DeliveryWork" where
  "work_clear out = out\<lparr>dw_ranges := [], dw_masks := []\<rparr>"

text \<open>\<open>sum\<close> of the standard library over checked 64-bit (32-bit) values.\<close>

fun sum_u64 :: "nat list \<Rightarrow> nat option" where
  "sum_u64 [] = Some 0"
| "sum_u64 (x # xs) = do { s \<leftarrow> sum_u64 xs; add_u64 x s }"

fun sum_u32 :: "nat list \<Rightarrow> nat option" where
  "sum_u32 [] = Some 0"
| "sum_u32 (x # xs) = do { s \<leftarrow> sum_u32 xs; add_u32 x s }"

lemma sum_u64_eq: "sum_u64 xs = (if sum_list xs \<le> u64_max then Some (sum_list xs) else None)"
  by (induction xs) (auto simp: add_u64_def u64_max_def)

lemma sum_u32_eq: "sum_u32 xs = (if sum_list xs \<le> u32_max then Some (sum_list xs) else None)"
  by (induction xs) (auto simp: add_u32_def u32_max_def)

definition delivered_messages :: "DeliveryWork \<Rightarrow> nat option" where
  "delivered_messages w = do {
     range_total \<leftarrow> sum_u64 (map dr_len (dw_ranges w));
     mask_total \<leftarrow> sum_u64 (map (\<lambda>m. count_ones (dm_mask m)) (dw_masks w));
     add_u64 range_total mask_total
   }"

section \<open>Settlement batches\<close>

record AckRange =
  ar_start_seq :: nat
  ar_len :: nat

record AckMask =
  am_block :: nat
  am_word :: nat
  am_mask :: "64 word"

record AckBatch =
  ab_ranges :: "AckRange list"
  ab_masks :: "AckMask list"

definition AckRange_new :: "nat \<Rightarrow> nat \<Rightarrow> AckRange" where
  "AckRange_new start n = \<lparr>ar_start_seq = start, ar_len = n\<rparr>"

definition AckMask_new :: "nat \<Rightarrow> nat \<Rightarrow> 64 word \<Rightarrow> AckMask" where
  "AckMask_new b w m = \<lparr>am_block = b, am_word = w, am_mask = m\<rparr>"

definition ack_batch_default :: AckBatch where
  "ack_batch_default = \<lparr>ab_ranges = [], ab_masks = []\<rparr>"

definition acked_messages :: "AckBatch \<Rightarrow> nat option" where
  "acked_messages b = do {
     from_ranges \<leftarrow> sum_u64 (map ar_len (ab_ranges b));
     from_masks \<leftarrow> sum_u64 (map (\<lambda>m. count_ones (am_mask m)) (ab_masks b));
     add_u64 from_ranges from_masks
   }"

record NackRange =
  nr_start_seq :: nat
  nr_len :: nat

record NackMask =
  nm_block :: nat
  nm_word :: nat
  nm_mask :: "64 word"

datatype NackReason = Requeue | Reject | DeadLetter

record NackBatch =
  nb_ranges :: "NackRange list"
  nb_masks :: "NackMask list"
  nb_reason :: NackReason

definition NackRange_new :: "nat \<Rightarrow> nat \<Rightarrow> NackRange" where
  "NackRange_new start n = \<lparr>nr_start_seq = start, nr_len = n\<rparr>"

definition NackMask_new :: "nat \<Rightarrow> nat \<Rightarrow> 64 word \<Rightarrow> NackMask" where
  "NackMask_new b w m = \<lparr>nm_block = b, nm_word = w, nm_mask = m\<rparr>"

definition nack_batch_new :: "NackReason \<Rightarrow> NackBatch" where
  "nack_batch_new reason = \<lparr>nb_ranges = [], nb_masks = [], nb_reason = reason\<rparr>"

end
