(* ===== verification/Queue_Block.thy ===== *)
theory Queue_Block
  imports Kernels List_Repr Aurum_Types
begin

text \<open>
  \<open>crates/aurum-core/src/queue/block.rs\<close>, \<open>constants.rs\<close>, \<open>state.rs\<close>,
  \<open>stats.rs\<close> and \<open>error.rs\<close>: the block of 256 messages with its four state bitmaps,
  its two word masks and its three link slots, and the plain data of the queue. The three
  implementations of \<open>Linked\<close> for \<open>MsgBlock\<close> are interpretations of
  \<open>linked_slot\<close>.
\<close>

section \<open>Constants and plain data\<close>

definition MSGS_PER_BLOCK :: nat where
  "MSGS_PER_BLOCK = 256"

definition WORDS_PER_BLOCK :: nat where
  "WORDS_PER_BLOCK = MSGS_PER_BLOCK div 64"

datatype MessageState = Ready | Inflight | Acked | Retry | SparseReady

record QueueCounts =
  qc_published :: nat
  qc_ready :: nat
  qc_inflight :: nat
  qc_acked :: nat
  qc_retry :: nat

record QueueStats =
  total_published :: nat
  total_delivered :: nat
  total_acked :: nat
  total_nacked :: nat
  total_retried :: nat

datatype InvariantKind = BitConflict | ListMismatch | SeqOutOfOrder | WordMaskMismatch | ListCycle

record InvariantViolation =
  iv_block_idx :: nat
  iv_word_idx :: nat
  iv_kind :: InvariantKind

section \<open>The block\<close>

record MsgBlock =
  mb_base_seq :: nat
  mb_inflight :: "64 word list"
  mb_acked :: "64 word list"
  mb_retry :: "64 word list"
  mb_sparse_ready :: "64 word list"
  mb_redelivered :: "64 word list"
  mb_retry_word_mask :: "8 word"
  mb_sparse_word_mask :: "8 word"
  mb_retry_link :: Link
  mb_sparse_link :: Link
  mb_dirty_link :: Link

definition MsgBlock_new :: "nat \<Rightarrow> MsgBlock" where
  "MsgBlock_new base_seq =
     \<lparr>mb_base_seq = base_seq,
      mb_inflight = replicate WORDS_PER_BLOCK 0,
      mb_acked = replicate WORDS_PER_BLOCK 0,
      mb_retry = replicate WORDS_PER_BLOCK 0,
      mb_sparse_ready = replicate WORDS_PER_BLOCK 0,
      mb_redelivered = replicate WORDS_PER_BLOCK 0,
      mb_retry_word_mask = 0,
      mb_sparse_word_mask = 0,
      mb_retry_link = link_new,
      mb_sparse_link = link_new,
      mb_dirty_link = link_new\<rparr>"

definition is_retry_listed :: "MsgBlock \<Rightarrow> bool" where
  "is_retry_listed b \<longleftrightarrow> state_is_linked (link_state (mb_retry_link b))"

definition is_sparse_listed :: "MsgBlock \<Rightarrow> bool" where
  "is_sparse_listed b \<longleftrightarrow> state_is_linked (link_state (mb_sparse_link b))"

definition is_retry_empty :: "MsgBlock \<Rightarrow> bool" where
  "is_retry_empty b \<longleftrightarrow> mb_retry_word_mask b = 0"

definition is_sparse_ready_empty :: "MsgBlock \<Rightarrow> bool" where
  "is_sparse_ready_empty b \<longleftrightarrow> mb_sparse_word_mask b = 0"

definition mark_sparse_word :: "MsgBlock \<Rightarrow> nat \<Rightarrow> MsgBlock option" where
  "mark_sparse_word b w = do {
     one \<leftarrow> shl_u8 w;
     Some (b\<lparr>mb_sparse_word_mask := mb_sparse_word_mask b OR one\<rparr>)
   }"

definition unmark_sparse_word_if_empty :: "MsgBlock \<Rightarrow> nat \<Rightarrow> MsgBlock option" where
  "unmark_sparse_word_if_empty b w = do {
     x \<leftarrow> idx (mb_sparse_ready b) w;
     (if x = 0 then do {
        one \<leftarrow> shl_u8 w;
        Some (b\<lparr>mb_sparse_word_mask := mb_sparse_word_mask b AND NOT one\<rparr>)
      } else Some b)
   }"

definition mark_retry_word :: "MsgBlock \<Rightarrow> nat \<Rightarrow> MsgBlock option" where
  "mark_retry_word b w = do {
     one \<leftarrow> shl_u8 w;
     Some (b\<lparr>mb_retry_word_mask := mb_retry_word_mask b OR one\<rparr>)
   }"

definition unmark_retry_word_if_empty :: "MsgBlock \<Rightarrow> nat \<Rightarrow> MsgBlock option" where
  "unmark_retry_word_if_empty b w = do {
     x \<leftarrow> idx (mb_retry b) w;
     (if x = 0 then do {
        one \<leftarrow> shl_u8 w;
        Some (b\<lparr>mb_retry_word_mask := mb_retry_word_mask b AND NOT one\<rparr>)
      } else Some b)
   }"

section \<open>The link slots\<close>

definition RETRY_TAG :: "32 word" where
  "RETRY_TAG = 0"

definition SPARSE_TAG :: "32 word" where
  "SPARSE_TAG = 1"

definition DIRTY_TAG :: "32 word" where
  "DIRTY_TAG = 2"

definition retry_slot :: "MsgBlock Linked" where
  "retry_slot = \<lparr>lk = mb_retry_link, lk_mut = (\<lambda>f b. b\<lparr>mb_retry_link := f (mb_retry_link b)\<rparr>)\<rparr>"

definition sparse_slot :: "MsgBlock Linked" where
  "sparse_slot = \<lparr>lk = mb_sparse_link, lk_mut = (\<lambda>f b. b\<lparr>mb_sparse_link := f (mb_sparse_link b)\<rparr>)\<rparr>"

definition dirty_slot :: "MsgBlock Linked" where
  "dirty_slot = \<lparr>lk = mb_dirty_link, lk_mut = (\<lambda>f b. b\<lparr>mb_dirty_link := f (mb_dirty_link b)\<rparr>)\<rparr>"

lemma lk_slots [simp]:
  "lk retry_slot = mb_retry_link" "lk sparse_slot = mb_sparse_link" "lk dirty_slot = mb_dirty_link"
  by (simp_all add: retry_slot_def sparse_slot_def dirty_slot_def)

text \<open>The payload of a slot: the block with the link of the slot erased.\<close>

definition retry_payload :: "MsgBlock \<Rightarrow> MsgBlock" where
  "retry_payload b = b\<lparr>mb_retry_link := link_new\<rparr>"

definition sparse_payload :: "MsgBlock \<Rightarrow> MsgBlock" where
  "sparse_payload b = b\<lparr>mb_sparse_link := link_new\<rparr>"

definition dirty_payload :: "MsgBlock \<Rightarrow> MsgBlock" where
  "dirty_payload b = b\<lparr>mb_dirty_link := link_new\<rparr>"

interpretation rl: linked_slot retry_slot retry_payload
  by unfold_locales (simp_all add: retry_slot_def retry_payload_def)

interpretation sl: linked_slot sparse_slot sparse_payload
  by unfold_locales (simp_all add: sparse_slot_def sparse_payload_def)

interpretation dl: linked_slot dirty_slot dirty_payload
  by unfold_locales (simp_all add: dirty_slot_def dirty_payload_def)

end
