(* ===== verification/List_Properties.thy ===== *)
theory List_Properties
  imports Queue_Block
begin

text \<open>
  The properties of the intrusive list for every node type and link slot that keeps the contract
  of \<open>Linked\<close>: what is written through \<open>link_mut\<close> is what \<open>link\<close> reads, and the rest
  of the node (\<open>payload\<close>) stays. Each witness uses the retry slot of \<open>MsgBlock\<close>.
\<close>

section \<open>A concrete list\<close>

text \<open>Three blocks, the first two of them linked in the order 1, 0; block 2 is unlinked.\<close>

definition demo_link :: "Index option \<Rightarrow> Index option \<Rightarrow> Link" where
  "demo_link p n = \<lparr>prev_ix = p, next_ix = n, link_state = state_linked RETRY_TAG\<rparr>"

definition demo_nodes :: "MsgBlock list" where
  "demo_nodes =
     [(MsgBlock_new 0)\<lparr>mb_retry_link := demo_link (Some (Index 2)) None\<rparr>,
      (MsgBlock_new 256)\<lparr>mb_retry_link := demo_link None (Some (Index 1))\<rparr>,
      MsgBlock_new 512]"

definition demo_list :: IndexList where
  "demo_list = \<lparr>il_head = Some (Index 2), il_tail = Some (Index 1), il_len = 2\<rparr>"

lemma demo_indices: "as_usize (Index 1) = 0" "as_usize (Index 2) = 1" "as_usize (Index 3) = 2"
  by (simp_all add: as_usize_def)

lemma demo_repr: "list_repr (map (lk retry_slot) demo_nodes) RETRY_TAG demo_list [Index 2, Index 1]"
  by (simp add: list_repr_def demo_nodes_def demo_list_def demo_link_def demo_indices u32_max_def)

lemma demo_free: "as_usize (Index 3) < length demo_nodes"
    "\<not> state_is_linked (link_state (map (lk retry_slot) demo_nodes ! as_usize (Index 3)))"
  by (simp_all add: demo_indices demo_nodes_def MsgBlock_new_def)

lemma retry_slot_lens:
  "lk retry_slot (lk_mut retry_slot f n) = f (lk retry_slot n)"
  "retry_payload (lk_mut retry_slot f n) = retry_payload n"
  by (fact rl.lk_of_mut rl.payload_of_mut)+

section \<open>Properties\<close>





text \<open>
  C22: \<open>validate\<close> always returns, and it accepts a header exactly when the header and the links
  of the nodes form a doubly linked list without repetition, of the recorded length, whose nodes
  all carry the tag.
\<close>

theorem validate_iff_repr:
  assumes "\<And>f n. lk d (lk_mut d f n) = f (lk d n)" and "length nodes < u32_max"
  shows "ok (il_validate d tag l nodes) (\<lambda>v. v = Inr () \<longleftrightarrow> (\<exists>xs. list_repr (map (lk d) nodes) tag l xs))"
proof -
  have slot: "linked_slot d (\<lambda>_. ())" using assms(1) by unfold_locales simp_all
  obtain v where "il_validate d tag l nodes = Some v"
    using linked_slot.validate_returns [OF slot assms(2)] by blast
  then show ?thesis
    using linked_slot.validate_sound [OF slot, of tag l nodes] linked_slot.validate_repr [OF slot, of nodes tag l]
      assms(2) by auto
qed

theorem validate_iff_repr_witness:
  "il_validate retry_slot RETRY_TAG demo_list demo_nodes = Some (Inr ())"
  using validate_iff_repr [OF retry_slot_lens(1), of demo_nodes RETRY_TAG demo_list] demo_repr
  by (auto simp: ok_def demo_nodes_def u32_max_def)



text \<open>
  \<open>append\<close> of two disjoint lists of the same family gives the concatenation and leaves
  \<open>other\<close> empty; \<open>clear\<close> gives the empty list and unlinks every member; \<open>iter\<close>,
  \<open>iter_rev\<close> and \<open>contains\<close> read the sequence, its reverse and its membership.
\<close>

theorem list_bulk:
  assumes "\<And>f n. lk d (lk_mut d f n) = f (lk d n)" and "\<And>f n. payload (lk_mut d f n) = payload n"
    and "list_repr (map (lk d) nodes) tag l xs" and "list_repr (map (lk d) nodes) tag other ys"
    and "set xs \<inter> set ys = {}" and "length xs + length ys \<le> u32_max"
  shows "ok (il_append d l other nodes) (\<lambda>(l', other', nodes').
      list_repr (map (lk d) nodes') tag l' (xs @ ys) \<and> list_repr (map (lk d) nodes') tag other' [] \<and>
      kept d payload (set xs \<union> set ys) nodes nodes')
    \<and> ok (il_clear d l nodes) (\<lambda>(l', nodes').
      list_repr (map (lk d) nodes') tag l' [] \<and>
      (\<forall>i\<in>set xs. map (lk d) nodes' ! as_usize i = link_new) \<and> kept d payload (set xs) nodes nodes')
    \<and> iter_collect d (il_iter l nodes) = Some xs
    \<and> iter_rev_collect d (il_iter_rev l nodes) = Some (rev xs)
    \<and> il_contains d l nodes i = Some (i \<in> set xs)"
proof -
  have slot: "linked_slot d payload" using assms(1,2) by unfold_locales
  show ?thesis
    using linked_slot.append_ok [OF slot assms(3-)] linked_slot.clear_ok [OF slot assms(3)]
      linked_slot.iter_repr [OF slot assms(3)] linked_slot.iter_rev_repr [OF slot assms(3)]
      linked_slot.contains_repr [OF slot assms(3), of i] by blast
qed

theorem list_bulk_witness:
  "ok (il_clear retry_slot demo_list demo_nodes) (\<lambda>(l', nodes').
      list_repr (map (lk retry_slot) nodes') RETRY_TAG l' [])
   \<and> iter_rev_collect retry_slot (il_iter_rev demo_list demo_nodes) = Some [Index 1, Index 2]
   \<and> il_contains retry_slot demo_list demo_nodes (Index 3) = Some False"
  using list_bulk [OF retry_slot_lens demo_repr, of il_new "[]" "Index 3"]
  by (auto simp: u32_max_def elim!: ok_mono)

end
