(* ===== verification/Hybrid_Queue.thy ===== *)
theory Hybrid_Queue
  imports Queue_Block
begin

text \<open>
  \<open>crates/aurum-core/src/queue/hybrid.rs\<close>: the queue of the broker. Messages that were
  never delivered are the interval from \<open>sequential_head\<close> to \<open>sequential_tail\<close>; every
  other message is a bit in one of the bitmaps of its block. Blocks with messages to retry and
  blocks with messages made ready again are in two intrusive lists. Every method of
  \<open>HybridRangeBlockQueue\<close> is a definition here, on the queue as a record.
\<close>

section \<open>State\<close>

record HybridRangeBlockQueue =
  q_next_seq :: nat
  q_head :: nat
  q_tail :: nat
  q_blocks :: "MsgBlock list"
  q_sparse_blocks :: IndexList
  q_retry_blocks :: IndexList
  q_stats :: QueueStats

definition stats_default :: QueueStats where
  "stats_default = \<lparr>total_published = 0, total_delivered = 0, total_acked = 0, total_nacked = 0,
     total_retried = 0\<rparr>"

definition q_empty :: HybridRangeBlockQueue where
  "q_empty = \<lparr>q_next_seq = 0, q_head = 0, q_tail = 0, q_blocks = [],
     q_sparse_blocks = il_new, q_retry_blocks = il_new, q_stats = stats_default\<rparr>"

definition locate :: "nat \<Rightarrow> nat \<times> nat" where
  "locate seq = (seq div MSGS_PER_BLOCK, seq mod MSGS_PER_BLOCK)"

definition q_len :: "HybridRangeBlockQueue \<Rightarrow> nat" where
  "q_len q = q_next_seq q"

definition q_is_empty :: "HybridRangeBlockQueue \<Rightarrow> bool" where
  "q_is_empty q \<longleftrightarrow> q_next_seq q = 0"

definition sequential_ready_len :: "HybridRangeBlockQueue \<Rightarrow> nat" where
  "sequential_ready_len q = q_tail q - q_head q"

text \<open>The five counters of \<open>QueueStats\<close> are 64-bit and only grow.\<close>

definition bump_published :: "nat \<Rightarrow> HybridRangeBlockQueue \<Rightarrow> HybridRangeBlockQueue option" where
  "bump_published n q = do {
     t \<leftarrow> add_u64 (total_published (q_stats q)) n;
     Some (q\<lparr>q_stats := (q_stats q)\<lparr>total_published := t\<rparr>\<rparr>)
   }"

definition bump_delivered :: "nat \<Rightarrow> HybridRangeBlockQueue \<Rightarrow> HybridRangeBlockQueue option" where
  "bump_delivered n q = do {
     t \<leftarrow> add_u64 (total_delivered (q_stats q)) n;
     Some (q\<lparr>q_stats := (q_stats q)\<lparr>total_delivered := t\<rparr>\<rparr>)
   }"

definition bump_acked :: "nat \<Rightarrow> HybridRangeBlockQueue \<Rightarrow> HybridRangeBlockQueue option" where
  "bump_acked n q = do {
     t \<leftarrow> add_u64 (total_acked (q_stats q)) n;
     Some (q\<lparr>q_stats := (q_stats q)\<lparr>total_acked := t\<rparr>\<rparr>)
   }"

definition bump_nacked :: "nat \<Rightarrow> HybridRangeBlockQueue \<Rightarrow> HybridRangeBlockQueue option" where
  "bump_nacked n q = do {
     t \<leftarrow> add_u64 (total_nacked (q_stats q)) n;
     Some (q\<lparr>q_stats := (q_stats q)\<lparr>total_nacked := t\<rparr>\<rparr>)
   }"

definition bump_retried :: "nat \<Rightarrow> HybridRangeBlockQueue \<Rightarrow> HybridRangeBlockQueue option" where
  "bump_retried n q = do {
     t \<leftarrow> add_u64 (total_retried (q_stats q)) n;
     Some (q\<lparr>q_stats := (q_stats q)\<lparr>total_retried := t\<rparr>\<rparr>)
   }"

section \<open>Publishing\<close>

function grow_blocks :: "MsgBlock list \<Rightarrow> nat \<Rightarrow> MsgBlock list" where
  "grow_blocks bs needed =
     (if length bs < needed
      then grow_blocks (bs @ [MsgBlock_new (length bs * MSGS_PER_BLOCK)]) needed
      else bs)"
  by pat_completeness auto
termination
  by (relation "measure (\<lambda>(bs, needed). needed - length bs)") auto

declare grow_blocks.simps [simp del]

definition publish_contiguous ::
  "HybridRangeBlockQueue \<Rightarrow> nat \<Rightarrow> (DeliveryRange \<times> HybridRangeBlockQueue) option" where
  "publish_contiguous q count =
     (if count = 0 then Some (DeliveryRange_new (q_next_seq q) 0, q)
      else do {
        let start = q_next_seq q;
        stop \<leftarrow> add_u64 start count;
        let needed_blocks = (stop + (MSGS_PER_BLOCK - 1)) div MSGS_PER_BLOCK;
        let q = q\<lparr>q_blocks := grow_blocks (q_blocks q) needed_blocks, q_tail := stop, q_next_seq := stop\<rparr>;
        q \<leftarrow> bump_published count q;
        Some (DeliveryRange_new start count, q)
      })"

function with_messages_loop :: "HybridRangeBlockQueue \<Rightarrow> nat \<Rightarrow> HybridRangeBlockQueue option" where
  "with_messages_loop q remaining =
     (if remaining > 0 then do {
        let chunk = min remaining u32_max;
        (_, q) \<leftarrow> publish_contiguous q chunk;
        with_messages_loop q (remaining - chunk)
      } else Some q)"
  by pat_completeness auto
termination
  by (relation "measure (\<lambda>(q, remaining). remaining)") (auto simp: u32_max_def)

declare with_messages_loop.simps [simp del]

definition with_messages :: "nat \<Rightarrow> HybridRangeBlockQueue option" where
  "with_messages total_messages = with_messages_loop q_empty total_messages"

section \<open>Membership of the two lists\<close>

definition ensure_retry_listed ::
  "HybridRangeBlockQueue \<Rightarrow> Index \<Rightarrow> HybridRangeBlockQueue option" where
  "ensure_retry_listed q i = do {
     b \<leftarrow> idx (q_blocks q) (as_usize i);
     (if is_retry_listed b then Some q
      else do {
        (l, bs) \<leftarrow> push_back retry_slot RETRY_TAG (q_retry_blocks q) (q_blocks q) i;
        Some (q\<lparr>q_retry_blocks := l, q_blocks := bs\<rparr>)
      })
   }"

definition ensure_sparse_listed ::
  "HybridRangeBlockQueue \<Rightarrow> Index \<Rightarrow> HybridRangeBlockQueue option" where
  "ensure_sparse_listed q i = do {
     b \<leftarrow> idx (q_blocks q) (as_usize i);
     (if is_sparse_listed b then Some q
      else do {
        (l, bs) \<leftarrow> push_back sparse_slot SPARSE_TAG (q_sparse_blocks q) (q_blocks q) i;
        Some (q\<lparr>q_sparse_blocks := l, q_blocks := bs\<rparr>)
      })
   }"

section \<open>Ranges\<close>

text \<open>
  \<open>mark_inflight_range\<close>, \<open>ack_range\<close> and \<open>nack_range_to_retry\<close> share their loop
  over the blocks of a range; \<open>body q block_idx bit take\<close> is what they do in one block.
\<close>

function block_range_loop ::
  "(HybridRangeBlockQueue \<Rightarrow> nat \<Rightarrow> nat \<Rightarrow> nat \<Rightarrow> HybridRangeBlockQueue option) \<Rightarrow>
   HybridRangeBlockQueue \<Rightarrow> nat \<Rightarrow> nat \<Rightarrow> HybridRangeBlockQueue option" where
  "block_range_loop body q seq stop =
     (if seq < stop then do {
        let (block_idx, b) = locate seq;
        let tk = min (MSGS_PER_BLOCK - b) (stop - seq);
        q \<leftarrow> body q block_idx b tk;
        block_range_loop body q (seq + tk) stop
      } else Some q)"
  by pat_completeness auto
termination
  by (relation "measure (\<lambda>(body, q, seq, stop). stop - seq)") (auto simp: locate_def MSGS_PER_BLOCK_def)

declare block_range_loop.simps [simp del]

definition mark_inflight_block ::
  "HybridRangeBlockQueue \<Rightarrow> nat \<Rightarrow> nat \<Rightarrow> nat \<Rightarrow> HybridRangeBlockQueue option" where
  "mark_inflight_block q block_idx b tk = do {
     blk \<leftarrow> idx (q_blocks q) block_idx;
     ws \<leftarrow> set_range (mb_inflight blk) b tk;
     Some (q\<lparr>q_blocks := (q_blocks q)[block_idx := blk\<lparr>mb_inflight := ws\<rparr>]\<rparr>)
   }"

definition mark_inflight_range ::
  "HybridRangeBlockQueue \<Rightarrow> nat \<Rightarrow> nat \<Rightarrow> HybridRangeBlockQueue option" where
  "mark_inflight_range q start n =
     (if n = 0 then Some q
      else do { stop \<leftarrow> add_u64 start n; block_range_loop mark_inflight_block q start stop })"

definition ack_block ::
  "HybridRangeBlockQueue \<Rightarrow> nat \<Rightarrow> nat \<Rightarrow> nat \<Rightarrow> HybridRangeBlockQueue option" where
  "ack_block q block_idx b tk = do {
     blk \<leftarrow> idx (q_blocks q) block_idx;
     a \<leftarrow> set_range (mb_acked blk) b tk;
     f \<leftarrow> clear_range (mb_inflight blk) b tk;
     Some (q\<lparr>q_blocks := (q_blocks q)[block_idx := blk\<lparr>mb_acked := a, mb_inflight := f\<rparr>]\<rparr>)
   }"

definition ack_range :: "HybridRangeBlockQueue \<Rightarrow> nat \<Rightarrow> nat \<Rightarrow> HybridRangeBlockQueue option" where
  "ack_range q start n =
     (if n = 0 then Some q
      else do {
        stop \<leftarrow> add_u64 start n;
        q \<leftarrow> block_range_loop ack_block q start stop;
        bump_acked n q
      })"

text \<open>\<open>for w in first_word..=last_word\<close> sets the bits of the words a range touches.\<close>

fun mark_words :: "nat list \<Rightarrow> 8 word \<Rightarrow> 8 word option" where
  "mark_words [] m = Some m"
| "mark_words (w # ws) m = do { one \<leftarrow> shl_u8 w; mark_words ws (m OR one) }"

definition nack_block ::
  "HybridRangeBlockQueue \<Rightarrow> nat \<Rightarrow> nat \<Rightarrow> nat \<Rightarrow> HybridRangeBlockQueue option" where
  "nack_block q block_idx b tk = do {
     blk \<leftarrow> idx (q_blocks q) block_idx;
     f \<leftarrow> clear_range (mb_inflight blk) b tk;
     r \<leftarrow> set_range (mb_retry blk) b tk;
     let first_word = b div 64;
     t \<leftarrow> sub_uint (b + tk) 1;
     let last_word = t div 64;
     m \<leftarrow> mark_words [first_word..<Suc last_word] (mb_retry_word_mask blk);
     let q = q\<lparr>q_blocks := (q_blocks q)[block_idx :=
       blk\<lparr>mb_inflight := f, mb_retry := r, mb_retry_word_mask := m\<rparr>]\<rparr>;
     i \<leftarrow> index_from_usize block_idx;
     ensure_retry_listed q i
   }"

definition nack_range_to_retry ::
  "HybridRangeBlockQueue \<Rightarrow> nat \<Rightarrow> nat \<Rightarrow> HybridRangeBlockQueue option" where
  "nack_range_to_retry q start n =
     (if n = 0 then Some q
      else do {
        stop \<leftarrow> add_u64 start n;
        q \<leftarrow> block_range_loop nack_block q start stop;
        bump_nacked n q
      })"

section \<open>Masks and single messages\<close>

definition ack_word ::
  "HybridRangeBlockQueue \<Rightarrow> nat \<Rightarrow> nat \<Rightarrow> 64 word \<Rightarrow> HybridRangeBlockQueue option" where
  "ack_word q b w m = do {
     blk \<leftarrow> idx (q_blocks q) b;
     f \<leftarrow> upd (mb_inflight blk) w (\<lambda>x. x AND NOT m);
     a \<leftarrow> upd (mb_acked blk) w (\<lambda>x. x OR m);
     Some (q\<lparr>q_blocks := (q_blocks q)[b := blk\<lparr>mb_inflight := f, mb_acked := a\<rparr>]\<rparr>)
   }"

definition ack_mask :: "HybridRangeBlockQueue \<Rightarrow> DeliveryMask \<Rightarrow> HybridRangeBlockQueue option" where
  "ack_mask q dm = do {
     q \<leftarrow> ack_word q (dm_block dm) (dm_word dm) (dm_mask dm);
     bump_acked (count_ones (dm_mask dm)) q
   }"

definition ack_id :: "HybridRangeBlockQueue \<Rightarrow> nat \<Rightarrow> HybridRangeBlockQueue option" where
  "ack_id q seq =
     (if seq \<ge> q_next_seq q then Some q
      else do {
        let (block_idx, b) = locate seq;
        m \<leftarrow> shl_u64 1 (b mod 64);
        q \<leftarrow> ack_word q block_idx (b div 64) m;
        bump_acked 1 q
      })"

definition nack_word ::
  "HybridRangeBlockQueue \<Rightarrow> nat \<Rightarrow> nat \<Rightarrow> 64 word \<Rightarrow> HybridRangeBlockQueue option" where
  "nack_word q b w m = do {
     blk \<leftarrow> idx (q_blocks q) b;
     f \<leftarrow> upd (mb_inflight blk) w (\<lambda>x. x AND NOT m);
     r \<leftarrow> upd (mb_retry blk) w (\<lambda>x. x OR m);
     one \<leftarrow> shl_u8 w;
     let q = q\<lparr>q_blocks := (q_blocks q)[b :=
       blk\<lparr>mb_inflight := f, mb_retry := r, mb_retry_word_mask := mb_retry_word_mask blk OR one\<rparr>]\<rparr>;
     i \<leftarrow> index_new (of_nat b);
     ensure_retry_listed q i
   }"

definition nack_mask_to_retry ::
  "HybridRangeBlockQueue \<Rightarrow> DeliveryMask \<Rightarrow> HybridRangeBlockQueue option" where
  "nack_mask_to_retry q dm = do {
     q \<leftarrow> nack_word q (dm_block dm) (dm_word dm) (dm_mask dm);
     bump_nacked (count_ones (dm_mask dm)) q
   }"

section \<open>Batches\<close>

fun for_each_q ::
  "('a \<Rightarrow> HybridRangeBlockQueue \<Rightarrow> HybridRangeBlockQueue option) \<Rightarrow> 'a list \<Rightarrow> HybridRangeBlockQueue
   \<Rightarrow> HybridRangeBlockQueue option" where
  "for_each_q f [] q = Some q"
| "for_each_q f (x # xs) q = do { q \<leftarrow> f x q; for_each_q f xs q }"

definition ack_work :: "HybridRangeBlockQueue \<Rightarrow> DeliveryWork \<Rightarrow> HybridRangeBlockQueue option" where
  "ack_work q work = do {
     q \<leftarrow> for_each_q (\<lambda>r q. ack_range q (dr_start_seq r) (dr_len r)) (dw_ranges work) q;
     for_each_q (\<lambda>m q. ack_mask q m) (dw_masks work) q
   }"

definition nack_work_to_retry ::
  "HybridRangeBlockQueue \<Rightarrow> DeliveryWork \<Rightarrow> HybridRangeBlockQueue option" where
  "nack_work_to_retry q work = do {
     q \<leftarrow> for_each_q (\<lambda>r q. nack_range_to_retry q (dr_start_seq r) (dr_len r)) (dw_ranges work) q;
     for_each_q (\<lambda>m q. nack_mask_to_retry q m) (dw_masks work) q
   }"

definition apply_ack_batch :: "HybridRangeBlockQueue \<Rightarrow> AckBatch \<Rightarrow> HybridRangeBlockQueue option" where
  "apply_ack_batch q batch = do {
     q \<leftarrow> for_each_q (\<lambda>r q. ack_range q (ar_start_seq r) (ar_len r)) (ab_ranges batch) q;
     for_each_q (\<lambda>m q. do {
         q \<leftarrow> ack_word q (am_block m) (am_word m) (am_mask m);
         bump_acked (count_ones (am_mask m)) q
       }) (ab_masks batch) q
   }"

definition apply_nack_batch :: "HybridRangeBlockQueue \<Rightarrow> NackBatch \<Rightarrow> HybridRangeBlockQueue option" where
  "apply_nack_batch q batch = do {
     q \<leftarrow> for_each_q (\<lambda>r q. nack_range_to_retry q (nr_start_seq r) (nr_len r)) (nb_ranges batch) q;
     for_each_q (\<lambda>m q. do {
         q \<leftarrow> nack_word q (nm_block m) (nm_word m) (nm_mask m);
         bump_nacked (count_ones (nm_mask m)) q
       }) (nb_masks batch) q
   }"

section \<open>Delivery\<close>

definition take_lowest_bits_local :: "64 word \<Rightarrow> nat \<Rightarrow> 64 word option" where
  "take_lowest_bits_local w mx =
     (if w = 0 \<or> mx = 0 then Some 0
      else if count_ones w \<le> mx then Some w
      else take_lowest_loop mx w 0)"

text \<open>
  One pass over the words of a block, \<open>for word_idx in 0..WORDS_PER_BLOCK\<close>: the result is
  the block, \<open>remaining\<close>, \<open>delivered\<close> and the masks pushed to \<open>out\<close>.
\<close>

fun sparse_words ::
  "Index \<Rightarrow> nat list \<Rightarrow> MsgBlock \<Rightarrow> nat \<Rightarrow> nat \<Rightarrow> DeliveryMask list
   \<Rightarrow> (MsgBlock \<times> nat \<times> nat \<times> DeliveryMask list) option" where
  "sparse_words i [] blk remaining delivered masks = Some (blk, remaining, delivered, masks)"
| "sparse_words i (w # ws) blk remaining delivered masks =
     (if remaining = 0 then Some (blk, remaining, delivered, masks)
      else do {
        word_bit \<leftarrow> shl_u8 w;
        (if mb_sparse_word_mask blk AND word_bit = 0
         then sparse_words i ws blk remaining delivered masks
         else do {
           available \<leftarrow> idx (mb_sparse_ready blk) w;
           (if available = 0
            then sparse_words i ws
              (blk\<lparr>mb_sparse_word_mask := mb_sparse_word_mask blk AND NOT word_bit\<rparr>)
              remaining delivered masks
            else do {
              m \<leftarrow> take_lowest_bits_local available remaining;
              sp \<leftarrow> upd (mb_sparse_ready blk) w (\<lambda>x. x AND NOT m);
              f \<leftarrow> upd (mb_inflight blk) w (\<lambda>x. x OR m);
              let blk = blk\<lparr>mb_sparse_ready := sp, mb_inflight := f\<rparr>;
              left \<leftarrow> idx (mb_sparse_ready blk) w;
              let blk = (if left = 0
                then blk\<lparr>mb_sparse_word_mask := mb_sparse_word_mask blk AND NOT word_bit\<rparr> else blk);
              let masks = masks @ [DeliveryMask_new (unat (index_get i)) w m];
              let count = count_ones m;
              remaining \<leftarrow> sub_uint remaining count;
              delivered \<leftarrow> add_u32 delivered count;
              sparse_words i ws blk remaining delivered masks
            })
         })
      })"

partial_function (option) deliver_sparse_loop ::
  "HybridRangeBlockQueue \<Rightarrow> nat \<Rightarrow> nat \<Rightarrow> DeliveryMask list
   \<Rightarrow> (nat \<times> DeliveryMask list \<times> HybridRangeBlockQueue) option" where
  "deliver_sparse_loop q remaining delivered masks =
     (if remaining = 0 then Some (delivered, masks, q)
      else do {
        (x, l, bs) \<leftarrow> pop_front sparse_slot SPARSE_TAG (q_sparse_blocks q) (q_blocks q);
        let q = q\<lparr>q_sparse_blocks := l, q_blocks := bs\<rparr>;
        (case x of
           None \<Rightarrow> Some (delivered, masks, q)
         | Some i \<Rightarrow> do {
             blk \<leftarrow> idx (q_blocks q) (as_usize i);
             (blk, remaining, delivered, masks) \<leftarrow>
               sparse_words i [0..<WORDS_PER_BLOCK] blk remaining delivered masks;
             let q = q\<lparr>q_blocks := (q_blocks q)[as_usize i := blk]\<rparr>;
             q \<leftarrow> (if mb_sparse_word_mask blk \<noteq> 0
                  then do {
                    (l, bs) \<leftarrow> push_front sparse_slot SPARSE_TAG (q_sparse_blocks q) (q_blocks q) i;
                    Some (q\<lparr>q_sparse_blocks := l, q_blocks := bs\<rparr>)
                  } else Some q);
             deliver_sparse_loop q remaining delivered masks
           })
      })"

declare deliver_sparse_loop.simps [code]

definition deliver_sparse_masks ::
  "HybridRangeBlockQueue \<Rightarrow> nat \<Rightarrow> DeliveryWork \<Rightarrow> (nat \<times> DeliveryWork \<times> HybridRangeBlockQueue) option" where
  "deliver_sparse_masks q max_messages out = do {
     (delivered, masks, q) \<leftarrow> deliver_sparse_loop q max_messages 0 (dw_masks out);
     Some (delivered, out\<lparr>dw_masks := masks\<rparr>, q)
   }"

definition deliver ::
  "HybridRangeBlockQueue \<Rightarrow> nat \<Rightarrow> DeliveryWork \<Rightarrow> (nat \<times> DeliveryWork \<times> HybridRangeBlockQueue) option" where
  "deliver q max_messages out = do {
     let out = work_clear out;
     (if max_messages = 0 then Some (0, out, q)
      else do {
        let available = min (sequential_ready_len q) max_messages;
        (remaining, delivered, out, q) \<leftarrow>
          (if available \<noteq> 0 then do {
             let start = q_head q;
             q \<leftarrow> mark_inflight_range q start available;
             h \<leftarrow> add_u64 (q_head q) available;
             let q = q\<lparr>q_head := h\<rparr>;
             let out = out\<lparr>dw_ranges := dw_ranges out @ [DeliveryRange_new start available]\<rparr>;
             remaining \<leftarrow> sub_uint max_messages available;
             delivered \<leftarrow> add_u32 0 available;
             Some (remaining, delivered, out, q)
           } else Some (max_messages, 0, out, q));
        (delivered, out, q) \<leftarrow>
          (if remaining \<noteq> 0 then do {
             (n, out, q) \<leftarrow> deliver_sparse_masks q remaining out;
             delivered \<leftarrow> add_u32 delivered n;
             Some (delivered, out, q)
           } else Some (delivered, out, q));
        q \<leftarrow> bump_delivered delivered q;
        Some (delivered, out, q)
      })
   }"

section \<open>Retrying\<close>

fun retry_words :: "nat list \<Rightarrow> MsgBlock \<Rightarrow> nat \<Rightarrow> (MsgBlock \<times> nat) option" where
  "retry_words [] blk moved = Some (blk, moved)"
| "retry_words (w # ws) blk moved = do {
     m \<leftarrow> idx (mb_retry blk) w;
     (if m = 0 then retry_words ws blk moved
      else do {
        r \<leftarrow> upd (mb_retry blk) w (\<lambda>_. 0);
        sp \<leftarrow> upd (mb_sparse_ready blk) w (\<lambda>x. x OR m);
        rd \<leftarrow> upd (mb_redelivered blk) w (\<lambda>x. x OR m);
        moved \<leftarrow> add_u32 moved (count_ones m);
        retry_words ws (blk\<lparr>mb_retry := r, mb_sparse_ready := sp, mb_redelivered := rd\<rparr>) moved
      })
   }"

partial_function (option) retry_all_loop ::
  "HybridRangeBlockQueue \<Rightarrow> nat \<Rightarrow> (nat \<times> HybridRangeBlockQueue) option" where
  "retry_all_loop q moved = do {
     (x, l, bs) \<leftarrow> pop_front retry_slot RETRY_TAG (q_retry_blocks q) (q_blocks q);
     let q = q\<lparr>q_retry_blocks := l, q_blocks := bs\<rparr>;
     (case x of
        None \<Rightarrow> Some (moved, q)
      | Some i \<Rightarrow> do {
          blk \<leftarrow> idx (q_blocks q) (as_usize i);
          let word_mask = mb_retry_word_mask blk;
          (blk, moved) \<leftarrow> retry_words [0..<WORDS_PER_BLOCK] blk moved;
          let blk = blk\<lparr>mb_retry_word_mask := 0\<rparr>;
          let blk = blk\<lparr>mb_sparse_word_mask := mb_sparse_word_mask blk OR word_mask\<rparr>;
          q \<leftarrow> ensure_sparse_listed (q\<lparr>q_blocks := (q_blocks q)[as_usize i := blk]\<rparr>) i;
          retry_all_loop q moved
        })
   }"

declare retry_all_loop.simps [code]

definition retry_all_now :: "HybridRangeBlockQueue \<Rightarrow> (nat \<times> HybridRangeBlockQueue) option" where
  "retry_all_now q = do {
     (moved, q) \<leftarrow> retry_all_loop q 0;
     q \<leftarrow> bump_retried moved q;
     Some (moved, q)
   }"

section \<open>Inspection\<close>

definition redelivered_mask :: "HybridRangeBlockQueue \<Rightarrow> nat \<Rightarrow> nat \<Rightarrow> 64 word \<Rightarrow> 64 word option" where
  "redelivered_mask q b w delivery_mask = do {
     blk \<leftarrow> idx (q_blocks q) b;
     x \<leftarrow> idx (mb_redelivered blk) w;
     Some (x AND delivery_mask)
   }"

definition debug_state_of :: "HybridRangeBlockQueue \<Rightarrow> nat \<Rightarrow> MessageState option option" where
  "debug_state_of q seq =
     (if seq \<ge> q_next_seq q then Some None
      else if seq \<ge> q_head q \<and> seq < q_tail q then Some (Some Ready)
      else do {
        let (block_idx, b) = locate seq;
        (if block_idx \<ge> length (q_blocks q) then Some None
         else do {
           blk \<leftarrow> idx (q_blocks q) block_idx;
           let w = b div 64;
           m \<leftarrow> shl_u64 1 (b mod 64);
           a \<leftarrow> idx (mb_acked blk) w;
           (if a AND m \<noteq> 0 then Some (Some Acked)
            else do {
              f \<leftarrow> idx (mb_inflight blk) w;
              (if f AND m \<noteq> 0 then Some (Some Inflight)
               else do {
                 r \<leftarrow> idx (mb_retry blk) w;
                 (if r AND m \<noteq> 0 then Some (Some Retry)
                  else do {
                    sp \<leftarrow> idx (mb_sparse_ready blk) w;
                    (if sp AND m \<noteq> 0 then Some (Some SparseReady) else Some None)
                  })
               })
            })
         })
      })"

text \<open>The four running counters are \<open>(sparse_ready, inflight, acked, retry)\<close>.\<close>

fun count_words ::
  "MsgBlock \<Rightarrow> nat list \<Rightarrow> nat \<times> nat \<times> nat \<times> nat \<Rightarrow> (nat \<times> nat \<times> nat \<times> nat) option" where
  "count_words blk [] c = Some c"
| "count_words blk (w # ws) (s, f, a, r) = do {
     xf \<leftarrow> idx (mb_inflight blk) w;
     f \<leftarrow> add_u64 f (count_ones xf);
     xa \<leftarrow> idx (mb_acked blk) w;
     a \<leftarrow> add_u64 a (count_ones xa);
     one \<leftarrow> shl_u8 w;
     s \<leftarrow> (if mb_sparse_word_mask blk AND one \<noteq> 0
          then do { xs \<leftarrow> idx (mb_sparse_ready blk) w; add_u64 s (count_ones xs) } else Some s);
     r \<leftarrow> (if mb_retry_word_mask blk AND one \<noteq> 0
          then do { xr \<leftarrow> idx (mb_retry blk) w; add_u64 r (count_ones xr) } else Some r);
     count_words blk ws (s, f, a, r)
   }"

fun count_blocks :: "MsgBlock list \<Rightarrow> nat \<times> nat \<times> nat \<times> nat \<Rightarrow> (nat \<times> nat \<times> nat \<times> nat) option" where
  "count_blocks [] c = Some c"
| "count_blocks (blk # bs) c = do { c \<leftarrow> count_words blk [0..<WORDS_PER_BLOCK] c; count_blocks bs c }"

definition debug_counts :: "HybridRangeBlockQueue \<Rightarrow> QueueCounts option" where
  "debug_counts q = do {
     (s, f, a, r) \<leftarrow> count_blocks (q_blocks q) (0, 0, 0, 0);
     ready \<leftarrow> add_u64 (sequential_ready_len q) s;
     Some \<lparr>qc_published = q_next_seq q, qc_ready = ready, qc_inflight = f, qc_acked = a, qc_retry = r\<rparr>
   }"

section \<open>The queue's own validation\<close>

fun validate_words :: "nat \<Rightarrow> MsgBlock \<Rightarrow> nat list \<Rightarrow> (InvariantViolation + unit) option" where
  "validate_words block_idx blk [] = Some (Inr ())"
| "validate_words block_idx blk (w # ws) = do {
     f \<leftarrow> idx (mb_inflight blk) w;
     a \<leftarrow> idx (mb_acked blk) w;
     r \<leftarrow> idx (mb_retry blk) w;
     sp \<leftarrow> idx (mb_sparse_ready blk) w;
     (if f AND a \<noteq> 0 \<or> f AND r \<noteq> 0 \<or> f AND sp \<noteq> 0 \<or> a AND r \<noteq> 0 \<or> a AND sp \<noteq> 0 \<or> r AND sp \<noteq> 0
      then Some (Inl \<lparr>iv_block_idx = block_idx, iv_word_idx = w, iv_kind = BitConflict\<rparr>)
      else do {
        word_bit \<leftarrow> shl_u8 w;
        (if (r \<noteq> 0) \<noteq> (mb_retry_word_mask blk AND word_bit \<noteq> 0)
         then Some (Inl \<lparr>iv_block_idx = block_idx, iv_word_idx = w, iv_kind = WordMaskMismatch\<rparr>)
         else if (sp \<noteq> 0) \<noteq> (mb_sparse_word_mask blk AND word_bit \<noteq> 0)
         then Some (Inl \<lparr>iv_block_idx = block_idx, iv_word_idx = w, iv_kind = WordMaskMismatch\<rparr>)
         else validate_words block_idx blk ws)
      })
   }"

fun validate_blocks :: "nat \<Rightarrow> MsgBlock list \<Rightarrow> (InvariantViolation + unit) option" where
  "validate_blocks block_idx [] = Some (Inr ())"
| "validate_blocks block_idx (blk # bs) = do {
     v \<leftarrow> validate_words block_idx blk [0..<WORDS_PER_BLOCK];
     (case v of
        Inl e \<Rightarrow> Some (Inl e)
      | Inr _ \<Rightarrow>
          if (mb_retry_word_mask blk \<noteq> 0) \<noteq> is_retry_listed blk
          then Some (Inl \<lparr>iv_block_idx = block_idx, iv_word_idx = 0, iv_kind = ListMismatch\<rparr>)
          else if (mb_sparse_word_mask blk \<noteq> 0) \<noteq> is_sparse_listed blk
          then Some (Inl \<lparr>iv_block_idx = block_idx, iv_word_idx = 0, iv_kind = ListMismatch\<rparr>)
          else validate_blocks (Suc block_idx) bs)
   }"

definition validate_invariants :: "HybridRangeBlockQueue \<Rightarrow> (InvariantViolation + unit) option" where
  "validate_invariants q =
     (if q_head q > q_tail q
      then Some (Inl \<lparr>iv_block_idx = 0, iv_word_idx = 0, iv_kind = SeqOutOfOrder\<rparr>)
      else if q_tail q > q_next_seq q
      then Some (Inl \<lparr>iv_block_idx = 0, iv_word_idx = 0, iv_kind = SeqOutOfOrder\<rparr>)
      else do {
        v \<leftarrow> validate_blocks 0 (q_blocks q);
        (case v of
           Inl e \<Rightarrow> Some (Inl e)
         | Inr _ \<Rightarrow> do {
             vr \<leftarrow> il_validate retry_slot RETRY_TAG (q_retry_blocks q) (q_blocks q);
             (case vr of
                Inl _ \<Rightarrow> Some (Inl \<lparr>iv_block_idx = 0, iv_word_idx = 0, iv_kind = ListCycle\<rparr>)
              | Inr _ \<Rightarrow> do {
                  vs \<leftarrow> il_validate sparse_slot SPARSE_TAG (q_sparse_blocks q) (q_blocks q);
                  (case vs of
                     Inl _ \<Rightarrow> Some (Inl \<lparr>iv_block_idx = 0, iv_word_idx = 0, iv_kind = ListCycle\<rparr>)
                   | Inr _ \<Rightarrow> Some (Inr ()))
                })
           })
      })"

end
