(* ===== verification/Queue_Inv.thy ===== *)
theory Queue_Inv
  imports Hybrid_Queue
begin

text \<open>
  The invariant of the hybrid queue and the state of a message that it stands for.
  \<open>queue_repr q rs ss\<close> says that the bitmaps, the word masks and the two lists of \<open>q\<close>
  agree, where \<open>rs\<close> and \<open>ss\<close> are the blocks in the retry and in the sparse list.
  \<open>status q s\<close> is the state of message \<open>s\<close>; under the invariant it is what
  \<open>debug_state_of\<close> reports, and every operation is described by what it does to it.
\<close>

section \<open>The invariant\<close>

definition bstat :: "MsgBlock \<Rightarrow> nat \<Rightarrow> MessageState" where
  "bstat blk j =
     (if wbit (mb_acked blk) j then Acked
      else if wbit (mb_inflight blk) j then Inflight
      else if wbit (mb_retry blk) j then Retry
      else if wbit (mb_sparse_ready blk) j then SparseReady
      else Ready)"

text \<open>Block \<open>b\<close> when the messages below \<open>h\<close> are the ones that were delivered once.\<close>

definition block_inv :: "nat \<Rightarrow> nat \<Rightarrow> MsgBlock \<Rightarrow> bool" where
  "block_inv h b blk \<longleftrightarrow>
     length (mb_inflight blk) = 4 \<and> length (mb_acked blk) = 4 \<and> length (mb_retry blk) = 4 \<and>
     length (mb_sparse_ready blk) = 4 \<and> length (mb_redelivered blk) = 4 \<and>
     (\<forall>j<256.
        (256 * b + j < h \<longleftrightarrow> wbit (mb_inflight blk) j \<or> wbit (mb_acked blk) j \<or> wbit (mb_retry blk) j \<or>
           wbit (mb_sparse_ready blk) j) \<and>
        \<not> (wbit (mb_inflight blk) j \<and> wbit (mb_acked blk) j) \<and>
        \<not> (wbit (mb_inflight blk) j \<and> wbit (mb_retry blk) j) \<and>
        \<not> (wbit (mb_inflight blk) j \<and> wbit (mb_sparse_ready blk) j) \<and>
        \<not> (wbit (mb_acked blk) j \<and> wbit (mb_retry blk) j) \<and>
        \<not> (wbit (mb_acked blk) j \<and> wbit (mb_sparse_ready blk) j) \<and>
        \<not> (wbit (mb_retry blk) j \<and> wbit (mb_sparse_ready blk) j) \<and>
        (wbit (mb_sparse_ready blk) j \<longrightarrow> wbit (mb_redelivered blk) j)) \<and>
     (\<forall>w. bit (mb_retry_word_mask blk) w \<longleftrightarrow> w < 4 \<and> mb_retry blk ! w \<noteq> 0) \<and>
     (\<forall>w. bit (mb_sparse_word_mask blk) w \<longleftrightarrow> w < 4 \<and> mb_sparse_ready blk ! w \<noteq> 0)"

text \<open>A list holds exactly the blocks whose word mask is not zero, and no other block is linked.\<close>

definition members :: "Link list \<Rightarrow> 32 word \<Rightarrow> IndexList \<Rightarrow> 8 word list \<Rightarrow> Index list \<Rightarrow> bool" where
  "members ks tag l ms xs \<longleftrightarrow> list_repr ks tag l xs \<and>
     (\<forall>i. as_usize i < length ks \<longrightarrow>
        (i \<in> set xs \<longleftrightarrow> ms ! as_usize i \<noteq> 0) \<and>
        (state_is_linked (link_state (ks ! as_usize i)) \<longleftrightarrow> i \<in> set xs))"

definition queue_repr :: "HybridRangeBlockQueue \<Rightarrow> Index list \<Rightarrow> Index list \<Rightarrow> bool" where
  "queue_repr q rs ss \<longleftrightarrow>
     q_head q \<le> q_next_seq q \<and> q_tail q = q_next_seq q \<and>
     length (q_blocks q) = (q_next_seq q + 255) div 256 \<and> length (q_blocks q) \<le> u32_max \<and>
     (\<forall>b<length (q_blocks q). block_inv (q_head q) b (q_blocks q ! b)) \<and>
     members (map mb_retry_link (q_blocks q)) RETRY_TAG (q_retry_blocks q)
       (map mb_retry_word_mask (q_blocks q)) rs \<and>
     members (map mb_sparse_link (q_blocks q)) SPARSE_TAG (q_sparse_blocks q)
       (map mb_sparse_word_mask (q_blocks q)) ss"

definition queue_inv :: "HybridRangeBlockQueue \<Rightarrow> bool" where
  "queue_inv q \<longleftrightarrow> (\<exists>rs ss. queue_repr q rs ss)"

definition status :: "HybridRangeBlockQueue \<Rightarrow> nat \<Rightarrow> MessageState option" where
  "status q s = (if s < q_next_seq q then Some (bstat (q_blocks q ! (s div 256)) (s mod 256)) else None)"

text \<open>What operations other than publishing and delivering leave alone.\<close>

definition same_seqs :: "HybridRangeBlockQueue \<Rightarrow> HybridRangeBlockQueue \<Rightarrow> bool" where
  "same_seqs q q' \<longleftrightarrow> q_next_seq q' = q_next_seq q \<and> q_head q' = q_head q \<and> q_tail q' = q_tail q"

lemma same_seqs_refl [simp]: "same_seqs q q"
  by (simp add: same_seqs_def)

lemma same_seqs_trans: "same_seqs q q' \<Longrightarrow> same_seqs q' q'' \<Longrightarrow> same_seqs q q''"
  by (simp add: same_seqs_def)

section \<open>Reading the state\<close>

lemma block_invD:
  assumes "block_inv h b blk"
  shows "length (mb_inflight blk) = 4" "length (mb_acked blk) = 4" "length (mb_retry blk) = 4"
    "length (mb_sparse_ready blk) = 4" "length (mb_redelivered blk) = 4"
    "bit (mb_retry_word_mask blk) w \<longleftrightarrow> w < 4 \<and> mb_retry blk ! w \<noteq> 0"
    "bit (mb_sparse_word_mask blk) w \<longleftrightarrow> w < 4 \<and> mb_sparse_ready blk ! w \<noteq> 0"
  using assms by (simp_all add: block_inv_def)

lemma block_inv_bits:
  assumes "block_inv h b blk" and "j < 256"
  shows "256 * b + j < h \<longleftrightarrow> wbit (mb_inflight blk) j \<or> wbit (mb_acked blk) j \<or> wbit (mb_retry blk) j \<or>
      wbit (mb_sparse_ready blk) j"
    "wbit (mb_sparse_ready blk) j \<Longrightarrow> wbit (mb_redelivered blk) j"
    "bstat blk j = Acked \<longleftrightarrow> wbit (mb_acked blk) j"
    "bstat blk j = Inflight \<longleftrightarrow> wbit (mb_inflight blk) j"
    "bstat blk j = Retry \<longleftrightarrow> wbit (mb_retry blk) j"
    "bstat blk j = SparseReady \<longleftrightarrow> wbit (mb_sparse_ready blk) j"
    "bstat blk j = Ready \<longleftrightarrow> h \<le> 256 * b + j"
  using assms(1) [unfolded block_inv_def] assms(2) unfolding bstat_def
  by (metis | (auto simp: not_le [symmetric]))+

lemma queue_repr_block: "queue_repr q rs ss \<Longrightarrow> b < length (q_blocks q) \<Longrightarrow> block_inv (q_head q) b (q_blocks q ! b)"
  by (simp add: queue_repr_def)

lemma block_index_bound:
  assumes r: "queue_repr q rs ss" and "s < q_next_seq q"
  shows "s div 256 < length (q_blocks q)"
proof -
  have "s div 256 < (q_next_seq q + 255) div 256" using assms(2) by linarith
  then show ?thesis using r by (simp add: queue_repr_def)
qed

lemma status_Ready_iff:
  assumes r: "queue_repr q rs ss"
  shows "status q s = Some Ready \<longleftrightarrow> q_head q \<le> s \<and> s < q_next_seq q"
proof (cases "s < q_next_seq q")
  case True
  have "bstat (q_blocks q ! (s div 256)) (s mod 256) = Ready \<longleftrightarrow> q_head q \<le> 256 * (s div 256) + s mod 256"
    by (rule block_inv_bits(7) [OF queue_repr_block [OF r block_index_bound [OF r True]]]) simp
  with True show ?thesis by (simp add: status_def)
qed (simp add: status_def)

lemma word_of_bit: "j < 256 \<Longrightarrow> j div 64 < (4 :: nat)"
  by (rule less_mult_imp_div_less) simp

lemma wbit_word: "length ws = 4 \<Longrightarrow> j < 256 \<Longrightarrow> wbit ws j \<longleftrightarrow> bit (ws ! (j div 64)) (j mod 64)"
  by (simp add: wbit_def word_of_bit)

lemma debug_state_of_status:
  assumes r: "queue_repr q rs ss"
  shows "debug_state_of q s = Some (status q s)"
proof (cases "s < q_next_seq q \<and> s < q_head q")
  case False
  have "status q s = Some Ready" if "s < q_next_seq q"
    using False that status_Ready_iff [OF r, of s] by simp
  then show ?thesis
    using False r by (auto simp: debug_state_of_def queue_repr_def status_def)
next
  case True
  let ?blk = "q_blocks q ! (s div 256)"
  have b: "s div 256 < length (q_blocks q)" using block_index_bound [OF r] True by simp
  have inv: "block_inv (q_head q) (s div 256) ?blk" using queue_repr_block [OF r b] .
  note l = block_invD(1-5) [OF inv]
  have j: "s mod 256 < 256" by simp
  have "bstat ?blk (s mod 256) \<noteq> Ready"
    using block_inv_bits(7) [OF inv j] True by simp
  then have some: "wbit (mb_acked ?blk) (s mod 256) \<or> wbit (mb_inflight ?blk) (s mod 256) \<or>
      wbit (mb_retry ?blk) (s mod 256) \<or> wbit (mb_sparse_ready ?blk) (s mod 256)"
    by (auto simp: bstat_def split: if_splits)
  have w: "s mod 256 div 64 < 4" by (rule word_of_bit) simp
  note bits = l [THEN wbit_word, OF j]
  show ?thesis
    unfolding debug_state_of_def locate_def MSGS_PER_BLOCK_def status_def bstat_def
    using True b l some w unfolding bits
    by (simp add: idx_def shl_u64_def and_exp_eq_0_iff_not_bit) blast
qed

section \<open>The queue's own validation accepts it\<close>

lemma word_disjoint:
  "length u = 4 \<Longrightarrow> length v = 4 \<Longrightarrow> w < 4 \<Longrightarrow> (\<And>j. j < 256 \<Longrightarrow> \<not> (wbit u j \<and> wbit v j)) \<Longrightarrow> u ! w AND v ! w = 0"
proof (rule bit_eqI)
  fix n
  assume a: "length u = 4" "length v = 4" "w < 4" "\<And>j. j < 256 \<Longrightarrow> \<not> (wbit u j \<and> wbit v j)"
  show "bit (u ! w AND v ! w) n \<longleftrightarrow> bit (0 :: 64 word) n"
  proof (cases "n < 64")
    case True
    have "64 * w + n < 256" using a(3) True by simp
    from a(4) [OF this] show ?thesis
      using a(1-3) True by (simp add: wbit_def bit_and_iff)
  next
    case False
    then show ?thesis by (auto dest: bit_imp_le_length)
  qed
qed

lemma validate_words_ok:
  assumes inv: "block_inv h b blk" and "set ws \<subseteq> {..<4}"
  shows "validate_words b blk ws = Some (Inr ())"
  using assms(2)
proof (induction ws)
  case Nil
  then show ?case by simp
next
  case (Cons w ws)
  have w: "w < 4" using Cons.prems by simp
  note l = block_invD(1-5) [OF inv]
  have d: "mb_inflight blk ! w AND mb_acked blk ! w = 0" "mb_inflight blk ! w AND mb_retry blk ! w = 0"
    "mb_inflight blk ! w AND mb_sparse_ready blk ! w = 0" "mb_acked blk ! w AND mb_retry blk ! w = 0"
    "mb_acked blk ! w AND mb_sparse_ready blk ! w = 0" "mb_retry blk ! w AND mb_sparse_ready blk ! w = 0"
    using l w inv by (auto intro!: word_disjoint simp: block_inv_def)
  have "mb_retry_word_mask blk AND push_bit w 1 \<noteq> 0 \<longleftrightarrow> mb_retry blk ! w \<noteq> 0"
    "mb_sparse_word_mask blk AND push_bit w 1 \<noteq> 0 \<longleftrightarrow> mb_sparse_ready blk ! w \<noteq> 0"
    using w block_invD(6,7) [OF inv, of w] by (simp_all add: and_exp_eq_0_iff_not_bit)
  then show ?case
    using w l d Cons by (simp add: idx_def shl_u8_def)
qed

lemma validate_blocks_ok:
  "(\<And>i. i < length bs \<Longrightarrow> block_inv h (k + i) (bs ! i)) \<Longrightarrow>
   (\<And>i. i < length bs \<Longrightarrow> (mb_retry_word_mask (bs ! i) \<noteq> 0) = is_retry_listed (bs ! i)) \<Longrightarrow>
   (\<And>i. i < length bs \<Longrightarrow> (mb_sparse_word_mask (bs ! i) \<noteq> 0) = is_sparse_listed (bs ! i)) \<Longrightarrow>
   validate_blocks k bs = Some (Inr ())"
proof (induction bs arbitrary: k)
  case Nil
  then show ?case by simp
next
  case (Cons blk bs)
  have "validate_words k blk [0..<WORDS_PER_BLOCK] = Some (Inr ())"
    using Cons.prems(1) [of 0] by (auto intro!: validate_words_ok simp: WORDS_PER_BLOCK_def MSGS_PER_BLOCK_def)
  moreover have "validate_blocks (Suc k) bs = Some (Inr ())"
    using Cons.prems(1) [of "Suc i" for i] Cons.prems(2) [of "Suc i" for i] Cons.prems(3) [of "Suc i" for i]
    by (intro Cons.IH) simp_all
  ultimately show ?case
    using Cons.prems(2) [of 0] Cons.prems(3) [of 0] by simp
qed

lemma index_of_nat: "b < 2 ^ 32 \<Longrightarrow> as_usize (Index (of_nat b + 1)) = b"
  by (simp add: as_usize_def unat_of_nat take_bit_nat_eq_self)

lemma index_of_block: "b < u32_max \<Longrightarrow> as_usize (Index (of_nat b + 1)) = b"
  by (rule index_of_nat) (simp add: u32_max_def)

lemma members_listed:
  assumes m: "members (map f bs) tag l (map g bs) xs" and "b < length bs" and "length bs \<le> u32_max"
  shows "(g (bs ! b) \<noteq> 0) = state_is_linked (link_state (f (bs ! b)))"
proof -
  have i: "as_usize (Index (of_nat b + 1)) = b" by (rule index_of_block) (use assms in linarith)
  with m assms(2) show ?thesis unfolding members_def by (metis length_map nth_map)
qed

lemma validate_invariants_ok:
  assumes r: "queue_repr q rs ss"
  shows "validate_invariants q = Some (Inr ())"
proof -
  have b: "length (q_blocks q) \<le> u32_max" using r by (simp add: queue_repr_def)
  have mr: "members (map mb_retry_link (q_blocks q)) RETRY_TAG (q_retry_blocks q)
      (map mb_retry_word_mask (q_blocks q)) rs"
    and ms: "members (map mb_sparse_link (q_blocks q)) SPARSE_TAG (q_sparse_blocks q)
      (map mb_sparse_word_mask (q_blocks q)) ss"
    using r by (simp_all add: queue_repr_def)
  have "validate_blocks 0 (q_blocks q) = Some (Inr ())"
    using queue_repr_block [OF r] members_listed [OF mr _ b] members_listed [OF ms _ b]
    by (intro validate_blocks_ok) (auto simp: is_retry_listed_def is_sparse_listed_def)
  moreover have "il_validate retry_slot RETRY_TAG (q_retry_blocks q) (q_blocks q) = Some (Inr ())"
    by (rule rl.validate_repr [where xs = rs, OF _ b]) (use mr in \<open>simp add: members_def\<close>)
  moreover have "il_validate sparse_slot SPARSE_TAG (q_sparse_blocks q) (q_blocks q) = Some (Inr ())"
    by (rule sl.validate_repr [where xs = ss, OF _ b]) (use ms in \<open>simp add: members_def\<close>)
  ultimately show ?thesis
    using r by (simp add: validate_invariants_def queue_repr_def)
qed

section \<open>Changing one block\<close>

lemma status_update_block:
  assumes "b < length (q_blocks q)"
  shows "status (q\<lparr>q_blocks := (q_blocks q)[b := blk]\<rparr>) s =
    (if s div 256 = b \<and> s < q_next_seq q then Some (bstat blk (s mod 256)) else status q s)"
  using assms by (auto simp: status_def nth_list_update)

lemma members_update:
  assumes "members (map f bs) tag l (map g bs) xs" and "b < length bs"
    and "f blk = f (bs ! b)" and "(g blk = 0) = (g (bs ! b) = 0)"
  shows "members (map f (bs[b := blk])) tag l (map g (bs[b := blk])) xs"
proof -
  have f: "map f (bs[b := blk]) = map f bs" using assms(2,3) by (simp add: map_update)
  have "(map g (bs[b := blk]) ! n = 0) = (map g bs ! n = 0)" if "n < length bs" for n
    using assms(4) that by (cases "n = b") (simp_all add: nth_list_update)
  then show ?thesis using assms(1) unfolding members_def f by simp
qed

lemma repr_update_block:
  assumes r: "queue_repr q rs ss" and b: "b < length (q_blocks q)"
    and inv: "block_inv (q_head q) b blk"
    and "mb_retry_link blk = mb_retry_link (q_blocks q ! b)" "mb_sparse_link blk = mb_sparse_link (q_blocks q ! b)"
    and "(mb_retry_word_mask blk = 0) = (mb_retry_word_mask (q_blocks q ! b) = 0)"
    and "(mb_sparse_word_mask blk = 0) = (mb_sparse_word_mask (q_blocks q ! b) = 0)"
  shows "queue_repr (q\<lparr>q_blocks := (q_blocks q)[b := blk]\<rparr>) rs ss"
  using assms by (auto simp: queue_repr_def nth_list_update intro!: members_update)

text \<open>The statistics are not part of the invariant or of the state.\<close>

lemma repr_stats [simp]: "queue_repr (q\<lparr>q_stats := st\<rparr>) rs ss = queue_repr q rs ss"
  by (simp add: queue_repr_def)

lemma status_stats [simp]: "status (q\<lparr>q_stats := st\<rparr>) = status q"
  by (simp add: status_def fun_eq_iff)

lemma same_seqs_stats [simp]: "same_seqs q (q'\<lparr>q_stats := st\<rparr>) = same_seqs q q'"
  by (simp add: same_seqs_def)

section \<open>Publishing\<close>

lemma grow_blocks_eq:
  "grow_blocks bs n = bs @ map (\<lambda>k. MsgBlock_new (k * MSGS_PER_BLOCK)) [length bs..<n]"
proof (induction bs n rule: grow_blocks.induct)
  case (1 bs n)
  show ?case
  proof (cases "length bs < n")
    case True
    have u: "[length bs..<n] = length bs # [Suc (length bs)..<n]" using True by (rule upt_conv_Cons)
    show ?thesis
      using True "1.IH" [OF True] by (subst grow_blocks.simps) (simp add: u del: upt_Suc)
  next
    case False
    then show ?thesis by (subst grow_blocks.simps) simp
  qed
qed

lemma wbit_zero [simp]: "\<not> wbit (replicate n 0) j"
  by (auto simp: wbit_def)

lemma block_inv_new:
  assumes "h \<le> 256 * b"
  shows "block_inv h b (MsgBlock_new s)"
  using assms unfolding block_inv_def
  by (auto simp: MsgBlock_new_def WORDS_PER_BLOCK_def MSGS_PER_BLOCK_def nth_append
      simp flip: replicate_Suc replicate_0)

lemma members_grow:
  assumes m: "members (map f bs) tag l (map g bs) xs"
    and new: "\<And>b. b \<in> set cs \<Longrightarrow> g b = 0 \<and> \<not> state_is_linked (link_state (f b))"
  shows "members (map f (bs @ cs)) tag l (map g (bs @ cs)) xs"
proof -
  have lr: "list_repr (map f bs) tag l xs" using m by (simp add: members_def)
  have bound: "i \<in> set xs \<Longrightarrow> as_usize i < length bs" for i using list_repr_bounds [OF lr] by simp
  have "chain (map f (bs @ cs)) tag p ys n = chain (map f bs) tag p ys n"
    if "\<And>i. i \<in> set ys \<Longrightarrow> as_usize i < length bs" for p ys n
    using that by (induction ys arbitrary: p) (auto simp: nth_append trans_less_add1)
  then have "list_repr (map f (bs @ cs)) tag l xs"
    using lr bound by (simp add: list_repr_def)
  moreover have "i \<notin> set xs" if "\<not> as_usize i < length bs" for i using bound that by blast
  ultimately show ?thesis
    using m new by (auto simp: members_def nth_append)
qed

lemma publish_contiguous_ok:
  assumes r: "queue_repr q rs ss"
    and cap: "q_next_seq q + count \<le> 256 * u32_max" and st: "total_published (q_stats q) + count \<le> u64_max"
  shows "ok (publish_contiguous q count) (\<lambda>(range, q').
    range = DeliveryRange_new (q_next_seq q) count \<and> queue_repr q' rs ss \<and>
    q_next_seq q' = q_next_seq q + count \<and> q_head q' = q_head q \<and>
    q_stats q' = (q_stats q)\<lparr>total_published := total_published (q_stats q) + count\<rparr> \<and>
    status q' = (\<lambda>s. if q_next_seq q \<le> s \<and> s < q_next_seq q + count then Some Ready else status q s))"
proof (cases "count = 0")
  case True
  then show ?thesis using r by (auto simp: publish_contiguous_def fun_eq_iff)
next
  case False
  let ?n = "q_next_seq q" and ?bs = "q_blocks q"
  let ?need = "(?n + count + 255) div 256"
  define cs where "cs = map (\<lambda>k. MsgBlock_new (k * MSGS_PER_BLOCK)) [length ?bs..<?need]"
  define q' where "q' = q\<lparr>q_blocks := ?bs @ cs, q_tail := ?n + count, q_next_seq := ?n + count\<rparr>"
  have len: "length ?bs = (?n + 255) div 256" and h: "q_head q \<le> ?n" using r by (simp_all add: queue_repr_def)
  have le: "length ?bs \<le> ?need" unfolding len by (rule div_le_mono) simp
  have l': "length (?bs @ cs) = ?need" using le by (simp add: cs_def)
  have need: "?need \<le> u32_max"
  proof -
    have "?need \<le> (256 * u32_max + 255) div 256" using cap by (intro div_le_mono) simp
    then show ?thesis by simp
  qed
  have hb: "q_head q \<le> 256 * b" if "length ?bs \<le> b" for b
  proof -
    have "?n \<le> 256 * ((?n + 255) div 256)" by linarith
    also have "\<dots> \<le> 256 * b" using that len by simp
    finally show ?thesis using h by linarith
  qed
  have new: "block_inv (q_head q) b ((?bs @ cs) ! b)" if "length ?bs \<le> b" "b < ?need" for b
    using that hb [OF that(1)] le by (simp add: nth_append cs_def block_inv_new)
  have inv: "block_inv (q_head q) b ((?bs @ cs) ! b)" if "b < ?need" for b
    using that new [of b] queue_repr_block [OF r, of b] by (cases "b < length ?bs") (auto simp: nth_append)
  have csf: "mb_retry_word_mask b = 0 \<and> \<not> state_is_linked (link_state (mb_retry_link b))"
    "mb_sparse_word_mask b = 0 \<and> \<not> state_is_linked (link_state (mb_sparse_link b))" if "b \<in> set cs" for b
    using that by (auto simp: cs_def MsgBlock_new_def)
  have r': "queue_repr q' rs ss"
    unfolding queue_repr_def q'_def using r h l' need inv csf
    by (auto simp: queue_repr_def intro!: members_grow simp del: map_append)
  have "status q' s = (if ?n \<le> s \<and> s < ?n + count then Some Ready else status q s)" for s
  proof (cases "s < ?n")
    case True
    then show ?thesis using block_index_bound [OF r True] by (simp add: status_def q'_def nth_append)
  next
    case False
    then show ?thesis using status_Ready_iff [OF r', of s] h by (auto simp: q'_def status_def)
  qed
  then have s': "status q' = (\<lambda>s. if ?n \<le> s \<and> s < ?n + count then Some Ready else status q s)" by blast
  have g: "grow_blocks ?bs ((?n + count + (MSGS_PER_BLOCK - 1)) div MSGS_PER_BLOCK) = ?bs @ cs"
    by (simp add: grow_blocks_eq cs_def MSGS_PER_BLOCK_def)
  have "?n + count \<le> u64_max" using cap by (simp add: u32_max_def u64_max_def)
  then have "publish_contiguous q count = Some (DeliveryRange_new ?n count,
      q'\<lparr>q_stats := (q_stats q)\<lparr>total_published := total_published (q_stats q) + count\<rparr>\<rparr>)"
    using False st g [unfolded One_nat_def]
    by (simp add: publish_contiguous_def Let_def bump_published_def add_u64_def q'_def)
  then show ?thesis
    using r' s' by simp (simp add: q'_def)
qed

section \<open>Changing the links\<close>

lemma membersI:
  assumes "list_repr ks tag l xs"
    and "\<And>i. as_usize i < length ks \<Longrightarrow> i \<in> set xs \<longleftrightarrow> ms ! as_usize i \<noteq> 0"
    and "\<And>i. as_usize i < length ks \<Longrightarrow> i \<notin> set xs \<Longrightarrow> \<not> state_is_linked (link_state (ks ! as_usize i))"
  shows "members ks tag l ms xs"
  using assms list_repr_linked [OF assms(1)] unfolding members_def by (metis state_linked_is_linked)

text \<open>A change of the retry (sparse) links leaves everything else of the blocks.\<close>

lemma payload_nth:
  "map p bs' = map p bs \<Longrightarrow> b < length bs \<Longrightarrow> p (bs' ! b) = p (bs ! b)"
  by (metis length_map nth_map)

lemma retry_payload_frame:
  "block_inv h b (retry_payload blk) = block_inv h b blk" "bstat (retry_payload blk) = bstat blk"
  "mb_sparse_link (retry_payload blk) = mb_sparse_link blk"
  "mb_retry_word_mask (retry_payload blk) = mb_retry_word_mask blk"
  "mb_sparse_word_mask (retry_payload blk) = mb_sparse_word_mask blk"
  "mb_sparse_ready (retry_payload blk) = mb_sparse_ready blk"
  "mb_redelivered (retry_payload blk) = mb_redelivered blk"
  by (simp_all add: retry_payload_def block_inv_def bstat_def fun_eq_iff)

lemma sparse_payload_frame:
  "block_inv h b (sparse_payload blk) = block_inv h b blk" "bstat (sparse_payload blk) = bstat blk"
  "mb_retry_link (sparse_payload blk) = mb_retry_link blk"
  "mb_retry_word_mask (sparse_payload blk) = mb_retry_word_mask blk"
  "mb_sparse_word_mask (sparse_payload blk) = mb_sparse_word_mask blk"
  "mb_sparse_ready (sparse_payload blk) = mb_sparse_ready blk"
  "mb_redelivered (sparse_payload blk) = mb_redelivered blk"
  by (simp_all add: sparse_payload_def block_inv_def bstat_def fun_eq_iff)

lemma map_frame: "map g xs = map g ys \<Longrightarrow> (\<And>x. f (g x) = f x) \<Longrightarrow> map f xs = map f ys"
  by (metis comp_apply list.map_comp map_eq_conv)

lemma status_relink:
  assumes p: "map p bs = map p (q_blocks q)" and f: "\<And>b. bstat (p b) = bstat b"
    and n: "\<And>s. s < q_next_seq q \<Longrightarrow> s div 256 < length (q_blocks q)"
    and q': "q_blocks q' = bs" "q_next_seq q' = q_next_seq q"
  shows "status q' = status q"
proof
  fix s
  show "status q' s = status q s"
    using payload_nth [OF p, of "s div 256"] n [of s] f by (metis q' status_def)
qed

end
