(* ===== verification/Queue_Settle.thy ===== *)
theory Queue_Settle
  imports Queue_Inv
begin

text \<open>
  The settling operations of the hybrid queue: \<open>ack_range\<close>, \<open>ack_mask\<close>, \<open>ack_id\<close>,
  \<open>nack_range_to_retry\<close>, \<open>nack_mask_to_retry\<close> and the batches. Each takes messages that
  are in flight to another state, changes no other message and keeps the invariant.
\<close>

section \<open>Ranges, one block at a time\<close>

lemma block_range_loop_rule:
  assumes step: "\<And>q s tk. I s q \<Longrightarrow> start \<le> s \<Longrightarrow> s < stop \<Longrightarrow> tk = min (256 - s mod 256) (stop - s) \<Longrightarrow>
      ok (body q (s div 256) (s mod 256) tk) (I (s + tk))"
    and "I start q" and "start \<le> stop"
  shows "ok (block_range_loop body q start stop) (I stop)"
proof -
  have "I s q \<Longrightarrow> start \<le> s \<Longrightarrow> s \<le> stop \<Longrightarrow> ok (block_range_loop body q s stop) (I stop)" for s q
  proof (induction "stop - s" arbitrary: s q rule: less_induct)
    case less
    show ?case
    proof (cases "s < stop")
      case False
      then show ?thesis using less.prems by (subst block_range_loop.simps) simp
    next
      case True
      define tk where "tk = min (256 - s mod 256) (stop - s)"
      have tk: "0 < tk" "s + tk \<le> stop" using True by (auto simp: tk_def)
      have "ok (body q (s div 256) (s mod 256) tk) (\<lambda>q'. ok (block_range_loop body q' (s + tk) stop) (I stop))"
      proof (rule ok_mono [OF step [OF less.prems(1,2) True tk_def]])
        fix q' assume "I (s + tk) q'"
        then show "ok (block_range_loop body q' (s + tk) stop) (I stop)"
          using less.hyps [of "s + tk" q'] tk less.prems(2) True by simp
      qed
      then show ?thesis
        using True by (subst block_range_loop.simps) (simp add: locate_def MSGS_PER_BLOCK_def tk_def Let_def)
    qed
  qed
  from this [OF assms(2) _ assms(3)] show ?thesis by simp
qed

text \<open>The bits of a range within one block.\<close>

lemma range_in_block:
  fixes s t :: nat
  shows "s mod 256 \<le> j \<and> j < s mod 256 + t \<longleftrightarrow> s \<le> 256 * (s div 256) + j \<and> 256 * (s div 256) + j < s + t"
  using mult_div_mod_eq [of 256 s] by safe linarith+

lemma seq_in_block:
  fixes s x t :: nat
  assumes "t \<le> 256 - s mod 256"
  shows "x div 256 = s div 256 \<and> s mod 256 \<le> x mod 256 \<and> x mod 256 < s mod 256 + t \<longleftrightarrow> s \<le> x \<and> x < s + t"
    (is "?L \<longleftrightarrow> ?R")
proof
  assume ?L
  then show ?R using div_mult_mod_eq [of s 256] div_mult_mod_eq [of x 256] by linarith
next
  assume R: ?R
  have s: "s = s div 256 * 256 + s mod 256" by simp
  have "s mod 256 < 256" by simp
  have "x div 256 = s div 256"
  proof (rule div_nat_eqI)
    show "256 * (s div 256) \<le> x" using R s by linarith
    show "x < 256 * Suc (s div 256)" using R s assms \<open>s mod 256 < 256\<close> unfolding mult_Suc_right by linarith
  qed
  moreover from this have "x = s div 256 * 256 + x mod 256" by (metis div_mult_mod_eq)
  ultimately show ?L using R s by linarith
qed

lemma block_range_kernels:
  assumes "length ws = 4" and "b + t \<le> 256"
  shows "ok (set_range ws b t) (\<lambda>ws'. length ws' = 4 \<and> (\<forall>j. wbit ws' j \<longleftrightarrow> wbit ws j \<or> (b \<le> j \<and> j < b + t)))"
    "ok (clear_range ws b t) (\<lambda>ws'. length ws' = 4 \<and> (\<forall>j. wbit ws' j \<longleftrightarrow> wbit ws j \<and> \<not> (b \<le> j \<and> j < b + t)))"
  using set_range_ok [of b t ws] clear_range_ok [of b t ws] assms by (simp_all add: u64_max_def)

lemma mod_room: "t = min (256 - s mod 256) n \<Longrightarrow> s mod 256 + t \<le> (256 :: nat)"
  by simp

section \<open>Acknowledging within a block\<close>

lemma ack_local:
  assumes r: "queue_repr q rs ss" and b: "b < length (q_blocks q)" and blk: "blk = q_blocks q ! b"
    and len: "length f = 4" "length a = 4"
    and X: "\<And>j. j < 256 \<Longrightarrow> X j \<Longrightarrow> bstat blk j = Inflight"
    and f: "\<And>j. j < 256 \<Longrightarrow> wbit f j \<longleftrightarrow> wbit (mb_inflight blk) j \<and> \<not> X j"
    and a: "\<And>j. j < 256 \<Longrightarrow> wbit a j \<longleftrightarrow> wbit (mb_acked blk) j \<or> X j"
    and q': "q' = q\<lparr>q_blocks := (q_blocks q)[b := blk\<lparr>mb_inflight := f, mb_acked := a\<rparr>]\<rparr>"
  shows "queue_repr q' rs ss \<and> same_seqs q q' \<and>
    status q' = (\<lambda>s. if s div 256 = b \<and> X (s mod 256) then Some Acked else status q s)"
proof -
  let ?blk = "blk\<lparr>mb_inflight := f, mb_acked := a\<rparr>"
  have inv: "block_inv (q_head q) b blk" using queue_repr_block [OF r b] blk by simp
  have xi: "wbit (mb_inflight blk) j" if "j < 256" "X j" for j
    using X [OF that] block_inv_bits(4) [OF inv that(1)] by simp
  have inv': "block_inv (q_head q) b ?blk"
    using inv len f a xi unfolding block_inv_def by simp blast
  have st: "bstat ?blk j = (if X j then Acked else bstat blk j)" if "j < 256" for j
    using f [OF that] a [OF that] by (simp add: bstat_def)
  have lt: "s < q_next_seq q" if "s div 256 = b" "X (s mod 256)" for s
    using block_inv_bits(1) [OF inv, of "s mod 256"] xi [of "s mod 256"] that r
    by (auto simp: queue_repr_def)
  have "queue_repr q' rs ss"
    unfolding q' by (rule repr_update_block [OF r b inv']) (simp_all add: blk)
  moreover have "status q' s = (if s div 256 = b \<and> X (s mod 256) then Some Acked else status q s)" for s
    using st [of "s mod 256"] lt [of s] status_update_block [OF b, of ?blk s, folded q']
    by (auto simp: status_def blk)
  moreover have "same_seqs q q'" by (simp add: q' same_seqs_def)
  ultimately show ?thesis by blast
qed

lemma block_upd_comm:
  "blk\<lparr>mb_acked := a, mb_inflight := f\<rparr> = blk\<lparr>mb_inflight := f, mb_acked := a\<rparr>"
  by simp

lemma ack_block_ok:
  assumes r: "queue_repr q rs ss" and t: "t = min (256 - s mod 256) n"
    and fl: "\<And>x. s \<le> x \<Longrightarrow> x < s + t \<Longrightarrow> status q x = Some Inflight" and "0 < t"
  shows "ok (ack_block q (s div 256) (s mod 256) t) (\<lambda>q'. queue_repr q' rs ss \<and> same_seqs q q' \<and>
    q_stats q' = q_stats q \<and> status q' = (\<lambda>x. if s \<le> x \<and> x < s + t then Some Acked else status q x))"
proof -
  let ?b = "s div 256" and ?j = "s mod 256"
  let ?blk = "q_blocks q ! ?b" and ?X = "\<lambda>j. ?j \<le> j \<and> j < ?j + t"
  have room: "t \<le> 256 - ?j" "?j + t \<le> 256" using t by auto
  have b: "?b < length (q_blocks q)"
    using block_index_bound [OF r, of s] fl [of s] \<open>0 < t\<close> by (auto simp: status_def split: if_splits)
  note l = block_invD(1-5) [OF queue_repr_block [OF r b]]
  have X: "bstat ?blk j = Inflight" if "j < 256" "?X j" for j
    using fl [of "256 * ?b + j"] range_in_block [of s j t] that
    by (auto simp: status_def split: if_splits)
  have "ok (set_range (mb_acked ?blk) ?j t) (\<lambda>a. ok (clear_range (mb_inflight ?blk) ?j t) (\<lambda>f.
      queue_repr (q\<lparr>q_blocks := (q_blocks q)[?b := ?blk\<lparr>mb_inflight := f, mb_acked := a\<rparr>]\<rparr>) rs ss \<and>
      same_seqs q (q\<lparr>q_blocks := (q_blocks q)[?b := ?blk\<lparr>mb_inflight := f, mb_acked := a\<rparr>]\<rparr>) \<and>
      status (q\<lparr>q_blocks := (q_blocks q)[?b := ?blk\<lparr>mb_inflight := f, mb_acked := a\<rparr>]\<rparr>) =
        (\<lambda>x. if s \<le> x \<and> x < s + t then Some Acked else status q x)))"
    apply (rule ok_mono [OF block_range_kernels(1) [OF l(2) room(2)]])
    apply (rule ok_mono [OF block_range_kernels(2) [OF l(1) room(2)]])
    subgoal for a f
      using ack_local [OF r b refl, of f a ?X] X seq_in_block [OF room(1)] by simp
    done
  then show ?thesis
    using b by (simp add: ack_block_def same_seqs_def block_upd_comm)
qed

lemma status_Some_less: "status q s = Some v \<Longrightarrow> s < q_next_seq q"
  by (auto simp: status_def split: if_splits)

text \<open>The messages a mask stands for.\<close>

definition mask_seqs :: "nat \<Rightarrow> nat \<Rightarrow> 64 word \<Rightarrow> nat set" where
  "mask_seqs b w m = {s. s div 256 = b \<and> s mod 256 div 64 = w \<and> bit m (s mod 256 mod 64)}"

lemma wbit_word_update:
  "w < length ws \<Longrightarrow> wbit (ws[w := v]) j \<longleftrightarrow> (if j div 64 = w then bit v (j mod 64) else wbit ws j)"
  by (rule wbit_update)

lemma ack_word_ok:
  assumes r: "queue_repr q rs ss" and b: "b < length (q_blocks q)" and w: "w < 4"
    and fl: "\<And>x. x \<in> mask_seqs b w m \<Longrightarrow> status q x = Some Inflight"
  shows "ok (ack_word q b w m) (\<lambda>q'. queue_repr q' rs ss \<and> same_seqs q q' \<and> q_stats q' = q_stats q \<and>
    status q' = (\<lambda>x. if x \<in> mask_seqs b w m then Some Acked else status q x))"
proof -
  let ?blk = "q_blocks q ! b" and ?X = "\<lambda>j. j div 64 = w \<and> bit m (j mod 64)"
  let ?f = "(mb_inflight ?blk)[w := mb_inflight ?blk ! w AND NOT m]"
  let ?a = "(mb_acked ?blk)[w := mb_acked ?blk ! w OR m]"
  note l = block_invD(1-5) [OF queue_repr_block [OF r b]]
  have X: "bstat ?blk j = Inflight" if "j < 256" "?X j" for j
    using fl [of "256 * b + j"] that by (auto simp: mask_seqs_def status_def split: if_splits)
  have "queue_repr (q\<lparr>q_blocks := (q_blocks q)[b := ?blk\<lparr>mb_inflight := ?f, mb_acked := ?a\<rparr>]\<rparr>) rs ss \<and>
      same_seqs q (q\<lparr>q_blocks := (q_blocks q)[b := ?blk\<lparr>mb_inflight := ?f, mb_acked := ?a\<rparr>]\<rparr>) \<and>
      status (q\<lparr>q_blocks := (q_blocks q)[b := ?blk\<lparr>mb_inflight := ?f, mb_acked := ?a\<rparr>]\<rparr>) =
        (\<lambda>x. if x div 256 = b \<and> ?X (x mod 256) then Some Acked else status q x)"
    by (rule ack_local [OF r b refl _ _ X _ _ refl])
      (use l w in \<open>auto simp: wbit_word_update wbit_same bit_simps dest: bit_imp_le_length\<close>)
  then show ?thesis
    using b w l by (simp add: ack_word_def mask_seqs_def)
qed

section \<open>Acknowledging\<close>

lemma ack_range_ok:
  assumes r: "queue_repr q rs ss" and st: "total_acked (q_stats q) + n \<le> u64_max"
    and fl: "\<And>x. start \<le> x \<Longrightarrow> x < start + n \<Longrightarrow> status q x = Some Inflight"
  shows "ok (ack_range q start n) (\<lambda>q'. queue_repr q' rs ss \<and> same_seqs q q' \<and>
    q_stats q' = (q_stats q)\<lparr>total_acked := total_acked (q_stats q) + n\<rparr> \<and>
    status q' = (\<lambda>x. if start \<le> x \<and> x < start + n then Some Acked else status q x))"
proof (cases "n = 0")
  case True
  then show ?thesis using r by (auto simp: ack_range_def fun_eq_iff)
next
  case False
  let ?I = "\<lambda>s q'. queue_repr q' rs ss \<and> same_seqs q q' \<and> q_stats q' = q_stats q \<and>
    status q' = (\<lambda>x. if start \<le> x \<and> x < s then Some Acked else status q x)"
  have "ok (block_range_loop ack_block q start (start + n)) (?I (start + n))"
  proof (rule block_range_loop_rule)
    fix q1 s tk
    assume I: "?I s q1" and s: "start \<le> s" "s < start + n" and tk: "tk = min (256 - s mod 256) (start + n - s)"
    have tk0: "0 < tk" "s + tk \<le> start + n" using s tk by auto
    have "status q1 x = Some Inflight" if "s \<le> x" "x < s + tk" for x
      using I fl [of x] that tk0 s by simp
    with I show "ok (ack_block q1 (s div 256) (s mod 256) tk) (?I (s + tk))"
      by (intro ok_mono [OF ack_block_ok [of q1 rs ss tk s "start + n - s"]])
        (use tk tk0 s in \<open>auto simp: fun_eq_iff intro: same_seqs_trans\<close>)
  qed (use r in \<open>auto simp: fun_eq_iff\<close>)
  moreover have "start + n \<le> u64_max"
  proof -
    have "start + n - 1 < q_next_seq q"
      by (rule status_Some_less [OF fl]) (use False in simp_all)
    moreover have "q_next_seq q \<le> 256 * u32_max"
      using r unfolding queue_repr_def by linarith
    ultimately show ?thesis by (simp add: u32_max_def u64_max_def)
  qed
  ultimately show ?thesis
    using False st by (auto simp: ack_range_def bump_acked_def elim!: ok_mono)
qed

lemma ack_mask_ok:
  assumes r: "queue_repr q rs ss" and "dm_block dm < length (q_blocks q)" "dm_word dm < 4"
    and st: "total_acked (q_stats q) + count_ones (dm_mask dm) \<le> u64_max"
    and "\<And>x. x \<in> mask_seqs (dm_block dm) (dm_word dm) (dm_mask dm) \<Longrightarrow> status q x = Some Inflight"
  shows "ok (ack_mask q dm) (\<lambda>q'. queue_repr q' rs ss \<and> same_seqs q q' \<and>
    q_stats q' = (q_stats q)\<lparr>total_acked := total_acked (q_stats q) + count_ones (dm_mask dm)\<rparr> \<and>
    status q' = (\<lambda>x. if x \<in> mask_seqs (dm_block dm) (dm_word dm) (dm_mask dm) then Some Acked else status q x))"
  using ack_word_ok [where m = "dm_mask dm", OF assms(1,2,3,5)] st by (auto simp: ack_mask_def bump_acked_def elim!: ok_mono)

lemma ack_id_ok:
  assumes r: "queue_repr q rs ss" and s: "status q s = Some Inflight"
    and st: "total_acked (q_stats q) + 1 \<le> u64_max"
  shows "ok (ack_id q s) (\<lambda>q'. queue_repr q' rs ss \<and> same_seqs q q' \<and>
    q_stats q' = (q_stats q)\<lparr>total_acked := total_acked (q_stats q) + 1\<rparr> \<and>
    status q' = (status q)(s := Some Acked))"
proof -
  have n: "s < q_next_seq q" using s by (auto simp: status_def split: if_splits)
  have eq: "mask_seqs (s div 256) (s mod 256 div 64) (push_bit (s mod 256 mod 64) 1) = {s}"
    by (auto simp: mask_seqs_def) (metis div_mult_mod_eq)
  show ?thesis
    using n st ack_word_ok [OF r block_index_bound [OF r n] word_of_bit, of "s mod 256" "push_bit (s mod 256 mod 64) 1"]
      s eq
    by (auto simp: ack_id_def locate_def MSGS_PER_BLOCK_def bump_acked_def fun_eq_iff
        simp del: push_bit_of_1 elim!: ok_mono)
qed

section \<open>Rejecting to retry\<close>

lemma ensure_retry_listed_ok:
  assumes hd: "q_head q \<le> q_next_seq q" "q_tail q = q_next_seq q"
      "length (q_blocks q) = (q_next_seq q + 255) div 256" "length (q_blocks q) \<le> u32_max"
    and inv: "\<And>b. b < length (q_blocks q) \<Longrightarrow> block_inv (q_head q) b (q_blocks q ! b)"
    and ms: "members (map mb_sparse_link (q_blocks q)) SPARSE_TAG (q_sparse_blocks q)
       (map mb_sparse_word_mask (q_blocks q)) ss"
    and i: "as_usize i < length (q_blocks q)" "mb_retry_word_mask (q_blocks q ! as_usize i) \<noteq> 0"
    and old: "members (map mb_retry_link (q_blocks q)) RETRY_TAG (q_retry_blocks q) om rs"
      "\<And>j. as_usize j < length (q_blocks q) \<Longrightarrow> j \<noteq> i \<Longrightarrow>
        (om ! as_usize j = 0) = (mb_retry_word_mask (q_blocks q ! as_usize j) = 0)"
  shows "ok (ensure_retry_listed q i) (\<lambda>q'. queue_repr q' (if i \<in> set rs then rs else rs @ [i]) ss \<and>
    same_seqs q q' \<and> q_stats q' = q_stats q \<and> status q' = status q)"
proof -
  let ?bs = "q_blocks q"
  have lr: "list_repr (map mb_retry_link ?bs) RETRY_TAG (q_retry_blocks q) rs" using old(1) by (simp add: members_def)
  have listed: "is_retry_listed (?bs ! as_usize i) \<longleftrightarrow> i \<in> set rs"
    using old(1) i(1) by (simp add: members_def is_retry_listed_def)
  have un: "\<not> state_is_linked (link_state (map mb_retry_link ?bs ! as_usize j))"
    if "as_usize j < length ?bs" "j \<notin> set rs" for j
    using old(1) that by (simp add: members_def)
  have mem: "j \<in> set rs \<longleftrightarrow> mb_retry_word_mask (?bs ! as_usize j) \<noteq> 0"
    if "as_usize j < length ?bs" "j \<noteq> i" for j
    using old that by (auto simp: members_def)
  show ?thesis
  proof (cases "i \<in> set rs")
    case True
    have "members (map mb_retry_link ?bs) RETRY_TAG (q_retry_blocks q) (map mb_retry_word_mask ?bs) rs"
      by (rule membersI [OF lr]) (use mem i True un in auto)
    then show ?thesis
      using True listed i hd inv ms by (simp add: ensure_retry_listed_def queue_repr_def)
  next
    case False
    have card: "length rs < u32_max"
    proof -
      have "distinct (i # rs)" "as_usize ` set (i # rs) \<subseteq> {..<length ?bs}"
        using False lr list_repr_bounds [OF lr] i(1) by (auto simp: list_repr_def)
      then have "length (i # rs) \<le> length ?bs"
        by (metis as_usize_inj card_image card_lessThan card_mono distinct_card finite_lessThan inj_onI)
      then show ?thesis using hd(4) by simp
    qed
    have "ok (push_back retry_slot RETRY_TAG (q_retry_blocks q) ?bs i) (\<lambda>(l', bs').
        list_repr (map mb_retry_link bs') RETRY_TAG l' (rs @ [i]) \<and>
        kept retry_slot retry_payload (insert i (set rs)) ?bs bs')"
      using rl.push_back_ok [of ?bs RETRY_TAG "q_retry_blocks q" rs i] lr i(1) un [OF i(1) False] card by simp
    then have "ok (push_back retry_slot RETRY_TAG (q_retry_blocks q) ?bs i) (\<lambda>(l', bs').
        queue_repr (q\<lparr>q_retry_blocks := l', q_blocks := bs'\<rparr>) (rs @ [i]) ss \<and>
        status (q\<lparr>q_retry_blocks := l', q_blocks := bs'\<rparr>) = status q)"
    proof (rule ok_mono, clarify)
      fix l' bs'
      assume lr': "list_repr (map mb_retry_link bs') RETRY_TAG l' (rs @ [i])"
        and k: "kept retry_slot retry_payload (insert i (set rs)) ?bs bs'"
      have p: "map retry_payload bs' = map retry_payload ?bs" using k by (simp add: kept_def)
      note fr = map_frame [OF p] retry_payload_frame
      have len: "length bs' = length ?bs" using kept_length [OF k] .
      have links: "mb_retry_link (bs' ! as_usize j) = mb_retry_link (?bs ! as_usize j)"
        if "as_usize j < length ?bs" "j \<notin> insert i (set rs)" for j
        using k that len by (auto simp: kept_def)
      have rm: "map mb_retry_word_mask bs' = map mb_retry_word_mask ?bs"
        and sm: "map mb_sparse_word_mask bs' = map mb_sparse_word_mask ?bs"
        and sk: "map mb_sparse_link bs' = map mb_sparse_link ?bs"
        by (rule fr(1), simp add: retry_payload_frame)+
      have "members (map mb_retry_link bs') RETRY_TAG l' (map mb_retry_word_mask bs') (rs @ [i])"
        unfolding rm by (rule membersI [OF lr']) (use mem i un links len in auto)
      moreover have "block_inv (q_head q) b (bs' ! b)" if "b < length ?bs" for b
        using inv [OF that] payload_nth [OF p that] retry_payload_frame(1) by metis
      moreover have "status (q\<lparr>q_retry_blocks := l', q_blocks := bs'\<rparr>) = status q"
        by (rule status_relink [OF p retry_payload_frame(2)]) (use hd(3) in auto)
      ultimately show "queue_repr (q\<lparr>q_retry_blocks := l', q_blocks := bs'\<rparr>) (rs @ [i]) ss \<and>
          status (q\<lparr>q_retry_blocks := l', q_blocks := bs'\<rparr>) = status q"
        using hd ms len by (simp add: queue_repr_def sm sk)
    qed
    then show ?thesis
      using False listed i(1) by (auto simp: ensure_retry_listed_def same_seqs_def elim!: ok_mono)
  qed
qed

lemma nack_local:
  assumes r: "queue_repr q rs ss" and b: "b < length (q_blocks q)" and blk: "blk = q_blocks q ! b"
    and len: "length f = 4" "length rt = 4"
    and X: "\<And>j. j < 256 \<Longrightarrow> X j \<Longrightarrow> bstat blk j = Inflight"
    and f: "\<And>j. j < 256 \<Longrightarrow> wbit f j \<longleftrightarrow> wbit (mb_inflight blk) j \<and> \<not> X j"
    and rt: "\<And>j. j < 256 \<Longrightarrow> wbit rt j \<longleftrightarrow> wbit (mb_retry blk) j \<or> X j"
    and m: "\<And>w. bit m w \<longleftrightarrow> w < 4 \<and> rt ! w \<noteq> 0" "m \<noteq> 0" and i: "as_usize i = b"
    and q1: "q1 = q\<lparr>q_blocks := (q_blocks q)[b := blk\<lparr>mb_inflight := f, mb_retry := rt, mb_retry_word_mask := m\<rparr>]\<rparr>"
  shows "ok (ensure_retry_listed q1 i) (\<lambda>q'. queue_repr q' (if i \<in> set rs then rs else rs @ [i]) ss \<and>
    same_seqs q q' \<and> q_stats q' = q_stats q \<and>
    status q' = (\<lambda>s. if s div 256 = b \<and> X (s mod 256) then Some Retry else status q s))"
proof -
  let ?blk = "blk\<lparr>mb_inflight := f, mb_retry := rt, mb_retry_word_mask := m\<rparr>"
  have inv: "block_inv (q_head q) b blk" using queue_repr_block [OF r b] blk by simp
  have xi: "wbit (mb_inflight blk) j" if "j < 256" "X j" for j
    using X [OF that] block_inv_bits(4) [OF inv that(1)] by simp
  have inv': "block_inv (q_head q) b ?blk"
    using inv len f rt xi m(1) unfolding block_inv_def by simp blast
  have st: "bstat ?blk j = (if X j then Retry else bstat blk j)" if "j < 256" for j
    using f [OF that] rt [OF that] xi [OF that] inv that unfolding block_inv_def bstat_def by simp
  have lt: "s < q_next_seq q" if "s div 256 = b" "X (s mod 256)" for s
    using block_inv_bits(1) [OF inv, of "s mod 256"] xi [of "s mod 256"] that r
    by (auto simp: queue_repr_def)
  have s1: "status q1 = (\<lambda>s. if s div 256 = b \<and> X (s mod 256) then Some Retry else status q s)"
  proof
    fix s
    show "status q1 s = (if s div 256 = b \<and> X (s mod 256) then Some Retry else status q s)"
      using st [of "s mod 256"] lt [of s] status_update_block [OF b, of ?blk s, folded q1]
      by (auto simp: status_def blk)
  qed
  have k1: "map mb_retry_link (q_blocks q1) = map mb_retry_link (q_blocks q)"
    using b by (simp add: q1 map_update blk)
  have "ok (ensure_retry_listed q1 i) (\<lambda>q'. queue_repr q' (if i \<in> set rs then rs else rs @ [i]) ss \<and>
    same_seqs q1 q' \<and> q_stats q' = q_stats q1 \<and> status q' = status q1)"
  proof (rule ensure_retry_listed_ok)
    show "members (map mb_retry_link (q_blocks q1)) RETRY_TAG (q_retry_blocks q1)
        (map mb_retry_word_mask (q_blocks q)) rs"
      unfolding k1 using r by (simp add: queue_repr_def q1)
    show "members (map mb_sparse_link (q_blocks q1)) SPARSE_TAG (q_sparse_blocks q1)
        (map mb_sparse_word_mask (q_blocks q1)) ss"
      using r by (auto simp: q1 queue_repr_def blk intro!: members_update [OF _ b])
    show "block_inv (q_head q1) b' (q_blocks q1 ! b')" if "b' < length (q_blocks q1)" for b'
      using inv' queue_repr_block [OF r, of b'] that by (cases "b' = b") (simp_all add: q1)
  qed (use r b i m in \<open>auto simp: q1 queue_repr_def nth_list_update\<close>)
  then show ?thesis
    by (rule ok_mono) (use s1 in \<open>simp add: same_seqs_def\<close>, simp add: q1)
qed

lemma mark_words_ok:
  "set ws \<subseteq> {..<8} \<Longrightarrow> ok (mark_words ws m) (\<lambda>m'. \<forall>w. bit m' w \<longleftrightarrow> bit m w \<or> w \<in> set ws)"
proof (induction ws arbitrary: m)
  case Nil
  then show ?case by simp
next
  case (Cons w ws)
  have "ok (mark_words ws (m OR push_bit w 1)) (\<lambda>m'. \<forall>v. bit m' v \<longleftrightarrow> bit m v \<or> v \<in> set (w # ws))"
    by (rule ok_mono [OF Cons.IH]) (use Cons.prems in \<open>auto simp: bit_or_iff\<close>)
  then show ?case using Cons.prems by simp
qed

text \<open>A word of the retry bitmap is not zero when it was not or the range touches it.\<close>

lemma wbit_word_nonzero:
  assumes "length ws = 4" and "w < 4"
  shows "ws ! w \<noteq> 0 \<longleftrightarrow> (\<exists>j<256. j div 64 = w \<and> wbit ws j)"
proof
  assume "ws ! w \<noteq> 0"
  then obtain n where n: "bit (ws ! w) n" by (metis bit_eqI bit_0_eq bot_apply bot_bool_def)
  then have "n < 64" using bit_imp_le_length by fastforce
  then show "\<exists>j<256. j div 64 = w \<and> wbit ws j"
    using n assms by (intro exI [of _ "64 * w + n"]) (auto simp: wbit_def)
next
  assume "\<exists>j<256. j div 64 = w \<and> wbit ws j"
  then show "ws ! w \<noteq> 0" by (auto simp: wbit_def)
qed

lemma range_words:
  fixes b t w :: nat
  assumes "0 < t" and "b + t \<le> 256"
  shows "(\<exists>j<256. j div 64 = w \<and> b \<le> j \<and> j < b + t) \<longleftrightarrow> b div 64 \<le> w \<and> w \<le> (b + t - 1) div 64"
proof
  assume "\<exists>j<256. j div 64 = w \<and> b \<le> j \<and> j < b + t"
  then obtain j where "j div 64 = w" "b \<le> j" "j \<le> b + t - 1" by (auto simp: less_diff_conv2 Suc_leI)
  then show "b div 64 \<le> w \<and> w \<le> (b + t - 1) div 64" using div_le_mono by metis
next
  assume w: "b div 64 \<le> w \<and> w \<le> (b + t - 1) div 64"
  have "max b (64 * w) div 64 = w" using w by (auto simp: max_def)
  moreover have "64 * w \<le> b + t - 1" using w by (metis div_le_mono div_times_less_eq_dividend le_trans mult.commute mult_le_mono2)
  ultimately show "\<exists>j<256. j div 64 = w \<and> b \<le> j \<and> j < b + t"
    using assms by (intro exI [of _ "max b (64 * w)"]) auto
qed

lemma index_from_usize_block: "b < u32_max \<Longrightarrow> index_from_usize b = Some (Index (of_nat b + 1))"
proof -
  assume b: "b < u32_max"
  have u: "unat (of_nat b :: 32 word) = b"
    using b by (simp add: u32_max_def unat_of_nat take_bit_nat_eq_self)
  have "unat (of_nat (b + 1) :: 32 word) = b + 1"
    unfolding unat_of_nat using b by (simp add: u32_max_def)
  then have "(of_nat (b + 1) :: 32 word) \<noteq> 0" by (metis Suc_eq_plus1 nat.distinct(1) unat_0)
  then have "(of_nat b :: 32 word) + 1 \<noteq> 0" by (simp add: add.commute)
  then show ?thesis
    using b u by (simp add: index_from_usize_def index_new_def MAX_INDEX_RAW_def u32_max_def)
qed

lemma index_new_block: "b < u32_max \<Longrightarrow> index_new (of_nat b) = Some (Index (of_nat b + 1))"
  using index_from_usize_block [of b] by (auto simp: index_from_usize_def split: if_splits)

lemma nack_block_ok:
  assumes r: "queue_repr q rs ss" and t: "t = min (256 - s mod 256) n"
    and fl: "\<And>x. s \<le> x \<Longrightarrow> x < s + t \<Longrightarrow> status q x = Some Inflight" and "0 < t"
  shows "ok (nack_block q (s div 256) (s mod 256) t) (\<lambda>q'. (\<exists>rs'. queue_repr q' rs' ss) \<and> same_seqs q q' \<and>
    q_stats q' = q_stats q \<and> status q' = (\<lambda>x. if s \<le> x \<and> x < s + t then Some Retry else status q x))"
proof -
  let ?b = "s div 256" and ?j = "s mod 256"
  let ?blk = "q_blocks q ! ?b" and ?X = "\<lambda>j. ?j \<le> j \<and> j < ?j + t"
  have room: "t \<le> 256 - ?j" "?j + t \<le> 256" using t by auto
  have b: "?b < length (q_blocks q)"
    using block_index_bound [OF r status_Some_less [OF fl [of s]]] \<open>0 < t\<close> by simp
  have bi: "?b < u32_max" using b r by (simp add: queue_repr_def)
  have inv: "block_inv (q_head q) ?b ?blk" using queue_repr_block [OF r b] .
  note l = block_invD(1-5) [OF inv]
  have X: "bstat ?blk j = Inflight" if "j < 256" "?X j" for j
    using fl [of "256 * ?b + j"] range_in_block [of s j t] that by (auto simp: status_def split: if_splits)
  let ?ws = "[?j div 64..<Suc ((?j + t - 1) div 64)]"
  have "(?j + t - 1) div 64 < 4" by (rule word_of_bit) (use room \<open>0 < t\<close> in linarith)
  then have ws: "set ?ws \<subseteq> {..<8}" by auto
  let ?Q = "\<lambda>q'. (\<exists>rs'. queue_repr q' rs' ss) \<and> same_seqs q q' \<and>
    q_stats q' = q_stats q \<and> status q' = (\<lambda>x. if s \<le> x \<and> x < s + t then Some Retry else status q x)"
  have "ok (clear_range (mb_inflight ?blk) ?j t) (\<lambda>f. ok (set_range (mb_retry ?blk) ?j t) (\<lambda>rt.
      ok (mark_words ?ws (mb_retry_word_mask ?blk)) (\<lambda>m.
        ok (ensure_retry_listed (q\<lparr>q_blocks := (q_blocks q)[?b :=
          ?blk\<lparr>mb_inflight := f, mb_retry := rt, mb_retry_word_mask := m\<rparr>]\<rparr>) (Index (of_nat ?b + 1))) ?Q)))"
    apply (rule ok_mono [OF block_range_kernels(2) [OF l(1) room(2)]])
    apply (rule ok_mono [OF block_range_kernels(1) [OF l(3) room(2)]])
    apply (rule ok_mono [OF mark_words_ok [OF ws]])
    subgoal for f rt m
    proof -
      assume f: "length f = 4 \<and> (\<forall>j. wbit f j = (wbit (mb_inflight ?blk) j \<and> \<not> ?X j))"
        and rt: "length rt = 4 \<and> (\<forall>j. wbit rt j = (wbit (mb_retry ?blk) j \<or> ?X j))"
        and m: "\<forall>w. bit m w = (bit (mb_retry_word_mask ?blk) w \<or> w \<in> set ?ws)"
      have mw: "bit m w \<longleftrightarrow> w < 4 \<and> rt ! w \<noteq> 0" for w
      proof (cases "w < 4")
        case True
        have "rt ! w \<noteq> 0 \<longleftrightarrow> (\<exists>j<256. j div 64 = w \<and> (wbit (mb_retry ?blk) j \<or> ?X j))"
          using wbit_word_nonzero [of rt w] rt True by simp
        also have "\<dots> \<longleftrightarrow> mb_retry ?blk ! w \<noteq> 0 \<or> w \<in> set ?ws"
          using range_words [OF \<open>0 < t\<close> room(2), of w] wbit_word_nonzero [OF l(3) True]
          by (auto simp del: upt_Suc)
        finally show ?thesis using m block_invD(6) [OF inv, of w] True by blast
      next
        case False
        then show ?thesis
          using m block_invD(6) [OF inv, of w] \<open>(?j + t - 1) div 64 < 4\<close> by (auto simp del: upt_Suc)
      qed
      have "?j div 64 \<in> set ?ws" using \<open>0 < t\<close> by (auto simp: div_le_mono simp del: upt_Suc)
      then have "m \<noteq> 0" using m by auto
      show ?thesis
        by (rule ok_mono [OF nack_local [OF r b refl _ _ X _ _ mw \<open>m \<noteq> 0\<close> index_of_block [OF bi] refl]])
          (use f rt seq_in_block [OF room(1)] in auto)
    qed
    done
  then show ?thesis
    using b \<open>0 < t\<close> by (simp add: nack_block_def index_from_usize_block [OF bi] Let_def del: upt_Suc)
qed

lemma repr_seq_bound: "queue_repr q rs ss \<Longrightarrow> q_next_seq q \<le> 256 * u32_max"
  unfolding queue_repr_def by linarith

lemma range_no_overflow:
  assumes r: "queue_repr q rs ss" and "0 < n"
    and fl: "\<And>x. start \<le> x \<Longrightarrow> x < start + n \<Longrightarrow> status q x = Some Inflight"
  shows "start + n \<le> u64_max"
proof -
  have "start + n - 1 < q_next_seq q"
    by (rule status_Some_less [OF fl]) (use \<open>0 < n\<close> in simp_all)
  with repr_seq_bound [OF r] show ?thesis by (simp add: u32_max_def u64_max_def)
qed

lemma nack_range_ok:
  assumes r: "queue_repr q rs ss" and st: "total_nacked (q_stats q) + n \<le> u64_max"
    and fl: "\<And>x. start \<le> x \<Longrightarrow> x < start + n \<Longrightarrow> status q x = Some Inflight"
  shows "ok (nack_range_to_retry q start n) (\<lambda>q'. (\<exists>rs'. queue_repr q' rs' ss) \<and> same_seqs q q' \<and>
    q_stats q' = (q_stats q)\<lparr>total_nacked := total_nacked (q_stats q) + n\<rparr> \<and>
    status q' = (\<lambda>x. if start \<le> x \<and> x < start + n then Some Retry else status q x))"
proof (cases "n = 0")
  case True
  then show ?thesis using r by (auto simp: nack_range_to_retry_def fun_eq_iff)
next
  case False
  let ?I = "\<lambda>s q'. (\<exists>rs'. queue_repr q' rs' ss) \<and> same_seqs q q' \<and> q_stats q' = q_stats q \<and>
    status q' = (\<lambda>x. if start \<le> x \<and> x < s then Some Retry else status q x)"
  have "ok (block_range_loop nack_block q start (start + n)) (?I (start + n))"
  proof (rule block_range_loop_rule)
    fix q1 s tk
    assume I: "?I s q1" and s: "start \<le> s" "s < start + n" and tk: "tk = min (256 - s mod 256) (start + n - s)"
    have tk0: "0 < tk" "s + tk \<le> start + n" using s tk by auto
    obtain rs' where r1: "queue_repr q1 rs' ss" using I by blast
    have fl1: "status q1 x = Some Inflight" if "s \<le> x" "x < s + tk" for x
      using I fl [of x] that tk0 s by simp
    have split: "start \<le> x \<and> x < s + tk \<longleftrightarrow> (s \<le> x \<and> x < s + tk) \<or> (start \<le> x \<and> x < s)" for x
      using tk0 s by linarith
    show "ok (nack_block q1 (s div 256) (s mod 256) tk) (?I (s + tk))"
      by (rule ok_mono [OF nack_block_ok [OF r1 tk fl1 tk0(1)]])
        (use I same_seqs_trans [of q q1] in \<open>simp_all add: fun_eq_iff split\<close>)
  qed (use r in \<open>auto simp: fun_eq_iff\<close>)
  moreover have "start + n \<le> u64_max" using range_no_overflow [OF r _ fl] False by simp
  ultimately show ?thesis
    using False st by (auto simp: nack_range_to_retry_def bump_nacked_def elim!: ok_mono)
qed

lemma nack_word_ok:
  assumes r: "queue_repr q rs ss" and w: "w < 4" and m: "m \<noteq> 0"
    and fl: "\<And>x. x \<in> mask_seqs b w m \<Longrightarrow> status q x = Some Inflight" and b: "b < length (q_blocks q)"
  shows "ok (nack_word q b w m) (\<lambda>q'. (\<exists>rs'. queue_repr q' rs' ss) \<and> same_seqs q q' \<and> q_stats q' = q_stats q \<and>
    status q' = (\<lambda>x. if x \<in> mask_seqs b w m then Some Retry else status q x))"
proof -
  let ?blk = "q_blocks q ! b" and ?X = "\<lambda>j. j div 64 = w \<and> bit m (j mod 64)"
  let ?f = "(mb_inflight ?blk)[w := mb_inflight ?blk ! w AND NOT m]"
  let ?r = "(mb_retry ?blk)[w := mb_retry ?blk ! w OR m]"
  let ?m = "mb_retry_word_mask ?blk OR push_bit w 1"
  have inv: "block_inv (q_head q) b ?blk" using queue_repr_block [OF r b] .
  note l = block_invD(1-5) [OF inv]
  have bi: "b < u32_max" using b r by (simp add: queue_repr_def)
  have X: "bstat ?blk j = Inflight" if "j < 256" "?X j" for j
    using fl [of "256 * b + j"] that by (auto simp: mask_seqs_def status_def split: if_splits)
  have or0: "x OR m \<noteq> 0" for x using m by (metis or_eq_0_iff)
  have mw: "bit ?m v \<longleftrightarrow> v < 4 \<and> ?r ! v \<noteq> 0" for v
    using w block_invD(6) [OF inv, of v] l or0 by (cases "v = w") (auto simp: bit_or_iff)
  have "?m \<noteq> 0" using mw [of w] w l or0 by auto
  have "ok (ensure_retry_listed (q\<lparr>q_blocks := (q_blocks q)[b :=
      ?blk\<lparr>mb_inflight := ?f, mb_retry := ?r, mb_retry_word_mask := ?m\<rparr>]\<rparr>) (Index (of_nat b + 1)))
    (\<lambda>q'. (\<exists>rs'. queue_repr q' rs' ss) \<and> same_seqs q q' \<and> q_stats q' = q_stats q \<and>
      status q' = (\<lambda>x. if x div 256 = b \<and> ?X (x mod 256) then Some Retry else status q x))"
    by (rule ok_mono [OF nack_local [OF r b refl _ _ X _ _ mw \<open>?m \<noteq> 0\<close> index_of_block [OF bi] refl]])
      (use l w in \<open>auto simp: wbit_word_update wbit_same bit_simps dest: bit_imp_le_length\<close>)
  then show ?thesis
    using b w l by (simp add: nack_word_def mask_seqs_def index_new_block [OF bi])
qed

section \<open>Batches\<close>

definition mask_list :: "nat \<Rightarrow> nat \<Rightarrow> 64 word \<Rightarrow> nat list" where
  "mask_list b w m = map (\<lambda>i. 256 * b + 64 * w + i) (bits_of m)"

lemma set_mask_list: "w < 4 \<Longrightarrow> set (mask_list b w m) = mask_seqs b w m"
proof -
  assume w: "w < 4"
  have e: "(256 * b + 64 * w + i) div 256 = b" "(256 * b + 64 * w + i) mod 256 = 64 * w + i" if "i < 64" for i
  proof -
    have "64 * w + i < 256" using w that by linarith
    then have "(256 * b + (64 * w + i)) div 256 = b" "(256 * b + (64 * w + i)) mod 256 = 64 * w + i"
      by (simp_all only: div_mult_self4 mod_mult_self4 div_less mod_less add_0_right)
    then show "(256 * b + 64 * w + i) div 256 = b" "(256 * b + 64 * w + i) mod 256 = 64 * w + i"
      by (simp_all only: add.assoc)
  qed
  have "\<exists>i. bit m i \<and> x = 256 * b + 64 * w + i" if "x \<in> mask_seqs b w m" for x
  proof (intro exI conjI)
    show "bit m (x mod 256 mod 64)" using that by (simp add: mask_seqs_def)
    have D: "x div 256 = b" "x mod 256 div 64 = w" using that by (simp_all add: mask_seqs_def)
    have "x = 256 * (x div 256) + (64 * (x mod 256 div 64) + x mod 256 mod 64)"
      by (simp only: mult_div_mod_eq)
    then show "x = 256 * b + 64 * w + x mod 256 mod 64" by (simp only: D add.assoc)
  qed
  moreover have "256 * b + 64 * w + i \<in> mask_seqs b w m" if "bit m i" for i
  proof -
    have "i < 64" using bit_imp_le_length [OF that] by simp
    then show ?thesis using that w e by (simp add: mask_seqs_def)
  qed
  ultimately show ?thesis unfolding mask_list_def by auto
qed

lemma length_mask_list [simp]: "length (mask_list b w m) = count_ones m"
  by (simp add: mask_list_def count_ones_def)

text \<open>
  An operation that settles the messages \<open>seqs x\<close> of an item: it takes them from in flight to
  the state \<open>v\<close> and adds their number to one counter. \<open>settles\<close> is its contract; a batch of
  such items settles the messages of all of them.
\<close>

locale settles =
  fixes f :: "'a \<Rightarrow> HybridRangeBlockQueue \<Rightarrow> HybridRangeBlockQueue option"
    and seqs :: "'a \<Rightarrow> nat list" and valid :: "'a \<Rightarrow> bool" and v :: MessageState
    and cnt :: "QueueStats \<Rightarrow> nat" and bump :: "nat \<Rightarrow> QueueStats \<Rightarrow> QueueStats"
  assumes cnt_bump: "cnt (bump n st) = cnt st + n"
    and bump_0: "bump 0 st = st"
    and bump_add: "bump m (bump n st) = bump (n + m) st"
    and step: "queue_repr q rs ss \<Longrightarrow> valid x \<Longrightarrow> (\<And>s. s \<in> set (seqs x) \<Longrightarrow> status q s = Some Inflight) \<Longrightarrow>
      cnt (q_stats q) + length (seqs x) \<le> u64_max \<Longrightarrow>
      ok (f x q) (\<lambda>q'. (\<exists>rs'. queue_repr q' rs' ss) \<and> same_seqs q q' \<and>
        q_stats q' = bump (length (seqs x)) (q_stats q) \<and>
        status q' = (\<lambda>s. if s \<in> set (seqs x) then Some v else status q s))"
begin

lemma settles_all:
  "queue_repr q rs ss \<Longrightarrow> (\<And>x. x \<in> set xs \<Longrightarrow> valid x) \<Longrightarrow> distinct (concat (map seqs xs)) \<Longrightarrow>
   (\<And>s. s \<in> set (concat (map seqs xs)) \<Longrightarrow> status q s = Some Inflight) \<Longrightarrow>
   cnt (q_stats q) + length (concat (map seqs xs)) \<le> u64_max \<Longrightarrow>
   ok (for_each_q f xs q) (\<lambda>q'. (\<exists>rs'. queue_repr q' rs' ss) \<and> same_seqs q q' \<and>
     q_stats q' = bump (length (concat (map seqs xs))) (q_stats q) \<and>
     status q' = (\<lambda>s. if s \<in> set (concat (map seqs xs)) then Some v else status q s))"
proof (induction xs arbitrary: q rs)
  case Nil
  then show ?case by (auto simp: bump_0)
next
  case (Cons x xs)
  have "ok (f x q) (\<lambda>q'. (\<exists>rs'. queue_repr q' rs' ss) \<and> same_seqs q q' \<and>
        q_stats q' = bump (length (seqs x)) (q_stats q) \<and>
        status q' = (\<lambda>s. if s \<in> set (seqs x) then Some v else status q s))"
    using Cons.prems by (intro step) auto
  then show ?case
    unfolding for_each_q.simps ok_bind
  proof (rule ok_mono)
    fix q1
    assume q1: "(\<exists>rs'. queue_repr q1 rs' ss) \<and> same_seqs q q1 \<and>
        q_stats q1 = bump (length (seqs x)) (q_stats q) \<and>
        status q1 = (\<lambda>s. if s \<in> set (seqs x) then Some v else status q s)"
    then obtain rs' where r1: "queue_repr q1 rs' ss" by blast
    have dj: "set (seqs x) \<inter> set (concat (map seqs xs)) = {}" using Cons.prems(3) by simp
    show "ok (for_each_q f xs q1) (\<lambda>q'. (\<exists>rs'. queue_repr q' rs' ss) \<and> same_seqs q q' \<and>
        q_stats q' = bump (length (concat (map seqs (x # xs)))) (q_stats q) \<and>
        status q' = (\<lambda>s. if s \<in> set (concat (map seqs (x # xs))) then Some v else status q s))"
    proof (rule ok_mono [OF Cons.IH [OF r1]])
      show "distinct (concat (map seqs xs))" using Cons.prems(3) by simp
      show "status q1 s = Some Inflight" if "s \<in> set (concat (map seqs xs))" for s
        using q1 dj Cons.prems(4) [of s] that by auto
      show "cnt (q_stats q1) + length (concat (map seqs xs)) \<le> u64_max"
        using q1 Cons.prems(5) by (simp add: cnt_bump)
      show "valid y" if "y \<in> set xs" for y using Cons.prems(2) that by simp
      fix q'
      assume "(\<exists>rs'. queue_repr q' rs' ss) \<and> same_seqs q1 q' \<and>
        q_stats q' = bump (length (concat (map seqs xs))) (q_stats q1) \<and>
        status q' = (\<lambda>s. if s \<in> set (concat (map seqs xs)) then Some v else status q1 s)"
      with q1 show "(\<exists>rs'. queue_repr q' rs' ss) \<and> same_seqs q q' \<and>
        q_stats q' = bump (length (concat (map seqs (x # xs)))) (q_stats q) \<and>
        status q' = (\<lambda>s. if s \<in> set (concat (map seqs (x # xs))) then Some v else status q s)"
        by (simp add: bump_add fun_eq_iff) (metis same_seqs_trans)
    qed
  qed
qed

end

text \<open>Two such operations that share the state and the counter, one after the other.\<close>

locale settles_batch =
  a: settles f seqs valid v cnt bump + b: settles g tseqs tvalid v cnt bump
  for f :: "'a \<Rightarrow> HybridRangeBlockQueue \<Rightarrow> HybridRangeBlockQueue option" and seqs valid v cnt bump
    and g :: "'b \<Rightarrow> HybridRangeBlockQueue \<Rightarrow> HybridRangeBlockQueue option" and tseqs tvalid
begin

lemma settles_both:
  assumes r: "queue_repr q rs ss" and wf: "\<And>x. x \<in> set xs \<Longrightarrow> valid x" "\<And>y. y \<in> set ys \<Longrightarrow> tvalid y"
    and d: "distinct (concat (map seqs xs) @ concat (map tseqs ys))"
    and fl: "\<And>s. s \<in> set (concat (map seqs xs) @ concat (map tseqs ys)) \<Longrightarrow> status q s = Some Inflight"
    and st: "cnt (q_stats q) + length (concat (map seqs xs) @ concat (map tseqs ys)) \<le> u64_max"
  shows "ok (Option.bind (for_each_q f xs q) (for_each_q g ys)) (\<lambda>q'. (\<exists>rs'. queue_repr q' rs' ss) \<and>
    same_seqs q q' \<and>
    q_stats q' = bump (length (concat (map seqs xs) @ concat (map tseqs ys))) (q_stats q) \<and>
    status q' = (\<lambda>s. if s \<in> set (concat (map seqs xs) @ concat (map tseqs ys)) then Some v else status q s))"
  unfolding ok_bind
proof (rule ok_mono [OF a.settles_all [of q rs ss xs, OF r]])
  define S where "S = concat (map seqs xs)"
  define M where "M = concat (map tseqs ys)"
  show "valid x" if "x \<in> set xs" for x using wf(1) that .
  show "distinct (concat (map seqs xs))" using d by simp
  show "cnt (q_stats q) + length (concat (map seqs xs)) \<le> u64_max" using st by simp
  show "status q s = Some Inflight" if "s \<in> set (concat (map seqs xs))" for s using fl that by simp
  fix q1
  assume q1: "(\<exists>rs'. queue_repr q1 rs' ss) \<and> same_seqs q q1 \<and>
      q_stats q1 = bump (length (concat (map seqs xs))) (q_stats q) \<and>
      status q1 = (\<lambda>s. if s \<in> set (concat (map seqs xs)) then Some v else status q s)"
  then obtain rs1 where r1: "queue_repr q1 rs1 ss" by blast
  have q1': "same_seqs q q1" "q_stats q1 = bump (length S) (q_stats q)"
      "status q1 = (\<lambda>s. if s \<in> set S then Some v else status q s)"
    using q1 by (simp_all only: S_def)
  have dS: "set S \<inter> set M = {}" "distinct M" using d by (simp_all add: S_def M_def)
  show "ok (for_each_q g ys q1) (\<lambda>q'. (\<exists>rs'. queue_repr q' rs' ss) \<and> same_seqs q q' \<and>
    q_stats q' = bump (length (concat (map seqs xs) @ concat (map tseqs ys))) (q_stats q) \<and>
    status q' = (\<lambda>s. if s \<in> set (concat (map seqs xs) @ concat (map tseqs ys)) then Some v else status q s))"
    unfolding S_def [symmetric] M_def [symmetric]
  proof (rule ok_mono [OF b.settles_all [of q1 rs1 ss ys, OF r1, folded M_def]])
    show "tvalid y" if "y \<in> set ys" for y using wf(2) that .
    show "distinct M" by fact
    show "status q1 s = Some Inflight" if "s \<in> set M" for s
    proof -
      have "s \<notin> set S" using dS that by blast
      then show ?thesis using q1'(3) fl [of s] that by (simp add: M_def)
    qed
    show "cnt (q_stats q1) + length M \<le> u64_max"
      using q1'(2) st by (simp add: a.cnt_bump S_def M_def)
    fix q'
    assume "(\<exists>rs'. queue_repr q' rs' ss) \<and> same_seqs q1 q' \<and> q_stats q' = bump (length M) (q_stats q1) \<and>
      status q' = (\<lambda>s. if s \<in> set M then Some v else status q1 s)"
    then show "(\<exists>rs'. queue_repr q' rs' ss) \<and> same_seqs q q' \<and> q_stats q' = bump (length (S @ M)) (q_stats q) \<and>
      status q' = (\<lambda>s. if s \<in> set (S @ M) then Some v else status q s)"
      using q1' same_seqs_trans [of q q1 q'] by (simp add: a.bump_add fun_eq_iff)
  qed
qed

end

lemma mask_block_bound:
  assumes r: "queue_repr q rs ss" and "w < 4" "m \<noteq> 0"
    and fl: "\<And>s. s \<in> set (mask_list b w m) \<Longrightarrow> status q s = Some Inflight"
  shows "b < length (q_blocks q)"
proof -
  obtain i js where "bits_of m = i # js" using bits_of_eq_Nil [of m] assms(3) by (cases "bits_of m") auto
  then have s: "256 * b + 64 * w + i \<in> set (mask_list b w m)" by (simp add: mask_list_def)
  then have "(256 * b + 64 * w + i) div 256 = b" using set_mask_list [OF assms(2), of b m] by (simp add: mask_seqs_def)
  then show ?thesis using block_index_bound [OF r status_Some_less [OF fl [OF s]]] by simp
qed

lemma ack_range_settles:
  assumes "queue_repr q rs ss" and "total_acked (q_stats q) + n \<le> u64_max"
    and "\<And>s. s \<in> set [start..<start + n] \<Longrightarrow> status q s = Some Inflight"
  shows "ok (ack_range q start n) (\<lambda>q'. (\<exists>rs'. queue_repr q' rs' ss) \<and> same_seqs q q' \<and>
    q_stats q' = (q_stats q)\<lparr>total_acked := total_acked (q_stats q) + n\<rparr> \<and>
    status q' = (\<lambda>s. if s \<in> set [start..<start + n] then Some Acked else status q s))"
  by (rule ok_mono [OF ack_range_ok [OF assms(1,2)]]) (use assms(3) in auto)

lemma nack_range_settles:
  assumes "queue_repr q rs ss" and "total_nacked (q_stats q) + n \<le> u64_max"
    and "\<And>s. s \<in> set [start..<start + n] \<Longrightarrow> status q s = Some Inflight"
  shows "ok (nack_range_to_retry q start n) (\<lambda>q'. (\<exists>rs'. queue_repr q' rs' ss) \<and> same_seqs q q' \<and>
    q_stats q' = (q_stats q)\<lparr>total_nacked := total_nacked (q_stats q) + n\<rparr> \<and>
    status q' = (\<lambda>s. if s \<in> set [start..<start + n] then Some Retry else status q s))"
  by (rule ok_mono [OF nack_range_ok [OF assms(1,2)]]) (use assms(3) in auto)

lemma ack_word_settles:
  assumes r: "queue_repr q rs ss" and w: "w < 4" and m: "m \<noteq> 0"
    and fl: "\<And>s. s \<in> set (mask_list b w m) \<Longrightarrow> status q s = Some Inflight"
    and st: "total_acked (q_stats q) + count_ones m \<le> u64_max"
  shows "ok (Option.bind (ack_word q b w m) (bump_acked (count_ones m))) (\<lambda>q'.
    (\<exists>rs'. queue_repr q' rs' ss) \<and> same_seqs q q' \<and>
    q_stats q' = (q_stats q)\<lparr>total_acked := total_acked (q_stats q) + count_ones m\<rparr> \<and>
    status q' = (\<lambda>s. if s \<in> set (mask_list b w m) then Some Acked else status q s))"
  unfolding ok_bind
  by (rule ok_mono [OF ack_word_ok [OF r mask_block_bound [OF r w m fl] w fl]])
    (use st in \<open>auto simp: bump_acked_def set_mask_list [OF w]\<close>)

lemma nack_word_settles:
  assumes r: "queue_repr q rs ss" and w: "w < 4" and m: "m \<noteq> 0"
    and fl: "\<And>s. s \<in> set (mask_list b w m) \<Longrightarrow> status q s = Some Inflight"
    and st: "total_nacked (q_stats q) + count_ones m \<le> u64_max"
  shows "ok (Option.bind (nack_word q b w m) (bump_nacked (count_ones m))) (\<lambda>q'.
    (\<exists>rs'. queue_repr q' rs' ss) \<and> same_seqs q q' \<and>
    q_stats q' = (q_stats q)\<lparr>total_nacked := total_nacked (q_stats q) + count_ones m\<rparr> \<and>
    status q' = (\<lambda>s. if s \<in> set (mask_list b w m) then Some Retry else status q s))"
  unfolding ok_bind
  by (rule ok_mono [OF nack_word_ok [OF r w m fl mask_block_bound [OF r w m fl]]])
    (use st in \<open>auto simp: bump_nacked_def set_mask_list [OF w]\<close>)

interpretation ack_ranges: settles
  "\<lambda>r q. ack_range q (ar_start_seq r) (ar_len r)"
  "\<lambda>r. [ar_start_seq r..<ar_start_seq r + ar_len r]" "\<lambda>_. True" Acked total_acked
  "\<lambda>n st. st\<lparr>total_acked := total_acked st + n\<rparr>"
  by unfold_locales (use ack_range_settles in auto)

interpretation ack_masks: settles
  "\<lambda>m q. Option.bind (ack_word q (am_block m) (am_word m) (am_mask m)) (bump_acked (count_ones (am_mask m)))"
  "\<lambda>m. mask_list (am_block m) (am_word m) (am_mask m)" "\<lambda>m. am_word m < 4 \<and> am_mask m \<noteq> 0" Acked total_acked
  "\<lambda>n st. st\<lparr>total_acked := total_acked st + n\<rparr>"
  by unfold_locales (use ack_word_settles in auto)

interpretation nack_ranges: settles
  "\<lambda>r q. nack_range_to_retry q (nr_start_seq r) (nr_len r)"
  "\<lambda>r. [nr_start_seq r..<nr_start_seq r + nr_len r]" "\<lambda>_. True" Retry total_nacked
  "\<lambda>n st. st\<lparr>total_nacked := total_nacked st + n\<rparr>"
  by unfold_locales (use nack_range_settles in auto)

interpretation nack_masks: settles
  "\<lambda>m q. Option.bind (nack_word q (nm_block m) (nm_word m) (nm_mask m)) (bump_nacked (count_ones (nm_mask m)))"
  "\<lambda>m. mask_list (nm_block m) (nm_word m) (nm_mask m)" "\<lambda>m. nm_word m < 4 \<and> nm_mask m \<noteq> 0" Retry total_nacked
  "\<lambda>n st. st\<lparr>total_nacked := total_nacked st + n\<rparr>"
  by unfold_locales (use nack_word_settles in auto)

interpretation ack_batch: settles_batch
  "\<lambda>r q. ack_range q (ar_start_seq r) (ar_len r)"
  "\<lambda>r. [ar_start_seq r..<ar_start_seq r + ar_len r]" "\<lambda>_. True" Acked total_acked
  "\<lambda>n st. st\<lparr>total_acked := total_acked st + n\<rparr>"
  "\<lambda>m q. Option.bind (ack_word q (am_block m) (am_word m) (am_mask m)) (bump_acked (count_ones (am_mask m)))"
  "\<lambda>m. mask_list (am_block m) (am_word m) (am_mask m)" "\<lambda>m. am_word m < 4 \<and> am_mask m \<noteq> 0"
  by unfold_locales

interpretation nack_batch: settles_batch
  "\<lambda>r q. nack_range_to_retry q (nr_start_seq r) (nr_len r)"
  "\<lambda>r. [nr_start_seq r..<nr_start_seq r + nr_len r]" "\<lambda>_. True" Retry total_nacked
  "\<lambda>n st. st\<lparr>total_nacked := total_nacked st + n\<rparr>"
  "\<lambda>m q. Option.bind (nack_word q (nm_block m) (nm_word m) (nm_mask m)) (bump_nacked (count_ones (nm_mask m)))"
  "\<lambda>m. mask_list (nm_block m) (nm_word m) (nm_mask m)" "\<lambda>m. nm_word m < 4 \<and> nm_mask m \<noteq> 0"
  by unfold_locales

text \<open>The messages of a batch, in the order the batch lists them.\<close>

definition ack_seqs :: "AckBatch \<Rightarrow> nat list" where
  "ack_seqs batch =
     concat (map (\<lambda>r. [ar_start_seq r..<ar_start_seq r + ar_len r]) (ab_ranges batch)) @
     concat (map (\<lambda>m. mask_list (am_block m) (am_word m) (am_mask m)) (ab_masks batch))"

definition nack_seqs :: "NackBatch \<Rightarrow> nat list" where
  "nack_seqs batch =
     concat (map (\<lambda>r. [nr_start_seq r..<nr_start_seq r + nr_len r]) (nb_ranges batch)) @
     concat (map (\<lambda>m. mask_list (nm_block m) (nm_word m) (nm_mask m)) (nb_masks batch))"

definition ack_batch_wf :: "AckBatch \<Rightarrow> bool" where
  "ack_batch_wf batch \<longleftrightarrow> (\<forall>m\<in>set (ab_masks batch). am_word m < 4 \<and> am_mask m \<noteq> 0)"

definition nack_batch_wf :: "NackBatch \<Rightarrow> bool" where
  "nack_batch_wf batch \<longleftrightarrow> (\<forall>m\<in>set (nb_masks batch). nm_word m < 4 \<and> nm_mask m \<noteq> 0)"

lemma apply_ack_batch_ok:
  assumes r: "queue_repr q rs ss" and wf: "ack_batch_wf batch" and d: "distinct (ack_seqs batch)"
    and fl: "\<And>s. s \<in> set (ack_seqs batch) \<Longrightarrow> status q s = Some Inflight"
    and st: "total_acked (q_stats q) + length (ack_seqs batch) \<le> u64_max"
  shows "ok (apply_ack_batch q batch) (\<lambda>q'. (\<exists>rs'. queue_repr q' rs' ss) \<and> same_seqs q q' \<and>
    q_stats q' = (q_stats q)\<lparr>total_acked := total_acked (q_stats q) + length (ack_seqs batch)\<rparr> \<and>
    status q' = (\<lambda>s. if s \<in> set (ack_seqs batch) then Some Acked else status q s))"
  using ack_batch.settles_both [of q rs ss "ab_ranges batch" "ab_masks batch"] r wf d fl st
  unfolding apply_ack_batch_def ack_batch_wf_def ack_seqs_def by blast

lemma apply_nack_batch_ok:
  assumes r: "queue_repr q rs ss" and wf: "nack_batch_wf batch" and d: "distinct (nack_seqs batch)"
    and fl: "\<And>s. s \<in> set (nack_seqs batch) \<Longrightarrow> status q s = Some Inflight"
    and st: "total_nacked (q_stats q) + length (nack_seqs batch) \<le> u64_max"
  shows "ok (apply_nack_batch q batch) (\<lambda>q'. (\<exists>rs'. queue_repr q' rs' ss) \<and> same_seqs q q' \<and>
    q_stats q' = (q_stats q)\<lparr>total_nacked := total_nacked (q_stats q) + length (nack_seqs batch)\<rparr> \<and>
    status q' = (\<lambda>s. if s \<in> set (nack_seqs batch) then Some Retry else status q s))"
  using nack_batch.settles_both [of q rs ss "nb_ranges batch" "nb_masks batch"] r wf d fl st
  unfolding apply_nack_batch_def nack_batch_wf_def nack_seqs_def by blast

end
