(* ===== verification/Queue_Sparse.thy ===== *)
theory Queue_Sparse
  imports Queue_Settle
begin

text \<open>
  Delivery of single blocks. \<open>sparse_order q ss\<close> is the order in which the messages that were
  made ready again are delivered: the blocks of the sparse list in turn, each in ascending order.
  \<open>mark_inflight_range\<close> puts a sequential range in flight; \<open>deliver_sparse_loop\<close> hands out
  the front of the sparse order.
\<close>

section \<open>The order of the sparse messages\<close>

definition block_sparse :: "nat list \<Rightarrow> MsgBlock \<Rightarrow> nat list" where
  "block_sparse ws blk = concat (map (\<lambda>w. map (\<lambda>i. 64 * w + i) (bits_of (mb_sparse_ready blk ! w))) ws)"

definition sparse_order :: "MsgBlock list \<Rightarrow> Index list \<Rightarrow> nat list" where
  "sparse_order bs ss =
     concat (map (\<lambda>i. map (\<lambda>j. 256 * as_usize i + j) (block_sparse [0..<4] (bs ! as_usize i))) ss)"

definition masks_seqs :: "DeliveryMask list \<Rightarrow> nat list" where
  "masks_seqs ms = concat (map (\<lambda>m. mask_list (dm_block m) (dm_word m) (dm_mask m)) ms)"

definition masks_wf :: "DeliveryMask list \<Rightarrow> bool" where
  "masks_wf ms \<longleftrightarrow> (\<forall>m\<in>set ms. dm_word m < 4 \<and> dm_mask m \<noteq> 0)"

lemma masks_seqs_simps [simp]:
  "masks_seqs [] = []" "masks_seqs (ms @ ns) = masks_seqs ms @ masks_seqs ns"
  "masks_seqs [m] = mask_list (dm_block m) (dm_word m) (dm_mask m)"
  by (simp_all add: masks_seqs_def)

lemma masks_wf_simps [simp]:
  "masks_wf []" "masks_wf (ms @ ns) \<longleftrightarrow> masks_wf ms \<and> masks_wf ns"
  "masks_wf [m] \<longleftrightarrow> dm_word m < 4 \<and> dm_mask m \<noteq> 0"
  by (auto simp: masks_wf_def)

lemma block_sparse_Cons [simp]:
  "block_sparse (w # ws) blk = map (\<lambda>i. 64 * w + i) (bits_of (mb_sparse_ready blk ! w)) @ block_sparse ws blk"
  "block_sparse [] blk = []"
  by (simp_all add: block_sparse_def)

lemma set_block_sparse:
  assumes "length (mb_sparse_ready blk) = 4" and "set ws \<subseteq> {..<4}"
  shows "set (block_sparse ws blk) = {j. j div 64 \<in> set ws \<and> wbit (mb_sparse_ready blk) j}"
proof -
  have "j \<in> set (block_sparse ws blk) \<longleftrightarrow> (\<exists>w\<in>set ws. \<exists>i. bit (mb_sparse_ready blk ! w) i \<and> j = 64 * w + i)" for j
    by (auto simp: block_sparse_def)
  also have "(\<exists>w\<in>set ws. \<exists>i. bit (mb_sparse_ready blk ! w) i \<and> j = 64 * w + i) \<longleftrightarrow>
      j div 64 \<in> set ws \<and> wbit (mb_sparse_ready blk) j" for j
  proof
    assume "\<exists>w\<in>set ws. \<exists>i. bit (mb_sparse_ready blk ! w) i \<and> j = 64 * w + i"
    then obtain w i where wi: "w \<in> set ws" "bit (mb_sparse_ready blk ! w) i" "j = 64 * w + i" by blast
    have "i < 64" using bit_imp_le_length [OF wi(2)] by simp
    then have "j div 64 = w" "j mod 64 = i" using wi(3) by simp_all
    then show "j div 64 \<in> set ws \<and> wbit (mb_sparse_ready blk) j"
      using wi assms by (auto simp: wbit_def)
  next
    assume j: "j div 64 \<in> set ws \<and> wbit (mb_sparse_ready blk) j"
    have "j = 64 * (j div 64) + j mod 64" by simp
    with j show "\<exists>w\<in>set ws. \<exists>i. bit (mb_sparse_ready blk ! w) i \<and> j = 64 * w + i"
      unfolding wbit_def by blast
  qed
  finally show ?thesis by blast
qed

lemma take_lowest_bits_local_ok:
  "ok (take_lowest_bits_local w mx) (\<lambda>m. bits_of m = take mx (bits_of w))"
proof (cases "w = 0 \<or> mx = 0 \<or> count_ones w \<le> mx")
  case True
  then show ?thesis by (auto simp: take_lowest_bits_local_def count_ones_def)
next
  case False
  then show ?thesis using take_lowest_loop_bits [of mx w] by (simp add: take_lowest_bits_local_def)
qed

section \<open>Sequential delivery\<close>

lemma status_head [simp]: "status (q\<lparr>q_head := h\<rparr>) = status q"
  by (simp add: status_def fun_eq_iff)

definition only_blocks :: "HybridRangeBlockQueue \<Rightarrow> HybridRangeBlockQueue \<Rightarrow> bool" where
  "only_blocks q q' \<longleftrightarrow> q_next_seq q' = q_next_seq q \<and> q_head q' = q_head q \<and> q_tail q' = q_tail q \<and>
     q_sparse_blocks q' = q_sparse_blocks q \<and> q_retry_blocks q' = q_retry_blocks q \<and> q_stats q' = q_stats q \<and>
     map mb_sparse_ready (q_blocks q') = map mb_sparse_ready (q_blocks q) \<and>
     map mb_redelivered (q_blocks q') = map mb_redelivered (q_blocks q)"

lemma only_blocks_refl [simp]: "only_blocks q q"
  by (simp add: only_blocks_def)

lemma only_blocks_trans: "only_blocks q q1 \<Longrightarrow> only_blocks q1 q2 \<Longrightarrow> only_blocks q q2"
  by (simp add: only_blocks_def)

lemma only_blocks_update [simp]:
  "b < length (q_blocks q) \<Longrightarrow> only_blocks q (q\<lparr>q_blocks := (q_blocks q)[b := (q_blocks q ! b)\<lparr>mb_inflight := f\<rparr>]\<rparr>)"
  by (simp add: only_blocks_def map_update)

lemma block_inv_head:
  "(\<And>j. j < 256 \<Longrightarrow> 256 * b + j < h \<longleftrightarrow> 256 * b + j < h') \<Longrightarrow> block_inv h b blk \<Longrightarrow> block_inv h' b blk"
  unfolding block_inv_def by simp

lemma mark_inflight_block_ok:
  assumes r: "queue_repr (q\<lparr>q_head := s\<rparr>) rs ss" and t: "t = min (256 - s mod 256) n"
    and nx: "s + t \<le> q_next_seq q" and "0 < t"
  shows "ok (mark_inflight_block q (s div 256) (s mod 256) t) (\<lambda>q'.
    queue_repr (q'\<lparr>q_head := s + t\<rparr>) rs ss \<and> only_blocks q q' \<and>
    status q' = (\<lambda>x. if s \<le> x \<and> x < s + t then Some Inflight else status q x))"
proof -
  let ?b = "s div 256" and ?j = "s mod 256"
  let ?blk = "q_blocks q ! ?b" and ?X = "\<lambda>j. ?j \<le> j \<and> j < ?j + t"
  have room: "t \<le> 256 - ?j" "?j + t \<le> 256" using t by auto
  have b: "?b < length (q_blocks q)" using block_index_bound [OF r, of s] nx \<open>0 < t\<close> by simp
  have inv: "block_inv s ?b ?blk" using queue_repr_block [OF r, of ?b] b by simp
  note l = block_invD(1-5) [OF inv]
  have X: "?X j \<longleftrightarrow> s \<le> 256 * ?b + j \<and> 256 * ?b + j < s + t" for j by (rule range_in_block)
  have "ok (set_range (mb_inflight ?blk) ?j t) (\<lambda>f.
      queue_repr (q\<lparr>q_blocks := (q_blocks q)[?b := ?blk\<lparr>mb_inflight := f\<rparr>], q_head := s + t\<rparr>) rs ss \<and>
      status (q\<lparr>q_blocks := (q_blocks q)[?b := ?blk\<lparr>mb_inflight := f\<rparr>]\<rparr>) =
        (\<lambda>x. if s \<le> x \<and> x < s + t then Some Inflight else status q x))"
  proof (rule ok_mono [OF block_range_kernels(1) [OF l(1) room(2)]], elim conjE)
    fix f
    assume lf: "length f = 4" and f: "\<forall>j. wbit f j = (wbit (mb_inflight ?blk) j \<or> ?X j)"
    let ?blk' = "?blk\<lparr>mb_inflight := f\<rparr>"
    have inv': "block_inv (s + t) ?b ?blk'"
      using inv lf f X unfolding block_inv_def by (simp add: not_le [symmetric]) (metis le_eq_less_or_eq linorder_not_le trans_less_add1)
    have other: "block_inv (s + t) b' (q_blocks q ! b')" if "b' < length (q_blocks q)" "b' \<noteq> ?b" for b'
    proof (rule block_inv_head [of _ s])
      show "block_inv s b' (q_blocks q ! b')" using queue_repr_block [OF r, of b'] that by simp
      show "256 * b' + j < s \<longleftrightarrow> 256 * b' + j < s + t" if "j < 256" for j
        using seq_in_block [OF room(1), of "256 * b' + j"] that \<open>b' \<noteq> ?b\<close> by auto
    qed
    have "queue_repr (q\<lparr>q_blocks := (q_blocks q)[?b := ?blk'], q_head := s + t\<rparr>) rs ss"
      using r b inv' other nx
      by (auto simp: queue_repr_def nth_list_update intro!: members_update)
    moreover have "bstat ?blk' j = (if ?X j then Inflight else bstat ?blk j)" if "j < 256" for j
      using block_inv_bits(7) [OF inv that] X [of j] f by (auto simp: bstat_def split: if_splits)
    then have "status (q\<lparr>q_blocks := (q_blocks q)[?b := ?blk']\<rparr>) x =
        (if s \<le> x \<and> x < s + t then Some Inflight else status q x)" for x
      using status_update_block [OF b, of ?blk' x] seq_in_block [OF room(1), of x] nx
      by (auto simp: status_def)
    ultimately show "queue_repr (q\<lparr>q_blocks := (q_blocks q)[?b := ?blk'], q_head := s + t\<rparr>) rs ss \<and>
      status (q\<lparr>q_blocks := (q_blocks q)[?b := ?blk']\<rparr>) =
        (\<lambda>x. if s \<le> x \<and> x < s + t then Some Inflight else status q x)"
      by blast
  qed
  then show ?thesis using b by (simp add: mark_inflight_block_def)
qed

lemma mark_inflight_range_ok:
  assumes r: "queue_repr q rs ss" and n: "0 < n" "q_head q + n \<le> q_next_seq q"
  shows "ok (mark_inflight_range q (q_head q) n) (\<lambda>q'.
    queue_repr (q'\<lparr>q_head := q_head q + n\<rparr>) rs ss \<and> only_blocks q q' \<and>
    status q' = (\<lambda>x. if q_head q \<le> x \<and> x < q_head q + n then Some Inflight else status q x))"
proof -
  let ?h = "q_head q"
  let ?I = "\<lambda>s q'. queue_repr (q'\<lparr>q_head := s\<rparr>) rs ss \<and> only_blocks q q' \<and>
    status q' = (\<lambda>x. if ?h \<le> x \<and> x < s then Some Inflight else status q x)"
  have "ok (block_range_loop mark_inflight_block q ?h (?h + n)) (?I (?h + n))"
  proof (rule block_range_loop_rule)
    fix q1 s tk
    assume I: "?I s q1" and s: "?h \<le> s" "s < ?h + n" and tk: "tk = min (256 - s mod 256) (?h + n - s)"
    have tk0: "0 < tk" "s + tk \<le> ?h + n" using s tk by auto
    have nx: "q_next_seq q1 = q_next_seq q" using I by (simp add: only_blocks_def)
    have split: "?h \<le> x \<and> x < s + tk \<longleftrightarrow> (s \<le> x \<and> x < s + tk) \<or> (?h \<le> x \<and> x < s)" for x
      using tk0 s by linarith
    have r1: "queue_repr (q1\<lparr>q_head := s\<rparr>) rs ss" and q1: "only_blocks q q1"
      and s1: "status q1 = (\<lambda>x. if ?h \<le> x \<and> x < s then Some Inflight else status q x)"
      using I by blast+
    show "ok (mark_inflight_block q1 (s div 256) (s mod 256) tk) (?I (s + tk))"
    proof (rule ok_mono [OF mark_inflight_block_ok [OF r1 tk _ tk0(1)]])
      show "s + tk \<le> q_next_seq q1" using n tk0 nx by simp
      fix q2
      assume q2: "queue_repr (q2\<lparr>q_head := s + tk\<rparr>) rs ss \<and> only_blocks q1 q2 \<and>
        status q2 = (\<lambda>x. if s \<le> x \<and> x < s + tk then Some Inflight else status q1 x)"
      have "only_blocks q q2"
        using q1 q2 only_blocks_trans by blast
      moreover have "status q2 = (\<lambda>x. if ?h \<le> x \<and> x < s + tk then Some Inflight else status q x)"
        using q2 s1 by (simp add: fun_eq_iff split)
      ultimately show "?I (s + tk) q2" using q2 by blast
    qed
  qed (use r in \<open>auto simp: fun_eq_iff\<close>)
  moreover have "?h + n \<le> u64_max" using n repr_seq_bound [OF r] by (simp add: u32_max_def u64_max_def)
  ultimately show ?thesis using n by (simp add: mark_inflight_range_def)
qed

section \<open>Sparse delivery: the words of a block\<close>

lemma sparse_word_step:
  assumes inv: "block_inv h b blk" and w: "w < 4" and m: "\<forall>n. bit m n \<longrightarrow> bit (mb_sparse_ready blk ! w) n"
    and sp: "sp = (mb_sparse_ready blk)[w := mb_sparse_ready blk ! w AND NOT m]"
    and f: "f = (mb_inflight blk)[w := mb_inflight blk ! w OR m]"
    and msk: "msk = (if sp ! w = 0 then mb_sparse_word_mask blk AND NOT (push_bit w 1) else mb_sparse_word_mask blk)"
    and X: "X = (\<lambda>j. j div 64 = w \<and> bit m (j mod 64))"
    and blk': "blk' = blk\<lparr>mb_sparse_ready := sp, mb_inflight := f, mb_sparse_word_mask := msk\<rparr>"
  shows "block_inv h b blk'" "j < 256 \<Longrightarrow> bstat blk' j = (if X j then Inflight else bstat blk j)"
proof -
  note l = block_invD(1-5) [OF inv]
  have bsp: "wbit sp j \<longleftrightarrow> wbit (mb_sparse_ready blk) j \<and> \<not> X j" if "j < 256" for j
    using w l that by (auto simp: sp X wbit_word_update wbit_same bit_simps dest: bit_imp_le_length)
  have bf: "wbit f j \<longleftrightarrow> wbit (mb_inflight blk) j \<or> X j" if "j < 256" for j
    using w l that by (auto simp: f X wbit_word_update wbit_same bit_simps)
  have Xs: "wbit (mb_sparse_ready blk) j" if "j < 256" "X j" for j
    using that m w l by (auto simp: X wbit_def)
  have mw: "bit msk v \<longleftrightarrow> v < 4 \<and> sp ! v \<noteq> 0" for v
    using block_invD(7) [OF inv, of v] block_invD(7) [OF inv, of w] w l
    by (cases "v = w") (auto simp: msk sp bit_simps dest: bit_imp_le_length)
  show "block_inv h b blk'"
    using inv bsp bf Xs mw l unfolding block_inv_def blk' by (simp add: sp f) blast
  show "bstat blk' j = (if X j then Inflight else bstat blk j)" if "j < 256"
    using bsp [OF that] bf [OF that] Xs [OF that] inv that unfolding block_inv_def bstat_def blk' by simp blast
qed

lemma take_append_min:
  "take n (xs @ ys) = take n xs @ take (n - length (take n xs)) ys"
  by (cases "n \<le> length xs") (auto simp: min_def)

text \<open>What a pass over the words \<open>ws\<close> with room for \<open>n\<close> messages does to a block.\<close>

definition words_post :: "nat \<Rightarrow> nat \<Rightarrow> nat list \<Rightarrow> MsgBlock \<Rightarrow> nat \<Rightarrow> MsgBlock \<Rightarrow> DeliveryMask list \<Rightarrow> bool" where
  "words_post h b ws blk n blk' new \<longleftrightarrow>
     block_inv h b blk' \<and>
     (\<forall>j<256. bstat blk' j = (if j \<in> set (take n (block_sparse ws blk)) then Inflight else bstat blk j)) \<and>
     (\<forall>v. v \<notin> set ws \<longrightarrow> mb_sparse_ready blk' ! v = mb_sparse_ready blk ! v) \<and>
     block_sparse ws blk' = drop n (block_sparse ws blk) \<and>
     masks_wf new \<and> masks_seqs new = map (\<lambda>j. 256 * b + j) (take n (block_sparse ws blk)) \<and>
     mb_retry_link blk' = mb_retry_link blk \<and> mb_sparse_link blk' = mb_sparse_link blk \<and>
     mb_retry_word_mask blk' = mb_retry_word_mask blk \<and> mb_redelivered blk' = mb_redelivered blk"

lemma words_post_refl: "block_inv h b blk \<Longrightarrow> ws = [] \<or> n = 0 \<Longrightarrow> words_post h b ws blk n blk []"
  by (auto simp: words_post_def)

lemma words_post_skip:
  assumes "words_post h b ws blk n blk' new" and "mb_sparse_ready blk ! w = 0" and "w \<notin> set ws"
  shows "words_post h b (w # ws) blk n blk' new"
  using assms by (auto simp: words_post_def)

lemma words_post_take:
  assumes inv: "block_inv h b blk" and w: "w < 4" "w \<notin> set ws"
    and m: "bits_of m = take n (bits_of (mb_sparse_ready blk ! w))" "m \<noteq> 0"
    and sp: "sp = (mb_sparse_ready blk)[w := mb_sparse_ready blk ! w AND NOT m]"
    and f: "f = (mb_inflight blk)[w := mb_inflight blk ! w OR m]"
    and msk: "msk = (if sp ! w = 0 then mb_sparse_word_mask blk AND NOT (push_bit w 1) else mb_sparse_word_mask blk)"
    and blk1: "blk1 = blk\<lparr>mb_sparse_ready := sp, mb_inflight := f, mb_sparse_word_mask := msk\<rparr>"
  shows "block_inv h b blk1"
    and "words_post h b ws blk1 (n - count_ones m) blk' new \<Longrightarrow>
      words_post h b (w # ws) blk n blk' (DeliveryMask_new b w m # new)"
    and "take n (block_sparse (w # ws) blk) = map (\<lambda>i. 64 * w + i) (bits_of m) @ take (n - count_ones m) (block_sparse ws blk1)"
proof -
  let ?av = "mb_sparse_ready blk ! w"
  note l = block_invD(1-5) [OF inv]
  have bm: "bit m k \<longleftrightarrow> k \<in> set (take n (bits_of ?av))" for k
    using m(1) by (metis mem_Collect_eq set_bits_of)
  have sub: "\<forall>k. bit m k \<longrightarrow> bit ?av k"
    using bm in_set_takeD by (metis mem_Collect_eq set_bits_of)
  note st = sparse_word_step [OF inv w(1) sub sp f msk refl blk1]
  show "block_inv h b blk1" by (rule st(1))
  let ?T = "map (\<lambda>i. 64 * w + i) (bits_of m)"
  have XT: "(j div 64 = w \<and> bit m (j mod 64)) \<longleftrightarrow> j \<in> set ?T" for j
  proof
    assume j: "j div 64 = w \<and> bit m (j mod 64)"
    have "j = 64 * (j div 64) + j mod 64" by simp
    then show "j \<in> set ?T" using j by auto
  next
    assume "j \<in> set ?T"
    then obtain k where k: "bit m k" "j = 64 * w + k" by auto
    then have "k < 64" using bit_imp_le_length [OF k(1)] by simp
    then show "j div 64 = w \<and> bit m (j mod 64)" using k by simp
  qed
  have bav: "bits_of (?av AND NOT m) = drop n (bits_of ?av)"
  proof (rule bits_of_unique)
    show "sorted_wrt (<) (drop n (bits_of ?av))" by (simp add: sorted_wrt_drop)
    have dj: "set (take n (bits_of ?av)) \<inter> set (drop n (bits_of ?av)) = {}"
      by (simp add: set_take_disj_set_drop_if_distinct)
    have un: "bit ?av k \<longleftrightarrow> k \<in> set (take n (bits_of ?av)) \<or> k \<in> set (drop n (bits_of ?av))" for k
      by (metis Un_iff append_take_drop_id mem_Collect_eq set_append set_bits_of)
    show "bit (?av AND NOT m) k \<longleftrightarrow> k \<in> set (drop n (bits_of ?av))" for k
      using dj un [of k] bm [of k] by (auto simp: bit_and_iff bit_not_iff possible_bit_def dest: bit_imp_le_length)
  qed
  have ws1: "block_sparse ws blk1 = block_sparse ws blk"
    using w(2) by (induction ws) (auto simp: blk1 sp)
  have cm: "count_ones m = length (take n (bits_of ?av))" by (simp add: count_ones_def m(1))
  show tk: "take n (block_sparse (w # ws) blk) = ?T @ take (n - count_ones m) (block_sparse ws blk1)"
    unfolding ws1 cm m(1) block_sparse_Cons take_append_min by (simp add: take_map)
  have dr: "drop n (block_sparse (w # ws) blk) = map (\<lambda>i. 64 * w + i) (bits_of (?av AND NOT m)) @
      drop (n - count_ones m) (block_sparse ws blk)"
    unfolding bav by (simp add: cm drop_map min_def)
  have ml: "mask_list b w m = map (\<lambda>j. 256 * b + j) ?T"
    by (simp add: mask_list_def add.assoc)
  assume p: "words_post h b ws blk1 (n - count_ones m) blk' new"
  have "mb_sparse_ready blk' ! w = ?av AND NOT m"
    using p w l by (simp add: words_post_def blk1 sp)
  moreover have "mb_sparse_ready blk' ! v = mb_sparse_ready blk ! v" if "v \<notin> set (w # ws)" for v
    using p that by (simp add: words_post_def blk1 sp)
  moreover have "bstat blk' j = (if j \<in> set (take n (block_sparse (w # ws) blk)) then Inflight else bstat blk j)"
    if "j < 256" for j
    using p that st(2) [OF that] XT [of j] unfolding tk words_post_def by auto
  moreover have "masks_seqs (DeliveryMask_new b w m # new) = map (\<lambda>j. 256 * b + j) (take n (block_sparse (w # ws) blk))"
    using p ml unfolding tk words_post_def masks_seqs_def by (simp add: DeliveryMask_new_def)
  ultimately show "words_post h b (w # ws) blk n blk' (DeliveryMask_new b w m # new)"
    using p w(1) m(2) unfolding words_post_def dr
    by (simp add: ws1 masks_wf_def DeliveryMask_new_def) (simp add: blk1)
qed

lemma sparse_words_ok:
  assumes i: "as_usize i = b"
  shows "block_inv h b blk \<Longrightarrow> set ws \<subseteq> {..<4} \<Longrightarrow> distinct ws \<Longrightarrow> delivered + remaining \<le> u32_max \<Longrightarrow>
   ok (sparse_words i ws blk remaining delivered masks) (\<lambda>(blk', remaining', delivered', masks'). \<exists>new.
     words_post h b ws blk remaining blk' new \<and> masks' = masks @ new \<and>
     remaining' = remaining - length (take remaining (block_sparse ws blk)) \<and>
     delivered' = delivered + length (take remaining (block_sparse ws blk)))"
proof (induction ws arbitrary: blk remaining delivered masks)
  case Nil
  then show ?case by (auto simp: words_post_refl)
next
  case (Cons w ws)
  note inv = Cons.prems(1)
  note l = block_invD(1-5) [OF inv]
  have w: "w < 4" "w \<notin> set ws" and ws: "set ws \<subseteq> {..<4}" "distinct ws" using Cons.prems by auto
  have mb: "mb_sparse_word_mask blk AND push_bit w 1 = 0 \<longleftrightarrow> mb_sparse_ready blk ! w = 0"
    using block_invD(7) [OF inv, of w] w by (simp add: and_exp_eq_0_iff_not_bit)
  consider "remaining = 0" | "remaining \<noteq> 0" "mb_sparse_ready blk ! w = 0"
    | "remaining \<noteq> 0" "mb_sparse_ready blk ! w \<noteq> 0" by blast
  then show ?case
  proof cases
    case 1
    then show ?thesis using words_post_refl [OF inv, of "w # ws" 0] by auto
  next
    case 2
    have "ok (sparse_words i ws blk remaining delivered masks) (\<lambda>(blk', remaining', delivered', masks'). \<exists>new.
      words_post h b (w # ws) blk remaining blk' new \<and> masks' = masks @ new \<and>
      remaining' = remaining - length (take remaining (block_sparse (w # ws) blk)) \<and>
      delivered' = delivered + length (take remaining (block_sparse (w # ws) blk)))"
      by (rule ok_mono [OF Cons.IH [OF inv ws Cons.prems(4)]])
        (use words_post_skip [OF _ 2(2) w(2)] 2(2) in auto)
    then show ?thesis using 2 mb w by simp
  next
    case 3
    let ?av = "mb_sparse_ready blk ! w"
    obtain m where m: "take_lowest_bits_local ?av remaining = Some m" "bits_of m = take remaining (bits_of ?av)"
      using take_lowest_bits_local_ok [of ?av remaining] by (elim okE)
    have m0: "m \<noteq> 0" using m(2) 3 bits_of_eq_Nil [of m] bits_of_eq_Nil [of ?av] by auto
    define sp where "sp = (mb_sparse_ready blk)[w := ?av AND NOT m]"
    define f where "f = (mb_inflight blk)[w := mb_inflight blk ! w OR m]"
    define msk where "msk = (if sp ! w = 0 then mb_sparse_word_mask blk AND NOT (push_bit w 1)
      else mb_sparse_word_mask blk)"
    define blk1 where "blk1 = blk\<lparr>mb_sparse_ready := sp, mb_inflight := f, mb_sparse_word_mask := msk\<rparr>"
    note st = words_post_take [OF inv w m(2) m0 sp_def f_def msk_def blk1_def]
    have c: "count_ones m \<le> remaining" by (simp add: count_ones_def m(2))
    have len: "length (take remaining (block_sparse (w # ws) blk)) =
        count_ones m + length (take (remaining - count_ones m) (block_sparse ws blk1))"
      unfolding st(3) by (simp add: count_ones_def)
    have "ok (sparse_words i ws blk1 (remaining - count_ones m) (delivered + count_ones m)
        (masks @ [DeliveryMask_new b w m])) (\<lambda>(blk', remaining', delivered', masks'). \<exists>new.
      words_post h b (w # ws) blk remaining blk' new \<and> masks' = masks @ new \<and>
      remaining' = remaining - length (take remaining (block_sparse (w # ws) blk)) \<and>
      delivered' = delivered + length (take remaining (block_sparse (w # ws) blk)))"
      by (rule ok_mono [OF Cons.IH [OF st(1) ws]])
        (use Cons.prems(4) c st(2) in \<open>auto simp: len simp del: length_take block_sparse_Cons\<close>)
    moreover have "sparse_words i (w # ws) blk remaining delivered masks =
        sparse_words i ws blk1 (remaining - count_ones m) (delivered + count_ones m) (masks @ [DeliveryMask_new b w m])"
    proof -
      have u: "upd (mb_sparse_ready blk) w (\<lambda>x. x AND NOT m) = Some sp"
        "upd (mb_inflight blk) w (\<lambda>x. x OR m) = Some f" "idx (mb_sparse_ready blk) w = Some ?av"
        "idx sp w = Some (sp ! w)" "shl_u8 w = Some (push_bit w 1)" "unat (index_get i) = b"
        using w l i by (simp_all add: upd_def idx_def sp_def f_def shl_u8_def as_usize_def)
      have a: "sub_uint remaining (count_ones m) = Some (remaining - count_ones m)"
        "add_u32 delivered (count_ones m) = Some (delivered + count_ones m)"
        using c Cons.prems(4) by (simp_all add: sub_uint_def add_u32_def)
      show ?thesis
        unfolding sparse_words.simps u bind.bind_lunit m(1) Let_def a
        using 3 mb by (simp add: u a blk1_def msk_def)
    qed
    ultimately show ?thesis by simp
  qed
qed

section \<open>Sparse delivery: the blocks of the list\<close>

lemma repr_sparseI:
  assumes r: "queue_repr q rs ss" and len: "length bs = length (q_blocks q)"
    and inv: "\<And>b. b < length bs \<Longrightarrow> block_inv (q_head q) b (bs ! b)"
    and rl: "map mb_retry_link bs = map mb_retry_link (q_blocks q)"
    and rm: "map mb_retry_word_mask bs = map mb_retry_word_mask (q_blocks q)"
    and lr: "list_repr (map mb_sparse_link bs) SPARSE_TAG l ss'"
    and mem: "\<And>i. as_usize i < length bs \<Longrightarrow> i \<in> set ss' \<longleftrightarrow> mb_sparse_word_mask (bs ! as_usize i) \<noteq> 0"
    and un: "\<And>i. as_usize i < length bs \<Longrightarrow> i \<notin> set ss' \<Longrightarrow> \<not> state_is_linked (link_state (mb_sparse_link (bs ! as_usize i)))"
  shows "queue_repr (q\<lparr>q_sparse_blocks := l, q_blocks := bs\<rparr>) rs ss'"
proof -
  have "members (map mb_sparse_link bs) SPARSE_TAG l (map mb_sparse_word_mask bs) ss'"
    by (rule membersI [OF lr]) (use mem un in simp_all)
  then show ?thesis using r len inv by (simp add: queue_repr_def rl rm)
qed

lemma sparse_order_Cons:
  "sparse_order bs (i # ss) = map (\<lambda>j. 256 * as_usize i + j) (block_sparse [0..<4] (bs ! as_usize i)) @ sparse_order bs ss"
  by (simp add: sparse_order_def)

lemma sparse_order_Nil [simp]: "sparse_order bs [] = []"
  by (simp add: sparse_order_def)

lemma sparse_order_cong:
  "(\<And>i. i \<in> set ss \<Longrightarrow> mb_sparse_ready (bs' ! as_usize i) = mb_sparse_ready (bs ! as_usize i)) \<Longrightarrow>
   sparse_order bs' ss = sparse_order bs ss"
  unfolding sparse_order_def block_sparse_def by (simp cong: map_cong)

lemma block_sparse_mask:
  "block_inv h b blk \<Longrightarrow> mb_sparse_word_mask blk = 0 \<longleftrightarrow> block_sparse [0..<4] blk = []"
proof -
  assume inv: "block_inv h b blk"
  have "mb_sparse_word_mask blk = 0 \<longleftrightarrow> (\<forall>w. \<not> bit (mb_sparse_word_mask blk) w)"
    by (metis bit_0_eq bit_eqI bot_apply bot_bool_def)
  also have "\<dots> \<longleftrightarrow> (\<forall>w<4. mb_sparse_ready blk ! w = 0)"
    using block_invD(7) [OF inv] by auto
  also have "\<dots> \<longleftrightarrow> block_sparse [0..<4] blk = []"
    by (auto simp: block_sparse_def)
  finally show ?thesis .
qed

text \<open>
  The block \<open>i\<close> at the head of the list: popped, its words delivered from, and pushed back to
  the front when messages are left.
\<close>

definition head_step ::
  "HybridRangeBlockQueue \<Rightarrow> Index \<Rightarrow> nat \<Rightarrow> nat \<Rightarrow> DeliveryMask list
   \<Rightarrow> (nat \<times> nat \<times> DeliveryMask list \<times> HybridRangeBlockQueue) option" where
  "head_step q i remaining delivered masks = do {
     blk \<leftarrow> idx (q_blocks q) (as_usize i);
     (blk, remaining, delivered, masks) \<leftarrow>
       sparse_words i [0..<WORDS_PER_BLOCK] blk remaining delivered masks;
     let q = q\<lparr>q_blocks := (q_blocks q)[as_usize i := blk]\<rparr>;
     q \<leftarrow> (if mb_sparse_word_mask blk \<noteq> 0
          then do {
            (l, bs) \<leftarrow> push_front sparse_slot SPARSE_TAG (q_sparse_blocks q) (q_blocks q) i;
            Some (q\<lparr>q_sparse_blocks := l, q_blocks := bs\<rparr>)
          } else Some q);
     Some (remaining, delivered, masks, q)
   }"

lemma deliver_sparse_loop_head:
  assumes "remaining \<noteq> 0" and p: "pop_front sparse_slot SPARSE_TAG (q_sparse_blocks q) (q_blocks q) = Some (Some i, l, bs)"
  shows "deliver_sparse_loop q remaining delivered masks = do {
    (remaining, delivered, masks, q) \<leftarrow> head_step (q\<lparr>q_sparse_blocks := l, q_blocks := bs\<rparr>) i remaining delivered masks;
    deliver_sparse_loop q remaining delivered masks }"
  using assms by (subst deliver_sparse_loop.simps)
    (auto simp: p head_step_def Let_def intro!: Option.bind_cong split: prod.splits if_splits)

text \<open>What delivering the messages \<open>T\<close> from the front of the sparse order leaves.\<close>

definition sparse_post ::
  "HybridRangeBlockQueue \<Rightarrow> Index list \<Rightarrow> Index list \<Rightarrow> nat list \<Rightarrow> HybridRangeBlockQueue \<Rightarrow> Index list \<Rightarrow> bool" where
  "sparse_post q rs ss T q' ss' \<longleftrightarrow>
     queue_repr q' rs ss' \<and> same_seqs q q' \<and> q_stats q' = q_stats q \<and>
     map mb_redelivered (q_blocks q') = map mb_redelivered (q_blocks q) \<and>
     status q' = (\<lambda>s. if s \<in> set T then Some Inflight else status q s) \<and>
     T @ sparse_order (q_blocks q') ss' = sparse_order (q_blocks q) ss"

lemma block_words_eq: "[0..<WORDS_PER_BLOCK] = [0..<4]"
  by (simp add: WORDS_PER_BLOCK_def MSGS_PER_BLOCK_def)

text \<open>The queue after \<open>pop_front\<close> took the block \<open>i\<close> from the sparse list \<open>i # ss\<close>.\<close>

definition popped :: "HybridRangeBlockQueue \<Rightarrow> Index \<Rightarrow> Index list \<Rightarrow> IndexList \<Rightarrow> MsgBlock list \<Rightarrow> bool" where
  "popped q i ss l bs \<longleftrightarrow>
     list_repr (map mb_sparse_link bs) SPARSE_TAG l ss \<and> i \<notin> set ss \<and>
     as_usize i < length (q_blocks q) \<and> length bs = length (q_blocks q) \<and>
     map sparse_payload bs = map sparse_payload (q_blocks q) \<and>
     (\<forall>j. as_usize j < length bs \<longrightarrow> j \<noteq> i \<longrightarrow> (j \<in> set ss \<longleftrightarrow> mb_sparse_word_mask (bs ! as_usize j) \<noteq> 0)) \<and>
     (\<forall>j. as_usize j < length bs \<longrightarrow> j \<notin> set ss \<longrightarrow>
        \<not> state_is_linked (link_state (mb_sparse_link (bs ! as_usize j))))"

lemma payload_fields:
  assumes "map sparse_payload bs = map sparse_payload bs'" and "n < length bs'"
  shows "block_inv h b (bs ! n) = block_inv h b (bs' ! n)" "mb_sparse_word_mask (bs ! n) = mb_sparse_word_mask (bs' ! n)"
    "mb_sparse_ready (bs ! n) = mb_sparse_ready (bs' ! n)" "mb_retry_link (bs ! n) = mb_retry_link (bs' ! n)"
    "mb_retry_word_mask (bs ! n) = mb_retry_word_mask (bs' ! n)" "mb_redelivered (bs ! n) = mb_redelivered (bs' ! n)"
    "bstat (bs ! n) = bstat (bs' ! n)"
  using payload_nth [OF assms] sparse_payload_frame by metis+

lemma pop_sparse:
  assumes r: "queue_repr q rs (i # ss)"
  shows "ok (pop_front sparse_slot SPARSE_TAG (q_sparse_blocks q) (q_blocks q)) (\<lambda>(x, l, bs).
    x = Some i \<and> popped q i ss l bs)"
proof -
  let ?bs = "q_blocks q"
  have ms: "members (map mb_sparse_link ?bs) SPARSE_TAG (q_sparse_blocks q) (map mb_sparse_word_mask ?bs) (i # ss)"
    using r by (simp add: queue_repr_def)
  then have lr0: "list_repr (map mb_sparse_link ?bs) SPARSE_TAG (q_sparse_blocks q) (i # ss)" by (simp add: members_def)
  have b: "as_usize i < length ?bs" using list_repr_bounds [OF lr0, of i] by simp
  have ni: "i \<notin> set ss" using lr0 by (auto simp: list_repr_def)
  have "popped q i ss l bs" if lr: "list_repr (map mb_sparse_link bs) SPARSE_TAG l ss"
    and li: "map mb_sparse_link bs ! as_usize i = link_new"
    and k: "kept sparse_slot sparse_payload (set (i # ss)) ?bs bs" for l bs
  proof -
    have len: "length bs = length ?bs" using kept_length [OF k] .
    have pl: "map sparse_payload bs = map sparse_payload ?bs" using k by (simp add: kept_def)
    have "\<not> state_is_linked (link_state (mb_sparse_link (bs ! as_usize j)))"
      if "as_usize j < length ?bs" "j \<notin> set ss" for j
    proof (cases "j = i")
      case True
      then show ?thesis using li b len by simp
    next
      case False
      then have "mb_sparse_link (bs ! as_usize j) = mb_sparse_link (?bs ! as_usize j)"
        using k that len by (auto simp: kept_def)
      then show ?thesis using ms that False by (simp add: members_def)
    qed
    then show ?thesis
      using ms lr ni b len pl payload_fields(2) [OF pl] by (auto simp: popped_def members_def)
  qed
  then show ?thesis
    using sl.pop_front_ok [of ?bs SPARSE_TAG "q_sparse_blocks q" "i # ss"] lr0 by (auto elim!: ok_mono)
qed

lemma popped_status:
  assumes r: "queue_repr q rs ss0" and p: "popped q i ss l bs"
  shows "status (q\<lparr>q_sparse_blocks := l, q_blocks := bs\<rparr>) = status q"
  by (rule status_relink [of sparse_payload bs]) (use p block_index_bound [OF r] in \<open>auto simp: popped_def sparse_payload_frame\<close>)

lemma block_sparse_less: "block_inv h b blk \<Longrightarrow> j \<in> set (block_sparse [0..<4] blk) \<Longrightarrow> j < 256 \<and> 256 * b + j < h"
proof -
  assume inv: "block_inv h b blk" and j: "j \<in> set (block_sparse [0..<4] blk)"
  have "j div 64 < 4 \<and> wbit (mb_sparse_ready blk) j"
    using j set_block_sparse [OF block_invD(4) [OF inv], of "[0..<4]"] by (simp add: atLeast0LessThan)
  moreover then have "j < 256" by linarith
  ultimately show ?thesis using block_inv_bits(1) [OF inv] by blast
qed

text \<open>The words of the popped block were delivered from.\<close>

lemma words_status:
  assumes r: "queue_repr q rs ss0" and p: "popped q i ss l bs"
    and w: "words_post (q_head q) (as_usize i) [0..<4] (bs ! as_usize i) n blk' new"
  shows "status (q\<lparr>q_sparse_blocks := l, q_blocks := bs[as_usize i := blk']\<rparr>) =
    (\<lambda>s. if s \<in> set (masks_seqs new) then Some Inflight else status q s)"
proof
  fix s
  let ?b = "as_usize i" and ?q = "q\<lparr>q_sparse_blocks := l, q_blocks := bs\<rparr>"
  let ?K = "take n (block_sparse [0..<4] (bs ! ?b))"
  have b: "?b < length bs" using p by (simp add: popped_def)
  have pl: "map sparse_payload bs = map sparse_payload (q_blocks q)" using p by (simp add: popped_def)
  have inv: "block_inv (q_head q) ?b (bs ! ?b)"
    using payload_fields(1) [OF pl] queue_repr_block [OF r] p by (simp add: popped_def)
  have K: "j < 256 \<and> 256 * ?b + j < q_head q" if "j \<in> set ?K" for j
    using block_sparse_less [OF inv] in_set_takeD [OF that] by blast
  have new: "masks_seqs new = map (\<lambda>j. 256 * ?b + j) ?K" using w by (simp add: words_post_def)
  have h: "q_head q \<le> q_next_seq q" using r by (simp add: queue_repr_def)
  have T: "s \<in> set (masks_seqs new) \<longleftrightarrow> s div 256 = ?b \<and> s mod 256 \<in> set ?K"
  proof
    assume "s \<in> set (masks_seqs new)"
    then obtain j where "j \<in> set ?K" "s = 256 * ?b + j" unfolding new by auto
    with K show "s div 256 = ?b \<and> s mod 256 \<in> set ?K" by auto
  next
    assume "s div 256 = ?b \<and> s mod 256 \<in> set ?K"
    then show "s \<in> set (masks_seqs new)" unfolding new by (metis image_eqI list.set_map mult_div_mod_eq)
  qed
  have lt: "s < q_next_seq q" if "s \<in> set (masks_seqs new)"
    using that K h unfolding new by fastforce
  have "status (q\<lparr>q_sparse_blocks := l, q_blocks := bs[?b := blk']\<rparr>) s =
      (if s div 256 = ?b \<and> s < q_next_seq q then Some (bstat blk' (s mod 256)) else status ?q s)"
    using status_update_block [of ?b ?q blk' s] b by simp
  moreover have "bstat blk' (s mod 256) = (if s mod 256 \<in> set ?K then Inflight else bstat (bs ! ?b) (s mod 256))"
    using w by (simp add: words_post_def)
  moreover have "status ?q s = Some (bstat (bs ! ?b) (s mod 256))" if "s div 256 = ?b" "s < q_next_seq q"
    using that by (simp add: status_def)
  ultimately show "status (q\<lparr>q_sparse_blocks := l, q_blocks := bs[?b := blk']\<rparr>) s =
      (if s \<in> set (masks_seqs new) then Some Inflight else status q s)"
    using T lt popped_status [OF r p] by auto
qed

lemma words_frame:
  assumes p: "popped q i ss l bs" and r: "queue_repr q rs ss0"
    and w: "words_post (q_head q) (as_usize i) [0..<4] (bs ! as_usize i) n blk' new"
    and bs2: "bs2 = bs[as_usize i := blk']"
  shows "length bs2 = length (q_blocks q)" "b < length bs2 \<Longrightarrow> block_inv (q_head q) b (bs2 ! b)"
    "map mb_retry_link bs2 = map mb_retry_link (q_blocks q)"
    "map mb_retry_word_mask bs2 = map mb_retry_word_mask (q_blocks q)"
    "map mb_redelivered bs2 = map mb_redelivered (q_blocks q)"
    "map mb_sparse_link bs2 = map mb_sparse_link bs"
proof -
  have pl: "map sparse_payload bs = map sparse_payload (q_blocks q)" and len: "length bs = length (q_blocks q)"
    and b: "as_usize i < length bs" using p by (simp_all add: popped_def)
  have eq: "map f bs2 = map f (q_blocks q)" if "f blk' = f (bs ! as_usize i)" "\<And>x. f (sparse_payload x) = f x"
    for f :: "MsgBlock \<Rightarrow> 'z"
  proof -
    have "map f bs2 = map f bs" using b that(1) by (simp add: bs2 map_update)
    also have "\<dots> = map f (q_blocks q)" by (rule map_frame [OF pl]) (rule that(2))
    finally show ?thesis .
  qed
  show "length bs2 = length (q_blocks q)" using len by (simp add: bs2)
  show "block_inv (q_head q) b (bs2 ! b)" if "b < length bs2"
    using w that payload_fields(1) [OF pl, of b] queue_repr_block [OF r, of b] len
    by (cases "b = as_usize i") (simp_all add: bs2 words_post_def)
  show "map mb_retry_link bs2 = map mb_retry_link (q_blocks q)"
    "map mb_retry_word_mask bs2 = map mb_retry_word_mask (q_blocks q)"
    "map mb_redelivered bs2 = map mb_redelivered (q_blocks q)"
    using w by (auto intro!: eq simp: words_post_def sparse_payload_frame)
  show "map mb_sparse_link bs2 = map mb_sparse_link bs"
    using w b by (simp add: bs2 map_update words_post_def)
qed

lemma words_order:
  assumes p: "popped q i ss l bs" and w: "words_post h (as_usize i) [0..<4] (bs ! as_usize i) n blk' new"
    and bs2: "\<And>j. j \<in> set (i # ss) \<Longrightarrow> mb_sparse_ready (bs2 ! as_usize j) = mb_sparse_ready (bs[as_usize i := blk'] ! as_usize j)"
  shows "masks_seqs new @ sparse_order bs2 (i # ss) = sparse_order (q_blocks q) (i # ss)"
proof -
  have pl: "map sparse_payload bs = map sparse_payload (q_blocks q)" and ni: "i \<notin> set ss"
    and b: "as_usize i < length (q_blocks q)" "length bs = length (q_blocks q)"
    using p by (simp_all add: popped_def)
  have bnd: "as_usize j < length bs" if "j \<in> set ss" for j
    using p list_repr_bounds that by (fastforce simp: popped_def)
  have "sparse_order bs2 (i # ss) = sparse_order (bs[as_usize i := blk']) (i # ss)"
    by (rule sparse_order_cong) (rule bs2)
  also have "\<dots> = map (\<lambda>j. 256 * as_usize i + j) (block_sparse [0..<4] blk') @ sparse_order (q_blocks q) ss"
  proof -
    have "sparse_order (bs[as_usize i := blk']) ss = sparse_order (q_blocks q) ss"
    proof (rule sparse_order_cong)
      fix j assume "j \<in> set ss"
      then have "j \<noteq> i" "as_usize j < length (q_blocks q)" using ni bnd b by auto
      then show "mb_sparse_ready (bs[as_usize i := blk'] ! as_usize j) = mb_sparse_ready (q_blocks q ! as_usize j)"
        using payload_fields(3) [OF pl] by simp
    qed
    then show ?thesis using b by (simp add: sparse_order_Cons)
  qed
  finally show ?thesis
    using w payload_fields(3) [OF pl b(1)]
    by (simp add: words_post_def sparse_order_Cons block_sparse_def flip: map_append)
qed

lemma words_done:
  assumes r: "queue_repr q rs (i # ss)" and p: "popped q i ss l bs"
    and w: "words_post (q_head q) (as_usize i) [0..<4] (bs ! as_usize i) n blk' new"
    and m: "mb_sparse_word_mask blk' = 0"
  shows "sparse_post q rs (i # ss) (masks_seqs new) (q\<lparr>q_sparse_blocks := l, q_blocks := bs[as_usize i := blk']\<rparr>) ss"
proof -
  let ?bs = "bs[as_usize i := blk']"
  note fr = words_frame [OF p r w refl]
  have b: "as_usize i < length bs" using p by (simp add: popped_def)
  have "block_sparse [0..<4] blk' = []"
    using block_sparse_mask m w by (auto simp: words_post_def)
  then have "masks_seqs new @ sparse_order ?bs ss = sparse_order (q_blocks q) (i # ss)"
    using words_order [OF p w refl] b by (simp add: sparse_order_Cons)
  moreover have "queue_repr (q\<lparr>q_sparse_blocks := l, q_blocks := ?bs\<rparr>) rs ss"
  proof (rule repr_sparseI [OF r fr(1,2,3,4)])
    show "list_repr (map mb_sparse_link ?bs) SPARSE_TAG l ss" unfolding fr(6) using p by (simp add: popped_def)
    show "j \<in> set ss \<longleftrightarrow> mb_sparse_word_mask (?bs ! as_usize j) \<noteq> 0" if "as_usize j < length ?bs" for j
      using p that m by (cases "j = i") (auto simp: popped_def)
    show "\<not> state_is_linked (link_state (mb_sparse_link (?bs ! as_usize j)))"
      if "as_usize j < length ?bs" "j \<notin> set ss" for j
    proof -
      have "mb_sparse_link (?bs ! as_usize j) = mb_sparse_link (bs ! as_usize j)"
        using fr(6) that by (metis length_list_update nth_map)
      then show ?thesis using p that by (simp add: popped_def)
    qed
  qed
  ultimately show ?thesis
    using fr(5) words_status [OF r p w] by (simp add: sparse_post_def same_seqs_def)
qed

lemma words_left:
  assumes r: "queue_repr q rs (i # ss)" and p: "popped q i ss l bs"
    and w: "words_post (q_head q) (as_usize i) [0..<4] (bs ! as_usize i) n blk' new"
    and m: "mb_sparse_word_mask blk' \<noteq> 0"
  shows "ok (push_front sparse_slot SPARSE_TAG l (bs[as_usize i := blk']) i) (\<lambda>(l3, bs3).
    sparse_post q rs (i # ss) (masks_seqs new) (q\<lparr>q_sparse_blocks := l3, q_blocks := bs3\<rparr>) (i # ss))"
proof -
  let ?bs = "bs[as_usize i := blk']"
  note fr = words_frame [OF p r w refl]
  have lr: "list_repr (map mb_sparse_link ?bs) SPARSE_TAG l ss" unfolding fr(6) using p by (simp add: popped_def)
  have b: "as_usize i < length ?bs" using p by (simp add: popped_def)
  have lk: "mb_sparse_link (?bs ! as_usize j) = mb_sparse_link (bs ! as_usize j)" if "as_usize j < length bs" for j
    using fr(6) that by (metis length_list_update nth_map)
  have un: "\<not> state_is_linked (link_state (mb_sparse_link (?bs ! as_usize j)))"
    if "as_usize j < length ?bs" "j \<notin> set ss" for j
    using that lk [of j] p by (simp add: popped_def)
  have "length (i # ss) \<le> length (q_blocks q)"
    using r list_repr_length unfolding queue_repr_def members_def by (metis length_map)
  then have n: "length ss < u32_max" using r by (simp add: queue_repr_def)
  have "ok (push_front sparse_slot SPARSE_TAG l ?bs i) (\<lambda>(l', bs').
      list_repr (map mb_sparse_link bs') SPARSE_TAG l' (i # ss) \<and>
      kept sparse_slot sparse_payload (insert i (set ss)) ?bs bs')"
    using sl.push_front_ok [of ?bs SPARSE_TAG l ss i] lr b un [OF b] p n by (simp add: popped_def)
  then show ?thesis
  proof (rule ok_mono, clarify)
    fix l3 bs3
    assume lr3: "list_repr (map mb_sparse_link bs3) SPARSE_TAG l3 (i # ss)"
      and k: "kept sparse_slot sparse_payload (insert i (set ss)) ?bs bs3"
    have pl: "map sparse_payload bs3 = map sparse_payload ?bs" using k by (simp add: kept_def)
    have len: "length bs3 = length ?bs" using kept_length [OF k] .
    have f3: "map mb_retry_link bs3 = map mb_retry_link ?bs" "map mb_retry_word_mask bs3 = map mb_retry_word_mask ?bs"
      "map mb_redelivered bs3 = map mb_redelivered ?bs"
      by (rule map_frame [OF pl], simp add: sparse_payload_frame)+
    have "queue_repr (q\<lparr>q_sparse_blocks := l3, q_blocks := bs3\<rparr>) rs (i # ss)"
    proof (rule repr_sparseI [OF r _ _ f3(1) [unfolded fr(3)] f3(2) [unfolded fr(4)] lr3])
      show "length bs3 = length (q_blocks q)" using len fr(1) by simp
      show "block_inv (q_head q) b' (bs3 ! b')" if "b' < length bs3" for b'
        using payload_fields(1) [OF pl, of b'] fr(2) [of b'] that len by simp
      show "j \<in> set (i # ss) \<longleftrightarrow> mb_sparse_word_mask (bs3 ! as_usize j) \<noteq> 0" if "as_usize j < length bs3" for j
        using payload_fields(2) [OF pl, of "as_usize j"] that len p m by (cases "j = i") (auto simp: popped_def)
      show "\<not> state_is_linked (link_state (mb_sparse_link (bs3 ! as_usize j)))"
        if "as_usize j < length bs3" "j \<notin> set (i # ss)" for j
        using k un [of j] that len by (auto simp: kept_def)
    qed
    moreover have "status (q\<lparr>q_sparse_blocks := l3, q_blocks := bs3\<rparr>) =
        status (q\<lparr>q_sparse_blocks := l, q_blocks := ?bs\<rparr>)"
      by (rule status_relink [OF _ sparse_payload_frame(2), of bs3])
        (use pl len fr(1) block_index_bound [OF r] in \<open>auto simp: map_update\<close>)
    moreover have "masks_seqs new @ sparse_order bs3 (i # ss) = sparse_order (q_blocks q) (i # ss)"
    proof (rule words_order [OF p w])
      fix j assume "j \<in> set (i # ss)"
      then have "as_usize j < length ?bs" using list_repr_bounds [OF lr3, of j] len by simp
      then show "mb_sparse_ready (bs3 ! as_usize j) = mb_sparse_ready (?bs ! as_usize j)"
        using payload_fields(3) [OF pl] by simp
    qed
    ultimately show "sparse_post q rs (i # ss) (masks_seqs new) (q\<lparr>q_sparse_blocks := l3, q_blocks := bs3\<rparr>) (i # ss)"
      using f3(3) fr(5) words_status [OF r p w] by (simp add: sparse_post_def same_seqs_def)
  qed
qed

lemma head_step_ok:
  assumes r: "queue_repr q rs (i # ss)" and p: "popped q i ss l bs" and d: "delivered + remaining \<le> u32_max"
  shows "ok (head_step (q\<lparr>q_sparse_blocks := l, q_blocks := bs\<rparr>) i remaining delivered masks)
    (\<lambda>(remaining', delivered', masks', q'). \<exists>new ss'.
      masks_seqs new = take remaining (map (\<lambda>j. 256 * as_usize i + j) (block_sparse [0..<4] (bs ! as_usize i))) \<and>
      sparse_post q rs (i # ss) (masks_seqs new) q' ss' \<and> masks' = masks @ new \<and> masks_wf new \<and>
      remaining' = remaining - length (masks_seqs new) \<and> delivered' = delivered + length (masks_seqs new) \<and>
      (remaining' = 0 \<or> ss' = ss))"
proof -
  let ?b = "as_usize i" and ?q = "q\<lparr>q_sparse_blocks := l, q_blocks := bs\<rparr>"
  have pl: "map sparse_payload bs = map sparse_payload (q_blocks q)" and len: "length bs = length (q_blocks q)"
    and b: "?b < length bs" using p by (simp_all add: popped_def)
  have inv: "block_inv (q_head q) ?b (bs ! ?b)"
    using payload_fields(1) [OF pl] queue_repr_block [OF r] b len by simp
  have "ok (sparse_words i [0..<4] (bs ! ?b) remaining delivered masks) (\<lambda>(blk', remaining', delivered', masks'). \<exists>new.
     words_post (q_head q) ?b [0..<4] (bs ! ?b) remaining blk' new \<and> masks' = masks @ new \<and>
     remaining' = remaining - length (take remaining (block_sparse [0..<4] (bs ! ?b))) \<and>
     delivered' = delivered + length (take remaining (block_sparse [0..<4] (bs ! ?b))))"
    by (rule sparse_words_ok [OF refl inv _ _ d]) auto
  then obtain blk' remaining' delivered' masks' new
    where sw: "sparse_words i [0..<4] (bs ! ?b) remaining delivered masks = Some (blk', remaining', delivered', masks')"
      and w: "words_post (q_head q) ?b [0..<4] (bs ! ?b) remaining blk' new" "masks' = masks @ new"
        "remaining' = remaining - length (take remaining (block_sparse [0..<4] (bs ! ?b)))"
        "delivered' = delivered + length (take remaining (block_sparse [0..<4] (bs ! ?b)))"
    by (elim okE) auto
  have new: "masks_seqs new = take remaining (map (\<lambda>j. 256 * ?b + j) (block_sparse [0..<4] (bs ! ?b)))"
    and wf: "masks_wf new"
    using w(1) by (simp_all add: words_post_def take_map)
  have lens: "length (masks_seqs new) = length (take remaining (block_sparse [0..<4] (bs ! ?b)))" by (simp add: new)
  show ?thesis
  proof (cases "mb_sparse_word_mask blk' = 0")
    case True
    have eq: "head_step ?q i remaining delivered masks =
        Some (remaining', delivered', masks', q\<lparr>q_sparse_blocks := l, q_blocks := bs[?b := blk']\<rparr>)"
      using b True by (simp add: head_step_def block_words_eq idx_def sw)
    show ?thesis
      unfolding eq ok_Some prod.case
      using words_done [OF r p w(1) True] new w(2) wf w(3,4) [folded lens] by blast
  next
    case False
    have r0: "remaining' = 0"
    proof -
      have "block_sparse [0..<4] blk' \<noteq> []" "block_sparse [0..<4] blk' = drop remaining (block_sparse [0..<4] (bs ! ?b))"
        using w(1) False block_sparse_mask by (auto simp: words_post_def)
      then show ?thesis using w(3) by simp
    qed
    have "head_step ?q i remaining delivered masks = do {
        (l3, bs3) \<leftarrow> push_front sparse_slot SPARSE_TAG l (bs[?b := blk']) i;
        Some (remaining', delivered', masks', q\<lparr>q_sparse_blocks := l3, q_blocks := bs3\<rparr>) }"
      using b False by (simp add: head_step_def block_words_eq idx_def sw Let_def) (auto intro!: Option.bind_cong)
    moreover have "ok (push_front sparse_slot SPARSE_TAG l (bs[?b := blk']) i) (\<lambda>(l3, bs3). \<exists>new ss'.
        masks_seqs new = take remaining (map (\<lambda>j. 256 * ?b + j) (block_sparse [0..<4] (bs ! ?b))) \<and>
        sparse_post q rs (i # ss) (masks_seqs new) (q\<lparr>q_sparse_blocks := l3, q_blocks := bs3\<rparr>) ss' \<and>
        masks' = masks @ new \<and> masks_wf new \<and> remaining' = remaining - length (masks_seqs new) \<and>
        delivered' = delivered + length (masks_seqs new) \<and> (remaining' = 0 \<or> ss' = ss))"
      by (rule ok_mono [OF words_left [OF r p w(1) False]])
        (use new w(2) wf w(3,4) [folded lens] r0 in blast)
    ultimately show ?thesis by simp
  qed
qed

lemma sparse_post_refl: "queue_repr q rs ss \<Longrightarrow> sparse_post q rs ss [] q ss"
  by (simp add: sparse_post_def)

lemma sparse_post_trans:
  assumes "sparse_post q rs ss T q1 ss1" and "sparse_post q1 rs ss1 T' q2 ss2"
  shows "sparse_post q rs ss (T @ T') q2 ss2"
proof -
  have "status q2 = (\<lambda>s. if s \<in> set (T @ T') then Some Inflight else status q s)"
    using assms by (auto simp: sparse_post_def fun_eq_iff)
  moreover have "same_seqs q q2" using assms same_seqs_trans by (auto simp: sparse_post_def)
  ultimately show ?thesis using assms unfolding sparse_post_def by simp
qed

lemma deliver_sparse_loop_ok:
  "queue_repr q rs ss \<Longrightarrow> delivered + remaining \<le> u32_max \<Longrightarrow>
   ok (deliver_sparse_loop q remaining delivered masks) (\<lambda>(delivered', masks', q'). \<exists>new ss'.
     masks_seqs new = take remaining (sparse_order (q_blocks q) ss) \<and>
     sparse_post q rs ss (masks_seqs new) q' ss' \<and> masks' = masks @ new \<and> masks_wf new \<and>
     delivered' = delivered + length (masks_seqs new))"
proof (induction ss arbitrary: q remaining delivered masks)
  case Nil
  have h: "il_head (q_sparse_blocks q) = None" using Nil by (simp add: queue_repr_def members_def list_repr_def)
  show ?case
    using sparse_post_refl [OF Nil.prems(1)]
    by (subst deliver_sparse_loop.simps) (auto simp: pop_front_def h intro!: exI [of _ "[]"])
next
  case (Cons i ss)
  note r = Cons.prems(1)
  show ?case
  proof (cases "remaining = 0")
    case True
    then show ?thesis
      using sparse_post_refl [OF r]
      by (subst deliver_sparse_loop.simps) (auto intro!: exI [of _ "[] :: DeliveryMask list"])
  next
    case False
    from pop_sparse [OF r] obtain l bs
      where p: "pop_front sparse_slot SPARSE_TAG (q_sparse_blocks q) (q_blocks q) = Some (Some i, l, bs)"
        and pp: "popped q i ss l bs"
      by (elim okE) auto
    show ?thesis
      unfolding deliver_sparse_loop_head [OF False p] ok_bind ok_case_prod
    proof (rule ok_mono [OF head_step_ok [OF r pp Cons.prems(2), of masks]], clarify)
      fix q1 new ss1
      let ?rem = "remaining - length (masks_seqs new)"
      assume t: "masks_seqs new = take remaining (map (\<lambda>j. 256 * as_usize i + j) (block_sparse [0..<4] (bs ! as_usize i)))"
        and sp: "sparse_post q rs (i # ss) (masks_seqs new) q1 ss1" and wf: "masks_wf new"
        and e: "?rem = 0 \<or> ss1 = ss"
      have ln: "length (masks_seqs new) \<le> remaining" by (simp add: t)
      have ord: "sparse_order (q_blocks q) (i # ss) = masks_seqs new @ sparse_order (q_blocks q1) ss1"
        using sp by (simp add: sparse_post_def)
      have tk: "take remaining (sparse_order (q_blocks q) (i # ss)) =
          masks_seqs new @ take ?rem (sparse_order (q_blocks q1) ss1)"
        unfolding ord using ln by simp
      let ?P = "\<lambda>(delivered', masks', q'). \<exists>new' ss'.
        masks_seqs new' = take remaining (sparse_order (q_blocks q) (i # ss)) \<and>
        sparse_post q rs (i # ss) (masks_seqs new') q' ss' \<and> masks' = masks @ new' \<and> masks_wf new' \<and>
        delivered' = delivered + length (masks_seqs new')"
      show "ok (deliver_sparse_loop q1 ?rem (delivered + length (masks_seqs new)) (masks @ new)) ?P"
      proof (cases "?rem = 0")
        case True
        have "deliver_sparse_loop q1 ?rem (delivered + length (masks_seqs new)) (masks @ new) =
            Some (delivered + length (masks_seqs new), masks @ new, q1)"
          by (subst deliver_sparse_loop.simps) (simp add: True)
        then show ?thesis using tk True sp wf by auto
      next
        case rem: False
        have r1: "queue_repr q1 rs ss" using sp e rem by (simp add: sparse_post_def)
        have d1: "delivered + length (masks_seqs new) + ?rem \<le> u32_max" using Cons.prems(2) ln by simp
        show ?thesis
        proof (rule ok_mono [OF Cons.IH [OF r1 d1, of "masks @ new"]], clarify)
          fix q2 new2 ss2
          assume t2: "masks_seqs new2 = take ?rem (sparse_order (q_blocks q1) ss)"
            and sp2: "sparse_post q1 rs ss (masks_seqs new2) q2 ss2" and wf2: "masks_wf new2"
          have "sparse_post q rs (i # ss) (masks_seqs (new @ new2)) q2 ss2"
            using sparse_post_trans [OF sp] sp2 e rem by simp
          then show "\<exists>new' ss'.
            masks_seqs new' = take remaining (sparse_order (q_blocks q) (i # ss)) \<and>
            sparse_post q rs (i # ss) (masks_seqs new') q2 ss' \<and> (masks @ new) @ new2 = masks @ new' \<and> masks_wf new' \<and>
            delivered + length (masks_seqs new) + length (masks_seqs new2) = delivered + length (masks_seqs new')"
            using tk t2 e rem wf wf2 by (intro exI [of _ "new @ new2"] exI [of _ ss2]) auto
        qed
      qed
    qed
  qed
qed

end
