(* ===== verification/Queue_Deliver.thy ===== *)
theory Queue_Deliver
  imports Queue_Sparse
begin

text \<open>
  \<open>deliver\<close> hands out the sequential range first and then the front of the sparse order;
  \<open>retry_all_now\<close> moves every message to retry into the sparse order.
\<close>

section \<open>Delivery\<close>

lemma sparse_order_status:
  assumes r: "queue_repr q rs ss"
  shows "s \<in> set (sparse_order (q_blocks q) ss) \<longleftrightarrow> status q s = Some SparseReady"
proof
  have ms: "members (map mb_sparse_link (q_blocks q)) SPARSE_TAG (q_sparse_blocks q)
      (map mb_sparse_word_mask (q_blocks q)) ss" using r by (simp add: queue_repr_def)
  have h: "q_head q \<le> q_next_seq q" using r by (simp add: queue_repr_def)
  {
    assume "s \<in> set (sparse_order (q_blocks q) ss)"
    then obtain i j where i: "i \<in> set ss" and j: "j \<in> set (block_sparse [0..<4] (q_blocks q ! as_usize i))"
      and s: "s = 256 * as_usize i + j"
      by (auto simp: sparse_order_def)
    have b: "as_usize i < length (q_blocks q)"
      using ms i list_repr_bounds by (fastforce simp: members_def)
    have inv: "block_inv (q_head q) (as_usize i) (q_blocks q ! as_usize i)" using queue_repr_block [OF r b] .
    have jl: "j < 256" "256 * as_usize i + j < q_head q" using block_sparse_less [OF inv j] by auto
    have "wbit (mb_sparse_ready (q_blocks q ! as_usize i)) j"
      using j set_block_sparse [OF block_invD(4) [OF inv], of "[0..<4]"] by (simp add: atLeast0LessThan)
    then have "bstat (q_blocks q ! as_usize i) j = SparseReady" using block_inv_bits(6) [OF inv jl(1)] by simp
    then show "status q s = Some SparseReady" using jl h s by (simp add: status_def)
  next
    assume st: "status q s = Some SparseReady"
    let ?b = "s div 256" and ?j = "s mod 256"
    have b: "?b < length (q_blocks q)" using block_index_bound [OF r status_Some_less [OF st]] .
    have inv: "block_inv (q_head q) ?b (q_blocks q ! ?b)" using queue_repr_block [OF r b] .
    have "bstat (q_blocks q ! ?b) ?j = SparseReady" using st by (simp add: status_def split: if_splits)
    then have wb: "wbit (mb_sparse_ready (q_blocks q ! ?b)) ?j" using block_inv_bits(6) [OF inv, of ?j] by simp
    have j: "?j \<in> set (block_sparse [0..<4] (q_blocks q ! ?b))"
      using wb word_of_bit [of ?j] set_block_sparse [OF block_invD(4) [OF inv], of "[0..<4]"]
      by (simp add: atLeast0LessThan)
    have "length (q_blocks q) \<le> u32_max" using r by (simp add: queue_repr_def)
    then have i: "as_usize (Index (of_nat ?b + 1)) = ?b" using b by (intro index_of_block) simp
    have "mb_sparse_word_mask (q_blocks q ! ?b) \<noteq> 0" using block_sparse_mask [OF inv] j by auto
    then have "Index (of_nat ?b + 1) \<in> set ss" using ms b i unfolding members_def by (metis length_map nth_map)
    with j i show "s \<in> set (sparse_order (q_blocks q) ss)"
      unfolding sparse_order_def by (auto intro!: bexI [of _ "Index (of_nat ?b + 1)"] image_eqI [of _ _ ?j])
  }
qed

lemma distinct_block_sparse: "distinct ws \<Longrightarrow> distinct (block_sparse ws blk)"
proof (induction ws)
  case Nil
  then show ?case by simp
next
  case (Cons w ws)
  have "j div 64 \<in> set ws" if "j \<in> set (block_sparse ws blk)" for j
    using that bit_imp_le_length by (fastforce simp: block_sparse_def)
  moreover have "j div 64 = w" if "j \<in> set (map (\<lambda>i. 64 * w + i) (bits_of (mb_sparse_ready blk ! w)))" for j
    using that bit_imp_le_length by fastforce
  ultimately have "set (map (\<lambda>i. 64 * w + i) (bits_of (mb_sparse_ready blk ! w))) \<inter> set (block_sparse ws blk) = {}"
    using Cons.prems by fastforce
  then show ?case using Cons by (simp add: distinct_map)
qed

lemma distinct_sparse_order:
  assumes inv: "\<And>i. i \<in> set ss \<Longrightarrow> block_inv h (as_usize i) (bs ! as_usize i)"
  shows "distinct ss \<Longrightarrow> distinct (sparse_order bs ss)"
  using inv
proof (induction ss)
  case Nil
  then show ?case by simp
next
  case (Cons i ss)
  let ?B = "\<lambda>i. map (\<lambda>j. 256 * as_usize i + j) (block_sparse [0..<4] (bs ! as_usize i))"
  have dv: "s div 256 = as_usize k" if s: "s \<in> set (?B k)" and k: "k \<in> set (i # ss)" for s k
  proof -
    obtain j where j: "j \<in> set (block_sparse [0..<4] (bs ! as_usize k))" "s = 256 * as_usize k + j"
      using s by auto
    have "j < 256" using block_sparse_less [OF Cons.prems(2) [OF k] j(1)] by simp
    then show ?thesis by (simp add: j(2))
  qed
  have "s div 256 \<noteq> as_usize i" if s: "s \<in> set (sparse_order bs ss)" for s
  proof -
    obtain k where k: "k \<in> set ss" "s \<in> set (?B k)" using s by (auto simp: sparse_order_def)
    have "s div 256 = as_usize k" using dv [OF k(2)] k(1) by simp
    moreover have "k \<noteq> i" using k(1) Cons.prems(1) by auto
    ultimately show ?thesis by simp
  qed
  then have "set (?B i) \<inter> set (sparse_order bs ss) = {}" using dv [of _ i] by fastforce
  moreover have "distinct (?B i)" by (simp add: distinct_map distinct_block_sparse)
  ultimately show ?case using Cons by (simp add: sparse_order_Cons)
qed

text \<open>
  The result of \<open>deliver\<close>: \<open>k\<close> messages from the sequential range, then the front
  \<open>T\<close> of the sparse order.
\<close>

definition deliver_post ::
  "HybridRangeBlockQueue \<Rightarrow> Index list \<Rightarrow> Index list \<Rightarrow> nat \<Rightarrow> nat list \<Rightarrow> DeliveryWork \<Rightarrow> HybridRangeBlockQueue \<Rightarrow> bool" where
  "deliver_post q rs ss k T work q' \<longleftrightarrow>
     dw_ranges work = (if k = 0 then [] else [DeliveryRange_new (q_head q) k]) \<and>
     masks_wf (dw_masks work) \<and> masks_seqs (dw_masks work) = T \<and>
     (\<exists>ss'. queue_repr q' rs ss' \<and> T @ sparse_order (q_blocks q') ss' = sparse_order (q_blocks q) ss) \<and>
     q_next_seq q' = q_next_seq q \<and> q_head q' = q_head q + k \<and>
     map mb_redelivered (q_blocks q') = map mb_redelivered (q_blocks q) \<and>
     q_stats q' = (q_stats q)\<lparr>total_delivered := total_delivered (q_stats q) + (k + length T)\<rparr> \<and>
     status q' = (\<lambda>s. if s \<in> set ([q_head q..<q_head q + k] @ T) then Some Inflight else status q s)"

lemma sparse_order_map: "map mb_sparse_ready bs' = map mb_sparse_ready bs \<Longrightarrow>
    (\<And>i. i \<in> set ss \<Longrightarrow> as_usize i < length bs) \<Longrightarrow> sparse_order bs' ss = sparse_order bs ss"
  by (rule sparse_order_cong) (metis length_map nth_map)

lemma repr_bounds:
  assumes r: "queue_repr q rs ss" and i: "i \<in> set ss"
  shows "as_usize i < length (q_blocks q)"
proof -
  have "list_repr (map mb_sparse_link (q_blocks q)) SPARSE_TAG (q_sparse_blocks q) ss"
    using r by (simp add: queue_repr_def members_def)
  from list_repr_bounds [OF this i] show ?thesis by simp
qed

definition seq_phase :: "HybridRangeBlockQueue \<Rightarrow> nat \<Rightarrow> HybridRangeBlockQueue option" where
  "seq_phase q k = (if k \<noteq> 0 then do {
     q' \<leftarrow> mark_inflight_range q (q_head q) k;
     h \<leftarrow> add_u64 (q_head q') k;
     Some (q'\<lparr>q_head := h\<rparr>) } else Some q)"

lemma seq_phase_ok:
  assumes r: "queue_repr q rs ss" and k: "q_head q + k \<le> q_next_seq q"
  shows "ok (seq_phase q k) (\<lambda>q1. queue_repr q1 rs ss \<and> q_next_seq q1 = q_next_seq q \<and> q_head q1 = q_head q + k \<and>
    q_stats q1 = q_stats q \<and> sparse_order (q_blocks q1) ss = sparse_order (q_blocks q) ss \<and>
    map mb_redelivered (q_blocks q1) = map mb_redelivered (q_blocks q) \<and>
    status q1 = (\<lambda>s. if s \<in> set [q_head q..<q_head q + k] then Some Inflight else status q s))"
proof (cases "k = 0")
  case True
  then show ?thesis using r by (simp add: seq_phase_def)
next
  case False
  have u: "q_head q + k \<le> u64_max" using k repr_seq_bound [OF r] by (simp add: u32_max_def u64_max_def)
  have "ok (mark_inflight_range q (q_head q) k) (\<lambda>q'. q_head q' = q_head q \<and>
      queue_repr (q'\<lparr>q_head := q_head q + k\<rparr>) rs ss \<and> q_next_seq q' = q_next_seq q \<and>
      q_stats q' = q_stats q \<and> sparse_order (q_blocks q') ss = sparse_order (q_blocks q) ss \<and>
      map mb_redelivered (q_blocks q') = map mb_redelivered (q_blocks q) \<and>
      status q' = (\<lambda>s. if s \<in> set [q_head q..<q_head q + k] then Some Inflight else status q s))"
  proof (rule ok_mono [OF mark_inflight_range_ok [OF r _ k]])
    fix q'
    assume q': "queue_repr (q'\<lparr>q_head := q_head q + k\<rparr>) rs ss \<and> only_blocks q q' \<and>
      status q' = (\<lambda>x. if q_head q \<le> x \<and> x < q_head q + k then Some Inflight else status q x)"
    have "sparse_order (q_blocks q') ss = sparse_order (q_blocks q) ss"
      by (rule sparse_order_map [OF _ repr_bounds [OF r]]) (use q' in \<open>simp add: only_blocks_def\<close>)
    with q' show "q_head q' = q_head q \<and>
      queue_repr (q'\<lparr>q_head := q_head q + k\<rparr>) rs ss \<and> q_next_seq q' = q_next_seq q \<and>
      q_stats q' = q_stats q \<and> sparse_order (q_blocks q') ss = sparse_order (q_blocks q) ss \<and>
      map mb_redelivered (q_blocks q') = map mb_redelivered (q_blocks q) \<and>
      status q' = (\<lambda>s. if s \<in> set [q_head q..<q_head q + k] then Some Inflight else status q s)"
      by (simp add: only_blocks_def)
  qed (use False in simp)
  then have "ok (mark_inflight_range q (q_head q) k) (\<lambda>q'. ok (Some (q'\<lparr>q_head := q_head q' + k\<rparr>)) (\<lambda>q1.
      queue_repr q1 rs ss \<and> q_next_seq q1 = q_next_seq q \<and> q_head q1 = q_head q + k \<and>
      q_stats q1 = q_stats q \<and> sparse_order (q_blocks q1) ss = sparse_order (q_blocks q) ss \<and>
      map mb_redelivered (q_blocks q1) = map mb_redelivered (q_blocks q) \<and>
      status q1 = (\<lambda>s. if s \<in> set [q_head q..<q_head q + k] then Some Inflight else status q s)) \<and>
      q_head q' + k \<le> u64_max)"
    by (rule ok_mono) (use u in simp)
  then show ?thesis using False by (simp add: seq_phase_def conj_commute)
qed

lemma deliver_ok:
  assumes r: "queue_repr q rs ss" and mx: "max_messages \<le> u32_max"
    and k: "k = min (q_next_seq q - q_head q) max_messages"
    and T: "T = take (max_messages - k) (sparse_order (q_blocks q) ss)"
    and st: "total_delivered (q_stats q) + (k + length T) \<le> u64_max"
  shows "ok (deliver q max_messages out) (\<lambda>(n, work, q'). n = k + length T \<and> deliver_post q rs ss k T work q')"
proof (cases "max_messages = 0")
  case True
  have "T = []" "k = 0" using T k True by auto
  then show ?thesis
    using r True by (auto simp: deliver_def work_clear_def deliver_post_def fun_eq_iff)
next
  case False
  have hk: "q_head q + k \<le> q_next_seq q" and k32: "k \<le> max_messages"
    using r k by (auto simp: queue_repr_def)
  have rl: "min (sequential_ready_len q) max_messages = k"
    using r by (simp add: sequential_ready_len_def k queue_repr_def)
  let ?rg = "if k = 0 then [] else [DeliveryRange_new (q_head q) k]"
  have eq: "deliver q max_messages out = do {
      q1 \<leftarrow> seq_phase q k;
      (n, masks, q2) \<leftarrow> (if max_messages - k \<noteq> 0 then deliver_sparse_loop q1 (max_messages - k) 0 [] else Some (0, [], q1));
      n' \<leftarrow> add_u32 k n;
      q3 \<leftarrow> bump_delivered n' q2;
      Some (n', out\<lparr>dw_ranges := ?rg, dw_masks := masks\<rparr>, q3) }"
  proof -
    have a: "sub_uint max_messages k = Some (max_messages - k)" "add_u32 0 k = Some k" "add_u32 0 0 = Some 0" "add_u32 k 0 = Some k"
      using k32 mx by (simp_all add: sub_uint_def add_u32_def)
    have c: "out\<lparr>dw_masks := ms, dw_ranges := rg\<rparr> = out\<lparr>dw_ranges := rg, dw_masks := ms\<rparr>" for ms rg by simp
    show ?thesis
      using False
      by (cases "k = 0")
        (auto simp: deliver_def deliver_sparse_masks_def seq_phase_def work_clear_def rl Let_def a c
          intro!: Option.bind_cong split: prod.splits)
  qed
  let ?P = "\<lambda>(n, work, q'). n = k + length T \<and> deliver_post q rs ss k T work q'"
  show ?thesis
    unfolding eq ok_bind
  proof (rule ok_mono [OF seq_phase_ok [OF r hk]])
    fix q1
    assume q1: "queue_repr q1 rs ss \<and> q_next_seq q1 = q_next_seq q \<and> q_head q1 = q_head q + k \<and>
      q_stats q1 = q_stats q \<and> sparse_order (q_blocks q1) ss = sparse_order (q_blocks q) ss \<and>
      map mb_redelivered (q_blocks q1) = map mb_redelivered (q_blocks q) \<and>
      status q1 = (\<lambda>s. if s \<in> set [q_head q..<q_head q + k] then Some Inflight else status q s)"
    then have r1: "queue_repr q1 rs ss" by blast
    let ?loop = "if max_messages - k \<noteq> 0 then deliver_sparse_loop q1 (max_messages - k) 0 [] else Some (0, [], q1)"
    have "ok ?loop (\<lambda>(n, masks, q2). n = length T \<and> masks_wf masks \<and> masks_seqs masks = T \<and>
        (\<exists>ss'. sparse_post q1 rs ss T q2 ss'))"
    proof (cases "max_messages - k = 0")
      case True
      then show ?thesis using sparse_post_refl [OF r1] T by auto
    next
      case nz: False
      have "0 + (max_messages - k) \<le> u32_max" using mx by simp
      from deliver_sparse_loop_ok [OF r1 this, of "[]"] show ?thesis
        using nz q1 T by (auto elim!: ok_mono)
    qed
    then obtain masks q2 ss' where L: "?loop = Some (length T, masks, q2)"
      and wf: "masks_wf masks" and t: "masks_seqs masks = T" and sp: "sparse_post q1 rs ss T q2 ss'"
      by (elim okE) auto
    show "ok ?loop (\<lambda>x. ok (case x of (n, masks, q2) \<Rightarrow> Option.bind (add_u32 k n) (\<lambda>n'.
        Option.bind (bump_delivered n' q2) (\<lambda>q3. Some (n', out\<lparr>dw_ranges := ?rg, dw_masks := masks\<rparr>, q3)))) ?P)"
      unfolding L ok_Some prod.case
    proof -
      have st2: "q_stats q2 = q_stats q" using sp q1 by (simp add: sparse_post_def)
      have "k + length T \<le> u32_max"
      proof -
        have "length T \<le> max_messages - k" by (simp add: T)
        then show ?thesis using k32 mx by simp
      qed
      moreover have "deliver_post q rs ss k T (out\<lparr>dw_ranges := ?rg, dw_masks := masks\<rparr>)
          (q2\<lparr>q_stats := (q_stats q)\<lparr>total_delivered := total_delivered (q_stats q) + (k + length T)\<rparr>\<rparr>)"
        using sp wf q1 t unfolding deliver_post_def sparse_post_def by (auto simp: same_seqs_def fun_eq_iff)
      ultimately show "ok (Option.bind (add_u32 k (length T)) (\<lambda>n'.
          Option.bind (bump_delivered n' q2) (\<lambda>q3. Some (n', out\<lparr>dw_ranges := ?rg, dw_masks := masks\<rparr>, q3)))) ?P"
        using st by (simp add: bump_delivered_def st2)
    qed
  qed
qed

end
