(* ===== verification/Queue_Retry.thy ===== *)
theory Queue_Retry
  imports Queue_Deliver
begin

text \<open>
  \<open>retry_all_now\<close>: every block of the retry list is popped, its messages to retry become
  ready again and are marked as redelivered, and the block joins the sparse list.
\<close>

section \<open>The words of a block\<close>

definition retry_count :: "nat list \<Rightarrow> MsgBlock \<Rightarrow> nat" where
  "retry_count ws blk = sum_list (map (\<lambda>w. count_ones (mb_retry blk ! w)) ws)"

lemma retry_words_ok:
  "length (mb_retry blk) = 4 \<Longrightarrow> length (mb_sparse_ready blk) = 4 \<Longrightarrow> length (mb_redelivered blk) = 4 \<Longrightarrow>
   set ws \<subseteq> {..<4} \<Longrightarrow> distinct ws \<Longrightarrow> moved + retry_count ws blk \<le> u32_max \<Longrightarrow>
   ok (retry_words ws blk moved) (\<lambda>(blk', moved'). moved' = moved + retry_count ws blk \<and>
     length (mb_retry blk') = 4 \<and> length (mb_sparse_ready blk') = 4 \<and> length (mb_redelivered blk') = 4 \<and>
     (\<forall>w. mb_retry blk' ! w = (if w \<in> set ws then 0 else mb_retry blk ! w)) \<and>
     (\<forall>w. mb_sparse_ready blk' ! w = (if w \<in> set ws then mb_sparse_ready blk ! w OR mb_retry blk ! w else mb_sparse_ready blk ! w)) \<and>
     (\<forall>w. mb_redelivered blk' ! w = (if w \<in> set ws then mb_redelivered blk ! w OR mb_retry blk ! w else mb_redelivered blk ! w)) \<and>
     mb_inflight blk' = mb_inflight blk \<and> mb_acked blk' = mb_acked blk \<and>
     mb_retry_word_mask blk' = mb_retry_word_mask blk \<and> mb_sparse_word_mask blk' = mb_sparse_word_mask blk \<and>
     mb_retry_link blk' = mb_retry_link blk \<and> mb_sparse_link blk' = mb_sparse_link blk)"
proof (induction ws arbitrary: blk moved)
  case Nil
  then show ?case by (simp add: retry_count_def)
next
  case (Cons w ws)
  have w: "w < 4" "w \<notin> set ws" and ws: "set ws \<subseteq> {..<4}" "distinct ws" using Cons.prems by auto
  show ?case
  proof (cases "mb_retry blk ! w = 0")
    case True
    have c: "retry_count (w # ws) blk = retry_count ws blk" by (simp add: retry_count_def True)
    have "moved + retry_count ws blk \<le> u32_max" using Cons.prems(6) c by simp
    from Cons.IH [OF Cons.prems(1-3) ws this] show ?thesis
      using True w Cons.prems(1) by (auto simp: idx_def c elim!: ok_mono)
  next
    case False
    let ?m = "mb_retry blk ! w"
    define blk1 where "blk1 = blk\<lparr>mb_retry := (mb_retry blk)[w := 0],
      mb_sparse_ready := (mb_sparse_ready blk)[w := mb_sparse_ready blk ! w OR ?m],
      mb_redelivered := (mb_redelivered blk)[w := mb_redelivered blk ! w OR ?m]\<rparr>"
    have eq1: "retry_count ws blk1 = retry_count ws blk"
      using w(2) unfolding retry_count_def blk1_def by (induction ws) auto
    have c: "retry_count (w # ws) blk = count_ones ?m + retry_count ws blk1"
      unfolding eq1 by (simp add: retry_count_def)
    have l1: "length (mb_retry blk1) = 4" "length (mb_sparse_ready blk1) = 4" "length (mb_redelivered blk1) = 4"
      using Cons.prems(1-3) by (simp_all add: blk1_def)
    have "moved + count_ones ?m + retry_count ws blk1 \<le> u32_max" using Cons.prems(6) c by simp
    note IH = Cons.IH [OF l1 ws this]
    have "retry_words (w # ws) blk moved = retry_words ws blk1 (moved + count_ones ?m)"
      using False w Cons.prems c by (simp add: idx_def upd_def add_u32_def blk1_def)
    then show ?thesis
      using IH w Cons.prems(1-3)
      by (auto simp: c blk1_def nth_list_update elim!: ok_mono)
  qed
qed

text \<open>The block after the pass, with the two word masks updated.\<close>

lemma retried_block:
  assumes inv: "block_inv h b blk"
    and lens: "length (mb_retry blk') = 4" "length (mb_sparse_ready blk') = 4" "length (mb_redelivered blk') = 4"
    and rt: "\<And>w. w < 4 \<Longrightarrow> mb_retry blk' ! w = 0"
    and sp: "\<And>w. w < 4 \<Longrightarrow> mb_sparse_ready blk' ! w = mb_sparse_ready blk ! w OR mb_retry blk ! w"
    and rd: "\<And>w. w < 4 \<Longrightarrow> mb_redelivered blk' ! w = mb_redelivered blk ! w OR mb_retry blk ! w"
    and same: "mb_inflight blk' = mb_inflight blk" "mb_acked blk' = mb_acked blk"
    and masks: "mb_retry_word_mask blk' = 0" "mb_sparse_word_mask blk' = mb_sparse_word_mask blk OR mb_retry_word_mask blk"
  shows "block_inv h b blk'"
    and "j < 256 \<Longrightarrow> bstat blk' j = (if bstat blk j = Retry then SparseReady else bstat blk j)"
proof -
  note l = block_invD(1-5) [OF inv]
  have wb: "\<not> wbit (mb_retry blk') j" "wbit (mb_sparse_ready blk') j \<longleftrightarrow> wbit (mb_sparse_ready blk) j \<or> wbit (mb_retry blk) j"
    "wbit (mb_redelivered blk') j \<longleftrightarrow> wbit (mb_redelivered blk) j \<or> wbit (mb_retry blk) j" if "j < 256" for j
    using word_of_bit [OF that] rt sp rd lens l that by (simp_all add: wbit_word bit_or_iff)
  have mw: "bit (mb_sparse_word_mask blk') w \<longleftrightarrow> w < 4 \<and> mb_sparse_ready blk' ! w \<noteq> 0" for w
    using block_invD(6,7) [OF inv, of w] sp [of w] by (auto simp: masks bit_or_iff or_eq_0_iff)
  show "block_inv h b blk'"
    using inv lens wb mw rt masks same unfolding block_inv_def by simp blast
  show "bstat blk' j = (if bstat blk j = Retry then SparseReady else bstat blk j)" if "j < 256"
    using wb [OF that] inv that unfolding block_inv_def bstat_def same by auto
qed

section \<open>Joining the sparse list\<close>

lemma ensure_sparse_listed_ok:
  assumes hd: "q_head q \<le> q_next_seq q" "q_tail q = q_next_seq q"
      "length (q_blocks q) = (q_next_seq q + 255) div 256" "length (q_blocks q) \<le> u32_max"
    and inv: "\<And>b. b < length (q_blocks q) \<Longrightarrow> block_inv (q_head q) b (q_blocks q ! b)"
    and mr: "members (map mb_retry_link (q_blocks q)) RETRY_TAG (q_retry_blocks q)
       (map mb_retry_word_mask (q_blocks q)) rs"
    and i: "as_usize i < length (q_blocks q)" "mb_sparse_word_mask (q_blocks q ! as_usize i) \<noteq> 0"
    and old: "members (map mb_sparse_link (q_blocks q)) SPARSE_TAG (q_sparse_blocks q) om ss"
      "\<And>j. as_usize j < length (q_blocks q) \<Longrightarrow> j \<noteq> i \<Longrightarrow>
        (om ! as_usize j = 0) = (mb_sparse_word_mask (q_blocks q ! as_usize j) = 0)"
  shows "ok (ensure_sparse_listed q i) (\<lambda>q'. queue_repr q' rs (if i \<in> set ss then ss else ss @ [i]) \<and>
    same_seqs q q' \<and> q_stats q' = q_stats q \<and> status q' = status q \<and>
    map mb_retry (q_blocks q') = map mb_retry (q_blocks q))"
proof -
  let ?bs = "q_blocks q"
  have lr: "list_repr (map mb_sparse_link ?bs) SPARSE_TAG (q_sparse_blocks q) ss" using old(1) by (simp add: members_def)
  have listed: "is_sparse_listed (?bs ! as_usize i) \<longleftrightarrow> i \<in> set ss"
    using old(1) i(1) by (simp add: members_def is_sparse_listed_def)
  have un: "\<not> state_is_linked (link_state (map mb_sparse_link ?bs ! as_usize j))"
    if "as_usize j < length ?bs" "j \<notin> set ss" for j
    using old(1) that by (simp add: members_def)
  have mem: "j \<in> set ss \<longleftrightarrow> mb_sparse_word_mask (?bs ! as_usize j) \<noteq> 0"
    if "as_usize j < length ?bs" "j \<noteq> i" for j
    using old that by (auto simp: members_def)
  show ?thesis
  proof (cases "i \<in> set ss")
    case True
    have "members (map mb_sparse_link ?bs) SPARSE_TAG (q_sparse_blocks q) (map mb_sparse_word_mask ?bs) ss"
      by (rule membersI [OF lr]) (use mem i True un in auto)
    then show ?thesis
      using True listed i hd inv mr by (simp add: ensure_sparse_listed_def queue_repr_def)
  next
    case False
    have card: "length ss < u32_max"
    proof -
      have "distinct (i # ss)" "as_usize ` set (i # ss) \<subseteq> {..<length ?bs}"
        using False lr list_repr_bounds [OF lr] i(1) by (auto simp: list_repr_def)
      then have "length (i # ss) \<le> length ?bs"
        by (metis as_usize_inj card_image card_lessThan card_mono distinct_card finite_lessThan inj_onI)
      then show ?thesis using hd(4) by simp
    qed
    have "ok (push_back sparse_slot SPARSE_TAG (q_sparse_blocks q) ?bs i) (\<lambda>(l', bs').
        list_repr (map mb_sparse_link bs') SPARSE_TAG l' (ss @ [i]) \<and>
        kept sparse_slot sparse_payload (insert i (set ss)) ?bs bs')"
      using sl.push_back_ok [of ?bs SPARSE_TAG "q_sparse_blocks q" ss i] lr i(1) un [OF i(1) False] card by simp
    then have "ok (push_back sparse_slot SPARSE_TAG (q_sparse_blocks q) ?bs i) (\<lambda>(l', bs').
        queue_repr (q\<lparr>q_sparse_blocks := l', q_blocks := bs'\<rparr>) rs (ss @ [i]) \<and>
        status (q\<lparr>q_sparse_blocks := l', q_blocks := bs'\<rparr>) = status q \<and> map mb_retry bs' = map mb_retry ?bs)"
    proof (rule ok_mono, clarify)
      fix l' bs'
      assume lr': "list_repr (map mb_sparse_link bs') SPARSE_TAG l' (ss @ [i])"
        and k: "kept sparse_slot sparse_payload (insert i (set ss)) ?bs bs'"
      have p: "map sparse_payload bs' = map sparse_payload ?bs" using k by (simp add: kept_def)
      have len: "length bs' = length ?bs" using kept_length [OF k] .
      have links: "mb_sparse_link (bs' ! as_usize j) = mb_sparse_link (?bs ! as_usize j)"
        if "as_usize j < length ?bs" "j \<notin> insert i (set ss)" for j
        using k that len by (auto simp: kept_def)
      have rm: "map mb_retry_word_mask bs' = map mb_retry_word_mask ?bs"
        and sm: "map mb_sparse_word_mask bs' = map mb_sparse_word_mask ?bs"
        and rk: "map mb_retry_link bs' = map mb_retry_link ?bs"
        by (rule map_frame [OF p], simp add: sparse_payload_frame)+
      have mr': "map mb_retry bs' = map mb_retry ?bs" by (rule map_frame [OF p]) (simp add: sparse_payload_def)
      have "members (map mb_sparse_link bs') SPARSE_TAG l' (map mb_sparse_word_mask bs') (ss @ [i])"
        unfolding sm by (rule membersI [OF lr']) (use mem i un links len in auto)
      moreover have "block_inv (q_head q) b (bs' ! b)" if "b < length ?bs" for b
        using inv [OF that] payload_fields(1) [OF p that] by simp
      moreover have "status (q\<lparr>q_sparse_blocks := l', q_blocks := bs'\<rparr>) = status q"
        by (rule status_relink [OF p sparse_payload_frame(2)]) (use hd(3) in auto)
      ultimately show "queue_repr (q\<lparr>q_sparse_blocks := l', q_blocks := bs'\<rparr>) rs (ss @ [i]) \<and>
          status (q\<lparr>q_sparse_blocks := l', q_blocks := bs'\<rparr>) = status q \<and> map mb_retry bs' = map mb_retry ?bs"
        using hd mr len mr' by (simp add: queue_repr_def rm rk)
    qed
    then show ?thesis
      using False listed i(1) by (auto simp: ensure_sparse_listed_def same_seqs_def elim!: ok_mono)
  qed
qed

section \<open>One block of the retry list\<close>

definition retry_step ::
  "HybridRangeBlockQueue \<Rightarrow> Index \<Rightarrow> nat \<Rightarrow> (nat \<times> HybridRangeBlockQueue) option" where
  "retry_step q i moved = do {
     blk \<leftarrow> idx (q_blocks q) (as_usize i);
     let word_mask = mb_retry_word_mask blk;
     (blk, moved) \<leftarrow> retry_words [0..<WORDS_PER_BLOCK] blk moved;
     let blk = blk\<lparr>mb_retry_word_mask := 0\<rparr>;
     let blk = blk\<lparr>mb_sparse_word_mask := mb_sparse_word_mask blk OR word_mask\<rparr>;
     q \<leftarrow> ensure_sparse_listed (q\<lparr>q_blocks := (q_blocks q)[as_usize i := blk]\<rparr>) i;
     Some (moved, q)
   }"

lemma retry_all_loop_head:
  assumes p: "pop_front retry_slot RETRY_TAG (q_retry_blocks q) (q_blocks q) = Some (Some i, l, bs)"
  shows "retry_all_loop q moved = do {
    (moved, q) \<leftarrow> retry_step (q\<lparr>q_retry_blocks := l, q_blocks := bs\<rparr>) i moved;
    retry_all_loop q moved }"
  by (subst retry_all_loop.simps)
    (auto simp: p retry_step_def Let_def intro!: Option.bind_cong split: prod.splits)

text \<open>The queue after \<open>pop_front\<close> took the block \<open>i\<close> from the retry list \<open>i # rs\<close>.\<close>

definition retry_popped :: "HybridRangeBlockQueue \<Rightarrow> Index \<Rightarrow> Index list \<Rightarrow> IndexList \<Rightarrow> MsgBlock list \<Rightarrow> bool" where
  "retry_popped q i rs l bs \<longleftrightarrow>
     list_repr (map mb_retry_link bs) RETRY_TAG l rs \<and> i \<notin> set rs \<and>
     as_usize i < length (q_blocks q) \<and> length bs = length (q_blocks q) \<and>
     map retry_payload bs = map retry_payload (q_blocks q) \<and> mb_retry_word_mask (bs ! as_usize i) \<noteq> 0 \<and>
     (\<forall>j. as_usize j < length bs \<longrightarrow> j \<noteq> i \<longrightarrow> (j \<in> set rs \<longleftrightarrow> mb_retry_word_mask (bs ! as_usize j) \<noteq> 0)) \<and>
     (\<forall>j. as_usize j < length bs \<longrightarrow> j \<notin> set rs \<longrightarrow>
        \<not> state_is_linked (link_state (mb_retry_link (bs ! as_usize j))))"

lemma retry_payload_retry: "mb_retry (retry_payload blk) = mb_retry blk"
  by (simp add: retry_payload_def)

lemma retry_payload_fields:
  assumes "map retry_payload bs = map retry_payload bs'" and "n < length bs'"
  shows "block_inv h b (bs ! n) = block_inv h b (bs' ! n)" "mb_retry_word_mask (bs ! n) = mb_retry_word_mask (bs' ! n)"
    "bstat (bs ! n) = bstat (bs' ! n)" "mb_sparse_link (bs ! n) = mb_sparse_link (bs' ! n)"
    "mb_sparse_word_mask (bs ! n) = mb_sparse_word_mask (bs' ! n)" "mb_retry (bs ! n) = mb_retry (bs' ! n)"
  using payload_nth [OF assms] retry_payload_frame retry_payload_retry by metis+

lemma pop_retry:
  assumes r: "queue_repr q (i # rs) ss"
  shows "ok (pop_front retry_slot RETRY_TAG (q_retry_blocks q) (q_blocks q)) (\<lambda>(x, l, bs).
    x = Some i \<and> retry_popped q i rs l bs)"
proof -
  let ?bs = "q_blocks q"
  have ms: "members (map mb_retry_link ?bs) RETRY_TAG (q_retry_blocks q) (map mb_retry_word_mask ?bs) (i # rs)"
    using r by (simp add: queue_repr_def)
  then have lr0: "list_repr (map mb_retry_link ?bs) RETRY_TAG (q_retry_blocks q) (i # rs)" by (simp add: members_def)
  have b: "as_usize i < length ?bs" using list_repr_bounds [OF lr0, of i] by simp
  have ni: "i \<notin> set rs" using lr0 by (auto simp: list_repr_def)
  have "retry_popped q i rs l bs" if lr: "list_repr (map mb_retry_link bs) RETRY_TAG l rs"
    and li: "map mb_retry_link bs ! as_usize i = link_new"
    and k: "kept retry_slot retry_payload (set (i # rs)) ?bs bs" for l bs
  proof -
    have len: "length bs = length ?bs" using kept_length [OF k] .
    have pl: "map retry_payload bs = map retry_payload ?bs" using k by (simp add: kept_def)
    have "\<not> state_is_linked (link_state (mb_retry_link (bs ! as_usize j)))"
      if "as_usize j < length ?bs" "j \<notin> set rs" for j
    proof (cases "j = i")
      case True
      then show ?thesis using li b len by simp
    next
      case False
      then have "mb_retry_link (bs ! as_usize j) = mb_retry_link (?bs ! as_usize j)"
        using k that len by (auto simp: kept_def)
      then show ?thesis using ms that False by (simp add: members_def)
    qed
    then show ?thesis
      using ms lr ni b len pl retry_payload_fields(2) [OF pl] by (auto simp: retry_popped_def members_def)
  qed
  then show ?thesis
    using rl.pop_front_ok [of ?bs RETRY_TAG "q_retry_blocks q" "i # rs"] lr0 by (auto elim!: ok_mono)
qed

lemma retry_step_ok:
  assumes r: "queue_repr q (i # rs) ss" and p: "retry_popped q i rs l bs"
    and mv: "moved + retry_count [0..<4] (bs ! as_usize i) \<le> u32_max"
  shows "ok (retry_step (q\<lparr>q_retry_blocks := l, q_blocks := bs\<rparr>) i moved) (\<lambda>(moved', q').
    moved' = moved + retry_count [0..<4] (bs ! as_usize i) \<and>
    (\<exists>ss'. queue_repr q' rs ss') \<and> same_seqs q q' \<and> q_stats q' = q_stats q \<and>
    (\<forall>n<length bs. n \<noteq> as_usize i \<longrightarrow> mb_retry (q_blocks q' ! n) = mb_retry (bs ! n)) \<and>
    status q' = (\<lambda>s. if s div 256 = as_usize i \<and> status q s = Some Retry then Some SparseReady else status q s))"
proof -
  let ?b = "as_usize i" and ?q = "q\<lparr>q_retry_blocks := l, q_blocks := bs\<rparr>"
  have pl: "map retry_payload bs = map retry_payload (q_blocks q)" and len: "length bs = length (q_blocks q)"
    and b: "?b < length bs" using p by (simp_all add: retry_popped_def)
  have inv: "block_inv (q_head q) n (bs ! n)" if "n < length bs" for n
    using retry_payload_fields(1) [OF pl, of n] queue_repr_block [OF r, of n] len that by simp
  note l5 = block_invD(1-5) [OF inv [OF b]]
  have "ok (retry_words [0..<4] (bs ! ?b) moved) (\<lambda>_. True)"
    by (rule ok_mono [OF retry_words_ok [OF l5(3,4,5)]]) (use mv in auto)
  then obtain blk1 moved' where rw: "retry_words [0..<4] (bs ! ?b) moved = Some (blk1, moved')" by (elim okE) auto
  have w1: "moved' = moved + retry_count [0..<4] (bs ! ?b)"
    "length (mb_retry blk1) = 4" "length (mb_sparse_ready blk1) = 4" "length (mb_redelivered blk1) = 4"
    "\<And>w. w < 4 \<Longrightarrow> mb_retry blk1 ! w = 0"
    "\<And>w. w < 4 \<Longrightarrow> mb_sparse_ready blk1 ! w = mb_sparse_ready (bs ! ?b) ! w OR mb_retry (bs ! ?b) ! w"
    "\<And>w. w < 4 \<Longrightarrow> mb_redelivered blk1 ! w = mb_redelivered (bs ! ?b) ! w OR mb_retry (bs ! ?b) ! w"
    "mb_inflight blk1 = mb_inflight (bs ! ?b)" "mb_acked blk1 = mb_acked (bs ! ?b)"
    "mb_sparse_word_mask blk1 = mb_sparse_word_mask (bs ! ?b)"
    "mb_retry_link blk1 = mb_retry_link (bs ! ?b)" "mb_sparse_link blk1 = mb_sparse_link (bs ! ?b)"
    using ok_SomeD [OF retry_words_ok [OF l5(3,4,5), of "[0..<4]" moved] rw] mv by (auto simp: atLeast0LessThan)
  define blk2 where "blk2 = blk1\<lparr>mb_retry_word_mask := 0,
    mb_sparse_word_mask := mb_sparse_word_mask blk1 OR mb_retry_word_mask (bs ! ?b)\<rparr>"
  have rb: "block_inv (q_head q) ?b blk2"
    "j < 256 \<Longrightarrow> bstat blk2 j = (if bstat (bs ! ?b) j = Retry then SparseReady else bstat (bs ! ?b) j)" for j
    by (rule retried_block [OF inv [OF b]]; simp add: blk2_def w1)+
  define q1 where "q1 = q\<lparr>q_retry_blocks := l, q_blocks := bs[?b := blk2]\<rparr>"
  have st0: "status ?q = status q"
    by (rule status_relink [OF pl retry_payload_frame(2)]) (use block_index_bound [OF r] in auto)
  have st1: "status q1 = (\<lambda>s. if s div 256 = ?b \<and> status q s = Some Retry then Some SparseReady else status q s)"
  proof
    fix s
    have "status q1 s = (if s div 256 = ?b \<and> s < q_next_seq q then Some (bstat blk2 (s mod 256)) else status ?q s)"
      using status_update_block [of ?b ?q blk2 s] b by (simp add: q1_def)
    moreover have "status ?q s = Some (bstat (bs ! ?b) (s mod 256))" if "s div 256 = ?b" "s < q_next_seq q"
      using that by (simp add: status_def)
    ultimately show "status q1 s = (if s div 256 = ?b \<and> status q s = Some Retry then Some SparseReady else status q s)"
      using rb(2) [of "s mod 256"] st0 status_Some_less [of q s] by auto
  qed
  have "ok (ensure_sparse_listed q1 i) (\<lambda>q'. queue_repr q' rs (if i \<in> set ss then ss else ss @ [i]) \<and>
    same_seqs q1 q' \<and> q_stats q' = q_stats q1 \<and> status q' = status q1 \<and> map mb_retry (q_blocks q') = map mb_retry (q_blocks q1))"
  proof (rule ensure_sparse_listed_ok)
    have lk: "map mb_retry_link (q_blocks q1) = map mb_retry_link bs" "map mb_sparse_link (q_blocks q1) = map mb_sparse_link bs"
      using b by (simp_all add: q1_def map_update blk2_def w1)
    show "members (map mb_retry_link (q_blocks q1)) RETRY_TAG (q_retry_blocks q1) (map mb_retry_word_mask (q_blocks q1)) rs"
      unfolding lk(1)
    proof (rule membersI)
      show "list_repr (map mb_retry_link bs) RETRY_TAG (q_retry_blocks q1) rs" using p by (simp add: retry_popped_def q1_def)
      show "j \<in> set rs \<longleftrightarrow> map mb_retry_word_mask (q_blocks q1) ! as_usize j \<noteq> 0"
        if "as_usize j < length (map mb_retry_link bs)" for j
        using p that by (cases "j = i") (auto simp: retry_popped_def q1_def blk2_def)
    qed (use p in \<open>auto simp: retry_popped_def\<close>)
    have "map mb_sparse_link bs = map mb_sparse_link (q_blocks q)"
      by (rule map_frame [OF pl]) (rule retry_payload_frame(3))
    then show "members (map mb_sparse_link (q_blocks q1)) SPARSE_TAG (q_sparse_blocks q1) (map mb_sparse_word_mask (q_blocks q)) ss"
      unfolding lk(2) using r by (simp add: queue_repr_def q1_def)
    show "block_inv (q_head q1) n (q_blocks q1 ! n)" if "n < length (q_blocks q1)" for n
      using that inv [of n] rb(1) by (cases "n = ?b") (simp_all add: q1_def)
    show "mb_sparse_word_mask (q_blocks q1 ! ?b) \<noteq> 0"
      using p b by (simp add: q1_def blk2_def retry_popped_def or_eq_0_iff)
    show "(map mb_sparse_word_mask (q_blocks q) ! as_usize j = 0) = (mb_sparse_word_mask (q_blocks q1 ! as_usize j) = 0)"
      if "as_usize j < length (q_blocks q1)" "j \<noteq> i" for j
      using that retry_payload_fields(5) [OF pl, of "as_usize j"] len by (simp add: q1_def)
  qed (use r len b in \<open>auto simp: q1_def queue_repr_def\<close>)
  then have "ok (ensure_sparse_listed q1 i) (\<lambda>q'. (\<exists>ss'. queue_repr q' rs ss') \<and> same_seqs q q' \<and> q_stats q' = q_stats q \<and>
      (\<forall>n<length bs. n \<noteq> ?b \<longrightarrow> mb_retry (q_blocks q' ! n) = mb_retry (bs ! n)) \<and>
      status q' = (\<lambda>s. if s div 256 = ?b \<and> status q s = Some Retry then Some SparseReady else status q s))"
  proof (rule ok_mono, elim conjE)
    fix q' assume a: "queue_repr q' rs (if i \<in> set ss then ss else ss @ [i])" "same_seqs q1 q'" "q_stats q' = q_stats q1"
      "status q' = status q1" "map mb_retry (q_blocks q') = map mb_retry (q_blocks q1)"
    have "mb_retry (q_blocks q' ! n) = mb_retry (bs ! n)" if "n < length bs" "n \<noteq> ?b" for n
    proof -
      have "length (q_blocks q') = length bs" using a(5) by (metis length_list_update length_map q1_def HybridRangeBlockQueue.select_convs(4) HybridRangeBlockQueue.update_convs(4) HybridRangeBlockQueue.surjective)
      then have "mb_retry (q_blocks q' ! n) = mb_retry (q_blocks q1 ! n)" using a(5) that by (metis length_map nth_map)
      then show ?thesis using that by (simp add: q1_def)
    qed
    then show "(\<exists>ss'. queue_repr q' rs ss') \<and> same_seqs q q' \<and> q_stats q' = q_stats q \<and>
      (\<forall>n<length bs. n \<noteq> ?b \<longrightarrow> mb_retry (q_blocks q' ! n) = mb_retry (bs ! n)) \<and>
      status q' = (\<lambda>s. if s div 256 = ?b \<and> status q s = Some Retry then Some SparseReady else status q s)"
      using a st1 by (auto simp: same_seqs_def q1_def)
  qed
  moreover have "retry_step ?q i moved = Option.bind (ensure_sparse_listed q1 i) (\<lambda>q'. Some (moved', q'))"
    using b by (simp add: retry_step_def idx_def block_words_eq rw Let_def q1_def blk2_def)
  ultimately show ?thesis by (auto simp: w1(1) elim!: ok_mono)
qed

section \<open>The whole retry list\<close>

definition retry_total :: "MsgBlock list \<Rightarrow> Index list \<Rightarrow> nat" where
  "retry_total bs rs = sum_list (map (\<lambda>i. retry_count [0..<4] (bs ! as_usize i)) rs)"

lemma retry_total_cong:
  assumes "\<And>i. i \<in> set rs \<Longrightarrow> mb_retry (bs ! as_usize i) = mb_retry (bs' ! as_usize i)"
  shows "retry_total bs rs = retry_total bs' rs"
proof -
  have "map (\<lambda>i. retry_count [0..<4] (bs ! as_usize i)) rs = map (\<lambda>i. retry_count [0..<4] (bs' ! as_usize i)) rs"
    using assms by (simp add: retry_count_def)
  then show ?thesis unfolding retry_total_def by metis
qed

lemma no_retry_status:
  assumes r: "queue_repr q [] ss"
  shows "status q s \<noteq> Some Retry"
proof
  assume a: "status q s = Some Retry"
  let ?b = "s div 256"
  have s: "s < q_next_seq q" and bs: "bstat (q_blocks q ! ?b) (s mod 256) = Retry"
    using a by (auto simp: status_def split: if_splits)
  have b: "?b < length (q_blocks q)" using block_index_bound [OF r s] .
  note inv = queue_repr_block [OF r b]
  have "wbit (mb_retry (q_blocks q ! ?b)) (s mod 256)" using bs by (auto simp: bstat_def split: if_splits)
  then have "mb_retry (q_blocks q ! ?b) ! (s mod 256 div 64) \<noteq> 0"
    using wbit_word [OF block_invD(3) [OF inv], of "s mod 256"] by auto
  then have "bit (mb_retry_word_mask (q_blocks q ! ?b)) (s mod 256 div 64)"
    using block_invD(6) [OF inv] word_of_bit [of "s mod 256"] by simp
  then have "mb_retry_word_mask (q_blocks q ! ?b) \<noteq> 0" by auto
  moreover have "as_usize (Index (of_nat ?b + 1)) = ?b" using index_of_block r b by (simp add: queue_repr_def)
  moreover have "as_usize j < length (q_blocks q) \<Longrightarrow> mb_retry_word_mask (q_blocks q ! as_usize j) = 0" for j
    using r by (simp add: queue_repr_def members_def)
  ultimately show False using b by metis
qed

lemma retry_all_loop_ok:
  "queue_repr q rs ss \<Longrightarrow> moved + retry_total (q_blocks q) rs \<le> u32_max \<Longrightarrow>
   ok (retry_all_loop q moved) (\<lambda>(moved', q'). moved' = moved + retry_total (q_blocks q) rs \<and>
     (\<exists>ss'. queue_repr q' [] ss') \<and> same_seqs q q' \<and> q_stats q' = q_stats q \<and>
     status q' = (\<lambda>s. if status q s = Some Retry then Some SparseReady else status q s))"
proof (induction rs arbitrary: q ss moved)
  case Nil
  have "list_repr (map mb_retry_link (q_blocks q)) RETRY_TAG (q_retry_blocks q) []"
    using Nil.prems(1) by (simp add: queue_repr_def members_def)
  then have "il_head (q_retry_blocks q) = None" by (simp add: list_repr_def)
  then have "retry_all_loop q moved = Some (moved, q)" 
    by (subst retry_all_loop.simps) (simp add: pop_front_def)
  moreover have "status q = (\<lambda>s. if status q s = Some Retry then Some SparseReady else status q s)"
    using no_retry_status [OF Nil.prems(1)] by (simp add: fun_eq_iff)
  ultimately show ?case using Nil.prems(1) unfolding ok_Some retry_total_def by auto
next
  case (Cons i rs)
  obtain l bs where p: "pop_front retry_slot RETRY_TAG (q_retry_blocks q) (q_blocks q) = Some (Some i, l, bs)"
    and pp: "retry_popped q i rs l bs" using pop_retry [OF Cons.prems(1)] by (auto elim!: okE)
  let ?c = "retry_count [0..<4] (q_blocks q ! as_usize i)" and ?T = "retry_total (q_blocks q) rs"
  have rt: "mb_retry (bs ! n) = mb_retry (q_blocks q ! n)" if "n < length (q_blocks q)" for n
    by (rule retry_payload_fields(6) [OF _ that]) (use pp in \<open>simp add: retry_popped_def\<close>)
  have lens: "length bs = length (q_blocks q)" "as_usize i < length (q_blocks q)" "i \<notin> set rs"
    using pp by (simp_all add: retry_popped_def)
  have lr: "list_repr (map mb_retry_link (q_blocks q)) RETRY_TAG (q_retry_blocks q) (i # rs)"
    using Cons.prems(1) by (simp add: queue_repr_def members_def)
  have rsb: "as_usize j < length (q_blocks q)" if "j \<in> set rs" for j
    using lr list_repr_bounds [OF lr, of j] that by simp
  have c: "retry_count [0..<4] (bs ! as_usize i) = ?c" using rt lens by (simp add: retry_count_def)
  have tot: "retry_total (q_blocks q) (i # rs) = ?c + ?T" by (simp add: retry_total_def)
  have step: "ok (retry_step (q\<lparr>q_retry_blocks := l, q_blocks := bs\<rparr>) i moved) (\<lambda>(moved', q').
    moved' = moved + ?c \<and>
    (\<exists>ss'. queue_repr q' rs ss') \<and> same_seqs q q' \<and> q_stats q' = q_stats q \<and>
    (\<forall>n<length bs. n \<noteq> as_usize i \<longrightarrow> mb_retry (q_blocks q' ! n) = mb_retry (bs ! n)) \<and>
    status q' = (\<lambda>s. if s div 256 = as_usize i \<and> status q s = Some Retry then Some SparseReady else status q s))"
    using retry_step_ok [OF Cons.prems(1) pp, of moved] Cons.prems(2) tot c by simp
  have rest: "ok (retry_all_loop q1 (moved + ?c)) (\<lambda>(moved', q'). moved' = moved + (?c + ?T) \<and>
     (\<exists>ss'. queue_repr q' [] ss') \<and> same_seqs q q' \<and> q_stats q' = q_stats q \<and>
     status q' = (\<lambda>s. if status q s = Some Retry then Some SparseReady else status q s))"
    if r1: "queue_repr q1 rs ss1" "same_seqs q q1" "q_stats q1 = q_stats q"
      "\<forall>n<length bs. n \<noteq> as_usize i \<longrightarrow> mb_retry (q_blocks q1 ! n) = mb_retry (bs ! n)"
      "status q1 = (\<lambda>s. if s div 256 = as_usize i \<and> status q s = Some Retry then Some SparseReady else status q s)"
    for q1 ss1
  proof -
    have "retry_total (q_blocks q1) rs = ?T"
    proof (rule retry_total_cong)
      fix j assume j: "j \<in> set rs"
      then have "as_usize j \<noteq> as_usize i" using lens(3) as_usize_inj by metis
      then show "mb_retry (q_blocks q1 ! as_usize j) = mb_retry (q_blocks q ! as_usize j)"
        using r1(4) rsb [OF j] rt lens by simp
    qed
    moreover have "(\<lambda>s. if status q1 s = Some Retry then Some SparseReady else status q1 s) =
        (\<lambda>s. if status q s = Some Retry then Some SparseReady else status q s)"
      by (simp add: r1(5) fun_eq_iff)
    ultimately show ?thesis
      using Cons.IH [OF r1(1), of "moved + ?c"] Cons.prems(2) tot r1(3) same_seqs_trans [OF r1(2)]
      by (simp add: add.assoc) (erule ok_mono, clarify, blast)
  qed
  show ?case unfolding retry_all_loop_head [OF p] tot
    unfolding ok_bind
    by (rule ok_mono [OF step], clarsimp, rule rest) assumption+
qed

end
