(* ===== verification/Queue_Count.thy ===== *)
theory Queue_Count
  imports Queue_Retry
begin

text \<open>
  Counting messages by state. \<open>qcount v q\<close> is the number of messages in state \<open>v\<close>;
  \<open>debug_counts\<close> computes these numbers from the bitmaps, and \<open>retry_all_now\<close> returns
  the number of messages that waited for a retry. Every operation moves a list of distinct
  messages from one state to another, so its effect on the numbers is one equation.
\<close>

section \<open>Counting by chunks\<close>

lemma card_chunks:
  "0 < c \<Longrightarrow> card {s :: nat. s < c * n \<and> P s} = (\<Sum>b<n. card {j. j < c \<and> P (c * b + j)})"
proof (induction n)
  case (Suc n)
  let ?A = "{s. s < c * n \<and> P s}" and ?B = "{j. j < c \<and> P (c * n + j)}"
  have "{s. s < c * Suc n \<and> P s} = ?A \<union> (\<lambda>j. c * n + j) ` ?B" (is "?L = ?R")
  proof (intro set_eqI iffI)
    fix s assume s: "s \<in> ?L"
    show "s \<in> ?R"
    proof (cases "s < c * n")
      case False
      then have "s = c * n + (s - c * n)" "s - c * n \<in> ?B" using s by auto
      then show ?thesis by blast
    qed (use s in simp)
  qed auto
  moreover have "card (?A \<union> (\<lambda>j. c * n + j) ` ?B) = card ?A + card ((\<lambda>j. c * n + j) ` ?B)"
    by (rule card_Un_disjoint) auto
  moreover have "card ((\<lambda>j. c * n + j) ` ?B) = card ?B" by (rule card_image) (simp add: inj_on_def)
  ultimately show ?case using Suc by simp
qed simp

lemma card_wbits:
  assumes "length ws = 4"
  shows "sum_list (map (\<lambda>w. count_ones (ws ! w)) [0..<4]) = card {j. j < 256 \<and> wbit ws j}"
proof -
  have "card {j. j < 64 * 4 \<and> wbit ws j} = (\<Sum>w<4. card {i. i < 64 \<and> wbit ws (64 * w + i)})"
    by (rule card_chunks) simp
  also have "\<dots> = (\<Sum>w<4. count_ones (ws ! w))"
  proof (rule sum.cong)
    fix w :: nat assume "w \<in> {..<4}"
    moreover have "i < 64" if "bit (ws ! w) i" for i using bit_imp_le_length [OF that] by simp
    ultimately have "{i. i < 64 \<and> wbit ws (64 * w + i)} = {i. bit (ws ! w) i}"
      using assms by (auto simp: wbit_def)
    then show "card {i. i < 64 \<and> wbit ws (64 * w + i)} = count_ones (ws ! w)" by (simp add: count_ones_card)
  qed simp
  also have "\<dots> = sum_list (map (\<lambda>w. count_ones (ws ! w)) [0..<4])"
    by (simp add: interv_sum_list_conv_sum_set_nat atLeast0LessThan)
  finally show ?thesis by simp
qed

section \<open>The number of messages in a state\<close>

definition qcount :: "MessageState \<Rightarrow> HybridRangeBlockQueue \<Rightarrow> nat" where
  "qcount v q = card {s. status q s = Some v}"

lemma finite_status [simp]: "finite {s. status q s = Some v}"
  by (rule finite_subset [of _ "{..<q_next_seq q}"]) (use status_Some_less in blast)+

lemma qcount_Ready: "queue_repr q rs ss \<Longrightarrow> qcount Ready q = q_next_seq q - q_head q"
proof -
  assume r: "queue_repr q rs ss"
  have "{s. status q s = Some Ready} = {q_head q..<q_next_seq q}"
    unfolding status_Ready_iff [OF r] by auto
  then show ?thesis by (simp add: qcount_def)
qed

lemma qcount_blocks:
  assumes r: "queue_repr q rs ss" and "v \<noteq> Ready"
  shows "qcount v q = (\<Sum>b<length (q_blocks q). card {j. j < 256 \<and> bstat (q_blocks q ! b) j = v})"
proof -
  let ?n = "length (q_blocks q)"
  have "s < 256 * ?n \<and> bstat (q_blocks q ! (s div 256)) (s mod 256) = v \<longleftrightarrow> status q s = Some v" for s
  proof
    assume a: "s < 256 * ?n \<and> bstat (q_blocks q ! (s div 256)) (s mod 256) = v"
    then have "s div 256 < ?n" by (simp add: less_mult_imp_div_less mult.commute)
    then have "\<not> q_head q \<le> 256 * (s div 256) + s mod 256"
      using block_inv_bits(7) [OF queue_repr_block [OF r], of "s div 256" "s mod 256"] a assms(2) by simp
    then have "s < q_next_seq q" using r by (simp add: queue_repr_def)
    then show "status q s = Some v" using a by (simp add: status_def)
  next
    assume "status q s = Some v"
    then have "s < q_next_seq q" "bstat (q_blocks q ! (s div 256)) (s mod 256) = v"
      by (auto simp: status_def split: if_splits)
    moreover from this(1) have "s div 256 < ?n" by (rule block_index_bound [OF r])
    ultimately show "s < 256 * ?n \<and> bstat (q_blocks q ! (s div 256)) (s mod 256) = v" by linarith
  qed
  then have "{s. status q s = Some v} = {s. s < 256 * ?n \<and> bstat (q_blocks q ! (s div 256)) (s mod 256) = v}"
    by blast
  then have "qcount v q = (\<Sum>b<?n. card {j. j < 256 \<and> bstat (q_blocks q ! ((256 * b + j) div 256)) ((256 * b + j) mod 256) = v})"
    unfolding qcount_def by (simp only:) (rule card_chunks, simp)
  also have "\<dots> = (\<Sum>b<?n. card {j. j < 256 \<and> bstat (q_blocks q ! b) j = v})"
    by (intro sum.cong arg_cong [of _ _ card] Collect_cong conj_cong refl) auto
  finally show ?thesis .
qed

lemma qcount_conserved:
  assumes r: "queue_repr q rs ss"
  shows "qcount Ready q + qcount SparseReady q + qcount Inflight q + qcount Acked q + qcount Retry q = q_next_seq q"
proof -
  let ?S = "\<lambda>v. {s. status q s = Some v}"
  have "s \<in> ?S Ready \<union> ?S SparseReady \<union> ?S Inflight \<union> ?S Acked \<union> ?S Retry \<longleftrightarrow> s < q_next_seq q" for s
    by (cases "bstat (q_blocks q ! (s div 256)) (s mod 256)") (auto simp: status_def)
  then have "{..<q_next_seq q} = ?S Ready \<union> ?S SparseReady \<union> ?S Inflight \<union> ?S Acked \<union> ?S Retry" by blast
  then have "q_next_seq q = card (?S Ready \<union> ?S SparseReady \<union> ?S Inflight \<union> ?S Acked \<union> ?S Retry)"
    by (metis card_lessThan)
  moreover have "card (?S Ready \<union> ?S SparseReady \<union> ?S Inflight \<union> ?S Acked \<union> ?S Retry) =
      card (?S Ready) + card (?S SparseReady) + card (?S Inflight) + card (?S Acked) + card (?S Retry)"
    by (subst card_Un_disjoint; (auto; fail)?)+
  ultimately show ?thesis unfolding qcount_def by simp
qed

text \<open>Moving distinct messages from state \<open>u\<close> to state \<open>v\<close>.\<close>

lemma qcount_move:
  assumes st: "status q' = (\<lambda>s. if s \<in> S then Some v else status q s)"
    and S: "\<And>s. s \<in> S \<Longrightarrow> status q s = Some u" and "u \<noteq> v"
  shows "qcount v q' = qcount v q + card S" "qcount u q = qcount u q' + card S"
    "w \<noteq> u \<Longrightarrow> w \<noteq> v \<Longrightarrow> qcount w q' = qcount w q"
proof -
  have f: "finite S" by (rule finite_subset [of _ "{s. status q s = Some u}"]) (use S in auto)
  have "{s. status q' s = Some v} = {s. status q s = Some v} \<union> S" using st by auto
  moreover have "{s. status q s = Some v} \<inter> S = {}" using S assms(3) by auto
  ultimately show "qcount v q' = qcount v q + card S"
    unfolding qcount_def using f by (simp add: card_Un_disjoint)
  have "{s. status q s = Some u} = {s. status q' s = Some u} \<union> S" using st S assms(3) by auto
  moreover have "{s. status q' s = Some u} \<inter> S = {}" using st assms(3) by auto
  ultimately show "qcount u q = qcount u q' + card S"
    unfolding qcount_def using f by (simp add: card_Un_disjoint)
  assume "w \<noteq> u" "w \<noteq> v"
  then have "{s. status q' s = Some w} = {s. status q s = Some w}" using st S by auto
  then show "qcount w q' = qcount w q" by (simp add: qcount_def)
qed

section \<open>\<open>debug_counts\<close>\<close>

abbreviation (input) words_count :: "(MsgBlock \<Rightarrow> 64 word list) \<Rightarrow> MsgBlock \<Rightarrow> nat list \<Rightarrow> nat" where
  "words_count f blk ws \<equiv> sum_list (map (\<lambda>w. count_ones (f blk ! w)) ws)"

lemma count_words_ok:
  "block_inv h b blk \<Longrightarrow> set ws \<subseteq> {..<4} \<Longrightarrow>
   s + 64 * length ws \<le> u64_max \<Longrightarrow> f + 64 * length ws \<le> u64_max \<Longrightarrow>
   a + 64 * length ws \<le> u64_max \<Longrightarrow> r + 64 * length ws \<le> u64_max \<Longrightarrow>
   count_words blk ws (s, f, a, r) = Some (s + words_count mb_sparse_ready blk ws, f + words_count mb_inflight blk ws,
     a + words_count mb_acked blk ws, r + words_count mb_retry blk ws)"
proof (induction ws arbitrary: s f a r)
  case (Cons w ws)
  have w: "w < 4" using Cons.prems by simp
  note l = block_invD(1-5) [OF Cons.prems(1)]
  have le: "count_ones x \<le> 64" for x :: "64 word" using count_ones_le [of x] by simp
  have m: "mb_retry_word_mask blk AND push_bit w 1 \<noteq> 0 \<longleftrightarrow> mb_retry blk ! w \<noteq> 0"
    "mb_sparse_word_mask blk AND push_bit w 1 \<noteq> 0 \<longleftrightarrow> mb_sparse_ready blk ! w \<noteq> 0"
    using w block_invD(6,7) [OF Cons.prems(1), of w] by (simp_all add: and_exp_eq_0_iff_not_bit)
  have add: "add_u64 x (count_ones y) = Some (x + count_ones y)" if "x + 64 * length (w # ws) \<le> u64_max"
    for x and y :: "64 word" using that le [of y] by (simp add: add_u64_def)
  have "count_words blk (w # ws) (s, f, a, r) = count_words blk ws (s + count_ones (mb_sparse_ready blk ! w),
      f + count_ones (mb_inflight blk ! w), a + count_ones (mb_acked blk ! w), r + count_ones (mb_retry blk ! w))"
    using w l m add [OF Cons.prems(3)] add [OF Cons.prems(4)] add [OF Cons.prems(5)] add [OF Cons.prems(6)]
    by (simp add: idx_def shl_u8_def)
  also have "\<dots> = Some (s + count_ones (mb_sparse_ready blk ! w) + words_count mb_sparse_ready blk ws,
      f + count_ones (mb_inflight blk ! w) + words_count mb_inflight blk ws,
      a + count_ones (mb_acked blk ! w) + words_count mb_acked blk ws,
      r + count_ones (mb_retry blk ! w) + words_count mb_retry blk ws)"
  proof (rule Cons.IH [OF Cons.prems(1)])
    show "set ws \<subseteq> {..<4}" using Cons.prems(2) by simp
    show "s + count_ones (mb_sparse_ready blk ! w) + 64 * length ws \<le> u64_max"
      using Cons.prems(3) le [of "mb_sparse_ready blk ! w"] by simp
    show "f + count_ones (mb_inflight blk ! w) + 64 * length ws \<le> u64_max"
      using Cons.prems(4) le [of "mb_inflight blk ! w"] by simp
    show "a + count_ones (mb_acked blk ! w) + 64 * length ws \<le> u64_max"
      using Cons.prems(5) le [of "mb_acked blk ! w"] by simp
    show "r + count_ones (mb_retry blk ! w) + 64 * length ws \<le> u64_max"
      using Cons.prems(6) le [of "mb_retry blk ! w"] by simp
  qed
  finally show ?case by (simp add: add.assoc)
qed simp

definition block_count :: "MessageState \<Rightarrow> MsgBlock \<Rightarrow> nat" where
  "block_count v blk = card {j. j < 256 \<and> bstat blk j = v}"

lemma block_count_words:
  assumes "block_inv h b blk"
  shows "words_count mb_sparse_ready blk [0..<4] = block_count SparseReady blk"
    "words_count mb_inflight blk [0..<4] = block_count Inflight blk"
    "words_count mb_acked blk [0..<4] = block_count Acked blk"
    "words_count mb_retry blk [0..<4] = block_count Retry blk"
proof -
  note l = block_invD(1-5) [OF assms] and bits = block_inv_bits(3-6) [OF assms]
  have "{j. j < 256 \<and> bstat blk j = SparseReady} = {j. j < 256 \<and> wbit (mb_sparse_ready blk) j}"
    "{j. j < 256 \<and> bstat blk j = Inflight} = {j. j < 256 \<and> wbit (mb_inflight blk) j}"
    "{j. j < 256 \<and> bstat blk j = Acked} = {j. j < 256 \<and> wbit (mb_acked blk) j}"
    "{j. j < 256 \<and> bstat blk j = Retry} = {j. j < 256 \<and> wbit (mb_retry blk) j}"
    using bits by auto
  then show "words_count mb_sparse_ready blk [0..<4] = block_count SparseReady blk"
    "words_count mb_inflight blk [0..<4] = block_count Inflight blk"
    "words_count mb_acked blk [0..<4] = block_count Acked blk"
    "words_count mb_retry blk [0..<4] = block_count Retry blk"
    unfolding block_count_def by (simp_all only: card_wbits [OF l(1)] card_wbits [OF l(2)] card_wbits [OF l(3)] card_wbits [OF l(4)])
qed

lemma block_count_le: "block_count v blk \<le> 256"
  unfolding block_count_def by (rule order_trans [OF card_mono [of "{..<256}"]]) auto

lemma count_blocks_ok:
  "(\<forall>i<length bs. \<exists>b. block_inv h b (bs ! i)) \<Longrightarrow>
   s + 256 * length bs \<le> u64_max \<Longrightarrow> f + 256 * length bs \<le> u64_max \<Longrightarrow>
   a + 256 * length bs \<le> u64_max \<Longrightarrow> r + 256 * length bs \<le> u64_max \<Longrightarrow>
   count_blocks bs (s, f, a, r) =
     Some (s + sum_list (map (block_count SparseReady) bs), f + sum_list (map (block_count Inflight) bs),
       a + sum_list (map (block_count Acked) bs), r + sum_list (map (block_count Retry) bs))"
proof (induction bs arbitrary: s f a r)
  case (Cons blk bs)
  obtain b where inv: "block_inv h b blk" using Cons.prems(1) by fastforce
  have rest: "\<forall>i<length bs. \<exists>b. block_inv h b (bs ! i)" using Cons.prems(1) by fastforce
  note le = block_count_le [of SparseReady blk] block_count_le [of Inflight blk] block_count_le [of Acked blk]
    block_count_le [of Retry blk]
  have "count_words blk [0..<4] (s, f, a, r) = Some (s + block_count SparseReady blk, f + block_count Inflight blk,
      a + block_count Acked blk, r + block_count Retry blk)"
    using count_words_ok [OF inv, of "[0..<4]" s f a r] Cons.prems(2-5)
    by (simp add: block_count_words [OF inv] atLeast0LessThan)
  moreover have "count_blocks bs (s + block_count SparseReady blk, f + block_count Inflight blk,
      a + block_count Acked blk, r + block_count Retry blk) =
    Some (s + block_count SparseReady blk + sum_list (map (block_count SparseReady) bs),
      f + block_count Inflight blk + sum_list (map (block_count Inflight) bs),
      a + block_count Acked blk + sum_list (map (block_count Acked) bs),
      r + block_count Retry blk + sum_list (map (block_count Retry) bs))"
    by (rule Cons.IH [OF rest]) (use Cons.prems(2-5) le in simp_all)
  ultimately show ?case by (simp add: block_words_eq add.assoc)
qed simp

lemma qcount_sum_list:
  assumes r: "queue_repr q rs ss" and "v \<noteq> Ready"
  shows "qcount v q = sum_list (map (block_count v) (q_blocks q))"
proof -
  have "sum_list (map (block_count v) (q_blocks q)) = (\<Sum>b<length (q_blocks q). block_count v (q_blocks q ! b))"
    by (simp add: sum_list_sum_nth atLeast0LessThan)
  then show ?thesis using qcount_blocks [OF assms] by (simp add: block_count_def)
qed

lemma debug_counts_ok:
  assumes r: "queue_repr q rs ss"
  shows "debug_counts q = Some \<lparr>qc_published = q_next_seq q, qc_ready = qcount Ready q + qcount SparseReady q,
    qc_inflight = qcount Inflight q, qc_acked = qcount Acked q, qc_retry = qcount Retry q\<rparr>"
proof -
  have "256 * length (q_blocks q) \<le> u64_max"
    using r by (simp add: queue_repr_def u32_max_def u64_max_def)
  moreover have "\<forall>i<length (q_blocks q). \<exists>b. block_inv (q_head q) b (q_blocks q ! i)"
    using queue_repr_block [OF r] by blast
  ultimately have "count_blocks (q_blocks q) (0, 0, 0, 0) =
      Some (qcount SparseReady q, qcount Inflight q, qcount Acked q, qcount Retry q)"
    using count_blocks_ok [of "q_blocks q" "q_head q" 0 0 0 0] by (simp add: qcount_sum_list [OF r])
  moreover have "qcount Ready q + qcount SparseReady q \<le> u64_max"
    using qcount_conserved [OF r] repr_seq_bound [OF r] by (simp add: u32_max_def u64_max_def)
  moreover have "q_tail q - q_head q = qcount Ready q" "q_head q \<le> q_tail q"
    using r by (simp_all add: qcount_Ready [OF r] queue_repr_def)
  ultimately show ?thesis by (simp add: debug_counts_def sequential_ready_len_def add_u64_def)
qed

section \<open>\<open>retry_all_now\<close>\<close>

lemma retry_total_count:
  assumes r: "queue_repr q rs ss"
  shows "retry_total (q_blocks q) rs = qcount Retry q"
proof -
  let ?bs = "q_blocks q" and ?g = "\<lambda>b. block_count Retry (q_blocks q ! b)"
  have lr: "list_repr (map mb_retry_link ?bs) RETRY_TAG (q_retry_blocks q) rs"
    and mem: "\<And>i. as_usize i < length ?bs \<Longrightarrow> i \<in> set rs \<longleftrightarrow> mb_retry_word_mask (?bs ! as_usize i) \<noteq> 0"
    using r by (simp_all add: queue_repr_def members_def)
  have bnd: "as_usize i < length ?bs" if "i \<in> set rs" for i using list_repr_bounds [OF lr that] by simp
  have d: "distinct rs" using lr by (simp add: list_repr_def)
  have "retry_total ?bs rs = sum_list (map (\<lambda>i. ?g (as_usize i)) rs)"
    unfolding retry_total_def retry_count_def
    by (rule arg_cong [of _ _ sum_list], rule map_cong [OF refl]) (use bnd block_count_words(4) queue_repr_block [OF r] in blast)
  also have "\<dots> = (\<Sum>b\<in>as_usize ` set rs. ?g b)"
    by (simp add: sum_list_distinct_conv_sum_set [OF d] sum.reindex inj_on_def)
  also have "\<dots> = (\<Sum>b<length ?bs. ?g b)"
  proof (rule sum.mono_neutral_left)
    show "\<forall>b\<in>{..<length ?bs} - as_usize ` set rs. ?g b = 0"
    proof
      fix b assume b: "b \<in> {..<length ?bs} - as_usize ` set rs"
      have "as_usize (Index (of_nat b + 1)) = b" using index_of_block r b by (simp add: queue_repr_def)
      then have z: "mb_retry_word_mask (?bs ! b) = 0" using mem [of "Index (of_nat b + 1)"] b by (metis DiffE imageI lessThan_iff)
      have inv: "block_inv (q_head q) b (?bs ! b)" using queue_repr_block [OF r] b by simp
      have "words_count mb_retry (?bs ! b) [0..<4] = 0" using block_invD(6) [OF inv] z by auto
      then show "?g b = 0" using block_count_words(4) [OF inv] by simp
    qed
  qed (use bnd in auto)
  also have "\<dots> = qcount Retry q" using qcount_blocks [OF r, of Retry] by (simp add: block_count_def)
  finally show ?thesis .
qed

lemma retry_all_now_ok:
  assumes r: "queue_repr q rs ss" and mv: "qcount Retry q \<le> u32_max"
    and st: "total_retried (q_stats q) + qcount Retry q \<le> u64_max"
  shows "ok (retry_all_now q) (\<lambda>(moved, q'). moved = qcount Retry q \<and> (\<exists>ss'. queue_repr q' [] ss') \<and> same_seqs q q' \<and>
    q_stats q' = (q_stats q)\<lparr>total_retried := total_retried (q_stats q) + qcount Retry q\<rparr> \<and>
    status q' = (\<lambda>s. if status q s = Some Retry then Some SparseReady else status q s))"
proof -
  have "ok (retry_all_loop q 0) (\<lambda>(moved, q'). moved = qcount Retry q \<and> (\<exists>ss'. queue_repr q' [] ss') \<and> same_seqs q q' \<and>
     q_stats q' = q_stats q \<and> status q' = (\<lambda>s. if status q s = Some Retry then Some SparseReady else status q s))"
    using retry_all_loop_ok [OF r, of 0] mv by (simp add: retry_total_count [OF r])
  then show ?thesis
    using st unfolding retry_all_now_def ok_bind
    by (elim ok_mono) (clarify, simp add: bump_retried_def add_u64_def, rule exI, simp)
qed

end
