(* ===== verification/Model_Queue.thy ===== *)
theory Model_Queue
  imports Queue_Count
begin

text \<open>
  \<open>crates/aurum-core/src/queue/model.rs\<close>: the reference queue, one state per message and
  an explicit double-ended queue of the sparse messages. \<open>simulates q m\<close> relates the hybrid
  queue to it. Every operation of the hybrid queue is simulated by the operation of the same name
  of the reference queue, \<open>deliver\<close> up to the order in which the reference queue holds its
  sparse messages: the hybrid queue keeps them by block, in the order in which the blocks were
  nacked.
\<close>

section \<open>The reference queue\<close>

record ModelQueue =
  m_states :: "MessageState list"
  m_sequential_head :: nat
  m_sequential_tail :: nat
  m_sparse_ready :: "nat list"

definition model_new :: ModelQueue where
  "model_new = \<lparr>m_states = [], m_sequential_head = 0, m_sequential_tail = 0, m_sparse_ready = []\<rparr>"

function grow_states :: "MessageState list \<Rightarrow> nat \<Rightarrow> MessageState list" where
  "grow_states states stop = (if length states < stop then grow_states (states @ [Ready]) stop else states)"
  by pat_completeness auto
termination
  by (relation "measure (\<lambda>(states, stop). stop - length states)") auto

declare grow_states.simps [simp del]

definition model_publish :: "ModelQueue \<Rightarrow> nat \<Rightarrow> ModelQueue option" where
  "model_publish m count = do {
     stop \<leftarrow> add_u64 (m_sequential_tail m) count;
     Some (m\<lparr>m_states := grow_states (m_states m) stop, m_sequential_tail := stop\<rparr>)
   }"

definition model_with_messages :: "nat \<Rightarrow> ModelQueue option" where
  "model_with_messages total_messages = model_publish model_new total_messages"

definition model_publish_contiguous :: "ModelQueue \<Rightarrow> nat \<Rightarrow> (nat \<times> ModelQueue) option" where
  "model_publish_contiguous m count = do {
     let start = m_sequential_tail m;
     m \<leftarrow> model_publish m count;
     Some (start, m)
   }"

function deliver_sequential :: "ModelQueue \<Rightarrow> nat \<Rightarrow> nat list \<Rightarrow> (ModelQueue \<times> nat \<times> nat list) option" where
  "deliver_sequential m remaining out =
     (if remaining > 0 \<and> m_sequential_head m < m_sequential_tail m then do {
        let seq = m_sequential_head m;
        states \<leftarrow> upd (m_states m) seq (\<lambda>_. Inflight);
        h \<leftarrow> add_u64 seq 1;
        deliver_sequential (m\<lparr>m_states := states, m_sequential_head := h\<rparr>) (remaining - 1) (out @ [seq])
      } else Some (m, remaining, out))"
  by pat_completeness auto
termination
  by (relation "measure (\<lambda>(m, remaining, out). remaining)") auto

declare deliver_sequential.simps [simp del]

function deliver_retried :: "ModelQueue \<Rightarrow> nat \<Rightarrow> nat list \<Rightarrow> (ModelQueue \<times> nat list) option" where
  "deliver_retried m remaining out =
     (if remaining > 0 then
        (case m_sparse_ready m of
           seq # rest \<Rightarrow> do {
             states \<leftarrow> upd (m_states m) seq (\<lambda>_. Inflight);
             deliver_retried (m\<lparr>m_states := states, m_sparse_ready := rest\<rparr>) (remaining - 1) (out @ [seq])
           }
         | [] \<Rightarrow> Some (m, out))
      else Some (m, out))"
  by pat_completeness auto
termination
  by (relation "measure (\<lambda>(m, remaining, out). remaining)") auto

declare deliver_retried.simps [simp del]

definition model_deliver :: "ModelQueue \<Rightarrow> nat \<Rightarrow> (nat list \<times> ModelQueue) option" where
  "model_deliver m max_messages = do {
     (m, remaining, out) \<leftarrow> deliver_sequential m max_messages [];
     (m, out) \<leftarrow> deliver_retried m remaining out;
     Some (out, m)
   }"

text \<open>The loop body that \<open>ack_range\<close> and \<open>nack_range_to_retry\<close> share.\<close>

definition set_state :: "MessageState \<Rightarrow> nat \<Rightarrow> ModelQueue \<Rightarrow> ModelQueue" where
  "set_state v seq m = (if seq < length (m_states m) then m\<lparr>m_states := (m_states m)[seq := v]\<rparr> else m)"

definition model_ack_range :: "ModelQueue \<Rightarrow> nat \<Rightarrow> nat \<Rightarrow> ModelQueue option" where
  "model_ack_range m start n = do {
     stop \<leftarrow> add_u64 start n;
     Some (fold (set_state Acked) [start..<stop] m)
   }"

definition model_ack_id :: "ModelQueue \<Rightarrow> nat \<Rightarrow> ModelQueue" where
  "model_ack_id m seq = set_state Acked seq m"

definition model_nack_range_to_retry :: "ModelQueue \<Rightarrow> nat \<Rightarrow> nat \<Rightarrow> ModelQueue option" where
  "model_nack_range_to_retry m start n = do {
     stop \<leftarrow> add_u64 start n;
     Some (fold (set_state Retry) [start..<stop] m)
   }"

definition model_nack_id_to_retry :: "ModelQueue \<Rightarrow> nat \<Rightarrow> ModelQueue" where
  "model_nack_id_to_retry m seq = set_state Retry seq m"

fun model_retry_loop :: "nat list \<Rightarrow> ModelQueue \<Rightarrow> nat \<Rightarrow> (nat \<times> ModelQueue) option" where
  "model_retry_loop [] m count = Some (count, m)"
| "model_retry_loop (seq # seqs) m count = do {
     st \<leftarrow> idx (m_states m) seq;
     (if st = Retry then do {
        states \<leftarrow> upd (m_states m) seq (\<lambda>_. SparseReady);
        count \<leftarrow> add_u32 count 1;
        model_retry_loop seqs (m\<lparr>m_states := states, m_sparse_ready := m_sparse_ready m @ [seq]\<rparr>) count
      } else model_retry_loop seqs m count)
   }"

definition model_retry_all_now :: "ModelQueue \<Rightarrow> (nat \<times> ModelQueue) option" where
  "model_retry_all_now m = model_retry_loop [0..<length (m_states m)] m 0"

fun count_state :: "MessageState \<Rightarrow> QueueCounts \<Rightarrow> QueueCounts option" where
  "count_state Ready c = do { n \<leftarrow> add_u64 (qc_ready c) 1; Some (c\<lparr>qc_ready := n\<rparr>) }"
| "count_state SparseReady c = do { n \<leftarrow> add_u64 (qc_ready c) 1; Some (c\<lparr>qc_ready := n\<rparr>) }"
| "count_state Inflight c = do { n \<leftarrow> add_u64 (qc_inflight c) 1; Some (c\<lparr>qc_inflight := n\<rparr>) }"
| "count_state Acked c = do { n \<leftarrow> add_u64 (qc_acked c) 1; Some (c\<lparr>qc_acked := n\<rparr>) }"
| "count_state Retry c = do { n \<leftarrow> add_u64 (qc_retry c) 1; Some (c\<lparr>qc_retry := n\<rparr>) }"

fun count_states :: "MessageState list \<Rightarrow> QueueCounts \<Rightarrow> QueueCounts option" where
  "count_states [] c = Some c"
| "count_states (s # ss) c = do { c \<leftarrow> count_state s c; count_states ss c }"

definition model_counts :: "ModelQueue \<Rightarrow> QueueCounts option" where
  "model_counts m = count_states (m_states m)
     \<lparr>qc_published = length (m_states m), qc_ready = 0, qc_inflight = 0, qc_acked = 0, qc_retry = 0\<rparr>"

definition state_of :: "ModelQueue \<Rightarrow> nat \<Rightarrow> MessageState option" where
  "state_of m seq = (if seq < length (m_states m) then Some (m_states m ! seq) else None)"

section \<open>What the operations of the reference queue do\<close>

definition model_wf :: "ModelQueue \<Rightarrow> bool" where
  "model_wf m \<longleftrightarrow> m_sequential_head m \<le> m_sequential_tail m \<and> m_sequential_tail m = length (m_states m) \<and>
     distinct (m_sparse_ready m) \<and> (\<forall>s. s \<in> set (m_sparse_ready m) \<longleftrightarrow> state_of m s = Some SparseReady)"

lemma grow_states_eq: "grow_states states stop = states @ replicate (stop - length states) Ready"
proof (induction states stop rule: grow_states.induct)
  case (1 states stop)
  show ?case
  proof (cases "length states < stop")
    case True
    then have "stop - length states = Suc (stop - length (states @ [Ready]))" by simp
    with True 1 show ?thesis by (subst grow_states.simps) simp
  qed (simp add: grow_states.simps)
qed

lemma deliver_sequential_eq:
  "m_sequential_tail m = length (m_states m) \<Longrightarrow> m_sequential_head m \<le> m_sequential_tail m \<Longrightarrow>
   length (m_states m) \<le> u64_max \<Longrightarrow> k = min remaining (m_sequential_tail m - m_sequential_head m) \<Longrightarrow>
   deliver_sequential m remaining out =
     Some (m\<lparr>m_states := fold (\<lambda>s xs. xs[s := Inflight]) [m_sequential_head m..<m_sequential_head m + k] (m_states m),
             m_sequential_head := m_sequential_head m + k\<rparr>,
           remaining - k, out @ [m_sequential_head m..<m_sequential_head m + k])"
proof (induction m remaining out arbitrary: k rule: deliver_sequential.induct)
  case (1 m remaining out)
  let ?h = "m_sequential_head m"
  show ?case
  proof (cases "remaining > 0 \<and> ?h < m_sequential_tail m")
    case True
    then obtain k' where k': "k = Suc k'" "k' = min (remaining - 1) (m_sequential_tail m - Suc ?h)"
      using 1(5) by (cases k) auto
    let ?m = "m\<lparr>m_states := (m_states m)[?h := Inflight], m_sequential_head := Suc ?h\<rparr>"
    have "deliver_sequential m remaining out = deliver_sequential ?m (remaining - 1) (out @ [?h])"
      using True 1(2-4) by (subst deliver_sequential.simps) (simp add: upd_def add_u64_def Let_def)
    moreover have "deliver_sequential ?m (remaining - 1) (out @ [?h]) = Some (?m\<lparr>m_states := fold (\<lambda>s xs. xs[s := Inflight]) [Suc ?h..<Suc ?h + k'] (m_states ?m),
             m_sequential_head := Suc ?h + k'\<rparr>, remaining - 1 - k', (out @ [?h]) @ [Suc ?h..<Suc ?h + k'])"
      using 1(1) [OF True refl, of "(m_states m)[?h := Inflight]" "Suc ?h" k'] True 1(2-4) k'
      by (simp add: upd_def add_u64_def)
    moreover have "[?h..<?h + k] = ?h # [Suc ?h..<Suc ?h + k']"
      by (simp add: k'(1) upt_conv_Cons del: upt_Suc)
    ultimately show ?thesis by (simp add: k'(1) del: upt_Suc)
  next
    case False
    then have "k = 0" using 1(3,5) by auto
    then show ?thesis using False by (subst deliver_sequential.simps) auto
  qed
qed

lemma deliver_retried_eq:
  "\<forall>s\<in>set (m_sparse_ready m). s < length (m_states m) \<Longrightarrow>
   deliver_retried m remaining out =
     Some (m\<lparr>m_states := fold (\<lambda>s xs. xs[s := Inflight]) (take remaining (m_sparse_ready m)) (m_states m),
             m_sparse_ready := drop remaining (m_sparse_ready m)\<rparr>,
           out @ take remaining (m_sparse_ready m))"
proof (induction m remaining out rule: deliver_retried.induct)
  case (1 m remaining out)
  show ?case
  proof (cases "remaining > 0 \<and> m_sparse_ready m \<noteq> []")
    case True
    then obtain s rest r where e: "m_sparse_ready m = s # rest" "remaining = Suc r"
      by (cases "m_sparse_ready m"; cases remaining) auto
    then show ?thesis using 1 by (subst deliver_retried.simps) (simp add: upd_def)
  next
    case False
    then show ?thesis by (subst deliver_retried.simps) auto
  qed
qed

lemma fold_update_length [simp]: "length (fold (\<lambda>s xs. xs[s := v]) ss xs) = length xs"
  by (induction ss arbitrary: xs) simp_all

lemma fold_update_nth:
  "i < length xs \<Longrightarrow> fold (\<lambda>s xs. xs[s := v]) ss xs ! i = (if i \<in> set ss then v else xs ! i)"
  by (induction ss arbitrary: xs) (auto simp: nth_list_update)

lemma state_of_Some_less: "state_of m s = Some v \<Longrightarrow> s < length (m_states m)"
  by (simp add: state_of_def split: if_splits)

lemma state_of_fold:
  "state_of (m\<lparr>m_states := fold (\<lambda>s xs. xs[s := v]) ss (m_states m)\<rparr>) s =
     (if s \<in> set ss \<and> s < length (m_states m) then Some v else state_of m s)"
  by (simp add: state_of_def fold_update_nth)

lemma fold_set_state:
  "fold (set_state v) ss m = m\<lparr>m_states := fold (\<lambda>s xs. xs[s := v]) ss (m_states m)\<rparr>"
  by (induction ss arbitrary: m) (simp_all add: set_state_def list_update_beyond)

lemma model_deliver_ok:
  assumes wf: "model_wf m" and len: "length (m_states m) \<le> u64_max"
    and k: "k = min n (m_sequential_tail m - m_sequential_head m)"
    and out: "out = [m_sequential_head m..<m_sequential_head m + k] @ take (n - k) (m_sparse_ready m)"
  shows "ok (model_deliver m n) (\<lambda>(out', m'). out' = out \<and> m_sequential_head m' = m_sequential_head m + k \<and>
    m_sequential_tail m' = m_sequential_tail m \<and> m_sparse_ready m' = drop (n - k) (m_sparse_ready m) \<and>
    length (m_states m') = length (m_states m) \<and>
    state_of m' = (\<lambda>s. if s \<in> set out then Some Inflight else state_of m s))"
proof -
  let ?h = "m_sequential_head m" and ?sp = "m_sparse_ready m" and ?f = "\<lambda>ss xs. fold (\<lambda>s xs. xs[s := Inflight]) ss xs"
  let ?m1 = "m\<lparr>m_states := ?f [?h..<?h + k] (m_states m), m_sequential_head := ?h + k\<rparr>"
  have sp: "\<forall>s\<in>set ?sp. s < length (m_states m)" using wf state_of_Some_less by (auto simp: model_wf_def)
  have "deliver_sequential m n [] = Some (?m1, n - k, [?h..<?h + k])"
    using deliver_sequential_eq [of m k n "[]"] wf len k by (simp add: model_wf_def)
  moreover have "deliver_retried ?m1 (n - k) [?h..<?h + k] =
      Some (?m1\<lparr>m_states := ?f (take (n - k) ?sp) (m_states ?m1), m_sparse_ready := drop (n - k) ?sp\<rparr>, out)"
    using deliver_retried_eq [of ?m1 "n - k"] sp by (simp add: out)
  ultimately have "model_deliver m n =
      Some (out, m\<lparr>m_states := ?f out (m_states m), m_sequential_head := ?h + k, m_sparse_ready := drop (n - k) ?sp\<rparr>)"
    by (simp add: model_deliver_def out)
  moreover have "s < length (m_states m)" if "s \<in> set out" for s
    using that sp wf k by (auto simp: out model_wf_def dest: in_set_takeD)
  ultimately show ?thesis by (auto simp: state_of_def fold_update_nth fun_eq_iff)
qed

lemma model_retry_loop_ok:
  "distinct seqs \<Longrightarrow> \<forall>s\<in>set seqs. s < length (m_states m) \<Longrightarrow>
   ret = filter (\<lambda>s. m_states m ! s = Retry) seqs \<Longrightarrow> count + length ret \<le> u32_max \<Longrightarrow>
   model_retry_loop seqs m count = Some (count + length ret,
     m\<lparr>m_states := fold (\<lambda>s xs. xs[s := SparseReady]) ret (m_states m), m_sparse_ready := m_sparse_ready m @ ret\<rparr>)"
proof (induction seqs arbitrary: m count ret)
  case (Cons s seqs)
  show ?case
  proof (cases "m_states m ! s = Retry")
    case True
    let ?m = "m\<lparr>m_states := (m_states m)[s := SparseReady], m_sparse_ready := m_sparse_ready m @ [s]\<rparr>"
    define ret' where "ret' = filter (\<lambda>x. m_states m ! x = Retry) seqs"
    have "filter (\<lambda>x. m_states ?m ! x = Retry) seqs = ret'"
      unfolding ret'_def using Cons.prems(1) 
      by (intro filter_cong refl) (simp, metis nth_list_update_neq)
    then have "model_retry_loop seqs ?m (Suc count) = Some (Suc count + length ret',
        ?m\<lparr>m_states := fold (\<lambda>s xs. xs[s := SparseReady]) ret' (m_states ?m), m_sparse_ready := m_sparse_ready ?m @ ret'\<rparr>)"
      using Cons.prems True by (intro Cons.IH) (auto simp: ret'_def)
    moreover have "ret = s # ret'" using Cons.prems(3) True by (simp add: ret'_def)
    ultimately show ?thesis using Cons.prems True by (simp add: idx_def upd_def add_u32_def)
  next
    case False
    then show ?thesis using Cons by (simp add: idx_def)
  qed
qed simp

section \<open>Simulation\<close>

definition simulates :: "HybridRangeBlockQueue \<Rightarrow> ModelQueue \<Rightarrow> bool" where
  "simulates q m \<longleftrightarrow> queue_inv q \<and> model_wf m \<and> status q = state_of m \<and> q_head q = m_sequential_head m"

lemma status_length:
  assumes r: "queue_repr q rs ss" and "status q = state_of m"
  shows "length (m_states m) = q_next_seq q"
proof -
  have "s < length (m_states m) \<longleftrightarrow> s < q_next_seq q" for s
  proof -
    have "status q s \<noteq> None \<longleftrightarrow> s < q_next_seq q" by (simp add: status_def)
    moreover have "state_of m s \<noteq> None \<longleftrightarrow> s < length (m_states m)" by (simp add: state_of_def)
    ultimately show ?thesis using assms(2) by simp
  qed
  then show ?thesis by (meson linorder_neqE_nat nat_less_le order_refl)
qed

lemma model_wf_sparse: "model_wf m \<Longrightarrow> s \<in> set (m_sparse_ready m) \<longleftrightarrow> state_of m s = Some SparseReady"
  by (simp add: model_wf_def)

lemma sim_head:
  assumes "simulates q m"
  shows "m_sequential_tail m = q_next_seq q"
proof -
  obtain rs ss where r: "queue_repr q rs ss" using assms by (auto simp: simulates_def queue_inv_def)
  then show ?thesis using assms status_length [OF r, of m] by (simp add: simulates_def model_wf_def)
qed

lemma model_publish_ok:
  assumes wf: "model_wf m" and "m_sequential_tail m + n \<le> u64_max"
  shows "ok (model_publish m n) (\<lambda>m'. model_wf m' \<and> m_sequential_head m' = m_sequential_head m \<and>
    m_sequential_tail m' = m_sequential_tail m + n \<and>
    state_of m' = (\<lambda>s. if m_sequential_tail m \<le> s \<and> s < m_sequential_tail m + n then Some Ready else state_of m s))"
proof -
  have l: "m_sequential_tail m = length (m_states m)" using wf by (simp add: model_wf_def)
  define m' where "m' = m\<lparr>m_states := m_states m @ replicate n Ready, m_sequential_tail := m_sequential_tail m + n\<rparr>"
  have st: "state_of m' s = (if m_sequential_tail m \<le> s \<and> s < m_sequential_tail m + n then Some Ready else state_of m s)" for s
    by (auto simp: m'_def state_of_def nth_append l)
  have "s \<in> set (m_sparse_ready m) \<longleftrightarrow> state_of m' s = Some SparseReady" for s
    using model_wf_sparse [OF wf, of s] state_of_Some_less [of m s SparseReady] l by (auto simp: st)
  then have "model_wf m'" using wf by (simp add: model_wf_def) (simp add: m'_def)
  moreover have "model_publish m n = Some m'"
    using assms(2) l by (simp add: model_publish_def add_u64_def grow_states_eq m'_def)
  moreover have "m_sequential_head m' = m_sequential_head m" "m_sequential_tail m' = m_sequential_tail m + n"
    by (simp_all add: m'_def)
  ultimately show ?thesis using st by (simp add: fun_eq_iff)
qed

text \<open>Settling messages in flight: both queues set the state of the same messages.\<close>

lemma settle_simulates:
  assumes sim: "simulates q m" and r: "queue_repr q' rs ss" and same: "same_seqs q q'"
    and st: "status q' = (\<lambda>s. if s \<in> set xs then Some v else status q s)"
    and fl: "\<And>s. s \<in> set xs \<Longrightarrow> status q s = Some Inflight" and v: "v \<noteq> SparseReady"
  shows "simulates q' (fold (set_state v) xs m)"
proof -
  let ?m = "fold (set_state v) xs m"
  have eq: "status q = state_of m" and wf: "model_wf m" using sim by (simp_all add: simulates_def)
  have "s < length (m_states m)" if "s \<in> set xs" for s
    using fl [OF that] eq by (auto dest: state_of_Some_less)
  then have st': "state_of ?m = (\<lambda>s. if s \<in> set xs then Some v else state_of m s)"
    by (auto simp: fold_set_state state_of_fold fun_eq_iff)
  have "s \<in> set (m_sparse_ready m) \<longleftrightarrow> state_of ?m s = Some SparseReady" for s
    using wf fl [of s] v by (auto simp: st' eq model_wf_def)
  then have "model_wf ?m" using wf by (simp add: model_wf_def fold_set_state)
  then show ?thesis
    using sim r same st st' eq by (auto simp: simulates_def queue_inv_def same_seqs_def fold_set_state)
qed

section \<open>The messages of a delivery\<close>

definition work_seqs :: "DeliveryWork \<Rightarrow> nat list" where
  "work_seqs w = concat (map (\<lambda>r. [dr_start_seq r..<dr_start_seq r + dr_len r]) (dw_ranges w)) @ masks_seqs (dw_masks w)"

lemma work_seqs_post: "deliver_post q rs ss k T work q' \<Longrightarrow> work_seqs work = [q_head q..<q_head q + k] @ T"
  by (simp add: work_seqs_def deliver_post_def DeliveryRange_new_def)

lemma repr_distinct_sparse:
  assumes r: "queue_repr q rs ss"
  shows "distinct (sparse_order (q_blocks q) ss)"
proof (rule distinct_sparse_order [where h = "q_head q"])
  have lr: "list_repr (map mb_sparse_link (q_blocks q)) SPARSE_TAG (q_sparse_blocks q) ss"
    using r by (simp add: queue_repr_def members_def)
  then show "distinct ss" by (simp add: list_repr_def)
  show "block_inv (q_head q) (as_usize i) (q_blocks q ! as_usize i)" if "i \<in> set ss" for i
    using queue_repr_block [OF r] list_repr_bounds [OF lr that] by simp
qed

lemma deliver_simulates:
  assumes sim: "simulates q m" and r: "queue_repr q rs ss" and n: "n \<le> u32_max"
    and st: "total_delivered (q_stats q) + n \<le> u64_max"
  shows "ok (deliver q n out) (\<lambda>(c, work, q').
    ok (model_deliver (m\<lparr>m_sparse_ready := sparse_order (q_blocks q) ss\<rparr>) n) (\<lambda>(seqs, m').
      work_seqs work = seqs \<and> c = length seqs \<and> simulates q' m'))"
proof -
  let ?sp = "sparse_order (q_blocks q) ss" and ?h = "q_head q"
  let ?m = "m\<lparr>m_sparse_ready := ?sp\<rparr>"
  define k where "k = min (q_next_seq q - ?h) n"
  define T where "T = take (n - k) ?sp"
  have eq: "status q = state_of m" and wf: "model_wf m" and hd: "m_sequential_head m = ?h"
    using sim by (simp_all add: simulates_def)
  have tl: "m_sequential_tail m = q_next_seq q" using sim_head [OF sim] .
  have so: "state_of ?m = state_of m" by (simp add: state_of_def fun_eq_iff)
  have wf': "model_wf ?m"
    using wf repr_distinct_sparse [OF r] sparse_order_status [OF r] by (simp add: model_wf_def so eq)
  have len: "length (m_states ?m) \<le> u64_max"
    using status_length [OF r eq] repr_seq_bound [OF r] by (simp add: u32_max_def u64_max_def)
  have kT: "k + length T \<le> n" by (simp add: k_def T_def)
  have k': "k = min n (m_sequential_tail ?m - m_sequential_head ?m)" by (simp add: k_def tl hd min.commute)
  have mo: "ok (model_deliver ?m n) (\<lambda>(out', m'). out' = [?h..<?h + k] @ T \<and> m_sequential_head m' = ?h + k \<and>
      m_sequential_tail m' = m_sequential_tail m \<and> m_sparse_ready m' = drop (n - k) ?sp \<and>
      length (m_states m') = length (m_states m) \<and>
      state_of m' = (\<lambda>s. if s \<in> set ([?h..<?h + k] @ T) then Some Inflight else state_of m s))"
    using model_deliver_ok [OF wf' len k' refl] by (simp add: hd T_def so cong: if_cong)
  have fin: "simulates q' m'" if p: "deliver_post q rs ss k T work q'"
    and a: "m_sequential_head m' = ?h + k" "m_sequential_tail m' = m_sequential_tail m" "m_sparse_ready m' = drop (n - k) ?sp"
      "length (m_states m') = length (m_states m)"
      "state_of m' = (\<lambda>s. if s \<in> set ([?h..<?h + k] @ T) then Some Inflight else state_of m s)" for q' m' work
  proof -
    obtain ss' where r': "queue_repr q' rs ss'" and sp: "T @ sparse_order (q_blocks q') ss' = ?sp"
      using p by (auto simp: deliver_post_def)
    have "sparse_order (q_blocks q') ss' = drop (length T) ?sp" using sp by (metis append_eq_conv_conj)
    also have "\<dots> = drop (n - k) ?sp" by (simp add: T_def min_def)
    finally have sp': "m_sparse_ready m' = sparse_order (q_blocks q') ss'" using a(3) by simp
    have st': "status q' = state_of m'" using p a(5) eq by (simp add: deliver_post_def cong: if_cong)
    have "model_wf m'"
      using repr_distinct_sparse [OF r'] sparse_order_status [OF r'] wf tl a(1,2,4) hd
      by (auto simp: model_wf_def sp' st' k_def)
    then show ?thesis using r' st' p a(1) by (auto simp: simulates_def queue_inv_def deliver_post_def)
  qed
  have "ok (deliver q n out) (\<lambda>(c, work, q'). c = k + length T \<and> deliver_post q rs ss k T work q')"
    by (rule deliver_ok [OF r n k_def T_def]) (use st kT in simp)
  then show ?thesis
    by (rule ok_mono) (auto simp: work_seqs_post intro!: ok_mono [OF mo] fin)
qed

lemma model_retry_ok:
  assumes wf: "model_wf m" and ret: "ret = filter (\<lambda>s. m_states m ! s = Retry) [0..<length (m_states m)]"
    and "length ret \<le> u32_max"
  shows "ok (model_retry_all_now m) (\<lambda>(c, m'). c = length ret \<and> model_wf m' \<and>
    m_sequential_head m' = m_sequential_head m \<and>
    state_of m' = (\<lambda>s. if state_of m s = Some Retry then Some SparseReady else state_of m s))"
proof -
  define m' where "m' = m\<lparr>m_states := fold (\<lambda>s xs. xs[s := SparseReady]) ret (m_states m),
    m_sparse_ready := m_sparse_ready m @ ret\<rparr>"
  have ret': "s \<in> set ret \<longleftrightarrow> state_of m s = Some Retry" for s by (simp add: ret state_of_def)
  have st: "state_of m' = (\<lambda>s. if state_of m s = Some Retry then Some SparseReady else state_of m s)"
    using ret' by (auto simp: m'_def state_of_def fold_update_nth fun_eq_iff)
  have "distinct (m_sparse_ready m @ ret)" using wf ret' by (auto simp: model_wf_def ret)
  then have "model_wf m'" using wf ret' unfolding model_wf_def st by (auto simp: m'_def)
  moreover have "model_retry_all_now m = Some (length ret, m')"
    using model_retry_loop_ok [OF _ _ ret, of 0] assms(3) by (simp add: model_retry_all_now_def m'_def)
  ultimately show ?thesis using st by (simp add: m'_def)
qed

lemma state_count:
  assumes "status q = state_of m"
  shows "length (filter (\<lambda>s. m_states m ! s = v) [0..<length (m_states m)]) = qcount v q"
proof -
  have "{s. status q s = Some v} = {s. s < length (m_states m) \<and> m_states m ! s = v}"
    using assms by (auto simp: state_of_def split: if_splits)
  also have "\<dots> = set (filter (\<lambda>s. m_states m ! s = v) [0..<length (m_states m)])" by auto
  finally show ?thesis unfolding qcount_def by (metis distinct_card distinct_filter distinct_upt)
qed

lemma retry_simulates:
  assumes sim: "simulates q m" and r: "queue_repr q rs ss" and mv: "qcount Retry q \<le> u32_max"
    and st: "total_retried (q_stats q) + qcount Retry q \<le> u64_max"
  shows "ok (retry_all_now q) (\<lambda>(c, q'). ok (model_retry_all_now m) (\<lambda>(c', m'). c = c' \<and> simulates q' m'))"
proof -
  have eq: "status q = state_of m" and wf: "model_wf m" using sim by (simp_all add: simulates_def)
  have mo: "ok (model_retry_all_now m) (\<lambda>(c, m'). c = qcount Retry q \<and> model_wf m' \<and>
    m_sequential_head m' = m_sequential_head m \<and>
    state_of m' = (\<lambda>s. if state_of m s = Some Retry then Some SparseReady else state_of m s))"
    using model_retry_ok [OF wf refl] mv by (simp add: state_count [OF eq])
  show ?thesis
    by (rule ok_mono [OF retry_all_now_ok [OF r mv st]], clarify, rule ok_mono [OF mo])
      (use sim in \<open>auto simp: simulates_def queue_inv_def same_seqs_def\<close>)
qed

section \<open>Counts\<close>

lemma count_states_ok:
  "qc_ready c + length xs \<le> u64_max \<Longrightarrow> qc_inflight c + length xs \<le> u64_max \<Longrightarrow>
   qc_acked c + length xs \<le> u64_max \<Longrightarrow> qc_retry c + length xs \<le> u64_max \<Longrightarrow>
   count_states xs c = Some (c\<lparr>
     qc_ready := qc_ready c + length (filter (\<lambda>v. v = Ready \<or> v = SparseReady) xs),
     qc_inflight := qc_inflight c + length (filter (\<lambda>v. v = Inflight) xs),
     qc_acked := qc_acked c + length (filter (\<lambda>v. v = Acked) xs),
     qc_retry := qc_retry c + length (filter (\<lambda>v. v = Retry) xs)\<rparr>)"
proof (induction xs arbitrary: c)
  case (Cons x xs)
  then show ?case by (cases x) (simp_all add: add_u64_def)
qed simp

lemma filter_nth: "length (filter P xs) = length (filter (\<lambda>i. P (xs ! i)) [0..<length xs])"
proof -
  have "filter P xs = map ((!) xs) (filter (\<lambda>i. P (xs ! i)) [0..<length xs])"
    by (metis comp_apply filter_cong filter_map map_nth)
  then show ?thesis by (metis length_map)
qed

lemma filter_disj_length:
  "(\<And>x. \<not> (P x \<and> Q x)) \<Longrightarrow> length (filter (\<lambda>x. P x \<or> Q x) xs) = length (filter P xs) + length (filter Q xs)"
  by (induction xs) auto

lemma model_counts_ok:
  assumes sim: "simulates q m"
  shows "model_counts m = debug_counts q"
proof -
  obtain rs ss where r: "queue_repr q rs ss" using sim by (auto simp: simulates_def queue_inv_def)
  have eq: "status q = state_of m" using sim by (simp add: simulates_def)
  have len: "length (m_states m) = q_next_seq q" using status_length [OF r eq] .
  have b: "length (m_states m) \<le> u64_max" using len repr_seq_bound [OF r] by (simp add: u32_max_def u64_max_def)
  have c: "length (filter (\<lambda>x. x = v) (m_states m)) = qcount v q" for v
    using state_count [OF eq, of v] filter_nth [of "\<lambda>x. x = v" "m_states m"] by simp
  have "length (filter (\<lambda>v. v = Ready \<or> v = SparseReady) (m_states m)) = qcount Ready q + qcount SparseReady q"
    by (subst filter_disj_length) (auto simp: c)
  then show ?thesis
    using b c by (simp add: model_counts_def count_states_ok debug_counts_ok [OF r] len)
qed

end
