(* ===== verification/Queue_Steps.thy ===== *)
theory Queue_Steps
  imports Model_Queue
begin

text \<open>
  The hybrid queue as a state machine: one rule per mutating call, guarded by what its callers
  keep to. The settlement calls are made for messages in flight, each once, with masks inside
  a block; the counters and the block index stay within their machine widths. The invariant and the
  accounting of \<open>QueueStats\<close> hold in every reachable state.
\<close>

section \<open>Steps\<close>

inductive queue_step :: "HybridRangeBlockQueue \<Rightarrow> HybridRangeBlockQueue \<Rightarrow> bool" where
  step_publish: "queue_step q q'"
    if "publish_contiguous q n = Some (r, q')"
      "q_next_seq q + n \<le> 256 * u32_max" "total_published (q_stats q) + n \<le> u64_max"
| step_deliver: "queue_step q q'"
    if "deliver q n out = Some (c, work, q')" "n \<le> u32_max" "total_delivered (q_stats q) + n \<le> u64_max"
| step_ack: "queue_step q q'"
    if "apply_ack_batch q acks = Some q'" "ack_batch_wf acks" "distinct (ack_seqs acks)"
      "\<forall>s\<in>set (ack_seqs acks). status q s = Some Inflight"
      "total_acked (q_stats q) + length (ack_seqs acks) \<le> u64_max"
| step_nack: "queue_step q q'"
    if "apply_nack_batch q nacks = Some q'" "nack_batch_wf nacks" "distinct (nack_seqs nacks)"
      "\<forall>s\<in>set (nack_seqs nacks). status q s = Some Inflight"
      "total_nacked (q_stats q) + length (nack_seqs nacks) \<le> u64_max"
| step_retry: "queue_step q q'"
    if "retry_all_now q = Some (c, q')" "qcount Retry q \<le> u32_max"
      "total_retried (q_stats q) + qcount Retry q \<le> u64_max"

inductive queue_reachable :: "HybridRangeBlockQueue \<Rightarrow> bool" where
  reach_empty: "queue_reachable q_empty"
| reach_step: "queue_reachable q' " if "queue_reachable q" "queue_step q q'"

inductive_cases queue_stepE: "queue_step q q'"

lemma queue_inv_empty: "queue_inv q_empty"
proof -
  have "queue_repr q_empty [] []"
    by (simp add: queue_repr_def q_empty_def members_def list_repr_def il_new_def)
  then show ?thesis by (auto simp: queue_inv_def)
qed

section \<open>The operations over the invariant\<close>

lemma publish_inv:
  assumes "queue_inv q" "q_next_seq q + n \<le> 256 * u32_max" "total_published (q_stats q) + n \<le> u64_max"
  shows "ok (publish_contiguous q n) (\<lambda>(range, q').
    range = DeliveryRange_new (q_next_seq q) n \<and> queue_inv q' \<and>
    q_next_seq q' = q_next_seq q + n \<and> q_head q' = q_head q \<and>
    q_stats q' = (q_stats q)\<lparr>total_published := total_published (q_stats q) + n\<rparr> \<and>
    status q' = (\<lambda>s. if s \<in> {q_next_seq q..<q_next_seq q + n} then Some Ready else status q s))"
proof -
  obtain rs ss where r: "queue_repr q rs ss" using assms(1) by (auto simp: queue_inv_def)
  show ?thesis by (rule ok_mono [OF publish_contiguous_ok [OF r assms(2,3)]]) (auto simp: queue_inv_def)
qed

lemma ack_inv:
  assumes "queue_inv q" "ack_batch_wf batch" "distinct (ack_seqs batch)"
    "\<forall>s\<in>set (ack_seqs batch). status q s = Some Inflight"
    "total_acked (q_stats q) + length (ack_seqs batch) \<le> u64_max"
  shows "ok (apply_ack_batch q batch) (\<lambda>q'. queue_inv q' \<and> same_seqs q q' \<and>
    q_stats q' = (q_stats q)\<lparr>total_acked := total_acked (q_stats q) + length (ack_seqs batch)\<rparr> \<and>
    status q' = (\<lambda>s. if s \<in> set (ack_seqs batch) then Some Acked else status q s))"
proof -
  obtain rs ss where r: "queue_repr q rs ss" using assms(1) by (auto simp: queue_inv_def)
  show ?thesis
    by (rule ok_mono [OF apply_ack_batch_ok [OF r assms(2,3) _ assms(5)]]) (use assms(4) in \<open>auto simp: queue_inv_def\<close>)
qed

lemma nack_inv:
  assumes "queue_inv q" "nack_batch_wf batch" "distinct (nack_seqs batch)"
    "\<forall>s\<in>set (nack_seqs batch). status q s = Some Inflight"
    "total_nacked (q_stats q) + length (nack_seqs batch) \<le> u64_max"
  shows "ok (apply_nack_batch q batch) (\<lambda>q'. queue_inv q' \<and> same_seqs q q' \<and>
    q_stats q' = (q_stats q)\<lparr>total_nacked := total_nacked (q_stats q) + length (nack_seqs batch)\<rparr> \<and>
    status q' = (\<lambda>s. if s \<in> set (nack_seqs batch) then Some Retry else status q s))"
proof -
  obtain rs ss where r: "queue_repr q rs ss" using assms(1) by (auto simp: queue_inv_def)
  show ?thesis
    by (rule ok_mono [OF apply_nack_batch_ok [OF r assms(2,3) _ assms(5)]]) (use assms(4) in \<open>auto simp: queue_inv_def\<close>)
qed

lemma retry_inv:
  assumes "queue_inv q" "qcount Retry q \<le> u32_max" "total_retried (q_stats q) + qcount Retry q \<le> u64_max"
  shows "ok (retry_all_now q) (\<lambda>(moved, q'). moved = qcount Retry q \<and> queue_inv q' \<and> same_seqs q q' \<and>
    q_stats q' = (q_stats q)\<lparr>total_retried := total_retried (q_stats q) + qcount Retry q\<rparr> \<and>
    status q' = (\<lambda>s. if status q s = Some Retry then Some SparseReady else status q s))"
proof -
  obtain rs ss where r: "queue_repr q rs ss" using assms(1) by (auto simp: queue_inv_def)
  show ?thesis by (rule ok_mono [OF retry_all_now_ok [OF r assms(2,3)]]) (auto simp: queue_inv_def)
qed

text \<open>
  What \<open>deliver\<close> hands out: the messages, oldest fresh ones first, then the ones that
  wait for redelivery, as many as asked for or as there are.
\<close>

definition delivers :: "HybridRangeBlockQueue \<Rightarrow> nat \<Rightarrow> nat \<Rightarrow> DeliveryWork \<Rightarrow> HybridRangeBlockQueue \<Rightarrow> bool" where
  "delivers q n c work q' \<longleftrightarrow>
     c = min n (qcount Ready q + qcount SparseReady q) \<and>
     length (work_seqs work) = c \<and> distinct (work_seqs work) \<and>
     (let k = min n (qcount Ready q) in
        dw_ranges work = (if k = 0 then [] else [DeliveryRange_new (q_head q) k]) \<and>
        take k (work_seqs work) = [q_head q..<q_head q + k] \<and> q_head q' = q_head q + k \<and>
        (\<forall>s\<in>set (drop k (work_seqs work)). status q s = Some SparseReady)) \<and>
     masks_wf (dw_masks work) \<and>
     (\<forall>m\<in>set (dw_masks work). redelivered_mask q' (dm_block m) (dm_word m) (dm_mask m) = Some (dm_mask m)) \<and>
     queue_inv q' \<and> q_next_seq q' = q_next_seq q \<and>
     q_stats q' = (q_stats q)\<lparr>total_delivered := total_delivered (q_stats q) + c\<rparr> \<and>
     status q' = (\<lambda>s. if s \<in> set (work_seqs work) then Some Inflight else status q s)"

lemma sparse_order_count:
  assumes r: "queue_repr q rs ss"
  shows "length (sparse_order (q_blocks q) ss) = qcount SparseReady q"
proof -
  have "set (sparse_order (q_blocks q) ss) = {s. status q s = Some SparseReady}"
    using sparse_order_status [OF r] by blast
  then show ?thesis unfolding qcount_def by (metis distinct_card repr_distinct_sparse [OF r])
qed

lemma redelivered_all:
  assumes r: "queue_repr q rs ss" and w: "w < 4" and m: "m \<noteq> 0"
    and sp: "\<And>s. s \<in> set (mask_list b w m) \<Longrightarrow> status q s = Some SparseReady"
    and rd: "map mb_redelivered (q_blocks q') = map mb_redelivered (q_blocks q)"
  shows "redelivered_mask q' b w m = Some m"
proof -
  have st: "status q (256 * b + 64 * w + i) = Some SparseReady" if "bit m i" for i
    using sp that by (simp add: mask_list_def)
  have i64: "i < 64" if "bit m i" for i using bit_imp_le_length [OF that] by simp
  have loc: "(256 * b + 64 * w + i) div 256 = b" "(256 * b + 64 * w + i) mod 256 = 64 * w + i" if "i < 64" for i
  proof -
    have lt: "64 * w + i < 256" using w that by simp
    have e: "256 * b + 64 * w + i = 256 * b + (64 * w + i)" by simp
    show "(256 * b + 64 * w + i) div 256 = b" "(256 * b + 64 * w + i) mod 256 = 64 * w + i"
      unfolding e using lt by simp_all
  qed
  obtain i0 where i0: "bit m i0" using m by (metis bit_eq_iff bit_0_eq bot_apply bot_bool_def)
  have b: "b < length (q_blocks q)"
    using block_index_bound [OF r status_Some_less [OF st [OF i0]]] loc(1) [OF i64 [OF i0]] by simp
  note inv = queue_repr_block [OF r b]
  have "bit (mb_redelivered (q_blocks q ! b) ! w) i" if i: "bit m i" for i
  proof -
    have j: "64 * w + i < 256" using w i64 [OF i] by simp
    have "bstat (q_blocks q ! b) (64 * w + i) = SparseReady"
      using st [OF i] loc [OF i64 [OF i]] by (auto simp: status_def split: if_splits)
    then have "wbit (mb_redelivered (q_blocks q ! b)) (64 * w + i)" using block_inv_bits(2,6) [OF inv j] by simp
    then show ?thesis using w i64 [OF i] by (simp add: wbit_def)
  qed
  then have "mb_redelivered (q_blocks q ! b) ! w AND m = m" by (intro bit_eqI) (auto simp: bit_and_iff)
  moreover have "b < length (q_blocks q')" "mb_redelivered (q_blocks q' ! b) = mb_redelivered (q_blocks q ! b)"
    using b rd by (metis length_map nth_map)+
  ultimately show ?thesis using w block_invD(5) [OF inv] by (simp add: redelivered_mask_def idx_def)
qed

lemma deliver_inv:
  assumes "queue_inv q" "n \<le> u32_max" "total_delivered (q_stats q) + n \<le> u64_max"
  shows "ok (deliver q n out) (\<lambda>(c, work, q'). delivers q n c work q')"
proof -
  obtain rs ss where r: "queue_repr q rs ss" using assms(1) by (auto simp: queue_inv_def)
  let ?sp = "sparse_order (q_blocks q) ss"
  define k where "k = min (q_next_seq q - q_head q) n"
  define T where "T = take (n - k) ?sp"
  have sp: "status q s = Some SparseReady" if "s \<in> set T" for s
    using that sparse_order_status [OF r] by (auto simp: T_def dest: in_set_takeD)
  have d: "distinct T" using repr_distinct_sparse [OF r] by (simp add: T_def)
  have kT: "k + length T = min n (qcount Ready q + qcount SparseReady q)" "k = min n (qcount Ready q)"
    by (auto simp: k_def T_def sparse_order_count [OF r] qcount_Ready [OF r])
  have fresh: "status q s = Some Ready" if "s \<in> {q_head q..<q_head q + k}" for s
    using that unfolding status_Ready_iff [OF r] k_def by auto
  have fin: "delivers q n (k + length T) work q'" if p: "deliver_post q rs ss k T work q'" for work q'
  proof -
    have ws: "work_seqs work = [q_head q..<q_head q + k] @ T" using work_seqs_post [OF p] .
    have "{q_head q..<q_head q + k} \<inter> set T = {}"
    proof (rule equals0I, elim IntE)
      fix s assume "s \<in> {q_head q..<q_head q + k}" "s \<in> set T"
      then have "status q s = Some Ready" "status q s = Some SparseReady" using fresh [of s] sp [of s] by blast+
      then show False by simp
    qed
    then have dw: "distinct (work_seqs work)" using d by (simp add: ws)
    have rd: "redelivered_mask q' (dm_block m) (dm_word m) (dm_mask m) = Some (dm_mask m)"
      if "m \<in> set (dw_masks work)" for m
    proof (rule redelivered_all [OF r])
      show "status q s = Some SparseReady" if s: "s \<in> set (mask_list (dm_block m) (dm_word m) (dm_mask m))" for s
      proof (rule sp)
        have "s \<in> set (masks_seqs (dw_masks work))" using s \<open>m \<in> set (dw_masks work)\<close> by (auto simp: masks_seqs_def)
        then show "s \<in> set T" using p by (simp add: deliver_post_def)
      qed
      show "dm_word m < 4" "dm_mask m \<noteq> 0" using p that by (simp_all add: deliver_post_def masks_wf_def)
      show "map mb_redelivered (q_blocks q') = map mb_redelivered (q_blocks q)" using p by (simp add: deliver_post_def)
    qed
    have inv': "queue_inv q'" using p by (auto simp: deliver_post_def queue_inv_def)
    have le: "k \<le> length (work_seqs work)" "take k (work_seqs work) = [q_head q..<q_head q + k]"
      "drop k (work_seqs work) = T" by (simp_all add: ws)
    show ?thesis
      unfolding delivers_def Let_def kT(2) [symmetric] kT(1) [symmetric]
      using p dw rd inv' sp le by (simp add: deliver_post_def ws)
  qed
  show ?thesis
    by (rule ok_mono [OF deliver_ok [OF r assms(2) k_def T_def]]) (use assms(3) kT fin in auto)
qed

lemma delivers_available:
  assumes "queue_inv q" and d: "delivers q n c work q'" and s: "s \<in> set (work_seqs work)"
  shows "status q s = Some Ready \<or> status q s = Some SparseReady"
proof -
  obtain rs ss where r: "queue_repr q rs ss" using assms(1) by (auto simp: queue_inv_def)
  let ?k = "min n (qcount Ready q)"
  have "s \<in> set (take ?k (work_seqs work)) \<or> s \<in> set (drop ?k (work_seqs work))"
    using s by (metis Un_iff append_take_drop_id set_append)
  then have "s \<in> {q_head q..<q_head q + ?k} \<or> status q s = Some SparseReady"
    using d unfolding delivers_def Let_def by auto
  then show ?thesis using status_Ready_iff [OF r, of s] qcount_Ready [OF r] by auto
qed

section \<open>Reachable states\<close>

text \<open>Case analysis on a step from a state with the invariant, with what the step did.\<close>

lemma queue_step_cases [consumes 2, case_names publish deliver ack nack retry]:
  assumes step: "queue_step q q'" and inv: "queue_inv q"
    and publish: "\<And>n. queue_inv q' \<Longrightarrow> q_next_seq q' = q_next_seq q + n \<Longrightarrow> q_head q' = q_head q \<Longrightarrow>
      q_stats q' = (q_stats q)\<lparr>total_published := total_published (q_stats q) + n\<rparr> \<Longrightarrow>
      status q' = (\<lambda>s. if s \<in> {q_next_seq q..<q_next_seq q + n} then Some Ready else status q s) \<Longrightarrow> P"
    and deliver: "\<And>n c work. queue_inv q' \<Longrightarrow> delivers q n c work q' \<Longrightarrow> P"
    and ack: "\<And>xs. queue_inv q' \<Longrightarrow> distinct xs \<Longrightarrow> \<forall>s\<in>set xs. status q s = Some Inflight \<Longrightarrow> same_seqs q q' \<Longrightarrow>
      q_stats q' = (q_stats q)\<lparr>total_acked := total_acked (q_stats q) + length xs\<rparr> \<Longrightarrow>
      status q' = (\<lambda>s. if s \<in> set xs then Some Acked else status q s) \<Longrightarrow> P"
    and nack: "\<And>xs. queue_inv q' \<Longrightarrow> distinct xs \<Longrightarrow> \<forall>s\<in>set xs. status q s = Some Inflight \<Longrightarrow> same_seqs q q' \<Longrightarrow>
      q_stats q' = (q_stats q)\<lparr>total_nacked := total_nacked (q_stats q) + length xs\<rparr> \<Longrightarrow>
      status q' = (\<lambda>s. if s \<in> set xs then Some Retry else status q s) \<Longrightarrow> P"
    and retry: "queue_inv q' \<Longrightarrow> same_seqs q q' \<Longrightarrow>
      q_stats q' = (q_stats q)\<lparr>total_retried := total_retried (q_stats q) + qcount Retry q\<rparr> \<Longrightarrow>
      status q' = (\<lambda>s. if s \<in> {s. status q s = Some Retry} then Some SparseReady else status q s) \<Longrightarrow> P"
  shows P
  using step
proof (cases rule: queue_step.cases)
  case (step_publish n r)
  from ok_SomeD [OF publish_inv [OF inv step_publish(2,3)] step_publish(1)] publish show ?thesis by auto
next
  case (step_deliver n out c work)
  from ok_SomeD [OF deliver_inv [OF inv step_deliver(2,3)] step_deliver(1)] deliver show ?thesis
    by (auto simp: delivers_def)
next
  case (step_ack acks)
  from ok_SomeD [OF ack_inv [OF inv step_ack(2-5)] step_ack(1)] show ?thesis
    by (elim conjE) (rule ack [OF _ step_ack(3,4)])
next
  case (step_nack nacks)
  from ok_SomeD [OF nack_inv [OF inv step_nack(2-5)] step_nack(1)] show ?thesis
    by (elim conjE) (rule nack [OF _ step_nack(3,4)])
next
  case (step_retry c)
  from ok_SomeD [OF retry_inv [OF inv step_retry(2,3)] step_retry(1)] retry show ?thesis by auto
qed

lemma queue_step_inv: "queue_step q q' \<Longrightarrow> queue_inv q \<Longrightarrow> queue_inv q'"
  by (cases rule: queue_step_cases)

lemma reachable_inv: "queue_reachable q \<Longrightarrow> queue_inv q"
  by (induction rule: queue_reachable.induct) (auto intro: queue_inv_empty queue_step_inv)

section \<open>Accounting\<close>

lemma qcount_gain:
  assumes "status q' = (\<lambda>s. if s \<in> S then Some v else status q s)" and "finite S"
    and "\<forall>s\<in>S. status q s \<noteq> Some v"
  shows "qcount v q' = qcount v q + card S"
proof -
  have "{s. status q' s = Some v} = {s. status q s = Some v} \<union> S" using assms(1) by auto
  moreover have "{s. status q s = Some v} \<inter> S = {}" using assms(3) by blast
  ultimately show ?thesis unfolding qcount_def using assms(2) by (simp add: card_Un_disjoint)
qed

lemma qcount_loss:
  assumes "status q' = (\<lambda>s. if s \<in> S then Some v else status q s)" and "u \<noteq> v"
    and "\<forall>s\<in>S. status q s = Some u"
  shows "qcount u q = qcount u q' + card S"
  using qcount_move(2) [OF assms(1) _ assms(2)] assms(3) by blast

lemma qcount_keep:
  assumes "status q' = (\<lambda>s. if s \<in> S then Some v else status q s)" and "u \<noteq> v"
    and "\<forall>s\<in>S. status q s \<noteq> Some u"
  shows "qcount u q' = qcount u q"
proof -
  have "{s. status q' s = Some u} = {s. status q s = Some u}" using assms by auto
  then show ?thesis by (simp add: qcount_def)
qed

definition ledger :: "HybridRangeBlockQueue \<Rightarrow> bool" where
  "ledger q \<longleftrightarrow>
     total_published (q_stats q) = q_next_seq q \<and>
     total_acked (q_stats q) = qcount Acked q \<and>
     total_nacked (q_stats q) = total_retried (q_stats q) + qcount Retry q \<and>
     total_delivered (q_stats q) = qcount Inflight q + total_acked (q_stats q) + total_nacked (q_stats q)"

lemma ledger_step:
  assumes "queue_step q q'" "queue_inv q" "ledger q"
  shows "ledger q'"
  using assms(1,2)
proof (cases rule: queue_step_cases)
  case (publish n)
  have none: "\<forall>s\<in>{q_next_seq q..<q_next_seq q + n}. status q s \<noteq> Some u" for u by (auto simp: status_def)
  show ?thesis
    using assms(3) publish qcount_keep [OF publish(5) _ none] by (simp add: ledger_def)
next
  case (deliver n c work)
  let ?S = "set (work_seqs work)"
  have st: "status q' = (\<lambda>s. if s \<in> ?S then Some Inflight else status q s)"
    and c: "card ?S = c" and stats: "q_stats q' = (q_stats q)\<lparr>total_delivered := total_delivered (q_stats q) + c\<rparr>"
    and nx: "q_next_seq q' = q_next_seq q"
    using deliver(2) by (auto simp: delivers_def distinct_card)
  have avail: "status q s = Some Ready \<or> status q s = Some SparseReady" if "s \<in> ?S" for s
    using delivers_available [OF assms(2) deliver(2) that] .
  have "qcount Inflight q' = qcount Inflight q + c" using qcount_gain [OF st] avail c by fastforce
  moreover have "qcount Acked q' = qcount Acked q" "qcount Retry q' = qcount Retry q"
    using qcount_keep [OF st] avail by fastforce+
  ultimately show ?thesis using assms(3) stats nx by (simp add: ledger_def)
next
  case (ack xs)
  have c: "card (set xs) = length xs" using ack(2) by (rule distinct_card)
  have "qcount Acked q' = qcount Acked q + length xs" using qcount_gain [OF ack(6)] ack(3) c by simp
  moreover have "qcount Inflight q = qcount Inflight q' + length xs" using qcount_loss [OF ack(6) _ ack(3)] c by simp
  moreover have "qcount Retry q' = qcount Retry q" using qcount_keep [OF ack(6), of Retry] ack(3) by simp
  ultimately show ?thesis using assms(3) ack(4,5) by (simp add: ledger_def same_seqs_def)
next
  case (nack xs)
  have c: "card (set xs) = length xs" using nack(2) by (rule distinct_card)
  have "qcount Retry q' = qcount Retry q + length xs" using qcount_gain [OF nack(6)] nack(3) c by simp
  moreover have "qcount Inflight q = qcount Inflight q' + length xs" using qcount_loss [OF nack(6) _ nack(3)] c by simp
  moreover have "qcount Acked q' = qcount Acked q" using qcount_keep [OF nack(6), of Acked] nack(3) by simp
  ultimately show ?thesis using assms(3) nack(4,5) by (simp add: ledger_def same_seqs_def)
next
  case retry
  have "qcount Retry q = qcount Retry q' + qcount Retry q"
    using qcount_loss [OF retry(4), of Retry] by (simp add: qcount_def)
  moreover have "qcount Inflight q' = qcount Inflight q" "qcount Acked q' = qcount Acked q"
    using qcount_keep [OF retry(4)] by simp_all
  ultimately show ?thesis using assms(3) retry(2,3) by (simp add: ledger_def same_seqs_def)
qed

end
