(* ===== verification/Queue_Demo.thy ===== *)
theory Queue_Demo
  imports Queue_Steps
begin

text \<open>
  One queue with two messages, on which the properties of the hybrid queue and of the consumer
  are instantiated: both messages are published and delivered, message 1 is nacked and retried,
  then message 0, then one message is delivered again.
\<close>

definition demo_block :: "64 word \<Rightarrow> 64 word \<Rightarrow> 64 word \<Rightarrow> 64 word \<Rightarrow> 64 word \<Rightarrow> MsgBlock" where
  "demo_block f a r s rd =
     (MsgBlock_new 0)\<lparr>mb_inflight := [f, 0, 0, 0], mb_acked := [a, 0, 0, 0], mb_retry := [r, 0, 0, 0],
       mb_sparse_ready := [s, 0, 0, 0], mb_redelivered := [rd, 0, 0, 0],
       mb_retry_word_mask := (if r = 0 then 0 else 1), mb_sparse_word_mask := (if s = 0 then 0 else 1),
       mb_retry_link := (if r = 0 then link_new else \<lparr>prev_ix = None, next_ix = None, link_state = state_linked RETRY_TAG\<rparr>),
       mb_sparse_link := (if s = 0 then link_new else \<lparr>prev_ix = None, next_ix = None, link_state = state_linked SPARSE_TAG\<rparr>)\<rparr>"

definition demo_queue :: "nat \<Rightarrow> MsgBlock \<Rightarrow> nat \<Rightarrow> nat \<Rightarrow> nat \<Rightarrow> nat \<Rightarrow> HybridRangeBlockQueue" where
  "demo_queue h blk d a n r =
     \<lparr>q_next_seq = 2, q_head = h, q_tail = 2, q_blocks = [blk],
      q_sparse_blocks = (if is_sparse_listed blk then \<lparr>il_head = Some (Index 1), il_tail = Some (Index 1), il_len = 1\<rparr> else il_new),
      q_retry_blocks = (if is_retry_listed blk then \<lparr>il_head = Some (Index 1), il_tail = Some (Index 1), il_len = 1\<rparr> else il_new),
      q_stats = \<lparr>total_published = 2, total_delivered = d, total_acked = a, total_nacked = n, total_retried = r\<rparr>\<rparr>"

definition demo_q1 :: HybridRangeBlockQueue where
  "demo_q1 = demo_queue 0 (demo_block 0 0 0 0 0) 0 0 0 0"

definition demo_q2 :: HybridRangeBlockQueue where
  "demo_q2 = demo_queue 2 (demo_block 3 0 0 0 0) 2 0 0 0"

definition demo_q3 :: HybridRangeBlockQueue where
  "demo_q3 = demo_queue 2 (demo_block 1 0 2 0 0) 2 0 1 0"

definition demo_q4 :: HybridRangeBlockQueue where
  "demo_q4 = demo_queue 2 (demo_block 1 0 0 2 2) 2 0 1 1"

definition demo_q5 :: HybridRangeBlockQueue where
  "demo_q5 = demo_queue 2 (demo_block 0 0 1 2 2) 2 0 2 1"

definition demo_q6 :: HybridRangeBlockQueue where
  "demo_q6 = demo_queue 2 (demo_block 0 0 0 3 3) 2 0 2 2"

definition demo_q7 :: HybridRangeBlockQueue where
  "demo_q7 = demo_queue 2 (demo_block 1 0 0 2 3) 3 0 2 2"

lemma demo_publish: "publish_contiguous q_empty 2 = Some (DeliveryRange_new 0 2, demo_q1)"
  by code_simp

lemma demo_deliver:
  "deliver demo_q1 2 work_default = Some (2, \<lparr>dw_ranges = [DeliveryRange_new 0 2], dw_masks = []\<rparr>, demo_q2)"
  by code_simp

lemma demo_nack: "nack_range_to_retry demo_q2 1 1 = Some demo_q3"
  by code_simp

lemma demo_retry: "retry_all_now demo_q3 = Some (1, demo_q4)"
  by code_simp

lemma demo_nack_2: "nack_range_to_retry demo_q4 0 1 = Some demo_q5"
  by code_simp

lemma demo_retry_2: "retry_all_now demo_q5 = Some (1, demo_q6)"
  by code_simp

lemma demo_deliver_2:
  "deliver demo_q6 1 work_default = Some (1, \<lparr>dw_ranges = [], dw_masks = [DeliveryMask_new 0 0 1]\<rparr>, demo_q7)"
  by code_simp

end
