(* ===== verification/Queue_Properties.thy ===== *)
theory Queue_Properties
  imports Queue_Demo
begin

text \<open>The properties of the hybrid queue.\<close>

section \<open>The concrete queue is reachable\<close>

lemma demo_stats:
  "q_next_seq demo_q1 = 2" "total_delivered (q_stats demo_q1) = 0"
  "q_next_seq demo_q2 = 2" "total_published (q_stats demo_q2) = 2" "total_nacked (q_stats demo_q2) = 0" "total_acked (q_stats demo_q2) = 0"
  "total_retried (q_stats demo_q3) = 0" "total_delivered (q_stats demo_q4) = 2"
  by (simp_all add: demo_q1_def demo_q2_def demo_q3_def demo_q4_def demo_queue_def)

lemma demo_status:
  "status demo_q2 = [0 \<mapsto> Inflight, 1 \<mapsto> Inflight]" "status demo_q3 = [0 \<mapsto> Inflight, 1 \<mapsto> Retry]"
  "status demo_q4 = [0 \<mapsto> Inflight, 1 \<mapsto> SparseReady]"
  by (auto simp: fun_eq_iff status_def demo_q2_def demo_q3_def demo_q4_def demo_queue_def demo_block_def bstat_def wbit_def
      less_Suc_eq numeral_2_eq_2 numeral_3_eq_3)

definition demo_nacks :: NackBatch where
  "demo_nacks = \<lparr>nb_ranges = [NackRange_new 1 1], nb_masks = [], nb_reason = Requeue\<rparr>"

lemma demo_nack_batch: "apply_nack_batch demo_q2 demo_nacks = Some demo_q3"
  by (simp add: apply_nack_batch_def demo_nacks_def NackRange_new_def demo_nack [unfolded One_nat_def])

lemma demo_nack_seqs: "nack_seqs demo_nacks = [1]" "nack_batch_wf demo_nacks"
  by (simp_all add: nack_seqs_def nack_batch_wf_def demo_nacks_def NackRange_new_def)

lemma demo_reach_1: "queue_reachable demo_q1"
  by (rule reach_step [OF reach_empty step_publish [OF demo_publish]]) (simp_all add: q_empty_def stats_default_def u32_max_def u64_max_def)

lemma demo_reach_2: "queue_reachable demo_q2"
  by (rule reach_step [OF demo_reach_1 step_deliver [OF demo_deliver]]) (simp_all add: demo_stats u32_max_def u64_max_def)

lemma demo_reach_3: "queue_reachable demo_q3"
  by (rule reach_step [OF demo_reach_2 step_nack [OF demo_nack_batch]])
    (simp_all add: demo_stats demo_status demo_nack_seqs u64_max_def)

lemma demo_retry_count: "qcount Retry demo_q3 = 1"
proof -
  have "{s. status demo_q3 s = Some Retry} = {1}" by (auto simp: demo_status)
  then show ?thesis by (simp add: qcount_def)
qed

lemma demo_reach_4: "queue_reachable demo_q4"
  by (rule reach_step [OF demo_reach_3 step_retry [OF demo_retry]])
    (simp_all add: demo_stats demo_retry_count u32_max_def u64_max_def)

lemmas demo_inv = demo_reach_1 [THEN reachable_inv] demo_reach_2 [THEN reachable_inv]
  demo_reach_3 [THEN reachable_inv] demo_reach_4 [THEN reachable_inv]

section \<open>Properties\<close>

text \<open>
  publishing \<open>n\<close> messages returns the range of the next \<open>n\<close> sequence numbers,
  makes exactly these messages ready, leaves the state of every other message and keeps the
  invariant of the queue. It does not panic as long as the block index fits in 32 bits.
\<close>

theorem queue_publish:
  assumes "queue_inv q" and "q_next_seq q + n \<le> 256 * u32_max" and "total_published (q_stats q) + n \<le> u64_max"
  shows "ok (publish_contiguous q n) (\<lambda>(range, q').
    range = DeliveryRange_new (q_next_seq q) n \<and> queue_inv q' \<and>
    q_next_seq q' = q_next_seq q + n \<and> q_head q' = q_head q \<and>
    q_stats q' = (q_stats q)\<lparr>total_published := total_published (q_stats q) + n\<rparr> \<and>
    status q' = (\<lambda>s. if s \<in> {q_next_seq q..<q_next_seq q + n} then Some Ready else status q s))"
  using assms by (rule publish_inv)

theorem queue_publish_witness:
  "ok (publish_contiguous demo_q2 300) (\<lambda>(range, q'). queue_inv q' \<and> status q' 301 = Some Ready \<and> status q' 302 = None)"
  by (rule ok_mono [OF queue_publish [of demo_q2 300]])
    (use demo_inv in \<open>auto simp: demo_stats demo_status u32_max_def u64_max_def\<close>)

text \<open>
  C1: \<open>deliver\<close> returns for every queue with the invariant: it hands out as many messages as
  asked for or as there are, each once, the fresh ones first and in order, then messages that
  were nacked and retried. Exactly these are in flight afterwards, and each mask it returns is
  reported as redelivered by \<open>redelivered_mask\<close> in full.
\<close>

theorem queue_deliver:
  assumes "queue_inv q" and "n \<le> u32_max" and "total_delivered (q_stats q) + n \<le> u64_max"
  shows "ok (deliver q n out) (\<lambda>(c, work, q').
     c = min n (qcount Ready q + qcount SparseReady q) \<and>
     length (work_seqs work) = c \<and> distinct (work_seqs work) \<and>
     (let k = min n (qcount Ready q) in
        take k (work_seqs work) = [q_head q..<q_head q + k] \<and> q_head q' = q_head q + k \<and>
        (\<forall>s\<in>set (drop k (work_seqs work)). status q s = Some SparseReady)) \<and>
     (\<forall>m\<in>set (dw_masks work). redelivered_mask q' (dm_block m) (dm_word m) (dm_mask m) = Some (dm_mask m)) \<and>
     queue_inv q' \<and> q_next_seq q' = q_next_seq q \<and>
     q_stats q' = (q_stats q)\<lparr>total_delivered := total_delivered (q_stats q) + c\<rparr> \<and>
     status q' = (\<lambda>s. if s \<in> set (work_seqs work) then Some Inflight else status q s))"
  by (rule ok_mono [OF deliver_inv [OF assms, of out]]) (auto simp: delivers_def Let_def)

theorem queue_deliver_witness:
  "ok (deliver demo_q4 5 work_default) (\<lambda>(c, work, q'). queue_inv q' \<and>
    (\<forall>m\<in>set (dw_masks work). redelivered_mask q' (dm_block m) (dm_word m) (dm_mask m) = Some (dm_mask m)))"
  by (rule ok_mono [OF queue_deliver [of demo_q4 5 work_default]])
    (use demo_inv in \<open>auto simp: demo_stats u32_max_def u64_max_def\<close>)

text \<open>
  C16: a batch of acknowledgements for distinct messages in flight turns exactly these messages
  to acknowledged, and a batch of negative acknowledgements turns them to waiting for a retry.
  Both keep the invariant and no message changes otherwise.
\<close>

theorem queue_settle:
  assumes "queue_inv q"
    and "ack_batch_wf acks" "distinct (ack_seqs acks)" "\<forall>s\<in>set (ack_seqs acks). status q s = Some Inflight"
    and "total_acked (q_stats q) + length (ack_seqs acks) \<le> u64_max"
    and "nack_batch_wf nacks" "distinct (nack_seqs nacks)" "\<forall>s\<in>set (nack_seqs nacks). status q s = Some Inflight"
    and "total_nacked (q_stats q) + length (nack_seqs nacks) \<le> u64_max"
  shows "ok (apply_ack_batch q acks) (\<lambda>q'. queue_inv q' \<and> same_seqs q q' \<and>
      q_stats q' = (q_stats q)\<lparr>total_acked := total_acked (q_stats q) + length (ack_seqs acks)\<rparr> \<and>
      status q' = (\<lambda>s. if s \<in> set (ack_seqs acks) then Some Acked else status q s))
    \<and> ok (apply_nack_batch q nacks) (\<lambda>q'. queue_inv q' \<and> same_seqs q q' \<and>
      q_stats q' = (q_stats q)\<lparr>total_nacked := total_nacked (q_stats q) + length (nack_seqs nacks)\<rparr> \<and>
      status q' = (\<lambda>s. if s \<in> set (nack_seqs nacks) then Some Retry else status q s))"
  using ack_inv [OF assms(1-5)] nack_inv [OF assms(1,6-9)] by blast

theorem queue_settle_witness:
  "ok (apply_ack_batch demo_q2 \<lparr>ab_ranges = [AckRange_new 0 1], ab_masks = [AckMask_new 0 0 2]\<rparr>) (\<lambda>q'.
     status q' 0 = Some Acked \<and> status q' 1 = Some Acked)
   \<and> ok (apply_nack_batch demo_q2 demo_nacks) (\<lambda>q'. status q' 0 = Some Inflight \<and> status q' 1 = Some Retry)"
proof -
  let ?acks = "\<lparr>ab_ranges = [AckRange_new 0 1], ab_masks = [AckMask_new 0 0 2]\<rparr>"
  have "bits_of (2 :: 64 word) = [1]" by code_simp
  then have "ack_seqs ?acks = [0, 1]"
    by (simp add: ack_seqs_def AckRange_new_def AckMask_new_def mask_list_def)
  then show ?thesis
    using queue_settle [OF demo_inv(2), of ?acks demo_nacks] demo_nack_seqs
    by (auto simp: ack_batch_wf_def AckMask_new_def demo_stats demo_status u64_max_def elim!: ok_mono)
qed


text \<open>
  C17: \<open>retry_all_now\<close> terminates, returns the number of messages that waited for a retry
  and makes exactly these ready again; the invariant and the other messages stay.
\<close>

theorem queue_retry:
  assumes "queue_inv q" and "qcount Retry q \<le> u32_max" and "total_retried (q_stats q) + qcount Retry q \<le> u64_max"
  shows "ok (retry_all_now q) (\<lambda>(moved, q'). moved = qcount Retry q \<and> queue_inv q' \<and> same_seqs q q' \<and>
    q_stats q' = (q_stats q)\<lparr>total_retried := total_retried (q_stats q) + qcount Retry q\<rparr> \<and>
    status q' = (\<lambda>s. if status q s = Some Retry then Some SparseReady else status q s))"
  using assms by (rule retry_inv)

theorem queue_retry_witness:
  "ok (retry_all_now demo_q3) (\<lambda>(moved, q'). moved = 1 \<and> status q' 0 = Some Inflight \<and> status q' 1 = Some SparseReady)"
  by (rule ok_mono [OF queue_retry [OF demo_inv(3)]])
    (auto simp: demo_retry_count demo_stats demo_status u32_max_def u64_max_def)

text \<open>
  C5: in every state that the mutating calls can reach, the queue's own \<open>validate_invariants\<close>
  accepts, \<open>debug_state_of\<close> returns the state of every message, and \<open>debug_counts\<close>
  returns the number of messages in each state, which add up to the number published.
\<close>

theorem queue_inspection:
  assumes "queue_reachable q"
  shows "validate_invariants q = Some (Inr ()) \<and> debug_state_of q s = Some (status q s) \<and>
    debug_counts q = Some \<lparr>qc_published = q_next_seq q, qc_ready = qcount Ready q + qcount SparseReady q,
      qc_inflight = qcount Inflight q, qc_acked = qcount Acked q, qc_retry = qcount Retry q\<rparr> \<and>
    qcount Ready q + qcount SparseReady q + qcount Inflight q + qcount Acked q + qcount Retry q = q_next_seq q"
proof -
  obtain rs ss where r: "queue_repr q rs ss" using reachable_inv [OF assms] by (auto simp: queue_inv_def)
  show ?thesis
    using validate_invariants_ok [OF r] debug_state_of_status [OF r] debug_counts_ok [OF r] qcount_conserved [OF r]
    by simp
qed

theorem queue_inspection_witness:
  "validate_invariants demo_q3 = Some (Inr ()) \<and> debug_state_of demo_q3 1 = Some (Some Retry)"
  using queue_inspection [OF demo_reach_3, of 1] by (simp add: demo_status)

text \<open>
  C2: the statistics of every reachable queue are a ledger of its messages: as many messages
  were published as there are sequence numbers, as many were acknowledged as are acknowledged
  now, the nacked ones were retried or still wait, and every delivery was acknowledged or nacked or is
  still in flight.
\<close>

theorem queue_ledger:
  assumes "queue_reachable q"
  shows "total_published (q_stats q) = q_next_seq q \<and>
    total_acked (q_stats q) = qcount Acked q \<and>
    total_nacked (q_stats q) = total_retried (q_stats q) + qcount Retry q \<and>
    total_delivered (q_stats q) = qcount Inflight q + total_acked (q_stats q) + total_nacked (q_stats q)"
proof -
  have "ledger q" using assms
  proof (induction rule: queue_reachable.induct)
    case reach_empty
    have "qcount v q_empty = 0" for v by (simp add: qcount_def status_def q_empty_def)
    then show ?case by (simp add: ledger_def q_empty_def stats_default_def)
  next
    case (reach_step q q')
    then show ?case using ledger_step reachable_inv by blast
  qed
  then show ?thesis by (simp add: ledger_def)
qed

theorem queue_ledger_witness:
  "total_nacked (q_stats demo_q3) = 0 + qcount Retry demo_q3 \<and> total_published (q_stats demo_q3) = 2"
  using queue_ledger [OF demo_reach_3] by (simp add: demo_stats) (simp add: demo_q3_def demo_queue_def)



text \<open>
  C14: no message is lost: from every queue with the invariant, \<open>retry_all_now\<close> followed by
  a \<open>deliver\<close> that asks for at least the messages there are puts every published message
  that is not acknowledged in flight.
\<close>

theorem queue_no_loss:
  assumes "queue_inv q" and n: "q_next_seq q \<le> n" and "n \<le> u32_max"
    and "total_retried (q_stats q) + qcount Retry q \<le> u64_max" and "total_delivered (q_stats q) + n \<le> u64_max"
  shows "ok (do { (_, q1) \<leftarrow> retry_all_now q; deliver q1 n out }) (\<lambda>(c, work, q').
    \<forall>s<q_next_seq q. status q s \<noteq> Some Acked \<longrightarrow> status q' s = Some Inflight)"
proof -
  obtain rs ss where r: "queue_repr q rs ss" using assms(1) by (auto simp: queue_inv_def)
  have rc: "qcount Retry q \<le> u32_max" using qcount_conserved [OF r] n assms(3) by simp
  have fin: "status q' s = Some Inflight"
    if i: "queue_inv q1" and sq: "same_seqs q q1" and d: "delivers q1 n c work q'" and s: "s < q_next_seq q" "status q s \<noteq> Some Acked"
      and st: "status q1 = (\<lambda>s. if status q s = Some Retry then Some SparseReady else status q s)" for q1 c work q' s
  proof -
    obtain rs1 ss1 where r1: "queue_repr q1 rs1 ss1" using i by (auto simp: queue_inv_def)
    have nx: "q_next_seq q1 = q_next_seq q" using sq by (simp add: same_seqs_def)
    have all: "c = qcount Ready q1 + qcount SparseReady q1" "length (work_seqs work) = c" "distinct (work_seqs work)"
      using d n qcount_conserved [OF r1] nx by (auto simp: delivers_def)
    let ?A = "{s. status q1 s = Some Ready} \<union> {s. status q1 s = Some SparseReady}"
    have "card ?A = c" using all(1) by (simp add: qcount_def card_Un_disjoint disjoint_iff)
    then have A: "set (work_seqs work) = ?A"
      using delivers_available [OF i d] all(2,3) by (intro card_subset_eq) (auto simp: distinct_card)
    obtain v where v: "status q s = Some v" using s by (simp add: status_def)
    have "s \<in> ?A \<or> status q1 s = Some Inflight" using v s(2) by (cases v) (auto simp: st)
    then show ?thesis using d A by (auto simp: delivers_def)
  qed
  show ?thesis
    unfolding ok_bind
  proof (rule ok_mono [OF retry_inv [OF assms(1) rc assms(4)]], clarify)
    fix q1 assume a: "queue_inv q1" "same_seqs q q1"
      "q_stats q1 = (q_stats q)\<lparr>total_retried := total_retried (q_stats q) + qcount Retry q\<rparr>"
      "status q1 = (\<lambda>s. if status q s = Some Retry then Some SparseReady else status q s)"
    have "ok (deliver q1 n out) (\<lambda>(c, work, q'). delivers q1 n c work q')"
      using deliver_inv [OF a(1) assms(3)] assms(5) a(3) by simp
    then show "ok (deliver q1 n out) (\<lambda>(c, work, q'). \<forall>s<q_next_seq q. status q s \<noteq> Some Acked \<longrightarrow> status q' s = Some Inflight)"
      by (rule ok_mono) (use fin [OF a(1,2) _ _ _ a(4)] in blast)
  qed
qed

theorem queue_no_loss_witness:
  "ok (do { (_, q1) \<leftarrow> retry_all_now demo_q3; deliver q1 2 work_default }) (\<lambda>(c, work, q').
     status q' 0 = Some Inflight \<and> status q' 1 = Some Inflight)"
proof -
  have "q_next_seq demo_q3 = 2" "total_delivered (q_stats demo_q3) = 2" by (simp_all add: demo_q3_def demo_queue_def)
  then show ?thesis
    using queue_no_loss [OF demo_inv(3), of 2 work_default]
    by (auto simp: demo_stats demo_status demo_retry_count u32_max_def u64_max_def elim!: ok_mono)
qed

end
