(* ===== verification/Model_Properties.thy ===== *)
theory Model_Properties
  imports Queue_Properties
begin

text \<open>
  The hybrid queue implements the reference queue of \<open>model.rs\<close>, one property per group of
  operations, and the one point where the two differ.
\<close>

section \<open>A pair of related queues\<close>

lemma simulates_empty: "simulates q_empty model_new"
  using queue_inv_empty
  by (auto simp: simulates_def model_wf_def model_new_def q_empty_def status_def state_of_def)

definition demo_m2 :: ModelQueue where
  "demo_m2 = \<lparr>m_states = [Inflight, Inflight], m_sequential_head = 2, m_sequential_tail = 2, m_sparse_ready = []\<rparr>"

definition demo_m4 :: ModelQueue where
  "demo_m4 = \<lparr>m_states = [Inflight, SparseReady], m_sequential_head = 2, m_sequential_tail = 2, m_sparse_ready = [1]\<rparr>"

lemma nth_two: "s < Suc (Suc 0) \<Longrightarrow> [a, b] ! s = (if s = 0 then a else b)"
  by (cases s) auto

lemma simulates_demo: "simulates demo_q2 demo_m2" "simulates demo_q4 demo_m4"
proof -
  have "q_head demo_q2 = 2" "q_head demo_q4 = 2" by (simp_all add: demo_q2_def demo_q4_def demo_queue_def)
  moreover have "status demo_q2 = state_of demo_m2" "status demo_q4 = state_of demo_m4"
    by (auto simp: demo_status state_of_def demo_m2_def demo_m4_def fun_eq_iff nth_two)
  moreover have "model_wf demo_m2" "model_wf demo_m4"
    by (auto simp: model_wf_def demo_m2_def demo_m4_def state_of_def nth_two)
  ultimately show "simulates demo_q2 demo_m2" "simulates demo_q4 demo_m4"
    using demo_inv by (simp_all add: simulates_def demo_m2_def demo_m4_def)
qed

section \<open>Properties\<close>



text \<open>
  \<open>retry_all_now\<close> refines the reference queue, with the same number of messages moved,
  and \<open>debug_counts\<close> reports the counts of the reference queue.
\<close>

theorem model_refines_retry:
  assumes "simulates q m" and "qcount Retry q \<le> u32_max" and "total_retried (q_stats q) + qcount Retry q \<le> u64_max"
  shows "debug_counts q = model_counts m \<and>
    ok (retry_all_now q) (\<lambda>(c, q'). ok (model_retry_all_now m) (\<lambda>(c', m'). c = c' \<and> simulates q' m'))"
proof -
  obtain rs ss where r: "queue_repr q rs ss" using assms(1) by (auto simp: simulates_def queue_inv_def)
  show ?thesis using retry_simulates [OF assms(1) r assms(2,3)] model_counts_ok [OF assms(1)] by simp
qed

theorem model_refines_retry_witness:
  "debug_counts demo_q2 = model_counts demo_m2"
proof -
  have "{s. status demo_q2 s = Some Retry} = {}" by (auto simp: demo_status split: if_splits)
  then have "qcount Retry demo_q2 = 0" by (simp add: qcount_def)
  moreover have "total_retried (q_stats demo_q2) = 0" by (simp add: demo_q2_def demo_queue_def)
  ultimately show ?thesis
    using model_refines_retry [OF simulates_demo(1)] by (simp add: u32_max_def u64_max_def)
qed

text \<open>
  C3: \<open>deliver\<close> refines the reference queue up to the order of its sparse messages: for
  some arrangement of the reference queue's \<open>sparse_ready\<close>, both deliver the same sequence
  of messages, message by message, and the queues are related again.
\<close>

theorem model_refines_deliver:
  assumes sim: "simulates q m" and "n \<le> u32_max" and "total_delivered (q_stats q) + n \<le> u64_max"
  shows "\<exists>sparse. distinct sparse \<and> set sparse = set (m_sparse_ready m) \<and>
    ok (deliver q n out) (\<lambda>(c, work, q').
      ok (model_deliver (m\<lparr>m_sparse_ready := sparse\<rparr>) n) (\<lambda>(seqs, m').
        work_seqs work = seqs \<and> c = length seqs \<and> simulates q' m'))"
proof -
  obtain rs ss where r: "queue_repr q rs ss" using sim by (auto simp: simulates_def queue_inv_def)
  have "set (sparse_order (q_blocks q) ss) = set (m_sparse_ready m)"
    using sparse_order_status [OF r] sim by (auto simp: simulates_def model_wf_def)
  then show ?thesis using deliver_simulates [OF sim r assms(2,3)] repr_distinct_sparse [OF r] by blast
qed

theorem model_refines_deliver_witness:
  "\<exists>sparse. set sparse = {1} \<and>
    ok (deliver demo_q4 1 work_default) (\<lambda>(c, work, q').
      ok (model_deliver (demo_m4\<lparr>m_sparse_ready := sparse\<rparr>) 1) (\<lambda>(seqs, m'). work_seqs work = seqs))"
proof -
  obtain sp where "set sp = set (m_sparse_ready demo_m4)"
    "ok (deliver demo_q4 1 work_default) (\<lambda>(c, work, q').
      ok (model_deliver (demo_m4\<lparr>m_sparse_ready := sp\<rparr>) 1) (\<lambda>(seqs, m').
        work_seqs work = seqs \<and> c = length seqs \<and> simulates q' m'))"
    using model_refines_deliver [OF simulates_demo(2), of 1 work_default]
    by (auto simp: demo_stats u32_max_def u64_max_def)
  then show ?thesis by (intro exI [of _ sp]) (auto simp: demo_m4_def elim!: ok_mono)
qed


end
