(* ===== verification/Consumer_Types.thy ===== *)
theory Consumer_Types
  imports Queue_Steps
begin

text \<open>
  \<open>crates/aurum-core/src/consumer/{credit,error,flags,request,result}.rs\<close>: the prefetch
  credit of a consumer and the plain data of its interface. The \<open>bitflags!\<close> types are bytes.
\<close>

section \<open>Errors and flags\<close>

datatype ConsumerError =
    InvalidDeliveryTag
  | DeliveryTagAlreadySettled
  | ConsumerCancelled
  | InsufficientCredit
  | EmptyDelivery
  | InternalInvariantViolation

definition DELIVERY_REDELIVERED :: "8 word" where
  "DELIVERY_REDELIVERED = 1"

definition SEGMENT_REDELIVERED :: "8 word" where
  "SEGMENT_REDELIVERED = 1"

definition SEGMENT_HAS_HOLES :: "8 word" where
  "SEGMENT_HAS_HOLES = 2"

definition CONSUMER_CANCELLED :: "8 word" where
  "CONSUMER_CANCELLED = 1"

definition CONSUMER_BLOCKED :: "8 word" where
  "CONSUMER_BLOCKED = 2"

text \<open>\<open>contains\<close> of a flag set.\<close>

definition flags_contain :: "8 word \<Rightarrow> 8 word \<Rightarrow> bool" where
  "flags_contain fs f \<longleftrightarrow> fs AND f = f"

section \<open>Requests and results\<close>

datatype AckMode = AckOne | AckMultiple

record AckRequest =
  aq_tag :: nat
  aq_mode :: AckMode

definition ack_request_one :: "nat \<Rightarrow> AckRequest" where
  "ack_request_one tag = \<lparr>aq_tag = tag, aq_mode = AckOne\<rparr>"

definition ack_request_multiple :: "nat \<Rightarrow> AckRequest" where
  "ack_request_multiple tag = \<lparr>aq_tag = tag, aq_mode = AckMultiple\<rparr>"

datatype NackMode = NackOne | NackMultiple

record NackRequest =
  nq_tag :: nat
  nq_mode :: NackMode
  nq_reason :: NackReason

definition nack_request_one :: "nat \<Rightarrow> NackReason \<Rightarrow> NackRequest" where
  "nack_request_one tag reason = \<lparr>nq_tag = tag, nq_mode = NackOne, nq_reason = reason\<rparr>"

definition nack_request_multiple :: "nat \<Rightarrow> NackReason \<Rightarrow> NackRequest" where
  "nack_request_multiple tag reason = \<lparr>nq_tag = tag, nq_mode = NackMultiple, nq_reason = reason\<rparr>"

record RejectRequest =
  rq_tag :: nat
  rq_reason :: NackReason

record AckApplyResult =
  aa_acked :: nat
  aa_released_credit :: nat
  aa_ranges :: "AckRange list"

record NackApplyResult =
  na_nacked :: nat
  na_requeued :: nat
  na_dropped :: nat
  na_dead_lettered :: nat
  na_released_credit :: nat

datatype CancelDisposition = RequeueUnacked | DropUnacked

record CancelResult =
  cr_requeued :: nat
  cr_dropped :: nat

definition cancel_total :: "CancelResult \<Rightarrow> nat option" where
  "cancel_total r = add_u32 (cr_requeued r) (cr_dropped r)"

section \<open>Credit\<close>

datatype PrefetchMode = Limited nat | Unlimited

record ConsumerCredit =
  cc_mode :: PrefetchMode
  cc_in_flight :: nat

definition credit_new :: "PrefetchMode \<Rightarrow> ConsumerCredit" where
  "credit_new mode = \<lparr>cc_mode = mode, cc_in_flight = 0\<rparr>"

definition credit_available :: "ConsumerCredit \<Rightarrow> nat" where
  "credit_available c = (case cc_mode c of Unlimited \<Rightarrow> u32_max | Limited n \<Rightarrow> n - cc_in_flight c)"

definition credit_reserve :: "ConsumerCredit \<Rightarrow> nat \<Rightarrow> ((ConsumerError + unit) \<times> ConsumerCredit) option" where
  "credit_reserve c n =
     (case cc_mode c of
        Unlimited \<Rightarrow> Some (Inr (), c\<lparr>cc_in_flight := saturating_add_u32 (cc_in_flight c) n\<rparr>)
      | Limited limit \<Rightarrow>
          if saturating_add_u32 (cc_in_flight c) n > limit then Some (Inl InsufficientCredit, c)
          else do {
            x \<leftarrow> add_u32 (cc_in_flight c) n;
            Some (Inr (), c\<lparr>cc_in_flight := x\<rparr>)
          })"

definition credit_release :: "ConsumerCredit \<Rightarrow> nat \<Rightarrow> ConsumerCredit" where
  "credit_release c n = c\<lparr>cc_in_flight := cc_in_flight c - n\<rparr>"

text \<open>
  The accounting of credit: \<open>n\<close> messages are outstanding. With a limit the two numbers are
  equal and never above it; without one the counter saturates, so it may fall behind.
\<close>

definition credit_covers :: "ConsumerCredit \<Rightarrow> nat \<Rightarrow> bool" where
  "credit_covers c n \<longleftrightarrow>
     (case cc_mode c of
        Limited limit \<Rightarrow> cc_in_flight c = n \<and> n \<le> limit \<and> limit \<le> u32_max
      | Unlimited \<Rightarrow> cc_in_flight c \<le> n)"

lemma credit_covers_new: "(\<forall>l. mode = Limited l \<longrightarrow> l \<le> u32_max) \<Longrightarrow> credit_covers (credit_new mode) 0"
  by (simp add: credit_covers_def credit_new_def split: PrefetchMode.splits)

lemma credit_reserve_ok:
  assumes "credit_covers c n" and "k \<le> credit_available c"
  shows "ok (credit_reserve c k) (\<lambda>(r, c'). r = Inr () \<and> credit_covers c' (n + k) \<and> cc_mode c' = cc_mode c)"
  using assms
  by (auto simp: credit_covers_def credit_available_def credit_reserve_def saturating_add_u32_def
      split: PrefetchMode.splits)

lemma credit_release_ok:
  assumes "credit_covers c n" and "k \<le> n"
  shows "credit_covers (credit_release c k) (n - k)" "cc_mode (credit_release c k) = cc_mode c"
  using assms by (auto simp: credit_covers_def credit_release_def split: PrefetchMode.splits)

end
