(* ===== verification/Consumer_Segment.thy ===== *)
theory Consumer_Segment
  imports Consumer_Types
begin

text \<open>
  \<open>crates/aurum-core/src/consumer/segment.rs\<close>: a delivered range or mask with its delivery
  tags. \<open>seg_entries\<close> lists the outstanding pairs of tag and sequence number of a segment;
  the tag of a mask segment counts the set bits of \<open>original_mask\<close>, and
  \<open>remaining_rank_mask\<close> says which of these ranks are not settled.
\<close>

section \<open>Segments\<close>

record RangeSegment =
  rs_first_tag :: nat
  rs_start_seq :: nat
  rs_len :: nat
  rs_flags :: "8 word"

definition RangeSegment_new :: "nat \<Rightarrow> nat \<Rightarrow> nat \<Rightarrow> 8 word \<Rightarrow> RangeSegment" where
  "RangeSegment_new first_tag start_seq n flags =
     \<lparr>rs_first_tag = first_tag, rs_start_seq = start_seq, rs_len = n, rs_flags = flags\<rparr>"

definition range_last_tag :: "RangeSegment \<Rightarrow> nat option" where
  "range_last_tag r = do { x \<leftarrow> add_u64 (rs_first_tag r) (rs_len r); sub_uint x 1 }"

definition range_contains_tag :: "RangeSegment \<Rightarrow> nat \<Rightarrow> bool option" where
  "range_contains_tag r tag =
     (if tag \<ge> rs_first_tag r then do {
        stop \<leftarrow> add_u64 (rs_first_tag r) (rs_len r);
        Some (tag < stop)
      } else Some False)"

definition seq_of :: "RangeSegment \<Rightarrow> nat \<Rightarrow> nat option" where
  "seq_of r tag = do { d \<leftarrow> sub_uint tag (rs_first_tag r); add_u64 (rs_start_seq r) d }"

record MaskSegment =
  ms_first_tag :: nat
  ms_block :: nat
  ms_word :: nat
  ms_original_mask :: "64 word"
  ms_remaining_rank_mask :: "64 word"
  ms_flags :: "8 word"

definition MaskSegment_new :: "nat \<Rightarrow> nat \<Rightarrow> nat \<Rightarrow> 64 word \<Rightarrow> 8 word \<Rightarrow> MaskSegment option" where
  "MaskSegment_new first_tag b w original_mask flags = do {
     let n = count_ones original_mask;
     remaining \<leftarrow> (if n = 64 then Some (- 1) else do { one \<leftarrow> shl_u64 1 n; dec_u64 one });
     Some \<lparr>ms_first_tag = first_tag, ms_block = b, ms_word = w, ms_original_mask = original_mask,
       ms_remaining_rank_mask = remaining, ms_flags = flags\<rparr>
   }"

definition original_count :: "MaskSegment \<Rightarrow> nat" where
  "original_count m = count_ones (ms_original_mask m)"

definition mask_remaining_count :: "MaskSegment \<Rightarrow> nat" where
  "mask_remaining_count m = count_ones (ms_remaining_rank_mask m)"

definition mask_last_tag :: "MaskSegment \<Rightarrow> nat option" where
  "mask_last_tag m = do { x \<leftarrow> add_u64 (ms_first_tag m) (original_count m); sub_uint x 1 }"

definition mask_contains_tag :: "MaskSegment \<Rightarrow> nat \<Rightarrow> bool option" where
  "mask_contains_tag m tag =
     (if tag < ms_first_tag m then Some False
      else let rank = tag - ms_first_tag m in
        if rank < original_count m then do {
          one \<leftarrow> shl_u64 1 rank;
          Some (ms_remaining_rank_mask m AND one \<noteq> 0)
        } else Some False)"

datatype DeliveredSegment = SegRange RangeSegment | SegMask MaskSegment

fun seg_contains_tag :: "DeliveredSegment \<Rightarrow> nat \<Rightarrow> bool option" where
  "seg_contains_tag (SegRange r) tag = range_contains_tag r tag"
| "seg_contains_tag (SegMask m) tag = mask_contains_tag m tag"

fun seg_last_tag :: "DeliveredSegment \<Rightarrow> nat option" where
  "seg_last_tag (SegRange r) = range_last_tag r"
| "seg_last_tag (SegMask m) = mask_last_tag m"

fun seg_remaining_count :: "DeliveredSegment \<Rightarrow> nat" where
  "seg_remaining_count (SegRange r) = rs_len r"
| "seg_remaining_count (SegMask m) = mask_remaining_count m"

section \<open>Ranks and bits\<close>

lemma count_ones_clear: "w \<noteq> 0 \<Longrightarrow> count_ones w = Suc (count_ones (w AND (w - 1)))" for w :: "'a::len word"
  by (simp add: count_ones_def bits_of_Cons)

function bit_for_rank_loop :: "64 word \<Rightarrow> nat \<Rightarrow> nat \<Rightarrow> 64 word option" where
  "bit_for_rank_loop om r rank =
     (if r = rank then shl_u64 1 (trailing_zeros om)
      else do {
        pred \<leftarrow> dec_u64 om;
        r \<leftarrow> add_u32 r 1;
        bit_for_rank_loop (om AND pred) r rank
      })"
  by pat_completeness auto
termination
  by (relation "measure (\<lambda>(om, r, rank). count_ones om)") (auto simp: dec_u64_def count_ones_clear split: if_splits)

declare bit_for_rank_loop.simps [simp del]

definition bit_for_rank :: "64 word \<Rightarrow> nat \<Rightarrow> 64 word option" where
  "bit_for_rank original_mask rank = bit_for_rank_loop original_mask 0 rank"

text \<open>The loop state is \<open>om\<close>, \<open>rank\<close>, \<open>*remaining_rank_mask\<close> and \<open>result\<close>.\<close>

function extract_up_to_loop ::
  "64 word \<Rightarrow> nat \<Rightarrow> nat \<Rightarrow> 64 word \<Rightarrow> 64 word \<Rightarrow> (64 word \<times> 64 word) option" where
  "extract_up_to_loop om rank up_to_rank remaining res =
     (if om \<noteq> 0 \<and> rank \<le> up_to_rank then do {
        let bit_pos = trailing_zeros om;
        rank_bit \<leftarrow> shl_u64 1 rank;
        (res, remaining) \<leftarrow>
          (if remaining AND rank_bit \<noteq> 0
           then do { b \<leftarrow> shl_u64 1 bit_pos; Some (res OR b, remaining AND NOT rank_bit) }
           else Some (res, remaining));
        pred \<leftarrow> dec_u64 om;
        rank \<leftarrow> add_u32 rank 1;
        extract_up_to_loop (om AND pred) rank up_to_rank remaining res
      } else Some (res, remaining))"
  by pat_completeness auto
termination
  by (relation "measure (\<lambda>(om, rank, up_to_rank, remaining, res). count_ones om)")
    (auto simp: dec_u64_def count_ones_clear split: if_splits)

declare extract_up_to_loop.simps [simp del]

definition extract_bits_up_to_rank :: "64 word \<Rightarrow> 64 word \<Rightarrow> nat \<Rightarrow> (64 word \<times> 64 word) option" where
  "extract_bits_up_to_rank original_mask remaining up_to_rank =
     extract_up_to_loop original_mask 0 up_to_rank remaining 0"

function extract_all_loop :: "64 word \<Rightarrow> nat \<Rightarrow> 64 word \<Rightarrow> 64 word \<Rightarrow> 64 word option" where
  "extract_all_loop om rank remaining res =
     (if om \<noteq> 0 then do {
        let bit_pos = trailing_zeros om;
        rank_bit \<leftarrow> shl_u64 1 rank;
        res \<leftarrow>
          (if remaining AND rank_bit \<noteq> 0
           then do { b \<leftarrow> shl_u64 1 bit_pos; Some (res OR b) }
           else Some res);
        pred \<leftarrow> dec_u64 om;
        rank \<leftarrow> add_u32 rank 1;
        extract_all_loop (om AND pred) rank remaining res
      } else Some res)"
  by pat_completeness auto
termination
  by (relation "measure (\<lambda>(om, rank, remaining, res). count_ones om)")
    (auto simp: dec_u64_def count_ones_clear split: if_splits)

declare extract_all_loop.simps [simp del]

definition extract_all_remaining_bits :: "64 word \<Rightarrow> 64 word \<Rightarrow> 64 word option" where
  "extract_all_remaining_bits original_mask remaining = extract_all_loop original_mask 0 remaining 0"

section \<open>The loops follow the list of set bits\<close>

lemma nth_bits_of_Suc: "w \<noteq> 0 \<Longrightarrow> bits_of w ! Suc k = bits_of (w AND (w - 1)) ! k" for w :: "'a::len word"
  by (simp add: bits_of_Cons)

lemma bit_for_rank_loop_ok:
  "r \<le> rank \<Longrightarrow> rank - r < count_ones om \<Longrightarrow> rank \<le> 64 \<Longrightarrow>
   bit_for_rank_loop om r rank = Some (push_bit (bits_of om ! (rank - r)) 1)"
proof (induction om r rank rule: bit_for_rank_loop.induct)
  case (1 om r rank)
  have om: "om \<noteq> 0" using 1(3) by auto
  show ?case
  proof (cases "r = rank")
    case True
    then show ?thesis
      using om trailing_zeros_less [OF om] by (simp add: bit_for_rank_loop.simps shl_u64_def bits_of_Cons)
  next
    case False
    then obtain k where k: "rank - r = Suc k" "rank - Suc r = k" using 1(2) by (metis Suc_diff_Suc le_neq_implies_less)
    have "bit_for_rank_loop (om AND (om - 1)) (Suc r) rank = Some (push_bit (bits_of (om AND (om - 1)) ! (rank - Suc r)) 1)"
      by (rule 1(1) [OF False])
        (use False om 1(2-4) k count_ones_clear [OF om] in \<open>auto simp: dec_u64_def add_u32_def u32_max_def\<close>)
    then show ?thesis
      using False om k 1(2,4) nth_bits_of_Suc [OF om, of k]
      by (subst bit_for_rank_loop.simps) (simp add: dec_u64_def add_u32_def u32_max_def)
  qed
qed

text \<open>The set bits of the ranks that satisfy \<open>P\<close>.\<close>

definition rank_bits :: "64 word \<Rightarrow> (nat \<Rightarrow> bool) \<Rightarrow> nat list" where
  "rank_bits om P = map ((!) (bits_of om)) (filter P [0..<count_ones om])"

lemma rank_bits_sorted: "sorted_wrt (<) (rank_bits om P)"
proof -
  have "sorted_wrt (<) (filter P [0..<count_ones om])" by (simp add: sorted_wrt_filter)
  moreover have "bits_of om ! i < bits_of om ! j" if "i < j" "j < count_ones om" for i j
    using sorted_wrt_nth_less [OF sorted_bits_of that(1), of om] that(2) by (simp add: count_ones_def)
  ultimately show ?thesis
    unfolding rank_bits_def sorted_wrt_map by (rule sorted_wrt_mono_rel [rotated]) auto
qed

lemma rank_bits_unique:
  "(\<And>i. bit w i \<longleftrightarrow> i \<in> set (rank_bits om P)) \<Longrightarrow> bits_of w = rank_bits om P"
  by (rule bits_of_unique [OF rank_bits_sorted])

lemma set_rank_bits: "i \<in> set (rank_bits om P) \<longleftrightarrow> (\<exists>k<count_ones om. P k \<and> i = bits_of om ! k)"
  by (auto simp: rank_bits_def)

lemma ex_rank_Suc:
  "om \<noteq> 0 \<Longrightarrow> (\<exists>k<count_ones om. P k (bits_of om ! k)) \<longleftrightarrow>
     P 0 (trailing_zeros om) \<or> (\<exists>k<count_ones (om AND (om - 1)). P (Suc k) (bits_of (om AND (om - 1)) ! k))"
  for om :: "'a::len word"
  by (simp add: count_ones_clear Ex_less_Suc2 bits_of_Cons)

lemma extract_up_to_loop_ok:
  "rank + count_ones om \<le> 64 \<Longrightarrow>
   ok (extract_up_to_loop om rank up_to remaining res) (\<lambda>(res', remaining').
     (\<forall>i. bit res' i \<longleftrightarrow> bit res i \<or>
        (\<exists>k<count_ones om. rank + k \<le> up_to \<and> bit remaining (rank + k) \<and> i = bits_of om ! k)) \<and>
     (\<forall>j. bit remaining' j \<longleftrightarrow> bit remaining j \<and> \<not> (rank \<le> j \<and> j \<le> up_to \<and> j < rank + count_ones om)))"
proof (induction "count_ones om" arbitrary: om rank remaining res)
  case 0
  then show ?case by (subst extract_up_to_loop.simps) auto
next
  case (Suc c)
  have om: "om \<noteq> 0" using Suc.hyps(2) by auto
  show ?case
  proof (cases "rank \<le> up_to")
    case False
    then show ?thesis by (subst extract_up_to_loop.simps) auto
  next
    case True
    let ?om = "om AND (om - 1)" and ?t = "trailing_zeros om"
    have c: "c = count_ones ?om" using Suc.hyps(2) count_ones_clear [OF om] by simp
    have t: "?t < 64" using trailing_zeros_less [OF om] by simp
    have r: "rank < 64" using Suc.prems Suc.hyps(2) by simp
    define res1 where "res1 = (if bit remaining rank then res OR push_bit ?t 1 else res)"
    define rem1 where "rem1 = (if bit remaining rank then remaining AND NOT (push_bit rank 1) else remaining)"
    have b1: "bit res1 i \<longleftrightarrow> bit res i \<or> bit remaining rank \<and> i = ?t" for i
      using t by (auto simp: res1_def bit_or_iff)
    have b2: "bit rem1 j \<longleftrightarrow> bit remaining j \<and> j \<noteq> rank" for j
      using r by (auto simp: rem1_def bit_and_iff bit_not_iff possible_bit_def dest: bit_imp_le_length)
    have "ok (extract_up_to_loop ?om (Suc rank) up_to rem1 res1) (\<lambda>(res', remaining').
       (\<forall>i. bit res' i \<longleftrightarrow> bit res1 i \<or>
          (\<exists>k<count_ones ?om. Suc rank + k \<le> up_to \<and> bit rem1 (Suc rank + k) \<and> i = bits_of ?om ! k)) \<and>
       (\<forall>j. bit remaining' j \<longleftrightarrow> bit rem1 j \<and> \<not> (Suc rank \<le> j \<and> j \<le> up_to \<and> j < Suc rank + count_ones ?om)))"
      by (rule Suc.hyps(1) [OF c]) (use Suc.prems Suc.hyps(2) c in simp)
    moreover have "extract_up_to_loop om rank up_to remaining res = extract_up_to_loop ?om (Suc rank) up_to rem1 res1"
      using om True r t
      by (subst extract_up_to_loop.simps)
        (simp add: shl_u64_def dec_u64_def add_u32_def u32_max_def and_exp_eq_0_iff_not_bit res1_def rem1_def)
    ultimately show ?thesis
      using ex_rank_Suc [OF om, of "\<lambda>k b. rank + k \<le> up_to \<and> bit remaining (rank + k) \<and> i = b" for i] True Suc.hyps(2) c
      by (auto simp: b1 b2 count_ones_clear [OF om] elim!: ok_mono)
  qed
qed

lemma extract_all_loop_ok:
  "rank + count_ones om \<le> 64 \<Longrightarrow>
   ok (extract_all_loop om rank remaining res) (\<lambda>res'.
     \<forall>i. bit res' i \<longleftrightarrow> bit res i \<or> (\<exists>k<count_ones om. bit remaining (rank + k) \<and> i = bits_of om ! k))"
proof (induction "count_ones om" arbitrary: om rank res)
  case 0
  then show ?case by (subst extract_all_loop.simps) auto
next
  case (Suc c)
  have om: "om \<noteq> 0" using Suc.hyps(2) by auto
  let ?om = "om AND (om - 1)" and ?t = "trailing_zeros om"
  have c: "c = count_ones ?om" using Suc.hyps(2) count_ones_clear [OF om] by simp
  have t: "?t < 64" using trailing_zeros_less [OF om] by simp
  have r: "rank < 64" using Suc.prems Suc.hyps(2) by simp
  define res1 where "res1 = (if bit remaining rank then res OR push_bit ?t 1 else res)"
  have b1: "bit res1 i \<longleftrightarrow> bit res i \<or> bit remaining rank \<and> i = ?t" for i
    using t by (auto simp: res1_def bit_or_iff)
  have "ok (extract_all_loop ?om (Suc rank) remaining res1) (\<lambda>res'.
     \<forall>i. bit res' i \<longleftrightarrow> bit res1 i \<or> (\<exists>k<count_ones ?om. bit remaining (Suc rank + k) \<and> i = bits_of ?om ! k))"
    by (rule Suc.hyps(1) [OF c]) (use Suc.prems Suc.hyps(2) c in simp)
  moreover have "extract_all_loop om rank remaining res = extract_all_loop ?om (Suc rank) remaining res1"
    using om r t
    by (subst extract_all_loop.simps)
      (simp add: shl_u64_def dec_u64_def add_u32_def u32_max_def and_exp_eq_0_iff_not_bit res1_def)
  ultimately show ?case
    using ex_rank_Suc [OF om, of "\<lambda>k b. bit remaining (rank + k) \<and> i = b" for i]
    by (auto simp: b1 elim!: ok_mono)
qed

lemma extract_up_to_ok:
  "ok (extract_bits_up_to_rank om remaining up_to) (\<lambda>(bits, remaining').
     bits_of bits = rank_bits om (\<lambda>r. bit remaining r \<and> r \<le> up_to) \<and>
     (\<forall>j. bit remaining' j \<longleftrightarrow> bit remaining j \<and> \<not> (j \<le> up_to \<and> j < count_ones om)))"
  unfolding extract_bits_up_to_rank_def
  by (rule ok_mono [OF extract_up_to_loop_ok])
    (use count_ones_le [of om] in \<open>auto intro!: rank_bits_unique simp: set_rank_bits\<close>)

lemma extract_all_ok:
  "ok (extract_all_remaining_bits om remaining) (\<lambda>bits. bits_of bits = rank_bits om (bit remaining))"
  unfolding extract_all_remaining_bits_def
  by (rule ok_mono [OF extract_all_loop_ok])
    (use count_ones_le [of om] in \<open>auto intro!: rank_bits_unique simp: set_rank_bits\<close>)

lemma bit_for_rank_ok:
  assumes "rank < count_ones om"
  shows "bit_for_rank om rank = Some (push_bit (bits_of om ! rank) 1)"
  using assms count_ones_le [of om] by (simp add: bit_for_rank_def bit_for_rank_loop_ok)

end
