(* ===== verification/Consumer_Window.thy ===== *)
theory Consumer_Window
  imports Consumer_Segment
begin

text \<open>
  \<open>crates/aurum-core/src/consumer/window.rs\<close>: the window of unsettled deliveries of a
  consumer, a queue of segments in tag order. The trait \<open>DeliveryWindowOps\<close> has this one
  implementation.
\<close>

record SegmentDeliveryWindow =
  sw_segments :: "DeliveredSegment list"
  sw_unacked :: nat

datatype SegAction =
    RemoveSegment
  | RangeTrimFront
  | RangeTrimBack
  | RangeSplitAt nat DeliveredSegment
  | MaskClearRank nat
  | MaskRemove

datatype OneEntry =
    EntryRange nat
  | EntryMask nat nat "64 word"

definition window_new :: SegmentDeliveryWindow where
  "window_new = \<lparr>sw_segments = [], sw_unacked = 0\<rparr>"

text \<open>\<open>as u32\<close> keeps the low 32 bits.\<close>

definition as_u32 :: "nat \<Rightarrow> nat" where
  "as_u32 n = n mod 2 ^ 32"

fun find_segment_idx :: "DeliveredSegment list \<Rightarrow> nat \<Rightarrow> nat option option" where
  "find_segment_idx [] tag = Some None"
| "find_segment_idx (s # ss) tag = do {
     c \<leftarrow> seg_contains_tag s tag;
     (if c then Some (Some 0)
      else do { x \<leftarrow> find_segment_idx ss tag; Some (map_option Suc x) })
   }"

fun compute_one_action :: "DeliveredSegment \<Rightarrow> nat \<Rightarrow> (OneEntry \<times> SegAction) option" where
  "compute_one_action (SegRange r) tag = do {
     d \<leftarrow> sub_uint tag (rs_first_tag r);
     let offset = as_u32 d;
     seq \<leftarrow> seq_of r tag;
     let entry = EntryRange seq;
     (if rs_len r = 1 then Some (entry, RemoveSegment)
      else if offset = 0 then Some (entry, RangeTrimFront)
      else do {
        l \<leftarrow> sub_uint (rs_len r) 1;
        (if offset = l then Some (entry, RangeTrimBack)
         else do {
           t1 \<leftarrow> add_u64 tag 1;
           s1 \<leftarrow> add_u64 seq 1;
           l1 \<leftarrow> sub_uint (rs_len r) offset;
           l2 \<leftarrow> sub_uint l1 1;
           Some (entry, RangeSplitAt offset (SegRange
             \<lparr>rs_first_tag = t1, rs_start_seq = s1, rs_len = l2, rs_flags = rs_flags r\<rparr>))
         })
      })
   }"
| "compute_one_action (SegMask m) tag = do {
     d \<leftarrow> sub_uint tag (ms_first_tag m);
     let rank = as_u32 d;
     bt \<leftarrow> bit_for_rank (ms_original_mask m) rank;
     let entry = EntryMask (ms_block m) (ms_word m) bt;
     (if count_ones (ms_remaining_rank_mask m) = 1 then Some (entry, MaskRemove)
      else Some (entry, MaskClearRank rank))
   }"

text \<open>\<open>VecDeque::remove\<close> of the standard library, and \<open>insert\<close>, which panics past the end.\<close>

definition deque_remove :: "nat \<Rightarrow> 'a list \<Rightarrow> 'a list" where
  "deque_remove i xs = take i xs @ drop (Suc i) xs"

definition deque_insert :: "nat \<Rightarrow> 'a \<Rightarrow> 'a list \<Rightarrow> 'a list option" where
  "deque_insert i x xs = (if i \<le> length xs then Some (take i xs @ x # drop i xs) else None)"

fun apply_seg_action :: "DeliveredSegment list \<Rightarrow> nat \<Rightarrow> SegAction \<Rightarrow> DeliveredSegment list option" where
  "apply_seg_action segs i RemoveSegment = Some (deque_remove i segs)"
| "apply_seg_action segs i MaskRemove = Some (deque_remove i segs)"
| "apply_seg_action segs i RangeTrimFront = do {
     s \<leftarrow> idx segs i;
     (case s of
        SegRange r \<Rightarrow> do {
          t \<leftarrow> add_u64 (rs_first_tag r) 1;
          q \<leftarrow> add_u64 (rs_start_seq r) 1;
          l \<leftarrow> sub_uint (rs_len r) 1;
          upd segs i (\<lambda>_. SegRange (r\<lparr>rs_first_tag := t, rs_start_seq := q, rs_len := l\<rparr>))
        }
      | SegMask m \<Rightarrow> Some segs)
   }"
| "apply_seg_action segs i RangeTrimBack = do {
     s \<leftarrow> idx segs i;
     (case s of
        SegRange r \<Rightarrow> do {
          l \<leftarrow> sub_uint (rs_len r) 1;
          upd segs i (\<lambda>_. SegRange (r\<lparr>rs_len := l\<rparr>))
        }
      | SegMask m \<Rightarrow> Some segs)
   }"
| "apply_seg_action segs i (RangeSplitAt left_len right) = do {
     s \<leftarrow> idx segs i;
     segs \<leftarrow> (case s of
        SegRange r \<Rightarrow> upd segs i (\<lambda>_. SegRange (r\<lparr>rs_len := left_len\<rparr>))
      | SegMask m \<Rightarrow> Some segs);
     deque_insert (i + 1) right segs
   }"
| "apply_seg_action segs i (MaskClearRank rank) = do {
     s \<leftarrow> idx segs i;
     (case s of
        SegRange r \<Rightarrow> Some segs
      | SegMask m \<Rightarrow> do {
          one \<leftarrow> shl_u64 1 rank;
          upd segs i (\<lambda>_. SegMask (m\<lparr>ms_remaining_rank_mask := ms_remaining_rank_mask m AND NOT one\<rparr>))
        })
   }"

section \<open>Segments to batches\<close>

fun full_segment_to_ack :: "DeliveredSegment \<Rightarrow> AckBatch \<Rightarrow> (nat \<times> AckBatch) option" where
  "full_segment_to_ack (SegRange r) batch =
     Some (rs_len r, batch\<lparr>ab_ranges := ab_ranges batch @ [AckRange_new (rs_start_seq r) (rs_len r)]\<rparr>)"
| "full_segment_to_ack (SegMask m) batch = do {
     bits \<leftarrow> extract_all_remaining_bits (ms_original_mask m) (ms_remaining_rank_mask m);
     let n = count_ones bits;
     Some (n, if bits \<noteq> 0
       then batch\<lparr>ab_masks := ab_masks batch @ [AckMask_new (ms_block m) (ms_word m) bits]\<rparr> else batch)
   }"

fun partial_segment_to_ack ::
  "DeliveredSegment \<Rightarrow> nat \<Rightarrow> AckBatch \<Rightarrow> (nat \<times> DeliveredSegment \<times> AckBatch) option" where
  "partial_segment_to_ack (SegRange r) tag batch = do {
     d \<leftarrow> sub_uint tag (rs_first_tag r);
     d1 \<leftarrow> add_u64 d 1;
     let consumed = as_u32 d1;
     let batch = batch\<lparr>ab_ranges := ab_ranges batch @ [AckRange_new (rs_start_seq r) consumed]\<rparr>;
     t \<leftarrow> add_u64 (rs_first_tag r) consumed;
     q \<leftarrow> add_u64 (rs_start_seq r) consumed;
     l \<leftarrow> sub_uint (rs_len r) consumed;
     Some (consumed, SegRange (r\<lparr>rs_first_tag := t, rs_start_seq := q, rs_len := l\<rparr>), batch)
   }"
| "partial_segment_to_ack (SegMask m) tag batch = do {
     d \<leftarrow> sub_uint tag (ms_first_tag m);
     let up_to_rank = as_u32 d;
     (bits, remaining) \<leftarrow> extract_bits_up_to_rank (ms_original_mask m) (ms_remaining_rank_mask m) up_to_rank;
     let n = count_ones bits;
     Some (n, SegMask (m\<lparr>ms_remaining_rank_mask := remaining\<rparr>),
       if bits \<noteq> 0
       then batch\<lparr>ab_masks := ab_masks batch @ [AckMask_new (ms_block m) (ms_word m) bits]\<rparr> else batch)
   }"

fun full_segment_to_nack :: "DeliveredSegment \<Rightarrow> NackBatch \<Rightarrow> (nat \<times> NackBatch) option" where
  "full_segment_to_nack (SegRange r) batch =
     Some (rs_len r, batch\<lparr>nb_ranges := nb_ranges batch @ [NackRange_new (rs_start_seq r) (rs_len r)]\<rparr>)"
| "full_segment_to_nack (SegMask m) batch = do {
     bits \<leftarrow> extract_all_remaining_bits (ms_original_mask m) (ms_remaining_rank_mask m);
     let n = count_ones bits;
     Some (n, if bits \<noteq> 0
       then batch\<lparr>nb_masks := nb_masks batch @ [NackMask_new (ms_block m) (ms_word m) bits]\<rparr> else batch)
   }"

fun partial_segment_to_nack ::
  "DeliveredSegment \<Rightarrow> nat \<Rightarrow> NackBatch \<Rightarrow> (nat \<times> DeliveredSegment \<times> NackBatch) option" where
  "partial_segment_to_nack (SegRange r) tag batch = do {
     d \<leftarrow> sub_uint tag (rs_first_tag r);
     d1 \<leftarrow> add_u64 d 1;
     let consumed = as_u32 d1;
     let batch = batch\<lparr>nb_ranges := nb_ranges batch @ [NackRange_new (rs_start_seq r) consumed]\<rparr>;
     t \<leftarrow> add_u64 (rs_first_tag r) consumed;
     q \<leftarrow> add_u64 (rs_start_seq r) consumed;
     l \<leftarrow> sub_uint (rs_len r) consumed;
     Some (consumed, SegRange (r\<lparr>rs_first_tag := t, rs_start_seq := q, rs_len := l\<rparr>), batch)
   }"
| "partial_segment_to_nack (SegMask m) tag batch = do {
     d \<leftarrow> sub_uint tag (ms_first_tag m);
     let up_to_rank = as_u32 d;
     (bits, remaining) \<leftarrow> extract_bits_up_to_rank (ms_original_mask m) (ms_remaining_rank_mask m) up_to_rank;
     let n = count_ones bits;
     Some (n, SegMask (m\<lparr>ms_remaining_rank_mask := remaining\<rparr>),
       if bits \<noteq> 0
       then batch\<lparr>nb_masks := nb_masks batch @ [NackMask_new (ms_block m) (ms_word m) bits]\<rparr> else batch)
   }"

section \<open>Window operations\<close>

definition push_range :: "SegmentDeliveryWindow \<Rightarrow> nat \<Rightarrow> DeliveryRange \<Rightarrow> 8 word \<Rightarrow> SegmentDeliveryWindow option" where
  "push_range w first_tag rng flags = do {
     let segs = sw_segments w @ [SegRange (RangeSegment_new first_tag (dr_start_seq rng) (dr_len rng) flags)];
     u \<leftarrow> add_u32 (sw_unacked w) (dr_len rng);
     Some (w\<lparr>sw_segments := segs, sw_unacked := u\<rparr>)
   }"

definition push_mask :: "SegmentDeliveryWindow \<Rightarrow> nat \<Rightarrow> DeliveryMask \<Rightarrow> nat \<Rightarrow> 8 word \<Rightarrow> SegmentDeliveryWindow option" where
  "push_mask w first_tag m n flags = do {
     seg \<leftarrow> MaskSegment_new first_tag (dm_block m) (dm_word m) (dm_mask m) flags;
     u \<leftarrow> add_u32 (sw_unacked w) n;
     Some (w\<lparr>sw_segments := sw_segments w @ [SegMask seg], sw_unacked := u\<rparr>)
   }"

fun window_contains :: "DeliveredSegment list \<Rightarrow> nat \<Rightarrow> bool option" where
  "window_contains [] tag = Some False"
| "window_contains (s # ss) tag = do {
     c \<leftarrow> seg_contains_tag s tag;
     (if c then Some True else window_contains ss tag)
   }"

fun ack_entry :: "OneEntry \<Rightarrow> AckBatch" where
  "ack_entry (EntryRange seq) = ack_batch_default\<lparr>ab_ranges := [AckRange_new seq 1]\<rparr>"
| "ack_entry (EntryMask b w bt) = ack_batch_default\<lparr>ab_masks := [AckMask_new b w bt]\<rparr>"

fun nack_entry :: "NackReason \<Rightarrow> OneEntry \<Rightarrow> NackBatch" where
  "nack_entry reason (EntryRange seq) = (nack_batch_new reason)\<lparr>nb_ranges := [NackRange_new seq 1]\<rparr>"
| "nack_entry reason (EntryMask b w bt) = (nack_batch_new reason)\<lparr>nb_masks := [NackMask_new b w bt]\<rparr>"

definition ack_one ::
  "SegmentDeliveryWindow \<Rightarrow> nat \<Rightarrow> ((ConsumerError + AckBatch) \<times> SegmentDeliveryWindow) option" where
  "ack_one w tag = do {
     x \<leftarrow> find_segment_idx (sw_segments w) tag;
     (case x of
        None \<Rightarrow> Some (Inl InvalidDeliveryTag, w)
      | Some i \<Rightarrow> do {
          seg \<leftarrow> idx (sw_segments w) i;
          (entry, action) \<leftarrow> compute_one_action seg tag;
          segs \<leftarrow> apply_seg_action (sw_segments w) i action;
          u \<leftarrow> sub_uint (sw_unacked w) 1;
          Some (Inr (ack_entry entry), w\<lparr>sw_segments := segs, sw_unacked := u\<rparr>)
        })
   }"

definition nack_one ::
  "SegmentDeliveryWindow \<Rightarrow> nat \<Rightarrow> NackReason \<Rightarrow> ((ConsumerError + NackBatch) \<times> SegmentDeliveryWindow) option" where
  "nack_one w tag reason = do {
     x \<leftarrow> find_segment_idx (sw_segments w) tag;
     (case x of
        None \<Rightarrow> Some (Inl InvalidDeliveryTag, w)
      | Some i \<Rightarrow> do {
          seg \<leftarrow> idx (sw_segments w) i;
          (entry, action) \<leftarrow> compute_one_action seg tag;
          segs \<leftarrow> apply_seg_action (sw_segments w) i action;
          u \<leftarrow> sub_uint (sw_unacked w) 1;
          Some (Inr (nack_entry reason entry), w\<lparr>sw_segments := segs, sw_unacked := u\<rparr>)
        })
   }"

fun ack_multiple_loop ::
  "DeliveredSegment list \<Rightarrow> nat \<Rightarrow> AckBatch \<Rightarrow> nat \<Rightarrow> (DeliveredSegment list \<times> AckBatch \<times> nat) option" where
  "ack_multiple_loop [] tag batch settled = Some ([], batch, settled)"
| "ack_multiple_loop (s # ss) tag batch settled = do {
     l \<leftarrow> seg_last_tag s;
     (if l \<le> tag then do {
        (n, batch) \<leftarrow> full_segment_to_ack s batch;
        settled \<leftarrow> add_u32 settled n;
        (if l = tag then Some (ss, batch, settled) else ack_multiple_loop ss tag batch settled)
      } else do {
        (n, s, batch) \<leftarrow> partial_segment_to_ack s tag batch;
        settled \<leftarrow> add_u32 settled n;
        Some (s # ss, batch, settled)
      })
   }"

definition ack_multiple ::
  "SegmentDeliveryWindow \<Rightarrow> nat \<Rightarrow> ((ConsumerError + AckBatch) \<times> SegmentDeliveryWindow) option" where
  "ack_multiple w tag = do {
     c \<leftarrow> window_contains (sw_segments w) tag;
     (if \<not> c then Some (Inl InvalidDeliveryTag, w)
      else do {
        (segs, batch, settled) \<leftarrow> ack_multiple_loop (sw_segments w) tag ack_batch_default 0;
        u \<leftarrow> sub_uint (sw_unacked w) settled;
        Some (Inr batch, w\<lparr>sw_segments := segs, sw_unacked := u\<rparr>)
      })
   }"

fun nack_multiple_loop ::
  "DeliveredSegment list \<Rightarrow> nat \<Rightarrow> NackBatch \<Rightarrow> nat \<Rightarrow> (DeliveredSegment list \<times> NackBatch \<times> nat) option" where
  "nack_multiple_loop [] tag batch settled = Some ([], batch, settled)"
| "nack_multiple_loop (s # ss) tag batch settled = do {
     l \<leftarrow> seg_last_tag s;
     (if l \<le> tag then do {
        (n, batch) \<leftarrow> full_segment_to_nack s batch;
        settled \<leftarrow> add_u32 settled n;
        (if l = tag then Some (ss, batch, settled) else nack_multiple_loop ss tag batch settled)
      } else do {
        (n, s, batch) \<leftarrow> partial_segment_to_nack s tag batch;
        settled \<leftarrow> add_u32 settled n;
        Some (s # ss, batch, settled)
      })
   }"

definition nack_multiple ::
  "SegmentDeliveryWindow \<Rightarrow> nat \<Rightarrow> NackReason \<Rightarrow> ((ConsumerError + NackBatch) \<times> SegmentDeliveryWindow) option" where
  "nack_multiple w tag reason = do {
     c \<leftarrow> window_contains (sw_segments w) tag;
     (if \<not> c then Some (Inl InvalidDeliveryTag, w)
      else do {
        (segs, batch, settled) \<leftarrow> nack_multiple_loop (sw_segments w) tag (nack_batch_new reason) 0;
        u \<leftarrow> sub_uint (sw_unacked w) settled;
        Some (Inr batch, w\<lparr>sw_segments := segs, sw_unacked := u\<rparr>)
      })
   }"

fun drain_loop :: "DeliveredSegment list \<Rightarrow> NackBatch \<Rightarrow> NackBatch option" where
  "drain_loop [] batch = Some batch"
| "drain_loop (s # ss) batch = do {
     (_, batch) \<leftarrow> full_segment_to_nack s batch;
     drain_loop ss batch
   }"

definition drain_all :: "SegmentDeliveryWindow \<Rightarrow> NackReason \<Rightarrow> (NackBatch \<times> SegmentDeliveryWindow) option" where
  "drain_all w reason = do {
     batch \<leftarrow> drain_loop (sw_segments w) (nack_batch_new reason);
     Some (batch, w\<lparr>sw_segments := [], sw_unacked := 0\<rparr>)
   }"

end
