(* ===== verification/Window_Inv.thy ===== *)
theory Window_Inv
  imports Consumer_Window "HOL-Library.Multiset"
begin

text \<open>
  What the delivery window stands for: the list of outstanding pairs of tag and sequence number
  in tag order. \<open>segs_wf\<close> is its invariant. Settling one tag removes its pair, settling up to
  a tag removes the pairs up to it, and the batch that is returned names exactly the sequence
  numbers of the removed pairs. The contract \<open>segment_sink\<close> is shared by the batches of
  acknowledgements and of negative acknowledgements.
\<close>

section \<open>Outstanding deliveries\<close>

fun seg_entries :: "DeliveredSegment \<Rightarrow> (nat \<times> nat) list" where
  "seg_entries (SegRange r) = map (\<lambda>i. (rs_first_tag r + i, rs_start_seq r + i)) [0..<rs_len r]"
| "seg_entries (SegMask m) =
     map (\<lambda>k. (ms_first_tag m + k, 256 * ms_block m + 64 * ms_word m + bits_of (ms_original_mask m) ! k))
       (filter (bit (ms_remaining_rank_mask m)) [0..<original_count m])"

fun seg_first :: "DeliveredSegment \<Rightarrow> nat" where
  "seg_first (SegRange r) = rs_first_tag r"
| "seg_first (SegMask m) = ms_first_tag m"

fun seg_stop :: "DeliveredSegment \<Rightarrow> nat" where
  "seg_stop (SegRange r) = rs_first_tag r + rs_len r"
| "seg_stop (SegMask m) = ms_first_tag m + original_count m"

fun seg_wf :: "DeliveredSegment \<Rightarrow> bool" where
  "seg_wf (SegRange r) \<longleftrightarrow> 0 < rs_len r \<and> rs_len r \<le> u32_max \<and> rs_first_tag r + rs_len r \<le> u64_max \<and>
     rs_start_seq r + rs_len r \<le> u64_max"
| "seg_wf (SegMask m) \<longleftrightarrow> ms_original_mask m \<noteq> 0 \<and> ms_word m < 4 \<and> ms_first_tag m + original_count m \<le> u64_max \<and>
     (\<forall>j. bit (ms_remaining_rank_mask m) j \<longrightarrow> j < original_count m)"

definition segs_entries :: "DeliveredSegment list \<Rightarrow> (nat \<times> nat) list" where
  "segs_entries segs = concat (map seg_entries segs)"

definition segs_wf :: "DeliveredSegment list \<Rightarrow> bool" where
  "segs_wf segs \<longleftrightarrow> (\<forall>s\<in>set segs. seg_wf s) \<and> sorted_wrt (\<lambda>s t. seg_stop s \<le> seg_first t) segs"

lemma segs_entries_simps [simp]:
  "segs_entries [] = []" "segs_entries (s # ss) = seg_entries s @ segs_entries ss"
  "segs_entries (ss @ ts) = segs_entries ss @ segs_entries ts"
  by (simp_all add: segs_entries_def)

lemma segs_wf_simps [simp]:
  "segs_wf []" "segs_wf (s # ss) \<longleftrightarrow> seg_wf s \<and> (\<forall>t\<in>set ss. seg_stop s \<le> seg_first t) \<and> segs_wf ss"
  "segs_wf (ss @ ts) \<longleftrightarrow> segs_wf ss \<and> segs_wf ts \<and> (\<forall>s\<in>set ss. \<forall>t\<in>set ts. seg_stop s \<le> seg_first t)"
  by (auto simp: segs_wf_def sorted_wrt_append)

lemma original_count_le: "original_count m \<le> 64"
  using count_ones_le [of "ms_original_mask m"] by (simp add: original_count_def)

lemma seg_first_less: "seg_wf s \<Longrightarrow> seg_first s < seg_stop s"
  by (cases s) (auto simp: original_count_def count_ones_pos)

lemma entry_tags: "e \<in> set (seg_entries s) \<Longrightarrow> seg_first s \<le> fst e \<and> fst e < seg_stop s"
  by (cases s) auto

lemma segs_entry_tags: "e \<in> set (segs_entries segs) \<Longrightarrow> \<exists>s\<in>set segs. seg_first s \<le> fst e \<and> fst e < seg_stop s"
  using entry_tags by (fastforce simp: segs_entries_def)

lemma sorted_seg_tags: "sorted_wrt (<) (map fst (seg_entries s))"
proof (cases s)
  case (SegMask m)
  have "sorted_wrt (<) (filter (bit (ms_remaining_rank_mask m)) [0..<original_count m])" by (simp add: sorted_wrt_filter)
  then show ?thesis by (simp add: SegMask sorted_wrt_map)
qed (simp add: sorted_wrt_map)

lemma sorted_segs_tags: "segs_wf segs \<Longrightarrow> sorted_wrt (<) (map fst (segs_entries segs))"
proof (induction segs)
  case (Cons s segs)
  have "fst e < fst e'" if "e \<in> set (seg_entries s)" "e' \<in> set (segs_entries segs)" for e e'
    using entry_tags [OF that(1)] segs_entry_tags [OF that(2)] Cons.prems by fastforce
  then show ?case using Cons sorted_seg_tags by (auto simp: sorted_wrt_append)
qed simp

lemma distinct_tags: "segs_wf segs \<Longrightarrow> distinct (map fst (segs_entries segs))"
  using sorted_segs_tags strict_sorted_iff by blast

section \<open>Lookup\<close>

lemma seg_contains_tag_ok:
  assumes "seg_wf s"
  shows "seg_contains_tag s tag = Some (tag \<in> fst ` set (seg_entries s))"
proof (cases s)
  case (SegRange r)
  have "tag \<in> fst ` set (seg_entries s) \<longleftrightarrow> rs_first_tag r \<le> tag \<and> tag < rs_first_tag r + rs_len r"
    by (auto simp: SegRange image_iff intro!: bexI [of _ "tag - rs_first_tag r"])
  then show ?thesis using assms by (auto simp: SegRange range_contains_tag_def add_u64_def)
next
  case (SegMask m)
  have "tag \<in> fst ` set (seg_entries s) \<longleftrightarrow> ms_first_tag m \<le> tag \<and> tag - ms_first_tag m < original_count m \<and>
      bit (ms_remaining_rank_mask m) (tag - ms_first_tag m)"
    by (auto simp: SegMask image_iff intro!: bexI [of _ "tag - ms_first_tag m"])
  then show ?thesis
    using original_count_le [of m]
    by (auto simp: SegMask mask_contains_tag_def shl_u64_def Let_def and_exp_eq_0_iff_not_bit)
qed

lemma seg_last_tag_ok: "seg_wf s \<Longrightarrow> seg_last_tag s = Some (seg_stop s - 1)"
  using seg_first_less [of s]
  by (cases s) (auto simp: range_last_tag_def mask_last_tag_def add_u64_def sub_uint_def)

lemma window_contains_ok:
  "segs_wf segs \<Longrightarrow> window_contains segs tag = Some (tag \<in> fst ` set (segs_entries segs))"
  by (induction segs) (auto simp: seg_contains_tag_ok image_Un)

lemma find_segment_idx_ok:
  assumes "segs_wf segs"
  shows "find_segment_idx segs tag = Some None \<and> tag \<notin> fst ` set (segs_entries segs) \<or>
    (\<exists>pre s post. segs = pre @ s # post \<and> find_segment_idx segs tag = Some (Some (length pre)) \<and>
      tag \<in> fst ` set (seg_entries s))"
  using assms
proof (induction segs)
  case (Cons s segs)
  show ?case
  proof (cases "tag \<in> fst ` set (seg_entries s)")
    case True
    then show ?thesis
      using Cons.prems by (intro disjI2 exI [of _ "[]"] exI [of _ s] exI [of _ segs]) (simp add: seg_contains_tag_ok)
  next
    case False
    have "segs_wf segs" using Cons.prems by simp
    from Cons.IH [OF this] show ?thesis
    proof (elim disjE exE conjE)
      assume "find_segment_idx segs tag = Some None" "tag \<notin> fst ` set (segs_entries segs)"
      then show ?thesis using False Cons.prems by (intro disjI1) (auto simp: seg_contains_tag_ok)
    next
      fix pre t post
      assume "segs = pre @ t # post" "find_segment_idx segs tag = Some (Some (length pre))" "tag \<in> fst ` set (seg_entries t)"
      then show ?thesis
        using False Cons.prems
        by (intro disjI2 exI [of _ "s # pre"] exI [of _ t] exI [of _ post]) (simp add: seg_contains_tag_ok)
    qed
  qed
qed simp

section \<open>Settling one tag\<close>

fun entry_seqs :: "OneEntry \<Rightarrow> nat list" where
  "entry_seqs (EntryRange seq) = [seq]"
| "entry_seqs (EntryMask b w bt) = mask_list b w bt"

text \<open>The segments that replace \<open>s\<close>.\<close>

definition one_action_post :: "DeliveredSegment \<Rightarrow> nat \<Rightarrow> OneEntry \<Rightarrow> DeliveredSegment list \<Rightarrow> bool" where
  "one_action_post s tag entry mid \<longleftrightarrow>
     segs_wf mid \<and> (\<forall>t\<in>set mid. seg_first s \<le> seg_first t \<and> seg_stop t \<le> seg_stop s) \<and>
     segs_entries mid = filter (\<lambda>e. fst e \<noteq> tag) (seg_entries s) \<and>
     (\<exists>q. (tag, q) \<in> set (seg_entries s) \<and> entry_seqs entry = [q]) \<and>
     (\<forall>b w bt. entry = EntryMask b w bt \<longrightarrow> w < 4 \<and> bt \<noteq> 0)"

lemma as_u32_le: "n \<le> u32_max \<Longrightarrow> as_u32 n = n"
  by (simp add: as_u32_def u32_max_def)

lemma deque_remove_mid: "deque_remove (length pre) (pre @ s # post) = pre @ post"
  by (simp add: deque_remove_def)

lemma filter_range:
  assumes "k < n"
  shows "filter (\<lambda>e. fst e \<noteq> t + k) (map (\<lambda>i. (t + i, q + i)) [0..<n]) =
    map (\<lambda>i. (t + i, q + i)) [0..<k] @ map (\<lambda>i. (t + Suc k + i, q + Suc k + i)) [0..<n - Suc k]"
proof -
  have "[0..<n] = [0..<k] @ k # [Suc k..<n]"
    using assms by (metis le0 less_imp_le_nat upt_add_eq_append upt_conv_Cons le_add_diff_inverse plus_nat.add_0)
  moreover have "map (\<lambda>i. (t + i, q + i)) [Suc k..<n] = map (\<lambda>i. (t + Suc k + i, q + Suc k + i)) [0..<n - Suc k]"
    by (rule nth_equalityI) (auto simp: add.assoc)
  moreover have "filter (\<lambda>e. fst e \<noteq> t + k) (map (\<lambda>i. (t + i, q + i)) [0..<k]) = map (\<lambda>i. (t + i, q + i)) [0..<k]"
    by (rule filter_True) auto
  moreover have "filter (\<lambda>e. fst e \<noteq> t + k) (map (\<lambda>i. (t + i, q + i)) [Suc k..<n]) = map (\<lambda>i. (t + i, q + i)) [Suc k..<n]"
    by (rule filter_True) auto
  ultimately show ?thesis by simp
qed

definition one_action :: "DeliveredSegment list \<Rightarrow> nat \<Rightarrow> DeliveredSegment \<Rightarrow> nat \<Rightarrow> (OneEntry \<times> DeliveredSegment list) option" where
  "one_action segs i s tag = do {
     (entry, action) \<leftarrow> compute_one_action s tag;
     segs \<leftarrow> apply_seg_action segs i action;
     Some (entry, segs)
   }"

lemma range_one_action:
  assumes wf: "seg_wf (SegRange r)" and k: "k < rs_len r"
  shows "ok (one_action (pre @ SegRange r # post) (length pre) (SegRange r) (rs_first_tag r + k)) (\<lambda>(entry, segs).
    \<exists>mid. segs = pre @ mid @ post \<and> one_action_post (SegRange r) (rs_first_tag r + k) entry mid)"
proof -
  let ?n = "rs_len r" and ?t = "rs_first_tag r" and ?q = "rs_start_seq r"
  define left where "left = r\<lparr>rs_len := k\<rparr>"
  define right where "right = \<lparr>rs_first_tag = ?t + Suc k, rs_start_seq = ?q + Suc k, rs_len = ?n - Suc k, rs_flags = rs_flags r\<rparr>"
  define mid where "mid = (if k = 0 then [] else [SegRange left]) @ (if Suc k = ?n then [] else [SegRange right])"
  have pos: "0 < ?n" "?n \<le> u32_max" "?t + ?n \<le> u64_max" "?q + ?n \<le> u64_max" using wf by auto
  have "segs_wf mid" using pos k by (auto simp: mid_def left_def right_def)
  moreover have "\<forall>t\<in>set mid. seg_first (SegRange r) \<le> seg_first t \<and> seg_stop t \<le> seg_stop (SegRange r)"
    using k by (auto simp: mid_def left_def right_def)
  moreover have "segs_entries mid = filter (\<lambda>e. fst e \<noteq> ?t + k) (seg_entries (SegRange r))"
    using k by (auto simp: mid_def left_def right_def filter_range)
  moreover have "(?t + k, ?q + k) \<in> set (seg_entries (SegRange r))" using k by auto
  ultimately have post: "one_action_post (SegRange r) (?t + k) (EntryRange (?q + k)) mid"
    by (simp add: one_action_post_def)
  have "one_action (pre @ SegRange r # post) (length pre) (SegRange r) (?t + k) = Some (EntryRange (?q + k), pre @ mid @ post)"
    using pos k
    by (cases r) (auto simp: one_action_def seq_of_def as_u32_le Let_def sub_uint_def add_u64_def deque_remove_mid idx_def upd_def mid_def left_def right_def
        deque_insert_def split: if_splits)
  then show ?thesis using post by auto
qed

lemma mask_list_single: "i < 64 \<Longrightarrow> mask_list b w (push_bit i 1) = [256 * b + 64 * w + i]"
proof -
  assume "i < 64"
  then have "bits_of (push_bit i 1 :: 64 word) = [i]" by (intro bits_of_unique) auto
  then show ?thesis by (simp add: mask_list_def)
qed

lemma bits_of_nth_less: "k < count_ones w \<Longrightarrow> bits_of w ! k < LENGTH('a)" for w :: "'a::len word"
  using bits_of_less [of "bits_of w ! k" w] nth_mem by (fastforce simp: count_ones_def)

lemma count_ones_one: "count_ones w = 1 \<Longrightarrow> bit w k \<Longrightarrow> bit w j \<Longrightarrow> j = k"
  unfolding count_ones_card by (metis card_1_singletonE mem_Collect_eq singletonD)

lemma mask_one_action:
  assumes wf: "seg_wf (SegMask m)" and k: "bit (ms_remaining_rank_mask m) k"
  shows "ok (one_action (pre @ SegMask m # post) (length pre) (SegMask m) (ms_first_tag m + k)) (\<lambda>(entry, segs).
    \<exists>mid. segs = pre @ mid @ post \<and> one_action_post (SegMask m) (ms_first_tag m + k) entry mid)"
proof -
  let ?om = "ms_original_mask m" and ?rem = "ms_remaining_rank_mask m" and ?t = "ms_first_tag m"
  let ?i = "bits_of ?om ! k"
  have kc: "k < original_count m" using wf k by simp
  have k64: "k < 64" using kc original_count_le [of m] by simp
  have i64: "?i < 64" using bits_of_nth_less [of k ?om] kc by (simp add: original_count_def)
  define rem' where "rem' = ?rem AND NOT (push_bit k 1)"
  have rem': "bit rem' j \<longleftrightarrow> bit ?rem j \<and> j \<noteq> k" for j
    using k64 by (auto simp: rem'_def bit_and_iff bit_not_iff possible_bit_def dest: bit_imp_le_length)
  let ?entry = "EntryMask (ms_block m) (ms_word m) (push_bit ?i 1)"
  define mid where "mid = (if count_ones ?rem = 1 then [] else [SegMask (m\<lparr>ms_remaining_rank_mask := rem'\<rparr>)])"
  have f: "filter (\<lambda>e. fst e \<noteq> ?t + k) (seg_entries (SegMask m)) =
      map (\<lambda>k. (?t + k, 256 * ms_block m + 64 * ms_word m + bits_of ?om ! k))
        (filter (\<lambda>j. bit ?rem j \<and> j \<noteq> k) [0..<original_count m])"
    by (simp add: filter_map comp_def filter_filter conj_commute)
  have e0: "filter (\<lambda>j. bit ?rem j \<and> j \<noteq> k) [0..<original_count m] = []" if "count_ones ?rem = 1"
    using count_ones_one [OF that k] by (auto simp: filter_empty_conv)
  have "segs_entries mid = filter (\<lambda>e. fst e \<noteq> ?t + k) (seg_entries (SegMask m))"
    unfolding f using e0 by (auto simp: mid_def rem' [abs_def] original_count_def)
  moreover have "segs_wf mid" "\<forall>t\<in>set mid. seg_first (SegMask m) \<le> seg_first t \<and> seg_stop t \<le> seg_stop (SegMask m)"
    using wf by (auto simp: mid_def rem' original_count_def)
  moreover have "(?t + k, 256 * ms_block m + 64 * ms_word m + ?i) \<in> set (seg_entries (SegMask m))"
    using k kc by auto
  moreover have "push_bit ?i 1 \<noteq> (0 :: 64 word)" using i64 by (simp add: push_bit_eq_0_iff)
  ultimately have post: "one_action_post (SegMask m) (?t + k) ?entry mid"
    using wf mask_list_single [OF i64] by (auto simp: one_action_post_def)
  have "compute_one_action (SegMask m) (?t + k) =
      Some (?entry, if count_ones ?rem = 1 then MaskRemove else MaskClearRank k)"
    using kc k64 bit_for_rank_ok [of k ?om]
    by (simp add: sub_uint_def as_u32_le u32_max_def original_count_def)
  then have "one_action (pre @ SegMask m # post) (length pre) (SegMask m) (?t + k) = Some (?entry, pre @ mid @ post)"
    using k64 by (simp add: one_action_def mid_def rem'_def deque_remove_mid idx_def upd_def shl_u64_def)
  then show ?thesis using post by auto
qed

lemma one_action_ok:
  assumes "seg_wf s" and "tag \<in> fst ` set (seg_entries s)"
  shows "ok (one_action (pre @ s # post) (length pre) s tag) (\<lambda>(entry, segs).
    \<exists>mid. segs = pre @ mid @ post \<and> one_action_post s tag entry mid)"
proof (cases s)
  case (SegRange r)
  then obtain k where "k < rs_len r" "tag = rs_first_tag r + k" using assms(2) by auto
  then show ?thesis using range_one_action [of r k] assms(1) SegRange by simp
next
  case (SegMask m)
  then obtain k where "bit (ms_remaining_rank_mask m) k" "tag = ms_first_tag m + k" using assms(2) by auto
  then show ?thesis using mask_one_action [of m k] assms(1) SegMask by simp
qed

section \<open>The window invariant\<close>

text \<open>\<open>nt\<close> is the next tag the session assigns.\<close>

definition window_inv :: "nat \<Rightarrow> SegmentDeliveryWindow \<Rightarrow> bool" where
  "window_inv nt w \<longleftrightarrow> segs_wf (sw_segments w) \<and> (\<forall>s\<in>set (sw_segments w). seg_stop s \<le> nt) \<and>
     sw_unacked w = length (segs_entries (sw_segments w)) \<and> sw_unacked w \<le> u32_max"

abbreviation window_entries :: "SegmentDeliveryWindow \<Rightarrow> (nat \<times> nat) list" where
  "window_entries w \<equiv> segs_entries (sw_segments w)"

lemma window_tags_less: "window_inv nt w \<Longrightarrow> e \<in> set (window_entries w) \<Longrightarrow> fst e < nt"
  using segs_entry_tags by (fastforce simp: window_inv_def)

lemma filter_one:
  "distinct (map fst xs) \<Longrightarrow> (tag, q) \<in> set xs \<Longrightarrow> filter (\<lambda>e. fst e = tag) xs = [(tag, q)]"
proof (induction xs)
  case (Cons x xs)
  show ?case
  proof (cases "fst x = tag")
    case True
    then have "tag \<notin> fst ` set xs" using Cons.prems(1) by simp
    then have "filter (\<lambda>e. fst e = tag) xs = []" "(tag, q) \<notin> set xs" by (auto simp: filter_empty_conv image_iff)
    then show ?thesis using True Cons.prems(2) by auto
  next
    case False
    then show ?thesis using Cons by auto
  qed
qed simp

lemma length_filter_one:
  "distinct (map fst xs) \<Longrightarrow> tag \<in> fst ` set xs \<Longrightarrow> length (filter (\<lambda>e. fst e \<noteq> tag) xs) = length xs - 1"
proof (induction xs)
  case (Cons x xs)
  show ?case
  proof (cases "fst x = tag")
    case True
    then have "tag \<notin> fst ` set xs" using Cons.prems(1) by simp
    then have "filter (\<lambda>e. fst e \<noteq> tag) xs = xs" by (auto simp: filter_id_conv image_iff)
    then show ?thesis using True by simp
  next
    case False
    then have "tag \<in> fst ` set xs" using Cons.prems(2) by auto
    then have "0 < length xs" by (cases xs) auto
    then show ?thesis using False Cons \<open>tag \<in> fst ` set xs\<close> by simp
  qed
qed simp

lemma replace_segment:
  assumes wf: "segs_wf (pre @ s # post)" and p: "one_action_post s tag entry mid"
  shows "segs_wf (pre @ mid @ post)"
    and "segs_entries (pre @ mid @ post) = filter (\<lambda>e. fst e \<noteq> tag) (segs_entries (pre @ s # post))"
    and "\<forall>t\<in>set (pre @ s # post). seg_stop t \<le> nt \<Longrightarrow> \<forall>t\<in>set (pre @ mid @ post). seg_stop t \<le> nt"
proof -
  have mid: "segs_wf mid" "\<And>t. t \<in> set mid \<Longrightarrow> seg_first s \<le> seg_first t \<and> seg_stop t \<le> seg_stop s"
    using p by (auto simp: one_action_post_def)
  show "segs_wf (pre @ mid @ post)" using wf mid by (fastforce simp: le_trans)
  have tag: "seg_first s \<le> tag" "tag < seg_stop s" using p entry_tags by (fastforce simp: one_action_post_def)+
  have "filter (\<lambda>e. fst e \<noteq> tag) (segs_entries pre) = segs_entries pre"
    "filter (\<lambda>e. fst e \<noteq> tag) (segs_entries post) = segs_entries post"
    using wf tag segs_entry_tags by (fastforce intro!: filter_True)+
  then show "segs_entries (pre @ mid @ post) = filter (\<lambda>e. fst e \<noteq> tag) (segs_entries (pre @ s # post))"
    using p by (simp add: one_action_post_def)
  show "\<forall>t\<in>set (pre @ s # post). seg_stop t \<le> nt \<Longrightarrow> \<forall>t\<in>set (pre @ mid @ post). seg_stop t \<le> nt"
    using mid(2) by (fastforce intro: le_trans)
qed

text \<open>The part that \<open>ack_one\<close> and \<open>nack_one\<close> share: look the tag up and take its pair out.\<close>

definition take_one :: "SegmentDeliveryWindow \<Rightarrow> nat \<Rightarrow> (OneEntry option \<times> SegmentDeliveryWindow) option" where
  "take_one w tag = do {
     x \<leftarrow> find_segment_idx (sw_segments w) tag;
     (case x of
        None \<Rightarrow> Some (None, w)
      | Some i \<Rightarrow> do {
          seg \<leftarrow> idx (sw_segments w) i;
          (entry, segs) \<leftarrow> one_action (sw_segments w) i seg tag;
          u \<leftarrow> sub_uint (sw_unacked w) 1;
          Some (Some entry, w\<lparr>sw_segments := segs, sw_unacked := u\<rparr>)
        })
   }"

lemma ack_one_take: "ack_one w tag = map_option (\<lambda>(x, w').
    (case x of None \<Rightarrow> Inl InvalidDeliveryTag | Some e \<Rightarrow> Inr (ack_entry e), w')) (take_one w tag)"
  by (auto simp: ack_one_def take_one_def one_action_def split: option.splits prod.splits Option.bind_splits)

lemma nack_one_take: "nack_one w tag reason = map_option (\<lambda>(x, w').
    (case x of None \<Rightarrow> Inl InvalidDeliveryTag | Some e \<Rightarrow> Inr (nack_entry reason e), w')) (take_one w tag)"
  by (auto simp: nack_one_def take_one_def one_action_def split: option.splits prod.splits Option.bind_splits)

lemma take_one_ok:
  assumes inv: "window_inv nt w"
  shows "ok (take_one w tag) (\<lambda>(x, w'). window_inv nt w' \<and>
    (case x of
       None \<Rightarrow> tag \<notin> fst ` set (window_entries w) \<and> w' = w
     | Some entry \<Rightarrow> \<exists>q. (tag, q) \<in> set (window_entries w) \<and> entry_seqs entry = [q] \<and>
         (\<forall>b w bt. entry = EntryMask b w bt \<longrightarrow> w < 4 \<and> bt \<noteq> 0) \<and>
         window_entries w' = filter (\<lambda>e. fst e \<noteq> tag) (window_entries w)))"
proof -
  have wf: "segs_wf (sw_segments w)" using inv by (simp add: window_inv_def)
  from find_segment_idx_ok [OF wf, of tag] show ?thesis
  proof (elim disjE exE conjE)
    assume "find_segment_idx (sw_segments w) tag = Some None" "tag \<notin> fst ` set (window_entries w)"
    then show ?thesis using inv by (simp add: take_one_def)
  next
    fix pre s post
    assume segs: "sw_segments w = pre @ s # post" and i: "find_segment_idx (sw_segments w) tag = Some (Some (length pre))"
      and tag: "tag \<in> fst ` set (seg_entries s)"
    obtain entry mid where a: "one_action (sw_segments w) (length pre) s tag = Some (entry, pre @ mid @ post)"
      and p: "one_action_post s tag entry mid"
      using one_action_ok [OF _ tag, of pre post] wf segs by (auto elim!: okE)
    note rep = replace_segment [OF wf [unfolded segs] p]
    have tag': "tag \<in> fst ` set (window_entries w)" using tag segs by auto
    have "0 < length (window_entries w)" using tag' by (cases "window_entries w") auto
    have len: "length (filter (\<lambda>e. fst e \<noteq> tag) (window_entries w)) = length (window_entries w) - 1"
      by (rule length_filter_one [OF distinct_tags [OF wf] tag'])
    have q: "\<exists>q. (tag, q) \<in> set (window_entries w) \<and> entry_seqs entry = [q]"
      "\<forall>b w bt. entry = EntryMask b w bt \<longrightarrow> w < 4 \<and> bt \<noteq> 0"
      using p segs by (auto simp: one_action_post_def)
    define w' where "w' = w\<lparr>sw_segments := pre @ mid @ post, sw_unacked := sw_unacked w - 1\<rparr>"
    have un: "sw_unacked w = length (window_entries w)" "length (window_entries w) \<le> u32_max"
      using inv unfolding window_inv_def by metis+
    have sg: "sw_segments w' = pre @ mid @ post" by (simp add: w'_def)
    have en: "window_entries w' = filter (\<lambda>e. fst e \<noteq> tag) (window_entries w)"
      using rep(2) segs by (simp add: w'_def)
    have "window_inv nt w'"
      unfolding window_inv_def en len
    proof (intro conjI)
      show "segs_wf (sw_segments w')" unfolding sg by (rule rep(1))
      have "\<forall>s\<in>set (pre @ s # post). seg_stop s \<le> nt" using inv unfolding window_inv_def segs by (elim conjE)
      then show "\<forall>s\<in>set (sw_segments w'). seg_stop s \<le> nt"
        unfolding sg by (rule rep(3))
      show "sw_unacked w' = length (window_entries w) - 1" "sw_unacked w' \<le> u32_max"
        using un by (simp_all add: w'_def)
    qed
    moreover have "take_one w tag = Some (Some entry, w')"
    proof -
      have "sub_uint (sw_unacked w) 1 = Some (sw_unacked w - 1)"
        using un(1) \<open>0 < length (window_entries w)\<close> by (simp add: sub_uint_def Suc_le_eq)
      moreover have "idx (sw_segments w) (length pre) = Some s" by (simp add: segs idx_def)
      ultimately show ?thesis using i a by (simp add: take_one_def w'_def)
    qed
    ultimately show ?thesis using q en by simp
  qed
qed

lemma ack_entry_seqs: "ack_seqs (ack_entry e) = entry_seqs e"
  by (cases e) (simp_all add: ack_seqs_def ack_batch_default_def AckRange_new_def AckMask_new_def)

lemma nack_entry_seqs: "nack_seqs (nack_entry reason e) = entry_seqs e"
  by (cases e) (simp_all add: nack_seqs_def nack_batch_new_def NackRange_new_def NackMask_new_def)

lemma ack_entry_wf: "(\<forall>b w bt. e = EntryMask b w bt \<longrightarrow> w < 4 \<and> bt \<noteq> 0) \<Longrightarrow> ack_batch_wf (ack_entry e)"
  by (cases e) (simp_all add: ack_batch_wf_def ack_batch_default_def AckMask_new_def)

lemma nack_entry_wf: "(\<forall>b w bt. e = EntryMask b w bt \<longrightarrow> w < 4 \<and> bt \<noteq> 0) \<Longrightarrow> nack_batch_wf (nack_entry reason e)"
  by (cases e) (simp_all add: nack_batch_wf_def nack_batch_new_def NackMask_new_def)

section \<open>Settling up to a tag\<close>

text \<open>
  The contract between the window and the batch it fills: \<open>full\<close> appends the sequence
  numbers of a whole segment, \<open>part\<close> those of the tags up to \<open>tag\<close> and trims the segment.
\<close>

locale segment_sink =
  fixes full :: "DeliveredSegment \<Rightarrow> 'b \<Rightarrow> (nat \<times> 'b) option"
    and part :: "DeliveredSegment \<Rightarrow> nat \<Rightarrow> 'b \<Rightarrow> (nat \<times> DeliveredSegment \<times> 'b) option"
    and loop :: "DeliveredSegment list \<Rightarrow> nat \<Rightarrow> 'b \<Rightarrow> nat \<Rightarrow> (DeliveredSegment list \<times> 'b \<times> nat) option"
    and seqs :: "'b \<Rightarrow> nat list"
    and wf :: "'b \<Rightarrow> bool"
    and reason :: "'b \<Rightarrow> 'r"
  assumes full_ok: "seg_wf s \<Longrightarrow> ok (full s b) (\<lambda>(n, b'). n = length (seg_entries s) \<and>
      mset (seqs b') = mset (seqs b) + mset (map snd (seg_entries s)) \<and> (wf b \<longrightarrow> wf b') \<and> reason b' = reason b)"
    and part_ok: "seg_wf s \<Longrightarrow> seg_first s \<le> tag \<Longrightarrow> Suc tag < seg_stop s \<Longrightarrow>
      ok (part s tag b) (\<lambda>(n, s', b'). n = length (filter (\<lambda>e. fst e \<le> tag) (seg_entries s)) \<and>
      mset (seqs b') = mset (seqs b) + mset (map snd (filter (\<lambda>e. fst e \<le> tag) (seg_entries s))) \<and>
      (wf b \<longrightarrow> wf b') \<and> reason b' = reason b \<and>
      seg_wf s' \<and> seg_first s \<le> seg_first s' \<and> seg_stop s' = seg_stop s \<and>
      seg_entries s' = filter (\<lambda>e. tag < fst e) (seg_entries s))"
    and loop_Nil: "loop [] tag b settled = Some ([], b, settled)"
    and loop_Cons: "loop (s # ss) tag b settled = do {
      l \<leftarrow> seg_last_tag s;
      (if l \<le> tag then do {
         (n, b) \<leftarrow> full s b;
         settled \<leftarrow> add_u32 settled n;
         (if l = tag then Some (ss, b, settled) else loop ss tag b settled)
       } else do {
         (n, s, b) \<leftarrow> part s tag b;
         settled \<leftarrow> add_u32 settled n;
         Some (s # ss, b, settled)
       }) }"
begin

definition sunk :: "DeliveredSegment list \<Rightarrow> nat \<Rightarrow> 'b \<Rightarrow> nat \<Rightarrow> DeliveredSegment list \<times> 'b \<times> nat \<Rightarrow> bool" where
  "sunk segs tag b settled r \<longleftrightarrow> (case r of (segs', b', settled') \<Rightarrow>
     settled' = settled + length (filter (\<lambda>e. fst e \<le> tag) (segs_entries segs)) \<and>
     mset (seqs b') = mset (seqs b) + mset (map snd (filter (\<lambda>e. fst e \<le> tag) (segs_entries segs))) \<and>
     (wf b \<longrightarrow> wf b') \<and> reason b' = reason b \<and> segs_wf segs' \<and>
     (\<forall>t\<in>set segs'. \<exists>s\<in>set segs. seg_first s \<le> seg_first t \<and> seg_stop t = seg_stop s) \<and>
     segs_entries segs' = filter (\<lambda>e. tag < fst e) (segs_entries segs))"

lemma filter_whole:
  assumes "\<And>e. e \<in> set xs \<Longrightarrow> fst e \<le> (tag :: nat)"
  shows "filter (\<lambda>e. fst e \<le> tag) xs = xs" "filter (\<lambda>e. tag < fst e) xs = []"
  using assms by (auto simp: filter_id_conv filter_empty_conv not_less)

lemma filter_none:
  assumes "\<And>e. e \<in> set xs \<Longrightarrow> (tag :: nat) < fst e"
  shows "filter (\<lambda>e. fst e \<le> tag) xs = []" "filter (\<lambda>e. tag < fst e) xs = xs"
  using assms by (auto simp: filter_id_conv filter_empty_conv not_le)

lemma loop_ok:
  "segs_wf segs \<Longrightarrow> tag \<in> fst ` set (segs_entries segs) \<Longrightarrow> settled + length (segs_entries segs) \<le> u32_max \<Longrightarrow>
   ok (loop segs tag b settled) (sunk segs tag b settled)"
proof (induction segs arbitrary: b settled)
  case (Cons s ss)
  have s: "seg_wf s" "segs_wf ss" "\<And>t. t \<in> set ss \<Longrightarrow> seg_stop s \<le> seg_first t" using Cons.prems(1) by auto
  have lt: "seg_first s < seg_stop s" using seg_first_less [OF s(1)] .
  have later: "seg_stop s \<le> fst e" if "e \<in> set (segs_entries ss)" for e
    using segs_entry_tags [OF that] s(3) by fastforce
  show ?case
  proof (cases "seg_stop s - 1 \<le> tag")
    case True
    have "fst e \<le> tag" if "e \<in> set (seg_entries s)" for e using entry_tags [OF that] True by linarith
    note whole = filter_whole [of "seg_entries s" tag, OF this]
    show ?thesis
    proof (cases "seg_stop s - 1 = tag")
      case eq: True
      have "tag < fst e" if "e \<in> set (segs_entries ss)" for e using later [OF that] eq lt by simp
      note none = filter_none [of "segs_entries ss" tag, OF this]
      show ?thesis
        unfolding loop_Cons using eq s Cons.prems(3) whole none
        by (simp add: seg_last_tag_ok) (rule ok_mono [OF full_ok [OF s(1)]], auto simp: sunk_def)
    next
      case neq: False
      have "tag \<notin> fst ` set (seg_entries s)" using entry_tags [of _ s] True neq by fastforce
      then have t: "tag \<in> fst ` set (segs_entries ss)" using Cons.prems(2) by auto
      have step: "ok (loop ss tag b' (settled + length (seg_entries s))) (sunk (s # ss) tag b settled)"
        if "mset (seqs b') = mset (seqs b) + mset (map snd (seg_entries s))" "wf b \<longrightarrow> wf b'" "reason b' = reason b" for b'
      proof (rule ok_mono [OF Cons.IH [OF s(2) t]])
        show "settled + length (seg_entries s) + length (segs_entries ss) \<le> u32_max" using Cons.prems(3) by simp
        show "sunk (s # ss) tag b settled r" if "sunk ss tag b' (settled + length (seg_entries s)) r" for r
          using that \<open>mset (seqs b') = _\<close> \<open>wf b \<longrightarrow> wf b'\<close> \<open>reason b' = reason b\<close>
          unfolding sunk_def by (cases r) (simp add: whole)
      qed
      show ?thesis
        unfolding loop_Cons using True neq s(1) Cons.prems(3)
        by (simp add: seg_last_tag_ok) (rule ok_mono [OF full_ok [OF s(1)]], auto intro: step)
    qed
  next
    case False
    have "fst e \<noteq> tag" if "e \<in> set (segs_entries ss)" for e using later [OF that] False by simp
    then have "tag \<in> fst ` set (seg_entries s)" using Cons.prems(2) by auto
    then have ft: "seg_first s \<le> tag" "Suc tag < seg_stop s" using entry_tags [of _ s] False by fastforce+
    have "tag < fst e" if "e \<in> set (segs_entries ss)" for e using later [OF that] False by simp
    note none = filter_none [of "segs_entries ss" tag, OF this]
    have le: "settled + length (filter (\<lambda>e. fst e \<le> tag) (seg_entries s)) \<le> u32_max"
      using Cons.prems(3) length_filter_le [of "\<lambda>e. fst e \<le> tag" "seg_entries s"]
      unfolding segs_entries_simps length_append by linarith
    show ?thesis
      unfolding loop_Cons using False s Cons.prems(3) none le
      by (simp add: seg_last_tag_ok) (rule ok_mono [OF part_ok [OF s(1) ft]], auto simp: sunk_def)
  qed
qed simp

end

section \<open>The two batches fulfil the contract\<close>

lemma range_entry_seqs: "map snd (seg_entries (SegRange r)) = [rs_start_seq r..<rs_start_seq r + rs_len r]"
  by (rule nth_equalityI) simp_all

lemma mask_entry_seqs:
  "bits_of bits = rank_bits (ms_original_mask m) P \<Longrightarrow>
   mask_list (ms_block m) (ms_word m) bits =
     map (\<lambda>k. 256 * ms_block m + 64 * ms_word m + bits_of (ms_original_mask m) ! k) (filter P [0..<original_count m])"
  by (simp add: mask_list_def rank_bits_def original_count_def)

lemma range_split:
  assumes "rs_first_tag r \<le> tag" "Suc tag < rs_first_tag r + rs_len r"
  shows "filter (\<lambda>e. fst e \<le> tag) (seg_entries (SegRange r)) =
      map (\<lambda>i. (rs_first_tag r + i, rs_start_seq r + i)) [0..<Suc tag - rs_first_tag r]"
    and "filter (\<lambda>e. tag < fst e) (seg_entries (SegRange r)) =
      map (\<lambda>i. (Suc tag + i, rs_start_seq r + (Suc tag - rs_first_tag r) + i)) [0..<rs_len r - (Suc tag - rs_first_tag r)]"
proof -
  let ?t = "rs_first_tag r" and ?q = "rs_start_seq r" and ?c = "Suc tag - rs_first_tag r" and ?n = "rs_len r"
  have e: "seg_entries (SegRange r) = map (\<lambda>i. (?t + i, ?q + i)) [0..<?c] @ map (\<lambda>i. (?t + i, ?q + i)) [?c..<?n]"
  proof -
    have "?c \<le> ?n" using assms by simp
    then have "[0..<?n] = [0..<?c] @ [?c..<?n]" using upt_add_eq_append [of 0 ?c "?n - ?c"] by simp
    then show ?thesis by (simp only: seg_entries.simps map_append)
  qed
  have r: "map (\<lambda>i. (?t + i, ?q + i)) [?c..<?n] = map (\<lambda>i. (Suc tag + i, ?q + ?c + i)) [0..<?n - ?c]"
    using assms(1) by (intro nth_equalityI) auto
  have lo: "fst e \<le> tag" if "e \<in> set (map (\<lambda>i. (?t + i, ?q + i)) [0..<?c])" for e using that by auto
  have hi: "tag < fst e" if "e \<in> set (map (\<lambda>i. (?t + i, ?q + i)) [?c..<?n])" for e using that assms by auto
  show "filter (\<lambda>e. fst e \<le> tag) (seg_entries (SegRange r)) = map (\<lambda>i. (?t + i, ?q + i)) [0..<?c]"
    unfolding e filter_append using lo hi by (simp add: filter_id_conv filter_empty_conv not_le del: set_map set_upt)
  show "filter (\<lambda>e. tag < fst e) (seg_entries (SegRange r)) = map (\<lambda>i. (Suc tag + i, ?q + ?c + i)) [0..<?n - ?c]"
    unfolding e filter_append r [symmetric] using lo hi
    by (simp add: filter_id_conv filter_empty_conv not_less del: set_map set_upt)
qed

lemma ack_seqs_add:
  "mset (ack_seqs (b\<lparr>ab_ranges := ab_ranges b @ [AckRange_new s n]\<rparr>)) = mset (ack_seqs b) + mset [s..<s + n]"
  "mset (ack_seqs (b\<lparr>ab_masks := ab_masks b @ [AckMask_new bl w m]\<rparr>)) = mset (ack_seqs b) + mset (mask_list bl w m)"
  by (simp_all add: ack_seqs_def AckRange_new_def AckMask_new_def)

lemma nack_seqs_add:
  "mset (nack_seqs (b\<lparr>nb_ranges := nb_ranges b @ [NackRange_new s n]\<rparr>)) = mset (nack_seqs b) + mset [s..<s + n]"
  "mset (nack_seqs (b\<lparr>nb_masks := nb_masks b @ [NackMask_new bl w m]\<rparr>)) = mset (nack_seqs b) + mset (mask_list bl w m)"
  by (simp_all add: nack_seqs_def NackRange_new_def NackMask_new_def)

lemma mask_full_entries:
  assumes "seg_wf (SegMask m)" and "bits_of bits = rank_bits (ms_original_mask m) (bit (ms_remaining_rank_mask m))"
  shows "mask_list (ms_block m) (ms_word m) bits = map snd (seg_entries (SegMask m))"
    and "count_ones bits = length (seg_entries (SegMask m))"
proof -
  show e: "mask_list (ms_block m) (ms_word m) bits = map snd (seg_entries (SegMask m))"
    by (simp add: mask_entry_seqs [OF assms(2)] comp_def)
  show "count_ones bits = length (seg_entries (SegMask m))" using arg_cong [OF e, of length] by simp
qed

lemma mask_part_entries:
  assumes "seg_wf (SegMask m)" "ms_first_tag m \<le> tag"
    and "bits_of bits = rank_bits (ms_original_mask m) (\<lambda>r. bit (ms_remaining_rank_mask m) r \<and> r \<le> tag - ms_first_tag m)"
    and rem: "\<forall>j. bit rem j \<longleftrightarrow> bit (ms_remaining_rank_mask m) j \<and> \<not> (j \<le> tag - ms_first_tag m \<and> j < count_ones (ms_original_mask m))"
  shows "mask_list (ms_block m) (ms_word m) bits = map snd (filter (\<lambda>e. fst e \<le> tag) (seg_entries (SegMask m)))"
    and "count_ones bits = length (filter (\<lambda>e. fst e \<le> tag) (seg_entries (SegMask m)))"
    and "seg_wf (SegMask (m\<lparr>ms_remaining_rank_mask := rem\<rparr>))"
    and "seg_entries (SegMask (m\<lparr>ms_remaining_rank_mask := rem\<rparr>)) = filter (\<lambda>e. tag < fst e) (seg_entries (SegMask m))"
proof -
  have le: "ms_first_tag m + k \<le> tag \<longleftrightarrow> k \<le> tag - ms_first_tag m" for k using assms(2) by auto
  show e: "mask_list (ms_block m) (ms_word m) bits = map snd (filter (\<lambda>e. fst e \<le> tag) (seg_entries (SegMask m)))"
    by (simp add: mask_entry_seqs [OF assms(3)] comp_def filter_map filter_filter le conj_commute)
  show "count_ones bits = length (filter (\<lambda>e. fst e \<le> tag) (seg_entries (SegMask m)))"
    using arg_cong [OF e, of length] by simp
  show "seg_wf (SegMask (m\<lparr>ms_remaining_rank_mask := rem\<rparr>))"
    using assms(1) rem by (simp add: original_count_def)
  have f: "filter (bit rem) [0..<original_count m] =
      filter (\<lambda>k. bit (ms_remaining_rank_mask m) k \<and> \<not> k \<le> tag - ms_first_tag m) [0..<original_count m]"
    using rem by (intro filter_cong) (auto simp: original_count_def)
  show "seg_entries (SegMask (m\<lparr>ms_remaining_rank_mask := rem\<rparr>)) = filter (\<lambda>e. tag < fst e) (seg_entries (SegMask m))"
    using f by (simp add: original_count_def filter_map comp_def filter_filter le not_le [symmetric] conj_commute)
qed

lemma range_part:
  assumes wf: "seg_wf (SegRange r)" and ft: "rs_first_tag r \<le> tag" "Suc tag < rs_first_tag r + rs_len r"
    and c: "c = Suc tag - rs_first_tag r"
    and r': "r' = r\<lparr>rs_first_tag := rs_first_tag r + c, rs_start_seq := rs_start_seq r + c, rs_len := rs_len r - c\<rparr>"
  shows "seg_wf (SegRange r')" "seg_stop (SegRange r') = seg_stop (SegRange r)" "rs_first_tag r \<le> rs_first_tag r'"
    "seg_entries (SegRange r') = filter (\<lambda>e. tag < fst e) (seg_entries (SegRange r))"
    "c = length (filter (\<lambda>e. fst e \<le> tag) (seg_entries (SegRange r)))"
    "[rs_start_seq r..<rs_start_seq r + c] = map snd (filter (\<lambda>e. fst e \<le> tag) (seg_entries (SegRange r)))"
proof -
  note sp = range_split [OF ft]
  have t: "rs_first_tag r + c = Suc tag" using ft c by simp
  show "seg_wf (SegRange r')" "seg_stop (SegRange r') = seg_stop (SegRange r)" "rs_first_tag r \<le> rs_first_tag r'"
    using wf ft c by (auto simp: r')
  show "seg_entries (SegRange r') = filter (\<lambda>e. tag < fst e) (seg_entries (SegRange r))"
    unfolding sp(2) using t c by (simp add: r')
  show "c = length (filter (\<lambda>e. fst e \<le> tag) (seg_entries (SegRange r)))" unfolding sp(1) by (simp add: c)
  show "[rs_start_seq r..<rs_start_seq r + c] = map snd (filter (\<lambda>e. fst e \<le> tag) (seg_entries (SegRange r)))"
    unfolding sp(1) c by (rule nth_equalityI) simp_all
qed

lemma range_part_steps:
  assumes "seg_wf (SegRange r)" "rs_first_tag r \<le> tag" "Suc tag < rs_first_tag r + rs_len r" "c = Suc tag - rs_first_tag r"
  shows "sub_uint tag (rs_first_tag r) = Some (tag - rs_first_tag r)" "add_u64 (tag - rs_first_tag r) 1 = Some c"
    "as_u32 c = c" "add_u64 (rs_first_tag r) c = Some (rs_first_tag r + c)"
    "add_u64 (rs_start_seq r) c = Some (rs_start_seq r + c)" "sub_uint (rs_len r) c = Some (rs_len r - c)"
proof -
  have c: "c \<le> rs_len r" "tag - rs_first_tag r + 1 = c" using assms(2-4) by auto
  have w: "rs_len r \<le> u32_max" "rs_first_tag r + rs_len r \<le> u64_max" "rs_start_seq r + rs_len r \<le> u64_max"
    using assms(1) by auto
  show "sub_uint tag (rs_first_tag r) = Some (tag - rs_first_tag r)" "sub_uint (rs_len r) c = Some (rs_len r - c)"
    using assms(2) c(1) by (simp_all add: sub_uint_def)
  show "add_u64 (tag - rs_first_tag r) 1 = Some c" "add_u64 (rs_first_tag r) c = Some (rs_first_tag r + c)"
    "add_u64 (rs_start_seq r) c = Some (rs_start_seq r + c)"
    unfolding add_u64_def c(2) using w c(1) by simp_all
  show "as_u32 c = c" using w c(1) by (intro as_u32_le) simp
qed

lemma ack_wf_add:
  "ack_batch_wf b \<Longrightarrow> ack_batch_wf (b\<lparr>ab_ranges := x\<rparr>)"
  "ack_batch_wf b \<Longrightarrow> w < 4 \<Longrightarrow> m \<noteq> 0 \<Longrightarrow> ack_batch_wf (b\<lparr>ab_masks := ab_masks b @ [AckMask_new bl w m]\<rparr>)"
  by (auto simp: ack_batch_wf_def AckMask_new_def)

lemma nack_wf_add:
  "nack_batch_wf b \<Longrightarrow> nack_batch_wf (b\<lparr>nb_ranges := x\<rparr>)"
  "nack_batch_wf b \<Longrightarrow> w < 4 \<Longrightarrow> m \<noteq> 0 \<Longrightarrow> nack_batch_wf (b\<lparr>nb_masks := nb_masks b @ [NackMask_new bl w m]\<rparr>)"
  by (auto simp: nack_batch_wf_def NackMask_new_def)

interpretation ack_sink: segment_sink full_segment_to_ack partial_segment_to_ack ack_multiple_loop ack_seqs ack_batch_wf "\<lambda>_. ()"
proof unfold_locales
  fix s b assume wf: "seg_wf s"
  show "ok (full_segment_to_ack s b) (\<lambda>(n, b'). n = length (seg_entries s) \<and>
      mset (ack_seqs b') = mset (ack_seqs b) + mset (map snd (seg_entries s)) \<and> (ack_batch_wf b \<longrightarrow> ack_batch_wf b') \<and> () = ())"
  proof (cases s)
    case (SegRange r)
    then show ?thesis by (simp add: ack_seqs_add range_entry_seqs ack_wf_add del: map_map seg_entries.simps) simp
  next
    case (SegMask m)
    show ?thesis unfolding SegMask full_segment_to_ack.simps ok_bind Let_def ok_Some prod.case
      by (rule ok_mono [OF extract_all_ok])
        (use wf SegMask mask_full_entries [of m] in \<open>auto simp: ack_seqs_add ack_wf_add simp del: seg_entries.simps\<close>)
  qed
next
  fix s tag b assume wf: "seg_wf s" and ft: "seg_first s \<le> tag" "Suc tag < seg_stop s"
  show "ok (partial_segment_to_ack s tag b) (\<lambda>(n, s', b'). n = length (filter (\<lambda>e. fst e \<le> tag) (seg_entries s)) \<and>
      mset (ack_seqs b') = mset (ack_seqs b) + mset (map snd (filter (\<lambda>e. fst e \<le> tag) (seg_entries s))) \<and>
      (ack_batch_wf b \<longrightarrow> ack_batch_wf b') \<and> () = () \<and>
      seg_wf s' \<and> seg_first s \<le> seg_first s' \<and> seg_stop s' = seg_stop s \<and>
      seg_entries s' = filter (\<lambda>e. tag < fst e) (seg_entries s))"
  proof (cases s)
    case (SegRange r)
    define c where "c = Suc tag - rs_first_tag r"
    define r' where "r' = r\<lparr>rs_first_tag := rs_first_tag r + c, rs_start_seq := rs_start_seq r + c, rs_len := rs_len r - c\<rparr>"
    have ft': "rs_first_tag r \<le> tag" "Suc tag < rs_first_tag r + rs_len r" using ft by (simp_all add: SegRange)
    note p = range_part [OF wf [unfolded SegRange] ft' c_def r'_def]
    have "partial_segment_to_ack (SegRange r) tag b =
        Some (c, SegRange r', b\<lparr>ab_ranges := ab_ranges b @ [AckRange_new (rs_start_seq r) c]\<rparr>)"
      using range_part_steps [OF wf [unfolded SegRange] ft' c_def] by (simp add: r'_def)
    then show ?thesis
      unfolding SegRange by (simp only: ok_Some prod.case ack_seqs_add seg_first.simps p(6))
        (intro conjI impI ack_wf_add p(1-5); simp)
  next
    case (SegMask m)
    have d: "sub_uint tag (ms_first_tag m) = Some (tag - ms_first_tag m)" "as_u32 (tag - ms_first_tag m) = tag - ms_first_tag m"
      using ft original_count_le [of m] by (auto simp: SegMask sub_uint_def u32_max_def intro: as_u32_le)
    have fin: "ok (
          Some (count_ones bits, SegMask (m\<lparr>ms_remaining_rank_mask := rem\<rparr>),
            if bits \<noteq> 0 then b\<lparr>ab_masks := ab_masks b @ [AckMask_new (ms_block m) (ms_word m) bits]\<rparr> else b))
        (\<lambda>(n, s', b'). n = length (filter (\<lambda>e. fst e \<le> tag) (seg_entries (SegMask m))) \<and>
          mset (ack_seqs b') = mset (ack_seqs b) + mset (map snd (filter (\<lambda>e. fst e \<le> tag) (seg_entries (SegMask m)))) \<and>
          (ack_batch_wf b \<longrightarrow> ack_batch_wf b') \<and> () = () \<and>
          seg_wf s' \<and> seg_first (SegMask m) \<le> seg_first s' \<and> seg_stop s' = seg_stop (SegMask m) \<and>
          seg_entries s' = filter (\<lambda>e. tag < fst e) (seg_entries (SegMask m)))"
      if a: "bits_of bits = rank_bits (ms_original_mask m) (\<lambda>r. bit (ms_remaining_rank_mask m) r \<and> r \<le> tag - ms_first_tag m)"
          "\<forall>j. bit rem j \<longleftrightarrow> bit (ms_remaining_rank_mask m) j \<and> \<not> (j \<le> tag - ms_first_tag m \<and> j < count_ones (ms_original_mask m))"
      for bits rem :: "64 word"
    proof -
      have "ms_first_tag m \<le> tag" "ms_word m < 4" using ft(1) wf by (simp_all add: SegMask)
      note p = mask_part_entries [OF wf [unfolded SegMask] this(1) a] and w4 = this(2)
      have "seg_stop (SegMask (m\<lparr>ms_remaining_rank_mask := rem\<rparr>)) = seg_stop (SegMask m)" by (simp add: original_count_def)
      then show ?thesis
        using p(2-4) w4 by (cases "bits = 0")
          (simp_all only: prod.case ok_Some if_True if_False simp_thms ack_seqs_add p(1) [symmetric], simp_all add: ack_wf_add mask_list_def)
    qed
    show ?thesis
      unfolding SegMask partial_segment_to_ack.simps d Option.bind.simps Let_def ok_bind
      by (rule ok_mono [OF extract_up_to_ok]) (simp only: split_paired_all prod.case, elim conjE, rule fin)
  qed
qed simp_all

interpretation nack_sink: segment_sink full_segment_to_nack partial_segment_to_nack nack_multiple_loop nack_seqs nack_batch_wf nb_reason
proof unfold_locales
  fix s b assume wf: "seg_wf s"
  show "ok (full_segment_to_nack s b) (\<lambda>(n, b'). n = length (seg_entries s) \<and>
      mset (nack_seqs b') = mset (nack_seqs b) + mset (map snd (seg_entries s)) \<and> (nack_batch_wf b \<longrightarrow> nack_batch_wf b') \<and> nb_reason b' = nb_reason b)"
  proof (cases s)
    case (SegRange r)
    then show ?thesis by (simp add: nack_seqs_add range_entry_seqs nack_wf_add del: map_map seg_entries.simps) simp
  next
    case (SegMask m)
    show ?thesis unfolding SegMask full_segment_to_nack.simps ok_bind Let_def ok_Some prod.case
      by (rule ok_mono [OF extract_all_ok])
        (use wf SegMask mask_full_entries [of m] in \<open>auto simp: nack_seqs_add nack_wf_add simp del: seg_entries.simps\<close>)
  qed
next
  fix s tag b assume wf: "seg_wf s" and ft: "seg_first s \<le> tag" "Suc tag < seg_stop s"
  show "ok (partial_segment_to_nack s tag b) (\<lambda>(n, s', b'). n = length (filter (\<lambda>e. fst e \<le> tag) (seg_entries s)) \<and>
      mset (nack_seqs b') = mset (nack_seqs b) + mset (map snd (filter (\<lambda>e. fst e \<le> tag) (seg_entries s))) \<and>
      (nack_batch_wf b \<longrightarrow> nack_batch_wf b') \<and> nb_reason b' = nb_reason b \<and>
      seg_wf s' \<and> seg_first s \<le> seg_first s' \<and> seg_stop s' = seg_stop s \<and>
      seg_entries s' = filter (\<lambda>e. tag < fst e) (seg_entries s))"
  proof (cases s)
    case (SegRange r)
    define c where "c = Suc tag - rs_first_tag r"
    define r' where "r' = r\<lparr>rs_first_tag := rs_first_tag r + c, rs_start_seq := rs_start_seq r + c, rs_len := rs_len r - c\<rparr>"
    have ft': "rs_first_tag r \<le> tag" "Suc tag < rs_first_tag r + rs_len r" using ft by (simp_all add: SegRange)
    note p = range_part [OF wf [unfolded SegRange] ft' c_def r'_def]
    have "partial_segment_to_nack (SegRange r) tag b =
        Some (c, SegRange r', b\<lparr>nb_ranges := nb_ranges b @ [NackRange_new (rs_start_seq r) c]\<rparr>)"
      using range_part_steps [OF wf [unfolded SegRange] ft' c_def] by (simp add: r'_def)
    then show ?thesis
      unfolding SegRange by (simp only: ok_Some prod.case nack_seqs_add seg_first.simps p(6))
        (intro conjI impI nack_wf_add p(1-5); simp)
  next
    case (SegMask m)
    have d: "sub_uint tag (ms_first_tag m) = Some (tag - ms_first_tag m)" "as_u32 (tag - ms_first_tag m) = tag - ms_first_tag m"
      using ft original_count_le [of m] by (auto simp: SegMask sub_uint_def u32_max_def intro: as_u32_le)
    have fin: "ok (
          Some (count_ones bits, SegMask (m\<lparr>ms_remaining_rank_mask := rem\<rparr>),
            if bits \<noteq> 0 then b\<lparr>nb_masks := nb_masks b @ [NackMask_new (ms_block m) (ms_word m) bits]\<rparr> else b))
        (\<lambda>(n, s', b'). n = length (filter (\<lambda>e. fst e \<le> tag) (seg_entries (SegMask m))) \<and>
          mset (nack_seqs b') = mset (nack_seqs b) + mset (map snd (filter (\<lambda>e. fst e \<le> tag) (seg_entries (SegMask m)))) \<and>
          (nack_batch_wf b \<longrightarrow> nack_batch_wf b') \<and> nb_reason b' = nb_reason b \<and>
          seg_wf s' \<and> seg_first (SegMask m) \<le> seg_first s' \<and> seg_stop s' = seg_stop (SegMask m) \<and>
          seg_entries s' = filter (\<lambda>e. tag < fst e) (seg_entries (SegMask m)))"
      if a: "bits_of bits = rank_bits (ms_original_mask m) (\<lambda>r. bit (ms_remaining_rank_mask m) r \<and> r \<le> tag - ms_first_tag m)"
          "\<forall>j. bit rem j \<longleftrightarrow> bit (ms_remaining_rank_mask m) j \<and> \<not> (j \<le> tag - ms_first_tag m \<and> j < count_ones (ms_original_mask m))"
      for bits rem :: "64 word"
    proof -
      have "ms_first_tag m \<le> tag" "ms_word m < 4" using ft(1) wf by (simp_all add: SegMask)
      note p = mask_part_entries [OF wf [unfolded SegMask] this(1) a] and w4 = this(2)
      have "seg_stop (SegMask (m\<lparr>ms_remaining_rank_mask := rem\<rparr>)) = seg_stop (SegMask m)" by (simp add: original_count_def)
      then show ?thesis
        using p(2-4) w4 by (cases "bits = 0")
          (simp_all only: prod.case ok_Some if_True if_False simp_thms nack_seqs_add p(1) [symmetric], simp_all add: nack_wf_add mask_list_def)
    qed
    show ?thesis
      unfolding SegMask partial_segment_to_nack.simps d Option.bind.simps Let_def ok_bind
      by (rule ok_mono [OF extract_up_to_ok]) (simp only: split_paired_all prod.case, elim conjE, rule fin)
  qed
qed simp_all

section \<open>The operations of the window\<close>

text \<open>The pairs that satisfy \<open>P\<close> left the window and \<open>seqs\<close> are their sequence numbers.\<close>

definition settled :: "nat \<Rightarrow> SegmentDeliveryWindow \<Rightarrow> (nat \<times> nat \<Rightarrow> bool) \<Rightarrow> nat list \<Rightarrow> SegmentDeliveryWindow \<Rightarrow> bool" where
  "settled nt w P seqs w' \<longleftrightarrow> window_inv nt w' \<and> mset seqs = mset (map snd (filter P (window_entries w))) \<and>
     window_entries w' = filter (\<lambda>e. \<not> P e) (window_entries w)"

lemma take_one_Some:
  assumes inv: "window_inv nt w" and tag: "tag \<in> fst ` set (window_entries w)"
  obtains entry w' where "take_one w tag = Some (Some entry, w')"
    "settled nt w (\<lambda>e. fst e = tag) (entry_seqs entry) w'"
    "\<forall>b w bt. entry = EntryMask b w bt \<longrightarrow> w < 4 \<and> bt \<noteq> 0"
proof -
  obtain x w' where t: "take_one w tag = Some (x, w')"
    using ok_not_None [OF take_one_ok [OF inv, of tag]] by (cases "take_one w tag") auto
  note post = ok_SomeD [OF take_one_ok [OF inv, of tag] t, unfolded prod.case]
  then have inv': "window_inv nt w'"
    and p: "case x of
       None \<Rightarrow> tag \<notin> fst ` set (window_entries w) \<and> w' = w
     | Some entry \<Rightarrow> \<exists>q. (tag, q) \<in> set (window_entries w) \<and> entry_seqs entry = [q] \<and>
         (\<forall>b w bt. entry = EntryMask b w bt \<longrightarrow> w < 4 \<and> bt \<noteq> 0) \<and>
         window_entries w' = filter (\<lambda>e. fst e \<noteq> tag) (window_entries w)"
    by (rule conjunct1, rule conjunct2)
  have "x \<noteq> None" using p tag by (intro notI) (simp only: option.case, blast)
  then obtain entry where x: "x = Some entry" by blast
  then obtain q where q: "(tag, q) \<in> set (window_entries w)" "entry_seqs entry = [q]"
      "\<forall>b w bt. entry = EntryMask b w bt \<longrightarrow> w < 4 \<and> bt \<noteq> 0"
      "window_entries w' = filter (\<lambda>e. fst e \<noteq> tag) (window_entries w)" using p by (simp only: option.case) blast
  have d: "distinct (map fst (window_entries w))" using distinct_tags inv by (simp add: window_inv_def)
  have "settled nt w (\<lambda>e. fst e = tag) (entry_seqs entry) w'"
    unfolding settled_def filter_one [OF d q(1)] q(4) using inv' q(2) by simp
  then show ?thesis by (rule that [OF t [unfolded x] _ q(3)])
qed

lemma take_one_None:
  assumes "window_inv nt w" and "tag \<notin> fst ` set (window_entries w)"
  shows "take_one w tag = Some (None, w)"
proof -
  have "segs_wf (sw_segments w)" using assms(1) by (simp add: window_inv_def)
  from find_segment_idx_ok [OF this, of tag] assms(2) show ?thesis by (auto simp: take_one_def)
qed

lemma ack_one_ok:
  assumes "window_inv nt w" and "tag \<in> fst ` set (window_entries w)"
  shows "ok (ack_one w tag) (\<lambda>(r, w'). \<exists>batch. r = Inr batch \<and> ack_batch_wf batch \<and>
    settled nt w (\<lambda>e. fst e = tag) (ack_seqs batch) w')"
  by (rule take_one_Some [OF assms]) (simp add: ack_one_take ack_entry_seqs ack_entry_wf)

lemma nack_one_ok:
  assumes "window_inv nt w" and "tag \<in> fst ` set (window_entries w)"
  shows "ok (nack_one w tag reason) (\<lambda>(r, w'). \<exists>batch. r = Inr batch \<and> nack_batch_wf batch \<and> nb_reason batch = reason \<and>
    settled nt w (\<lambda>e. fst e = tag) (nack_seqs batch) w')"
proof -
  have rs: "nb_reason (nack_entry reason e) = reason" for e by (cases e) (simp_all add: nack_batch_new_def)
  show ?thesis by (rule take_one_Some [OF assms]) (simp add: nack_one_take nack_entry_seqs nack_entry_wf rs)
qed

lemma settle_one_missing:
  assumes "window_inv nt w" and "tag \<notin> fst ` set (window_entries w)"
  shows "ack_one w tag = Some (Inl InvalidDeliveryTag, w)" "nack_one w tag reason = Some (Inl InvalidDeliveryTag, w)"
  by (simp_all add: ack_one_take nack_one_take take_one_None [OF assms])

lemma settle_multiple_missing:
  assumes "window_inv nt w" and "tag \<notin> fst ` set (window_entries w)"
  shows "ack_multiple w tag = Some (Inl InvalidDeliveryTag, w)" "nack_multiple w tag reason = Some (Inl InvalidDeliveryTag, w)"
  using assms by (simp_all add: ack_multiple_def nack_multiple_def window_contains_ok window_inv_def)

lemma multiple_window:
  assumes inv: "window_inv nt w" and segs: "segs_wf segs'"
    and st: "\<forall>t\<in>set segs'. \<exists>s\<in>set (sw_segments w). seg_first s \<le> seg_first t \<and> seg_stop t = seg_stop s"
    and en: "segs_entries segs' = filter (\<lambda>e. tag < fst e) (window_entries w)"
    and n: "n = length (filter (\<lambda>e. fst e \<le> tag) (window_entries w))"
  shows "sub_uint (sw_unacked w) n = Some (sw_unacked w - n)"
    and "window_inv nt (w\<lparr>sw_segments := segs', sw_unacked := sw_unacked w - n\<rparr>)"
proof -
  have u: "sw_unacked w = length (window_entries w)" "sw_unacked w \<le> u32_max"
    and b: "\<forall>s\<in>set (sw_segments w). seg_stop s \<le> nt" using inv unfolding window_inv_def by blast+
  have "n + length (filter (\<lambda>e. tag < fst e) (window_entries w)) = length (window_entries w)"
    using sum_length_filter_compl [of "\<lambda>e. fst e \<le> tag" "window_entries w"] by (simp add: n not_le)
  then show "sub_uint (sw_unacked w) n = Some (sw_unacked w - n)"
    "window_inv nt (w\<lparr>sw_segments := segs', sw_unacked := sw_unacked w - n\<rparr>)"
    using u b segs st en by (auto simp: sub_uint_def window_inv_def)
qed

lemma ack_multiple_ok:
  assumes inv: "window_inv nt w" and tag: "tag \<in> fst ` set (window_entries w)"
  shows "ok (ack_multiple w tag) (\<lambda>(r, w'). \<exists>batch. r = Inr batch \<and> ack_batch_wf batch \<and>
    settled nt w (\<lambda>e. fst e \<le> tag) (ack_seqs batch) w')"
proof -
  have wf: "segs_wf (sw_segments w)" and u: "0 + length (window_entries w) \<le> u32_max"
    using inv unfolding window_inv_def by auto
  obtain segs' b n where l: "ack_multiple_loop (sw_segments w) tag ack_batch_default 0 = Some (segs', b, n)"
    and s: "ack_sink.sunk (sw_segments w) tag ack_batch_default 0 (segs', b, n)"
    using ack_sink.loop_ok [OF wf tag u, of ack_batch_default] by (auto elim!: okE)
  have "ack_batch_wf ack_batch_default" "ack_seqs ack_batch_default = []"
    by (simp_all add: ack_batch_wf_def ack_batch_default_def ack_seqs_def)
  then show ?thesis
    using s l wf tag multiple_window [OF inv, of segs' tag n]
    by (simp add: ack_multiple_def window_contains_ok ack_sink.sunk_def settled_def not_le)
qed

lemma nack_multiple_ok:
  assumes inv: "window_inv nt w" and tag: "tag \<in> fst ` set (window_entries w)"
  shows "ok (nack_multiple w tag reason) (\<lambda>(r, w'). \<exists>batch. r = Inr batch \<and> nack_batch_wf batch \<and> nb_reason batch = reason \<and>
    settled nt w (\<lambda>e. fst e \<le> tag) (nack_seqs batch) w')"
proof -
  have wf: "segs_wf (sw_segments w)" and u: "0 + length (window_entries w) \<le> u32_max"
    using inv unfolding window_inv_def by auto
  obtain segs' b n where l: "nack_multiple_loop (sw_segments w) tag (nack_batch_new reason) 0 = Some (segs', b, n)"
    and s: "nack_sink.sunk (sw_segments w) tag (nack_batch_new reason) 0 (segs', b, n)"
    using nack_sink.loop_ok [OF wf tag u, of "nack_batch_new reason"] by (auto elim!: okE)
  have "nack_batch_wf (nack_batch_new reason)" "nack_seqs (nack_batch_new reason) = []" "nb_reason (nack_batch_new reason) = reason"
    by (simp_all add: nack_batch_wf_def nack_batch_new_def nack_seqs_def)
  then show ?thesis
    using s l wf tag multiple_window [OF inv, of segs' tag n]
    by (simp add: nack_multiple_def window_contains_ok nack_sink.sunk_def settled_def not_le)
qed

lemma drain_loop_ok:
  "segs_wf segs \<Longrightarrow> ok (drain_loop segs b) (\<lambda>b'. mset (nack_seqs b') = mset (nack_seqs b) + mset (map snd (segs_entries segs)) \<and>
     (nack_batch_wf b \<longrightarrow> nack_batch_wf b') \<and> nb_reason b' = nb_reason b)"
proof (induction segs arbitrary: b)
  case (Cons s segs)
  then have s: "seg_wf s" and ss: "segs_wf segs" by simp_all
  show ?case
    unfolding drain_loop.simps ok_bind
  proof (rule ok_mono [OF nack_sink.full_ok [OF s]], clarify)
    fix b' assume a: "mset (nack_seqs b') = mset (nack_seqs b) + mset (map snd (seg_entries s))"
      "nack_batch_wf b \<longrightarrow> nack_batch_wf b'" "nb_reason b' = nb_reason b"
    show "ok (drain_loop segs b') (\<lambda>b'. mset (nack_seqs b') = mset (nack_seqs b) + mset (map snd (segs_entries (s # segs))) \<and>
     (nack_batch_wf b \<longrightarrow> nack_batch_wf b') \<and> nb_reason b' = nb_reason b)"
      by (rule ok_mono [OF Cons.IH [OF ss]]) (use a in auto)
  qed
qed simp

lemma drain_all_ok:
  assumes inv: "window_inv nt w"
  shows "ok (drain_all w reason) (\<lambda>(batch, w'). nack_batch_wf batch \<and> nb_reason batch = reason \<and>
    settled nt w (\<lambda>_. True) (nack_seqs batch) w' \<and> sw_unacked w' = 0)"
proof -
  have wf: "segs_wf (sw_segments w)" using inv by (simp add: window_inv_def)
  have "nack_batch_wf (nack_batch_new reason)" "nack_seqs (nack_batch_new reason) = []" "nb_reason (nack_batch_new reason) = reason"
    by (simp_all add: nack_batch_wf_def nack_batch_new_def nack_seqs_def)
  then show ?thesis
    unfolding drain_all_def ok_bind
    by (intro ok_mono [OF drain_loop_ok [OF wf]]) (simp add: settled_def window_inv_def)
qed

lemma push_segment:
  assumes inv: "window_inv nt w" and s: "seg_wf s" "seg_first s = nt"
    and u: "u = sw_unacked w + length (seg_entries s)" "u \<le> u32_max"
  shows "window_inv (seg_stop s) (w\<lparr>sw_segments := sw_segments w @ [s], sw_unacked := u\<rparr>)"
proof -
  have "nt \<le> seg_stop s" using seg_first_less [OF s(1)] s(2) by simp
  then show ?thesis using inv s u unfolding window_inv_def by (auto intro: order_trans)
qed

lemma push_range_ok:
  assumes inv: "window_inv nt w" and n: "0 < dr_len rng" "sw_unacked w + dr_len rng \<le> u32_max"
    and b: "nt + dr_len rng \<le> u64_max" "dr_start_seq rng + dr_len rng \<le> u64_max"
  shows "ok (push_range w nt rng fl) (\<lambda>w'. window_inv (nt + dr_len rng) w' \<and>
    sw_unacked w' = sw_unacked w + dr_len rng \<and>
    window_entries w' = window_entries w @ zip [nt..<nt + dr_len rng] [dr_start_seq rng..<dr_start_seq rng + dr_len rng])"
proof -
  define s where "s = SegRange (RangeSegment_new nt (dr_start_seq rng) (dr_len rng) fl)"
  have e: "seg_entries s = zip [nt..<nt + dr_len rng] [dr_start_seq rng..<dr_start_seq rng + dr_len rng]"
    by (rule nth_equalityI) (simp_all add: s_def RangeSegment_new_def)
  have s: "seg_wf s" "seg_first s = nt" "seg_stop s = nt + dr_len rng" "length (seg_entries s) = dr_len rng"
    using n b by (simp_all add: s_def RangeSegment_new_def)
  have "window_inv (nt + dr_len rng) (w\<lparr>sw_segments := sw_segments w @ [s], sw_unacked := sw_unacked w + dr_len rng\<rparr>)"
    using push_segment [OF inv s(1,2) _ n(2)] s by simp
  then show ?thesis
    using n e unfolding push_range_def Let_def s_def [symmetric] by simp
qed

lemma mask_segment_new_ok:
  "ok (MaskSegment_new t b w m fl) (\<lambda>s. ms_first_tag s = t \<and> ms_block s = b \<and> ms_word s = w \<and> ms_original_mask s = m \<and>
     (\<forall>j. bit (ms_remaining_rank_mask s) j \<longleftrightarrow> j < count_ones m))"
proof (cases "count_ones m = 64")
  case True
  then show ?thesis by (auto simp: MaskSegment_new_def dest: bit_imp_le_length)
next
  case False
  then have n: "count_ones m < 64" using count_ones_le [of m] by simp
  then have "push_bit (count_ones m) 1 \<noteq> (0 :: 64 word)" by (simp add: push_bit_eq_0_iff)
  moreover have "bit (push_bit (count_ones m) 1 - 1 :: 64 word) j \<longleftrightarrow> j < count_ones m" for j
  proof -
    have "bit (push_bit (count_ones m) 1 - 1 :: 64 word) j \<longleftrightarrow> j < 64 \<and> j < count_ones m"
      by (simp add: mask_eq_exp_minus_1 [symmetric] bit_mask_iff)
    then show ?thesis using n by linarith
  qed
  ultimately show ?thesis using n False by (simp add: MaskSegment_new_def)
qed

lemma push_mask_ok:
  assumes inv: "window_inv nt w" and m: "dm_mask m \<noteq> 0" "dm_word m < 4" and c: "c = count_ones (dm_mask m)"
    and n: "sw_unacked w + c \<le> u32_max" and b: "nt + c \<le> u64_max"
  shows "ok (push_mask w nt m c fl) (\<lambda>w'. window_inv (nt + c) w' \<and> sw_unacked w' = sw_unacked w + c \<and>
    window_entries w' = window_entries w @ zip [nt..<nt + c] (mask_list (dm_block m) (dm_word m) (dm_mask m)))"
proof -
  obtain s where new: "MaskSegment_new nt (dm_block m) (dm_word m) (dm_mask m) fl = Some s"
    and s: "ms_first_tag s = nt" "ms_block s = dm_block m" "ms_word s = dm_word m" "ms_original_mask s = dm_mask m"
      "\<forall>j. bit (ms_remaining_rank_mask s) j \<longleftrightarrow> j < count_ones (dm_mask m)"
    using mask_segment_new_ok [of nt "dm_block m" "dm_word m" "dm_mask m" fl] by (auto elim!: okE)
  have oc: "original_count s = c" by (simp add: original_count_def s c)
  have f: "filter (bit (ms_remaining_rank_mask s)) [0..<original_count s] = [0..<c]"
    using s(5) by (simp add: oc filter_id_conv c)
  have e: "seg_entries (SegMask s) = zip [nt..<nt + c] (mask_list (dm_block m) (dm_word m) (dm_mask m))"
    unfolding seg_entries.simps f by (rule nth_equalityI) (simp_all add: s mask_list_def c count_ones_def)
  have le: "length (seg_entries (SegMask s)) = c" unfolding seg_entries.simps f by simp
  have sg: "seg_wf (SegMask s)" "seg_first (SegMask s) = nt" "seg_stop (SegMask s) = nt + c"
    using m b s oc c by simp_all
  have "window_inv (nt + c) (w\<lparr>sw_segments := sw_segments w @ [SegMask s], sw_unacked := sw_unacked w + c\<rparr>)"
    using push_segment [OF inv sg(1,2) _ n] le sg(3) by simp
  then show ?thesis
    using n new unfolding push_mask_def by (simp add: e del: seg_entries.simps)
qed

end
