(* ===== verification/Consumer_Session.thy ===== *)
theory Consumer_Session
  imports Window_Inv
begin

text \<open>
  \<open>crates/aurum-core/src/consumer/session.rs\<close>: a consumer session delivers from the queue
  under its credit, tags what it delivers, and turns settlements of tags into settlement batches
  of the queue. The window type parameter is instantiated with its only implementation.
\<close>

section \<open>Data\<close>

record TaggedRange =
  tr_first_tag :: nat
  tr_range :: DeliveryRange
  tr_flags :: "8 word"

record TaggedMask =
  tm_first_tag :: nat
  tm_mask :: DeliveryMask
  tm_count :: nat
  tm_flags :: "8 word"

datatype TaggedDeliverySegment = TagRange TaggedRange | TagMask TaggedMask

record SessionDeliveryBatch =
  sb_segments :: "TaggedDeliverySegment list"

definition batch_clear :: "SessionDeliveryBatch \<Rightarrow> SessionDeliveryBatch" where
  "batch_clear out = out\<lparr>sb_segments := []\<rparr>"

record ConsumerSession =
  cs_id :: nat
  cs_channel_id :: nat
  cs_next_tag :: nat
  cs_credit :: ConsumerCredit
  cs_window :: SegmentDeliveryWindow
  cs_flags :: "8 word"

definition FIRST_TAG :: nat where
  "FIRST_TAG = 1"

definition session_new :: "nat \<Rightarrow> nat \<Rightarrow> PrefetchMode \<Rightarrow> ConsumerSession" where
  "session_new i channel prefetch =
     \<lparr>cs_id = i, cs_channel_id = channel, cs_next_tag = FIRST_TAG, cs_credit = credit_new prefetch,
      cs_window = window_new, cs_flags = 0\<rparr>"

definition session_with_window :: "nat \<Rightarrow> nat \<Rightarrow> PrefetchMode \<Rightarrow> SegmentDeliveryWindow \<Rightarrow> ConsumerSession" where
  "session_with_window i channel prefetch w =
     \<lparr>cs_id = i, cs_channel_id = channel, cs_next_tag = FIRST_TAG, cs_credit = credit_new prefetch,
      cs_window = w, cs_flags = 0\<rparr>"

definition is_cancelled :: "ConsumerSession \<Rightarrow> bool" where
  "is_cancelled s \<longleftrightarrow> flags_contain (cs_flags s) CONSUMER_CANCELLED"

section \<open>Delivery\<close>

fun tag_ranges :: "DeliveryRange list \<Rightarrow> ConsumerSession \<Rightarrow> SessionDeliveryBatch \<Rightarrow>
    (ConsumerSession \<times> SessionDeliveryBatch) option" where
  "tag_ranges [] s out = Some (s, out)"
| "tag_ranges (r # rs) s out = do {
     let first_tag = cs_next_tag s;
     nt \<leftarrow> add_u64 (cs_next_tag s) (dr_len r);
     w \<leftarrow> push_range (cs_window s) first_tag r 0;
     let s = s\<lparr>cs_next_tag := nt, cs_window := w\<rparr>;
     let out = out\<lparr>sb_segments := sb_segments out @
       [TagRange \<lparr>tr_first_tag = first_tag, tr_range = r, tr_flags = 0\<rparr>]\<rparr>;
     tag_ranges rs s out
   }"

fun tag_masks :: "HybridRangeBlockQueue \<Rightarrow> DeliveryMask list \<Rightarrow> ConsumerSession \<Rightarrow> SessionDeliveryBatch \<Rightarrow>
    (ConsumerSession \<times> SessionDeliveryBatch) option" where
  "tag_masks q [] s out = Some (s, out)"
| "tag_masks q (m # ms) s out = do {
     let n = count_ones (dm_mask m);
     let first_tag = cs_next_tag s;
     nt \<leftarrow> add_u64 (cs_next_tag s) n;
     redeliv \<leftarrow> redelivered_mask q (dm_block m) (dm_word m) (dm_mask m);
     let seg_flags = (if redeliv \<noteq> 0 then SEGMENT_REDELIVERED else 0);
     let del_flags = (if redeliv \<noteq> 0 then DELIVERY_REDELIVERED else 0);
     w \<leftarrow> push_mask (cs_window s) first_tag m (n mod 2 ^ 8) seg_flags;
     let s = s\<lparr>cs_next_tag := nt, cs_window := w\<rparr>;
     let out = out\<lparr>sb_segments := sb_segments out @
       [TagMask \<lparr>tm_first_tag = first_tag, tm_mask = m, tm_count = n mod 2 ^ 8, tm_flags = del_flags\<rparr>]\<rparr>;
     tag_masks q ms s out
   }"

definition deliver_from_queue ::
  "ConsumerSession \<Rightarrow> HybridRangeBlockQueue \<Rightarrow> nat \<Rightarrow> SessionDeliveryBatch \<Rightarrow>
   ((ConsumerError + nat) \<times> ConsumerSession \<times> HybridRangeBlockQueue \<times> SessionDeliveryBatch) option" where
  "deliver_from_queue s q mx out = do {
     let out = batch_clear out;
     (if flags_contain (cs_flags s) CONSUMER_CANCELLED then Some (Inl ConsumerCancelled, s, q, out)
      else do {
        let available = min (credit_available (cs_credit s)) mx;
        (if available = 0 then Some (Inr 0, s, q, out)
         else do {
           (n, work, q) \<leftarrow> deliver q available work_default;
           (if n = 0 then Some (Inr 0, s, q, out)
            else do {
              (s, out) \<leftarrow> tag_ranges (dw_ranges work) s out;
              (s, out) \<leftarrow> tag_masks q (dw_masks work) s out;
              (_, c) \<leftarrow> credit_reserve (cs_credit s) n;
              Some (Inr n, s\<lparr>cs_credit := c\<rparr>, q, out)
            })
         })
      })
   }"

section \<open>Settlement\<close>

definition session_ack ::
  "ConsumerSession \<Rightarrow> AckRequest \<Rightarrow> HybridRangeBlockQueue \<Rightarrow>
   ((ConsumerError + AckApplyResult) \<times> ConsumerSession \<times> HybridRangeBlockQueue) option" where
  "session_ack s req q =
     (if flags_contain (cs_flags s) CONSUMER_CANCELLED then Some (Inl ConsumerCancelled, s, q)
      else if aq_tag req < FIRST_TAG \<or> aq_tag req \<ge> cs_next_tag s then Some (Inl InvalidDeliveryTag, s, q)
      else do {
        (r, w) \<leftarrow> (case aq_mode req of
            AckOne \<Rightarrow> ack_one (cs_window s) (aq_tag req)
          | AckMultiple \<Rightarrow> ack_multiple (cs_window s) (aq_tag req));
        let s = s\<lparr>cs_window := w\<rparr>;
        (case r of
           Inl _ \<Rightarrow> Some (Inl DeliveryTagAlreadySettled, s, q)
         | Inr batch \<Rightarrow> do {
             total \<leftarrow> acked_messages batch;
             let acked = as_u32 total;
             let ranges = ab_ranges batch;
             q \<leftarrow> apply_ack_batch q batch;
             let s = s\<lparr>cs_credit := credit_release (cs_credit s) acked\<rparr>;
             Some (Inr \<lparr>aa_acked = acked, aa_released_credit = acked, aa_ranges = ranges\<rparr>, s, q)
           })
      })"

definition batch_nacked_count :: "NackBatch \<Rightarrow> nat option" where
  "batch_nacked_count batch = do {
     from_ranges \<leftarrow> sum_u32 (map nr_len (nb_ranges batch));
     from_masks \<leftarrow> sum_u32 (map (\<lambda>m. count_ones (nm_mask m)) (nb_masks batch));
     add_u32 from_ranges from_masks
   }"

definition nack_batch_as_ack :: "NackBatch \<Rightarrow> AckBatch" where
  "nack_batch_as_ack batch =
     \<lparr>ab_ranges = map (\<lambda>r. AckRange_new (nr_start_seq r) (nr_len r)) (nb_ranges batch),
      ab_masks = map (\<lambda>m. AckMask_new (nm_block m) (nm_word m) (nm_mask m)) (nb_masks batch)\<rparr>"

definition session_apply_nack_batch ::
  "HybridRangeBlockQueue \<Rightarrow> NackBatch \<Rightarrow> ((nat \<times> nat \<times> nat) \<times> HybridRangeBlockQueue) option" where
  "session_apply_nack_batch q batch = do {
     n \<leftarrow> batch_nacked_count batch;
     (case nb_reason batch of
        Requeue \<Rightarrow> do { q \<leftarrow> apply_nack_batch q batch; Some ((n, 0, 0), q) }
      | Reject \<Rightarrow> do { q \<leftarrow> apply_ack_batch q (nack_batch_as_ack batch); Some ((0, n, 0), q) }
      | DeadLetter \<Rightarrow> do { q \<leftarrow> apply_ack_batch q (nack_batch_as_ack batch); Some ((0, 0, n), q) })
   }"

definition session_nack ::
  "ConsumerSession \<Rightarrow> NackRequest \<Rightarrow> HybridRangeBlockQueue \<Rightarrow>
   ((ConsumerError + NackApplyResult) \<times> ConsumerSession \<times> HybridRangeBlockQueue) option" where
  "session_nack s req q =
     (if flags_contain (cs_flags s) CONSUMER_CANCELLED then Some (Inl ConsumerCancelled, s, q)
      else if nq_tag req < FIRST_TAG \<or> nq_tag req \<ge> cs_next_tag s then Some (Inl InvalidDeliveryTag, s, q)
      else do {
        (r, w) \<leftarrow> (case nq_mode req of
            NackOne \<Rightarrow> nack_one (cs_window s) (nq_tag req) (nq_reason req)
          | NackMultiple \<Rightarrow> nack_multiple (cs_window s) (nq_tag req) (nq_reason req));
        let s = s\<lparr>cs_window := w\<rparr>;
        (case r of
           Inl _ \<Rightarrow> Some (Inl DeliveryTagAlreadySettled, s, q)
         | Inr batch \<Rightarrow> do {
             nacked \<leftarrow> batch_nacked_count batch;
             ((requeued, dropped, dead_lettered), q) \<leftarrow> session_apply_nack_batch q batch;
             let s = s\<lparr>cs_credit := credit_release (cs_credit s) nacked\<rparr>;
             Some (Inr \<lparr>na_nacked = nacked, na_requeued = requeued, na_dropped = dropped,
               na_dead_lettered = dead_lettered, na_released_credit = nacked\<rparr>, s, q)
           })
      })"

definition session_reject ::
  "ConsumerSession \<Rightarrow> RejectRequest \<Rightarrow> HybridRangeBlockQueue \<Rightarrow>
   ((ConsumerError + NackApplyResult) \<times> ConsumerSession \<times> HybridRangeBlockQueue) option" where
  "session_reject s req q = session_nack s (nack_request_one (rq_tag req) (rq_reason req)) q"

definition session_cancel ::
  "ConsumerSession \<Rightarrow> CancelDisposition \<Rightarrow> HybridRangeBlockQueue \<Rightarrow>
   (CancelResult \<times> ConsumerSession \<times> HybridRangeBlockQueue) option" where
  "session_cancel s disp q = do {
     let s = s\<lparr>cs_flags := cs_flags s OR CONSUMER_CANCELLED\<rparr>;
     (batch, w) \<leftarrow> drain_all (cs_window s) Requeue;
     let s = s\<lparr>cs_window := w\<rparr>;
     n \<leftarrow> batch_nacked_count batch;
     (case disp of
        RequeueUnacked \<Rightarrow> do {
          q \<leftarrow> apply_nack_batch q batch;
          Some (\<lparr>cr_requeued = n, cr_dropped = 0\<rparr>, s\<lparr>cs_credit := credit_release (cs_credit s) n\<rparr>, q)
        }
      | DropUnacked \<Rightarrow> do {
          let ack = nack_batch_as_ack batch;
          q \<leftarrow> apply_ack_batch q ack;
          Some (\<lparr>cr_requeued = 0, cr_dropped = n\<rparr>, s\<lparr>cs_credit := credit_release (cs_credit s) n\<rparr>, q)
        })
   }"

end
