(* ===== verification/Session_Inv.thy ===== *)
theory Session_Inv
  imports Consumer_Session
begin

text \<open>
  The invariant of a consumer session beside its queue, and that every operation of the session
  keeps it: what is outstanding in the window is in flight in the queue, each message once, and the
  credit accounts for it. The last section puts many sessions on one queue.
\<close>

section \<open>What a batch carries\<close>

text \<open>Each message of a batch with its tag, its sequence number and the redelivery mark.\<close>

fun segment_msgs :: "TaggedDeliverySegment \<Rightarrow> (nat \<times> nat \<times> bool) list" where
  "segment_msgs (TagRange t) =
     zip [tr_first_tag t..<tr_first_tag t + dr_len (tr_range t)]
       (map (\<lambda>s. (s, flags_contain (tr_flags t) DELIVERY_REDELIVERED))
         [dr_start_seq (tr_range t)..<dr_start_seq (tr_range t) + dr_len (tr_range t)])"
| "segment_msgs (TagMask t) =
     zip [tm_first_tag t..<tm_first_tag t + tm_count t]
       (map (\<lambda>s. (s, flags_contain (tm_flags t) DELIVERY_REDELIVERED))
         (mask_list (dm_block (tm_mask t)) (dm_word (tm_mask t)) (dm_mask (tm_mask t))))"

definition batch_msgs :: "SessionDeliveryBatch \<Rightarrow> (nat \<times> nat \<times> bool) list" where
  "batch_msgs out = concat (map segment_msgs (sb_segments out))"

definition session_inv :: "ConsumerSession \<Rightarrow> HybridRangeBlockQueue \<Rightarrow> bool" where
  "session_inv s q \<longleftrightarrow> queue_inv q \<and> window_inv (cs_next_tag s) (cs_window s) \<and>
     FIRST_TAG \<le> cs_next_tag s \<and> credit_covers (cs_credit s) (sw_unacked (cs_window s)) \<and>
     distinct (map snd (window_entries (cs_window s))) \<and>
     (\<forall>e\<in>set (window_entries (cs_window s)). FIRST_TAG \<le> fst e \<and> status q (snd e) = Some Inflight) \<and>
     (is_cancelled s \<longrightarrow> window_entries (cs_window s) = [])"

lemma session_new_inv:
  assumes "queue_inv q" and "\<forall>l. mode = Limited l \<longrightarrow> l \<le> u32_max"
  shows "session_inv (session_new i channel mode) q"
  using assms credit_covers_new
  by (simp add: session_inv_def session_new_def window_new_def window_inv_def is_cancelled_def segs_wf_def)

section \<open>Tagging\<close>

text \<open>
  A loop that tags: it appends the messages \<open>msgs\<close>, in order and with consecutive tags,
  to the window and to the batch, and touches nothing else.
\<close>

definition tagged :: "(nat \<times> bool) list \<Rightarrow> ConsumerSession \<Rightarrow> SessionDeliveryBatch \<Rightarrow>
    ConsumerSession \<times> SessionDeliveryBatch \<Rightarrow> bool" where
  "tagged msgs s out r \<longleftrightarrow> (case r of (s', out') \<Rightarrow>
     (\<exists>w'. s' = s\<lparr>cs_next_tag := cs_next_tag s + length msgs, cs_window := w'\<rparr> \<and>
        window_inv (cs_next_tag s + length msgs) w' \<and> sw_unacked w' = sw_unacked (cs_window s) + length msgs \<and>
        window_entries w' = window_entries (cs_window s) @
          zip [cs_next_tag s..<cs_next_tag s + length msgs] (map fst msgs)) \<and>
     batch_msgs out' = batch_msgs out @ zip [cs_next_tag s..<cs_next_tag s + length msgs] msgs)"

lemma zip_upt_append:
  "zip [a..<a + length xs] xs @ zip [a + length xs..<a + length xs + length ys] ys =
   zip [a..<a + length (xs @ ys)] (xs @ ys)"
  by (rule nth_equalityI) (auto simp: nth_append)

lemma tagged_step:
  assumes "n = length msgs" "window_inv (cs_next_tag s + n) w'" "sw_unacked w' = sw_unacked (cs_window s) + n"
    "window_entries w' = window_entries (cs_window s) @ zip [cs_next_tag s..<cs_next_tag s + n] (map fst msgs)"
    "batch_msgs out' = batch_msgs out @ zip [cs_next_tag s..<cs_next_tag s + n] msgs"
  shows "tagged msgs s out (s\<lparr>cs_next_tag := cs_next_tag s + n, cs_window := w'\<rparr>, out')"
  unfolding tagged_def prod.case using assms by blast

lemma tagged_Nil: "window_inv (cs_next_tag s) (cs_window s) \<Longrightarrow> tagged [] s out (s, out)"
  using tagged_step [of 0 "[]" s "cs_window s" out out] by simp

lemma tagged_trans:
  assumes "tagged xs s out (s', out')" and "tagged ys s' out' r"
  shows "tagged (xs @ ys) s out r"
proof -
  obtain w' where w': "s' = s\<lparr>cs_next_tag := cs_next_tag s + length xs, cs_window := w'\<rparr>"
    "sw_unacked w' = sw_unacked (cs_window s) + length xs"
    "window_entries w' = window_entries (cs_window s) @ zip [cs_next_tag s..<cs_next_tag s + length xs] (map fst xs)"
    "batch_msgs out' = batch_msgs out @ zip [cs_next_tag s..<cs_next_tag s + length xs] xs"
    using assms(1) by (auto simp: tagged_def)
  note z = zip_upt_append [of "cs_next_tag s" xs ys] zip_upt_append [of "cs_next_tag s" "map fst xs" "map fst ys"]
  show ?thesis using assms(2) w' z unfolding tagged_def by (auto simp: add.assoc)
qed

lemma flags_zero [simp]: "flags_contain 0 DELIVERY_REDELIVERED = False"
  "flags_contain DELIVERY_REDELIVERED DELIVERY_REDELIVERED = True"
  by (simp_all add: flags_contain_def DELIVERY_REDELIVERED_def)

lemma tag_ranges_ok:
  assumes "window_inv (cs_next_tag s) (cs_window s)" and "\<forall>r\<in>set rs. 0 < dr_len r \<and> dr_start_seq r + dr_len r \<le> u64_max"
    and "sw_unacked (cs_window s) + sum_list (map dr_len rs) \<le> u32_max" and "cs_next_tag s + sum_list (map dr_len rs) \<le> u64_max"
  shows "ok (tag_ranges rs s out)
    (tagged (map (\<lambda>q. (q, False)) (concat (map (\<lambda>r. [dr_start_seq r..<dr_start_seq r + dr_len r]) rs))) s out)"
  using assms
proof (induction rs arbitrary: s out)
  case Nil
  then show ?case by (simp add: tagged_Nil)
next
  case (Cons r rs)
  let ?n = "dr_len r" and ?xs = "map (\<lambda>q. (q, False)) [dr_start_seq r..<dr_start_seq r + dr_len r]"
  let ?out = "out\<lparr>sb_segments := sb_segments out @ [TagRange \<lparr>tr_first_tag = cs_next_tag s, tr_range = r, tr_flags = 0\<rparr>]\<rparr>"
  obtain w where p: "push_range (cs_window s) (cs_next_tag s) r 0 = Some w" and w: "window_inv (cs_next_tag s + ?n) w"
    "sw_unacked w = sw_unacked (cs_window s) + ?n"
    "window_entries w = window_entries (cs_window s) @ zip [cs_next_tag s..<cs_next_tag s + ?n] [dr_start_seq r..<dr_start_seq r + ?n]"
    using push_range_ok [OF Cons.prems(1), of r 0] Cons.prems(2-) by (auto elim!: okE)
  let ?s = "s\<lparr>cs_next_tag := cs_next_tag s + ?n, cs_window := w\<rparr>"
  have t: "tagged ?xs s out (?s, ?out)"
    by (rule tagged_step) (use w in \<open>simp_all add: batch_msgs_def comp_def\<close>)
  have "ok (tag_ranges rs ?s ?out) (tagged (map (\<lambda>q. (q, False)) (concat (map (\<lambda>r. [dr_start_seq r..<dr_start_seq r + dr_len r]) rs))) ?s ?out)"
    by (rule Cons.IH) (use w Cons.prems in auto)
  then have "ok (tag_ranges rs ?s ?out) (tagged (map (\<lambda>q. (q, False)) (concat (map (\<lambda>r. [dr_start_seq r..<dr_start_seq r + dr_len r]) (r # rs)))) s out)"
    by (rule ok_mono) (use tagged_trans [OF t] in simp)
  then show ?case using p Cons.prems(4) by (simp add: Let_def)
qed

lemma tag_masks_ok:
  assumes "window_inv (cs_next_tag s) (cs_window s)" and "masks_wf ms"
    and "\<forall>m\<in>set ms. redelivered_mask q (dm_block m) (dm_word m) (dm_mask m) = Some (dm_mask m)"
    and "sw_unacked (cs_window s) + length (masks_seqs ms) \<le> u32_max" and "cs_next_tag s + length (masks_seqs ms) \<le> u64_max"
  shows "ok (tag_masks q ms s out) (tagged (map (\<lambda>q. (q, True)) (masks_seqs ms)) s out)"
  using assms
proof (induction ms arbitrary: s out)
  case Nil
  then show ?case by (simp add: tagged_Nil masks_seqs_def)
next
  case (Cons m ms)
  let ?n = "count_ones (dm_mask m)" and ?l = "mask_list (dm_block m) (dm_word m) (dm_mask m)"
  let ?out = "out\<lparr>sb_segments := sb_segments out @ [TagMask \<lparr>tm_first_tag = cs_next_tag s, tm_mask = m, tm_count = ?n,
    tm_flags = DELIVERY_REDELIVERED\<rparr>]\<rparr>"
  have m: "dm_mask m \<noteq> 0" "dm_word m < 4" "masks_wf ms" using Cons.prems(2) by (auto simp: masks_wf_def)
  have len: "length ?l = ?n" "masks_seqs (m # ms) = ?l @ masks_seqs ms"
    by (simp_all add: mask_list_def count_ones_def masks_seqs_def)
  have n: "?n mod 2 ^ 8 = ?n" using count_ones_le [of "dm_mask m"] by simp
  obtain w where p: "push_mask (cs_window s) (cs_next_tag s) m ?n SEGMENT_REDELIVERED = Some w" and w: "window_inv (cs_next_tag s + ?n) w"
    "sw_unacked w = sw_unacked (cs_window s) + ?n"
    "window_entries w = window_entries (cs_window s) @ zip [cs_next_tag s..<cs_next_tag s + ?n] ?l"
    using push_mask_ok [OF Cons.prems(1) m(1,2) refl, of SEGMENT_REDELIVERED] Cons.prems(4,5) len by (auto elim!: okE)
  let ?s = "s\<lparr>cs_next_tag := cs_next_tag s + ?n, cs_window := w\<rparr>"
  have t: "tagged (map (\<lambda>q. (q, True)) ?l) s out (?s, ?out)"
    by (rule tagged_step) (use w len in \<open>simp_all add: batch_msgs_def comp_def\<close>)
  have "ok (tag_masks q ms ?s ?out) (tagged (map (\<lambda>q. (q, True)) (masks_seqs ms)) ?s ?out)"
    by (rule Cons.IH) (use w m Cons.prems len in auto)
  then have "ok (tag_masks q ms ?s ?out) (tagged (map (\<lambda>q. (q, True)) (masks_seqs (m # ms))) s out)"
    by (rule ok_mono) (use tagged_trans [OF t] len in simp)
  then show ?case using p n Cons.prems(3,5) m(1) len by (simp add: Let_def)
qed

section \<open>Delivery\<close>

text \<open>
  A delivery to a session: the queue hands out as much as the credit and the caller allow, the
  batch and the window get the messages in that order under the next tags, and a message is
  marked as redelivered exactly when it waited for redelivery.
\<close>

definition session_delivers ::
  "ConsumerSession \<Rightarrow> HybridRangeBlockQueue \<Rightarrow> nat \<Rightarrow> nat \<Rightarrow> ConsumerSession \<Rightarrow> HybridRangeBlockQueue \<Rightarrow> SessionDeliveryBatch \<Rightarrow> bool" where
  "session_delivers s q mx n s' q' out' \<longleftrightarrow>
     n = min (min (credit_available (cs_credit s)) mx) (qcount Ready q + qcount SparseReady q) \<and>
     (\<exists>seqs. length seqs = n \<and> distinct seqs \<and>
        (\<forall>x\<in>set seqs. status q x = Some Ready \<or> status q x = Some SparseReady) \<and>
        status q' = (\<lambda>x. if x \<in> set seqs then Some Inflight else status q x) \<and>
        window_entries (cs_window s') = window_entries (cs_window s) @ zip [cs_next_tag s..<cs_next_tag s + n] seqs \<and>
        batch_msgs out' = zip [cs_next_tag s..<cs_next_tag s + n] (map (\<lambda>x. (x, status q x = Some SparseReady)) seqs) \<and>
        (if min (credit_available (cs_credit s)) mx = 0 then q' = q
         else \<exists>work. deliver q (min (credit_available (cs_credit s)) mx) work_default = Some (n, work, q') \<and> work_seqs work = seqs)) \<and>
     cs_next_tag s' = cs_next_tag s + n \<and> cs_flags s' = cs_flags s \<and> cc_mode (cs_credit s') = cc_mode (cs_credit s) \<and>
     session_inv s' q'"

lemma session_delivers_none:
  assumes "session_inv s q" and "min (min (credit_available (cs_credit s)) mx) (qcount Ready q + qcount SparseReady q) = 0"
    and "status q' = status q" "queue_inv q'" "batch_msgs out' = []"
    and "if min (credit_available (cs_credit s)) mx = 0 then q' = q
      else \<exists>work. deliver q (min (credit_available (cs_credit s)) mx) work_default = Some (0, work, q') \<and> work_seqs work = []"
  shows "session_delivers s q mx 0 s q' out'"
proof -
  have "session_inv s q'" using assms(1,3,4) by (simp add: session_inv_def)
  then show ?thesis
    unfolding session_delivers_def using assms(2-) by (intro conjI exI [of _ "[]"]) simp_all
qed

lemma delivered_msgs:
  assumes inv: "queue_inv q" and d: "delivers q m n work q'"
  shows "map (\<lambda>x. (x, status q x = Some SparseReady)) (work_seqs work) =
    map (\<lambda>x. (x, False)) (concat (map (\<lambda>r. [dr_start_seq r..<dr_start_seq r + dr_len r]) (dw_ranges work))) @
    map (\<lambda>x. (x, True)) (masks_seqs (dw_masks work))"
proof -
  obtain rs ss where r: "queue_repr q rs ss" using inv by (auto simp: queue_inv_def)
  let ?k = "min m (qcount Ready q)"
  let ?f = "concat (map (\<lambda>r. [dr_start_seq r..<dr_start_seq r + dr_len r]) (dw_ranges work))"
  have rg: "dw_ranges work = (if ?k = 0 then [] else [DeliveryRange_new (q_head q) ?k])"
    and sp: "\<forall>x\<in>set (drop ?k (work_seqs work)). status q x = Some SparseReady"
    using d unfolding delivers_def Let_def by blast+
  have f: "?f = [q_head q..<q_head q + ?k]" by (simp add: rg DeliveryRange_new_def)
  then have "drop ?k (work_seqs work) = masks_seqs (dw_masks work)" by (simp add: work_seqs_def)
  moreover have "status q x = Some Ready" if "x \<in> set ?f" for x
    using that unfolding f status_Ready_iff [OF r] using qcount_Ready [OF r] by auto
  ultimately show ?thesis using sp by (auto simp: work_seqs_def)
qed

lemma delivered_range_bounds:
  assumes inv: "queue_inv q" and d: "delivers q m n work q'"
  shows "\<forall>r\<in>set (dw_ranges work). 0 < dr_len r \<and> dr_start_seq r + dr_len r \<le> u64_max"
proof -
  obtain rs ss where r: "queue_repr q rs ss" using inv by (auto simp: queue_inv_def)
  have rg: "dw_ranges work = (if min m (qcount Ready q) = 0 then [] else [DeliveryRange_new (q_head q) (min m (qcount Ready q))])"
    using d unfolding delivers_def Let_def by blast
  have "q_next_seq q \<le> 256 * u32_max" "q_head q \<le> q_next_seq q" using r unfolding queue_repr_def by linarith+
  then show ?thesis
    using qcount_Ready [OF r] by (auto simp: rg DeliveryRange_new_def u32_max_def u64_max_def)
qed

lemma tag_work_ok:
  assumes inv: "queue_inv q" and d: "delivers q m n work q'" and w: "window_inv (cs_next_tag s) (cs_window s)"
    and b: "sw_unacked (cs_window s) + n \<le> u32_max" "cs_next_tag s + n \<le> u64_max"
  shows "ok (tag_ranges (dw_ranges work) s out \<bind> (\<lambda>(s, out). tag_masks q' (dw_masks work) s out))
    (tagged (map (\<lambda>x. (x, status q x = Some SparseReady)) (work_seqs work)) s out)"
  unfolding ok_bind
proof (rule ok_mono [OF tag_ranges_ok [OF w delivered_range_bounds [OF inv d]]])
  let ?fr = "concat (map (\<lambda>r. [dr_start_seq r..<dr_start_seq r + dr_len r]) (dw_ranges work))"
  let ?sp = "masks_seqs (dw_masks work)"
  have n: "length (work_seqs work) = n" "masks_wf (dw_masks work)"
    "\<forall>m\<in>set (dw_masks work). redelivered_mask q' (dm_block m) (dm_word m) (dm_mask m) = Some (dm_mask m)"
    using d unfolding delivers_def by blast+
  have ws: "work_seqs work = ?fr @ ?sp" by (simp add: work_seqs_def)
  have rl: "sum_list (map dr_len (dw_ranges work)) = length ?fr" by (simp add: length_concat comp_def)
  show "sw_unacked (cs_window s) + sum_list (map dr_len (dw_ranges work)) \<le> u32_max"
    "cs_next_tag s + sum_list (map dr_len (dw_ranges work)) \<le> u64_max" using b n(1) unfolding rl ws by simp_all
  fix p assume p: "tagged (map (\<lambda>x. (x, False)) ?fr) s out p"
  obtain s1 out1 where [simp]: "p = (s1, out1)" by (cases p)
  have s1: "window_inv (cs_next_tag s1) (cs_window s1)" "sw_unacked (cs_window s1) = sw_unacked (cs_window s) + length ?fr"
    "cs_next_tag s1 = cs_next_tag s + length ?fr" using p unfolding tagged_def by (auto simp del: length_concat)
  have "ok (tag_masks q' (dw_masks work) s1 out1) (tagged (map (\<lambda>x. (x, True)) ?sp) s1 out1)"
    by (rule tag_masks_ok [OF s1(1) n(2,3)]) (use b n(1) s1 ws in \<open>simp_all del: length_concat\<close>)
  then show "ok (case p of (s, out) \<Rightarrow> tag_masks q' (dw_masks work) s out)
      (tagged (map (\<lambda>x. (x, status q x = Some SparseReady)) (work_seqs work)) s out)"
    unfolding delivered_msgs [OF inv d] by (auto elim!: ok_mono intro: tagged_trans p [simplified])
qed

lemma tagged_session_delivers:
  assumes sinv: "session_inv s q" and d: "delivers q (min (credit_available (cs_credit s)) mx) n work q'"
    and nc: "\<not> is_cancelled s" and out: "batch_msgs out = []"
    and t: "tagged (map (\<lambda>x. (x, status q x = Some SparseReady)) (work_seqs work)) s out (s1, out1)"
    and c: "credit_covers c (sw_unacked (cs_window s) + n)" "cc_mode c = cc_mode (cs_credit s)"
    and dl: "deliver q (min (credit_available (cs_credit s)) mx) work_default = Some (n, work, q')" "min (credit_available (cs_credit s)) mx \<noteq> 0"
  shows "session_delivers s q mx n (s1\<lparr>cs_credit := c\<rparr>) q' out1"
proof -
  let ?w = "cs_window s" and ?nt = "cs_next_tag s"
  let ?msgs = "map (\<lambda>x. (x, status q x = Some SparseReady)) (work_seqs work)"
  have si: "queue_inv q" "FIRST_TAG \<le> ?nt"
    "distinct (map snd (window_entries ?w))" "\<forall>e\<in>set (window_entries ?w). FIRST_TAG \<le> fst e \<and> status q (snd e) = Some Inflight"
    using sinv unfolding session_inv_def by blast+
  have n: "n = min (min (credit_available (cs_credit s)) mx) (qcount Ready q + qcount SparseReady q)"
    "length (work_seqs work) = n" "distinct (work_seqs work)" "queue_inv q'"
    "status q' = (\<lambda>x. if x \<in> set (work_seqs work) then Some Inflight else status q x)"
    using d unfolding delivers_def by blast+
  obtain w' where w': "s1 = s\<lparr>cs_next_tag := ?nt + n, cs_window := w'\<rparr>" "window_inv (?nt + n) w'"
    "sw_unacked w' = sw_unacked ?w + n" "window_entries w' = window_entries ?w @ zip [?nt..<?nt + n] (work_seqs work)"
    "batch_msgs out1 = zip [?nt..<?nt + n] ?msgs"
    using t n(2) out by (auto simp: tagged_def comp_def)
  have av: "\<forall>x\<in>set (work_seqs work). status q x = Some Ready \<or> status q x = Some SparseReady"
    using delivers_available [OF si(1) d] by blast
  have dj: "snd ` set (window_entries ?w) \<inter> set (work_seqs work) = {}" using av si(4) by fastforce
  have "session_inv (s1\<lparr>cs_credit := c\<rparr>) q'"
    unfolding session_inv_def
    using si n(2-4) w' c nc dj by (auto simp: is_cancelled_def n(5) dest: set_zip_leftD set_zip_rightD)
  then show ?thesis
    unfolding session_delivers_def if_not_P [OF dl(2)] using n w' av c dl(1)
    by (intro conjI exI [of _ "work_seqs work"]) simp_all
qed

lemma deliver_tags_ok:
  assumes sinv: "session_inv s q" and d: "delivers q (min (credit_available (cs_credit s)) mx) n work q'"
    and nc: "\<not> is_cancelled s" and out: "batch_msgs out = []"
    and b: "sw_unacked (cs_window s) + n \<le> u32_max" "cs_next_tag s + n \<le> u64_max"
    and dl: "deliver q (min (credit_available (cs_credit s)) mx) work_default = Some (n, work, q')" "min (credit_available (cs_credit s)) mx \<noteq> 0"
  shows "ok (do {
      (s, out) \<leftarrow> tag_ranges (dw_ranges work) s out;
      (s, out) \<leftarrow> tag_masks q' (dw_masks work) s out;
      (_, c) \<leftarrow> credit_reserve (cs_credit s) n;
      Some (Inr n, s\<lparr>cs_credit := c\<rparr>, q', out) })
    (\<lambda>(r, s', q', out'). \<exists>n. r = Inr n \<and> session_delivers s q mx n s' q' out')"
proof -
  have si: "queue_inv q" "window_inv (cs_next_tag s) (cs_window s)" "credit_covers (cs_credit s) (sw_unacked (cs_window s))"
    using sinv unfolding session_inv_def by blast+
  have n: "n \<le> credit_available (cs_credit s)" using d unfolding delivers_def by (elim conjE) linarith
  note cr = credit_reserve_ok [OF si(3) n]
  have fin: "ok (credit_reserve (cs_credit s1) n) (\<lambda>(_, c). session_delivers s q mx n (s1\<lparr>cs_credit := c\<rparr>) q' out1)"
    if t: "tagged (map (\<lambda>x. (x, status q x = Some SparseReady)) (work_seqs work)) s out (s1, out1)" for s1 out1
  proof -
    have "cs_credit s1 = cs_credit s" using t by (auto simp: tagged_def)
    then show ?thesis
      by (simp only:, intro ok_mono [OF cr]) (use tagged_session_delivers [OF sinv d nc out t _ _ dl] in auto)
  qed
  obtain s1 out1 where t: "tag_ranges (dw_ranges work) s out \<bind> (\<lambda>(s, out). tag_masks q' (dw_masks work) s out) = Some (s1, out1)"
    "tagged (map (\<lambda>x. (x, status q x = Some SparseReady)) (work_seqs work)) s out (s1, out1)"
    using tag_work_ok [OF si(1) d si(2) b, of out] by (auto elim!: okE)
  then obtain s0 out0 where "tag_ranges (dw_ranges work) s out = Some (s0, out0)" "tag_masks q' (dw_masks work) s0 out0 = Some (s1, out1)"
    by (auto simp: bind_eq_Some_conv)
  then show ?thesis using fin [OF t(2)] by (auto elim!: okE)
qed

lemma deliver_from_queue_ok:
  assumes sinv: "session_inv s q" and nc: "\<not> is_cancelled s" and mx: "mx \<le> u32_max"
    and b: "sw_unacked (cs_window s) + min (credit_available (cs_credit s)) mx \<le> u32_max"
      "cs_next_tag s + mx \<le> u64_max" "total_delivered (q_stats q) + mx \<le> u64_max"
  shows "ok (deliver_from_queue s q mx out)
    (\<lambda>(r, s', q', out'). \<exists>n. r = Inr n \<and> session_delivers s q mx n s' q' out')"
proof -
  let ?av = "min (credit_available (cs_credit s)) mx"
  have si: "queue_inv q" using sinv unfolding session_inv_def by blast
  have out: "batch_msgs (batch_clear out) = []" by (simp add: batch_msgs_def batch_clear_def)
  have none: "session_delivers s q mx 0 s q (batch_clear out)" if "?av = 0"
    by (rule session_delivers_none [OF sinv]) (use that si out in simp_all)
  have some: "ok (if n = 0 then Some (Inr 0, s, q', batch_clear out) else do {
      (s, out) \<leftarrow> tag_ranges (dw_ranges work) s (batch_clear out);
      (s, out) \<leftarrow> tag_masks q' (dw_masks work) s out;
      (_, c) \<leftarrow> credit_reserve (cs_credit s) n;
      Some (Inr n, s\<lparr>cs_credit := c\<rparr>, q', out) })
    (\<lambda>(r, s', q', out'). \<exists>n. r = Inr n \<and> session_delivers s q mx n s' q' out')"
    if d: "delivers q ?av n work q'" and dl: "deliver q ?av work_default = Some (n, work, q')" and av: "?av \<noteq> 0" for n work q'
  proof (cases "n = 0")
    case True
    have n: "n = min ?av (qcount Ready q + qcount SparseReady q)" "length (work_seqs work) = n" "queue_inv q'"
      "status q' = (\<lambda>x. if x \<in> set (work_seqs work) then Some Inflight else status q x)"
      using d unfolding delivers_def by blast+
    have "session_delivers s q mx 0 s q' (batch_clear out)"
      by (rule session_delivers_none [OF sinv]) (use n dl out av in \<open>simp_all add: True del: min_less_iff_conj\<close>)
    then show ?thesis by (simp add: True)
  next
    case False
    have "n \<le> ?av" using d unfolding delivers_def by (elim conjE) linarith
    then have b': "sw_unacked (cs_window s) + n \<le> u32_max" "cs_next_tag s + n \<le> u64_max" using b by linarith+
    show ?thesis unfolding if_not_P [OF False] by (rule deliver_tags_ok [OF sinv d nc out b' dl av])
  qed
  have "ok (deliver q ?av work_default) (\<lambda>(c, work, q'). delivers q ?av c work q')"
    by (rule deliver_inv [OF si]) (use mx b(3) in linarith)+
  then obtain n work q' where d: "deliver q ?av work_default = Some (n, work, q')" "delivers q ?av n work q'"
    by (auto elim!: okE)
  show ?thesis
    using nc none some [OF d(2,1)] unfolding deliver_from_queue_def Let_def is_cancelled_def
    by (cases "?av = 0") (simp_all add: d(1) del: min_less_iff_conj)
qed

section \<open>Settlement\<close>

text \<open>The entries that satisfy \<open>P\<close> leave the window, and their messages go to state \<open>v\<close>.\<close>

definition session_settles ::
  "(nat \<times> nat \<Rightarrow> bool) \<Rightarrow> MessageState \<Rightarrow> ConsumerSession \<Rightarrow> HybridRangeBlockQueue \<Rightarrow> ConsumerSession \<Rightarrow> HybridRangeBlockQueue \<Rightarrow> bool" where
  "session_settles P v s q s' q' \<longleftrightarrow>
     window_entries (cs_window s') = filter (\<lambda>e. \<not> P e) (window_entries (cs_window s)) \<and>
     status q' = (\<lambda>x. if x \<in> snd ` set (filter P (window_entries (cs_window s))) then Some v else status q x) \<and>
     cs_next_tag s' = cs_next_tag s \<and> cc_mode (cs_credit s') = cc_mode (cs_credit s) \<and> session_inv s' q' \<and> same_seqs q q'"

lemma ack_seqs_length: "length (ack_seqs b) = sum_list (map ar_len (ab_ranges b)) + sum_list (map (\<lambda>m. count_ones (am_mask m)) (ab_masks b))"
  by (simp add: ack_seqs_def length_concat comp_def mask_list_def count_ones_def)

lemma nack_seqs_length: "length (nack_seqs b) = sum_list (map nr_len (nb_ranges b)) + sum_list (map (\<lambda>m. count_ones (nm_mask m)) (nb_masks b))"
  by (simp add: nack_seqs_def length_concat comp_def mask_list_def count_ones_def)

lemma acked_messages_ok: "length (ack_seqs b) \<le> u64_max \<Longrightarrow> acked_messages b = Some (length (ack_seqs b))"
  by (simp add: acked_messages_def ack_seqs_length sum_u64_eq add_u64_def)

lemma batch_nacked_count_ok: "length (nack_seqs b) \<le> u32_max \<Longrightarrow> batch_nacked_count b = Some (length (nack_seqs b))"
  by (simp add: batch_nacked_count_def nack_seqs_length sum_u32_eq add_u32_def)

lemma nack_batch_as_ack_ok: "ack_seqs (nack_batch_as_ack b) = nack_seqs b" "nack_batch_wf b \<Longrightarrow> ack_batch_wf (nack_batch_as_ack b)"
  by (auto simp: ack_seqs_def nack_seqs_def nack_batch_as_ack_def AckRange_new_def AckMask_new_def comp_def
      ack_batch_wf_def nack_batch_wf_def)

text \<open>What a settled part of the window gives the queue: distinct messages in flight.\<close>

lemma settled_seqs:
  assumes sinv: "session_inv s q" and st: "settled (cs_next_tag s) (cs_window s) P seqs w'"
  shows "distinct seqs" "\<forall>x\<in>set seqs. status q x = Some Inflight" "length seqs \<le> sw_unacked (cs_window s)"
    "length seqs = length (filter P (window_entries (cs_window s)))"
    "set seqs = snd ` set (filter P (window_entries (cs_window s)))" "length seqs \<le> u32_max"
    "sw_unacked w' = sw_unacked (cs_window s) - length seqs"
proof -
  let ?es = "window_entries (cs_window s)"
  have m: "mset seqs = mset (map snd (filter P ?es))" using st by (simp add: settled_def)
  have d: "distinct (map snd ?es)" and fl: "\<forall>e\<in>set ?es. status q (snd e) = Some Inflight"
    and u: "sw_unacked (cs_window s) = length ?es" "sw_unacked (cs_window s) \<le> u32_max"
    using sinv unfolding session_inv_def window_inv_def by blast+
  show s: "set seqs = snd ` set (filter P ?es)" using m by (metis set_map set_mset_mset)
  show l: "length seqs = length (filter P ?es)" using m by (metis length_map size_mset)
  show "length seqs \<le> sw_unacked (cs_window s)" unfolding l u(1) by (rule length_filter_le)
  then show "length seqs \<le> u32_max" using u(2) by linarith
  show "distinct seqs" using distinct_map_filter [OF d, of P] m by (metis mset_eq_imp_distinct_iff)
  show "\<forall>x\<in>set seqs. status q x = Some Inflight" using fl unfolding s by auto
  have "sw_unacked w' = length (filter (\<lambda>e. \<not> P e) ?es)" using st by (simp add: settled_def window_inv_def)
  then show "sw_unacked w' = sw_unacked (cs_window s) - length seqs"
    using sum_length_filter_compl [of P ?es] unfolding l u(1) by linarith
qed

lemma session_settles_intro:
  assumes sinv: "session_inv s q" and st: "settled (cs_next_tag s) (cs_window s) P seqs w'"
    and q: "queue_inv q'" "status q' = (\<lambda>x. if x \<in> set seqs then Some v else status q x)" "same_seqs q q'"
    and fl: "is_cancelled (s\<lparr>cs_flags := fl\<rparr>) \<longrightarrow> is_cancelled s \<or> (\<forall>e. P e)"
  shows "session_settles P v s q (s\<lparr>cs_flags := fl, cs_window := w', cs_credit := credit_release (cs_credit s) (length seqs)\<rparr>) q'"
proof -
  let ?es = "window_entries (cs_window s)"
  note ss = settled_seqs [OF sinv st]
  have d: "distinct (map snd ?es)" and en: "\<forall>e\<in>set ?es. FIRST_TAG \<le> fst e \<and> status q (snd e) = Some Inflight"
    and si: "FIRST_TAG \<le> cs_next_tag s" "credit_covers (cs_credit s) (sw_unacked (cs_window s))" "is_cancelled s \<longrightarrow> ?es = []"
    using sinv unfolding session_inv_def by blast+
  have w: "window_inv (cs_next_tag s) w'" "window_entries w' = filter (\<lambda>e. \<not> P e) ?es" using st by (simp_all add: settled_def)
  have keep: "snd e \<notin> set seqs" if "e \<in> set (filter (\<lambda>e. \<not> P e) ?es)" for e
    using that d unfolding ss(5) by (auto simp: distinct_map inj_on_def)
  have "session_inv (s\<lparr>cs_flags := fl, cs_window := w', cs_credit := credit_release (cs_credit s) (length seqs)\<rparr>) q'"
    unfolding session_inv_def
    using w en d q keep si fl credit_release_ok(1) [OF si(2) ss(3)] ss(7)
    by (auto simp: distinct_map_filter is_cancelled_def filter_empty_conv)
  then show ?thesis
    unfolding session_settles_def using w q ss(5) credit_release_ok(2) [OF si(2) ss(3)] by simp
qed

definition ack_selects :: "AckRequest \<Rightarrow> nat \<times> nat \<Rightarrow> bool" where
  "ack_selects req e \<longleftrightarrow> (case aq_mode req of AckOne \<Rightarrow> fst e = aq_tag req | AckMultiple \<Rightarrow> fst e \<le> aq_tag req)"

definition nack_selects :: "NackRequest \<Rightarrow> nat \<times> nat \<Rightarrow> bool" where
  "nack_selects req e \<longleftrightarrow> (case nq_mode req of NackOne \<Rightarrow> fst e = nq_tag req | NackMultiple \<Rightarrow> fst e \<le> nq_tag req)"

text \<open>The state a negative settlement leaves a message in: only a requeue keeps it for redelivery.\<close>

definition nack_state :: "NackReason \<Rightarrow> MessageState" where
  "nack_state reason = (case reason of Requeue \<Rightarrow> Retry | Reject \<Rightarrow> Acked | DeadLetter \<Rightarrow> Acked)"

lemma session_ack_ok:
  assumes sinv: "session_inv s q" and nc: "\<not> is_cancelled s"
    and tag: "aq_tag req \<in> fst ` set (window_entries (cs_window s))"
    and b: "total_acked (q_stats q) + sw_unacked (cs_window s) \<le> u64_max"
  shows "ok (session_ack s req q) (\<lambda>(r, s', q'). session_settles (ack_selects req) Acked s q s' q' \<and> cs_flags s' = cs_flags s \<and>
    (\<exists>a. r = Inr a \<and> aa_acked a = length (filter (ack_selects req) (window_entries (cs_window s))) \<and> aa_released_credit a = aa_acked a))"
proof -
  have w: "window_inv (cs_next_tag s) (cs_window s)" and en: "\<forall>e\<in>set (window_entries (cs_window s)). FIRST_TAG \<le> fst e"
    and qi: "queue_inv q" using sinv unfolding session_inv_def by blast+
  have "ok (case aq_mode req of AckOne \<Rightarrow> ack_one (cs_window s) (aq_tag req) | AckMultiple \<Rightarrow> ack_multiple (cs_window s) (aq_tag req))
    (\<lambda>(r, w'). \<exists>batch. r = Inr batch \<and> ack_batch_wf batch \<and> settled (cs_next_tag s) (cs_window s) (ack_selects req) (ack_seqs batch) w')"
    using ack_one_ok [OF w tag] ack_multiple_ok [OF w tag] unfolding ack_selects_def by (cases "aq_mode req") simp_all
  then obtain batch w' where op: "(case aq_mode req of AckOne \<Rightarrow> ack_one (cs_window s) (aq_tag req) |
      AckMultiple \<Rightarrow> ack_multiple (cs_window s) (aq_tag req)) = Some (Inr batch, w')"
    and wf: "ack_batch_wf batch" and st: "settled (cs_next_tag s) (cs_window s) (ack_selects req) (ack_seqs batch) w'"
    by (auto elim!: okE)
  note ss = settled_seqs [OF sinv st]
  have n: "length (ack_seqs batch) \<le> u64_max" "as_u32 (length (ack_seqs batch)) = length (ack_seqs batch)"
    using ss(6) by (simp_all add: as_u32_def u32_max_def u64_max_def)
  obtain q' where q': "apply_ack_batch q batch = Some q'" "queue_inv q'"
    "status q' = (\<lambda>x. if x \<in> set (ack_seqs batch) then Some Acked else status q x)" "same_seqs q q'"
    using ack_inv [OF qi wf ss(1,2)] b ss(3) by (auto elim!: okE)
  have g: "\<not> (aq_tag req < FIRST_TAG \<or> cs_next_tag s \<le> aq_tag req)"
    using window_tags_less [OF w] en tag by fastforce
  have "session_settles (ack_selects req) Acked s q
      (s\<lparr>cs_window := w', cs_credit := credit_release (cs_credit s) (length (ack_seqs batch))\<rparr>) q'"
    using session_settles_intro [OF sinv st q'(2-4), of "cs_flags s"] by (simp add: is_cancelled_def)
  then show ?thesis
    using nc g op q' acked_messages_ok [OF n(1)] n(2) ss(4)
    by (simp add: session_ack_def is_cancelled_def not_less not_le Let_def)
qed

lemma apply_nack_ok:
  assumes sinv: "session_inv s q" and wf: "nack_batch_wf batch" and st: "settled (cs_next_tag s) (cs_window s) P (nack_seqs batch) w'"
    and b: "total_acked (q_stats q) + sw_unacked (cs_window s) \<le> u64_max" "total_nacked (q_stats q) + sw_unacked (cs_window s) \<le> u64_max"
  shows "ok (session_apply_nack_batch q batch) (\<lambda>((rq, dr, dl), q'). queue_inv q' \<and> same_seqs q q' \<and>
    status q' = (\<lambda>x. if x \<in> set (nack_seqs batch) then Some (nack_state (nb_reason batch)) else status q x) \<and>
    (rq, dr, dl) = (case nb_reason batch of Requeue \<Rightarrow> (length (nack_seqs batch), 0, 0)
      | Reject \<Rightarrow> (0, length (nack_seqs batch), 0) | DeadLetter \<Rightarrow> (0, 0, length (nack_seqs batch))))"
proof -
  have qi: "queue_inv q" using sinv unfolding session_inv_def by blast
  note ss = settled_seqs [OF sinv st]
  note ni = nack_inv [OF qi wf ss(1,2)]
  note ai = ack_inv [OF qi nack_batch_as_ack_ok(2) [OF wf], unfolded nack_batch_as_ack_ok(1), OF ss(1,2)]
  have l: "total_acked (q_stats q) + length (nack_seqs batch) \<le> u64_max" "total_nacked (q_stats q) + length (nack_seqs batch) \<le> u64_max"
    using b ss(3) by linarith+
  have na: "ok (apply_nack_batch q batch) (\<lambda>q'. queue_inv q' \<and> same_seqs q q' \<and> status q' = (\<lambda>x. if x \<in> set (nack_seqs batch) then Some Retry else status q x))"
    by (rule ok_mono [OF ni [OF l(2)]]) blast
  have ac: "ok (apply_ack_batch q (nack_batch_as_ack batch))
      (\<lambda>q'. queue_inv q' \<and> same_seqs q q' \<and> status q' = (\<lambda>x. if x \<in> set (nack_seqs batch) then Some Acked else status q x))"
    by (rule ok_mono [OF ai [OF l(1)]]) blast
  show ?thesis
    using na ac unfolding session_apply_nack_batch_def batch_nacked_count_ok [OF ss(6)]
    by (cases "nb_reason batch") (simp_all add: nack_state_def cong: if_cong)
qed

lemma session_nack_ok:
  assumes sinv: "session_inv s q" and nc: "\<not> is_cancelled s"
    and tag: "nq_tag req \<in> fst ` set (window_entries (cs_window s))"
    and b: "total_acked (q_stats q) + sw_unacked (cs_window s) \<le> u64_max" "total_nacked (q_stats q) + sw_unacked (cs_window s) \<le> u64_max"
  defines "n \<equiv> length (filter (nack_selects req) (window_entries (cs_window s)))"
  shows "ok (session_nack s req q) (\<lambda>(r, s', q'). session_settles (nack_selects req) (nack_state (nq_reason req)) s q s' q' \<and>
    cs_flags s' = cs_flags s \<and>
    r = Inr \<lparr>na_nacked = n, na_requeued = (if nq_reason req = Requeue then n else 0), na_dropped = (if nq_reason req = Reject then n else 0),
      na_dead_lettered = (if nq_reason req = DeadLetter then n else 0), na_released_credit = n\<rparr>)"
proof -
  have w: "window_inv (cs_next_tag s) (cs_window s)" and en: "\<forall>e\<in>set (window_entries (cs_window s)). FIRST_TAG \<le> fst e"
    using sinv unfolding session_inv_def by blast+
  let ?op = "case nq_mode req of NackOne \<Rightarrow> nack_one (cs_window s) (nq_tag req) (nq_reason req) |
      NackMultiple \<Rightarrow> nack_multiple (cs_window s) (nq_tag req) (nq_reason req)"
  have "ok ?op (\<lambda>(r, w'). \<exists>batch. r = Inr batch \<and> nack_batch_wf batch \<and> nb_reason batch = nq_reason req \<and>
      settled (cs_next_tag s) (cs_window s) (nack_selects req) (nack_seqs batch) w')"
    using nack_one_ok [OF w tag] nack_multiple_ok [OF w tag] unfolding nack_selects_def by (cases "nq_mode req") simp_all
  then obtain batch w' where op: "?op = Some (Inr batch, w')"
    and wf: "nack_batch_wf batch" "nb_reason batch = nq_reason req"
    and st: "settled (cs_next_tag s) (cs_window s) (nack_selects req) (nack_seqs batch) w'"
    by (auto elim!: okE)
  note ss = settled_seqs [OF sinv st]
  obtain rq dr dl q' where ap: "session_apply_nack_batch q batch = Some ((rq, dr, dl), q')" and q': "queue_inv q'"
    "status q' = (\<lambda>x. if x \<in> set (nack_seqs batch) then Some (nack_state (nq_reason req)) else status q x)" "same_seqs q q'"
    and c: "(rq, dr, dl) = (case nq_reason req of Requeue \<Rightarrow> (n, 0, 0) | Reject \<Rightarrow> (0, n, 0) | DeadLetter \<Rightarrow> (0, 0, n))"
    using apply_nack_ok [OF sinv wf(1) st b] unfolding wf(2) ss(4) n_def by (auto elim!: okE)
  have g: "\<not> (nq_tag req < FIRST_TAG \<or> cs_next_tag s \<le> nq_tag req)"
    using window_tags_less [OF w] en tag by fastforce
  have "session_settles (nack_selects req) (nack_state (nq_reason req)) s q
      (s\<lparr>cs_window := w', cs_credit := credit_release (cs_credit s) (length (nack_seqs batch))\<rparr>) q'"
    using session_settles_intro [OF sinv st q', of "cs_flags s"] by (simp add: is_cancelled_def)
  moreover have "batch_nacked_count batch = Some n" using batch_nacked_count_ok [OF ss(6)] ss(4) by (simp add: n_def)
  moreover have "rq = (if nq_reason req = Requeue then n else 0)" "dr = (if nq_reason req = Reject then n else 0)"
    "dl = (if nq_reason req = DeadLetter then n else 0)" using c by (cases "nq_reason req"; simp)+
  ultimately show ?thesis
    using nc g op ap ss(4)
    by (simp add: session_nack_def is_cancelled_def not_less not_le Let_def n_def)
qed

lemma settle_refused:
  assumes sinv: "session_inv s q" and nc: "\<not> is_cancelled s"
  shows "aq_tag areq \<notin> fst ` set (window_entries (cs_window s)) \<Longrightarrow> session_ack s areq q = Some
      (Inl (if aq_tag areq < FIRST_TAG \<or> cs_next_tag s \<le> aq_tag areq then InvalidDeliveryTag else DeliveryTagAlreadySettled), s, q)"
    and "nq_tag nreq \<notin> fst ` set (window_entries (cs_window s)) \<Longrightarrow> session_nack s nreq q = Some
      (Inl (if nq_tag nreq < FIRST_TAG \<or> cs_next_tag s \<le> nq_tag nreq then InvalidDeliveryTag else DeliveryTagAlreadySettled), s, q)"
proof -
  have w: "window_inv (cs_next_tag s) (cs_window s)" using sinv unfolding session_inv_def by blast
  show "session_ack s areq q = Some
      (Inl (if aq_tag areq < FIRST_TAG \<or> cs_next_tag s \<le> aq_tag areq then InvalidDeliveryTag else DeliveryTagAlreadySettled), s, q)"
    if "aq_tag areq \<notin> fst ` set (window_entries (cs_window s))"
    using nc settle_one_missing(1) [OF w that] settle_multiple_missing(1) [OF w that]
    by (cases "aq_mode areq") (simp_all add: session_ack_def is_cancelled_def)
  show "session_nack s nreq q = Some
      (Inl (if nq_tag nreq < FIRST_TAG \<or> cs_next_tag s \<le> nq_tag nreq then InvalidDeliveryTag else DeliveryTagAlreadySettled), s, q)"
    if "nq_tag nreq \<notin> fst ` set (window_entries (cs_window s))"
    using nc settle_one_missing(2) [OF w that] settle_multiple_missing(2) [OF w that]
    by (cases "nq_mode nreq") (simp_all add: session_nack_def is_cancelled_def)
qed

lemma session_cancel_ok:
  assumes sinv: "session_inv s q"
    and b: "total_acked (q_stats q) + sw_unacked (cs_window s) \<le> u64_max" "total_nacked (q_stats q) + sw_unacked (cs_window s) \<le> u64_max"
  shows "ok (session_cancel s disp q) (\<lambda>(r, s', q').
    session_settles (\<lambda>_. True) (case disp of RequeueUnacked \<Rightarrow> Retry | DropUnacked \<Rightarrow> Acked) s q s' q' \<and> is_cancelled s' \<and>
    r = (case disp of RequeueUnacked \<Rightarrow> \<lparr>cr_requeued = sw_unacked (cs_window s), cr_dropped = 0\<rparr>
         | DropUnacked \<Rightarrow> \<lparr>cr_requeued = 0, cr_dropped = sw_unacked (cs_window s)\<rparr>))"
proof -
  have w: "window_inv (cs_next_tag s) (cs_window s)" and qi: "queue_inv q" using sinv unfolding session_inv_def by blast+
  obtain batch w' where op: "drain_all (cs_window s) Requeue = Some (batch, w')"
    and wf: "nack_batch_wf batch" and st: "settled (cs_next_tag s) (cs_window s) (\<lambda>_. True) (nack_seqs batch) w'"
    using drain_all_ok [OF w, of Requeue] by (auto elim!: okE)
  note ss = settled_seqs [OF sinv st]
  have l: "length (nack_seqs batch) = sw_unacked (cs_window s)" using ss(4) w by (simp add: window_inv_def)
  have c: "is_cancelled (s\<lparr>cs_flags := cs_flags s OR CONSUMER_CANCELLED\<rparr>)"
    unfolding is_cancelled_def flags_contain_def by (rule bit_word_eqI) (auto simp: bit_simps)
  have fin: "session_settles (\<lambda>_. True) v s q (s\<lparr>cs_flags := cs_flags s OR CONSUMER_CANCELLED, cs_window := w',
      cs_credit := credit_release (cs_credit s) (sw_unacked (cs_window s))\<rparr>) q'"
    if "queue_inv q'" "status q' = (\<lambda>x. if x \<in> set (nack_seqs batch) then Some v else status q x)" "same_seqs q q'" for v q'
    using session_settles_intro [OF sinv st that, of "cs_flags s OR CONSUMER_CANCELLED"] l by simp
  show ?thesis
  proof (cases disp)
    case RequeueUnacked
    obtain q' where "apply_nack_batch q batch = Some q'" "queue_inv q'"
      "status q' = (\<lambda>x. if x \<in> set (nack_seqs batch) then Some Retry else status q x)" "same_seqs q q'"
      using nack_inv [OF qi wf ss(1,2)] b(2) l by (auto elim!: okE)
    then show ?thesis
      using op batch_nacked_count_ok [OF ss(6)] l c RequeueUnacked fin [of q' Retry]
      by (simp add: session_cancel_def Let_def is_cancelled_def)
  next
    case DropUnacked
    obtain q' where "apply_ack_batch q (nack_batch_as_ack batch) = Some q'" "queue_inv q'"
      "status q' = (\<lambda>x. if x \<in> set (nack_seqs batch) then Some Acked else status q x)" "same_seqs q q'"
      using ack_inv [OF qi nack_batch_as_ack_ok(2) [OF wf], unfolded nack_batch_as_ack_ok(1), OF ss(1,2)] b(1) l
      by (auto elim!: okE)
    then show ?thesis
      using op batch_nacked_count_ok [OF ss(6)] l c DropUnacked fin [of q' Acked]
      by (simp add: session_cancel_def Let_def is_cancelled_def)
  qed
qed

section \<open>Many sessions on one queue\<close>

text \<open>
  The sessions that consume from one queue: every message in flight is outstanding in exactly one
  of them.
\<close>

definition session_seqs :: "ConsumerSession \<Rightarrow> nat list" where
  "session_seqs s = map snd (window_entries (cs_window s))"

definition consumers_inv :: "ConsumerSession list \<Rightarrow> HybridRangeBlockQueue \<Rightarrow> bool" where
  "consumers_inv ss q \<longleftrightarrow> queue_inv q \<and> (\<forall>s\<in>set ss. session_inv s q) \<and> distinct (concat (map session_seqs ss)) \<and>
     set (concat (map session_seqs ss)) = {x. status q x = Some Inflight}"

text \<open>
  What one session may do to the queue: take messages that nobody holds, give up messages of its
  own, and nothing else about what is in flight.
\<close>

definition owner_step :: "ConsumerSession \<Rightarrow> HybridRangeBlockQueue \<Rightarrow> ConsumerSession \<Rightarrow> HybridRangeBlockQueue \<Rightarrow> bool" where
  "owner_step s q s' q' \<longleftrightarrow> session_inv s' q' \<and>
     (\<forall>x. (status q' x = Some Inflight) = (if x \<in> set (session_seqs s) then x \<in> set (session_seqs s')
        else status q x = Some Inflight \<or> x \<in> set (session_seqs s'))) \<and>
     (\<forall>x\<in>set (session_seqs s'). x \<in> set (session_seqs s) \<or> status q x \<noteq> Some Inflight)"

lemma owner_step_refl: "session_inv s q \<Longrightarrow> owner_step s q s q"
  by (auto simp: owner_step_def session_inv_def session_seqs_def)

lemma owner_step_delivers:
  assumes "session_inv s q" and "session_delivers s q mx n s' q' out'"
  shows "owner_step s q s' q'"
proof -
  obtain seqs where "length seqs = n" "\<forall>x\<in>set seqs. status q x = Some Ready \<or> status q x = Some SparseReady"
    "status q' = (\<lambda>x. if x \<in> set seqs then Some Inflight else status q x)"
    "window_entries (cs_window s') = window_entries (cs_window s) @ zip [cs_next_tag s..<cs_next_tag s + n] seqs" "session_inv s' q'"
    using assms(2) unfolding session_delivers_def by blast
  moreover from this have "set (session_seqs s') = set (session_seqs s) \<union> set seqs" by (simp add: session_seqs_def)
  moreover have "status q x = Some Inflight" if "x \<in> set (session_seqs s)" for x
    using assms(1) that by (auto simp: session_inv_def session_seqs_def)
  ultimately show ?thesis unfolding owner_step_def by auto
qed

lemma owner_step_settles:
  assumes "session_inv s q" and st: "session_settles P v s q s' q'" and "v \<noteq> Inflight"
  shows "owner_step s q s' q'"
proof -
  let ?es = "window_entries (cs_window s)"
  have e: "set (session_seqs s') = snd ` set (filter (\<lambda>e. \<not> P e) ?es)" and i: "session_inv s' q'"
    and q: "status q' = (\<lambda>x. if x \<in> snd ` set (filter P ?es) then Some v else status q x)"
    using st by (simp_all add: session_settles_def session_seqs_def)
  have d: "distinct (map snd ?es)" and fl: "\<forall>e\<in>set ?es. status q (snd e) = Some Inflight"
    using assms(1) unfolding session_inv_def by blast+
  define A B where "A = snd ` set (filter P ?es)" and "B = set (session_seqs s')"
  have "A \<inter> B = {}" using d unfolding A_def B_def e by (auto simp: distinct_map inj_on_def)
  moreover have S: "set (session_seqs s) = A \<union> B" unfolding A_def B_def e by (auto simp: session_seqs_def)
  moreover have "\<forall>x\<in>A \<union> B. status q x = Some Inflight" using fl unfolding S [symmetric] by (auto simp: session_seqs_def)
  moreover have "status q' = (\<lambda>x. if x \<in> A then Some v else status q x)" unfolding A_def by (rule q)
  ultimately show ?thesis
    unfolding owner_step_def B_def [symmetric] using i assms(3) by auto
qed

lemma session_inv_other:
  assumes "session_inv t q" "queue_inv q'" "\<forall>x\<in>set (session_seqs t). status q' x = Some Inflight"
  shows "session_inv t q'"
  using assms unfolding session_inv_def session_seqs_def by simp

lemma ownership_sets:
  assumes "\<forall>x. x \<in> I' \<longleftrightarrow> (if x \<in> S then x \<in> S' else x \<in> I \<or> x \<in> S')" and "\<forall>x\<in>S'. x \<in> S \<or> x \<notin> I"
    and "R \<inter> S = {}" and "R \<union> S = I"
  shows "R \<union> S' = I'" "R \<inter> S' = {}"
proof -
  have "x \<in> I' \<longleftrightarrow> x \<in> R \<or> x \<in> S'" for x
    using assms(1) [rule_format, of x] assms(2-4) by (cases "x \<in> S") auto
  then show "R \<union> S' = I'" by blast
  show "R \<inter> S' = {}" using assms(2-4) by blast
qed

lemma consumers_owner_step:
  assumes inv: "consumers_inv (us @ s # vs) q" and st: "owner_step s q s' q'"
  shows "consumers_inv (us @ s' # vs) q'"
proof -
  define U W where "U = concat (map session_seqs us)" and "W = concat (map session_seqs vs)"
  have cc: "concat (map session_seqs (us @ t # vs)) = U @ session_seqs t @ W" for t by (simp add: U_def W_def)
  have i: "\<forall>t\<in>set (us @ s # vs). session_inv t q" and d: "distinct (U @ session_seqs s @ W)"
    and fl: "set (U @ session_seqs s @ W) = {x. status q x = Some Inflight}"
    using inv unfolding consumers_inv_def cc by blast+
  have o1: "\<forall>x. x \<in> {x. status q' x = Some Inflight} \<longleftrightarrow> (if x \<in> set (session_seqs s) then x \<in> set (session_seqs s')
      else x \<in> {x. status q x = Some Inflight} \<or> x \<in> set (session_seqs s'))"
    and o2: "\<forall>x\<in>set (session_seqs s'). x \<in> set (session_seqs s) \<or> x \<notin> {x. status q x = Some Inflight}"
    and s': "session_inv s' q'" using st by (simp_all add: owner_step_def)
  have dj: "(set U \<union> set W) \<inter> set (session_seqs s) = {}" and un: "(set U \<union> set W) \<union> set (session_seqs s) = {x. status q x = Some Inflight}"
    using d fl by auto
  note os = ownership_sets [OF o1 o2 dj un]
  have qi: "queue_inv q'" and d': "distinct (session_seqs s')" using s' by (simp_all add: session_inv_def session_seqs_def)
  have "session_inv t q'" if t: "t \<in> set us \<union> set vs" for t
  proof (rule session_inv_other [OF _ qi])
    show "session_inv t q" using t i by auto
    have "set (session_seqs t) \<subseteq> set U \<union> set W" using t by (auto simp: U_def W_def)
    then show "\<forall>x\<in>set (session_seqs t). status q' x = Some Inflight" using os(1) by blast
  qed
  then have "\<forall>t\<in>set (us @ s' # vs). session_inv t q'" using s' by simp
  moreover have "distinct (U @ session_seqs s' @ W)" using d d' os(2) by auto
  moreover have "set (U @ session_seqs s' @ W) = {x. status q' x = Some Inflight}" using os(1) by auto
  ultimately show ?thesis unfolding consumers_inv_def cc using qi by blast
qed

lemma consumers_queue_step:
  assumes inv: "consumers_inv ss q" and "queue_inv q'" and "\<forall>x. status q' x = Some Inflight \<longleftrightarrow> status q x = Some Inflight"
  shows "consumers_inv ss q'"
proof -
  have i: "\<forall>s\<in>set ss. session_inv s q" and d: "distinct (concat (map session_seqs ss))"
    and fl: "set (concat (map session_seqs ss)) = {x. status q x = Some Inflight}"
    using inv unfolding consumers_inv_def by blast+
  have "session_inv s q'" if s: "s \<in> set ss" for s
  proof (rule session_inv_other [OF _ assms(2)])
    have "set (session_seqs s) \<subseteq> set (concat (map session_seqs ss))" using s by auto
    then show "\<forall>x\<in>set (session_seqs s). status q' x = Some Inflight" using fl assms(3) by blast
  qed (use i s in blast)
  then show ?thesis using d fl assms(2,3) unfolding consumers_inv_def by simp
qed

end
