(* ===== verification/Consumer_Steps.thy ===== *)
theory Consumer_Steps
  imports Session_Inv
begin

text \<open>
  Many consumer sessions and one queue as a state machine: a rule per call that the broker makes,
  with the guards that keep the counters within their widths. In every reachable state each
  message in flight is outstanding in exactly one session, and no session exceeds its credit.
\<close>

inductive consumer_step ::
  "ConsumerSession list \<times> HybridRangeBlockQueue \<Rightarrow> ConsumerSession list \<times> HybridRangeBlockQueue \<Rightarrow> bool" where
  cs_subscribe: "consumer_step (ss, q) (ss @ [session_new i channel mode], q)"
    if "\<forall>l. mode = Limited l \<longrightarrow> l \<le> u32_max"
| cs_publish: "consumer_step (ss, q) (ss, q')"
    if "publish_contiguous q n = Some (r, q')" "q_next_seq q + n \<le> 256 * u32_max" "total_published (q_stats q) + n \<le> u64_max"
| cs_retry: "consumer_step (ss, q) (ss, q')"
    if "retry_all_now q = Some (c, q')" "qcount Retry q \<le> u32_max" "total_retried (q_stats q) + qcount Retry q \<le> u64_max"
| cs_deliver: "consumer_step (us @ s # vs, q) (us @ s' # vs, q')"
    if "deliver_from_queue s q mx out = Some (r, s', q', out')" "mx \<le> u32_max"
      "sw_unacked (cs_window s) + min (credit_available (cs_credit s)) mx \<le> u32_max"
      "cs_next_tag s + mx \<le> u64_max" "total_delivered (q_stats q) + mx \<le> u64_max"
| cs_ack: "consumer_step (us @ s # vs, q) (us @ s' # vs, q')"
    if "session_ack s areq q = Some (ra, s', q')"
      "total_acked (q_stats q) + sw_unacked (cs_window s) \<le> u64_max"
| cs_nack: "consumer_step (us @ s # vs, q) (us @ s' # vs, q')"
    if "session_nack s nreq q = Some (rn, s', q')"
      "total_acked (q_stats q) + sw_unacked (cs_window s) \<le> u64_max" "total_nacked (q_stats q) + sw_unacked (cs_window s) \<le> u64_max"
| cs_reject: "consumer_step (us @ s # vs, q) (us @ s' # vs, q')"
    if "session_reject s rreq q = Some (rn, s', q')"
      "total_acked (q_stats q) + sw_unacked (cs_window s) \<le> u64_max" "total_nacked (q_stats q) + sw_unacked (cs_window s) \<le> u64_max"
| cs_cancel: "consumer_step (us @ s # vs, q) (us @ s' # vs, q')"
    if "session_cancel s disp q = Some (rc, s', q')"
      "total_acked (q_stats q) + sw_unacked (cs_window s) \<le> u64_max" "total_nacked (q_stats q) + sw_unacked (cs_window s) \<le> u64_max"

inductive consumer_reachable :: "ConsumerSession list \<times> HybridRangeBlockQueue \<Rightarrow> bool" where
  cr_empty: "consumer_reachable ([], q_empty)"
| cr_step: "consumer_reachable c'" if "consumer_reachable c" "consumer_step c c'"

lemma session_ack_owner:
  assumes "session_inv s q" "session_ack s req q = Some (r, s', q')"
    "total_acked (q_stats q) + sw_unacked (cs_window s) \<le> u64_max"
  shows "owner_step s q s' q'"
proof (cases "is_cancelled s")
  case True
  then show ?thesis using assms owner_step_refl by (simp add: session_ack_def is_cancelled_def)
next
  case False
  show ?thesis
  proof (cases "aq_tag req \<in> fst ` set (window_entries (cs_window s))")
    case True
    from ok_SomeD [OF session_ack_ok [OF assms(1) False True assms(3)] assms(2)] show ?thesis
      by (auto intro: owner_step_settles [OF assms(1)])
  next
    case no: False
    then show ?thesis using settle_refused(1) [OF assms(1) False no] assms owner_step_refl by simp
  qed
qed

lemma session_nack_owner:
  assumes "session_inv s q" "session_nack s req q = Some (r, s', q')"
    "total_acked (q_stats q) + sw_unacked (cs_window s) \<le> u64_max" "total_nacked (q_stats q) + sw_unacked (cs_window s) \<le> u64_max"
  shows "owner_step s q s' q'"
proof (cases "is_cancelled s")
  case True
  then show ?thesis using assms owner_step_refl by (simp add: session_nack_def is_cancelled_def)
next
  case False
  show ?thesis
  proof (cases "nq_tag req \<in> fst ` set (window_entries (cs_window s))")
    case True
    have "nack_state (nq_reason req) \<noteq> Inflight" by (simp add: nack_state_def split: NackReason.splits)
    with ok_SomeD [OF session_nack_ok [OF assms(1) False True assms(3,4)] assms(2)] show ?thesis
      by (auto intro: owner_step_settles [OF assms(1)])
  next
    case no: False
    then show ?thesis using settle_refused(2) [OF assms(1) False no] assms owner_step_refl by simp
  qed
qed

lemma session_deliver_owner:
  assumes "session_inv s q" "deliver_from_queue s q mx out = Some (r, s', q', out')" "mx \<le> u32_max"
    "sw_unacked (cs_window s) + min (credit_available (cs_credit s)) mx \<le> u32_max"
    "cs_next_tag s + mx \<le> u64_max" "total_delivered (q_stats q) + mx \<le> u64_max"
  shows "owner_step s q s' q'"
proof (cases "is_cancelled s")
  case True
  then show ?thesis using assms owner_step_refl by (simp add: deliver_from_queue_def is_cancelled_def)
next
  case False
  from ok_SomeD [OF deliver_from_queue_ok [OF assms(1) False assms(3-6)] assms(2)] show ?thesis
    by (auto intro: owner_step_delivers [OF assms(1)])
qed

lemma session_cancel_owner:
  assumes "session_inv s q" "session_cancel s disp q = Some (r, s', q')"
    "total_acked (q_stats q) + sw_unacked (cs_window s) \<le> u64_max" "total_nacked (q_stats q) + sw_unacked (cs_window s) \<le> u64_max"
  shows "owner_step s q s' q'"
proof -
  have "(case disp of RequeueUnacked \<Rightarrow> Retry | DropUnacked \<Rightarrow> Acked) \<noteq> Inflight" by (cases disp) simp_all
  with ok_SomeD [OF session_cancel_ok [OF assms(1,3,4)] assms(2)] show ?thesis
    by (auto intro: owner_step_settles [OF assms(1)])
qed

lemma consumers_subscribe:
  assumes "consumers_inv ss q" "\<forall>l. mode = Limited l \<longrightarrow> l \<le> u32_max"
  shows "consumers_inv (ss @ [session_new i channel mode]) q"
  using assms session_new_inv [OF _ assms(2), of q i channel]
  by (auto simp: consumers_inv_def session_seqs_def session_new_def window_new_def)

lemma consumers_member: "consumers_inv (us @ s # vs) q \<Longrightarrow> session_inv s q" "consumers_inv ss q \<Longrightarrow> queue_inv q"
  by (simp_all add: consumers_inv_def)

lemma consumer_step_inv:
  "consumer_step c c' \<Longrightarrow> consumers_inv (fst c) (snd c) \<Longrightarrow> consumers_inv (fst c') (snd c')"
proof (induction rule: consumer_step.induct)
  case (cs_subscribe mode ss q i channel)
  then show ?case by (simp add: consumers_subscribe)
next
  case (cs_publish q n r q' ss)
  then have i: "consumers_inv ss q" by simp
  note p = ok_SomeD [OF publish_inv [OF consumers_member(2) [OF i] cs_publish(2,3)] cs_publish(1)]
  have "x \<notin> {q_next_seq q..<q_next_seq q + n}" if "status q x = Some Inflight" for x
    using status_Some_less [OF that] by simp
  then have "\<forall>x. status q' x = Some Inflight \<longleftrightarrow> status q x = Some Inflight" using p by auto
  then show ?case using consumers_queue_step [OF i] p by simp
next
  case (cs_retry q c q' ss)
  then have i: "consumers_inv ss q" by simp
  note p = ok_SomeD [OF retry_inv [OF consumers_member(2) [OF i] cs_retry(2,3)] cs_retry(1)]
  then have "\<forall>x. status q' x = Some Inflight \<longleftrightarrow> status q x = Some Inflight" by auto
  then show ?case using consumers_queue_step [OF i] p by simp
next
  case (cs_deliver s q mx out r s' q' out' us vs)
  then have i: "consumers_inv (us @ s # vs) q" by simp
  show ?case
    using consumers_owner_step [OF i session_deliver_owner [OF consumers_member(1) [OF i] cs_deliver(1-5)]] by simp
next
  case (cs_ack s areq q ra s' q' us vs)
  then have i: "consumers_inv (us @ s # vs) q" by simp
  show ?case
    using consumers_owner_step [OF i session_ack_owner [OF consumers_member(1) [OF i] cs_ack(1,2)]] by simp
next
  case (cs_nack s nreq q rn s' q' us vs)
  then have i: "consumers_inv (us @ s # vs) q" by simp
  show ?case
    using consumers_owner_step [OF i session_nack_owner [OF consumers_member(1) [OF i] cs_nack(1-3)]] by simp
next
  case (cs_reject s rreq q rn s' q' us vs)
  then have i: "consumers_inv (us @ s # vs) q" by simp
  show ?case
    using consumers_owner_step [OF i session_nack_owner [OF consumers_member(1) [OF i] cs_reject(1) [unfolded session_reject_def] cs_reject(2,3)]]
    by simp
next
  case (cs_cancel s disp q rc s' q' us vs)
  then have i: "consumers_inv (us @ s # vs) q" by simp
  show ?case
    using consumers_owner_step [OF i session_cancel_owner [OF consumers_member(1) [OF i] cs_cancel(1-3)]] by simp
qed

lemma consumer_reachable_inv: "consumer_reachable c \<Longrightarrow> consumers_inv (fst c) (snd c)"
proof (induction rule: consumer_reachable.induct)
  case cr_empty
  then show ?case using queue_inv_empty by (simp add: consumers_inv_def status_def q_empty_def)
next
  case (cr_step c c')
  then show ?case by (blast intro: consumer_step_inv)
qed

end
