(* ===== verification/Consumer_Properties.thy ===== *)
theory Consumer_Properties
  imports Consumer_Steps Queue_Properties
begin

text \<open>
  The properties of consumer sessions, alone and many on one queue, with the two-message queue
  of \<open>Queue_Demo\<close> and one session of limit 5 as the concrete instance.
\<close>

section \<open>The concrete session\<close>

definition demo_s0 :: ConsumerSession where
  "demo_s0 = session_new 7 1 (Limited 5)"

definition demo_s1 :: ConsumerSession where
  "demo_s1 = demo_s0\<lparr>cs_next_tag := 3, cs_credit := \<lparr>cc_mode = Limited 5, cc_in_flight = 2\<rparr>,
     cs_window := \<lparr>sw_segments = [SegRange (RangeSegment_new 1 0 2 0)], sw_unacked = 2\<rparr>\<rparr>"

definition demo_out :: SessionDeliveryBatch where
  "demo_out = \<lparr>sb_segments = [TagRange \<lparr>tr_first_tag = 1, tr_range = DeliveryRange_new 0 2, tr_flags = 0\<rparr>]\<rparr>"

lemma demo_s0_fields: "cs_next_tag demo_s0 = 1" "sw_unacked (cs_window demo_s0) = 0" "credit_available (cs_credit demo_s0) = 5"
  "\<not> is_cancelled demo_s0" "window_entries (cs_window demo_s0) = []"
  by (simp_all add: demo_s0_def session_new_def FIRST_TAG_def window_new_def credit_new_def credit_available_def is_cancelled_def
      flags_contain_def CONSUMER_CANCELLED_def)

lemma demo_s1_fields: "cs_next_tag demo_s1 = 3" "sw_unacked (cs_window demo_s1) = 2" "cc_mode (cs_credit demo_s1) = Limited 5"
  "\<not> is_cancelled demo_s1" "window_entries (cs_window demo_s1) = [(1, 0), (2, 1)]"
  by (simp_all add: demo_s1_def demo_s0_def session_new_def RangeSegment_new_def is_cancelled_def
      flags_contain_def CONSUMER_CANCELLED_def upt_rec)

lemma demo_s0_inv: "session_inv demo_s0 demo_q1"
  using session_new_inv [OF demo_inv(1), of "Limited 5"] by (simp add: demo_s0_def u32_max_def)

lemma demo_s1_inv: "session_inv demo_s1 demo_q2"
proof -
  have "window_inv 3 (cs_window demo_s1)"
    by (simp add: window_inv_def segs_wf_def demo_s1_def RangeSegment_new_def u32_max_def u64_max_def)
  moreover have "credit_covers (cs_credit demo_s1) 2" by (simp add: credit_covers_def demo_s1_def u32_max_def)
  ultimately show ?thesis
    unfolding session_inv_def using demo_inv(2) by (simp add: demo_s1_fields demo_status FIRST_TAG_def)
qed

lemma demo_session_deliver:
  "deliver_from_queue demo_s0 demo_q1 2 out = Some (Inr 2, demo_s1, demo_q2, demo_out)"
  by (simp add: deliver_from_queue_def demo_s0_def demo_s1_def demo_out_def session_new_def flags_contain_def CONSUMER_CANCELLED_def
      credit_available_def credit_new_def credit_reserve_def saturating_add_u32_def demo_deliver DeliveryRange_new_def batch_clear_def
      push_range_def window_new_def FIRST_TAG_def u32_max_def u64_max_def add_u32_def add_u64_def Let_def)

lemma session_idle_credit:
  "session_inv s q \<Longrightarrow> window_entries (cs_window s) = [] \<Longrightarrow> cc_in_flight (cs_credit s) = 0"
  by (auto simp: session_inv_def window_inv_def credit_covers_def split: PrefetchMode.splits)

section \<open>One session\<close>

text \<open>
  C25: a session that is not cancelled takes from the queue as many messages as its credit, the
  caller and the queue allow. The messages get the next delivery tags in the order of delivery, they
  appear in the batch and in the window under these tags, and a message is marked as redelivered in
  the batch exactly when it waited in the queue for redelivery.
\<close>

theorem session_deliver:
  assumes "session_inv s q" and "\<not> is_cancelled s" and "mx \<le> u32_max"
    and "sw_unacked (cs_window s) + min (credit_available (cs_credit s)) mx \<le> u32_max"
    and "cs_next_tag s + mx \<le> u64_max" and "total_delivered (q_stats q) + mx \<le> u64_max"
  shows "ok (deliver_from_queue s q mx out) (\<lambda>(r, s', q', out'). \<exists>n seqs.
     r = Inr n \<and> n = min (min (credit_available (cs_credit s)) mx) (qcount Ready q + qcount SparseReady q) \<and>
     length seqs = n \<and> distinct seqs \<and>
     (\<forall>x\<in>set seqs. status q x = Some Ready \<or> status q x = Some SparseReady) \<and>
     status q' = (\<lambda>x. if x \<in> set seqs then Some Inflight else status q x) \<and>
     window_entries (cs_window s') = window_entries (cs_window s) @ zip [cs_next_tag s..<cs_next_tag s + n] seqs \<and>
     batch_msgs out' = zip [cs_next_tag s..<cs_next_tag s + n] (map (\<lambda>x. (x, status q x = Some SparseReady)) seqs) \<and>
     cs_next_tag s' = cs_next_tag s + n \<and> session_inv s' q')"
  by (rule ok_mono [OF deliver_from_queue_ok [OF assms]]) (auto simp: session_delivers_def)

theorem session_deliver_witness:
  "ok (deliver_from_queue demo_s0 demo_q1 2 demo_out) (\<lambda>(r, s', q', out'). session_inv s' q' \<and>
     map fst (window_entries (cs_window s')) = map fst (batch_msgs out'))"
  by (rule ok_mono [OF session_deliver [OF demo_s0_inv, of 2 demo_out]])
    (auto simp: demo_s0_fields demo_stats u32_max_def u64_max_def)

text \<open>
  C26: an acknowledgement of an outstanding tag settles this tag, and with \<open>multiple\<close> every
  outstanding tag up to it: exactly their messages become acknowledged in the queue, exactly they
  leave the window, and the reported count and the released credit are their number. A tag that was
  never handed out is refused as invalid and one that is not outstanding any more as already
  settled; a refusal changes nothing.
\<close>

theorem session_ack_settles:
  assumes "session_inv s q" and "\<not> is_cancelled s"
    and "total_acked (q_stats q) + sw_unacked (cs_window s) \<le> u64_max"
  shows "if aq_tag req \<in> fst ` set (window_entries (cs_window s)) then
      ok (session_ack s req q) (\<lambda>(r, s', q'). \<exists>a.
        r = Inr a \<and> aa_acked a = length (filter (ack_selects req) (window_entries (cs_window s))) \<and> aa_released_credit a = aa_acked a \<and>
        window_entries (cs_window s') = filter (\<lambda>e. \<not> ack_selects req e) (window_entries (cs_window s)) \<and>
        status q' = (\<lambda>x. if x \<in> snd ` set (filter (ack_selects req) (window_entries (cs_window s))) then Some Acked else status q x) \<and>
        session_inv s' q')
    else session_ack s req q = Some (Inl (if aq_tag req < FIRST_TAG \<or> cs_next_tag s \<le> aq_tag req
        then InvalidDeliveryTag else DeliveryTagAlreadySettled), s, q)"
proof (cases "aq_tag req \<in> fst ` set (window_entries (cs_window s))")
  case True
  show ?thesis
    unfolding if_P [OF True] by (rule ok_mono [OF session_ack_ok [OF assms(1,2) True assms(3)]]) (auto simp: session_settles_def)
next
  case False
  then show ?thesis using settle_refused(1) [OF assms(1,2) False] by simp
qed

theorem session_ack_settles_witness:
  "ok (session_ack demo_s1 (ack_request_multiple 2) demo_q2) (\<lambda>(r, s', q'). window_entries (cs_window s') = [] \<and>
      status q' 0 = Some Acked \<and> status q' 1 = Some Acked) \<and>
   session_ack demo_s1 (ack_request_one 3) demo_q2 = Some (Inl InvalidDeliveryTag, demo_s1, demo_q2)"
proof -
  have b: "total_acked (q_stats demo_q2) + sw_unacked (cs_window demo_s1) \<le> u64_max"
    by (simp add: demo_stats demo_s1_fields u64_max_def)
  note th = session_ack_settles [OF demo_s1_inv demo_s1_fields(4) b]
  have "ok (session_ack demo_s1 (ack_request_multiple 2) demo_q2) (\<lambda>(r, s', q'). window_entries (cs_window s') = [] \<and>
      status q' 0 = Some Acked \<and> status q' 1 = Some Acked)"
    using th [of "ack_request_multiple 2"]
    by (auto simp: demo_s1_fields ack_request_multiple_def ack_selects_def elim!: ok_mono)
  then show ?thesis using th [of "ack_request_one 3"] by (simp add: demo_s1_fields ack_request_one_def FIRST_TAG_def)
qed

text \<open>
  C27: a negative acknowledgement selects tags as an acknowledgement does. With reason requeue the
  messages wait for a retry, with reject or dead-letter they are settled for good as if acknowledged.
  The counts of the result name the right reason, and a refused tag changes nothing.
\<close>

theorem session_nack_settles:
  assumes "session_inv s q" and "\<not> is_cancelled s"
    and "total_acked (q_stats q) + sw_unacked (cs_window s) \<le> u64_max" and "total_nacked (q_stats q) + sw_unacked (cs_window s) \<le> u64_max"
  shows "if nq_tag req \<in> fst ` set (window_entries (cs_window s)) then
      ok (session_nack s req q) (\<lambda>(r, s', q'). let n = length (filter (nack_selects req) (window_entries (cs_window s))) in
        r = Inr \<lparr>na_nacked = n, na_requeued = (if nq_reason req = Requeue then n else 0),
          na_dropped = (if nq_reason req = Reject then n else 0),
          na_dead_lettered = (if nq_reason req = DeadLetter then n else 0), na_released_credit = n\<rparr> \<and>
        window_entries (cs_window s') = filter (\<lambda>e. \<not> nack_selects req e) (window_entries (cs_window s)) \<and>
        status q' = (\<lambda>x. if x \<in> snd ` set (filter (nack_selects req) (window_entries (cs_window s)))
          then Some (if nq_reason req = Requeue then Retry else Acked) else status q x) \<and>
        session_inv s' q')
    else session_nack s req q = Some (Inl (if nq_tag req < FIRST_TAG \<or> cs_next_tag s \<le> nq_tag req
        then InvalidDeliveryTag else DeliveryTagAlreadySettled), s, q)"
proof (cases "nq_tag req \<in> fst ` set (window_entries (cs_window s))")
  case True
  have v: "nack_state (nq_reason req) = (if nq_reason req = Requeue then Retry else Acked)"
    by (cases "nq_reason req") (simp_all add: nack_state_def)
  show ?thesis
    unfolding if_P [OF True]
    by (rule ok_mono [OF session_nack_ok [OF assms(1,2) True assms(3,4)]]) (auto simp: session_settles_def Let_def v)
next
  case False
  then show ?thesis using settle_refused(2) [OF assms(1,2) False] by simp
qed

theorem session_nack_settles_witness:
  "ok (session_nack demo_s1 (nack_request_one 2 Requeue) demo_q2) (\<lambda>(r, s', q'). window_entries (cs_window s') = [(1, 0)] \<and>
      status q' 0 = Some Inflight \<and> status q' 1 = Some Retry) \<and>
   session_nack demo_s1 (nack_request_one 0 Reject) demo_q2 = Some (Inl InvalidDeliveryTag, demo_s1, demo_q2)"
proof -
  have b: "total_acked (q_stats demo_q2) + sw_unacked (cs_window demo_s1) \<le> u64_max"
    "total_nacked (q_stats demo_q2) + sw_unacked (cs_window demo_s1) \<le> u64_max"
    by (simp_all add: demo_stats demo_s1_fields u64_max_def)
  note th = session_nack_settles [OF demo_s1_inv demo_s1_fields(4) b]
  have "ok (session_nack demo_s1 (nack_request_one 2 Requeue) demo_q2) (\<lambda>(r, s', q'). window_entries (cs_window s') = [(1, 0)] \<and>
      status q' 0 = Some Inflight \<and> status q' 1 = Some Retry)"
    using th [of "nack_request_one 2 Requeue"]
    by (auto simp: demo_s1_fields demo_status nack_request_one_def nack_selects_def Let_def elim!: ok_mono)
  then show ?thesis using th [of "nack_request_one 0 Reject"] by (simp add: demo_s1_fields nack_request_one_def FIRST_TAG_def)
qed

text \<open>
  C28: cancelling a session returns for every session with the invariant. Every outstanding message
  goes back to the queue for a retry, or is settled for good when the caller drops them; the window
  and the credit are empty afterwards, the counts are exact, and the cancelled session refuses every
  later call without touching the queue.
\<close>

theorem session_cancel_returns_all:
  assumes "session_inv s q"
    and "total_acked (q_stats q) + sw_unacked (cs_window s) \<le> u64_max" and "total_nacked (q_stats q) + sw_unacked (cs_window s) \<le> u64_max"
  shows "ok (session_cancel s disp q) (\<lambda>(r, s', q').
     cr_requeued r = (if disp = RequeueUnacked then sw_unacked (cs_window s) else 0) \<and>
     cr_dropped r = (if disp = DropUnacked then sw_unacked (cs_window s) else 0) \<and>
     status q' = (\<lambda>x. if x \<in> snd ` set (window_entries (cs_window s))
       then Some (if disp = RequeueUnacked then Retry else Acked) else status q x) \<and>
     window_entries (cs_window s') = [] \<and> cc_in_flight (cs_credit s') = 0 \<and> session_inv s' q' \<and>
     session_ack s' areq q' = Some (Inl ConsumerCancelled, s', q') \<and>
     session_nack s' nreq q' = Some (Inl ConsumerCancelled, s', q') \<and>
     session_reject s' rreq q' = Some (Inl ConsumerCancelled, s', q') \<and>
     deliver_from_queue s' q' mx out = Some (Inl ConsumerCancelled, s', q', batch_clear out))"
proof -
  let ?v = "case disp of RequeueUnacked \<Rightarrow> Retry | DropUnacked \<Rightarrow> Acked"
  have v: "?v = (if disp = RequeueUnacked then Retry else Acked)" by (cases disp) simp_all
  have idle: "window_entries (cs_window s') = [] \<and> cc_in_flight (cs_credit s') = 0 \<and> session_inv s' q' \<and>
      status q' = (\<lambda>x. if x \<in> snd ` set (window_entries (cs_window s))
        then Some (if disp = RequeueUnacked then Retry else Acked) else status q x)"
    if "session_settles (\<lambda>_. True) ?v s q s' q'" for s' q'
    using that session_idle_credit [of s' q'] unfolding session_settles_def v by simp
  have closed: "session_ack s' areq q' = Some (Inl ConsumerCancelled, s', q') \<and>
     session_nack s' nreq q' = Some (Inl ConsumerCancelled, s', q') \<and>
     session_reject s' rreq q' = Some (Inl ConsumerCancelled, s', q') \<and>
     deliver_from_queue s' q' mx out = Some (Inl ConsumerCancelled, s', q', batch_clear out)"
    if "is_cancelled s'" for s' q'
    using that by (simp add: session_ack_def session_nack_def session_reject_def deliver_from_queue_def is_cancelled_def)
  show ?thesis
    by (rule ok_mono [OF session_cancel_ok [OF assms, of disp]]) (use idle closed in \<open>cases disp; auto\<close>)
qed

theorem session_cancel_returns_all_witness:
  "ok (session_cancel demo_s1 RequeueUnacked demo_q2) (\<lambda>(r, s', q'). cr_requeued r = 2 \<and>
     status q' 0 = Some Retry \<and> status q' 1 = Some Retry \<and> session_ack s' (ack_request_one 1) q' = Some (Inl ConsumerCancelled, s', q'))"
  by (rule ok_mono [OF session_cancel_returns_all [OF demo_s1_inv, where disp = RequeueUnacked and areq = "ack_request_one 1"]])
    (auto simp: demo_s1_fields demo_stats u64_max_def)

text \<open>
  C29: delivering to an idle session and then acknowledging the last tag with \<open>multiple\<close>
  brings the session back: nothing is outstanding, the whole credit is available again, and exactly
  the messages that were handed out are acknowledged.
\<close>

theorem session_deliver_ack_roundtrip:
  assumes inv: "session_inv s q" and nc: "\<not> is_cancelled s" and e: "window_entries (cs_window s) = []"
    and b: "mx \<le> u32_max" "cs_next_tag s + mx \<le> u64_max" "total_delivered (q_stats q) + mx \<le> u64_max"
    and d: "deliver_from_queue s q mx out = Some (Inr n, s1, q1, out1)" and n: "0 < n" "total_acked (q_stats q1) + n \<le> u64_max"
  shows "ok (session_ack s1 (ack_request_multiple (cs_next_tag s1 - 1)) q1) (\<lambda>(r, s2, q2).
     window_entries (cs_window s2) = [] \<and> cc_in_flight (cs_credit s2) = 0 \<and>
     status q2 = (\<lambda>x. if x \<in> set (map (fst \<circ> snd) (batch_msgs out1)) then Some Acked else status q x))"
proof -
  let ?req = "ack_request_multiple (cs_next_tag s1 - 1)" and ?nt = "cs_next_tag s"
  have "sw_unacked (cs_window s) = 0" using inv e by (simp add: session_inv_def window_inv_def)
  then have "sw_unacked (cs_window s) + min (credit_available (cs_credit s)) mx \<le> u32_max" using b(1) by simp
  from ok_SomeD [OF deliver_from_queue_ok [OF inv nc b(1) this b(2,3)] d] have sd: "session_delivers s q mx n s1 q1 out1" by simp
  then obtain seqs where sq: "length seqs = n" "status q1 = (\<lambda>x. if x \<in> set seqs then Some Inflight else status q x)"
    "window_entries (cs_window s1) = zip [?nt..<?nt + n] seqs"
    "batch_msgs out1 = zip [?nt..<?nt + n] (map (\<lambda>x. (x, status q x = Some SparseReady)) seqs)"
    and s1: "cs_next_tag s1 = ?nt + n" "session_inv s1 q1" "\<not> is_cancelled s1"
    using e nc unfolding session_delivers_def by (auto simp: is_cancelled_def)
  have ms: "set (map (fst \<circ> snd) (batch_msgs out1)) = set seqs"
    unfolding map_map [symmetric] sq(4) map_snd_zip by (simp add: sq(1) comp_def)
  have all: "ack_selects ?req en" if "en \<in> set (window_entries (cs_window s1))" for en
    using that n(1) s1(1) set_zip_leftD [of "fst en" "snd en"] unfolding sq(3)
    by (fastforce simp: ack_selects_def ack_request_multiple_def)
  have tag: "aq_tag ?req \<in> fst ` set (window_entries (cs_window s1))"
    using n(1) s1(1) unfolding sq(3) image_set map_fst_zip by (simp add: ack_request_multiple_def sq(1))
  have u: "sw_unacked (cs_window s1) = n" using s1(2) sq(1,3) by (simp add: session_inv_def window_inv_def)
  have fin: "window_entries (cs_window s2) = [] \<and> cc_in_flight (cs_credit s2) = 0 \<and>
      status q2 = (\<lambda>x. if x \<in> set (map (fst \<circ> snd) (batch_msgs out1)) then Some Acked else status q x)"
    if st: "session_settles (ack_selects ?req) Acked s1 q1 s2 q2" for s2 q2
  proof -
    have w2: "window_entries (cs_window s2) = []" "session_inv s2 q2" using st all by (auto simp: session_settles_def filter_empty_conv)
    have f: "filter (ack_selects ?req) (window_entries (cs_window s1)) = zip [?nt..<?nt + n] seqs"
      using all sq(3) by (simp add: filter_id_conv)
    have "status q2 = (\<lambda>x. if x \<in> set seqs then Some Acked else status q1 x)"
      using st unfolding session_settles_def f image_set map_snd_zip by (simp add: sq(1))
    then show ?thesis using w2 session_idle_credit [OF w2(2,1)] unfolding ms sq(2) by auto
  qed
  show ?thesis
    by (rule ok_mono [OF session_ack_ok [OF s1(2,3) tag]]) (use n(2) u fin in \<open>auto\<close>)
qed

theorem session_deliver_ack_roundtrip_witness:
  "ok (session_ack demo_s1 (ack_request_multiple 2) demo_q2) (\<lambda>(r, s2, q2).
     window_entries (cs_window s2) = [] \<and> cc_in_flight (cs_credit s2) = 0 \<and> status q2 1 = Some Acked)"
proof -
  have m: "batch_msgs demo_out = [(1, 0, False), (2, 1, False)]"
    by (simp add: batch_msgs_def demo_out_def DeliveryRange_new_def upt_rec)
  show ?thesis
    by (rule ok_mono [OF session_deliver_ack_roundtrip [OF demo_s0_inv demo_s0_fields(4,5) _ _ _ demo_session_deliver [of demo_out],
          unfolded demo_s1_fields m, simplified]])
      (auto simp: demo_s0_fields demo_stats u32_max_def u64_max_def)
qed

section \<open>Many sessions\<close>

lemma demo_system: "consumer_reachable ([demo_s1, session_new 8 1 Unlimited], demo_q2)"
proof -
  have 1: "consumer_reachable ([demo_s0], q_empty)"
    using cr_step [OF cr_empty cs_subscribe [of "Limited 5" "[]" q_empty 7 1]] by (simp add: demo_s0_def u32_max_def)
  have 2: "consumer_reachable ([demo_s0, session_new 8 1 Unlimited], q_empty)"
    using cr_step [OF 1 cs_subscribe [of Unlimited "[demo_s0]" q_empty 8 1]] by simp
  have 3: "consumer_reachable ([demo_s0, session_new 8 1 Unlimited], demo_q1)"
    by (rule cr_step [OF 2 cs_publish [OF demo_publish]]) (simp_all add: q_empty_def stats_default_def u32_max_def u64_max_def)
  show ?thesis
    using cr_step [OF 3 cs_deliver [OF demo_session_deliver [of demo_out], of "[]" "[session_new 8 1 Unlimited]", unfolded append_Nil]]
    by (simp add: demo_s0_fields demo_stats u32_max_def u64_max_def)
qed

text \<open>
  C24: with any number of sessions on a queue, in every state the calls can lead to, the messages in
  flight are exactly those outstanding in some session, and none is outstanding twice, neither in two
  sessions nor in one. So no message is handed to two consumers at a time, and none is in flight with
  nobody to settle it.
\<close>

theorem consumers_exclusive:
  assumes "consumer_reachable (ss, q)"
  shows "{x. status q x = Some Inflight} = (\<Union>s\<in>set ss. set (session_seqs s)) \<and>
    distinct (concat (map session_seqs ss)) \<and> qcount Inflight q = sum_list (map (\<lambda>s. sw_unacked (cs_window s)) ss)"
proof -
  have i: "consumers_inv ss q" using consumer_reachable_inv [OF assms] by simp
  have "sw_unacked (cs_window s) = length (session_seqs s)" if "s \<in> set ss" for s
    using i that by (simp add: consumers_inv_def session_inv_def window_inv_def session_seqs_def)
  then have "map (\<lambda>s. sw_unacked (cs_window s)) ss = map (\<lambda>s. length (session_seqs s)) ss" by simp
  moreover have "qcount Inflight q = length (concat (map session_seqs ss))"
    using i unfolding consumers_inv_def qcount_def by (metis distinct_card)
  ultimately have "qcount Inflight q = sum_list (map (\<lambda>s. sw_unacked (cs_window s)) ss)"
    by (simp only: length_concat map_map comp_def)
  moreover have "{x. status q x = Some Inflight} = (\<Union>s\<in>set ss. set (session_seqs s))"
    using i by (auto simp: consumers_inv_def)
  ultimately show ?thesis using i by (simp add: consumers_inv_def)
qed

theorem consumers_exclusive_witness:
  "{x. status demo_q2 x = Some Inflight} = set (session_seqs demo_s1) \<and> qcount Inflight demo_q2 = 2"
  using consumers_exclusive [OF demo_system] by (simp add: demo_s1_fields session_seqs_def session_new_def window_new_def)

text \<open>
  C30: in every reachable state the credit of a session with a prefetch limit counts exactly what is
  outstanding in its window, this is never above the limit, and what the next delivery may take fits
  in what is left.
\<close>

theorem consumers_credit:
  assumes "consumer_reachable (ss, q)" and "s \<in> set ss" and "cc_mode (cs_credit s) = Limited l"
  shows "cc_in_flight (cs_credit s) = length (window_entries (cs_window s)) \<and>
    length (window_entries (cs_window s)) + credit_available (cs_credit s) = l \<and> l \<le> u32_max"
proof -
  have "session_inv s q" using consumer_reachable_inv [OF assms(1)] assms(2) by (simp add: consumers_inv_def)
  then have "credit_covers (cs_credit s) (length (window_entries (cs_window s)))" unfolding session_inv_def window_inv_def by metis
  then show ?thesis using assms(3) by (simp add: credit_covers_def credit_available_def)
qed

theorem consumers_credit_witness: "credit_available (cs_credit demo_s1) = 3"
  using consumers_credit [OF demo_system, of demo_s1 5] by (simp add: demo_s1_fields)

end
