(* ===== verification/Model_Session.thy ===== *)
theory Model_Session
  imports Consumer_Steps
begin

text \<open>
  \<open>crates/aurum-core/src/consumer/model.rs\<close>: the reference consumer session, which
  keeps every outstanding delivery in a deque and works on the reference queue, and the relation
  under which the session of the broker refines it.
\<close>

section \<open>The reference session\<close>

record ModelDelivery =
  md_tag :: nat
  md_seq :: nat
  md_redelivered :: bool

record ModelConsumerSession =
  mc_next_tag :: nat
  mc_prefetch :: PrefetchMode
  mc_in_flight :: nat
  mc_unacked :: "ModelDelivery list"
  mc_redelivered_seqs :: "nat set"

definition model_session_new :: "PrefetchMode \<Rightarrow> ModelConsumerSession" where
  "model_session_new prefetch =
     \<lparr>mc_next_tag = FIRST_TAG, mc_prefetch = prefetch, mc_in_flight = 0, mc_unacked = [], mc_redelivered_seqs = {}\<rparr>"

fun model_tag_loop :: "nat list \<Rightarrow> ModelConsumerSession \<Rightarrow> ModelDelivery list \<Rightarrow> (ModelDelivery list \<times> ModelConsumerSession) option" where
  "model_tag_loop [] ms delivered = Some (delivered, ms)"
| "model_tag_loop (seq # seqs) ms delivered = do {
     let tag = mc_next_tag ms;
     nt \<leftarrow> add_u64 (mc_next_tag ms) 1;
     fl \<leftarrow> add_u32 (mc_in_flight ms) 1;
     let d = \<lparr>md_tag = tag, md_seq = seq, md_redelivered = (seq \<in> mc_redelivered_seqs ms)\<rparr>;
     model_tag_loop seqs (ms\<lparr>mc_next_tag := nt, mc_in_flight := fl, mc_unacked := mc_unacked ms @ [d]\<rparr>) (delivered @ [d])
   }"

definition model_session_deliver ::
  "ModelConsumerSession \<Rightarrow> ModelQueue \<Rightarrow> nat \<Rightarrow> (ModelDelivery list \<times> ModelConsumerSession \<times> ModelQueue) option" where
  "model_session_deliver ms mq mx = do {
     let available = (case mc_prefetch ms of Unlimited \<Rightarrow> mx | Limited n \<Rightarrow> min mx (n - mc_in_flight ms));
     (if available = 0 then Some ([], ms, mq)
      else do {
        (seqs, mq) \<leftarrow> model_deliver mq available;
        (delivered, ms) \<leftarrow> model_tag_loop seqs ms [];
        Some (delivered, ms, mq)
      })
   }"

definition model_drop :: "ModelDelivery \<Rightarrow> ModelConsumerSession \<Rightarrow> ModelQueue \<Rightarrow> ModelConsumerSession \<times> ModelQueue" where
  "model_drop d ms mq = (ms\<lparr>mc_redelivered_seqs := mc_redelivered_seqs ms - {md_seq d}\<rparr>, model_ack_id mq (md_seq d))"

definition model_requeue :: "ModelDelivery \<Rightarrow> ModelConsumerSession \<Rightarrow> ModelQueue \<Rightarrow> ModelConsumerSession \<times> ModelQueue" where
  "model_requeue d ms mq = (ms\<lparr>mc_redelivered_seqs := insert (md_seq d) (mc_redelivered_seqs ms)\<rparr>, model_nack_id_to_retry mq (md_seq d))"

definition model_nack_by :: "NackReason \<Rightarrow> ModelDelivery \<Rightarrow> ModelConsumerSession \<Rightarrow> ModelQueue \<Rightarrow> ModelConsumerSession \<times> ModelQueue" where
  "model_nack_by reason = (case reason of Requeue \<Rightarrow> model_requeue | Reject \<Rightarrow> model_drop | DeadLetter \<Rightarrow> model_drop)"

fun position :: "('a \<Rightarrow> bool) \<Rightarrow> 'a list \<Rightarrow> nat option" where
  "position P [] = None"
| "position P (x # xs) = (if P x then Some 0 else map_option Suc (position P xs))"

definition ack_one_inner ::
  "ModelConsumerSession \<Rightarrow> nat \<Rightarrow> ModelQueue \<Rightarrow> ((unit + AckApplyResult) \<times> ModelConsumerSession \<times> ModelQueue) option" where
  "ack_one_inner ms tag mq =
     (case position (\<lambda>d. md_tag d = tag) (mc_unacked ms) of
        None \<Rightarrow> Some (Inl (), ms, mq)
      | Some pos \<Rightarrow> do {
          d \<leftarrow> idx (mc_unacked ms) pos;
          let ms = ms\<lparr>mc_unacked := deque_remove pos (mc_unacked ms)\<rparr>;
          let (ms, mq) = model_drop d ms mq;
          fl \<leftarrow> sub_uint (mc_in_flight ms) 1;
          Some (Inr \<lparr>aa_acked = 1, aa_released_credit = 1, aa_ranges = []\<rparr>, ms\<lparr>mc_in_flight := fl\<rparr>, mq)
        })"

fun model_settle_front ::
  "(ModelDelivery \<Rightarrow> ModelConsumerSession \<Rightarrow> ModelQueue \<Rightarrow> ModelConsumerSession \<times> ModelQueue) \<Rightarrow> nat \<Rightarrow>
   ModelDelivery list \<Rightarrow> ModelConsumerSession \<Rightarrow> ModelQueue \<Rightarrow> nat \<Rightarrow> (nat \<times> ModelConsumerSession \<times> ModelQueue) option" where
  "model_settle_front f tag [] ms mq n = Some (n, ms\<lparr>mc_unacked := []\<rparr>, mq)"
| "model_settle_front f tag (d # ds) ms mq n =
     (if md_tag d > tag then Some (n, ms\<lparr>mc_unacked := d # ds\<rparr>, mq)
      else do {
        let (ms, mq) = f d ms mq;
        fl \<leftarrow> sub_uint (mc_in_flight ms) 1;
        n \<leftarrow> add_u32 n 1;
        model_settle_front f tag ds (ms\<lparr>mc_in_flight := fl\<rparr>) mq n
      })"

definition ack_multiple_inner ::
  "ModelConsumerSession \<Rightarrow> nat \<Rightarrow> ModelQueue \<Rightarrow> ((unit + AckApplyResult) \<times> ModelConsumerSession \<times> ModelQueue) option" where
  "ack_multiple_inner ms tag mq =
     (if \<not> list_ex (\<lambda>d. md_tag d = tag) (mc_unacked ms) then Some (Inl (), ms, mq)
      else do {
        (n, ms, mq) \<leftarrow> model_settle_front model_drop tag (mc_unacked ms) ms mq 0;
        Some (Inr \<lparr>aa_acked = n, aa_released_credit = n, aa_ranges = []\<rparr>, ms, mq)
      })"

definition model_session_ack ::
  "ModelConsumerSession \<Rightarrow> AckRequest \<Rightarrow> ModelQueue \<Rightarrow> ((unit + AckApplyResult) \<times> ModelConsumerSession \<times> ModelQueue) option" where
  "model_session_ack ms req mq =
     (case aq_mode req of AckOne \<Rightarrow> ack_one_inner ms (aq_tag req) mq | AckMultiple \<Rightarrow> ack_multiple_inner ms (aq_tag req) mq)"

definition nack_counts :: "NackReason \<Rightarrow> nat \<Rightarrow> nat \<times> nat \<times> nat" where
  "nack_counts reason n = (case reason of Requeue \<Rightarrow> (n, 0, 0) | Reject \<Rightarrow> (0, n, 0) | DeadLetter \<Rightarrow> (0, 0, n))"

definition nack_one_inner ::
  "ModelConsumerSession \<Rightarrow> nat \<Rightarrow> NackReason \<Rightarrow> ModelQueue \<Rightarrow> ((unit + NackApplyResult) \<times> ModelConsumerSession \<times> ModelQueue) option" where
  "nack_one_inner ms tag reason mq =
     (case position (\<lambda>d. md_tag d = tag) (mc_unacked ms) of
        None \<Rightarrow> Some (Inl (), ms, mq)
      | Some pos \<Rightarrow> do {
          d \<leftarrow> idx (mc_unacked ms) pos;
          let ms = ms\<lparr>mc_unacked := deque_remove pos (mc_unacked ms)\<rparr>;
          fl \<leftarrow> sub_uint (mc_in_flight ms) 1;
          let (ms, mq) = model_nack_by reason d (ms\<lparr>mc_in_flight := fl\<rparr>) mq;
          let (requeued, dropped, dead_lettered) = nack_counts reason 1;
          Some (Inr \<lparr>na_nacked = 1, na_requeued = requeued, na_dropped = dropped, na_dead_lettered = dead_lettered,
            na_released_credit = 1\<rparr>, ms, mq)
        })"

definition nack_multiple_inner ::
  "ModelConsumerSession \<Rightarrow> nat \<Rightarrow> NackReason \<Rightarrow> ModelQueue \<Rightarrow> ((unit + NackApplyResult) \<times> ModelConsumerSession \<times> ModelQueue) option" where
  "nack_multiple_inner ms tag reason mq =
     (if \<not> list_ex (\<lambda>d. md_tag d = tag) (mc_unacked ms) then Some (Inl (), ms, mq)
      else do {
        (n, ms, mq) \<leftarrow> model_settle_front (model_nack_by reason) tag (mc_unacked ms) ms mq 0;
        let (requeued, dropped, dead_lettered) = nack_counts reason n;
        Some (Inr \<lparr>na_nacked = n, na_requeued = requeued, na_dropped = dropped, na_dead_lettered = dead_lettered,
          na_released_credit = n\<rparr>, ms, mq)
      })"

definition model_session_nack ::
  "ModelConsumerSession \<Rightarrow> NackRequest \<Rightarrow> ModelQueue \<Rightarrow> ((unit + NackApplyResult) \<times> ModelConsumerSession \<times> ModelQueue) option" where
  "model_session_nack ms req mq =
     (case nq_mode req of
        NackOne \<Rightarrow> nack_one_inner ms (nq_tag req) (nq_reason req) mq
      | NackMultiple \<Rightarrow> nack_multiple_inner ms (nq_tag req) (nq_reason req) mq)"

definition model_session_reject ::
  "ModelConsumerSession \<Rightarrow> RejectRequest \<Rightarrow> ModelQueue \<Rightarrow> ((unit + NackApplyResult) \<times> ModelConsumerSession \<times> ModelQueue) option" where
  "model_session_reject ms req mq = nack_one_inner ms (rq_tag req) (rq_reason req) mq"

definition model_session_cancel ::
  "ModelConsumerSession \<Rightarrow> CancelDisposition \<Rightarrow> ModelQueue \<Rightarrow> (CancelResult \<times> ModelConsumerSession \<times> ModelQueue) option" where
  "model_session_cancel ms disp mq = do {
     let all = mc_unacked ms;
     let ms = ms\<lparr>mc_unacked := []\<rparr>;
     let total = as_u32 (length all);
     fl \<leftarrow> sub_uint (mc_in_flight ms) total;
     let (ms, mq) = fold (\<lambda>d (ms, mq). (case disp of RequeueUnacked \<Rightarrow> model_requeue d ms mq | DropUnacked \<Rightarrow> model_drop d ms mq))
       all (ms\<lparr>mc_in_flight := fl\<rparr>, mq);
     Some ((case disp of RequeueUnacked \<Rightarrow> \<lparr>cr_requeued = total, cr_dropped = 0\<rparr>
         | DropUnacked \<Rightarrow> \<lparr>cr_requeued = 0, cr_dropped = total\<rparr>), ms, mq)
   }"

section \<open>What settling does to the reference session\<close>

definition model_settle :: "MessageState \<Rightarrow> ModelDelivery \<Rightarrow> ModelConsumerSession \<Rightarrow> ModelQueue \<Rightarrow> ModelConsumerSession \<times> ModelQueue" where
  "model_settle v d ms mq =
     (ms\<lparr>mc_redelivered_seqs := (if v = Acked then mc_redelivered_seqs ms - {md_seq d} else insert (md_seq d) (mc_redelivered_seqs ms))\<rparr>,
      set_state v (md_seq d) mq)"

definition redelivered_after :: "MessageState \<Rightarrow> nat list \<Rightarrow> nat set \<Rightarrow> nat set" where
  "redelivered_after v xs R = (if v = Acked then R - set xs else R \<union> set xs)"

lemma redelivered_after_simps [simp]: "redelivered_after v [] R = R"
  "redelivered_after v xs (redelivered_after v [x] R) = redelivered_after v (x # xs) R"
  by (auto simp: redelivered_after_def)

lemma model_settle_eqs: "model_drop = model_settle Acked" "model_requeue = model_settle Retry"
  "model_nack_by reason = model_settle (nack_state reason)"
  by (auto simp: fun_eq_iff model_drop_def model_requeue_def model_settle_def model_ack_id_def model_nack_id_to_retry_def
      model_nack_by_def nack_state_def split: NackReason.splits)

lemma model_settle_eq: "model_settle v d ms mq =
    (ms\<lparr>mc_redelivered_seqs := redelivered_after v [md_seq d] (mc_redelivered_seqs ms)\<rparr>, set_state v (md_seq d) mq)"
  by (simp add: model_settle_def redelivered_after_def)

definition model_settled :: "MessageState \<Rightarrow> (ModelDelivery \<Rightarrow> bool) \<Rightarrow> ModelConsumerSession \<Rightarrow> ModelQueue \<Rightarrow> ModelConsumerSession \<Rightarrow> ModelQueue \<Rightarrow> bool" where
  "model_settled v P ms mq ms' mq' \<longleftrightarrow> (let gone = filter P (mc_unacked ms) in
     ms' = ms\<lparr>mc_in_flight := mc_in_flight ms - length gone, mc_unacked := filter (\<lambda>d. \<not> P d) (mc_unacked ms),
       mc_redelivered_seqs := redelivered_after v (map md_seq gone) (mc_redelivered_seqs ms)\<rparr> \<and>
     mq' = fold (set_state v) (map md_seq gone) mq)"

lemma settle_front_ok:
  assumes "sorted_wrt (<) (map md_tag ds)" and "length ds \<le> mc_in_flight ms" and "n + length ds \<le> u32_max"
  shows "model_settle_front (model_settle v) tag ds ms mq n = (let gone = filter (\<lambda>d. md_tag d \<le> tag) ds in
    Some (n + length gone, ms\<lparr>mc_in_flight := mc_in_flight ms - length gone, mc_unacked := filter (\<lambda>d. \<not> md_tag d \<le> tag) ds,
      mc_redelivered_seqs := redelivered_after v (map md_seq gone) (mc_redelivered_seqs ms)\<rparr>, fold (set_state v) (map md_seq gone) mq))"
  using assms
proof (induction ds arbitrary: ms mq n)
  case (Cons d ds)
  show ?case
  proof (cases "md_tag d \<le> tag")
    case True
    then show ?thesis using Cons by (simp add: model_settle_eq Let_def sub_uint_def add_u32_def)
  next
    case False
    then have "filter (\<lambda>d. md_tag d \<le> tag) ds = []" "filter (\<lambda>d. \<not> md_tag d \<le> tag) ds = ds"
      using Cons.prems(1) by (auto simp: filter_empty_conv filter_id_conv)
    then show ?thesis using False by simp
  qed
qed simp

lemma position_None: "position P xs = None \<longleftrightarrow> (\<forall>x\<in>set xs. \<not> P x)"
  by (induction xs) auto

lemma position_one:
  assumes "distinct (map f xs)" and "t \<in> f ` set xs"
  obtains i where "position (\<lambda>x. f x = t) xs = Some i" "i < length xs" "filter (\<lambda>x. f x = t) xs = [xs ! i]"
    "deque_remove i xs = filter (\<lambda>x. f x \<noteq> t) xs"
  using assms
proof (induction xs arbitrary: thesis)
  case (Cons x xs)
  show ?case
  proof (cases "f x = t")
    case True
    then have "filter (\<lambda>x. f x = t) xs = []" "filter (\<lambda>x. f x \<noteq> t) xs = xs"
      using Cons.prems(2) by (auto simp: filter_empty_conv filter_id_conv intro: rev_image_eqI)
    then show ?thesis using Cons.prems(1) [of 0] True by (simp add: deque_remove_def)
  next
    case False
    obtain i where "position (\<lambda>x. f x = t) xs = Some i" "i < length xs" "filter (\<lambda>x. f x = t) xs = [xs ! i]"
      "deque_remove i xs = filter (\<lambda>x. f x \<noteq> t) xs" using Cons.IH Cons.prems False by auto
    then show ?thesis using Cons.prems(1) [of "Suc i"] False by (simp add: deque_remove_def)
  qed
qed simp

lemma fold_model_settle:
  "fold (\<lambda>d (ms, mq). model_settle v d ms mq) ds (ms, mq) =
   (ms\<lparr>mc_redelivered_seqs := redelivered_after v (map md_seq ds) (mc_redelivered_seqs ms)\<rparr>, fold (set_state v) (map md_seq ds) mq)"
  by (induction ds arbitrary: ms mq) (simp_all add: model_settle_eq)

end
