(* ===== verification/Session_Refine.thy ===== *)
theory Session_Refine
  imports Model_Session
begin

text \<open>
  The simulation between the session of the broker on the hybrid queue and the reference session on
  the reference queue, and that deliver, ack, nack, reject and cancel keep it.
\<close>

definition delivery_entry :: "ModelDelivery \<Rightarrow> nat \<times> nat" where
  "delivery_entry d = (md_tag d, md_seq d)"

definition session_sim :: "ConsumerSession \<Rightarrow> HybridRangeBlockQueue \<Rightarrow> ModelConsumerSession \<Rightarrow> ModelQueue \<Rightarrow> bool" where
  "session_sim s q ms mq \<longleftrightarrow> session_inv s q \<and> simulates q mq \<and>
     mc_next_tag ms = cs_next_tag s \<and> mc_prefetch ms = cc_mode (cs_credit s) \<and>
     mc_in_flight ms = length (mc_unacked ms) \<and> map delivery_entry (mc_unacked ms) = window_entries (cs_window s) \<and>
     (\<forall>x. status q x = Some Ready \<longrightarrow> x \<notin> mc_redelivered_seqs ms) \<and>
     (\<forall>x. status q x = Some Retry \<or> status q x = Some SparseReady \<longrightarrow> x \<in> mc_redelivered_seqs ms)"

lemma session_sim_new:
  assumes "simulates q mq" and "\<forall>l. mode = Limited l \<longrightarrow> l \<le> u32_max" and "\<forall>x. status q x \<noteq> Some Retry \<and> status q x \<noteq> Some SparseReady"
  shows "session_sim (session_new i channel mode) q (model_session_new mode) mq"
  using assms session_new_inv [OF _ assms(2)]
  by (auto simp: session_sim_def session_new_def model_session_new_def window_new_def credit_new_def simulates_def)

lemma session_sim_tags:
  assumes "session_sim s q ms mq"
  shows "sorted_wrt (<) (map md_tag (mc_unacked ms))" "distinct (map md_tag (mc_unacked ms))"
    "md_tag ` set (mc_unacked ms) = fst ` set (window_entries (cs_window s))" "length (mc_unacked ms) \<le> u32_max"
    "map md_tag (mc_unacked ms) = map fst (window_entries (cs_window s))"
proof -
  have w: "segs_wf (sw_segments (cs_window s))" "sw_unacked (cs_window s) = length (window_entries (cs_window s))" "sw_unacked (cs_window s) \<le> u32_max"
    and e: "map delivery_entry (mc_unacked ms) = window_entries (cs_window s)"
    using assms unfolding session_sim_def session_inv_def window_inv_def by blast+
  show t: "map md_tag (mc_unacked ms) = map fst (window_entries (cs_window s))"
    unfolding e [symmetric] by (simp add: comp_def delivery_entry_def)
  show "sorted_wrt (<) (map md_tag (mc_unacked ms))" using sorted_segs_tags [OF w(1)] by (simp add: t)
  then show "distinct (map md_tag (mc_unacked ms))" using strict_sorted_iff by blast
  show "md_tag ` set (mc_unacked ms) = fst ` set (window_entries (cs_window s))" using t by (metis set_map)
  show "length (mc_unacked ms) \<le> u32_max" using w(2,3) e by (metis length_map)
qed

section \<open>Settlement\<close>

lemma session_sim_settled:
  assumes sim: "session_sim s q ms mq" and st: "session_settles P v s q s' q'" and v: "v = Acked \<or> v = Retry"
    and m: "model_settled v (P \<circ> delivery_entry) ms mq ms' mq'"
  shows "session_sim s' q' ms' mq'"
proof -
  let ?gone = "filter (P \<circ> delivery_entry) (mc_unacked ms)" and ?R = "mc_redelivered_seqs ms"
  have e: "map delivery_entry (mc_unacked ms) = window_entries (cs_window s)" and si: "simulates q mq" "session_inv s q"
    and fl: "mc_in_flight ms = length (mc_unacked ms)"
    and R: "\<forall>x. status q x = Some Ready \<longrightarrow> x \<notin> ?R" "\<forall>x. status q x = Some Retry \<or> status q x = Some SparseReady \<longrightarrow> x \<in> ?R"
    and nt: "mc_next_tag ms = cs_next_tag s" "mc_prefetch ms = cc_mode (cs_credit s)"
    using sim unfolding session_sim_def by blast+
  have g: "map delivery_entry ?gone = filter P (window_entries (cs_window s))"
    "map delivery_entry (filter (\<lambda>d. \<not> (P \<circ> delivery_entry) d) (mc_unacked ms)) = filter (\<lambda>x. \<not> P x) (window_entries (cs_window s))"
    unfolding e [symmetric] filter_map by (simp_all add: comp_def)
  have xs: "set (map md_seq ?gone) = snd ` set (filter P (window_entries (cs_window s)))"
    unfolding g(1) [symmetric] by (force simp: delivery_entry_def)
  have s': "session_inv s' q'" "window_entries (cs_window s') = filter (\<lambda>x. \<not> P x) (window_entries (cs_window s))"
    "same_seqs q q'" "cs_next_tag s' = cs_next_tag s" "cc_mode (cs_credit s') = cc_mode (cs_credit s)"
    and q': "status q' = (\<lambda>x. if x \<in> set (map md_seq ?gone) then Some v else status q x)"
    using st unfolding session_settles_def xs by blast+
  have infl: "status q x = Some Inflight" if "x \<in> set (map md_seq ?gone)" for x
    using that si(2) unfolding xs session_inv_def by auto
  obtain rs ss where r: "queue_repr q' rs ss" using s'(1) by (auto simp: session_inv_def queue_inv_def)
  have "simulates q' mq'"
    using settle_simulates [OF si(1) r s'(3) q' infl] v m unfolding model_settled_def Let_def by blast
  moreover have "length (mc_unacked ms) - length ?gone = length (filter (\<lambda>d. \<not> (P \<circ> delivery_entry) d) (mc_unacked ms))"
    using sum_length_filter_compl [of "P \<circ> delivery_entry" "mc_unacked ms"] by linarith
  moreover have "\<forall>x. status q' x = Some Ready \<longrightarrow> x \<notin> redelivered_after v (map md_seq ?gone) ?R"
    "\<forall>x. status q' x = Some Retry \<or> status q' x = Some SparseReady \<longrightarrow> x \<in> redelivered_after v (map md_seq ?gone) ?R"
    using R v infl unfolding q' redelivered_after_def by auto
  ultimately show ?thesis
    unfolding session_sim_def using m s' g(2) nt fl unfolding model_settled_def Let_def by simp
qed

lemma model_one:
  assumes tags: "distinct (map md_tag (mc_unacked ms))" and t: "tag \<in> md_tag ` set (mc_unacked ms)" and n: "mc_in_flight ms = length (mc_unacked ms)"
  shows "ok (ack_one_inner ms tag mq) (\<lambda>(r, ms', mq'). r = Inr \<lparr>aa_acked = 1, aa_released_credit = 1, aa_ranges = []\<rparr> \<and>
      model_settled Acked (\<lambda>d. md_tag d = tag) ms mq ms' mq')"
    and "ok (nack_one_inner ms tag reason mq) (\<lambda>(r, ms', mq'). r = Inr \<lparr>na_nacked = 1, na_requeued = (if reason = Requeue then 1 else 0),
        na_dropped = (if reason = Reject then 1 else 0), na_dead_lettered = (if reason = DeadLetter then 1 else 0), na_released_credit = 1\<rparr> \<and>
      model_settled (nack_state reason) (\<lambda>d. md_tag d = tag) ms mq ms' mq')"
proof -
  obtain i where i: "position (\<lambda>d. md_tag d = tag) (mc_unacked ms) = Some i" "i < length (mc_unacked ms)"
    "filter (\<lambda>d. md_tag d = tag) (mc_unacked ms) = [mc_unacked ms ! i]"
    "deque_remove i (mc_unacked ms) = filter (\<lambda>d. md_tag d \<noteq> tag) (mc_unacked ms)"
    using position_one [OF tags t] by blast
  have p: "sub_uint (mc_in_flight ms) 1 = Some (mc_in_flight ms - 1)" using i(2) n by (simp add: sub_uint_def)
  show "ok (ack_one_inner ms tag mq) (\<lambda>(r, ms', mq'). r = Inr \<lparr>aa_acked = 1, aa_released_credit = 1, aa_ranges = []\<rparr> \<and>
      model_settled Acked (\<lambda>d. md_tag d = tag) ms mq ms' mq')"
    using i p by (simp add: ack_one_inner_def idx_def model_settle_eqs model_settle_eq model_settled_def)
  show "ok (nack_one_inner ms tag reason mq) (\<lambda>(r, ms', mq'). r = Inr \<lparr>na_nacked = 1, na_requeued = (if reason = Requeue then 1 else 0),
        na_dropped = (if reason = Reject then 1 else 0), na_dead_lettered = (if reason = DeadLetter then 1 else 0), na_released_credit = 1\<rparr> \<and>
      model_settled (nack_state reason) (\<lambda>d. md_tag d = tag) ms mq ms' mq')"
    using i p by (cases reason) (simp_all add: nack_one_inner_def idx_def model_settle_eqs model_settle_eq model_settled_def nack_counts_def)
qed

lemma model_multiple:
  assumes tags: "sorted_wrt (<) (map md_tag (mc_unacked ms))" and t: "tag \<in> md_tag ` set (mc_unacked ms)"
    and n: "mc_in_flight ms = length (mc_unacked ms)" "length (mc_unacked ms) \<le> u32_max"
  defines "k \<equiv> length (filter (\<lambda>d. md_tag d \<le> tag) (mc_unacked ms))"
  shows "ok (ack_multiple_inner ms tag mq) (\<lambda>(r, ms', mq'). r = Inr \<lparr>aa_acked = k, aa_released_credit = k, aa_ranges = []\<rparr> \<and>
      model_settled Acked (\<lambda>d. md_tag d \<le> tag) ms mq ms' mq')"
    and "ok (nack_multiple_inner ms tag reason mq) (\<lambda>(r, ms', mq'). r = Inr \<lparr>na_nacked = k, na_requeued = (if reason = Requeue then k else 0),
        na_dropped = (if reason = Reject then k else 0), na_dead_lettered = (if reason = DeadLetter then k else 0), na_released_credit = k\<rparr> \<and>
      model_settled (nack_state reason) (\<lambda>d. md_tag d \<le> tag) ms mq ms' mq')"
proof -
  have ex: "list_ex (\<lambda>d. md_tag d = tag) (mc_unacked ms)" using t by (auto simp: list_ex_iff)
  note f = settle_front_ok [OF tags eq_imp_le [OF n(1) [symmetric]], of 0 _ tag mq, simplified, OF n(2)]
  show "ok (ack_multiple_inner ms tag mq) (\<lambda>(r, ms', mq'). r = Inr \<lparr>aa_acked = k, aa_released_credit = k, aa_ranges = []\<rparr> \<and>
      model_settled Acked (\<lambda>d. md_tag d \<le> tag) ms mq ms' mq')"
    using ex by (simp add: ack_multiple_inner_def model_settle_eqs f model_settled_def k_def Let_def)
  show "ok (nack_multiple_inner ms tag reason mq) (\<lambda>(r, ms', mq'). r = Inr \<lparr>na_nacked = k, na_requeued = (if reason = Requeue then k else 0),
        na_dropped = (if reason = Reject then k else 0), na_dead_lettered = (if reason = DeadLetter then k else 0), na_released_credit = k\<rparr> \<and>
      model_settled (nack_state reason) (\<lambda>d. md_tag d \<le> tag) ms mq ms' mq')"
    using ex by (cases reason) (simp_all add: nack_multiple_inner_def model_settle_eqs f model_settled_def k_def Let_def nack_counts_def)
qed

lemma entries_count:
  assumes "session_sim s q ms mq"
  shows "length (filter P (window_entries (cs_window s))) = length (filter (P \<circ> delivery_entry) (mc_unacked ms))"
proof -
  have "map delivery_entry (mc_unacked ms) = window_entries (cs_window s)" using assms by (simp add: session_sim_def)
  then show ?thesis by (metis filter_map length_map)
qed

lemma model_ack_sim:
  assumes sim: "session_sim s q ms mq" and t: "aq_tag req \<in> fst ` set (window_entries (cs_window s))"
  shows "ok (model_session_ack ms req mq) (\<lambda>(r, ms', mq'). (\<exists>a. r = Inr a \<and>
      aa_acked a = length (filter (ack_selects req) (window_entries (cs_window s))) \<and> aa_released_credit a = aa_acked a) \<and>
    model_settled Acked (ack_selects req \<circ> delivery_entry) ms mq ms' mq')"
proof -
  note tg = session_sim_tags [OF sim]
  have t': "aq_tag req \<in> md_tag ` set (mc_unacked ms)" using t tg(3) by simp
  have n: "mc_in_flight ms = length (mc_unacked ms)" using sim by (simp add: session_sim_def)
  have one: "length (filter (\<lambda>d. md_tag d = aq_tag req) (mc_unacked ms)) = 1"
    using position_one [OF tg(2) t'] by (metis length_Cons list.size(3) One_nat_def)
  show ?thesis
    unfolding entries_count [OF sim]
    by (cases "aq_mode req")
      (auto simp: model_session_ack_def ack_selects_def delivery_entry_def comp_def one
        intro!: ok_mono [OF model_one(1) [OF tg(2) t' n]] ok_mono [OF model_multiple(1) [OF tg(1) t' n tg(4)]])
qed

lemma model_nack_sim:
  assumes sim: "session_sim s q ms mq" and t: "nq_tag req \<in> fst ` set (window_entries (cs_window s))"
  defines "n \<equiv> length (filter (nack_selects req) (window_entries (cs_window s)))"
  shows "ok (model_session_nack ms req mq) (\<lambda>(r, ms', mq').
    r = Inr \<lparr>na_nacked = n, na_requeued = (if nq_reason req = Requeue then n else 0), na_dropped = (if nq_reason req = Reject then n else 0),
      na_dead_lettered = (if nq_reason req = DeadLetter then n else 0), na_released_credit = n\<rparr> \<and>
    model_settled (nack_state (nq_reason req)) (nack_selects req \<circ> delivery_entry) ms mq ms' mq')"
proof -
  note tg = session_sim_tags [OF sim]
  have t': "nq_tag req \<in> md_tag ` set (mc_unacked ms)" using t tg(3) by simp
  have k: "mc_in_flight ms = length (mc_unacked ms)" using sim by (simp add: session_sim_def)
  have one: "length (filter (\<lambda>d. md_tag d = nq_tag req) (mc_unacked ms)) = 1"
    using position_one [OF tg(2) t'] by (metis length_Cons list.size(3) One_nat_def)
  show ?thesis
    unfolding n_def entries_count [OF sim]
    by (cases "nq_mode req")
      (auto simp: model_session_nack_def nack_selects_def delivery_entry_def comp_def one
        intro!: ok_mono [OF model_one(2) [OF tg(2) t' k]] ok_mono [OF model_multiple(2) [OF tg(1) t' k tg(4)]])
qed

lemma model_settle_refused:
  assumes sim: "session_sim s q ms mq"
  shows "aq_tag areq \<notin> fst ` set (window_entries (cs_window s)) \<Longrightarrow> model_session_ack ms areq mq = Some (Inl (), ms, mq)"
    and "nq_tag nreq \<notin> fst ` set (window_entries (cs_window s)) \<Longrightarrow> model_session_nack ms nreq mq = Some (Inl (), ms, mq)"
proof -
  have no: "position (\<lambda>d. md_tag d = t) (mc_unacked ms) = None" "\<not> list_ex (\<lambda>d. md_tag d = t) (mc_unacked ms)"
    if "t \<notin> fst ` set (window_entries (cs_window s))" for t
    using that session_sim_tags(3) [OF sim] by (auto simp: position_None list_ex_iff)
  show "model_session_ack ms areq mq = Some (Inl (), ms, mq)" if "aq_tag areq \<notin> fst ` set (window_entries (cs_window s))"
    using no [OF that] by (cases "aq_mode areq") (simp_all add: model_session_ack_def ack_one_inner_def ack_multiple_inner_def)
  show "model_session_nack ms nreq mq = Some (Inl (), ms, mq)" if "nq_tag nreq \<notin> fst ` set (window_entries (cs_window s))"
    using no [OF that] by (cases "nq_mode nreq") (simp_all add: model_session_nack_def nack_one_inner_def nack_multiple_inner_def)
qed

lemma model_cancel_sim:
  assumes sim: "session_sim s q ms mq"
  shows "ok (model_session_cancel ms disp mq) (\<lambda>(r, ms', mq').
    r = (case disp of RequeueUnacked \<Rightarrow> \<lparr>cr_requeued = sw_unacked (cs_window s), cr_dropped = 0\<rparr>
         | DropUnacked \<Rightarrow> \<lparr>cr_requeued = 0, cr_dropped = sw_unacked (cs_window s)\<rparr>) \<and>
    model_settled (case disp of RequeueUnacked \<Rightarrow> Retry | DropUnacked \<Rightarrow> Acked) ((\<lambda>_. True) \<circ> delivery_entry) ms mq ms' mq')"
proof -
  note tg = session_sim_tags [OF sim]
  have k: "mc_in_flight ms = length (mc_unacked ms)" "map delivery_entry (mc_unacked ms) = window_entries (cs_window s)"
    and w: "sw_unacked (cs_window s) = length (window_entries (cs_window s))"
    using sim unfolding session_sim_def session_inv_def window_inv_def by blast+
  have u: "sw_unacked (cs_window s) = length (mc_unacked ms)" using w k(2) by (metis length_map)
  have a: "as_u32 (length (mc_unacked ms)) = length (mc_unacked ms)" using tg(4) by (simp add: as_u32_def u32_max_def)
  show ?thesis
    by (cases disp) (simp_all add: model_session_cancel_def model_settle_eqs fold_model_settle model_settled_def a u k(1) sub_uint_def
        comp_def Let_def)
qed

section \<open>Delivery\<close>

lemma model_tag_loop_ok:
  assumes "mc_next_tag ms + length seqs \<le> u64_max" and "mc_in_flight ms + length seqs \<le> u32_max"
  shows "model_tag_loop seqs ms out = (let ds = map (\<lambda>(t, x). \<lparr>md_tag = t, md_seq = x, md_redelivered = (x \<in> mc_redelivered_seqs ms)\<rparr>)
      (zip [mc_next_tag ms..<mc_next_tag ms + length seqs] seqs) in
    Some (out @ ds, ms\<lparr>mc_next_tag := mc_next_tag ms + length seqs, mc_in_flight := mc_in_flight ms + length seqs,
      mc_unacked := mc_unacked ms @ ds\<rparr>))"
  using assms
proof (induction seqs arbitrary: ms out)
  case (Cons x seqs)
  have u: "[mc_next_tag ms..<mc_next_tag ms + length (x # seqs)] = mc_next_tag ms # [Suc (mc_next_tag ms)..<Suc (mc_next_tag ms) + length seqs]"
    using upt_conv_Cons [of "mc_next_tag ms" "mc_next_tag ms + length (x # seqs)"] by (simp del: upt_Suc)
  show ?case using Cons unfolding u by (simp add: Let_def add_u64_def add_u32_def)
qed simp

lemma session_sim_available:
  assumes "session_sim s q ms mq" and "mx \<le> u32_max"
  shows "(case mc_prefetch ms of Unlimited \<Rightarrow> mx | Limited n \<Rightarrow> min mx (n - mc_in_flight ms)) = min (credit_available (cs_credit s)) mx"
proof -
  have w: "sw_unacked (cs_window s) = length (window_entries (cs_window s))" "credit_covers (cs_credit s) (sw_unacked (cs_window s))"
    and k: "mc_in_flight ms = length (mc_unacked ms)" "map delivery_entry (mc_unacked ms) = window_entries (cs_window s)"
      "mc_prefetch ms = cc_mode (cs_credit s)"
    using assms(1) unfolding session_sim_def session_inv_def window_inv_def by blast+
  have "mc_in_flight ms = sw_unacked (cs_window s)" using w(1) k(1,2) by (metis length_map)
  then show ?thesis
    using w(2) assms(2) by (auto simp: k(3) credit_covers_def credit_available_def min.commute split: PrefetchMode.splits)
qed

lemma session_sim_delivered:
  assumes sim: "session_sim s q ms mq" and d: "session_delivers s q mx n s' q' out'" and mq': "simulates q' mq'"
    and seqs: "length seqs = n" "window_entries (cs_window s') = window_entries (cs_window s) @ zip [cs_next_tag s..<cs_next_tag s + n] seqs"
      "\<forall>x\<in>set seqs. status q x = Some Ready \<or> status q x = Some SparseReady"
      "status q' = (\<lambda>x. if x \<in> set seqs then Some Inflight else status q x)"
      "batch_msgs out' = zip [cs_next_tag s..<cs_next_tag s + n] (map (\<lambda>x. (x, status q x = Some SparseReady)) seqs)"
  defines "ds \<equiv> map (\<lambda>(t, x). \<lparr>md_tag = t, md_seq = x, md_redelivered = (x \<in> mc_redelivered_seqs ms)\<rparr>)
      (zip [mc_next_tag ms..<mc_next_tag ms + length seqs] seqs)"
  shows "session_sim s' q' (ms\<lparr>mc_next_tag := mc_next_tag ms + length seqs, mc_in_flight := mc_in_flight ms + length seqs,
      mc_unacked := mc_unacked ms @ ds\<rparr>) mq'"
    and "batch_msgs out' = map (\<lambda>d. (md_tag d, md_seq d, md_redelivered d)) ds"
proof -
  have k: "mc_next_tag ms = cs_next_tag s" "mc_prefetch ms = cc_mode (cs_credit s)" "mc_in_flight ms = length (mc_unacked ms)"
    "map delivery_entry (mc_unacked ms) = window_entries (cs_window s)"
    and R: "\<forall>x. status q x = Some Ready \<longrightarrow> x \<notin> mc_redelivered_seqs ms"
      "\<forall>x. status q x = Some Retry \<or> status q x = Some SparseReady \<longrightarrow> x \<in> mc_redelivered_seqs ms"
    using sim unfolding session_sim_def by blast+
  have s': "session_inv s' q'" "cs_next_tag s' = cs_next_tag s + n" "cc_mode (cs_credit s') = cc_mode (cs_credit s)"
    using d unfolding session_delivers_def by blast+
  have mark: "(x \<in> mc_redelivered_seqs ms) = (status q x = Some SparseReady)" if "x \<in> set seqs" for x
    using that seqs(3) R by (metis MessageState.distinct(1) option.inject)
  have len: "length ds = length seqs" by (simp add: ds_def)
  have ent: "map delivery_entry ds = zip [cs_next_tag s..<cs_next_tag s + n] seqs"
    unfolding ds_def k(1) seqs(1) by (simp add: comp_def delivery_entry_def case_prod_beta)
  show "session_sim s' q' (ms\<lparr>mc_next_tag := mc_next_tag ms + length seqs, mc_in_flight := mc_in_flight ms + length seqs,
      mc_unacked := mc_unacked ms @ ds\<rparr>) mq'"
    unfolding session_sim_def using s' mq' k R len ent seqs(1,2) by (auto simp: seqs(4) split: if_splits)
  show "batch_msgs out' = map (\<lambda>d. (md_tag d, md_seq d, md_redelivered d)) ds"
    unfolding seqs(5) ds_def k(1) seqs(1)
    by (rule nth_equalityI) (simp_all add: seqs(1) mark)
qed

lemma session_deliver_sim:
  assumes sim: "session_sim s q ms mq" and nc: "\<not> is_cancelled s" and mx: "mx \<le> u32_max"
    and b: "sw_unacked (cs_window s) + min (credit_available (cs_credit s)) mx \<le> u32_max"
      "cs_next_tag s + mx \<le> u64_max" "total_delivered (q_stats q) + mx \<le> u64_max"
    and r: "queue_repr q rs ss"
  shows "ok (deliver_from_queue s q mx out) (\<lambda>(r, s', q', out').
    ok (model_session_deliver ms (mq\<lparr>m_sparse_ready := sparse_order (q_blocks q) ss\<rparr>) mx) (\<lambda>(ds, ms', mq').
      r = Inr (length ds) \<and> batch_msgs out' = map (\<lambda>d. (md_tag d, md_seq d, md_redelivered d)) ds \<and> session_sim s' q' ms' mq'))"
proof -
  let ?av = "min (credit_available (cs_credit s)) mx" and ?mq = "mq\<lparr>m_sparse_ready := sparse_order (q_blocks q) ss\<rparr>"
  have si: "session_inv s q" "simulates q mq" "mc_in_flight ms = length (mc_unacked ms)" "mc_next_tag ms = cs_next_tag s"
    and w: "sw_unacked (cs_window s) = length (window_entries (cs_window s))" "map delivery_entry (mc_unacked ms) = window_entries (cs_window s)"
    using sim unfolding session_sim_def session_inv_def window_inv_def by blast+
  have fl: "mc_in_flight ms = sw_unacked (cs_window s)" using si(3) w by (metis length_map)
  have mqs: "simulates q ?mq"
    using si(2) sparse_order_status [OF r] repr_distinct_sparse [OF r]
    by (auto simp: simulates_def model_wf_def state_of_def)
  have sim': "session_sim s q ms ?mq" using sim mqs by (simp add: session_sim_def)
  note av = session_sim_available [OF sim mx]
  obtain n s' q' out' where run: "deliver_from_queue s q mx out = Some (Inr n, s', q', out')" and d: "session_delivers s q mx n s' q' out'"
    using deliver_from_queue_ok [OF si(1) nc mx b, of out] by (auto elim!: okE)
  obtain seqs where sq: "length seqs = n" "window_entries (cs_window s') = window_entries (cs_window s) @ zip [cs_next_tag s..<cs_next_tag s + n] seqs"
      "\<forall>x\<in>set seqs. status q x = Some Ready \<or> status q x = Some SparseReady"
      "status q' = (\<lambda>x. if x \<in> set seqs then Some Inflight else status q x)"
      "batch_msgs out' = zip [cs_next_tag s..<cs_next_tag s + n] (map (\<lambda>x. (x, status q x = Some SparseReady)) seqs)"
    and q': "if ?av = 0 then q' = q else \<exists>work. deliver q ?av work_default = Some (n, work, q') \<and> work_seqs work = seqs"
    and n: "n = min ?av (qcount Ready q + qcount SparseReady q)"
    using d unfolding session_delivers_def by blast
  show ?thesis
  proof (cases "?av = 0")
    case True
    then have "n = 0" "q' = q" using n q' by simp_all
    moreover have "session_sim s' q (ms\<lparr>mc_next_tag := mc_next_tag ms, mc_in_flight := mc_in_flight ms, mc_unacked := mc_unacked ms\<rparr>) ?mq"
      using session_sim_delivered(1) [OF sim' d _ sq] mqs calculation sq(1) by simp
    ultimately show ?thesis using run sq True by (simp add: model_session_deliver_def av)
  next
    case False
    then obtain work where wk: "deliver q ?av work_default = Some (n, work, q')" "work_seqs work = seqs"
      using q' [unfolded if_not_P [OF False]] by blast
    have "ok (deliver q ?av work_default) (\<lambda>(c, work, q'). ok (model_deliver ?mq ?av) (\<lambda>(seqs, m').
        work_seqs work = seqs \<and> c = length seqs \<and> simulates q' m'))"
      by (rule deliver_simulates [OF si(2) r]) (use mx b(3) in linarith)+
    then obtain mq' where md: "model_deliver ?mq ?av = Some (seqs, mq')" "simulates q' mq'"
      using wk by (auto elim!: okE)
    have bd: "mc_next_tag ms + length seqs \<le> u64_max" "mc_in_flight ms + length seqs \<le> u32_max"
      using b n sq(1) fl si(4) by linarith+
    note tl = model_tag_loop_ok [OF bd, of "[]"]
    note sd = session_sim_delivered [OF sim' d md(2) sq]
    show ?thesis
      using run md(1) sd sq(1) by (simp add: model_session_deliver_def av if_not_P [OF False] tl Let_def)
  qed
qed

end
