(* ===== verification/Session_Refine_Properties.thy ===== *)
theory Session_Refine_Properties
  imports Session_Refine Consumer_Properties Model_Properties
begin

text \<open>
  The session of the broker implements the reference session of \<open>consumer/model.rs\<close>:
  one property for delivery and one for the settlements.
\<close>

section \<open>Related sessions\<close>

definition demo_m1 :: ModelQueue where
  "demo_m1 = \<lparr>m_states = [Ready, Ready], m_sequential_head = 0, m_sequential_tail = 2, m_sparse_ready = []\<rparr>"

definition demo_ms1 :: ModelConsumerSession where
  "demo_ms1 = \<lparr>mc_next_tag = 3, mc_prefetch = Limited 5, mc_in_flight = 2,
     mc_unacked = [\<lparr>md_tag = 1, md_seq = 0, md_redelivered = False\<rparr>, \<lparr>md_tag = 2, md_seq = 1, md_redelivered = False\<rparr>],
     mc_redelivered_seqs = {}\<rparr>"

lemma demo_status_1: "status demo_q1 = [0 \<mapsto> Ready, 1 \<mapsto> Ready]"
  by (auto simp: fun_eq_iff status_def demo_q1_def demo_queue_def demo_block_def bstat_def wbit_def
      less_Suc_eq numeral_2_eq_2)

lemma demo_sim_0: "session_sim demo_s0 demo_q1 (model_session_new (Limited 5)) demo_m1"
proof -
  have "status demo_q1 = state_of demo_m1" by (auto simp: demo_status_1 state_of_def demo_m1_def fun_eq_iff nth_two)
  moreover have "model_wf demo_m1" by (auto simp: model_wf_def demo_m1_def state_of_def nth_two)
  moreover have "q_head demo_q1 = 0" by (simp add: demo_q1_def demo_queue_def)
  ultimately have "simulates demo_q1 demo_m1" using demo_inv by (simp add: simulates_def demo_m1_def)
  then show ?thesis unfolding demo_s0_def by (rule session_sim_new) (auto simp: demo_status_1 u32_max_def)
qed

lemma demo_sim_1: "session_sim demo_s1 demo_q2 demo_ms1 demo_m2"
  using demo_s1_inv simulates_demo(1)
  by (auto simp: session_sim_def demo_s1_fields demo_ms1_def delivery_entry_def demo_status split: if_splits)

section \<open>Properties\<close>

text \<open>
  C31: delivery to a session refines delivery to the reference session: up to the order in which the
  reference queue keeps retried messages, both hand out the same messages under the same tags with
  the same redelivery marks, and session and queue are related to the reference ones again.
\<close>

theorem session_refines_deliver:
  assumes sim: "session_sim s q ms mq" and "\<not> is_cancelled s" and "mx \<le> u32_max"
    and "sw_unacked (cs_window s) + min (credit_available (cs_credit s)) mx \<le> u32_max"
    and "cs_next_tag s + mx \<le> u64_max" and "total_delivered (q_stats q) + mx \<le> u64_max"
  shows "\<exists>sparse. distinct sparse \<and> set sparse = set (m_sparse_ready mq) \<and>
    ok (deliver_from_queue s q mx out) (\<lambda>(r, s', q', out').
      ok (model_session_deliver ms (mq\<lparr>m_sparse_ready := sparse\<rparr>) mx) (\<lambda>(ds, ms', mq').
        r = Inr (length ds) \<and> batch_msgs out' = map (\<lambda>d. (md_tag d, md_seq d, md_redelivered d)) ds \<and> session_sim s' q' ms' mq'))"
proof -
  have si: "simulates q mq" using sim by (simp add: session_sim_def)
  obtain rs ss where r: "queue_repr q rs ss" using si by (auto simp: simulates_def queue_inv_def)
  have "set (sparse_order (q_blocks q) ss) = set (m_sparse_ready mq)"
    using sparse_order_status [OF r] si by (auto simp: simulates_def model_wf_def)
  then show ?thesis using session_deliver_sim [OF assms r] repr_distinct_sparse [OF r] by blast
qed

theorem session_refines_deliver_witness:
  "ok (deliver_from_queue demo_s0 demo_q1 2 demo_out) (\<lambda>(r, s', q', out').
     ok (model_session_deliver (model_session_new (Limited 5)) demo_m1 2) (\<lambda>(ds, ms', mq'). session_sim s' q' ms' mq'))"
proof -
  have m: "demo_m1\<lparr>m_sparse_ready := []\<rparr> = demo_m1" by (simp add: demo_m1_def)
  have "set (m_sparse_ready demo_m1) = {}" by (simp add: demo_m1_def)
  then have "ok (deliver_from_queue demo_s0 demo_q1 2 demo_out) (\<lambda>(r, s', q', out').
      ok (model_session_deliver (model_session_new (Limited 5)) demo_m1 2) (\<lambda>(ds, ms', mq').
        r = Inr (length ds) \<and> batch_msgs out' = map (\<lambda>d. (md_tag d, md_seq d, md_redelivered d)) ds \<and> session_sim s' q' ms' mq'))"
    using session_refines_deliver [OF demo_sim_0, of 2 demo_out]
    by (simp add: demo_s0_fields demo_stats u32_max_def u64_max_def m)
  then show ?thesis by (rule ok_mono) (clarsimp, erule ok_mono, clarsimp)
qed

text \<open>
  C32: acknowledging, rejecting and cancelling refine the reference session. Both sides accept and
  refuse the same requests, report the same counts, and are related again; a cancelled session is
  related as well, though only the reference session would still deliver.
\<close>

theorem session_refines_settle:
  assumes sim: "session_sim s q ms mq" and nc: "\<not> is_cancelled s"
    and b: "total_acked (q_stats q) + sw_unacked (cs_window s) \<le> u64_max" "total_nacked (q_stats q) + sw_unacked (cs_window s) \<le> u64_max"
  shows "ok (session_ack s areq q) (\<lambda>(r, s', q'). ok (model_session_ack ms areq mq) (\<lambda>(r', ms', mq').
      session_sim s' q' ms' mq' \<and> map_sum (\<lambda>_. ()) (\<lambda>a. (aa_acked a, aa_released_credit a)) r = map_sum id (\<lambda>a. (aa_acked a, aa_released_credit a)) r'))
    \<and> ok (session_nack s nreq q) (\<lambda>(r, s', q'). ok (model_session_nack ms nreq mq) (\<lambda>(r', ms', mq').
      session_sim s' q' ms' mq' \<and> map_sum (\<lambda>_. ()) id r = r'))
    \<and> ok (session_reject s rreq q) (\<lambda>(r, s', q'). ok (model_session_reject ms rreq mq) (\<lambda>(r', ms', mq').
      session_sim s' q' ms' mq' \<and> map_sum (\<lambda>_. ()) id r = r'))
    \<and> ok (session_cancel s disp q) (\<lambda>(r, s', q'). ok (model_session_cancel ms disp mq) (\<lambda>(r', ms', mq').
      session_sim s' q' ms' mq' \<and> r = r'))"
proof (intro conjI)
  have si: "session_inv s q" using sim by (simp add: session_sim_def)
  have nk: "ok (session_nack s req q) (\<lambda>(r, s', q'). ok (model_session_nack ms req mq) (\<lambda>(r', ms', mq').
      session_sim s' q' ms' mq' \<and> map_sum (\<lambda>_. ()) id r = r'))" for req
  proof (cases "nq_tag req \<in> fst ` set (window_entries (cs_window s))")
    case True
    have v: "nack_state (nq_reason req) = Acked \<or> nack_state (nq_reason req) = Retry" by (cases "nq_reason req") (simp_all add: nack_state_def)
    show ?thesis
      by (rule ok_mono [OF session_nack_ok [OF si nc True b]])
        (auto intro!: ok_mono [OF model_nack_sim [OF sim True]] session_sim_settled [OF sim _ v])
  next
    case False
    then show ?thesis using settle_refused(2) [OF si nc False] model_settle_refused(2) [OF sim False] sim by simp
  qed
  show "ok (session_nack s nreq q) (\<lambda>(r, s', q'). ok (model_session_nack ms nreq mq) (\<lambda>(r', ms', mq').
      session_sim s' q' ms' mq' \<and> map_sum (\<lambda>_. ()) id r = r'))" by (rule nk)
  show "ok (session_reject s rreq q) (\<lambda>(r, s', q'). ok (model_session_reject ms rreq mq) (\<lambda>(r', ms', mq').
      session_sim s' q' ms' mq' \<and> map_sum (\<lambda>_. ()) id r = r'))"
    using nk [of "nack_request_one (rq_tag rreq) (rq_reason rreq)"]
    by (simp add: session_reject_def model_session_reject_def model_session_nack_def nack_request_one_def)
  show "ok (session_cancel s disp q) (\<lambda>(r, s', q'). ok (model_session_cancel ms disp mq) (\<lambda>(r', ms', mq').
      session_sim s' q' ms' mq' \<and> r = r'))"
  proof -
    have v: "(case disp of RequeueUnacked \<Rightarrow> Retry | DropUnacked \<Rightarrow> Acked) = Acked \<or> (case disp of RequeueUnacked \<Rightarrow> Retry | DropUnacked \<Rightarrow> Acked) = Retry"
      by (cases disp) simp_all
    show ?thesis
      by (rule ok_mono [OF session_cancel_ok [OF si b]])
        (auto intro!: ok_mono [OF model_cancel_sim [OF sim]] session_sim_settled [OF sim _ v])
  qed
  show "ok (session_ack s areq q) (\<lambda>(r, s', q'). ok (model_session_ack ms areq mq) (\<lambda>(r', ms', mq').
      session_sim s' q' ms' mq' \<and> map_sum (\<lambda>_. ()) (\<lambda>a. (aa_acked a, aa_released_credit a)) r = map_sum id (\<lambda>a. (aa_acked a, aa_released_credit a)) r'))"
  proof (cases "aq_tag areq \<in> fst ` set (window_entries (cs_window s))")
    case True
    have v: "Acked = Acked \<or> Acked = Retry" by simp
    show ?thesis
      by (rule ok_mono [OF session_ack_ok [OF si nc True b(1)]])
        (auto intro!: ok_mono [OF model_ack_sim [OF sim True]] session_sim_settled [OF sim _ v])
  next
    case False
    then show ?thesis using settle_refused(1) [OF si nc False] model_settle_refused(1) [OF sim False] sim by simp
  qed
qed

theorem session_refines_settle_witness:
  "ok (session_ack demo_s1 (ack_request_one 2) demo_q2) (\<lambda>(r, s', q'). ok (model_session_ack demo_ms1 (ack_request_one 2) demo_m2)
     (\<lambda>(r', ms', mq'). session_sim s' q' ms' mq'))"
proof -
  have "ok (session_ack demo_s1 (ack_request_one 2) demo_q2) (\<lambda>(r, s', q'). ok (model_session_ack demo_ms1 (ack_request_one 2) demo_m2)
     (\<lambda>(r', ms', mq'). session_sim s' q' ms' mq' \<and>
       map_sum (\<lambda>_. ()) (\<lambda>a. (aa_acked a, aa_released_credit a)) r = map_sum id (\<lambda>a. (aa_acked a, aa_released_credit a)) r'))"
    by (rule conjunct1 [OF session_refines_settle [OF demo_sim_1 demo_s1_fields(4)]])
      (simp_all add: demo_stats demo_s1_fields u64_max_def)
  then show ?thesis by (rule ok_mono) (clarsimp, erule ok_mono, clarsimp)
qed

end
