(* ===== verification/Le_Bytes.thy ===== *)
theory Le_Bytes
  imports Aurum_Prelude
begin

text \<open>
  Bytes, little-endian integers and slices of buffers: what the record format of the storage, the wire format of
  the native protocol and the names of the router are written in.
\<close>

section \<open>Little-endian integers\<close>

type_synonym byte = "8 word"

fun to_le_bytes :: "nat \<Rightarrow> 'a::len word \<Rightarrow> byte list" where
  "to_le_bytes 0 w = []"
| "to_le_bytes (Suc n) w = ucast w # to_le_bytes n (drop_bit 8 w)"

fun from_le_bytes :: "byte list \<Rightarrow> 'a::len word" where
  "from_le_bytes [] = 0"
| "from_le_bytes (b # bs) = ucast b OR push_bit 8 (from_le_bytes bs)"

definition slice :: "nat \<Rightarrow> nat \<Rightarrow> 'a list \<Rightarrow> 'a list option" where
  "slice i j xs = (if i \<le> j \<and> j \<le> length xs then Some (take (j - i) (drop i xs)) else None)"

definition read_le :: "nat \<Rightarrow> nat \<Rightarrow> byte list \<Rightarrow> 'a::len word option" where
  "read_le n pos buf = map_option from_le_bytes (slice pos (pos + n) buf)"

section \<open>Integers round trip\<close>

lemma to_le_bytes_length [simp]: "length (to_le_bytes n w) = n"
  by (induction n arbitrary: w) simp_all

lemma from_to_le_bytes: "from_le_bytes (to_le_bytes n (w :: 'a::len word)) = (take_bit (8 * n) w :: 'a word)"
proof (induction n arbitrary: w)
  case (Suc n)
  show ?case
  proof (rule bit_word_eqI)
    fix i assume i: "i < LENGTH('a)"
    show "bit (from_le_bytes (to_le_bytes (Suc n) w) :: 'a word) i \<longleftrightarrow> bit (take_bit (8 * Suc n) w) i"
      using i by (cases "i < 8") (auto simp: Suc.IH bit_simps not_less dest: bit_imp_le_length)
  qed
qed simp

lemma to_le_bytes_nth: "i < n \<Longrightarrow> to_le_bytes n w ! i = ucast (drop_bit (8 * i) w)"
proof (induction n arbitrary: w i)
  case (Suc n)
  then show ?case by (cases i) (simp_all add: drop_bit_drop_bit add.commute)
qed simp

lemma to_le_bytes_cong:
  assumes "\<And>j. j < 8 * n \<Longrightarrow> bit (v :: 'a::len word) j = bit (w :: 'a word) j"
  shows "to_le_bytes n v = to_le_bytes n w"
proof (rule nth_equalityI, simp_all add: to_le_bytes_nth)
  fix i assume i: "i < n"
  show "ucast (drop_bit (8 * i) v) = (ucast (drop_bit (8 * i) w) :: byte)"
    by (rule bit_word_eqI) (use i assms in \<open>auto simp: bit_simps\<close>)
qed

lemma to_from_le_bytes: "length bs = n \<Longrightarrow> 8 * n \<le> LENGTH('a) \<Longrightarrow> to_le_bytes n (from_le_bytes bs :: 'a::len word) = bs"
proof (induction n arbitrary: bs)
  case (Suc n)
  obtain b bs' where bs: "bs = b # bs'" using Suc.prems(1) by (cases bs) auto
  have "ucast (ucast b OR push_bit 8 (from_le_bytes bs') :: 'a word) = b"
    by (rule bit_word_eqI) (use Suc.prems(2) in \<open>auto simp: bit_simps\<close>)
  moreover have "to_le_bytes n (drop_bit 8 (ucast b OR push_bit 8 (from_le_bytes bs') :: 'a word)) = to_le_bytes n (from_le_bytes bs' :: 'a word)"
    by (rule to_le_bytes_cong) (use Suc.prems(2) in \<open>auto simp: bit_simps dest: bit_imp_le_length\<close>)
  ultimately show ?case using Suc by (simp add: bs)
qed simp

lemma slice_append: "slice 0 (length xs) (xs @ ys) = Some xs"
  by (simp add: slice_def)

lemma slice_Some: "i \<le> j \<Longrightarrow> j \<le> length xs \<Longrightarrow> slice i j xs = Some (take (j - i) (drop i xs))"
  by (simp add: slice_def)

text \<open>Reading a field from a buffer that is built by appending fields.\<close>

lemma read_le_append: "read_le n (length xs + p) (xs @ ys) = read_le n p ys"
  by (simp add: read_le_def slice_def)

lemma read_le_append0: "read_le n (length xs) (xs @ ys) = read_le n 0 ys"
  using read_le_append [of n xs 0] by simp

lemma read_le_Cons: "read_le n (Suc p) (b # ys) = read_le n p ys"
  by (simp add: read_le_def slice_def)

lemma read_le_skip: "m \<le> p \<Longrightarrow> read_le n p (to_le_bytes m v @ ys) = read_le n (p - m) ys"
  using read_le_append [of n "to_le_bytes m v" "p - m" ys] by simp

lemma read_le_last:
  fixes w :: "'a::len word"
  assumes "n * 8 = LENGTH('a)"
  shows "read_le n 0 (to_le_bytes n w) = Some w"
proof -
  have "take_bit (8 * n) w = w" using assms by (metis mult.commute order_refl take_bit_word_eq_self)
  then show ?thesis by (simp add: read_le_def slice_def from_to_le_bytes)
qed

lemma read_le_first:
  fixes w :: "'a::len word"
  assumes "n * 8 = LENGTH('a)"
  shows "read_le n 0 (to_le_bytes n w @ ys) = Some w"
  using read_le_last [OF assms, of w] by (simp add: read_le_def slice_def)

lemma read_le_Some: "p + n \<le> length buf \<Longrightarrow> read_le n p buf = Some (from_le_bytes (take n (drop p buf)))"
  by (simp add: read_le_def slice_def)

end
