(* ===== verification/Storage_Codec.thy ===== *)
theory Storage_Codec
  imports Le_Bytes
begin

text \<open>
  The record format of the append-only log: \<open>crates/aurum-storage/src/record\<close> and the
  segment scanner. Bytes are 8-bit words, integers keep their width, and \<open>crc32c\<close>, which
  is a third-party function, is an argument. Slicing past the end of a buffer is a panic.
\<close>

section \<open>Kinds, flags and headers\<close>

datatype RecordKind = PayloadBatchKind | QueueIndexBatch | AckLedgerBatch | Checkpoint | Manifest

definition kind_as_u16 :: "RecordKind \<Rightarrow> 16 word" where
  "kind_as_u16 k = (case k of PayloadBatchKind \<Rightarrow> 1 | QueueIndexBatch \<Rightarrow> 2 | AckLedgerBatch \<Rightarrow> 3 | Checkpoint \<Rightarrow> 4 | Manifest \<Rightarrow> 5)"

datatype RecordKindError = UnknownRecordKind "16 word"

definition kind_try_from :: "16 word \<Rightarrow> RecordKindError + RecordKind" where
  "kind_try_from v =
     (if v = 1 then Inr PayloadBatchKind else if v = 2 then Inr QueueIndexBatch else if v = 3 then Inr AckLedgerBatch
      else if v = 4 then Inr Checkpoint else if v = 5 then Inr Manifest else Inl (UnknownRecordKind v))"

definition COMPRESSED :: "16 word" where
  "COMPRESSED = push_bit 0 1"

definition HAS_CRC32C :: "16 word" where
  "HAS_CRC32C = push_bit 1 1"

definition BATCHED :: "16 word" where
  "BATCHED = push_bit 2 1"

definition record_flags_from_bits :: "16 word \<Rightarrow> 16 word option" where
  "record_flags_from_bits v = (if v AND NOT (COMPRESSED OR HAS_CRC32C OR BATCHED) = 0 then Some v else None)"

definition AURUM_RECORD_MAGIC :: "32 word" where
  "AURUM_RECORD_MAGIC = 0x4155524D"

definition RECORD_VERSION_V0 :: "16 word" where
  "RECORD_VERSION_V0 = 0"

definition RECORD_HEADER_LEN :: "16 word" where
  "RECORD_HEADER_LEN = 40"

record RecordHeader =
  rh_magic :: "32 word"
  rh_version :: "16 word"
  rh_kind :: "16 word"
  rh_flags :: "16 word"
  rh_header_len :: "16 word"
  rh_body_len :: "32 word"
  rh_record_crc32c :: "32 word"
  rh_stream_id :: "64 word"
  rh_base_seq :: "64 word"
  rh_count :: "32 word"
  rh_reserved :: "32 word"

definition RecordHeader_new :: "RecordKind \<Rightarrow> 16 word \<Rightarrow> 64 word \<Rightarrow> 64 word \<Rightarrow> 32 word \<Rightarrow> 32 word \<Rightarrow> RecordHeader" where
  "RecordHeader_new kind flags stream_id base_seq n body_len =
     \<lparr>rh_magic = AURUM_RECORD_MAGIC, rh_version = RECORD_VERSION_V0, rh_kind = kind_as_u16 kind, rh_flags = flags,
      rh_header_len = RECORD_HEADER_LEN, rh_body_len = body_len, rh_record_crc32c = 0, rh_stream_id = stream_id,
      rh_base_seq = base_seq, rh_count = n, rh_reserved = 0\<rparr>"

section \<open>Checksum\<close>

definition encode_header_zero_crc :: "RecordHeader \<Rightarrow> byte list" where
  "encode_header_zero_crc h =
     to_le_bytes 4 (rh_magic h) @ to_le_bytes 2 (rh_version h) @ to_le_bytes 2 (rh_kind h) @ to_le_bytes 2 (rh_flags h) @
     to_le_bytes 2 (rh_header_len h) @ to_le_bytes 4 (rh_body_len h) @ to_le_bytes 4 (0 :: 32 word) @
     to_le_bytes 8 (rh_stream_id h) @ to_le_bytes 8 (rh_base_seq h) @ to_le_bytes 4 (rh_count h)"

definition crc32c_record :: "(byte list \<Rightarrow> 32 word) \<Rightarrow> RecordHeader \<Rightarrow> byte list \<Rightarrow> 32 word" where
  "crc32c_record crc32c h body = crc32c (encode_header_zero_crc h @ body)"

section \<open>Codec\<close>

datatype RecordDecodeError = Truncated | BadMagic | UnsupportedVersion | HeaderTooSmall | InvalidFlags
  | UnknownKind RecordKindError | BodyTooShort | CrcMismatch

datatype RecordEncodeError = BodyTooLarge

definition write_header :: "RecordHeader \<Rightarrow> byte list" where
  "write_header h =
     to_le_bytes 4 (rh_magic h) @ to_le_bytes 2 (rh_version h) @ to_le_bytes 2 (rh_kind h) @ to_le_bytes 2 (rh_flags h) @
     to_le_bytes 2 (rh_header_len h) @ to_le_bytes 4 (rh_body_len h) @ to_le_bytes 4 (rh_record_crc32c h) @
     to_le_bytes 8 (rh_stream_id h) @ to_le_bytes 8 (rh_base_seq h) @ to_le_bytes 4 (rh_count h)"

definition encode_record ::
  "(byte list \<Rightarrow> 32 word) \<Rightarrow> RecordKind \<Rightarrow> 64 word \<Rightarrow> 64 word \<Rightarrow> 32 word \<Rightarrow> byte list \<Rightarrow> RecordEncodeError + byte list" where
  "encode_record crc32c kind stream_id base_seq n body =
     (let header = RecordHeader_new kind (HAS_CRC32C OR BATCHED) stream_id base_seq n (of_nat (length body));
          header = header\<lparr>rh_record_crc32c := crc32c_record crc32c header body\<rparr>
      in Inr (write_header header @ body))"

definition read_header :: "byte list \<Rightarrow> (RecordDecodeError + RecordHeader) option" where
  "read_header buf = do {
     magic \<leftarrow> read_le 4 0 buf;
     (if magic \<noteq> AURUM_RECORD_MAGIC then Some (Inl BadMagic) else do {
        version \<leftarrow> read_le 2 4 buf;
        (if version \<noteq> RECORD_VERSION_V0 then Some (Inl UnsupportedVersion) else do {
           kind \<leftarrow> read_le 2 6 buf;
           flags \<leftarrow> read_le 2 8 buf;
           header_len \<leftarrow> read_le 2 10 buf;
           (if header_len < RECORD_HEADER_LEN then Some (Inl HeaderTooSmall) else do {
              body_len \<leftarrow> read_le 4 12 buf;
              record_crc32c \<leftarrow> read_le 4 16 buf;
              stream_id \<leftarrow> read_le 8 20 buf;
              base_seq \<leftarrow> read_le 8 28 buf;
              n \<leftarrow> read_le 4 36 buf;
              (case kind_try_from kind of
                 Inl e \<Rightarrow> Some (Inl (UnknownKind e))
               | Inr _ \<Rightarrow> (case record_flags_from_bits flags of
                     None \<Rightarrow> Some (Inl InvalidFlags)
                   | Some _ \<Rightarrow> Some (Inr \<lparr>rh_magic = magic, rh_version = version, rh_kind = kind, rh_flags = flags,
                       rh_header_len = header_len, rh_body_len = body_len, rh_record_crc32c = record_crc32c,
                       rh_stream_id = stream_id, rh_base_seq = base_seq, rh_count = n, rh_reserved = 0\<rparr>)))
            })
         })
      })
   }"

definition decode_record ::
  "(byte list \<Rightarrow> 32 word) \<Rightarrow> byte list \<Rightarrow> (RecordDecodeError + RecordHeader \<times> byte list) option" where
  "decode_record crc32c buf =
     (if length buf < unat RECORD_HEADER_LEN then Some (Inl Truncated) else do {
        hb \<leftarrow> slice 0 (unat RECORD_HEADER_LEN) buf;
        r \<leftarrow> read_header hb;
        (case r of
           Inl e \<Rightarrow> Some (Inl e)
         | Inr header \<Rightarrow> do {
             let total = unat RECORD_HEADER_LEN + unat (rh_body_len header);
             (if length buf < total then Some (Inl BodyTooShort) else do {
                body \<leftarrow> slice (unat RECORD_HEADER_LEN) total buf;
                let zero_crc = header\<lparr>rh_record_crc32c := 0\<rparr>;
                (if rh_record_crc32c header \<noteq> crc32c_record crc32c zero_crc body then Some (Inl CrcMismatch)
                 else Some (Inr (header, body)))
              })
           })
      })"

section \<open>Scanner\<close>

record ScannedRecord =
  sr_segment_id :: "64 word"
  sr_offset :: nat
  sr_kind :: RecordKind
  sr_stream_id :: "64 word"
  sr_base_seq :: "64 word"
  sr_count :: "32 word"
  sr_body :: "byte list"

record SegmentScanResult =
  ss_records :: "ScannedRecord list"
  ss_valid_end :: nat
  ss_truncated_tail :: bool

datatype SegmentScanError = CorruptRecord nat | TruncatedTail

text \<open>The loop of \<open>scan_segment_bytes\<close>; every accepted record moves \<open>pos\<close> by at least a header.\<close>

function scan_loop ::
  "(byte list \<Rightarrow> 32 word) \<Rightarrow> 64 word \<Rightarrow> byte list \<Rightarrow> nat \<Rightarrow> ScannedRecord list \<Rightarrow> (SegmentScanError + SegmentScanResult) option" where
  "scan_loop crc32c segment_id buf pos records =
     (if pos < length buf then
        (if length buf - pos < unat RECORD_HEADER_LEN then
           Some (Inr \<lparr>ss_records = records, ss_valid_end = pos, ss_truncated_tail = True\<rparr>)
         else
           (case decode_record crc32c (drop pos buf) of
              None \<Rightarrow> None
            | Some (Inr (hdr, body)) \<Rightarrow>
                (case kind_try_from (rh_kind hdr) of
                   Inl _ \<Rightarrow> Some (Inl (CorruptRecord pos))
                 | Inr kind \<Rightarrow>
                     scan_loop crc32c segment_id buf (pos + (unat RECORD_HEADER_LEN + length body))
                       (records @ [\<lparr>sr_segment_id = segment_id, sr_offset = pos, sr_kind = kind, sr_stream_id = rh_stream_id hdr,
                          sr_base_seq = rh_base_seq hdr, sr_count = rh_count hdr, sr_body = body\<rparr>]))
            | Some (Inl e) \<Rightarrow>
                (if e = Truncated \<or> e = BodyTooShort then
                   Some (Inr \<lparr>ss_records = records, ss_valid_end = pos, ss_truncated_tail = True\<rparr>)
                 else Some (Inl (CorruptRecord pos)))))
      else Some (Inr \<lparr>ss_records = records, ss_valid_end = pos, ss_truncated_tail = False\<rparr>))"
  by pat_completeness auto
termination
  by (relation "measure (\<lambda>(crc32c, segment_id, buf, pos, records). length buf - pos)") (auto simp: RECORD_HEADER_LEN_def)

declare scan_loop.simps [simp del]

definition scan_segment_bytes ::
  "(byte list \<Rightarrow> 32 word) \<Rightarrow> 64 word \<Rightarrow> byte list \<Rightarrow> (SegmentScanError + SegmentScanResult) option" where
  "scan_segment_bytes crc32c segment_id buf = scan_loop crc32c segment_id buf 0 []"

section \<open>Records round trip\<close>

lemma header_len_simps [simp]: "unat RECORD_HEADER_LEN = 40" "length (write_header h) = 40" "length (encode_header_zero_crc h) = 40"
  by (simp_all add: RECORD_HEADER_LEN_def write_header_def encode_header_zero_crc_def)

lemma kind_round_trip [simp]: "kind_try_from (kind_as_u16 k) = Inr k"
  by (cases k) (simp_all add: kind_try_from_def kind_as_u16_def)

lemma kind_try_from_Inr: "kind_try_from v = Inr k \<longleftrightarrow> v = kind_as_u16 k"
  by (cases k) (auto simp: kind_try_from_def kind_as_u16_def split: if_splits)

definition header_valid :: "RecordHeader \<Rightarrow> bool" where
  "header_valid h \<longleftrightarrow> rh_magic h = AURUM_RECORD_MAGIC \<and> rh_version h = RECORD_VERSION_V0 \<and> RECORD_HEADER_LEN \<le> rh_header_len h \<and>
     (\<exists>k. rh_kind h = kind_as_u16 k) \<and> record_flags_from_bits (rh_flags h) \<noteq> None \<and> rh_reserved h = 0"

lemma write_header_fields:
  "read_le 4 0 (write_header h) = Some (rh_magic h)" "read_le 2 4 (write_header h) = Some (rh_version h)"
  "read_le 2 6 (write_header h) = Some (rh_kind h)" "read_le 2 8 (write_header h) = Some (rh_flags h)"
  "read_le 2 10 (write_header h) = Some (rh_header_len h)" "read_le 4 12 (write_header h) = Some (rh_body_len h)"
  "read_le 4 16 (write_header h) = Some (rh_record_crc32c h)" "read_le 8 20 (write_header h) = Some (rh_stream_id h)"
  "read_le 8 28 (write_header h) = Some (rh_base_seq h)" "read_le 4 36 (write_header h) = Some (rh_count h)"
  by (simp_all add: write_header_def read_le_skip read_le_first read_le_last)

lemma read_write_header: "header_valid h \<Longrightarrow> read_header (write_header h) = Some (Inr h)"
  by (auto simp: read_header_def write_header_fields header_valid_def)

lemma take_drop_join: "take n (drop p xs) @ take m (drop (p + n) xs) = take (n + m) (drop p xs)"
  by (metis add.commute drop_drop take_add)

lemma read_header_total:
  assumes "length buf = 40"
  obtains r where "read_header buf = Some r" "\<And>h. r = Inr h \<Longrightarrow> header_valid h \<and> write_header h = buf"
proof -
  let ?f = "\<lambda>n p. take n (drop p buf)"
  have rd: "read_le n p buf = Some (from_le_bytes (?f n p) :: 'x::len word)" if "p + n \<le> 40" for n p
    using that assms by (simp add: read_le_Some)
  have tf: "to_le_bytes n (from_le_bytes (?f n p) :: 'x::len word) = ?f n p" if "p + n \<le> 40" "8 * n \<le> LENGTH('x)" for n p
    using that assms by (intro to_from_le_bytes) simp_all
  have tf0: "to_le_bytes 4 (from_le_bytes (take 4 buf) :: 32 word) = take 4 buf" using assms by (intro to_from_le_bytes) simp_all
  define h where "h = \<lparr>rh_magic = from_le_bytes (?f 4 0), rh_version = from_le_bytes (?f 2 4), rh_kind = from_le_bytes (?f 2 6),
    rh_flags = from_le_bytes (?f 2 8), rh_header_len = from_le_bytes (?f 2 10), rh_body_len = from_le_bytes (?f 4 12),
    rh_record_crc32c = from_le_bytes (?f 4 16), rh_stream_id = from_le_bytes (?f 8 20), rh_base_seq = from_le_bytes (?f 8 28),
    rh_count = from_le_bytes (?f 4 36), rh_reserved = 0\<rparr>"
  have "write_header h = ?f 4 0 @ ?f 2 4 @ ?f 2 6 @ ?f 2 8 @ ?f 2 10 @ ?f 4 12 @ ?f 4 16 @ ?f 8 20 @ ?f 8 28 @ ?f 4 36"
    unfolding write_header_def h_def by (simp add: tf tf0)
  also have "\<dots> = buf"
    using assms take_drop_join [of 4 0 buf 2] take_drop_join [of 6 0 buf 2] take_drop_join [of 8 0 buf 2] take_drop_join [of 10 0 buf 2]
      take_drop_join [of 12 0 buf 4] take_drop_join [of 16 0 buf 4] take_drop_join [of 20 0 buf 8] take_drop_join [of 28 0 buf 8]
      take_drop_join [of 36 0 buf 4]
    by (simp add: append_assoc [symmetric] del: append_assoc)
  finally have w: "write_header h = buf" .
  have "\<exists>r. read_header buf = Some r \<and> (\<forall>h'. r = Inr h' \<longrightarrow> h' = h \<and> header_valid h)"
    unfolding read_header_def rd header_valid_def h_def
    by (auto simp: rd header_valid_def kind_try_from_Inr not_less split: sum.splits option.splits)
  then show ?thesis using that w by blast
qed

text \<open>A record as it was handed to \<open>append_record\<close>, and its bytes.\<close>

record LogRecord =
  lr_kind :: RecordKind
  lr_stream_id :: "64 word"
  lr_base_seq :: "64 word"
  lr_count :: "32 word"
  lr_body :: "byte list"

definition record_header :: "(byte list \<Rightarrow> 32 word) \<Rightarrow> LogRecord \<Rightarrow> RecordHeader" where
  "record_header crc r = (let h = RecordHeader_new (lr_kind r) (HAS_CRC32C OR BATCHED) (lr_stream_id r) (lr_base_seq r) (lr_count r)
     (of_nat (length (lr_body r))) in h\<lparr>rh_record_crc32c := crc32c_record crc h (lr_body r)\<rparr>)"

definition record_wire :: "(byte list \<Rightarrow> 32 word) \<Rightarrow> LogRecord \<Rightarrow> byte list" where
  "record_wire crc r = write_header (record_header crc r) @ lr_body r"

definition record_fits :: "LogRecord \<Rightarrow> bool" where
  "record_fits r \<longleftrightarrow> length (lr_body r) < 2 ^ 32"

lemma encode_record_wire:
  "encode_record crc (lr_kind r) (lr_stream_id r) (lr_base_seq r) (lr_count r) (lr_body r) = Inr (record_wire crc r)"
  by (simp add: encode_record_def record_wire_def record_header_def Let_def)

lemma record_wire_length [simp]: "length (record_wire crc r) = 40 + length (lr_body r)"
  by (simp add: record_wire_def)

lemma record_header_valid: "header_valid (record_header crc r)"
  by (auto simp: header_valid_def record_header_def RecordHeader_new_def Let_def record_flags_from_bits_def HAS_CRC32C_def BATCHED_def COMPRESSED_def)

lemma record_body_len: "record_fits r \<Longrightarrow> unat (rh_body_len (record_header crc r)) = length (lr_body r)"
  by (simp add: record_fits_def record_header_def RecordHeader_new_def Let_def unat_of_nat take_bit_nat_eq_self)

lemma record_crc: "crc32c_record crc ((record_header crc r)\<lparr>rh_record_crc32c := 0\<rparr>) (lr_body r) = rh_record_crc32c (record_header crc r)"
  by (simp add: record_header_def RecordHeader_new_def Let_def crc32c_record_def encode_header_zero_crc_def)

lemma decode_record_wire:
  assumes "record_fits r"
  shows "decode_record crc (record_wire crc r @ rest) = Some (Inr (record_header crc r, lr_body r))"
proof -
  let ?h = "record_header crc r"
  have "slice 0 40 (record_wire crc r @ rest) = Some (write_header ?h)" by (simp add: record_wire_def slice_def)
  moreover have "slice 40 (40 + length (lr_body r)) (record_wire crc r @ rest) = Some (lr_body r)" by (simp add: record_wire_def slice_def)
  ultimately show ?thesis
    using read_write_header [OF record_header_valid, of crc r] record_body_len [OF assms, of crc] record_crc [of crc r]
    by (simp add: decode_record_def Let_def)
qed

lemma decode_record_partial:
  assumes "record_fits r" and "n < length (record_wire crc r)"
  shows "\<exists>e. decode_record crc (take n (record_wire crc r)) = Some (Inl e) \<and> (e = Truncated \<or> e = BodyTooShort)"
proof (cases "n < 40")
  case True
  then show ?thesis by (simp add: decode_record_def)
next
  case False
  let ?h = "record_header crc r"
  have "slice 0 40 (take n (record_wire crc r)) = Some (write_header ?h)"
    using False by (simp add: record_wire_def slice_def)
  then show ?thesis
    using False assms read_write_header [OF record_header_valid, of crc r] record_body_len [OF assms(1), of crc]
    by (simp add: decode_record_def Let_def)
qed

text \<open>
  Decoding never panics, and what it accepts is the header followed by the body, with the checksum
  of both.
\<close>

lemma decode_record_total:
  obtains r where "decode_record crc buf = Some r"
    "\<And>h body. r = Inr (h, body) \<Longrightarrow> header_valid h \<and> length body = unat (rh_body_len h) \<and>
       take (40 + length body) buf = write_header h @ body \<and>
       rh_record_crc32c h = crc32c_record crc (h\<lparr>rh_record_crc32c := 0\<rparr>) body"
proof (cases "length buf < 40")
  case True
  then show ?thesis using that [of "Inl Truncated"] by (simp add: decode_record_def)
next
  case False
  then have l: "length (take 40 buf) = 40" by simp
  have sl: "slice 0 40 buf = Some (take 40 buf)" using False by (simp add: slice_def)
  obtain r where r: "read_header (take 40 buf) = Some r" "\<And>h. r = Inr h \<Longrightarrow> header_valid h \<and> write_header h = take 40 buf"
    using read_header_total [OF l] by blast
  show ?thesis
  proof (cases r)
    case (Inl e)
    then show ?thesis using that [of "Inl e"] False sl r by (simp add: decode_record_def)
  next
    case (Inr h)
    note h = r(2) [OF Inr]
    define n where "n = unat (rh_body_len h)"
    define body where "body = take n (drop 40 buf)"
    show ?thesis
    proof (cases "length buf < 40 + n")
      case True
      then show ?thesis using that [of "Inl BodyTooShort"] False sl r Inr by (simp add: decode_record_def n_def)
    next
      case fits: False
      have bd: "slice 40 (40 + n) buf = Some body" "length body = n" using fits by (simp_all add: slice_def body_def)
      have tk: "take (40 + n) buf = write_header h @ body" using h by (simp add: take_add body_def)
      have bd': "slice 40 (40 + unat (rh_body_len h)) buf = Some body" "\<not> length buf < 40 + unat (rh_body_len h)"
        using bd(1) fits by (simp_all add: n_def)
      have eq: "decode_record crc buf = Some (if rh_record_crc32c h \<noteq> crc32c_record crc (h\<lparr>rh_record_crc32c := 0\<rparr>) body
          then Inl CrcMismatch else Inr (h, body))"
        unfolding decode_record_def header_len_simps if_not_P [OF False] sl r(1) Inr Let_def Option.bind.simps sum.case
          if_not_P [OF bd'(2)] bd'(1) by simp
      show ?thesis
        by (rule that [OF eq]) (use bd(2) tk h in \<open>auto simp: n_def split: if_splits\<close>)
    qed
  qed
qed

section \<open>Scanning a log\<close>

definition log_bytes :: "(byte list \<Rightarrow> 32 word) \<Rightarrow> LogRecord list \<Rightarrow> byte list" where
  "log_bytes crc rs = concat (map (record_wire crc) rs)"

fun scanned :: "64 word \<Rightarrow> nat \<Rightarrow> LogRecord list \<Rightarrow> ScannedRecord list" where
  "scanned segment_id pos [] = []"
| "scanned segment_id pos (r # rs) =
     \<lparr>sr_segment_id = segment_id, sr_offset = pos, sr_kind = lr_kind r, sr_stream_id = lr_stream_id r,
      sr_base_seq = lr_base_seq r, sr_count = lr_count r, sr_body = lr_body r\<rparr> # scanned segment_id (pos + (40 + length (lr_body r))) rs"

lemma log_bytes_simps [simp]: "log_bytes crc [] = []" "log_bytes crc (r # rs) = record_wire crc r @ log_bytes crc rs"
  "log_bytes crc (rs @ rs') = log_bytes crc rs @ log_bytes crc rs'"
  by (simp_all add: log_bytes_def)

definition partial_tail :: "(byte list \<Rightarrow> 32 word) \<Rightarrow> byte list \<Rightarrow> bool" where
  "partial_tail crc tail \<longleftrightarrow> tail = [] \<or> (\<exists>r n. record_fits r \<and> n < length (record_wire crc r) \<and> tail = take n (record_wire crc r))"

lemma scan_loop_skip:
  assumes "\<forall>r\<in>set rs. record_fits r"
  shows "scan_loop crc sid (pre @ log_bytes crc rs @ tail) (length pre) acc =
    scan_loop crc sid (pre @ log_bytes crc rs @ tail) (length pre + length (log_bytes crc rs)) (acc @ scanned sid (length pre) rs)"
  using assms
proof (induction rs arbitrary: pre acc)
  case (Cons r rs)
  let ?buf = "pre @ record_wire crc r @ log_bytes crc rs @ tail" and ?pre = "pre @ record_wire crc r"
  have fits: "record_fits r" using Cons.prems by simp
  have k: "kind_try_from (rh_kind (record_header crc r)) = Inr (lr_kind r)" "rh_stream_id (record_header crc r) = lr_stream_id r"
    "rh_base_seq (record_header crc r) = lr_base_seq r" "rh_count (record_header crc r) = lr_count r"
    by (simp_all add: record_header_def RecordHeader_new_def Let_def)
  have "scan_loop crc sid ?buf (length pre) acc = scan_loop crc sid ?buf (length ?pre)
      (acc @ [\<lparr>sr_segment_id = sid, sr_offset = length pre, sr_kind = lr_kind r, sr_stream_id = lr_stream_id r,
        sr_base_seq = lr_base_seq r, sr_count = lr_count r, sr_body = lr_body r\<rparr>])"
    by (subst scan_loop.simps) (simp add: decode_record_wire [OF fits] k)
  then show ?case using Cons.IH [of ?pre] Cons.prems by (simp add: add.assoc)
qed simp

lemma scan_loop_log:
  assumes rs: "\<forall>r\<in>set rs. record_fits r" and t: "partial_tail crc tail"
  shows "scan_loop crc sid (pre @ log_bytes crc rs @ tail) (length pre) acc =
    Some (Inr \<lparr>ss_records = acc @ scanned sid (length pre) rs, ss_valid_end = length pre + length (log_bytes crc rs),
      ss_truncated_tail = (tail \<noteq> [])\<rparr>)"
proof (cases "tail = []")
  case True
  then show ?thesis by (subst scan_loop_skip [OF rs], subst scan_loop.simps) simp
next
  case False
  then obtain r n where r: "record_fits r" "n < length (record_wire crc r)" "tail = take n (record_wire crc r)" using t by (auto simp: partial_tail_def)
  from decode_record_partial [OF r(1,2)] obtain e where e: "decode_record crc tail = Some (Inl e)" "e = Truncated \<or> e = BodyTooShort"
    unfolding r(3) by blast
  then show ?thesis using False by (subst scan_loop_skip [OF rs], subst scan_loop.simps) auto
qed

lemma scan_segment_log:
  assumes "\<forall>r\<in>set rs. record_fits r" and "partial_tail crc tail"
  shows "scan_segment_bytes crc sid (log_bytes crc rs @ tail) =
    Some (Inr \<lparr>ss_records = scanned sid 0 rs, ss_valid_end = length (log_bytes crc rs), ss_truncated_tail = (tail \<noteq> [])\<rparr>)"
  using scan_loop_log [OF assms, of sid "[]" "[]"] by (simp add: scan_segment_bytes_def)

text \<open>A record that was cut after its magic and then written over: the version field holds the next magic.\<close>

lemma magic_bytes: "to_le_bytes 4 AURUM_RECORD_MAGIC = [0x4D, 0x52, 0x55, 0x41]"
  by code_simp

lemma read_header_torn: "read_header (to_le_bytes 4 AURUM_RECORD_MAGIC @ to_le_bytes 4 AURUM_RECORD_MAGIC @ x) = Some (Inl UnsupportedVersion)"
proof -
  have m: "read_le 4 0 (to_le_bytes 4 AURUM_RECORD_MAGIC @ z) = Some AURUM_RECORD_MAGIC" for z by (simp add: read_le_first)
  have "(read_le 2 4 (to_le_bytes 4 AURUM_RECORD_MAGIC @ to_le_bytes 4 AURUM_RECORD_MAGIC @ x) :: 16 word option) = Some (from_le_bytes [0x4D, 0x52])"
    by (simp add: read_le_skip) (simp add: read_le_Some magic_bytes)
  moreover have "(from_le_bytes [0x4D, 0x52] :: 16 word) \<noteq> RECORD_VERSION_V0" by code_simp
  ultimately show ?thesis by (simp add: read_header_def m)
qed

lemma record_wire_magic: "\<exists>y. record_wire crc r = to_le_bytes 4 AURUM_RECORD_MAGIC @ y"
  by (simp add: record_wire_def write_header_def record_header_def RecordHeader_new_def Let_def)

lemma scan_segment_torn:
  assumes "\<forall>r\<in>set rs. record_fits r"
  shows "scan_segment_bytes crc sid (log_bytes crc rs @ take 4 (record_wire crc r) @ log_bytes crc (r' # rs')) =
    Some (Inl (CorruptRecord (length (log_bytes crc rs))))"
proof -
  let ?torn = "take 4 (record_wire crc r) @ log_bytes crc (r' # rs')" and ?m = "to_le_bytes 4 AURUM_RECORD_MAGIC"
  have t: "take 4 (record_wire crc r) = ?m" using record_wire_magic [of crc r] by auto
  obtain y where y: "record_wire crc r' = ?m @ y" using record_wire_magic by blast
  have "length (?m @ y) \<ge> 40" using record_wire_length [of crc r'] y by simp
  then have l: "36 \<le> length y" by simp
  then have "slice 0 40 ?torn = Some (?m @ ?m @ take 32 (y @ log_bytes crc rs'))" by (simp add: slice_def t y)
  then have "decode_record crc ?torn = Some (Inl UnsupportedVersion)"
    using l read_header_torn [of "take 32 (y @ log_bytes crc rs')"] by (simp add: decode_record_def t y)
  then have "scan_loop crc sid (log_bytes crc rs @ ?torn) (length (log_bytes crc rs)) acc = Some (Inl (CorruptRecord (length (log_bytes crc rs))))" for acc
    using l by (subst scan_loop.simps) (simp add: t y)
  then show ?thesis unfolding scan_segment_bytes_def using scan_loop_skip [OF assms, of crc sid "[]" ?torn "[]"] by simp
qed

text \<open>Any prefix of a log is some whole records and a partial one.\<close>

lemma log_prefix:
  assumes "\<forall>r\<in>set rs. record_fits r"
  obtains j tail where "j \<le> length rs" "take k (log_bytes crc rs) = log_bytes crc (take j rs) @ tail" "partial_tail crc tail"
    "j < length rs \<longrightarrow> k < length (log_bytes crc (take (Suc j) rs))" "j = length rs \<longrightarrow> tail = []"
  using assms
proof (induction rs arbitrary: k thesis)
  case Nil
  then show ?case using Nil(1) [of 0 "[]"] by (simp add: partial_tail_def)
next
  case (Cons r rs)
  show ?case
  proof (cases "k < length (record_wire crc r)")
    case True
    then show ?thesis
      using Cons.prems(1) [of 0 "take k (record_wire crc r)"] Cons.prems(2) by (auto simp: partial_tail_def)
  next
    case False
    obtain j tail where j: "j \<le> length rs" "take (k - length (record_wire crc r)) (log_bytes crc rs) = log_bytes crc (take j rs) @ tail"
      "partial_tail crc tail" "j < length rs \<longrightarrow> k - length (record_wire crc r) < length (log_bytes crc (take (Suc j) rs))"
      "j = length rs \<longrightarrow> tail = []"
      using Cons.IH [of "k - length (record_wire crc r)"] Cons.prems(2) by auto
    show ?thesis
    proof (rule Cons.prems(1))
      show "Suc j \<le> length (r # rs)" "partial_tail crc tail" "Suc j = length (r # rs) \<longrightarrow> tail = []" using j by simp_all
      show "take k (log_bytes crc (r # rs)) = log_bytes crc (take (Suc j) (r # rs)) @ tail" using j(2) False by simp
      show "Suc j < length (r # rs) \<longrightarrow> k < length (log_bytes crc (take (Suc (Suc j)) (r # rs)))"
        using j(4) False by simp linarith
    qed
  qed
qed

lemma scan_loop_total: "\<exists>r. scan_loop crc sid buf pos acc = Some r"
proof (induction crc sid buf pos acc rule: scan_loop.induct)
  case (1 crc sid buf pos acc)
  obtain r where r: "decode_record crc (drop pos buf) = Some r" using decode_record_total [of crc "drop pos buf"] by blast
  show ?case
  proof (cases "pos < length buf \<and> \<not> length buf - pos < unat RECORD_HEADER_LEN")
    case True
    show ?thesis
    proof (cases r)
      case (Inl e)
      then show ?thesis using True r by (subst scan_loop.simps) simp
    next
      case (Inr p)
      obtain h body where p: "p = (h, body)" by (cases p)
      show ?thesis
      proof (cases "kind_try_from (rh_kind h)")
        case (Inl e)
        then show ?thesis using True r Inr p by (subst scan_loop.simps) simp
      next
        case (Inr k)
        from 1 [OF conjunct1 [OF True] conjunct2 [OF True] r] \<open>r = Inr p\<close> p Inr
        have "\<exists>x. scan_loop crc sid buf (pos + (unat RECORD_HEADER_LEN + length body))
            (acc @ [\<lparr>sr_segment_id = sid, sr_offset = pos, sr_kind = k, sr_stream_id = rh_stream_id h,
              sr_base_seq = rh_base_seq h, sr_count = rh_count h, sr_body = body\<rparr>]) = Some x" by blast
        then show ?thesis using True r \<open>r = Inr p\<close> p Inr by (subst scan_loop.simps) simp
      qed
    qed
  next
    case False
    then show ?thesis by (subst scan_loop.simps) auto
  qed
qed

end
