(* ===== verification/Storage_Logs.thy ===== *)
theory Storage_Logs
  imports Storage_Codec Aurum_Types
begin

text \<open>
  The bodies of the three kinds of records the engine writes: payload batches, queue index batches
  and acknowledgement batches (\<open>payload/log.rs\<close>, \<open>queue_index/log.rs\<close> and
  \<open>ack_ledger/log.rs\<close>), with their decoders, and the image that recovery builds from the
  decoded entries (\<open>recovery/image.rs\<close>).
\<close>

section \<open>Errors\<close>

datatype RecoveryError = RecoveryCorruptRecord | QueueMismatch

datatype StorageError = StorageIo | StorageEncode RecordEncodeError | StorageDecode RecordDecodeError | StorageScan SegmentScanError
  | StorageRecovery RecoveryError | StorageFailed | StorageUnsupportedVersion "16 word" | StorageUnknownRecordKind "16 word"

section \<open>Payload batches\<close>

record PayloadRef =
  pr_segment_id :: "64 word"
  pr_offset :: "64 word"
  pr_index :: "32 word"
  pr_len :: "32 word"
  pr_checksum :: "32 word"

definition encode_payload_body :: "byte list list \<Rightarrow> byte list" where
  "encode_payload_body payloads =
     to_le_bytes 4 (of_nat (length payloads) :: 32 word) @
     concat (map (\<lambda>p. to_le_bytes 4 (of_nat (length p) :: 32 word)) payloads) @ concat payloads"

fun decode_lengths :: "nat \<Rightarrow> byte list \<Rightarrow> nat \<Rightarrow> nat list \<Rightarrow> (StorageError + nat list \<times> nat) option" where
  "decode_lengths 0 body pos lengths = Some (Inr (lengths, pos))"
| "decode_lengths (Suc n) body pos lengths =
     (if pos + 4 > length body then Some (Inl (StorageDecode BodyTooShort))
      else do {
        len \<leftarrow> (read_le 4 pos body :: 32 word option);
        decode_lengths n body (pos + 4) (lengths @ [unat len])
      })"

fun find_payload :: "nat list \<Rightarrow> nat \<Rightarrow> nat \<Rightarrow> nat \<Rightarrow> byte list \<Rightarrow> (StorageError + byte list) option" where
  "find_payload [] i index off body = Some (Inl (StorageDecode BodyTooShort))"
| "find_payload (len # lens) i index off body =
     (if i = index then do {
        let stop = off + len;
        p \<leftarrow> slice off stop body;
        Some (Inr p)
      } else find_payload lens (Suc i) index (off + len) body)"

definition decode_payload_at :: "byte list \<Rightarrow> 32 word \<Rightarrow> (StorageError + byte list) option" where
  "decode_payload_at body index =
     (if length body < 4 then Some (Inl (StorageDecode BodyTooShort))
      else do {
        n \<leftarrow> (read_le 4 0 body :: 32 word option);
        (if unat n \<le> unat index then Some (Inl (StorageDecode BodyTooShort))
         else do {
           r \<leftarrow> decode_lengths (unat n) body 4 [];
           (case r of
              Inl e \<Rightarrow> Some (Inl e)
            | Inr (lengths, pos) \<Rightarrow> find_payload lengths 0 (unat index) pos body)
         })
      })"

section \<open>Queue index batches\<close>

record QueueIndexEntry =
  qe_queue_id :: "32 word"
  qe_queue_seq :: "64 word"
  qe_payload_ref :: PayloadRef
  qe_flags :: "16 word"

definition encode_index_entry :: "QueueIndexEntry \<Rightarrow> byte list" where
  "encode_index_entry e =
     to_le_bytes 4 (qe_queue_id e) @ to_le_bytes 8 (qe_queue_seq e) @ to_le_bytes 8 (pr_segment_id (qe_payload_ref e)) @
     to_le_bytes 8 (pr_offset (qe_payload_ref e)) @ to_le_bytes 4 (pr_index (qe_payload_ref e)) @
     to_le_bytes 4 (pr_len (qe_payload_ref e)) @ to_le_bytes 4 (pr_checksum (qe_payload_ref e)) @ to_le_bytes 2 (qe_flags e)"

definition encode_index_body :: "QueueIndexEntry list \<Rightarrow> byte list" where
  "encode_index_body entries = to_le_bytes 4 (of_nat (length entries) :: 32 word) @ concat (map encode_index_entry entries)"

text \<open>\<open>QueueIndexFlags\<close> has no bit, so \<open>from_bits\<close> accepts only 0 and \<open>unwrap_or\<close> gives 0 otherwise.\<close>

definition index_flags_from_bits :: "16 word \<Rightarrow> 16 word option" where
  "index_flags_from_bits v = (if v = 0 then Some 0 else None)"

definition entry_size :: nat where
  "entry_size = 4 + 8 + 8 + 8 + 4 + 4 + 4 + 2"

fun decode_index_loop :: "nat \<Rightarrow> byte list \<Rightarrow> nat \<Rightarrow> QueueIndexEntry list \<Rightarrow> QueueIndexEntry list option" where
  "decode_index_loop 0 body pos out = Some out"
| "decode_index_loop (Suc n) body pos out =
     (if pos + entry_size > length body then Some out
      else do {
        queue_id \<leftarrow> read_le 4 pos body;
        queue_seq \<leftarrow> read_le 8 (pos + 4) body;
        segment_id \<leftarrow> read_le 8 (pos + 12) body;
        offset \<leftarrow> read_le 8 (pos + 20) body;
        index \<leftarrow> read_le 4 (pos + 28) body;
        len \<leftarrow> read_le 4 (pos + 32) body;
        checksum \<leftarrow> read_le 4 (pos + 36) body;
        flags_raw \<leftarrow> read_le 2 (pos + 40) body;
        decode_index_loop n body (pos + 42) (out @
          [\<lparr>qe_queue_id = queue_id, qe_queue_seq = queue_seq,
            qe_payload_ref = \<lparr>pr_segment_id = segment_id, pr_offset = offset, pr_index = index, pr_len = len, pr_checksum = checksum\<rparr>,
            qe_flags = (case index_flags_from_bits flags_raw of Some f \<Rightarrow> f | None \<Rightarrow> 0)\<rparr>])
      })"

definition decode_index_body :: "byte list \<Rightarrow> (StorageError + QueueIndexEntry list) option" where
  "decode_index_body body =
     (if length body < 4 then Some (Inr [])
      else do {
        n \<leftarrow> (read_le 4 0 body :: 32 word option);
        out \<leftarrow> decode_index_loop (unat n) body 4 [];
        Some (Inr out)
      })"

section \<open>Acknowledgement batches\<close>

datatype AckLedgerEventKind = EventAckRange | EventAckMask | EventNackRequeue | EventDeadLetter

definition event_kind_as_u8 :: "AckLedgerEventKind \<Rightarrow> byte" where
  "event_kind_as_u8 k = (case k of EventAckRange \<Rightarrow> 1 | EventAckMask \<Rightarrow> 2 | EventNackRequeue \<Rightarrow> 3 | EventDeadLetter \<Rightarrow> 4)"

datatype AckLedgerEntry =
    LedgerAckRange (le_queue_id: "32 word") (le_start: "64 word") (le_len: "32 word")
  | LedgerAckMask (le_queue_id: "32 word") (le_start: "64 word") (le_word_index: byte) (le_mask: "64 word")
  | LedgerNackRequeue (le_queue_id: "32 word") (le_start: "64 word") (le_len: "32 word")
  | LedgerDeadLetter (le_queue_id: "32 word") (le_start: "64 word") (le_len: "32 word")

fun encode_ack_entry :: "AckLedgerEntry \<Rightarrow> byte list" where
  "encode_ack_entry (LedgerAckRange q start len) =
     event_kind_as_u8 EventAckRange # to_le_bytes 4 q @ to_le_bytes 8 start @ to_le_bytes 4 len"
| "encode_ack_entry (LedgerAckMask q block_base word_index msk) =
     event_kind_as_u8 EventAckMask # to_le_bytes 4 q @ to_le_bytes 8 block_base @ word_index # to_le_bytes 8 msk"
| "encode_ack_entry (LedgerNackRequeue q start len) =
     event_kind_as_u8 EventNackRequeue # to_le_bytes 4 q @ to_le_bytes 8 start @ to_le_bytes 4 len"
| "encode_ack_entry (LedgerDeadLetter q start len) =
     event_kind_as_u8 EventDeadLetter # to_le_bytes 4 q @ to_le_bytes 8 start @ to_le_bytes 4 len"

definition encode_ack_body :: "AckLedgerEntry list \<Rightarrow> byte list" where
  "encode_ack_body entries = to_le_bytes 4 (of_nat (length entries) :: 32 word) @ concat (map encode_ack_entry entries)"

text \<open>The three events with a range share the code that reads them.\<close>

definition read_ledger_range :: "(32 word \<Rightarrow> 64 word \<Rightarrow> 32 word \<Rightarrow> AckLedgerEntry) \<Rightarrow> byte list \<Rightarrow> nat \<Rightarrow> AckLedgerEntry option" where
  "read_ledger_range C body pos = do {
     q \<leftarrow> read_le 4 pos body;
     start \<leftarrow> read_le 8 (pos + 4) body;
     len \<leftarrow> read_le 4 (pos + 12) body;
     Some (C q start len)
   }"

fun decode_ack_loop :: "nat \<Rightarrow> byte list \<Rightarrow> nat \<Rightarrow> AckLedgerEntry list \<Rightarrow> AckLedgerEntry list option" where
  "decode_ack_loop 0 body pos out = Some out"
| "decode_ack_loop (Suc n) body pos out =
     (if pos \<ge> length body then Some out
      else do {
        kind \<leftarrow> idx body pos;
        let pos = pos + 1;
        (if kind = event_kind_as_u8 EventAckRange then
           (if pos + 16 > length body then Some out
            else do { e \<leftarrow> read_ledger_range LedgerAckRange body pos; decode_ack_loop n body (pos + 16) (out @ [e]) })
         else if kind = event_kind_as_u8 EventAckMask then
           (if pos + 21 > length body then Some out
            else do {
              q \<leftarrow> read_le 4 pos body;
              block_base \<leftarrow> read_le 8 (pos + 4) body;
              word_index \<leftarrow> idx body (pos + 12);
              msk \<leftarrow> read_le 8 (pos + 13) body;
              decode_ack_loop n body (pos + 21) (out @ [LedgerAckMask q block_base word_index msk])
            })
         else if kind = event_kind_as_u8 EventNackRequeue then
           (if pos + 16 > length body then Some out
            else do { e \<leftarrow> read_ledger_range LedgerNackRequeue body pos; decode_ack_loop n body (pos + 16) (out @ [e]) })
         else if kind = event_kind_as_u8 EventDeadLetter then
           (if pos + 16 > length body then Some out
            else do { e \<leftarrow> read_ledger_range LedgerDeadLetter body pos; decode_ack_loop n body (pos + 16) (out @ [e]) })
         else decode_ack_loop n body pos out)
      })"

definition decode_ack_body :: "byte list \<Rightarrow> (StorageError + AckLedgerEntry list) option" where
  "decode_ack_body body =
     (if length body < 4 then Some (Inr [])
      else do {
        n \<leftarrow> (read_le 4 0 body :: 32 word option);
        out \<leftarrow> decode_ack_loop (unat n) body 4 [];
        Some (Inr out)
      })"

section \<open>The recovered image\<close>

record RecoveredMessage =
  rm_queue_seq :: nat
  rm_payload_ref :: PayloadRef

record RecoveredQueueImage =
  ri_queue_id :: "32 word"
  ri_next_seq :: nat
  ri_ready :: "RecoveredMessage list"

text \<open>A \<open>BTreeMap\<close> as its entries in ascending order of the keys.\<close>

fun btree_insert :: "nat \<Rightarrow> 'v \<Rightarrow> (nat \<times> 'v) list \<Rightarrow> (nat \<times> 'v) list" where
  "btree_insert k v [] = [(k, v)]"
| "btree_insert k v ((k', v') # xs) =
     (if k < k' then (k, v) # (k', v') # xs else if k = k' then (k, v) # xs else (k', v') # btree_insert k v xs)"

fun index_by_seq :: "32 word \<Rightarrow> QueueIndexEntry list \<Rightarrow> (nat \<times> PayloadRef) list \<Rightarrow> (nat \<times> PayloadRef) list" where
  "index_by_seq q [] m = m"
| "index_by_seq q (e # es) m =
     index_by_seq q es (if qe_queue_id e = q then btree_insert (unat (qe_queue_seq e)) (qe_payload_ref e) m else m)"

fun insert_offsets :: "nat \<Rightarrow> nat list \<Rightarrow> nat set \<Rightarrow> nat set option" where
  "insert_offsets start [] S = Some S"
| "insert_offsets start (i # is) S = do { x \<leftarrow> add_u64 start i; insert_offsets start is (insert x S) }"

fun settle_entry :: "32 word \<Rightarrow> AckLedgerEntry \<Rightarrow> nat set \<Rightarrow> nat set option" where
  "settle_entry queue_id (LedgerAckRange q start len) S =
     (if q \<noteq> queue_id then Some S else insert_offsets (unat start) [0..<unat len] S)"
| "settle_entry queue_id (LedgerDeadLetter q start len) S =
     (if q \<noteq> queue_id then Some S else insert_offsets (unat start) [0..<unat len] S)"
| "settle_entry queue_id (LedgerNackRequeue q start len) S = Some S"
| "settle_entry queue_id (LedgerAckMask q block_base word_index msk) S =
     (if q \<noteq> queue_id then Some S else insert_offsets (unat block_base) (filter (bit msk) [0..<64]) S)"

fun settled_seqs_of :: "32 word \<Rightarrow> AckLedgerEntry list \<Rightarrow> nat set \<Rightarrow> nat set option" where
  "settled_seqs_of q [] S = Some S"
| "settled_seqs_of q (e # es) S = do { S \<leftarrow> settle_entry q e S; settled_seqs_of q es S }"

definition build_image :: "32 word \<Rightarrow> QueueIndexEntry list \<Rightarrow> AckLedgerEntry list \<Rightarrow> RecoveredQueueImage option" where
  "build_image queue_id indexed acked = do {
     let by_seq = index_by_seq queue_id indexed [];
     settled \<leftarrow> settled_seqs_of queue_id acked {};
     next_seq \<leftarrow> (if by_seq = [] then Some 0 else add_u64 (fst (last by_seq)) 1);
     let ready = map (\<lambda>(seq, r). \<lparr>rm_queue_seq = seq, rm_payload_ref = r\<rparr>) (filter (\<lambda>(seq, _). seq \<notin> settled) by_seq);
     Some \<lparr>ri_queue_id = queue_id, ri_next_seq = next_seq, ri_ready = ready\<rparr>
   }"

section \<open>Payloads round trip\<close>

lemma decode_lengths_ok:
  assumes "\<forall>p\<in>set ps. length p < 2 ^ 32"
  shows "decode_lengths (length ps) (pre @ concat (map (\<lambda>p. to_le_bytes 4 (of_nat (length p) :: 32 word)) ps) @ post) (length pre) acc =
    Some (Inr (acc @ map length ps, length pre + 4 * length ps))"
  using assms
proof (induction ps arbitrary: pre acc)
  case (Cons p ps)
  let ?w = "of_nat (length p) :: 32 word"
  let ?rest = "concat (map (\<lambda>p. to_le_bytes 4 (of_nat (length p) :: 32 word)) ps) @ post"
  have w: "unat ?w = length p" using Cons.prems by (simp add: unat_of_nat take_bit_nat_eq_self)
  have "read_le 4 (length pre) (pre @ to_le_bytes 4 ?w @ ?rest) = Some ?w"
    unfolding read_le_append0 by (simp add: read_le_first)
  then show ?case
    using Cons.IH [of "pre @ to_le_bytes 4 ?w" "acc @ [length p]"] Cons.prems by (simp add: w)
qed simp

lemma find_payload_ok:
  assumes "k < length ps"
  shows "find_payload (map length ps) i (i + k) (length pre) (pre @ concat ps) = Some (Inr (ps ! k))"
  using assms
proof (induction ps arbitrary: pre i k)
  case (Cons p ps)
  show ?case
  proof (cases k)
    case 0
    then show ?thesis by (simp add: slice_def)
  next
    case (Suc k')
    then show ?thesis using Cons.IH [of k' "Suc i" "pre @ p"] Cons.prems by simp
  qed
qed simp

lemma payload_body_round_trip:
  assumes n: "length ps < 2 ^ 32" and l: "\<forall>p\<in>set ps. length p < 2 ^ 32" and k: "k < length ps"
  shows "decode_payload_at (encode_payload_body ps) (of_nat k) = Some (Inr (ps ! k))"
proof -
  let ?n = "of_nat (length ps) :: 32 word" and ?ls = "concat (map (\<lambda>p. to_le_bytes 4 (of_nat (length p) :: 32 word)) ps)"
  have u: "unat ?n = length ps" "unat (of_nat k :: 32 word) = k" using n k by (simp_all add: unat_of_nat take_bit_nat_eq_self)
  have ll: "length ?ls = 4 * length ps" by (induction ps) simp_all
  have "decode_lengths (length ps) (to_le_bytes 4 ?n @ ?ls @ concat ps) 4 [] = Some (Inr (map length ps, 4 + 4 * length ps))"
    using decode_lengths_ok [OF l, of "to_le_bytes 4 ?n" "concat ps" "[]"] by simp
  moreover have "find_payload (map length ps) 0 k (4 + 4 * length ps) (to_le_bytes 4 ?n @ ?ls @ concat ps) = Some (Inr (ps ! k))"
    using find_payload_ok [OF k, of 0 "to_le_bytes 4 ?n @ ?ls"] by (simp add: ll)
  ultimately show ?thesis using k by (simp add: decode_payload_at_def encode_payload_body_def read_le_first u)
qed

section \<open>Index entries round trip\<close>

lemma encode_index_entry_length [simp]: "length (encode_index_entry e) = 42"
  by (simp add: encode_index_entry_def)

lemma decode_index_loop_ok:
  assumes "\<forall>e\<in>set es. qe_flags e = 0"
  shows "decode_index_loop (length es) (pre @ concat (map encode_index_entry es) @ post) (length pre) acc = Some (acc @ es)"
  using assms
proof (induction es arbitrary: pre acc)
  case (Cons e es)
  let ?body = "pre @ encode_index_entry e @ concat (map encode_index_entry es) @ post"
  have fields: "read_le 4 (length pre) ?body = Some (qe_queue_id e)" "read_le 8 (length pre + 4) ?body = Some (qe_queue_seq e)"
    "read_le 8 (length pre + 12) ?body = Some (pr_segment_id (qe_payload_ref e))" "read_le 8 (length pre + 20) ?body = Some (pr_offset (qe_payload_ref e))"
    "read_le 4 (length pre + 28) ?body = Some (pr_index (qe_payload_ref e))" "read_le 4 (length pre + 32) ?body = Some (pr_len (qe_payload_ref e))"
    "read_le 4 (length pre + 36) ?body = Some (pr_checksum (qe_payload_ref e))" "read_le 2 (length pre + 40) ?body = Some (qe_flags e)"
    unfolding read_le_append read_le_append0 by (simp_all add: encode_index_entry_def read_le_skip read_le_first)
  have eta: "\<lparr>qe_queue_id = qe_queue_id e, qe_queue_seq = qe_queue_seq e, qe_payload_ref = \<lparr>pr_segment_id = pr_segment_id (qe_payload_ref e),
      pr_offset = pr_offset (qe_payload_ref e), pr_index = pr_index (qe_payload_ref e), pr_len = pr_len (qe_payload_ref e),
      pr_checksum = pr_checksum (qe_payload_ref e)\<rparr>, qe_flags = 0\<rparr> = e"
    using Cons.prems by (intro QueueIndexEntry.equality PayloadRef.equality) simp_all
  show ?case
    using Cons.IH [of "pre @ encode_index_entry e" "acc @ [e]"] Cons.prems
    by (simp add: fields eta entry_size_def index_flags_from_bits_def)
qed simp

lemma index_body_round_trip:
  assumes "length es < 2 ^ 32" and "\<forall>e\<in>set es. qe_flags e = 0"
  shows "decode_index_body (encode_index_body es) = Some (Inr es)"
proof -
  have u: "unat (of_nat (length es) :: 32 word) = length es" using assms(1) by (simp add: unat_of_nat take_bit_nat_eq_self)
  show ?thesis
    using decode_index_loop_ok [OF assms(2), of "to_le_bytes 4 (of_nat (length es) :: 32 word)" "[]" "[]"]
    by (simp add: decode_index_body_def encode_index_body_def read_le_first u)
qed

section \<open>Acknowledgements round trip\<close>

lemma ledger_range_ok:
  "read_ledger_range C (pre @ to_le_bytes 4 q @ to_le_bytes 8 start @ to_le_bytes 4 len @ post) (length pre) = Some (C q start len)"
  unfolding read_ledger_range_def read_le_append read_le_append0 by (simp add: read_le_skip read_le_first)

lemma event_kind_distinct [simp]: "event_kind_as_u8 k = event_kind_as_u8 k' \<longleftrightarrow> k = k'"
  by (cases k; cases k') (simp_all add: event_kind_as_u8_def)

lemma decode_ack_loop_range:
  assumes k: "(k, C) \<in> {(EventAckRange, LedgerAckRange), (EventNackRequeue, LedgerNackRequeue), (EventDeadLetter, LedgerDeadLetter)}"
  shows "decode_ack_loop (Suc n) (pre @ (event_kind_as_u8 k # to_le_bytes 4 q @ to_le_bytes 8 start @ to_le_bytes 4 len) @ post) (length pre) acc =
    decode_ack_loop n (pre @ (event_kind_as_u8 k # to_le_bytes 4 q @ to_le_bytes 8 start @ to_le_bytes 4 len) @ post) (length pre + 17) (acc @ [C q start len])"
proof -
  have r: "read_ledger_range D (pre @ kb # to_le_bytes 4 q @ to_le_bytes 8 start @ to_le_bytes 4 len @ post) (Suc (length pre)) =
      Some (D q start len)" for D kb
    using ledger_range_ok [of D "pre @ [kb]"] by simp
  have i: "idx (pre @ kb # to_le_bytes 4 q @ to_le_bytes 8 start @ to_le_bytes 4 len @ post) (length pre) = Some kb" for kb
    by (simp add: idx_def)
  show ?thesis using k by (auto simp: r i Let_def add.commute)
qed

lemma decode_ack_loop_mask:
  "decode_ack_loop (Suc n) (pre @ encode_ack_entry (LedgerAckMask q b w m) @ post) (length pre) acc =
    decode_ack_loop n (pre @ encode_ack_entry (LedgerAckMask q b w m) @ post) (length pre + 22) (acc @ [LedgerAckMask q b w m])"
proof -
  let ?k = "event_kind_as_u8 EventAckMask"
  let ?body = "pre @ ?k # to_le_bytes 4 q @ to_le_bytes 8 b @ w # to_le_bytes 8 m @ post"
  have a: "read_le j (Suc (length pre) + p) ?body = read_le j p (to_le_bytes 4 q @ to_le_bytes 8 b @ w # to_le_bytes 8 m @ post)" for j p
    using read_le_append [of j "pre @ [?k]" p] by simp
  have a0: "read_le j (Suc (length pre)) ?body = read_le j 0 (to_le_bytes 4 q @ to_le_bytes 8 b @ w # to_le_bytes 8 m @ post)" for j
    using read_le_append [of j "pre @ [?k]" 0] by simp
  have i: "idx ?body (length pre) = Some ?k" by (simp add: idx_def)
  have i': "idx ?body (Suc (length pre) + 12) = Some w" by (simp add: idx_def nth_append)
  have f: "read_le 4 (Suc (length pre)) ?body = Some q" "read_le 8 (Suc (length pre) + 4) ?body = Some b"
    "read_le 8 (Suc (length pre) + 13) ?body = Some m"
    unfolding a a0 by (simp_all add: read_le_skip read_le_first read_le_Cons)
  show ?thesis using i i' f by (simp add: Let_def add.commute)
qed

lemma decode_ack_loop_ok:
  "decode_ack_loop (length es) (pre @ concat (map encode_ack_entry es) @ post) (length pre) acc = Some (acc @ es)"
proof (induction es arbitrary: pre acc)
  case (Cons e es)
  note IH = Cons.IH [of "pre @ encode_ack_entry e" "acc @ [e]"]
  let ?rest = "concat (map encode_ack_entry es) @ post"
  show ?case
  proof (cases e)
    case (LedgerAckRange q s l)
    show ?thesis using decode_ack_loop_range [of EventAckRange LedgerAckRange "length es" pre q s l ?rest acc] IH by (simp add: LedgerAckRange del: decode_ack_loop.simps)
  next
    case (LedgerNackRequeue q s l)
    show ?thesis using decode_ack_loop_range [of EventNackRequeue LedgerNackRequeue "length es" pre q s l ?rest acc] IH by (simp add: LedgerNackRequeue del: decode_ack_loop.simps)
  next
    case (LedgerDeadLetter q s l)
    show ?thesis using decode_ack_loop_range [of EventDeadLetter LedgerDeadLetter "length es" pre q s l ?rest acc] IH by (simp add: LedgerDeadLetter del: decode_ack_loop.simps)
  next
    case (LedgerAckMask q b w m)
    show ?thesis using decode_ack_loop_mask [of "length es" pre q b w m ?rest acc] IH by (simp add: LedgerAckMask del: decode_ack_loop.simps)
  qed
qed simp

lemma ack_body_round_trip:
  assumes "length es < 2 ^ 32"
  shows "decode_ack_body (encode_ack_body es) = Some (Inr es)"
proof -
  have u: "unat (of_nat (length es) :: 32 word) = length es" using assms(1) by (simp add: unat_of_nat take_bit_nat_eq_self)
  show ?thesis
    using decode_ack_loop_ok [of es "to_le_bytes 4 (of_nat (length es) :: 32 word)" "[]" "[]"]
    by (simp add: decode_ack_body_def encode_ack_body_def read_le_first u)
qed

end
