(* ===== verification/Storage_Engine.thy ===== *)
theory Storage_Engine
  imports Storage_Logs
begin

text \<open>
  The append-only storage engine over a disk: \<open>io/std_file.rs\<close>, \<open>segment/mod.rs\<close>,
  the three logs, \<open>engine.rs\<close> and \<open>recovery/image.rs\<close>. The disk maps the paths
  that \<open>segment_path\<close> builds to the contents of the files. Opening a file creates it, as
  \<open>OpenOptions\<close> is told to; a read past the end is the I/O error of \<open>read_exact\<close>. Other
  errors of the operating system, flushing and syncing do not change the modelled state.
\<close>

section \<open>Files\<close>

datatype storage_dir = PayloadDir | QueueDir "32 word"

type_synonym path = "storage_dir \<times> string \<times> 64 word"
type_synonym disk = "path \<Rightarrow> byte list option"

definition segment_path :: "storage_dir \<Rightarrow> string \<Rightarrow> 64 word \<Rightarrow> path" where
  "segment_path dir prefix segment_id = (dir, prefix, segment_id)"

record StdFileBackend =
  fb_path :: path
  fb_len :: nat

definition file_bytes :: "disk \<Rightarrow> path \<Rightarrow> byte list" where
  "file_bytes d p = (case d p of None \<Rightarrow> [] | Some bs \<Rightarrow> bs)"

definition backend_open :: "path \<Rightarrow> disk \<Rightarrow> StdFileBackend \<times> disk" where
  "backend_open p d = (\<lparr>fb_path = p, fb_len = length (file_bytes d p)\<rparr>, d(p \<mapsto> file_bytes d p))"

definition backend_append :: "StdFileBackend \<Rightarrow> byte list \<Rightarrow> disk \<Rightarrow> (nat \<times> StdFileBackend \<times> disk) option" where
  "backend_append b bytes d = do {
     let offset = fb_len b;
     let d = d(fb_path b \<mapsto> file_bytes d (fb_path b) @ bytes);
     l \<leftarrow> add_u64 (fb_len b) (length bytes);
     Some (offset, b\<lparr>fb_len := l\<rparr>, d)
   }"

definition backend_read_at :: "StdFileBackend \<Rightarrow> nat \<Rightarrow> nat \<Rightarrow> disk \<Rightarrow> StorageError + byte list" where
  "backend_read_at b offset len d =
     (let bs = file_bytes d (fb_path b) in
      if len = 0 \<or> offset + len \<le> length bs then Inr (take len (drop offset bs)) else Inl StorageIo)"

definition backend_truncate :: "StdFileBackend \<Rightarrow> nat \<Rightarrow> disk \<Rightarrow> StdFileBackend \<times> disk" where
  "backend_truncate b new_len d =
     (let bs = file_bytes d (fb_path b) in
      (b\<lparr>fb_len := new_len\<rparr>, d(fb_path b \<mapsto> take new_len bs @ replicate (new_len - length bs) 0)))"

section \<open>Segments\<close>

record SegmentWriter =
  wr_backend :: StdFileBackend
  wr_segment_id :: "64 word"

definition writer_create :: "path \<Rightarrow> 64 word \<Rightarrow> disk \<Rightarrow> SegmentWriter \<times> disk" where
  "writer_create p segment_id d =
     (let (b, d) = backend_open p d in (\<lparr>wr_backend = b, wr_segment_id = segment_id\<rparr>, d))"

definition append_record ::
  "(byte list \<Rightarrow> 32 word) \<Rightarrow> SegmentWriter \<Rightarrow> RecordKind \<Rightarrow> 64 word \<Rightarrow> 64 word \<Rightarrow> 32 word \<Rightarrow> byte list \<Rightarrow> disk \<Rightarrow>
   ((StorageError + nat) \<times> SegmentWriter \<times> disk) option" where
  "append_record crc32c w kind stream_id base_seq n body d =
     (case encode_record crc32c kind stream_id base_seq n body of
        Inl e \<Rightarrow> Some (Inl (StorageEncode e), w, d)
      | Inr wire \<Rightarrow> do {
          (off, b, d) \<leftarrow> backend_append (wr_backend w) wire d;
          Some (Inr off, w\<lparr>wr_backend := b\<rparr>, d)
        })"

definition writer_truncate_to :: "SegmentWriter \<Rightarrow> nat \<Rightarrow> disk \<Rightarrow> SegmentWriter \<times> disk" where
  "writer_truncate_to w offset d =
     (let (b, d) = backend_truncate (wr_backend w) offset d in (w\<lparr>wr_backend := b\<rparr>, d))"

record SegmentReader =
  sgr_backend :: StdFileBackend
  sgr_segment_id :: "64 word"

definition reader_open :: "path \<Rightarrow> 64 word \<Rightarrow> disk \<Rightarrow> SegmentReader \<times> disk" where
  "reader_open p segment_id d =
     (let (b, d) = backend_open p d in (\<lparr>sgr_backend = b, sgr_segment_id = segment_id\<rparr>, d))"

definition reader_scan :: "(byte list \<Rightarrow> 32 word) \<Rightarrow> SegmentReader \<Rightarrow> disk \<Rightarrow> (SegmentScanError + SegmentScanResult) option" where
  "reader_scan crc32c r d =
     (let len = fb_len (sgr_backend r) in
      case (if len > 0 then backend_read_at (sgr_backend r) 0 len d else Inr []) of
        Inl _ \<Rightarrow> Some (Inl TruncatedTail)
      | Inr buf \<Rightarrow> scan_segment_bytes crc32c (sgr_segment_id r) buf)"

definition read_record_at ::
  "(byte list \<Rightarrow> 32 word) \<Rightarrow> SegmentReader \<Rightarrow> 64 word \<Rightarrow> disk \<Rightarrow> (StorageError + RecordHeader \<times> byte list) option" where
  "read_record_at crc32c r offset d = do {
     n \<leftarrow> sub_uint (fb_len (sgr_backend r)) (unat offset);
     (case backend_read_at (sgr_backend r) (unat offset) n d of
        Inl e \<Rightarrow> Some (Inl e)
      | Inr tail \<Rightarrow> do {
          x \<leftarrow> decode_record crc32c tail;
          Some (case x of Inl e \<Rightarrow> Inl (StorageDecode e) | Inr hb \<Rightarrow> Inr hb)
        })
   }"

section \<open>Payload log\<close>

datatype DurabilityMode = Buffered | FsyncOnFlush

definition stream_payload_log :: "64 word" where
  "stream_payload_log = 1"

definition stream_queue_index :: "32 word \<Rightarrow> 64 word" where
  "stream_queue_index q = ucast q OR push_bit 32 1"

definition stream_ack_ledger :: "32 word \<Rightarrow> 64 word" where
  "stream_ack_ledger q = ucast q OR push_bit 32 2"

record PayloadLog =
  pl_dir :: storage_dir
  pl_segment_id :: "64 word"
  pl_writer :: SegmentWriter
  pl_durability :: DurabilityMode

definition payload_log_open :: "storage_dir \<Rightarrow> DurabilityMode \<Rightarrow> disk \<Rightarrow> PayloadLog \<times> disk" where
  "payload_log_open dir durability d =
     (let (w, d) = writer_create (segment_path dir ''payload'' 1) 1 d
      in (\<lparr>pl_dir = dir, pl_segment_id = 1, pl_writer = w, pl_durability = durability\<rparr>, d))"

definition append_batch ::
  "(byte list \<Rightarrow> 32 word) \<Rightarrow> PayloadLog \<Rightarrow> byte list list \<Rightarrow> disk \<Rightarrow> ((StorageError + PayloadRef list) \<times> PayloadLog \<times> disk) option" where
  "append_batch crc32c l payloads d = do {
     let body = encode_payload_body payloads;
     let lengths = map (\<lambda>p. of_nat (length p) :: 32 word) payloads;
     (r, w, d) \<leftarrow> append_record crc32c (pl_writer l) PayloadBatchKind stream_payload_log 0 (of_nat (length payloads)) body d;
     let l = l\<lparr>pl_writer := w\<rparr>;
     (case r of
        Inl e \<Rightarrow> Some (Inl e, l, d)
      | Inr offset \<Rightarrow> do {
          let refs = map (\<lambda>(i, len). \<lparr>pr_segment_id = pl_segment_id l, pr_offset = of_nat offset, pr_index = of_nat i, pr_len = len,
            pr_checksum = 0\<rparr>) (enumerate 0 lengths);
          _ \<leftarrow> sum_u32 (map unat lengths);
          Some (Inr refs, l, d)
        })
   }"

definition read_payload :: "(byte list \<Rightarrow> 32 word) \<Rightarrow> PayloadLog \<Rightarrow> PayloadRef \<Rightarrow> disk \<Rightarrow> ((StorageError + byte list) \<times> disk) option" where
  "read_payload crc32c l r d = do {
     let (reader, d) = reader_open (segment_path (pl_dir l) ''payload'' (pr_segment_id r)) (pr_segment_id r) d;
     x \<leftarrow> read_record_at crc32c reader (pr_offset r) d;
     (case x of
        Inl e \<Rightarrow> Some (Inl e, d)
      | Inr (_, body) \<Rightarrow> do { p \<leftarrow> decode_payload_at body (pr_index r); Some (p, d) })
   }"

section \<open>Queue index log\<close>

record QueueIndexLog =
  qil_queue_id :: "32 word"
  qil_dir :: storage_dir
  qil_segment_id :: "64 word"
  qil_writer :: SegmentWriter
  qil_durability :: DurabilityMode

definition index_log_open :: "32 word \<Rightarrow> DurabilityMode \<Rightarrow> disk \<Rightarrow> QueueIndexLog \<times> disk" where
  "index_log_open q durability d =
     (let (w, d) = writer_create (segment_path (QueueDir q) ''index'' 1) 1 d
      in (\<lparr>qil_queue_id = q, qil_dir = QueueDir q, qil_segment_id = 1, qil_writer = w, qil_durability = durability\<rparr>, d))"

definition index_append_entries ::
  "(byte list \<Rightarrow> 32 word) \<Rightarrow> QueueIndexLog \<Rightarrow> QueueIndexEntry list \<Rightarrow> disk \<Rightarrow> ((StorageError + unit) \<times> QueueIndexLog \<times> disk) option" where
  "index_append_entries crc32c l entries d = do {
     let body = encode_index_body entries;
     let base_seq = (case entries of [] \<Rightarrow> 0 | e # _ \<Rightarrow> qe_queue_seq e);
     (r, w, d) \<leftarrow> append_record crc32c (qil_writer l) QueueIndexBatch (stream_queue_index (qil_queue_id l)) base_seq
       (of_nat (length entries)) body d;
     Some (map_sum id (\<lambda>_. ()) r, l\<lparr>qil_writer := w\<rparr>, d)
   }"

fun decode_records :: "(byte list \<Rightarrow> (StorageError + 'a list) option) \<Rightarrow> RecordKind \<Rightarrow> ScannedRecord list \<Rightarrow> 'a list \<Rightarrow> (StorageError + 'a list) option" where
  "decode_records dec kind [] out = Some (Inr out)"
| "decode_records dec kind (r # rs) out =
     (if sr_kind r \<noteq> kind then decode_records dec kind rs out
      else do {
        x \<leftarrow> dec (sr_body r);
        (case x of Inl e \<Rightarrow> Some (Inl e) | Inr es \<Rightarrow> decode_records dec kind rs (out @ es))
      })"

definition index_scan_entries :: "(byte list \<Rightarrow> 32 word) \<Rightarrow> QueueIndexLog \<Rightarrow> disk \<Rightarrow> ((StorageError + QueueIndexEntry list) \<times> disk) option" where
  "index_scan_entries crc32c l d = do {
     let (reader, d) = reader_open (segment_path (qil_dir l) ''index'' (qil_segment_id l)) (qil_segment_id l) d;
     s \<leftarrow> reader_scan crc32c reader d;
     (case s of
        Inl e \<Rightarrow> Some (Inl (StorageScan e), d)
      | Inr scan \<Rightarrow> do { x \<leftarrow> decode_records decode_index_body QueueIndexBatch (ss_records scan) []; Some (x, d) })
   }"

section \<open>Acknowledgement log\<close>

record AckLedgerLog =
  all_queue_id :: "32 word"
  all_dir :: storage_dir
  all_segment_id :: "64 word"
  all_writer :: SegmentWriter
  all_durability :: DurabilityMode

definition ack_log_open :: "32 word \<Rightarrow> DurabilityMode \<Rightarrow> disk \<Rightarrow> AckLedgerLog \<times> disk" where
  "ack_log_open q durability d =
     (let (w, d) = writer_create (segment_path (QueueDir q) ''ack'' 1) 1 d
      in (\<lparr>all_queue_id = q, all_dir = QueueDir q, all_segment_id = 1, all_writer = w, all_durability = durability\<rparr>, d))"

definition ack_append_entries ::
  "(byte list \<Rightarrow> 32 word) \<Rightarrow> AckLedgerLog \<Rightarrow> AckLedgerEntry list \<Rightarrow> disk \<Rightarrow> ((StorageError + unit) \<times> AckLedgerLog \<times> disk) option" where
  "ack_append_entries crc32c l entries d = do {
     let body = encode_ack_body entries;
     let base = (case entries of [] \<Rightarrow> 0 | e # _ \<Rightarrow> le_start e);
     (r, w, d) \<leftarrow> append_record crc32c (all_writer l) AckLedgerBatch (stream_ack_ledger (all_queue_id l)) base
       (of_nat (length entries)) body d;
     Some (map_sum id (\<lambda>_. ()) r, l\<lparr>all_writer := w\<rparr>, d)
   }"

definition ack_scan_entries :: "(byte list \<Rightarrow> 32 word) \<Rightarrow> AckLedgerLog \<Rightarrow> disk \<Rightarrow> ((StorageError + AckLedgerEntry list) \<times> disk) option" where
  "ack_scan_entries crc32c l d = do {
     let (reader, d) = reader_open (segment_path (all_dir l) ''ack'' (all_segment_id l)) (all_segment_id l) d;
     s \<leftarrow> reader_scan crc32c reader d;
     (case s of
        Inl e \<Rightarrow> Some (Inl (StorageScan e), d)
      | Inr scan \<Rightarrow> do { x \<leftarrow> decode_records decode_ack_body AckLedgerBatch (ss_records scan) []; Some (x, d) })
   }"

section \<open>Recovery\<close>

definition recover_queue :: "(byte list \<Rightarrow> 32 word) \<Rightarrow> 32 word \<Rightarrow> disk \<Rightarrow> ((StorageError + RecoveredQueueImage) \<times> disk) option" where
  "recover_queue crc32c q d = do {
     let (index_log, d) = index_log_open q Buffered d;
     let (ack_log, d) = ack_log_open q Buffered d;
     (r, d) \<leftarrow> index_scan_entries crc32c index_log d;
     (case r of
        Inl e \<Rightarrow> Some (Inl e, d)
      | Inr indexed \<Rightarrow> do {
          (r, d) \<leftarrow> ack_scan_entries crc32c ack_log d;
          (case r of
             Inl e \<Rightarrow> Some (Inl e, d)
           | Inr acked \<Rightarrow> do { image \<leftarrow> build_image q indexed acked; Some (Inr image, d) })
        })
   }"

section \<open>Engine\<close>

record AppendOnlyStorageEngine =
  se_durability :: DurabilityMode
  se_payload_log :: PayloadLog
  se_index_logs :: "32 word \<Rightarrow> QueueIndexLog option"
  se_ack_logs :: "32 word \<Rightarrow> AckLedgerLog option"

definition engine_open :: "DurabilityMode \<Rightarrow> disk \<Rightarrow> AppendOnlyStorageEngine \<times> disk" where
  "engine_open durability d =
     (let (l, d) = payload_log_open PayloadDir durability d
      in (\<lparr>se_durability = durability, se_payload_log = l, se_index_logs = Map.empty, se_ack_logs = Map.empty\<rparr>, d))"

definition index_log_mut :: "AppendOnlyStorageEngine \<Rightarrow> 32 word \<Rightarrow> disk \<Rightarrow> QueueIndexLog \<times> AppendOnlyStorageEngine \<times> disk" where
  "index_log_mut e q d =
     (case se_index_logs e q of
        Some l \<Rightarrow> (l, e, d)
      | None \<Rightarrow> let (l, d) = index_log_open q (se_durability e) d in (l, e\<lparr>se_index_logs := (se_index_logs e)(q \<mapsto> l)\<rparr>, d))"

definition ack_log_mut :: "AppendOnlyStorageEngine \<Rightarrow> 32 word \<Rightarrow> disk \<Rightarrow> AckLedgerLog \<times> AppendOnlyStorageEngine \<times> disk" where
  "ack_log_mut e q d =
     (case se_ack_logs e q of
        Some l \<Rightarrow> (l, e, d)
      | None \<Rightarrow> let (l, d) = ack_log_open q (se_durability e) d in (l, e\<lparr>se_ack_logs := (se_ack_logs e)(q \<mapsto> l)\<rparr>, d))"

fun publish_entries :: "32 word \<Rightarrow> nat \<Rightarrow> nat \<Rightarrow> PayloadRef list \<Rightarrow> QueueIndexEntry list option" where
  "publish_entries q base i [] = Some []"
| "publish_entries q base i (r # rs) = do {
     s \<leftarrow> add_u64 base i;
     es \<leftarrow> publish_entries q base (Suc i) rs;
     Some (\<lparr>qe_queue_id = q, qe_queue_seq = of_nat s, qe_payload_ref = r, qe_flags = 0\<rparr> # es)
   }"

definition append_publish ::
  "(byte list \<Rightarrow> 32 word) \<Rightarrow> AppendOnlyStorageEngine \<Rightarrow> 32 word \<Rightarrow> nat \<Rightarrow> byte list list \<Rightarrow> disk \<Rightarrow>
   ((StorageError + unit) \<times> AppendOnlyStorageEngine \<times> disk) option" where
  "append_publish crc32c e q base_seq payloads d = do {
     (r, pl, d) \<leftarrow> append_batch crc32c (se_payload_log e) payloads d;
     let e = e\<lparr>se_payload_log := pl\<rparr>;
     (case r of
        Inl err \<Rightarrow> Some (Inl err, e, d)
      | Inr refs \<Rightarrow> do {
          entries \<leftarrow> publish_entries q base_seq 0 refs;
          let (l, e, d) = index_log_mut e q d;
          (r, l, d) \<leftarrow> index_append_entries crc32c l entries d;
          Some (r, e\<lparr>se_index_logs := (se_index_logs e)(q \<mapsto> l)\<rparr>, d)
        })
   }"

definition append_ack_range ::
  "(byte list \<Rightarrow> 32 word) \<Rightarrow> AppendOnlyStorageEngine \<Rightarrow> 32 word \<Rightarrow> 64 word \<Rightarrow> 32 word \<Rightarrow> disk \<Rightarrow>
   ((StorageError + unit) \<times> AppendOnlyStorageEngine \<times> disk) option" where
  "append_ack_range crc32c e q start len d = do {
     let (l, e, d) = ack_log_mut e q d;
     (r, l, d) \<leftarrow> ack_append_entries crc32c l [LedgerAckRange q start len] d;
     Some (r, e\<lparr>se_ack_logs := (se_ack_logs e)(q \<mapsto> l)\<rparr>, d)
   }"

definition engine_recover_queue :: "(byte list \<Rightarrow> 32 word) \<Rightarrow> 32 word \<Rightarrow> disk \<Rightarrow> ((StorageError + RecoveredQueueImage) \<times> disk) option" where
  "engine_recover_queue crc32c q d = recover_queue crc32c q d"

end
