(* ===== verification/Storage_Recovery.thy ===== *)
theory Storage_Recovery
  imports Storage_Engine
begin

text \<open>
  What the logs hold and what recovery reads back. A locale states what a body format owes to the
  log that stores it; both logs of a queue are instances of it.
\<close>

section \<open>Logs of batches\<close>

locale body_codec =
  fixes enc :: "'a list \<Rightarrow> byte list"
    and dec :: "byte list \<Rightarrow> (StorageError + 'a list) option"
    and kind :: RecordKind
    and valid :: "'a list \<Rightarrow> bool"
  assumes round_trip: "valid es \<Longrightarrow> dec (enc es) = Some (Inr es)"
begin

definition holds :: "LogRecord list \<Rightarrow> 'a list list \<Rightarrow> bool" where
  "holds rs bs \<longleftrightarrow> list_all2 (\<lambda>r es. lr_kind r = kind \<and> lr_body r = enc es \<and> valid es \<and> record_fits r) rs bs"

lemma holds_append: "holds rs bs \<Longrightarrow> lr_kind r = kind \<Longrightarrow> lr_body r = enc es \<Longrightarrow> valid es \<Longrightarrow> record_fits r \<Longrightarrow> holds (rs @ [r]) (bs @ [es])"
  by (simp add: holds_def list_all2_appendI)

lemma holds_take: "holds rs bs \<Longrightarrow> holds (take j rs) (take j bs)"
  by (simp add: holds_def list_all2_takeI)

lemma holds_length: "holds rs bs \<Longrightarrow> length rs = length bs"
  by (auto simp: holds_def dest: list_all2_lengthD)

lemma holds_fits: "holds rs bs \<Longrightarrow> \<forall>r\<in>set rs. record_fits r"
  by (auto simp: holds_def list_all2_conv_all_nth in_set_conv_nth)

lemma decode_scanned:
  "holds rs bs \<Longrightarrow> decode_records dec kind (scanned sid pos rs) out = Some (Inr (out @ concat bs))"
proof (induction rs arbitrary: bs pos out)
  case (Cons r rs)
  then obtain es bs' where "bs = es # bs'" "lr_kind r = kind" "lr_body r = enc es" "valid es" "holds rs bs'"
    by (auto simp: holds_def list_all2_Cons1)
  then show ?case using Cons.IH by (simp add: round_trip)
qed (simp add: holds_def)

lemma decode_prefix:
  assumes h: "holds rs bs"
  obtains j where "j \<le> length bs"
    "\<exists>res. scan_segment_bytes crc sid (take k (log_bytes crc rs)) = Some (Inr res) \<and> decode_records dec kind (ss_records res) [] = Some (Inr (concat (take j bs)))"
    "length (log_bytes crc rs) \<le> k \<Longrightarrow> j = length bs"
proof -
  obtain j tail where j: "j \<le> length rs" "take k (log_bytes crc rs) = log_bytes crc (take j rs) @ tail" "partial_tail crc tail"
    "j < length rs \<longrightarrow> k < length (log_bytes crc (take (Suc j) rs))" using log_prefix [OF holds_fits [OF h]] by blast
  have "\<forall>r\<in>set (take j rs). record_fits r" using holds_fits [OF h] by (auto dest: in_set_takeD)
  from scan_segment_log [OF this j(3), of sid] decode_scanned [OF holds_take [OF h, of j], of sid 0 "[]"]
  have "\<exists>res. scan_segment_bytes crc sid (take k (log_bytes crc rs)) = Some (Inr res) \<and> decode_records dec kind (ss_records res) [] = Some (Inr (concat (take j bs)))"
    unfolding j(2) by auto
  moreover have "j = length bs" if "length (log_bytes crc rs) \<le> k"
  proof (rule ccontr)
    assume "j \<noteq> length bs"
    then have lt: "k < length (log_bytes crc (take (Suc j) rs))" using j(1,4) holds_length [OF h] by simp
    have "log_bytes crc rs = log_bytes crc (take (Suc j) rs) @ log_bytes crc (drop (Suc j) rs)"
      by (metis append_take_drop_id log_bytes_simps(3))
    then have "length (log_bytes crc (take (Suc j) rs)) \<le> length (log_bytes crc rs)" by (metis le_add1 length_append)
    then show False using that lt by simp
  qed
  ultimately show ?thesis using that [of j] j(1) holds_length [OF h] by simp
qed

end

definition index_batch_valid :: "QueueIndexEntry list \<Rightarrow> bool" where
  "index_batch_valid es \<longleftrightarrow> length es < 2 ^ 32 \<and> (\<forall>e\<in>set es. qe_flags e = 0)"

definition ack_batch_valid :: "AckLedgerEntry list \<Rightarrow> bool" where
  "ack_batch_valid es \<longleftrightarrow> length es < 2 ^ 32"

interpretation index_codec: body_codec encode_index_body decode_index_body QueueIndexBatch index_batch_valid
  by unfold_locales (simp add: index_body_round_trip index_batch_valid_def)

interpretation ack_codec: body_codec encode_ack_body decode_ack_body AckLedgerBatch ack_batch_valid
  by unfold_locales (simp add: ack_body_round_trip ack_batch_valid_def)

section \<open>Recovering a queue\<close>

abbreviation index_path :: "32 word \<Rightarrow> path" where
  "index_path q \<equiv> segment_path (QueueDir q) ''index'' 1"

abbreviation ack_path :: "32 word \<Rightarrow> path" where
  "ack_path q \<equiv> segment_path (QueueDir q) ''ack'' 1"

abbreviation payload_path :: path where
  "payload_path \<equiv> segment_path PayloadDir ''payload'' 1"

lemma file_bytes_open [simp]: "file_bytes (d(p \<mapsto> file_bytes d p)) p' = file_bytes d p'"
  by (simp add: file_bytes_def)

lemma file_bytes_upd [simp]: "file_bytes (d(p \<mapsto> bs)) p' = (if p' = p then bs else file_bytes d p')"
  by (simp add: file_bytes_def)

lemma reader_scan_file:
  "reader_scan crc \<lparr>sgr_backend = \<lparr>fb_path = p, fb_len = length (file_bytes d p)\<rparr>, sgr_segment_id = sid\<rparr> d = scan_segment_bytes crc sid (file_bytes d p)"
  by (simp add: reader_scan_def backend_read_at_def Let_def)

definition same_files :: "disk \<Rightarrow> disk \<Rightarrow> bool" where
  "same_files d d' \<longleftrightarrow> file_bytes d' = file_bytes d"

lemma recover_queue_prefix:
  assumes i: "index_codec.holds irs ibs" "file_bytes d (index_path q) = take k (log_bytes crc irs)"
    and a: "ack_codec.holds ars lbs" "file_bytes d (ack_path q) = take l (log_bytes crc ars)"
  obtains j m where "j \<le> length ibs" "m \<le> length lbs"
    "length (log_bytes crc irs) \<le> k \<Longrightarrow> j = length ibs" "length (log_bytes crc ars) \<le> l \<Longrightarrow> m = length lbs"
    "\<exists>d'. same_files d d' \<and> recover_queue crc q d = map_option (\<lambda>image. (Inr image, d')) (build_image q (concat (take j ibs)) (concat (take m lbs)))"
proof -
  obtain j where j: "j \<le> length ibs" "\<exists>res. scan_segment_bytes crc 1 (file_bytes d (index_path q)) = Some (Inr res) \<and>
      decode_records decode_index_body QueueIndexBatch (ss_records res) [] = Some (Inr (concat (take j ibs)))"
    "length (log_bytes crc irs) \<le> k \<Longrightarrow> j = length ibs"
    using index_codec.decode_prefix [OF i(1), where sid = 1] i(2) by metis
  obtain m where m: "m \<le> length lbs" "\<exists>res. scan_segment_bytes crc 1 (file_bytes d (ack_path q)) = Some (Inr res) \<and>
      decode_records decode_ack_body AckLedgerBatch (ss_records res) [] = Some (Inr (concat (take m lbs)))"
    "length (log_bytes crc ars) \<le> l \<Longrightarrow> m = length lbs"
    using ack_codec.decode_prefix [OF a(1), where sid = 1] a(2) by metis
  let ?d1 = "d(index_path q \<mapsto> file_bytes d (index_path q))"
  let ?d2 = "?d1(ack_path q \<mapsto> file_bytes ?d1 (ack_path q))"
  let ?d3 = "?d2(index_path q \<mapsto> file_bytes ?d2 (index_path q))"
  let ?d4 = "?d3(ack_path q \<mapsto> file_bytes ?d3 (ack_path q))"
  have sf: "same_files d ?d4" by (simp add: same_files_def fun_eq_iff)
  have s1: "reader_scan crc \<lparr>sgr_backend = \<lparr>fb_path = index_path q, fb_len = length (file_bytes ?d2 (index_path q))\<rparr>, sgr_segment_id = 1\<rparr> ?d3 =
      scan_segment_bytes crc 1 (file_bytes d (index_path q))"
    using reader_scan_file [of crc "index_path q" ?d3 1] by (simp add: segment_path_def)
  have s2: "reader_scan crc \<lparr>sgr_backend = \<lparr>fb_path = ack_path q, fb_len = length (file_bytes ?d3 (ack_path q))\<rparr>, sgr_segment_id = 1\<rparr> ?d4 =
      scan_segment_bytes crc 1 (file_bytes d (ack_path q))"
    using reader_scan_file [of crc "ack_path q" ?d4 1] by (simp add: segment_path_def)
  have "recover_queue crc q d = map_option (\<lambda>image. (Inr image, ?d4)) (build_image q (concat (take j ibs)) (concat (take m lbs)))"
    using j(2) m(2) s1 s2
    by (auto simp: recover_queue_def index_log_open_def ack_log_open_def writer_create_def backend_open_def index_scan_entries_def
        ack_scan_entries_def reader_open_def Let_def map_option_case split: option.splits)
  then show ?thesis using that [of j m] j(1,3) m(1,3) sf by blast
qed

end
