(* ===== verification/Storage_Image.thy ===== *)
theory Storage_Image
  imports Storage_Logs
begin

text \<open>What \<open>build_image\<close> computes: the indexed messages that no acknowledgement covers.\<close>

section \<open>The ordered map\<close>

lemma btree_insert_keys: "fst ` set (btree_insert k v m) = insert k (fst ` set m)"
  by (induction k v m rule: btree_insert.induct) auto

lemma btree_insert_sorted: "sorted_wrt (<) (map fst m) \<Longrightarrow> sorted_wrt (<) (map fst (btree_insert k v m))"
proof (induction k v m rule: btree_insert.induct)
  case (2 k v k' v' xs)
  then show ?case using btree_insert_keys [of k v xs] by (auto simp: image_iff)
qed simp

lemma btree_insert_map_of: "sorted_wrt (<) (map fst m) \<Longrightarrow> map_of (btree_insert k v m) = (map_of m)(k \<mapsto> v)"
proof (induction k v m rule: btree_insert.induct)
  case (2 k v k' v' xs)
  then show ?case by (auto simp: fun_eq_iff)
qed simp

definition index_pairs :: "32 word \<Rightarrow> QueueIndexEntry list \<Rightarrow> (nat \<times> PayloadRef) list" where
  "index_pairs q es = map (\<lambda>e. (unat (qe_queue_seq e), qe_payload_ref e)) (filter (\<lambda>e. qe_queue_id e = q) es)"

lemma index_by_seq_ok:
  "sorted_wrt (<) (map fst m) \<Longrightarrow> sorted_wrt (<) (map fst (index_by_seq q es m)) \<and>
   map_of (index_by_seq q es m) = map_of m ++ map_of (rev (index_pairs q es))"
proof (induction es arbitrary: m)
  case (Cons e es)
  show ?case
  proof (cases "qe_queue_id e = q")
    case True
    have s: "sorted_wrt (<) (map fst (btree_insert (unat (qe_queue_seq e)) (qe_payload_ref e) m))"
      using btree_insert_sorted [OF Cons.prems] .
    show ?thesis
      using Cons.IH [OF s] True
      by (simp add: btree_insert_map_of [OF Cons.prems] index_pairs_def map_add_def fun_eq_iff split: option.splits)
  next
    case False
    then show ?thesis using Cons by (simp add: index_pairs_def)
  qed
qed (simp add: index_pairs_def)

section \<open>The settled messages\<close>

definition ledger_seqs :: "32 word \<Rightarrow> AckLedgerEntry \<Rightarrow> nat set" where
  "ledger_seqs q e = (if le_queue_id e \<noteq> q then {} else case e of
       LedgerAckRange _ start len \<Rightarrow> {unat start..<unat start + unat len}
     | LedgerDeadLetter _ start len \<Rightarrow> {unat start..<unat start + unat len}
     | LedgerNackRequeue _ _ _ \<Rightarrow> {}
     | LedgerAckMask _ base _ msk \<Rightarrow> {x. \<exists>i. bit msk i \<and> x = unat base + i})"

lemma insert_offsets_ok:
  "\<forall>i\<in>set is. start + i \<le> u64_max \<Longrightarrow> insert_offsets start is S = Some (S \<union> (\<lambda>i. start + i) ` set is)"
  by (induction "is" arbitrary: S) (auto simp: add_u64_def)

lemma settle_entry_ok:
  assumes "\<forall>x\<in>ledger_seqs q e. x \<le> u64_max"
  shows "settle_entry q e S = Some (S \<union> ledger_seqs q e)"
proof -
  have r: "(\<lambda>i. a + i) ` {0..<n} = {a..<a + n}" for a n :: nat
    using image_add_atLeastLessThan [of a 0 n] by (simp add: add.commute)
  have m: "(\<lambda>i. a + i) ` {i. i < 64 \<and> bit m i} = {x. \<exists>i. bit m i \<and> x = a + i}" for a and m :: "64 word"
    by (auto intro!: imageI dest: bit_imp_le_length)
  show ?thesis
    using assms
    by (cases e) (auto simp: ledger_seqs_def insert_offsets_ok r m [symmetric])
qed

lemma settled_seqs_of_ok:
  "\<forall>e\<in>set es. \<forall>x\<in>ledger_seqs q e. x \<le> u64_max \<Longrightarrow> settled_seqs_of q es S = Some (S \<union> (\<Union>e\<in>set es. ledger_seqs q e))"
  by (induction es arbitrary: S) (auto simp: settle_entry_ok)

section \<open>The image\<close>

lemma last_sorted_max:
  assumes "sorted_wrt (<) (map fst (m :: (nat \<times> 'v) list))" and "m \<noteq> []"
  shows "fst (last m) = Max (fst ` set m)"
proof -
  obtain ms x where m: "m = ms @ [x]" using assms(2) by (cases m rule: rev_cases) auto
  have "\<forall>y\<in>fst ` set ms. y \<le> fst x" using assms(1) unfolding m by (auto simp: sorted_wrt_append)
  then show ?thesis unfolding m by (auto intro!: Max_eqI [symmetric])
qed

lemma build_image_ok:
  assumes a: "\<forall>e\<in>set acked. \<forall>x\<in>ledger_seqs q e. x \<le> u64_max" and i: "\<forall>(s, _)\<in>set (index_pairs q es). s < u64_max"
  shows "ok (build_image q es acked) (\<lambda>im. ri_queue_id im = q \<and> sorted_wrt (<) (map rm_queue_seq (ri_ready im)) \<and>
    (\<forall>s r. \<lparr>rm_queue_seq = s, rm_payload_ref = r\<rparr> \<in> set (ri_ready im) \<longleftrightarrow>
       map_of (rev (index_pairs q es)) s = Some r \<and> s \<notin> (\<Union>e\<in>set acked. ledger_seqs q e)) \<and>
    ri_next_seq im = (if index_pairs q es = [] then 0 else Suc (Max (fst ` set (index_pairs q es)))))"
proof -
  define m where "m = index_by_seq q es []"
  define S where "S = (\<Union>e\<in>set acked. ledger_seqs q e)"
  have m: "sorted_wrt (<) (map fst m)" "map_of m = map_of (rev (index_pairs q es))"
    using index_by_seq_ok [of "[]" q es] by (simp_all add: m_def)
  have d: "distinct (map fst m)" using m(1) strict_sorted_iff by blast
  have st: "settled_seqs_of q acked {} = Some S" using settled_seqs_of_ok [OF a, of "{}"] by (simp add: S_def)
  have keys: "fst ` set m = fst ` set (index_pairs q es)"
    using m(2) dom_map_of_conv_image_fst [of m] dom_map_of_conv_image_fst [of "rev (index_pairs q es)"] by simp
  have e: "m = [] \<longleftrightarrow> index_pairs q es = []" using keys by (metis image_is_empty set_empty)
  have nx: "(if m = [] then Some 0 else add_u64 (fst (last m)) 1) =
      Some (if index_pairs q es = [] then 0 else Suc (Max (fst ` set (index_pairs q es))))"
  proof (cases "m = []")
    case False
    have "fst (last m) \<in> fst ` set (index_pairs q es)" using False keys by (metis image_eqI last_in_set)
    then have "fst (last m) < u64_max" using i by auto
    then have "add_u64 (fst (last m)) 1 = Some (Suc (fst (last m)))" by (simp add: add_u64_def)
    then show ?thesis using False e last_sorted_max [OF m(1) False] keys by simp
  qed (use e in simp)
  let ?ready = "map (\<lambda>(seq, r). \<lparr>rm_queue_seq = seq, rm_payload_ref = r\<rparr>) (filter (\<lambda>(seq, _). seq \<notin> S) m)"
  have "map rm_queue_seq ?ready = map fst (filter (\<lambda>(seq, _). seq \<notin> S) m)" by (simp add: comp_def case_prod_beta)
  then have "sorted_wrt (<) (map rm_queue_seq ?ready)" using m(1) by (simp only: sorted_wrt_map sorted_wrt_filter)
  moreover have "\<lparr>rm_queue_seq = s, rm_payload_ref = r\<rparr> \<in> set ?ready \<longleftrightarrow> map_of (rev (index_pairs q es)) s = Some r \<and> s \<notin> S" for s r
    unfolding m(2) [symmetric] using map_of_eq_Some_iff [OF d, of s r] by (auto simp: image_iff)
  ultimately show ?thesis
    unfolding build_image_def Let_def m_def [symmetric] S_def [symmetric] by (simp add: st nx del: set_map)
qed

end
