(* ===== verification/Storage_History.thy ===== *)
theory Storage_History
  imports Storage_Recovery Storage_Image
begin

text \<open>
  The engine as a state machine over its history: which records the files hold after a sequence of
  publications and acknowledgements, across restarts. Recovery then reads the history back.
\<close>

section \<open>Appending to a log\<close>

definition log_at :: "(byte list \<Rightarrow> 32 word) \<Rightarrow> SegmentWriter \<Rightarrow> path \<Rightarrow> disk \<Rightarrow> LogRecord list \<Rightarrow> bool" where
  "log_at crc w p d rs \<longleftrightarrow> fb_path (wr_backend w) = p \<and> file_bytes d p = log_bytes crc rs \<and> fb_len (wr_backend w) = length (log_bytes crc rs)"

lemma append_record_ok:
  assumes "log_at crc w p d rs" and "length (log_bytes crc (rs @ [r])) \<le> u64_max"
  shows "ok (append_record crc w (lr_kind r) (lr_stream_id r) (lr_base_seq r) (lr_count r) (lr_body r) d) (\<lambda>(res, w', d').
    res = Inr (length (log_bytes crc rs)) \<and> log_at crc w' p d' (rs @ [r]) \<and> (\<forall>p'. p' \<noteq> p \<longrightarrow> file_bytes d' p' = file_bytes d p'))"
  using assms by (simp add: append_record_def encode_record_wire backend_append_def log_at_def Let_def)

lemma append_record_Some:
  assumes "log_at crc w p d rs"
    and "append_record crc w (lr_kind r) (lr_stream_id r) (lr_base_seq r) (lr_count r) (lr_body r) d = Some (res, w', d')"
  shows "res = Inr (length (log_bytes crc rs))" "log_at crc w' p d' (rs @ [r])" "\<forall>p'. p' \<noteq> p \<longrightarrow> file_bytes d' p' = file_bytes d p'"
  using assms by (auto simp: append_record_def encode_record_wire backend_append_def log_at_def Let_def bind_eq_Some_conv add_u64_def split: if_splits)

definition payload_record :: "byte list list \<Rightarrow> LogRecord" where
  "payload_record ps = \<lparr>lr_kind = PayloadBatchKind, lr_stream_id = stream_payload_log, lr_base_seq = 0, lr_count = of_nat (length ps),
     lr_body = encode_payload_body ps\<rparr>"

definition index_record :: "32 word \<Rightarrow> QueueIndexEntry list \<Rightarrow> LogRecord" where
  "index_record q es = \<lparr>lr_kind = QueueIndexBatch, lr_stream_id = stream_queue_index q,
     lr_base_seq = (case es of [] \<Rightarrow> 0 | e # _ \<Rightarrow> qe_queue_seq e), lr_count = of_nat (length es), lr_body = encode_index_body es\<rparr>"

definition ack_record :: "32 word \<Rightarrow> AckLedgerEntry list \<Rightarrow> LogRecord" where
  "ack_record q es = \<lparr>lr_kind = AckLedgerBatch, lr_stream_id = stream_ack_ledger q,
     lr_base_seq = (case es of [] \<Rightarrow> 0 | e # _ \<Rightarrow> le_start e), lr_count = of_nat (length es), lr_body = encode_ack_body es\<rparr>"

definition batch_refs :: "nat \<Rightarrow> byte list list \<Rightarrow> PayloadRef list" where
  "batch_refs off ps = map (\<lambda>(i, p). \<lparr>pr_segment_id = 1, pr_offset = of_nat off, pr_index = of_nat i, pr_len = of_nat (length p),
     pr_checksum = 0\<rparr>) (enumerate 0 ps)"

lemma batch_refs_length [simp]: "length (batch_refs off ps) = length ps"
  by (simp add: batch_refs_def)

lemma append_batch_Some:
  assumes l: "log_at crc (pl_writer l) p d rs" "pl_segment_id l = 1"
    and a: "append_batch crc l ps d = Some (res, l', d')"
  shows "res = Inr (batch_refs (length (log_bytes crc rs)) ps)" "log_at crc (pl_writer l') p d' (rs @ [payload_record ps])"
    "pl_dir l' = pl_dir l \<and> pl_segment_id l' = 1" "\<forall>p'. p' \<noteq> p \<longrightarrow> file_bytes d' p' = file_bytes d p'"
proof -
  let ?r = "payload_record ps"
  obtain x w d1 where ar: "append_record crc (pl_writer l) (lr_kind ?r) (lr_stream_id ?r) (lr_base_seq ?r) (lr_count ?r) (lr_body ?r) d = Some (x, w, d1)"
    using a by (auto simp: append_batch_def payload_record_def Let_def bind_eq_Some_conv)
  note s = append_record_Some [OF l(1) ar]
  have en: "map (\<lambda>(i, len). f i len) (enumerate 0 (map g ps)) = map (\<lambda>(i, p). f i (g p)) (enumerate 0 ps)" for f :: "nat \<Rightarrow> 32 word \<Rightarrow> PayloadRef" and g
    by (simp add: enumerate_eq_zip zip_map2 comp_def case_prod_beta)
  have "res = Inr (batch_refs (length (log_bytes crc rs)) ps)" "l' = l\<lparr>pl_writer := w\<rparr>" "d' = d1"
    using a ar l(2) unfolding append_batch_def Let_def payload_record_def
    by (auto simp: s(1) bind_eq_Some_conv batch_refs_def en)
  then show "res = Inr (batch_refs (length (log_bytes crc rs)) ps)" "log_at crc (pl_writer l') p d' (rs @ [payload_record ps])"
    "pl_dir l' = pl_dir l \<and> pl_segment_id l' = 1" "\<forall>p'. p' \<noteq> p \<longrightarrow> file_bytes d' p' = file_bytes d p'"
    using s l by simp_all
qed

lemma index_append_Some:
  assumes l: "log_at crc (qil_writer l) p d rs" and a: "index_append_entries crc l es d = Some (res, l', d')"
  shows "res = Inr ()" "log_at crc (qil_writer l') p d' (rs @ [index_record (qil_queue_id l) es])" "qil_queue_id l' = qil_queue_id l"
    "\<forall>p'. p' \<noteq> p \<longrightarrow> file_bytes d' p' = file_bytes d p'"
proof -
  let ?r = "index_record (qil_queue_id l) es"
  obtain x w d1 where ar: "append_record crc (qil_writer l) (lr_kind ?r) (lr_stream_id ?r) (lr_base_seq ?r) (lr_count ?r) (lr_body ?r) d = Some (x, w, d1)"
    and e: "res = map_sum id (\<lambda>_. ()) x" "l' = l\<lparr>qil_writer := w\<rparr>" "d' = d1"
    using a by (auto simp: index_append_entries_def index_record_def Let_def bind_eq_Some_conv)
  note s = append_record_Some [OF l ar]
  show "res = Inr ()" "log_at crc (qil_writer l') p d' (rs @ [index_record (qil_queue_id l) es])" "qil_queue_id l' = qil_queue_id l"
    "\<forall>p'. p' \<noteq> p \<longrightarrow> file_bytes d' p' = file_bytes d p'" using s e by simp_all
qed

lemma ack_append_Some:
  assumes l: "log_at crc (all_writer l) p d rs" and a: "ack_append_entries crc l es d = Some (res, l', d')"
  shows "res = Inr ()" "log_at crc (all_writer l') p d' (rs @ [ack_record (all_queue_id l) es])" "all_queue_id l' = all_queue_id l"
    "\<forall>p'. p' \<noteq> p \<longrightarrow> file_bytes d' p' = file_bytes d p'"
proof -
  let ?r = "ack_record (all_queue_id l) es"
  obtain x w d1 where ar: "append_record crc (all_writer l) (lr_kind ?r) (lr_stream_id ?r) (lr_base_seq ?r) (lr_count ?r) (lr_body ?r) d = Some (x, w, d1)"
    and e: "res = map_sum id (\<lambda>_. ()) x" "l' = l\<lparr>all_writer := w\<rparr>" "d' = d1"
    using a by (auto simp: ack_append_entries_def ack_record_def Let_def bind_eq_Some_conv)
  note s = append_record_Some [OF l ar]
  show "res = Inr ()" "log_at crc (all_writer l') p d' (rs @ [ack_record (all_queue_id l) es])" "all_queue_id l' = all_queue_id l"
    "\<forall>p'. p' \<noteq> p \<longrightarrow> file_bytes d' p' = file_bytes d p'" using s e by simp_all
qed

section \<open>Reading a payload\<close>

lemma read_payload_ok:
  assumes f: "file_bytes d payload_path = log_bytes crc (rs @ payload_record ps # rest) @ junk" "length (file_bytes d payload_path) \<le> u64_max"
    and fits: "record_fits (payload_record ps)" "length ps < 2 ^ 32" "\<forall>p\<in>set ps. length p < 2 ^ 32" and k: "k < length ps"
    and l: "pl_dir l = PayloadDir"
  shows "ok (read_payload crc l (batch_refs (length (log_bytes crc rs)) ps ! k) d) (\<lambda>(r, d'). r = Inr (ps ! k) \<and> same_files d d')"
proof -
  let ?r = "batch_refs (length (log_bytes crc rs)) ps ! k" and ?d = "d(payload_path \<mapsto> file_bytes d payload_path)"
  let ?reader = "\<lparr>sgr_backend = \<lparr>fb_path = payload_path, fb_len = length (file_bytes d payload_path)\<rparr>, sgr_segment_id = 1\<rparr>"
  have r: "pr_segment_id ?r = 1" "pr_offset ?r = of_nat (length (log_bytes crc rs))" "pr_index ?r = of_nat k"
    using k by (simp_all add: batch_refs_def enumerate_eq_zip)
  have o: "unat (pr_offset ?r) = length (log_bytes crc rs)"
    using f by (simp add: r(2) unat_of_nat take_bit_nat_eq_self u64_max_def)
  have "read_record_at crc ?reader (pr_offset ?r) ?d = Some (Inr (record_header crc (payload_record ps), lr_body (payload_record ps)))"
    using f(1) by (simp add: read_record_at_def o sub_uint_def backend_read_at_def Let_def decode_record_wire [OF fits(1)])
  then show ?thesis
    using payload_body_round_trip [OF fits(2,3) k] l
    by (simp add: read_payload_def r reader_open_def backend_open_def Let_def payload_record_def same_files_def fun_eq_iff)
qed

section \<open>Histories\<close>

datatype engine_event =
    EvPublish "32 word" nat "byte list list"
  | EvAck "32 word" "64 word" "32 word"

fun event_ok :: "engine_event \<Rightarrow> bool" where
  "event_ok (EvPublish q base ps) \<longleftrightarrow> 4 + 42 * length ps < 2 ^ 32 \<and> length (encode_payload_body ps) < 2 ^ 32 \<and> base + length ps \<le> u64_max"
| "event_ok (EvAck q start len) \<longleftrightarrow> unat start + unat len \<le> u64_max"

fun published_batches :: "32 word \<Rightarrow> engine_event list \<Rightarrow> (nat \<times> byte list) list list" where
  "published_batches q [] = []"
| "published_batches q (EvPublish q' base ps # h) = (if q' = q then [zip [base..<base + length ps] ps] else []) @ published_batches q h"
| "published_batches q (EvAck q' start len # h) = published_batches q h"

fun acked_batches :: "32 word \<Rightarrow> engine_event list \<Rightarrow> nat set list" where
  "acked_batches q [] = []"
| "acked_batches q (EvPublish q' base ps # h) = acked_batches q h"
| "acked_batches q (EvAck q' start len # h) = (if q' = q then [{unat start..<unat start + unat len}] else []) @ acked_batches q h"

lemma published_batches_append [simp]: "published_batches q (h @ h') = published_batches q h @ published_batches q h'"
  by (induction q h rule: published_batches.induct) simp_all

lemma acked_batches_append [simp]: "acked_batches q (h @ h') = acked_batches q h @ acked_batches q h'"
  by (induction q h rule: acked_batches.induct) simp_all

lemma published_bound: "\<forall>ev\<in>set h. event_ok ev \<Longrightarrow> b \<in> set (published_batches q h) \<Longrightarrow> (s, p) \<in> set b \<Longrightarrow> s < u64_max"
  by (induction q h rule: published_batches.induct) (auto split: if_splits dest!: set_zip_leftD)

lemma acked_bound: "\<forall>ev\<in>set h. event_ok ev \<Longrightarrow> S \<in> set (acked_batches q h) \<Longrightarrow> s \<in> S \<Longrightarrow> s \<le> u64_max"
  by (induction q h rule: acked_batches.induct) (auto split: if_splits)

text \<open>
  A run of the engine: it starts on an empty disk, publishes, acknowledges, and may be reopened at
  any time. The history lists the operations that returned.
\<close>

inductive engine_run :: "(byte list \<Rightarrow> 32 word) \<Rightarrow> engine_event list \<Rightarrow> AppendOnlyStorageEngine \<Rightarrow> disk \<Rightarrow> bool" for crc where
  run_create: "engine_open dur Map.empty = (e, d) \<Longrightarrow> engine_run crc [] e d"
| run_reopen: "engine_run crc h e d \<Longrightarrow> engine_open dur d = (e', d') \<Longrightarrow> engine_run crc h e' d'"
| run_publish: "engine_run crc h e d \<Longrightarrow> event_ok (EvPublish q base ps) \<Longrightarrow> append_publish crc e q base ps d = Some (r, e', d') \<Longrightarrow>
    engine_run crc (h @ [EvPublish q base ps]) e' d'"
| run_ack: "engine_run crc h e d \<Longrightarrow> event_ok (EvAck q start len) \<Longrightarrow> append_ack_range crc e q start len d = Some (r, e', d') \<Longrightarrow>
    engine_run crc (h @ [EvAck q start len]) e' d'"

lemma engine_run_events: "engine_run crc h e d \<Longrightarrow> \<forall>ev\<in>set h. event_ok ev"
  by (induction rule: engine_run.induct) auto

section \<open>What the files hold\<close>

text \<open>A reference reads back a payload when it was issued for a batch of the payload log.\<close>

definition reads :: "(byte list \<Rightarrow> 32 word) \<Rightarrow> LogRecord list \<Rightarrow> PayloadRef \<Rightarrow> byte list \<Rightarrow> bool" where
  "reads crc prs r p \<longleftrightarrow> (\<exists>rs ps rest k. prs = rs @ payload_record ps # rest \<and> k < length ps \<and> p = ps ! k \<and>
     r = batch_refs (length (log_bytes crc rs)) ps ! k \<and> record_fits (payload_record ps))"

definition pair_reads :: "(byte list \<Rightarrow> 32 word) \<Rightarrow> LogRecord list \<Rightarrow> nat \<times> PayloadRef \<Rightarrow> nat \<times> byte list \<Rightarrow> bool" where
  "pair_reads crc prs x y \<longleftrightarrow> fst x = fst y \<and> reads crc prs (snd x) (snd y)"

definition index_hist :: "(byte list \<Rightarrow> 32 word) \<Rightarrow> LogRecord list \<Rightarrow> 32 word \<Rightarrow> LogRecord list \<Rightarrow> (nat \<times> byte list) list list \<Rightarrow> bool" where
  "index_hist crc prs q irs bs \<longleftrightarrow> (\<exists>ibs. index_codec.holds irs ibs \<and> list_all2 (\<lambda>es b. list_all2 (pair_reads crc prs) (index_pairs q es) b) ibs bs)"

definition ack_hist :: "32 word \<Rightarrow> LogRecord list \<Rightarrow> nat set list \<Rightarrow> bool" where
  "ack_hist q ars bs \<longleftrightarrow> (\<exists>lbs. ack_codec.holds ars lbs \<and> bs = map (\<lambda>es. \<Union>e\<in>set es. ledger_seqs q e) lbs)"

lemma reads_mono: "reads crc prs r p \<Longrightarrow> reads crc (prs @ x) r p"
  unfolding reads_def by (metis append.assoc append_Cons)

lemma index_hist_mono: "index_hist crc prs q irs bs \<Longrightarrow> index_hist crc (prs @ x) q irs bs"
proof -
  have r: "pair_reads crc prs x' y \<Longrightarrow> pair_reads crc (prs @ x) x' y" for x' y by (simp add: pair_reads_def reads_mono)
  have "list_all2 (\<lambda>es b. list_all2 (pair_reads crc prs) (index_pairs q es) b) ibs bs \<Longrightarrow>
      list_all2 (\<lambda>es b. list_all2 (pair_reads crc (prs @ x)) (index_pairs q es) b) ibs bs" for ibs
    by (erule list_all2_mono, erule list_all2_mono, erule r)
  then show "index_hist crc prs q irs bs \<Longrightarrow> index_hist crc (prs @ x) q irs bs" unfolding index_hist_def by blast
qed

definition index_ok :: "(byte list \<Rightarrow> 32 word) \<Rightarrow> engine_event list \<Rightarrow> AppendOnlyStorageEngine \<Rightarrow> disk \<Rightarrow> LogRecord list \<Rightarrow> 32 word \<Rightarrow> LogRecord list \<Rightarrow> bool" where
  "index_ok crc h e d prs q irs \<longleftrightarrow> file_bytes d (index_path q) = log_bytes crc irs \<and> index_hist crc prs q irs (published_batches q h) \<and>
     (\<forall>l. se_index_logs e q = Some l \<longrightarrow> qil_queue_id l = q \<and> log_at crc (qil_writer l) (index_path q) d irs)"

definition ack_ok :: "(byte list \<Rightarrow> 32 word) \<Rightarrow> engine_event list \<Rightarrow> AppendOnlyStorageEngine \<Rightarrow> disk \<Rightarrow> 32 word \<Rightarrow> LogRecord list \<Rightarrow> bool" where
  "ack_ok crc h e d q ars \<longleftrightarrow> file_bytes d (ack_path q) = log_bytes crc ars \<and> ack_hist q ars (acked_batches q h) \<and>
     (\<forall>l. se_ack_logs e q = Some l \<longrightarrow> all_queue_id l = q \<and> log_at crc (all_writer l) (ack_path q) d ars)"

definition payload_ok :: "(byte list \<Rightarrow> 32 word) \<Rightarrow> AppendOnlyStorageEngine \<Rightarrow> disk \<Rightarrow> LogRecord list \<Rightarrow> bool" where
  "payload_ok crc e d prs \<longleftrightarrow> log_at crc (pl_writer (se_payload_log e)) payload_path d prs \<and> pl_dir (se_payload_log e) = PayloadDir \<and>
     pl_segment_id (se_payload_log e) = 1 \<and> length (log_bytes crc prs) \<le> u64_max"

definition engine_inv :: "(byte list \<Rightarrow> 32 word) \<Rightarrow> engine_event list \<Rightarrow> AppendOnlyStorageEngine \<Rightarrow> disk \<Rightarrow> bool" where
  "engine_inv crc h e d \<longleftrightarrow> (\<exists>prs. payload_ok crc e d prs \<and> (\<forall>q. \<exists>irs. index_ok crc h e d prs q irs) \<and> (\<forall>q. \<exists>ars. ack_ok crc h e d q ars))"

lemma paths_distinct [simp]: "index_path q \<noteq> payload_path" "ack_path q \<noteq> payload_path" "index_path q \<noteq> ack_path q'" "payload_path \<noteq> index_path q"
  "payload_path \<noteq> ack_path q" "ack_path q' \<noteq> index_path q" "index_path q = index_path q' \<longleftrightarrow> q = q'" "ack_path q = ack_path q' \<longleftrightarrow> q = q'"
  by (auto simp: segment_path_def)

lemma engine_open_files:
  assumes "engine_open dur d = (e, d')"
  shows "file_bytes d' = file_bytes d" "se_index_logs e = Map.empty" "se_ack_logs e = Map.empty"
    "file_bytes d payload_path = log_bytes crc prs \<Longrightarrow> length (log_bytes crc prs) \<le> u64_max \<Longrightarrow> payload_ok crc e d' prs"
  using assms
  by (auto simp: engine_open_def payload_log_open_def writer_create_def backend_open_def Let_def payload_ok_def log_at_def intro!: ext)

lemma engine_open_inv:
  assumes "engine_inv crc h e d" and o: "engine_open dur d = (e', d')"
  shows "engine_inv crc h e' d'"
proof -
  obtain prs where "payload_ok crc e d prs" "\<forall>q. \<exists>irs. index_ok crc h e d prs q irs" "\<forall>q. \<exists>ars. ack_ok crc h e d q ars"
    using assms(1) by (auto simp: engine_inv_def)
  moreover have "payload_ok crc e' d' prs" using calculation(1) engine_open_files(4) [OF o] by (simp add: payload_ok_def log_at_def)
  ultimately show ?thesis
    unfolding engine_inv_def index_ok_def ack_ok_def engine_open_files [OF o] by (intro exI [of _ prs]) auto
qed

lemma engine_create_inv:
  assumes o: "engine_open dur Map.empty = (e, d)"
  shows "engine_inv crc [] e d"
proof -
  have i: "index_hist crc [] q [] []" "ack_hist q [] []" for q by (auto simp: index_hist_def ack_hist_def index_codec.holds_def ack_codec.holds_def)
  have f: "file_bytes Map.empty p = []" for p by (simp add: file_bytes_def)
  have "payload_ok crc e d []" by (rule engine_open_files(4) [OF o]) (simp_all add: f)
  then show ?thesis
    unfolding engine_inv_def index_ok_def ack_ok_def engine_open_files [OF o] by (intro exI [of _ "[]"]) (simp add: i f exI [of _ "[]"])
qed

section \<open>The operations keep the files\<close>

lemma publish_entries_Some:
  "publish_entries q base i rs = Some es \<Longrightarrow> es = map (\<lambda>(k, r). \<lparr>qe_queue_id = q, qe_queue_seq = of_nat (base + k), qe_payload_ref = r, qe_flags = 0\<rparr>) (enumerate i rs)"
  by (induction q base i rs arbitrary: es rule: publish_entries.induct) (auto simp: bind_eq_Some_conv add_u64_def split: if_splits)

lemma publish_batch_reads:
  assumes e: "publish_entries q base 0 (batch_refs (length (log_bytes crc prs)) ps) = Some es" and ev: "event_ok (EvPublish q base ps)"
  shows "list_all2 (pair_reads crc (prs @ [payload_record ps])) (index_pairs q es) (zip [base..<base + length ps] ps)"
    "index_batch_valid es" "length es = length ps"
proof -
  let ?refs = "batch_refs (length (log_bytes crc prs)) ps"
  have es: "es = map (\<lambda>(k, r). \<lparr>qe_queue_id = q, qe_queue_seq = of_nat (base + k), qe_payload_ref = r, qe_flags = 0\<rparr>) (enumerate 0 ?refs)"
    using publish_entries_Some [OF e] by simp
  have ip: "index_pairs q es = map (\<lambda>(k, r). (unat (of_nat (base + k) :: 64 word), r)) (enumerate 0 ?refs)"
    unfolding index_pairs_def es by (simp add: filter_map comp_def case_prod_beta)
  have f: "record_fits (payload_record ps)" using ev by (simp add: record_fits_def payload_record_def)
  have "reads crc (prs @ [payload_record ps]) (?refs ! k) (ps ! k)" if "k < length ps" for k
    unfolding reads_def using that f by blast
  moreover have "unat (of_nat (base + k) :: 64 word) = base + k" if "k < length ps" for k
    using that ev by (simp add: unat_of_nat take_bit_nat_eq_self u64_max_def del: of_nat_add)
  ultimately show "list_all2 (pair_reads crc (prs @ [payload_record ps])) (index_pairs q es) (zip [base..<base + length ps] ps)"
    unfolding list_all2_conv_all_nth ip by (simp add: enumerate_eq_zip pair_reads_def del: of_nat_add)
  show "length es = length ps" by (simp add: es enumerate_eq_zip)
  then show "index_batch_valid es" using ev by (auto simp: index_batch_valid_def es)
qed

lemma index_hist_snoc:
  assumes h: "index_hist crc prs q irs bs" and e: "publish_entries q base 0 (batch_refs (length (log_bytes crc prs)) ps) = Some es"
    and ev: "event_ok (EvPublish q base ps)"
  shows "index_hist crc (prs @ [payload_record ps]) q (irs @ [index_record q es]) (bs @ [zip [base..<base + length ps] ps])"
proof -
  note b = publish_batch_reads [OF e ev]
  obtain ibs where i: "index_codec.holds irs ibs" "list_all2 (\<lambda>es b. list_all2 (pair_reads crc (prs @ [payload_record ps])) (index_pairs q es) b) ibs bs"
    using index_hist_mono [OF h] unfolding index_hist_def by blast
  have "length (concat (map encode_index_entry es)) = 42 * length es" by (induction es) simp_all
  then have "record_fits (index_record q es)" using ev b(3) by (simp add: record_fits_def index_record_def encode_index_body_def)
  then have "index_codec.holds (irs @ [index_record q es]) (ibs @ [es])"
    by (intro index_codec.holds_append [OF i(1)]) (simp_all add: index_record_def b(2))
  then show ?thesis unfolding index_hist_def using i(2) b(1) list_all2_lengthD [OF i(2)] by (intro exI [of _ "ibs @ [es]"]) (simp add: list_all2_append)
qed

lemma ack_hist_snoc:
  assumes h: "ack_hist q ars bs"
  shows "ack_hist q (ars @ [ack_record q [LedgerAckRange q start len]]) (bs @ [{unat start..<unat start + unat len}])"
proof -
  obtain lbs where l: "ack_codec.holds ars lbs" "bs = map (\<lambda>es. \<Union>e\<in>set es. ledger_seqs q e) lbs" using h by (auto simp: ack_hist_def)
  have "ack_codec.holds (ars @ [ack_record q [LedgerAckRange q start len]]) (lbs @ [[LedgerAckRange q start len]])"
    by (intro ack_codec.holds_append [OF l(1)]) (simp_all add: ack_record_def ack_batch_valid_def record_fits_def encode_ack_body_def)
  then show ?thesis unfolding ack_hist_def by (intro exI) (auto simp: l(2) ledger_seqs_def)
qed

lemma index_log_mut_ok:
  assumes i: "index_ok crc h e d prs q irs" and m: "index_log_mut e q d = (l, e', d')"
  shows "qil_queue_id l = q" "log_at crc (qil_writer l) (index_path q) d' irs" "file_bytes d' = file_bytes d"
    "se_payload_log e' = se_payload_log e" "se_ack_logs e' = se_ack_logs e" "q' \<noteq> q \<Longrightarrow> se_index_logs e' q' = se_index_logs e q'"
  using i m
  by (auto simp: index_log_mut_def index_ok_def index_log_open_def writer_create_def backend_open_def log_at_def Let_def split: option.splits intro!: ext)

lemma ack_log_mut_ok:
  assumes i: "ack_ok crc h e d q ars" and m: "ack_log_mut e q d = (l, e', d')"
  shows "all_queue_id l = q" "log_at crc (all_writer l) (ack_path q) d' ars" "file_bytes d' = file_bytes d"
    "se_payload_log e' = se_payload_log e" "se_index_logs e' = se_index_logs e" "q' \<noteq> q \<Longrightarrow> se_ack_logs e' q' = se_ack_logs e q'"
  using i m
  by (auto simp: ack_log_mut_def ack_ok_def ack_log_open_def writer_create_def backend_open_def log_at_def Let_def split: option.splits intro!: ext)

lemma log_at_len:
  assumes "append_record crc w (lr_kind r) (lr_stream_id r) (lr_base_seq r) (lr_count r) (lr_body r) d = Some (res, w', d')" and "log_at crc w p d rs"
  shows "length (log_bytes crc (rs @ [r])) \<le> u64_max"
  using assms by (auto simp: append_record_def encode_record_wire backend_append_def log_at_def Let_def bind_eq_Some_conv add_u64_def split: if_splits)

lemma append_batch_len:
  assumes "append_batch crc l ps d = Some (res, l', d')" and "log_at crc (pl_writer l) p d rs"
  shows "length (log_bytes crc (rs @ [payload_record ps])) \<le> u64_max"
proof -
  let ?r = "payload_record ps"
  obtain x w d1 where "append_record crc (pl_writer l) (lr_kind ?r) (lr_stream_id ?r) (lr_base_seq ?r) (lr_count ?r) (lr_body ?r) d = Some (x, w, d1)"
    using assms(1) by (auto simp: append_batch_def payload_record_def Let_def bind_eq_Some_conv)
  then show ?thesis using log_at_len assms(2) by blast
qed

lemma append_publish_inv:
  assumes inv: "engine_inv crc h e d" and ev: "event_ok (EvPublish q base ps)" and a: "append_publish crc e q base ps d = Some (r, e', d')"
  shows "r = Inr ()" "engine_inv crc (h @ [EvPublish q base ps]) e' d'"
proof -
  obtain prs where p: "payload_ok crc e d prs" and qi: "\<And>q. \<exists>irs. index_ok crc h e d prs q irs" and qa: "\<And>q. \<exists>ars. ack_ok crc h e d q ars"
    using inv by (auto simp: engine_inv_def)
  obtain irs where irs: "index_ok crc h e d prs q irs" using qi by blast
  obtain x pl d1 where ab: "append_batch crc (se_payload_log e) ps d = Some (x, pl, d1)"
    using a by (auto simp: append_publish_def bind_eq_Some_conv)
  have p': "log_at crc (pl_writer (se_payload_log e)) payload_path d prs" "pl_segment_id (se_payload_log e) = 1" "pl_dir (se_payload_log e) = PayloadDir"
    using p by (simp_all add: payload_ok_def)
  note b = append_batch_Some [OF p'(1,2) ab] append_batch_len [OF ab p'(1)]
  let ?e1 = "e\<lparr>se_payload_log := pl\<rparr>"
  obtain l e2 d2 where lm: "index_log_mut ?e1 q d1 = (l, e2, d2)" by (cases "index_log_mut ?e1 q d1") auto
  obtain es l2 where es: "publish_entries q base 0 (batch_refs (length (log_bytes crc prs)) ps) = Some es"
    and ia: "index_append_entries crc l es d2 = Some (r, l2, d')" and e': "e' = e2\<lparr>se_index_logs := (se_index_logs e2)(q \<mapsto> l2)\<rparr>"
    using a ab b(1) lm by (auto simp: append_publish_def bind_eq_Some_conv Let_def)
  let ?h = "h @ [EvPublish q base ps]" and ?prs = "prs @ [payload_record ps]"
  have "file_bytes d1 (index_path q) = file_bytes d (index_path q)" using b(4) paths_distinct(1) by metis
  then have i1: "index_ok crc h ?e1 d1 prs q irs" using irs by (auto simp: index_ok_def log_at_def)
  note m = index_log_mut_ok [OF i1 lm]
  note n = index_append_Some [OF m(2) ia]
  show "r = Inr ()" by (rule n(1))
  have f: "file_bytes d' x = file_bytes d x" if "x \<noteq> payload_path" "x \<noteq> index_path q" for x using that n(4) m(3) b(4) by metis
  have fp: "file_bytes d' payload_path = file_bytes d1 payload_path" using n(4) m(3) paths_distinct(4) by metis
  have "payload_ok crc e' d' ?prs" using b m(4) p'(3) fp unfolding payload_ok_def log_at_def e' by simp
  moreover have "\<exists>irs. index_ok crc ?h e' d' ?prs q' irs" for q'
  proof (cases "q' = q")
    case True
    have "index_hist crc ?prs q (irs @ [index_record q es]) (published_batches q ?h)"
      using index_hist_snoc [OF _ es ev] irs by (simp add: index_ok_def)
    then show ?thesis using n(2,3) m(1) unfolding index_ok_def True e' by (intro exI [of _ "irs @ [index_record q es]"]) (simp add: log_at_def)
  next
    case False
    obtain irs' where "index_ok crc h e d prs q' irs'" using qi by blast
    then show ?thesis using False f [of "index_path q'"] m(6) [OF False] unfolding index_ok_def e'
      by (intro exI [of _ irs']) (auto simp: index_hist_mono log_at_def)
  qed
  moreover have "\<exists>ars. ack_ok crc ?h e' d' q' ars" for q'
    using qa [of q'] f [of "ack_path q'"] m(5) unfolding ack_ok_def e' by (simp add: log_at_def)
  ultimately show "engine_inv crc ?h e' d'" unfolding engine_inv_def by blast
qed

lemma append_ack_range_inv:
  assumes inv: "engine_inv crc h e d" and ev: "event_ok (EvAck q start len)" and a: "append_ack_range crc e q start len d = Some (r, e', d')"
  shows "r = Inr ()" "engine_inv crc (h @ [EvAck q start len]) e' d'"
proof -
  obtain prs where p: "payload_ok crc e d prs" and qi: "\<And>q. \<exists>irs. index_ok crc h e d prs q irs" and qa: "\<And>q. \<exists>ars. ack_ok crc h e d q ars"
    using inv by (auto simp: engine_inv_def)
  obtain ars where ars: "ack_ok crc h e d q ars" using qa by blast
  let ?es = "[LedgerAckRange q start len]" and ?h = "h @ [EvAck q start len]"
  obtain l e1 d1 l2 where lm: "ack_log_mut e q d = (l, e1, d1)" and ia: "ack_append_entries crc l ?es d1 = Some (r, l2, d')"
    and e': "e' = e1\<lparr>se_ack_logs := (se_ack_logs e1)(q \<mapsto> l2)\<rparr>"
    using a by (auto simp: append_ack_range_def bind_eq_Some_conv Let_def split: prod.splits)
  note m = ack_log_mut_ok [OF ars lm]
  note n = ack_append_Some [OF m(2) ia]
  show "r = Inr ()" by (rule n(1))
  have f: "file_bytes d' x = file_bytes d x" if "x \<noteq> ack_path q" for x using that n(4) m(3) by metis
  have "payload_ok crc e' d' prs" using p m(4) f [of payload_path] unfolding payload_ok_def log_at_def e' by simp
  moreover have "\<exists>ars. ack_ok crc ?h e' d' q' ars" for q'
  proof (cases "q' = q")
    case True
    have "ack_hist q (ars @ [ack_record q ?es]) (acked_batches q ?h)" using ack_hist_snoc ars by (simp add: ack_ok_def)
    then show ?thesis using n(2,3) m(1) unfolding ack_ok_def True e' by (intro exI [of _ "ars @ [ack_record q ?es]"]) (simp add: log_at_def)
  next
    case False
    obtain ars' where "ack_ok crc h e d q' ars'" using qa by blast
    then show ?thesis using False f [of "ack_path q'"] m(6) [OF False] unfolding ack_ok_def e' by (intro exI [of _ ars']) (auto simp: log_at_def)
  qed
  moreover have "\<exists>irs. index_ok crc ?h e' d' prs q' irs" for q'
    using qi [of q'] f [of "index_path q'"] m(5) unfolding index_ok_def e' by (simp add: log_at_def)
  ultimately show "engine_inv crc ?h e' d'" unfolding engine_inv_def by blast
qed

lemma engine_run_inv: "engine_run crc h e d \<Longrightarrow> engine_inv crc h e d"
proof (induction rule: engine_run.induct)
  case (run_create dur e d)
  then show ?case by (rule engine_create_inv)
next
  case (run_reopen h e d dur e' d')
  then show ?case using engine_open_inv by blast
next
  case (run_publish h e d q base ps r e' d')
  then show ?case using append_publish_inv(2) by blast
next
  case (run_ack h e d q start len r e' d')
  then show ?case using append_ack_range_inv(2) by blast
qed

section \<open>Recovery of a run\<close>

lemma map_of_pairs:
  assumes "list_all2 (\<lambda>x y. fst x = fst y \<and> R (snd x) (snd y)) xs ys"
  shows "rel_option R (map_of xs s) (map_of ys s)"
  using assms by (induction rule: list_all2_induct) auto

definition image_of :: "(byte list \<Rightarrow> 32 word) \<Rightarrow> PayloadLog \<Rightarrow> disk \<Rightarrow> (nat \<times> byte list) list \<Rightarrow> nat set \<Rightarrow> RecoveredQueueImage \<Rightarrow> bool" where
  "image_of crc l d pub acked im \<longleftrightarrow>
     sorted_wrt (<) (map rm_queue_seq (ri_ready im)) \<and>
     rm_queue_seq ` set (ri_ready im) = fst ` set pub - acked \<and>
     ri_next_seq im = (if pub = [] then 0 else Suc (Max (fst ` set pub))) \<and>
     (\<forall>m\<in>set (ri_ready im). ok (read_payload crc l (rm_payload_ref m) d) (\<lambda>(r, _). \<exists>p. r = Inr p \<and> map_of (rev pub) (rm_queue_seq m) = Some p))"

lemma read_payload_reads:
  assumes r: "reads crc prs ref p" and f: "file_bytes d payload_path = log_bytes crc prs @ junk" "length (file_bytes d payload_path) \<le> u64_max"
    and l: "pl_dir l = PayloadDir"
  shows "ok (read_payload crc l ref d) (\<lambda>(x, _). x = Inr p)"
proof -
  obtain rs ps rest k where w: "prs = rs @ payload_record ps # rest" "k < length ps" "p = ps ! k"
    "ref = batch_refs (length (log_bytes crc rs)) ps ! k" "record_fits (payload_record ps)" using r by (auto simp: reads_def)
  have "length (concat (map (\<lambda>p. to_le_bytes 4 (of_nat (length p) :: 32 word)) ps)) = 4 * length ps" by (induction ps) simp_all
  then have n: "length ps + length (concat ps) < 2 ^ 32" using w(5) by (simp add: record_fits_def payload_record_def encode_payload_body_def)
  have "length q \<le> length (concat ps)" if "q \<in> set ps" for q using that by (auto simp: length_concat intro!: member_le_sum_list)
  then have "\<forall>q\<in>set ps. length q < 2 ^ 32" using n by fastforce
  then show ?thesis
    using read_payload_ok [of d crc rs ps rest junk k l] f w n l by (auto intro: ok_mono)
qed

lemma index_pairs_concat: "index_pairs q (concat bs) = concat (map (index_pairs q) bs)"
  by (induction bs) (simp_all add: index_pairs_def)

lemma list_all2_concatI: "list_all2 (\<lambda>x y. list_all2 P (f x) y) xs ys \<Longrightarrow> list_all2 P (concat (map f xs)) (concat ys)"
  by (induction rule: list_all2_induct) (simp_all add: list_all2_appendI)

text \<open>From the entries that the files give to the image over the history.\<close>

lemma build_image_history:
  assumes pairs: "list_all2 (pair_reads crc prs) (index_pairs q es) pub" and ack: "(\<Union>e\<in>set as. ledger_seqs q e) = acked"
    and b: "\<forall>(s, _)\<in>set pub. s < u64_max" "\<forall>s\<in>acked. s \<le> u64_max"
    and rd: "\<And>r p. reads crc prs r p \<Longrightarrow> ok (read_payload crc l r d) (\<lambda>(x, _). x = Inr p)"
  shows "ok (build_image q es as) (\<lambda>im. ri_queue_id im = q \<and> image_of crc l d pub acked im)"
proof -
  have fsts: "map fst (index_pairs q es) = map fst pub"
    using pairs by (induction rule: list_all2_induct) (simp_all add: pair_reads_def)
  then have img: "fst ` set (index_pairs q es) = fst ` set pub" and e: "index_pairs q es = [] \<longleftrightarrow> pub = []"
    by (metis list.set_map) (use fsts in \<open>metis map_is_Nil_conv\<close>)
  have "\<forall>(s, _)\<in>set (index_pairs q es). s < u64_max"
  proof clarify
    fix s r assume "(s, r) \<in> set (index_pairs q es)"
    then have "s \<in> fst ` set pub" using img by (metis fst_conv image_eqI)
    then show "s < u64_max" using b(1) by auto
  qed
  moreover have "\<forall>e\<in>set as. \<forall>x\<in>ledger_seqs q e. x \<le> u64_max" using b(2) ack by auto
  ultimately have im: "ok (build_image q es as) (\<lambda>im. ri_queue_id im = q \<and> sorted_wrt (<) (map rm_queue_seq (ri_ready im)) \<and>
    (\<forall>s r. \<lparr>rm_queue_seq = s, rm_payload_ref = r\<rparr> \<in> set (ri_ready im) \<longleftrightarrow> map_of (rev (index_pairs q es)) s = Some r \<and> s \<notin> acked) \<and>
    ri_next_seq im = (if index_pairs q es = [] then 0 else Suc (Max (fst ` set (index_pairs q es)))))"
    using build_image_ok [of as q es] unfolding ack by simp
  have rel: "rel_option (reads crc prs) (map_of (rev (index_pairs q es)) s) (map_of (rev pub) s)" for s
  proof (rule map_of_pairs)
    show "list_all2 (\<lambda>x y. fst x = fst y \<and> reads crc prs (snd x) (snd y)) (rev (index_pairs q es)) (rev pub)"
      unfolding list_all2_rev using pairs by (rule list_all2_mono) (simp add: pair_reads_def)
  qed
  have dom: "(\<exists>r. map_of (rev (index_pairs q es)) s = Some r) \<longleftrightarrow> s \<in> fst ` set pub" for s
    using dom_map_of_conv_image_fst [of "rev (index_pairs q es)"] img by (auto simp: dom_def)
  show ?thesis
  proof (rule ok_mono [OF im], elim conjE)
    fix im :: RecoveredQueueImage
    assume q: "ri_queue_id im = q" and s: "sorted_wrt (<) (map rm_queue_seq (ri_ready im))"
      and r: "\<forall>s r. \<lparr>rm_queue_seq = s, rm_payload_ref = r\<rparr> \<in> set (ri_ready im) \<longleftrightarrow> map_of (rev (index_pairs q es)) s = Some r \<and> s \<notin> acked"
      and n: "ri_next_seq im = (if index_pairs q es = [] then 0 else Suc (Max (fst ` set (index_pairs q es))))"
    have mem: "m \<in> set (ri_ready im) \<longleftrightarrow> map_of (rev (index_pairs q es)) (rm_queue_seq m) = Some (rm_payload_ref m) \<and> rm_queue_seq m \<notin> acked" for m
      using r by (cases m) simp
    have "rm_queue_seq ` set (ri_ready im) = fst ` set pub - acked"
    proof (intro set_eqI iffI)
      fix s assume "s \<in> rm_queue_seq ` set (ri_ready im)"
      then show "s \<in> fst ` set pub - acked" using mem dom [of s] by blast
    next
      fix s assume "s \<in> fst ` set pub - acked"
      then obtain r' where "\<lparr>rm_queue_seq = s, rm_payload_ref = r'\<rparr> \<in> set (ri_ready im)" using dom [of s] r by blast
      then show "s \<in> rm_queue_seq ` set (ri_ready im)" by (metis RecoveredMessage.select_convs(1) image_eqI)
    qed
    moreover have "ok (read_payload crc l (rm_payload_ref m) d) (\<lambda>(x, _). \<exists>p. x = Inr p \<and> map_of (rev pub) (rm_queue_seq m) = Some p)"
      if mr: "m \<in> set (ri_ready im)" for m
    proof -
      obtain p where p: "map_of (rev pub) (rm_queue_seq m) = Some p" "reads crc prs (rm_payload_ref m) p"
        using rel [of "rm_queue_seq m"] conjunct1 [OF iffD1 [OF mem mr]] by (auto simp: option_rel_Some1)
      show ?thesis using rd [OF p(2)] p(1) by (auto intro: ok_mono)
    qed
    ultimately show "ri_queue_id im = q \<and> image_of crc l d pub acked im" unfolding image_of_def using q s n img e by simp
  qed
qed

lemma recover_run:
  assumes inv: "engine_inv crc h e d" and evs: "\<forall>ev\<in>set h. event_ok ev"
    and f: "file_bytes d' (index_path q) = take k (file_bytes d (index_path q))" "file_bytes d' (ack_path q) = take l (file_bytes d (ack_path q))"
      "file_bytes d' payload_path = file_bytes d payload_path @ junk" "length (file_bytes d' payload_path) \<le> u64_max"
  shows "\<exists>j m. (length (file_bytes d (index_path q)) \<le> k \<longrightarrow> j = length (published_batches q h)) \<and>
    (length (file_bytes d (ack_path q)) \<le> l \<longrightarrow> m = length (acked_batches q h)) \<and>
    ok (engine_recover_queue crc q d') (\<lambda>(r, d''). file_bytes d'' = file_bytes d' \<and> (\<exists>im. r = Inr im \<and> ri_queue_id im = q \<and>
      image_of crc (se_payload_log e) d'' (concat (take j (published_batches q h))) (\<Union> (set (take m (acked_batches q h)))) im))"
proof -
  obtain prs irs ars where p: "payload_ok crc e d prs" and i: "index_ok crc h e d prs q irs" and a: "ack_ok crc h e d q ars"
    using inv unfolding engine_inv_def by blast
  obtain ibs where ibs: "index_codec.holds irs ibs"
    "list_all2 (\<lambda>es b. list_all2 (pair_reads crc prs) (index_pairs q es) b) ibs (published_batches q h)"
    using i by (auto simp: index_ok_def index_hist_def)
  obtain lbs where lbs: "ack_codec.holds ars lbs" "acked_batches q h = map (\<lambda>es. \<Union>e\<in>set es. ledger_seqs q e) lbs"
    using a by (auto simp: ack_ok_def ack_hist_def)
  have fi: "file_bytes d (index_path q) = log_bytes crc irs" "file_bytes d (ack_path q) = log_bytes crc ars"
    using i a by (simp_all add: index_ok_def ack_ok_def)
  obtain j m where jm: "j \<le> length ibs" "m \<le> length lbs" "length (log_bytes crc irs) \<le> k \<Longrightarrow> j = length ibs"
    "length (log_bytes crc ars) \<le> l \<Longrightarrow> m = length lbs"
    "\<exists>d''. same_files d' d'' \<and> engine_recover_queue crc q d' = map_option (\<lambda>im. (Inr im, d'')) (build_image q (concat (take j ibs)) (concat (take m lbs)))"
    using recover_queue_prefix [OF ibs(1) _ lbs(1), of d' q k crc l] f(1,2) fi unfolding engine_recover_queue_def by metis
  let ?es = "concat (take j ibs)" and ?as = "concat (take m lbs)" and ?pub = "concat (take j (published_batches q h))"
  have pairs: "list_all2 (pair_reads crc prs) (index_pairs q ?es) ?pub"
    unfolding index_pairs_concat by (rule list_all2_concatI) (use ibs(2) in \<open>rule list_all2_takeI\<close>)
  have ack: "(\<Union>e\<in>set ?as. ledger_seqs q e) = \<Union> (set (take m (acked_batches q h)))"
    by (auto simp: lbs(2) take_map)
  have pay: "pl_dir (se_payload_log e) = PayloadDir" "file_bytes d payload_path = log_bytes crc prs" using p by (simp_all add: payload_ok_def log_at_def)
  obtain d'' where d'': "same_files d' d''" "engine_recover_queue crc q d' = map_option (\<lambda>im. (Inr im, d'')) (build_image q ?es ?as)" using jm(5) by blast
  have rd: "ok (read_payload crc (se_payload_log e) r d'') (\<lambda>(x, _). x = Inr p)" if "reads crc prs r p" for r p
    using read_payload_reads [OF that _ _ pay(1), of d'' junk] f(3,4) pay(2) d''(1) by (simp add: same_files_def)
  have b: "\<forall>(s, _)\<in>set ?pub. s < u64_max" "\<forall>s\<in>\<Union> (set (take m (acked_batches q h))). s \<le> u64_max"
    using published_bound [OF evs] acked_bound [OF evs] by (fastforce dest!: in_set_takeD)+
  have im: "ok (build_image q ?es ?as) (\<lambda>im. ri_queue_id im = q \<and> image_of crc (se_payload_log e) d'' ?pub (\<Union> (set (take m (acked_batches q h)))) im)"
    by (rule build_image_history [OF pairs ack b rd])
  have "j = length (published_batches q h)" if "length (file_bytes d (index_path q)) \<le> k" using that jm(3) fi(1) list_all2_lengthD [OF ibs(2)] by simp
  moreover have "m = length (acked_batches q h)" if "length (file_bytes d (ack_path q)) \<le> l" using that jm(4) fi(2) lbs(2) by simp
  ultimately show ?thesis using im d'' by (intro exI [of _ j] exI [of _ m]) (auto simp: same_files_def ok_def split: option.splits)
qed

section \<open>The operations return\<close>

lemma encode_payload_body_length: "length (encode_payload_body ps) = 4 + 4 * length ps + length (concat ps)"
  by (induction ps) (simp_all add: encode_payload_body_def)

lemma encode_index_body_length: "length (encode_index_body es) = 4 + 42 * length es"
  by (induction es) (simp_all add: encode_index_body_def)

lemma publish_entries_returns: "base + i + length rs \<le> u64_max \<Longrightarrow> \<exists>es. publish_entries q base i rs = Some es \<and> length es = length rs"
  by (induction q base i rs rule: publish_entries.induct) (auto simp: add_u64_def)

lemma append_batch_returns:
  assumes l: "log_at crc (pl_writer l) p d rs" and s: "length (log_bytes crc (rs @ [payload_record ps])) \<le> u64_max"
    and n: "length (encode_payload_body ps) < 2 ^ 32"
  shows "append_batch crc l ps d \<noteq> None"
proof -
  let ?r = "payload_record ps"
  obtain w d1 where ar: "append_record crc (pl_writer l) (lr_kind ?r) (lr_stream_id ?r) (lr_base_seq ?r) (lr_count ?r) (lr_body ?r) d = Some (Inr (length (log_bytes crc rs)), w, d1)"
    using append_record_ok [OF l s] by (auto simp: ok_def split: option.splits)
  have "sum_list (map (unat \<circ> (\<lambda>p. of_nat (length p) :: 32 word)) ps) \<le> length (concat ps)"
    by (induction ps) (simp_all add: unat_of_nat add_mono)
  then have "sum_u32 (map (unat \<circ> (\<lambda>p. of_nat (length p) :: 32 word)) ps) \<noteq> None"
    using n by (simp add: sum_u32_eq encode_payload_body_length u32_max_def)
  then show ?thesis using ar by (auto simp: append_batch_def Let_def payload_record_def)
qed

lemma append_publish_returns:
  assumes inv: "engine_inv crc h e d" and ev: "event_ok (EvPublish q base ps)"
    and s: "length (file_bytes d payload_path) + 40 + length (encode_payload_body ps) \<le> u64_max"
      "length (file_bytes d (index_path q)) + 84 + 42 * length ps \<le> u64_max"
  obtains e' d' where "append_publish crc e q base ps d = Some (Inr (), e', d')"
proof -
  obtain prs irs where p: "payload_ok crc e d prs" and i: "index_ok crc h e d prs q irs" using inv unfolding engine_inv_def by blast
  have p': "log_at crc (pl_writer (se_payload_log e)) payload_path d prs" "pl_segment_id (se_payload_log e) = 1"
    using p by (simp_all add: payload_ok_def)
  have "length (log_bytes crc (prs @ [payload_record ps])) \<le> u64_max" using s(1) p'(1) by (simp add: log_at_def payload_record_def)
  then obtain x pl d1 where ab: "append_batch crc (se_payload_log e) ps d = Some (x, pl, d1)"
    using append_batch_returns [OF p'(1)] ev by fastforce
  note b = append_batch_Some [OF p' ab]
  let ?e1 = "e\<lparr>se_payload_log := pl\<rparr>"
  have "file_bytes d1 (index_path q) = file_bytes d (index_path q)" using b(4) paths_distinct(1) by metis
  then have i1: "index_ok crc h ?e1 d1 prs q irs" using i by (auto simp: index_ok_def log_at_def)
  obtain l e2 d2 where lm: "index_log_mut ?e1 q d1 = (l, e2, d2)" by (cases "index_log_mut ?e1 q d1") auto
  note m = index_log_mut_ok [OF i1 lm]
  obtain es where es: "publish_entries q base 0 (batch_refs (length (log_bytes crc prs)) ps) = Some es" "length es = length ps"
    using publish_entries_returns [of base 0 "batch_refs (length (log_bytes crc prs)) ps" q] ev by auto
  let ?r = "index_record q es"
  have "length (log_bytes crc (irs @ [?r])) \<le> u64_max" using s(2) i es(2) by (simp add: index_ok_def index_record_def encode_index_body_length)
  from append_record_ok [OF m(2) this] obtain y l2 d3 where ia: "index_append_entries crc l es d2 = Some (y, l2, d3)"
    using m(1) by (auto simp: ok_def index_append_entries_def index_record_def Let_def split: option.splits)
  then have "append_publish crc e q base ps d = Some (Inr (), e2\<lparr>se_index_logs := (se_index_logs e2)(q \<mapsto> l2)\<rparr>, d3)"
    using index_append_Some(1) [OF m(2) ia] ab b(1) lm es(1) by (simp add: append_publish_def)
  then show ?thesis using that by blast
qed

lemma append_ack_range_returns:
  assumes inv: "engine_inv crc h e d" and s: "length (file_bytes d (ack_path q)) + 61 \<le> u64_max"
  obtains e' d' where "append_ack_range crc e q start len d = Some (Inr (), e', d')"
proof -
  obtain ars where a: "ack_ok crc h e d q ars" using inv unfolding engine_inv_def by blast
  obtain l e1 d1 where lm: "ack_log_mut e q d = (l, e1, d1)" by (cases "ack_log_mut e q d") auto
  note m = ack_log_mut_ok [OF a lm]
  let ?es = "[LedgerAckRange q start len]"
  have "length (log_bytes crc (ars @ [ack_record q ?es])) \<le> u64_max" using s a by (simp add: ack_ok_def ack_record_def encode_ack_body_def)
  from append_record_ok [OF m(2) this] obtain y l2 d3 where ia: "ack_append_entries crc l ?es d1 = Some (y, l2, d3)"
    using m(1) by (auto simp: ok_def ack_append_entries_def ack_record_def Let_def split: option.splits)
  then have "append_ack_range crc e q start len d = Some (Inr (), e1\<lparr>se_ack_logs := (se_ack_logs e1)(q \<mapsto> l2)\<rparr>, d3)"
    using ack_append_Some(1) [OF m(2) ia] lm by (simp add: append_ack_range_def)
  then show ?thesis using that by blast
qed

end
