(* ===== verification/Storage_Properties.thy ===== *)
theory Storage_Properties
  imports Storage_History "HOL-Library.Code_Target_Nat"
begin

text \<open>The properties of the append-only storage: the record format, the scanner, recovery and the engine.\<close>

section \<open>Records\<close>

text \<open>
  C36. Encoding a record and decoding it gives the record back, whatever bytes follow it in the segment:
  the header carries the kind, the stream, the base sequence number and the count that were given, and
  the body is returned byte for byte. The only condition is that the length of the body fits its
  32-bit field. The checksum function is arbitrary.
\<close>

theorem record_codec_round_trip:
  assumes "length body < 2 ^ 32"
  shows "\<exists>wire hdr. encode_record crc kind stream_id base_seq n body = Inr wire \<and> length wire = 40 + length body \<and>
    decode_record crc (wire @ rest) = Some (Inr (hdr, body)) \<and> kind_try_from (rh_kind hdr) = Inr kind \<and> rh_stream_id hdr = stream_id \<and>
    rh_base_seq hdr = base_seq \<and> rh_count hdr = n \<and> unat (rh_body_len hdr) = length body"
proof -
  let ?r = "\<lparr>lr_kind = kind, lr_stream_id = stream_id, lr_base_seq = base_seq, lr_count = n, lr_body = body\<rparr>"
  have f: "record_fits ?r" using assms by (simp add: record_fits_def)
  have h: "kind_try_from (rh_kind (record_header crc ?r)) = Inr kind" "rh_stream_id (record_header crc ?r) = stream_id"
    "rh_base_seq (record_header crc ?r) = base_seq" "rh_count (record_header crc ?r) = n"
    by (simp_all add: record_header_def RecordHeader_new_def Let_def)
  show ?thesis
    using encode_record_wire [of crc ?r] decode_record_wire [OF f, of crc rest] h record_body_len [OF f, of crc]
    by (intro exI [of _ "record_wire crc ?r"] exI [of _ "record_header crc ?r"]) simp
qed

theorem record_codec_round_trip_witness:
  "\<exists>wire hdr. encode_record (\<lambda>bs. of_nat (length bs)) QueueIndexBatch 7 3 1 [1, 2, 3] = Inr wire \<and>
    decode_record (\<lambda>bs. of_nat (length bs)) (wire @ [0, 0]) = Some (Inr (hdr, [1, 2, 3])) \<and> rh_base_seq hdr = 3"
  using record_codec_round_trip [of "[1, 2, 3]" "\<lambda>bs. of_nat (length bs)" QueueIndexBatch 7 3 1 "[0, 0]"] by auto

text \<open>
  C37. Decoding is total and what it accepts is well formed. On every buffer \<open>decode_record\<close> returns, without
  a slice out of range; when it accepts, the header has the magic, the version, a known kind, known flags
  and a header length of at least 40, the buffer starts with exactly that header and body, and the
  checksum in the header is the one computed over the header with a zero checksum and the body.
\<close>

theorem decode_record_typed:
  "\<exists>r. decode_record crc buf = Some r \<and> (case r of Inl _ \<Rightarrow> True | Inr (h, body) \<Rightarrow>
     rh_magic h = AURUM_RECORD_MAGIC \<and> rh_version h = RECORD_VERSION_V0 \<and> (\<exists>k. rh_kind h = kind_as_u16 k) \<and>
     record_flags_from_bits (rh_flags h) = Some (rh_flags h) \<and> RECORD_HEADER_LEN \<le> rh_header_len h \<and>
     take (40 + length body) buf = write_header h @ body \<and> length body = unat (rh_body_len h) \<and>
     rh_record_crc32c h = crc32c_record crc (h\<lparr>rh_record_crc32c := 0\<rparr>) body)"
proof (rule decode_record_total [of crc buf])
  fix r
  assume "decode_record crc buf = Some r" and
    "\<And>h body. r = Inr (h, body) \<Longrightarrow> header_valid h \<and> length body = unat (rh_body_len h) \<and>
       take (40 + length body) buf = write_header h @ body \<and> rh_record_crc32c h = crc32c_record crc (h\<lparr>rh_record_crc32c := 0\<rparr>) body"
  then show ?thesis by (cases r) (auto simp: header_valid_def record_flags_from_bits_def split: if_splits)
qed

text \<open>
  C35. After a crash the scanner returns exactly the records that were written completely. For any log of
  records and any cut of its bytes, the scan succeeds, the records it returns are those of the longest
  prefix of whole records, the valid end is the end of the last of them, and a tail is reported exactly
  when bytes are left over.
\<close>

theorem scan_prefix_exact:
  assumes "\<forall>r\<in>set rs. record_fits r"
  shows "\<exists>j\<le>length rs. scan_segment_bytes crc sid (take k (log_bytes crc rs)) = Some (Inr
      \<lparr>ss_records = scanned sid 0 (take j rs), ss_valid_end = length (log_bytes crc (take j rs)),
       ss_truncated_tail = (length (log_bytes crc (take j rs)) < min k (length (log_bytes crc rs)))\<rparr>) \<and>
    length (log_bytes crc (take j rs)) \<le> k \<and> (j < length rs \<longrightarrow> k < length (log_bytes crc (take (Suc j) rs)))"
proof -
  obtain j tail where j: "j \<le> length rs" "take k (log_bytes crc rs) = log_bytes crc (take j rs) @ tail" "partial_tail crc tail"
    "j < length rs \<longrightarrow> k < length (log_bytes crc (take (Suc j) rs))" using log_prefix [OF assms] by blast
  have "length (take k (log_bytes crc rs)) = length (log_bytes crc (take j rs)) + length tail" using j(2) by simp
  then have "tail \<noteq> [] \<longleftrightarrow> length (log_bytes crc (take j rs)) < min k (length (log_bytes crc rs))" "length (log_bytes crc (take j rs)) \<le> k"
    by (auto simp: min_def split: if_splits)
  then show ?thesis
    using scan_segment_log [OF _ j(3), of "take j rs" sid] assms j by (intro exI [of _ j]) (auto dest: in_set_takeD)
qed

definition demo_record :: LogRecord where
  "demo_record = \<lparr>lr_kind = AckLedgerBatch, lr_stream_id = 7, lr_base_seq = 3, lr_count = 1, lr_body = [1, 2, 3]\<rparr>"

theorem scan_prefix_exact_witness:
  "scan_segment_bytes (\<lambda>_. 0) 1 (take 50 (log_bytes (\<lambda>_. 0) [demo_record, demo_record])) = Some (Inr
     \<lparr>ss_records = scanned 1 0 [demo_record], ss_valid_end = 43, ss_truncated_tail = True\<rparr>)"
proof -
  have l: "length (lr_body demo_record) = 3" "\<forall>r\<in>set [demo_record, demo_record]. record_fits r" by (simp_all add: demo_record_def record_fits_def)
  obtain j where j: "j \<le> length [demo_record, demo_record]" "scan_segment_bytes (\<lambda>_. 0) 1 (take 50 (log_bytes (\<lambda>_. 0) [demo_record, demo_record])) = Some (Inr
      \<lparr>ss_records = scanned 1 0 (take j [demo_record, demo_record]), ss_valid_end = length (log_bytes (\<lambda>_. 0) (take j [demo_record, demo_record])),
       ss_truncated_tail = (length (log_bytes (\<lambda>_. 0) (take j [demo_record, demo_record])) < min 50 (length (log_bytes (\<lambda>_. 0) [demo_record, demo_record])))\<rparr>)"
    "length (log_bytes (\<lambda>_. 0) (take j [demo_record, demo_record])) \<le> 50"
    "j < length [demo_record, demo_record] \<longrightarrow> 50 < length (log_bytes (\<lambda>_. 0) (take (Suc j) [demo_record, demo_record]))"
    using scan_prefix_exact [OF l(2), of "\<lambda>_. 0" 1 50] by blast
  consider "j = 0" | "j = 1" | "j = 2" using j(1) by fastforce
  then show ?thesis
  proof cases
    case 2
    then show ?thesis using j(2) by (simp add: l(1))
  qed (use j(3,4) l(1) in simp_all)
qed

section \<open>Recovery\<close>


definition demo_ref :: "64 word \<Rightarrow> PayloadRef" where
  "demo_ref off = \<lparr>pr_segment_id = 1, pr_offset = off, pr_index = 0, pr_len = 2, pr_checksum = 0\<rparr>"

definition demo_entries :: "QueueIndexEntry list" where
  "demo_entries = map (\<lambda>s. \<lparr>qe_queue_id = 1, qe_queue_seq = s, qe_payload_ref = demo_ref s, qe_flags = 0\<rparr>) [0, 1, 2]"


text \<open>
  C33. The storage engine is durable and tolerates a torn tail. Take any run of the engine from an empty
  disk: publications to any queues, acknowledgements, restarts. Cut the index file and the ledger file of
  a queue at any byte, and let any bytes follow the payload log, as a crash in the middle of an append leaves
  them. Recovery then returns an image, and for some number of whole publications and of whole
  acknowledgements (all of them where the file was not cut) the image is exactly the messages of those
  publications that those acknowledgements do not cover, in order, with the next sequence number; and every
  reference in it reads back the payload that was published under its number. The conditions bound the
  sizes: of a batch, of its sequence numbers and of the files.
\<close>

theorem engine_recovers:
  assumes "engine_run crc h e d"
    and "file_bytes d' (index_path q) = take k (file_bytes d (index_path q))" and "file_bytes d' (ack_path q) = take l (file_bytes d (ack_path q))"
    and "file_bytes d' payload_path = file_bytes d payload_path @ junk" and "length (file_bytes d' payload_path) \<le> u64_max"
  shows "\<exists>j m. (length (file_bytes d (index_path q)) \<le> k \<longrightarrow> j = length (published_batches q h)) \<and>
    (length (file_bytes d (ack_path q)) \<le> l \<longrightarrow> m = length (acked_batches q h)) \<and>
    ok (engine_recover_queue crc q d') (\<lambda>(r, d''). file_bytes d'' = file_bytes d' \<and> (\<exists>im. r = Inr im \<and> ri_queue_id im = q \<and>
      image_of crc (se_payload_log e) d'' (concat (take j (published_batches q h))) (\<Union> (set (take m (acked_batches q h)))) im))"
  by (rule recover_run [OF engine_run_inv [OF assms(1)] engine_run_events [OF assms(1)] assms(2-5)])


lemma demo_created:
  obtains e d where "engine_run (\<lambda>_. 0) [] e d" "file_bytes d = (\<lambda>_. [])"
proof -
  obtain e d where o: "engine_open Buffered Map.empty = (e, d)" by fastforce
  show ?thesis by (rule that [OF engine_run.run_create [OF o]]) (simp add: engine_open_files(1) [OF o], simp add: file_bytes_def fun_eq_iff)
qed


lemma demo_published:
  obtains e d where "engine_run (\<lambda>_. 0) [EvPublish 1 0 [[104, 105]]] e d"
proof -
  obtain e d where r: "engine_run (\<lambda>_. 0) [] e d" "file_bytes d = (\<lambda>_. [])" by (rule demo_created)
  have ev: "event_ok (EvPublish 1 0 [[104, 105]])" by (simp add: encode_payload_body_length u64_max_def)
  obtain e' d' where "append_publish (\<lambda>_. 0) e 1 0 [[104, 105]] d = Some (Inr (), e', d')"
    by (rule append_publish_returns [OF engine_run_inv [OF r(1)] ev]) (simp_all add: r(2) encode_payload_body_length u64_max_def)
  then show ?thesis using engine_run.run_publish [OF r(1) ev] that by auto
qed

theorem engine_recovers_witness:
  "\<exists>e d. engine_run (\<lambda>_. 0) [EvPublish 1 0 [[104, 105]]] e d \<and>
     ok (engine_recover_queue (\<lambda>_. 0) 1 d) (\<lambda>(r, _). \<exists>im. r = Inr im \<and> map rm_queue_seq (ri_ready im) = [0] \<and> ri_next_seq im = 1)"
proof -
  obtain e d where r: "engine_run (\<lambda>_. 0) [EvPublish 1 0 [[104, 105]]] e d" by (rule demo_published)
  have f: "length (file_bytes d payload_path) \<le> u64_max"
    using engine_run_inv [OF r] by (auto simp: engine_inv_def payload_ok_def log_at_def)
  have s: "map rm_queue_seq (ri_ready im) = [0] \<and> ri_next_seq im = 1" if "image_of (\<lambda>_. 0) l d [(0, [104, 105])] {} im" for im l d
    using that strict_sorted_equal [of "map rm_queue_seq (ri_ready im)" "[0]"] by (simp add: image_of_def)
  have "ok (engine_recover_queue (\<lambda>_. 0) 1 d) (\<lambda>(r, d'). \<exists>im. r = Inr im \<and> image_of (\<lambda>_. 0) (se_payload_log e) d' [(0, [104, 105])] {} im)"
    using engine_recovers [OF r, of d 1 "length (file_bytes d (index_path 1))" "length (file_bytes d (ack_path 1))" "[]"] f
    by (auto simp: upt_rec intro: ok_mono)
  then have "ok (engine_recover_queue (\<lambda>_. 0) 1 d) (\<lambda>(r, _). \<exists>im. r = Inr im \<and> map rm_queue_seq (ri_ready im) = [0] \<and> ri_next_seq im = 1)"
    by (rule ok_mono) (use s in blast)
  then show ?thesis using r by blast
qed

section \<open>Where the storage falls short\<close>



text \<open>The image does not depend on the word index of a mask entry: every mask is applied at its block's base.\<close>

lemma mask_word_index_ignored:
  "build_image q es (as @ LedgerAckMask q' b w m # as') = build_image q es (as @ LedgerAckMask q' b w' m # as')"
proof -
  have "settled_seqs_of q (as @ LedgerAckMask q' b w m # as') S = settled_seqs_of q (as @ LedgerAckMask q' b w' m # as') S" for S
    by (induction as arbitrary: S) (simp_all split: Option.bind_split)
  then show ?thesis by (simp add: build_image_def)
qed

text \<open>A payload body whose lengths pass its end is a panic of the reader, not an error.\<close>

lemma decode_payload_at_panics:
  "decode_payload_at [1, 0, 0, 0, 9, 0, 0, 0] 0 = None"
  by code_simp

text \<open>Encoding never fails: a body of 2 to the power 32 bytes or more is written with a wrapped length.\<close>

lemma encode_record_never_fails: "\<exists>wire. encode_record crc kind stream_id base_seq n body = Inr wire"
  by (simp add: encode_record_def Let_def)

end
