(* ===== verification/Routing.thy ===== *)
theory Routing
  imports Le_Bytes "HOL-Library.Product_Lexorder" "HOL-Library.List_Lexorder"
begin

text \<open>
  The route compiler and the route table of \<open>crates/aurum-routing/src\<close>: exchanges and bindings are
  compiled into route entries and queue sets, which publishers then look up by number. Routing keys
  and names are their bytes, ordered as the byte strings of the language are. Hash maps are maps and
  the ordered map is an association list in the order of its keys. Indexing out of range is \<open>None\<close>.
\<close>

section \<open>Declarations\<close>

datatype ExchangeKind = Direct | Fanout | Topic | Headers

record ExchangeDecl =
  xd_id :: "32 word"
  xd_name :: "byte list"
  xd_kind :: ExchangeKind
  xd_flags :: "16 word"

definition exchange_direct :: "32 word \<Rightarrow> byte list \<Rightarrow> ExchangeDecl" where
  "exchange_direct xid name = \<lparr>xd_id = xid, xd_name = name, xd_kind = Direct, xd_flags = 0\<rparr>"

definition exchange_fanout :: "32 word \<Rightarrow> byte list \<Rightarrow> ExchangeDecl" where
  "exchange_fanout xid name = \<lparr>xd_id = xid, xd_name = name, xd_kind = Fanout, xd_flags = 0\<rparr>"

record CompiledExchange =
  ce_id :: "32 word"
  ce_kind :: ExchangeKind
  ce_flags :: "16 word"
  ce_fanout_route_index :: "32 word option"

definition BINDING_ACTIVE :: "16 word" where
  "BINDING_ACTIVE = push_bit 0 1"

record BindingDecl =
  bd_exchange_id :: "32 word"
  bd_queue_id :: "32 word"
  bd_routing_key :: "byte list"
  bd_flags :: "16 word"
  bd_target_shard :: "16 word"

definition binding_direct :: "32 word \<Rightarrow> 32 word \<Rightarrow> byte list \<Rightarrow> BindingDecl" where
  "binding_direct exchange_id queue_id routing_key =
     \<lparr>bd_exchange_id = exchange_id, bd_queue_id = queue_id, bd_routing_key = routing_key, bd_flags = BINDING_ACTIVE, bd_target_shard = 0\<rparr>"

definition binding_fanout :: "32 word \<Rightarrow> 32 word \<Rightarrow> BindingDecl" where
  "binding_fanout exchange_id queue_id =
     \<lparr>bd_exchange_id = exchange_id, bd_queue_id = queue_id, bd_routing_key = [], bd_flags = BINDING_ACTIVE, bd_target_shard = 0\<rparr>"

definition fnv1a64 :: "byte list \<Rightarrow> 64 word" where
  "fnv1a64 bytes = foldl (\<lambda>hash b. (hash XOR ucast b) * 0x0100000001b3) 0xcbf29ce484222325 bytes"

definition binding_routing_hash :: "BindingDecl \<Rightarrow> 64 word" where
  "binding_routing_hash b = fnv1a64 (bd_routing_key b)"

record RoutingConfig =
  rc_version :: "64 word"
  rc_exchanges :: "ExchangeDecl list"
  rc_bindings :: "BindingDecl list"

definition config_new :: "64 word \<Rightarrow> RoutingConfig" where
  "config_new version = \<lparr>rc_version = version, rc_exchanges = [], rc_bindings = []\<rparr>"

definition add_exchange :: "RoutingConfig \<Rightarrow> ExchangeDecl \<Rightarrow> RoutingConfig" where
  "add_exchange c x = c\<lparr>rc_exchanges := rc_exchanges c @ [x]\<rparr>"

definition add_binding :: "RoutingConfig \<Rightarrow> BindingDecl \<Rightarrow> RoutingConfig" where
  "add_binding c b = c\<lparr>rc_bindings := rc_bindings c @ [b]\<rparr>"

section \<open>Queue sets\<close>

record QueueTarget =
  qt_shard_id :: "16 word"
  qt_queue_id :: "32 word"

record SmallQueueSet =
  sq_len :: byte
  sq_targets :: "QueueTarget list"

record ShardQueueGroupOwned =
  sg_shard_id :: "16 word"
  sg_queues :: "32 word list"

datatype QueueSetEntry = EmptySet | One QueueTarget | Small SmallQueueSet | ShardGrouped "ShardQueueGroupOwned list"

datatype QueueSetRef = EmptyRef | OneRef QueueTarget | SmallRef SmallQueueSet | ShardGroupedRef "ShardQueueGroupOwned list"

definition storage_push :: "QueueSetEntry list \<Rightarrow> QueueSetEntry \<Rightarrow> 32 word \<times> QueueSetEntry list" where
  "storage_push sets entry = (of_nat (length sets), sets @ [entry])"

definition storage_get :: "QueueSetEntry list \<Rightarrow> 32 word \<Rightarrow> QueueSetEntry option" where
  "storage_get sets i = (if unat i < length sets then Some (sets ! unat i) else None)"

definition storage_get_ref :: "QueueSetEntry list \<Rightarrow> 32 word \<Rightarrow> QueueSetRef" where
  "storage_get_ref sets i = (case storage_get sets i of
       Some EmptySet \<Rightarrow> EmptyRef
     | None \<Rightarrow> EmptyRef
     | Some (One t) \<Rightarrow> OneRef t
     | Some (Small s) \<Rightarrow> SmallRef s
     | Some (ShardGrouped g) \<Rightarrow> ShardGroupedRef g)"

text \<open>The ordered set of the shards of a list of targets.\<close>

fun insert_shard :: "16 word \<Rightarrow> 16 word list \<Rightarrow> 16 word list" where
  "insert_shard s [] = [s]"
| "insert_shard s (x # xs) = (if s < x then s # x # xs else if s = x then x # xs else x # insert_shard s xs)"

definition shard_groups :: "QueueTarget list \<Rightarrow> 16 word list" where
  "shard_groups targets = fold (\<lambda>t. insert_shard (qt_shard_id t)) targets []"

fun group_queues :: "16 word \<Rightarrow> QueueTarget list \<Rightarrow> 32 word list \<Rightarrow> 32 word list" where
  "group_queues shard [] queues = queues"
| "group_queues shard (t # ts) queues =
     (if qt_shard_id t = shard then
        (if qt_queue_id t \<notin> set queues then group_queues shard ts (queues @ [qt_queue_id t]) else group_queues shard ts queues)
      else group_queues shard ts queues)"

definition queue_set_build :: "QueueTarget list \<Rightarrow> QueueSetEntry" where
  "queue_set_build targets =
     (if targets = [] then EmptySet
      else if length targets = 1 then One (targets ! 0)
      else
        (let shards = shard_groups targets in
         if length targets \<le> 4 \<and> length shards = 1 then
           (let arr = fold (\<lambda>(i, t) arr. arr[i := t]) (enumerate 0 targets) (replicate 4 \<lparr>qt_shard_id = 0, qt_queue_id = 0\<rparr>)
            in Small \<lparr>sq_len = of_nat (length targets), sq_targets = arr\<rparr>)
         else ShardGrouped (map (\<lambda>shard. \<lparr>sg_shard_id = shard, sg_queues = group_queues shard targets []\<rparr>) shards)))"

text \<open>The targets that \<open>for_each_target\<close> passes to its callback, in order.\<close>

definition for_each_target :: "QueueSetRef \<Rightarrow> QueueTarget list option" where
  "for_each_target r = (case r of
       EmptyRef \<Rightarrow> Some []
     | OneRef t \<Rightarrow> Some [t]
     | SmallRef s \<Rightarrow> slice 0 (unat (sq_len s)) (sq_targets s)
     | ShardGroupedRef gs \<Rightarrow>
         Some (concat (map (\<lambda>g. map (\<lambda>q. \<lparr>qt_shard_id = sg_shard_id g, qt_queue_id = q\<rparr>) (sg_queues g)) gs)))"

definition target_count :: "QueueSetRef \<Rightarrow> nat" where
  "target_count r = (case r of EmptyRef \<Rightarrow> 0 | OneRef _ \<Rightarrow> 1 | SmallRef s \<Rightarrow> unat (sq_len s)
     | ShardGroupedRef gs \<Rightarrow> sum_list (map (\<lambda>g. length (sg_queues g)) gs))"

definition targets_vec :: "QueueSetRef \<Rightarrow> QueueTarget list option" where
  "targets_vec r = for_each_target r"

section \<open>Route table\<close>

definition ROUTE_FANOUT :: "16 word" where
  "ROUTE_FANOUT = push_bit 0 1"

definition ROUTE_DIRECT :: "16 word" where
  "ROUTE_DIRECT = push_bit 1 1"

definition HAS_MULTIPLE_TARGETS :: "16 word" where
  "HAS_MULTIPLE_TARGETS = push_bit 2 1"

definition UNROUTABLE :: "16 word" where
  "UNROUTABLE = push_bit 3 1"

definition route_flags_contain :: "16 word \<Rightarrow> 16 word \<Rightarrow> bool" where
  "route_flags_contain flags f \<longleftrightarrow> flags AND f = f"

datatype RouteCompileError = DuplicateExchangeId | CompileExchangeNotFound | CompileUnsupportedExchangeKind | EmptyConfig

datatype RouteResolveError = ResolveExchangeNotFound | ResolveUnsupportedExchangeKind | ResolveUnroutable

datatype RouteLookupError = RouteTableVersionMismatch | RouteGenerationMismatch | RouteIdInvalid | LookupUnroutable

record RouteId =
  ri_index :: "32 word"
  ri_generation :: "32 word"

record RouteEntry =
  re_generation :: "32 word"
  re_exchange_id :: "32 word"
  re_routing_hash :: "64 word"
  re_routing_len :: "16 word"
  re_queue_set_id :: "32 word"
  re_flags :: "16 word"

record ResolvedRoute =
  rr_route_id :: RouteId
  rr_version :: "64 word"
  rr_flags :: "16 word"

record RouteTable =
  rt_version :: "64 word"
  rt_exchanges :: "CompiledExchange list"
  rt_route_entries :: "RouteEntry list"
  rt_queue_sets :: "QueueSetEntry list"
  rt_direct_index :: "32 word \<times> byte list \<Rightarrow> RouteId option"
  rt_exchange_by_id :: "32 word \<Rightarrow> nat option"
  rt_exchange_names :: "byte list \<Rightarrow> 32 word option"

definition table_new_empty :: "64 word \<Rightarrow> RouteTable" where
  "table_new_empty version = \<lparr>rt_version = version, rt_exchanges = [], rt_route_entries = [], rt_queue_sets = [],
     rt_direct_index = Map.empty, rt_exchange_by_id = Map.empty, rt_exchange_names = Map.empty\<rparr>"

definition exchange_id_by_name :: "RouteTable \<Rightarrow> byte list \<Rightarrow> 32 word option" where
  "exchange_id_by_name t name = rt_exchange_names t name"

definition exchange_at :: "RouteTable \<Rightarrow> 32 word \<Rightarrow> CompiledExchange option" where
  "exchange_at t exchange_id = do {
     i \<leftarrow> rt_exchange_by_id t exchange_id;
     (if i < length (rt_exchanges t) then Some (rt_exchanges t ! i) else None)
   }"

definition resolve_direct :: "RouteTable \<Rightarrow> 32 word \<Rightarrow> byte list \<Rightarrow> (RouteResolveError + ResolvedRoute) option" where
  "resolve_direct t exchange_id routing_key =
     (case exchange_at t exchange_id of
        None \<Rightarrow> Some (Inl ResolveExchangeNotFound)
      | Some exchange \<Rightarrow>
          (case ce_kind exchange of
             Direct \<Rightarrow>
               (case rt_direct_index t (exchange_id, routing_key) of
                  None \<Rightarrow> Some (Inl ResolveUnroutable)
                | Some route_id \<Rightarrow>
                    (if unat (ri_index route_id) < length (rt_route_entries t) then
                       (let entry = rt_route_entries t ! unat (ri_index route_id) in
                        if route_flags_contain (re_flags entry) UNROUTABLE then Some (Inl ResolveUnroutable)
                        else Some (Inr \<lparr>rr_route_id = route_id, rr_version = rt_version t, rr_flags = re_flags entry\<rparr>))
                     else None))
           | Fanout \<Rightarrow>
               (case ce_fanout_route_index exchange of
                  None \<Rightarrow> Some (Inl ResolveUnroutable)
                | Some i \<Rightarrow>
                    (if unat i < length (rt_route_entries t) then
                       (let entry = rt_route_entries t ! unat i in
                        if route_flags_contain (re_flags entry) UNROUTABLE then Some (Inl ResolveUnroutable)
                        else Some (Inr \<lparr>rr_route_id = \<lparr>ri_index = i, ri_generation = re_generation entry\<rparr>, rr_version = rt_version t,
                          rr_flags = re_flags entry\<rparr>))
                     else None))
           | Topic \<Rightarrow> Some (Inl ResolveUnsupportedExchangeKind)
           | Headers \<Rightarrow> Some (Inl ResolveUnsupportedExchangeKind)))"

definition resolve_direct_by_name :: "RouteTable \<Rightarrow> byte list \<Rightarrow> byte list \<Rightarrow> (RouteResolveError + ResolvedRoute) option" where
  "resolve_direct_by_name t exchange_name routing_key =
     (case exchange_id_by_name t exchange_name of
        None \<Rightarrow> Some (Inl ResolveExchangeNotFound)
      | Some exchange_id \<Rightarrow> resolve_direct t exchange_id routing_key)"

definition get_by_route_id :: "RouteTable \<Rightarrow> RouteId \<Rightarrow> 64 word \<Rightarrow> RouteLookupError + QueueSetRef" where
  "get_by_route_id t route_id expected_version =
     (if rt_version t \<noteq> expected_version then Inl RouteTableVersionMismatch
      else if length (rt_route_entries t) \<le> unat (ri_index route_id) then Inl RouteIdInvalid
      else
        (let entry = rt_route_entries t ! unat (ri_index route_id) in
         if re_generation entry \<noteq> ri_generation route_id then Inl RouteGenerationMismatch
         else if route_flags_contain (re_flags entry) UNROUTABLE then Inl LookupUnroutable
         else Inr (storage_get_ref (rt_queue_sets t) (re_queue_set_id entry))))"

definition push_exchange :: "CompiledExchange \<Rightarrow> byte list \<Rightarrow> RouteTable \<Rightarrow> RouteTable" where
  "push_exchange exchange name t =
     t\<lparr>rt_exchange_names := (rt_exchange_names t)(name \<mapsto> ce_id exchange),
       rt_exchange_by_id := (rt_exchange_by_id t)(ce_id exchange \<mapsto> length (rt_exchanges t)),
       rt_exchanges := rt_exchanges t @ [exchange]\<rparr>"

definition push_route_entry :: "RouteEntry \<Rightarrow> RouteTable \<Rightarrow> RouteId \<times> RouteTable" where
  "push_route_entry entry t =
     (\<lparr>ri_index = of_nat (length (rt_route_entries t)), ri_generation = re_generation entry\<rparr>,
      t\<lparr>rt_route_entries := rt_route_entries t @ [entry]\<rparr>)"

definition map_direct :: "32 word \<Rightarrow> byte list \<Rightarrow> RouteId \<Rightarrow> RouteTable \<Rightarrow> RouteTable" where
  "map_direct exchange_id routing_key route_id t = t\<lparr>rt_direct_index := (rt_direct_index t)((exchange_id, routing_key) \<mapsto> route_id)\<rparr>"

definition routing_hash_for_key :: "byte list \<Rightarrow> 64 word" where
  "routing_hash_for_key routing_key = fnv1a64 routing_key"

text \<open>The targets of a set by shard: a map from shards to queues in the order of the visit, then sorted.\<close>

fun push_by :: "'k::linorder \<Rightarrow> 'v \<Rightarrow> ('k \<times> 'v list) list \<Rightarrow> ('k \<times> 'v list) list" where
  "push_by k v [] = [(k, [v])]"
| "push_by k v ((k', vs) # xs) =
     (if k < k' then (k, [v]) # (k', vs) # xs else if k = k' then (k', vs @ [v]) # xs else (k', vs) # push_by k v xs)"

definition targets_by_shard :: "QueueSetRef \<Rightarrow> (16 word \<times> 32 word list) list option" where
  "targets_by_shard r = do {
     ts \<leftarrow> for_each_target r;
     Some (fold (\<lambda>t. push_by (qt_shard_id t) (qt_queue_id t)) ts [])
   }"

section \<open>Route compiler\<close>

fun retain_new :: "QueueTarget list \<Rightarrow> QueueTarget set \<Rightarrow> QueueTarget list" where
  "retain_new [] seen = []"
| "retain_new (t # ts) seen = (if t \<in> seen then retain_new ts seen else t # retain_new ts (insert t seen))"

definition dedupe_targets :: "QueueTarget list \<Rightarrow> QueueTarget list" where
  "dedupe_targets targets = sort_key (\<lambda>t. (qt_shard_id t, qt_queue_id t)) (retain_new targets {})"

definition binding_target :: "BindingDecl \<Rightarrow> QueueTarget" where
  "binding_target b = \<lparr>qt_shard_id = bd_target_shard b, qt_queue_id = bd_queue_id b\<rparr>"

fun targets_by_key :: "32 word \<Rightarrow> BindingDecl list \<Rightarrow> (byte list \<times> QueueTarget list) list \<Rightarrow> (byte list \<times> QueueTarget list) list" where
  "targets_by_key exchange_id [] by_key = by_key"
| "targets_by_key exchange_id (b # bs) by_key =
     (if bd_exchange_id b \<noteq> exchange_id then targets_by_key exchange_id bs by_key
      else targets_by_key exchange_id bs (push_by (bd_routing_key b) (binding_target b) by_key))"

definition route_flags_for_entry :: "QueueSetEntry \<Rightarrow> 16 word \<Rightarrow> 16 word" where
  "route_flags_for_entry entry base = (case entry of
       EmptySet \<Rightarrow> base OR UNROUTABLE
     | One _ \<Rightarrow> base
     | Small s \<Rightarrow> (if 1 < sq_len s then base OR HAS_MULTIPLE_TARGETS else base)
     | ShardGrouped _ \<Rightarrow> base OR HAS_MULTIPLE_TARGETS)"

definition compile_key :: "32 word \<Rightarrow> byte list \<times> QueueTarget list \<Rightarrow> RouteTable \<Rightarrow> RouteTable" where
  "compile_key exchange_id = (\<lambda>(routing_key, targets) t.
     let targets = dedupe_targets targets;
         entry = queue_set_build targets;
         flags = route_flags_for_entry entry ROUTE_DIRECT;
         (queue_set_id, sets) = storage_push (rt_queue_sets t) entry;
         t = t\<lparr>rt_queue_sets := sets\<rparr>;
         (route_id, t) = push_route_entry \<lparr>re_generation = 1, re_exchange_id = exchange_id, re_routing_hash = routing_hash_for_key routing_key,
           re_routing_len = of_nat (min (length routing_key) 65535), re_queue_set_id = queue_set_id, re_flags = flags\<rparr> t
     in map_direct exchange_id routing_key route_id t)"

definition compile_direct :: "ExchangeDecl \<Rightarrow> RoutingConfig \<Rightarrow> RouteTable \<Rightarrow> RouteTable" where
  "compile_direct exchange config t =
     (let by_key = targets_by_key (xd_id exchange) (rc_bindings config) [];
          t = push_exchange \<lparr>ce_id = xd_id exchange, ce_kind = Direct, ce_flags = xd_flags exchange, ce_fanout_route_index = None\<rparr> (xd_name exchange) t
      in fold (compile_key (xd_id exchange)) by_key t)"

definition compile_fanout :: "ExchangeDecl \<Rightarrow> RoutingConfig \<Rightarrow> RouteTable \<Rightarrow> RouteTable" where
  "compile_fanout exchange config t =
     (let targets = map binding_target (filter (\<lambda>b. bd_exchange_id b = xd_id exchange) (rc_bindings config));
          targets = dedupe_targets targets;
          entry = (if targets = [] then EmptySet else queue_set_build targets);
          flags = route_flags_for_entry entry ROUTE_FANOUT;
          flags = (if targets = [] then flags OR UNROUTABLE else flags);
          (queue_set_id, sets) = storage_push (rt_queue_sets t) entry;
          t = t\<lparr>rt_queue_sets := sets\<rparr>;
          (route_id, t) = push_route_entry \<lparr>re_generation = 1, re_exchange_id = xd_id exchange, re_routing_hash = routing_hash_for_key [],
            re_routing_len = 0, re_queue_set_id = queue_set_id, re_flags = flags\<rparr> t
      in push_exchange \<lparr>ce_id = xd_id exchange, ce_kind = Fanout, ce_flags = xd_flags exchange, ce_fanout_route_index = Some (ri_index route_id)\<rparr>
           (xd_name exchange) t)"

fun compile_exchanges :: "ExchangeDecl list \<Rightarrow> RoutingConfig \<Rightarrow> RouteTable \<Rightarrow> RouteCompileError + RouteTable" where
  "compile_exchanges [] config t = Inr t"
| "compile_exchanges (x # xs) config t = (case xd_kind x of
       Direct \<Rightarrow> compile_exchanges xs config (compile_direct x config t)
     | Fanout \<Rightarrow> compile_exchanges xs config (compile_fanout x config t)
     | Topic \<Rightarrow> Inl CompileUnsupportedExchangeKind
     | Headers \<Rightarrow> Inl CompileUnsupportedExchangeKind)"

fun has_duplicate :: "ExchangeDecl list \<Rightarrow> 32 word set \<Rightarrow> bool" where
  "has_duplicate [] seen = False"
| "has_duplicate (x # xs) seen = (if xd_id x \<in> seen then True else has_duplicate xs (insert (xd_id x) seen))"

definition compile :: "RoutingConfig \<Rightarrow> RouteCompileError + RouteTable" where
  "compile config =
     (if rc_exchanges config = [] then Inl EmptyConfig
      else if has_duplicate (rc_exchanges config) {} then Inl DuplicateExchangeId
      else if \<exists>b\<in>set (rc_bindings config). bd_exchange_id b \<notin> xd_id ` set (rc_exchanges config) then Inl CompileExchangeNotFound
      else compile_exchanges (rc_exchanges config) config (table_new_empty (rc_version config)))"

end
