(* ===== verification/Internal_Protocol.thy ===== *)
theory Internal_Protocol
  imports Consumer_Session Routing
begin

text \<open>
  \<open>crates/aurum-internal-protocol/src\<close>: the commands that protocol adapters send to the broker and the
  events that come back. Identifiers of queues, exchanges and routes are words as in the route table;
  consumers, channels, tags, sequence numbers and payload handles are natural numbers within their width.
  The sink of the events is the output batch of the shard executor, \<open>in_memory/output.rs\<close>.
\<close>

section \<open>Commands\<close>

record DeclareQueue =
  dq_queue_id :: "32 word"

definition declare_queue_one :: "32 word \<Rightarrow> DeclareQueue list" where
  "declare_queue_one queue_id = [\<lparr>dq_queue_id = queue_id\<rparr>]"

record RoutePublishTarget =
  rp_route_id :: RouteId
  rp_route_version :: "64 word"

datatype IngressPublishTarget =
    ToRoute RoutePublishTarget
  | ToQueue "32 word"
  | ToExchangeKey "32 word" "64 word"

datatype ConfirmMode = ConfirmNone | ConfirmAccepted | ConfirmLocalDurable | ConfirmQuorum

record PublishRecord =
  pb_payload :: nat
  pb_payload_len :: nat
  pb_message_flags :: "8 word"
  pb_priority :: "8 word"
  pb_expiration_ms :: "nat option"
  pb_key_hash :: nat

definition publish_record_simple :: "nat \<Rightarrow> nat \<Rightarrow> PublishRecord" where
  "publish_record_simple payload len =
     \<lparr>pb_payload = payload, pb_payload_len = len, pb_message_flags = 0, pb_priority = 0, pb_expiration_ms = None, pb_key_hash = 0\<rparr>"

record IngressPublishBatch =
  ip_batch_id :: nat
  ip_source :: nat
  ip_target :: IngressPublishTarget
  ip_flags :: "16 word"
  ip_confirm_mode :: ConfirmMode
  ip_records :: "PublishRecord list"

record ShardPublishBatch =
  sp_batch_id :: nat
  sp_source :: nat
  sp_queue_id :: "32 word"
  sp_route_id :: "RouteId option"
  sp_flags :: "16 word"
  sp_confirm_mode :: ConfirmMode
  sp_record_count :: nat
  sp_records :: "PublishRecord list"

definition shard_publish_new :: "32 word \<Rightarrow> PublishRecord list \<Rightarrow> ShardPublishBatch" where
  "shard_publish_new queue_id records =
     \<lparr>sp_batch_id = 0, sp_source = 0, sp_queue_id = queue_id, sp_route_id = None, sp_flags = 0, sp_confirm_mode = ConfirmNone,
      sp_record_count = 0, sp_records = records\<rparr>"

definition shard_publish_contiguous :: "32 word \<Rightarrow> nat \<Rightarrow> ShardPublishBatch" where
  "shard_publish_contiguous queue_id n =
     \<lparr>sp_batch_id = 0, sp_source = 0, sp_queue_id = queue_id, sp_route_id = None, sp_flags = 0, sp_confirm_mode = ConfirmNone,
      sp_record_count = n, sp_records = []\<rparr>"

definition publish_count :: "ShardPublishBatch \<Rightarrow> nat" where
  "publish_count b = (if 0 < sp_record_count b then sp_record_count b else as_u32 (length (sp_records b)))"

record ConsumeStart =
  cm_consumer_id :: nat
  cm_channel_id :: nat
  cm_queue_id :: "32 word"
  cm_prefetch :: nat
  cm_flags :: "8 word"

definition consume_start_new :: "nat \<Rightarrow> nat \<Rightarrow> 32 word \<Rightarrow> nat \<Rightarrow> ConsumeStart" where
  "consume_start_new consumer_id channel_id queue_id prefetch =
     \<lparr>cm_consumer_id = consumer_id, cm_channel_id = channel_id, cm_queue_id = queue_id, cm_prefetch = prefetch, cm_flags = 0\<rparr>"

record CreditUpdate =
  cu_consumer_id :: nat
  cu_delta :: int
  cu_new_prefetch :: "nat option"

definition credit_update_delta :: "nat \<Rightarrow> int \<Rightarrow> CreditUpdate" where
  "credit_update_delta consumer_id d = \<lparr>cu_consumer_id = consumer_id, cu_delta = d, cu_new_prefetch = None\<rparr>"

definition credit_update_set_prefetch :: "nat \<Rightarrow> nat \<Rightarrow> CreditUpdate" where
  "credit_update_set_prefetch consumer_id prefetch = \<lparr>cu_consumer_id = consumer_id, cu_delta = 0, cu_new_prefetch = Some prefetch\<rparr>"

datatype CancelDispositionCommand = CmdRequeueUnacked | CmdDropUnacked | CmdDeadLetterUnacked

record CancelConsumer =
  cx_consumer_id :: nat
  cx_disposition :: CancelDispositionCommand

definition cancel_requeue :: "nat \<Rightarrow> CancelConsumer" where
  "cancel_requeue consumer_id = \<lparr>cx_consumer_id = consumer_id, cx_disposition = CmdRequeueUnacked\<rparr>"

definition cancel_drop_unacked :: "nat \<Rightarrow> CancelConsumer" where
  "cancel_drop_unacked consumer_id = \<lparr>cx_consumer_id = consumer_id, cx_disposition = CmdDropUnacked\<rparr>"

datatype SettlementMode = SettleOne | SettleMultiple

datatype NackDisposition = NackRequeue | NackDeadLetter | NackDrop

datatype AckCommand =
    AckTag nat SettlementMode
  | AckTagRange nat nat
  | AckTagMask nat "64 word"

definition ack_command_one :: "nat \<Rightarrow> AckCommand" where
  "ack_command_one tag = AckTag tag SettleOne"

definition ack_command_multiple :: "nat \<Rightarrow> AckCommand" where
  "ack_command_multiple tag = AckTag tag SettleMultiple"

record AckCommandBatch =
  akb_consumer_id :: nat
  akb_flags :: "8 word"
  akb_items :: "AckCommand list"

definition ACK_MULTIPLE :: "8 word" where
  "ACK_MULTIPLE = 1"

definition ack_batch_one :: "nat \<Rightarrow> nat \<Rightarrow> AckCommandBatch" where
  "ack_batch_one consumer_id tag = \<lparr>akb_consumer_id = consumer_id, akb_flags = 0, akb_items = [ack_command_one tag]\<rparr>"

definition ack_batch_multiple :: "nat \<Rightarrow> nat \<Rightarrow> AckCommandBatch" where
  "ack_batch_multiple consumer_id tag = \<lparr>akb_consumer_id = consumer_id, akb_flags = ACK_MULTIPLE, akb_items = [ack_command_multiple tag]\<rparr>"

datatype NackCommand =
    NackTag nat SettlementMode NackDisposition
  | NackTagRange nat nat NackDisposition
  | NackTagMask nat "64 word" NackDisposition

definition nack_requeue_one :: "nat \<Rightarrow> NackCommand" where
  "nack_requeue_one tag = NackTag tag SettleOne NackRequeue"

definition nack_requeue_multiple :: "nat \<Rightarrow> NackCommand" where
  "nack_requeue_multiple tag = NackTag tag SettleMultiple NackRequeue"

record NackCommandBatch =
  nkb_consumer_id :: nat
  nkb_flags :: "8 word"
  nkb_items :: "NackCommand list"

definition NACK_MULTIPLE :: "8 word" where
  "NACK_MULTIPLE = 1"

definition NACK_REQUEUE :: "8 word" where
  "NACK_REQUEUE = 2"

definition nack_batch_requeue_multiple :: "nat \<Rightarrow> nat \<Rightarrow> NackCommandBatch" where
  "nack_batch_requeue_multiple consumer_id tag =
     \<lparr>nkb_consumer_id = consumer_id, nkb_flags = NACK_MULTIPLE OR NACK_REQUEUE, nkb_items = [nack_requeue_multiple tag]\<rparr>"

record RejectCommand =
  rj_tag :: nat
  rj_disposition :: NackDisposition

definition reject_drop_tag :: "nat \<Rightarrow> RejectCommand" where
  "reject_drop_tag tag = \<lparr>rj_tag = tag, rj_disposition = NackDrop\<rparr>"

definition reject_dead_letter :: "nat \<Rightarrow> RejectCommand" where
  "reject_dead_letter tag = \<lparr>rj_tag = tag, rj_disposition = NackDeadLetter\<rparr>"

record RejectCommandBatch =
  rjb_consumer_id :: nat
  rjb_items :: "RejectCommand list"

datatype ShardCommandBatch =
    CmdDeclare "DeclareQueue list"
  | CmdPublish ShardPublishBatch
  | CmdConsume "ConsumeStart list"
  | CmdCredit "CreditUpdate list"
  | CmdAck AckCommandBatch
  | CmdNack NackCommandBatch
  | CmdReject RejectCommandBatch
  | CmdCancel "CancelConsumer list"

record ResolveRouteCommand =
  rv_request_id :: nat
  rv_exchange_id :: "32 word"
  rv_exchange_name :: "byte list"
  rv_routing_key :: "byte list"

definition resolve_by_id :: "nat \<Rightarrow> 32 word \<Rightarrow> byte list \<Rightarrow> ResolveRouteCommand" where
  "resolve_by_id request_id exchange_id routing_key =
     \<lparr>rv_request_id = request_id, rv_exchange_id = exchange_id, rv_exchange_name = [], rv_routing_key = routing_key\<rparr>"

definition resolve_by_name :: "nat \<Rightarrow> byte list \<Rightarrow> byte list \<Rightarrow> ResolveRouteCommand" where
  "resolve_by_name request_id exchange_name routing_key =
     \<lparr>rv_request_id = request_id, rv_exchange_id = 0, rv_exchange_name = exchange_name, rv_routing_key = routing_key\<rparr>"

datatype IngressCommandBatch = IngressPublish IngressPublishBatch | IngressResolveRoute "ResolveRouteCommand list" | IngressControl

section \<open>Events\<close>

record PublishConfirmBatch =
  pc_source :: nat
  pc_batch_id :: nat
  pc_accepted :: nat
  pc_first_seq :: "nat option"
  pc_mode :: ConfirmMode

datatype SettlementKind = SettledAck | SettledNack | SettledReject | SettledCancel

record SettlementResultBatch =
  sr_consumer_id :: nat
  sr_kind_of :: SettlementKind
  sr_settled :: nat

datatype ConsumerEventKind = ConsumerStarted | ConsumerWasCancelled | CreditExhausted

record ConsumerEventBatch =
  ev_consumer_id :: nat
  ev_kind :: ConsumerEventKind

datatype CommandErrorKind =
    ErrInvalidRoute | ErrStaleRouteEpoch | ErrQueueNotFound | ErrConsumerNotFound | ErrInvalidDeliveryTag | ErrDeliveryTagAlreadySettled
  | ErrCreditExceeded | ErrPermissionDenied | ErrBackpressure | ErrInternalInvariantViolation | ErrDuplicateQueue | ErrDuplicateConsumer
  | ErrConsumerCancelled | ErrExchangeNotFound | ErrUnroutable | ErrRouteIdInvalid | ErrRouteGenerationMismatch

record CommandError =
  er_kind :: CommandErrorKind
  er_queue_id :: "32 word option"
  er_consumer_id :: "nat option"
  er_batch_id :: "nat option"

definition error_consumer :: "CommandErrorKind \<Rightarrow> nat \<Rightarrow> CommandError" where
  "error_consumer kind consumer_id = \<lparr>er_kind = kind, er_queue_id = None, er_consumer_id = Some consumer_id, er_batch_id = None\<rparr>"

definition error_queue :: "CommandErrorKind \<Rightarrow> 32 word \<Rightarrow> CommandError" where
  "error_queue kind queue_id = \<lparr>er_kind = kind, er_queue_id = Some queue_id, er_consumer_id = None, er_batch_id = None\<rparr>"

definition error_global :: "CommandErrorKind \<Rightarrow> CommandError" where
  "error_global kind = \<lparr>er_kind = kind, er_queue_id = None, er_consumer_id = None, er_batch_id = None\<rparr>"

datatype PayloadSpan = Contiguous nat nat | Sparse "nat list"

fun span_len :: "PayloadSpan \<Rightarrow> nat" where
  "span_len (Contiguous base len) = len"
| "span_len (Sparse v) = length v"

fun span_get :: "PayloadSpan \<Rightarrow> nat \<Rightarrow> nat option option" where
  "span_get (Contiguous base len) i = (if i < len then map_option Some (add_u64 base i) else Some None)"
| "span_get (Sparse v) i = Some (if i < length v then Some (v ! i) else None)"

text \<open>The handles that iterating over a span gives.\<close>

fun span_handles :: "PayloadSpan \<Rightarrow> nat list option" where
  "span_handles (Sparse v) = Some v"
| "span_handles (Contiguous base len) = those (map (add_u64 base) [0..<len])"

record DeliveryRangeSegment =
  drs_start_tag :: nat
  drs_start_seq :: nat
  drs_len :: nat
  drs_payloads :: PayloadSpan
  drs_flags :: "8 word"

record DeliveryMaskSegment =
  dms_base_tag :: nat
  dms_block :: nat
  dms_word :: nat
  dms_mask :: "64 word"
  dms_flags :: "8 word"

text \<open>The pairs of tag and handle of a mask segment, from its lowest bit on.\<close>

definition mask_handles :: "DeliveryMaskSegment \<Rightarrow> (nat \<times> nat) list option" where
  "mask_handles m = do {
     block_base \<leftarrow> add_u64 (dms_block m * 256) (dms_word m * 64);
     those (map (\<lambda>(tag_offset, tz). do {
       handle \<leftarrow> add_u64 block_base tz;
       tag \<leftarrow> add_u64 (dms_base_tag m) tag_offset;
       Some (tag, handle)
     }) (enumerate 0 (bits_of (dms_mask m))))
   }"

datatype DeliveryEventSegment = EventRange DeliveryRangeSegment | EventMask DeliveryMaskSegment

fun segment_first_tag :: "DeliveryEventSegment \<Rightarrow> nat" where
  "segment_first_tag (EventRange r) = drs_start_tag r"
| "segment_first_tag (EventMask m) = dms_base_tag m"

fun segment_count :: "DeliveryEventSegment \<Rightarrow> nat" where
  "segment_count (EventRange r) = drs_len r"
| "segment_count (EventMask m) = count_ones (dms_mask m)"

definition segment_last_tag :: "DeliveryEventSegment \<Rightarrow> nat option" where
  "segment_last_tag s = do {
     t \<leftarrow> add_u64 (segment_first_tag s) (segment_count s);
     sub_uint t 1
   }"

record DeliveryMetadata =
  md_exchange :: "byte list"
  md_routing_key :: "byte list"
  md_content_type :: "byte list"
  md_delivery_mode :: byte

definition metadata_default :: DeliveryMetadata where
  "metadata_default = \<lparr>md_exchange = [], md_routing_key = [], md_content_type = [], md_delivery_mode = 0\<rparr>"

record DeliveryEventBatch =
  de_consumer_id :: nat
  de_queue_id :: "32 word"
  de_channel_id :: nat
  de_segments :: "DeliveryEventSegment list"
  de_metadata :: DeliveryMetadata

definition batch_total_count :: "DeliveryEventBatch \<Rightarrow> nat" where
  "batch_total_count b = sum_list (map segment_count (de_segments b))"

definition batch_last_tag :: "DeliveryEventBatch \<Rightarrow> nat option option" where
  "batch_last_tag b = (if de_segments b = [] then Some None else map_option Some (segment_last_tag (last (de_segments b))))"

record RouteResolvedEvent =
  rv_event_request_id :: nat
  rv_event_route_id :: RouteId
  rv_event_route_version :: "64 word"
  rv_event_flags :: "16 word"

section \<open>The output batch\<close>

record ShardOutputBatch =
  so_deliveries :: "DeliveryEventBatch list"
  so_confirms :: "PublishConfirmBatch list"
  so_settlements :: "SettlementResultBatch list"
  so_consumer_events :: "ConsumerEventBatch list"
  so_route_resolved :: "RouteResolvedEvent list"
  so_errors :: "CommandError list"

definition output_default :: ShardOutputBatch where
  "output_default = \<lparr>so_deliveries = [], so_confirms = [], so_settlements = [], so_consumer_events = [], so_route_resolved = [], so_errors = []\<rparr>"

definition output_clear :: "ShardOutputBatch \<Rightarrow> ShardOutputBatch" where
  "output_clear o1 = o1\<lparr>so_deliveries := [], so_confirms := [], so_settlements := [], so_consumer_events := [], so_route_resolved := [], so_errors := []\<rparr>"

definition push_errors :: "CommandError list \<Rightarrow> ShardOutputBatch \<Rightarrow> ShardOutputBatch" where
  "push_errors errors o1 = o1\<lparr>so_errors := so_errors o1 @ errors\<rparr>"

definition output_total_delivered :: "ShardOutputBatch \<Rightarrow> nat" where
  "output_total_delivered o1 = sum_list (map batch_total_count (so_deliveries o1))"

definition output_total_settled :: "ShardOutputBatch \<Rightarrow> nat option" where
  "output_total_settled o1 = sum_u32 (map sr_settled (so_settlements o1))"

definition output_total_confirmed :: "ShardOutputBatch \<Rightarrow> nat option" where
  "output_total_confirmed o1 = sum_u32 (map pc_accepted (so_confirms o1))"

definition on_delivery :: "DeliveryEventBatch \<Rightarrow> ShardOutputBatch \<Rightarrow> ShardOutputBatch" where
  "on_delivery b o1 = o1\<lparr>so_deliveries := so_deliveries o1 @ [b]\<rparr>"

definition on_settlement :: "SettlementResultBatch \<Rightarrow> ShardOutputBatch \<Rightarrow> ShardOutputBatch" where
  "on_settlement r o1 = o1\<lparr>so_settlements := so_settlements o1 @ [r]\<rparr>"

definition on_confirm :: "PublishConfirmBatch \<Rightarrow> ShardOutputBatch \<Rightarrow> ShardOutputBatch" where
  "on_confirm b o1 = o1\<lparr>so_confirms := so_confirms o1 @ [b]\<rparr>"

definition on_consumer :: "ConsumerEventBatch \<Rightarrow> ShardOutputBatch \<Rightarrow> ShardOutputBatch" where
  "on_consumer e o1 = o1\<lparr>so_consumer_events := so_consumer_events o1 @ [e]\<rparr>"

definition on_error :: "CommandError list \<Rightarrow> ShardOutputBatch \<Rightarrow> ShardOutputBatch" where
  "on_error errors o1 = push_errors errors o1"

end
