(* ===== verification/Shard.thy ===== *)
theory Shard
  imports Internal_Protocol Consumer_Steps Storage_Engine
begin

text \<open>
  The shard executor of the broker, \<open>crates/aurum-broker/src/in_memory\<close>: registries of queues and
  consumers, the durable storage of the shard, and \<open>InMemoryShardExecutor\<close>, which executes command
  batches and emits events. The hash maps of the registries are maps; where the code iterates over the keys of one,
  in an order that the language leaves open, the order is an argument. The disk belongs to the storage.
\<close>

section \<open>Registries\<close>

definition QUEUE_ACTIVE :: "16 word" where
  "QUEUE_ACTIVE = 1"

definition CONSUMER_RT_ACTIVE :: "16 word" where
  "CONSUMER_RT_ACTIVE = 1"

definition CONSUMER_RT_CANCELLED :: "16 word" where
  "CONSUMER_RT_CANCELLED = 2"

record QueueState =
  qs_id :: "32 word"
  qs_queue :: HybridRangeBlockQueue
  qs_consumers :: "nat list"
  qs_next_consumer_index :: nat
  qs_flags :: "16 word"
  qs_seq_payloads :: "nat \<Rightarrow> nat option"

datatype QueueRegistryError = QueueMissing | QueueDuplicate

type_synonym QueueRegistry = "32 word \<Rightarrow> QueueState option"

definition create_queue :: "QueueRegistry \<Rightarrow> 32 word \<Rightarrow> (QueueRegistryError + unit) \<times> QueueRegistry" where
  "create_queue queues queue_id = (case queues queue_id of
       None \<Rightarrow> (Inr (), queues(queue_id \<mapsto> \<lparr>qs_id = queue_id, qs_queue = q_empty, qs_consumers = [], qs_next_consumer_index = 0,
         qs_flags = QUEUE_ACTIVE, qs_seq_payloads = Map.empty\<rparr>))
     | Some _ \<Rightarrow> (Inl QueueDuplicate, queues))"

definition attach_consumer :: "QueueRegistry \<Rightarrow> 32 word \<Rightarrow> nat \<Rightarrow> (QueueRegistryError + unit) \<times> QueueRegistry" where
  "attach_consumer queues queue_id consumer_id = (case queues queue_id of
       None \<Rightarrow> (Inl QueueMissing, queues)
     | Some q \<Rightarrow> (Inr (), if consumer_id \<notin> set (qs_consumers q) then queues(queue_id \<mapsto> q\<lparr>qs_consumers := qs_consumers q @ [consumer_id]\<rparr>) else queues))"

definition detach_consumer :: "QueueRegistry \<Rightarrow> 32 word \<Rightarrow> nat \<Rightarrow> QueueRegistry" where
  "detach_consumer queues queue_id consumer_id = (case queues queue_id of
       None \<Rightarrow> queues
     | Some q \<Rightarrow>
         let cs = filter (\<lambda>i. i \<noteq> consumer_id) (qs_consumers q)
         in queues(queue_id \<mapsto> q\<lparr>qs_consumers := cs,
              qs_next_consumer_index := (if length cs \<le> qs_next_consumer_index q then 0 else qs_next_consumer_index q)\<rparr>))"

record ConsumerRuntimeState =
  crs_queue_id :: "32 word"
  crs_channel_id :: nat
  crs_session :: ConsumerSession
  crs_out :: SessionDeliveryBatch
  crs_flags :: "16 word"

datatype ConsumerRegistryError = ConsumerMissing | ConsumerDuplicate

type_synonym ConsumerRegistry = "nat \<Rightarrow> ConsumerRuntimeState option"

definition consumer_insert :: "ConsumerRegistry \<Rightarrow> nat \<Rightarrow> ConsumerRuntimeState \<Rightarrow> (ConsumerRegistryError + unit) \<times> ConsumerRegistry" where
  "consumer_insert consumers consumer_id state = (case consumers consumer_id of
       None \<Rightarrow> (Inr (), consumers(consumer_id \<mapsto> state))
     | Some _ \<Rightarrow> (Inl ConsumerDuplicate, consumers))"

definition consumer_queue_id :: "ConsumerRegistry \<Rightarrow> nat \<Rightarrow> 32 word option" where
  "consumer_queue_id consumers consumer_id = map_option crs_queue_id (consumers consumer_id)"

section \<open>Durable storage of a shard\<close>

datatype ShardStorageHealth = Healthy | StorageUnhealthy

record AppendOnlyShardStorage =
  as_engine :: AppendOnlyStorageEngine
  as_disk :: disk
  as_health :: ShardStorageHealth

definition shard_storage_open :: "disk \<Rightarrow> AppendOnlyShardStorage" where
  "shard_storage_open d = (let (e, d) = engine_open Buffered d in \<lparr>as_engine = e, as_disk = d, as_health = Healthy\<rparr>)"

definition storage_append_publish ::
  "(byte list \<Rightarrow> 32 word) \<Rightarrow> AppendOnlyShardStorage \<Rightarrow> 32 word \<Rightarrow> nat \<Rightarrow> byte list list \<Rightarrow> ((StorageError + unit) \<times> AppendOnlyShardStorage) option" where
  "storage_append_publish crc32c st queue_id base_seq payloads =
     (if as_health st \<noteq> Healthy then Some (Inl StorageFailed, st)
      else do {
        (r, e, d) \<leftarrow> append_publish crc32c (as_engine st) queue_id base_seq payloads (as_disk st);
        let st = st\<lparr>as_engine := e, as_disk := d\<rparr>;
        (case r of
           Inr _ \<Rightarrow> Some (Inr (), st)
         | Inl err \<Rightarrow> Some (Inl err, st\<lparr>as_health := StorageUnhealthy\<rparr>))
      })"

fun append_ack_ranges_loop ::
  "(byte list \<Rightarrow> 32 word) \<Rightarrow> 32 word \<Rightarrow> AckRange list \<Rightarrow> AppendOnlyShardStorage \<Rightarrow> ((StorageError + unit) \<times> AppendOnlyShardStorage) option" where
  "append_ack_ranges_loop crc32c queue_id [] st = Some (Inr (), st)"
| "append_ack_ranges_loop crc32c queue_id (rg # ranges) st =
     (if ar_len rg = 0 then append_ack_ranges_loop crc32c queue_id ranges st
      else do {
        (r, e, d) \<leftarrow> append_ack_range crc32c (as_engine st) queue_id (of_nat (ar_start_seq rg)) (of_nat (ar_len rg)) (as_disk st);
        let st = st\<lparr>as_engine := e, as_disk := d\<rparr>;
        (case r of
           Inr _ \<Rightarrow> append_ack_ranges_loop crc32c queue_id ranges st
         | Inl err \<Rightarrow> Some (Inl err, st\<lparr>as_health := StorageUnhealthy\<rparr>))
      })"

definition storage_append_ack_ranges ::
  "(byte list \<Rightarrow> 32 word) \<Rightarrow> AppendOnlyShardStorage \<Rightarrow> 32 word \<Rightarrow> AckRange list \<Rightarrow> ((StorageError + unit) \<times> AppendOnlyShardStorage) option" where
  "storage_append_ack_ranges crc32c st queue_id ranges =
     (if as_health st \<noteq> Healthy then Some (Inl StorageFailed, st) else append_ack_ranges_loop crc32c queue_id ranges st)"

definition recover_ready_count ::
  "(byte list \<Rightarrow> 32 word) \<Rightarrow> AppendOnlyShardStorage \<Rightarrow> 32 word \<Rightarrow> ((StorageError + nat) \<times> AppendOnlyShardStorage) option" where
  "recover_ready_count crc32c st queue_id = do {
     (r, d) \<leftarrow> engine_recover_queue crc32c queue_id (as_disk st);
     let st = st\<lparr>as_disk := d\<rparr>;
     (case r of
        Inl err \<Rightarrow> Some (Inl err, st)
      | Inr img \<Rightarrow> Some (Inr (as_u32 (length (ri_ready img))), st))
   }"

section \<open>Executor\<close>

record InMemoryShardExecutor =
  sh_shard_id :: "16 word"
  sh_queues :: QueueRegistry
  sh_consumers :: ConsumerRegistry
  sh_max_delivery_passes :: nat
  sh_durable :: "AppendOnlyShardStorage option"

definition shard_new :: "16 word \<Rightarrow> InMemoryShardExecutor" where
  "shard_new shard_id = \<lparr>sh_shard_id = shard_id, sh_queues = Map.empty, sh_consumers = Map.empty, sh_max_delivery_passes = 16, sh_durable = None\<rparr>"

definition shard_with_durable_storage :: "16 word \<Rightarrow> AppendOnlyShardStorage \<Rightarrow> InMemoryShardExecutor" where
  "shard_with_durable_storage shard_id storage =
     \<lparr>sh_shard_id = shard_id, sh_queues = Map.empty, sh_consumers = Map.empty, sh_max_delivery_passes = 16, sh_durable = Some storage\<rparr>"

definition recover_queue_from_storage ::
  "(byte list \<Rightarrow> 32 word) \<Rightarrow> InMemoryShardExecutor \<Rightarrow> 32 word \<Rightarrow> ((StorageError + nat) \<times> InMemoryShardExecutor) option" where
  "recover_queue_from_storage crc32c sh queue_id = (case sh_durable sh of
       None \<Rightarrow> Some (Inr 0, sh)
     | Some store \<Rightarrow> do {
         (r, store) \<leftarrow> recover_ready_count crc32c store queue_id;
         let sh = sh\<lparr>sh_durable := Some store\<rparr>;
         (case r of
            Inl err \<Rightarrow> Some (Inl err, sh)
          | Inr ready \<Rightarrow>
              (if 0 < ready then do {
                 let queues = (if sh_queues sh queue_id = None then snd (create_queue (sh_queues sh) queue_id) else sh_queues sh);
                 (case queues queue_id of
                    None \<Rightarrow> Some (Inr ready, sh\<lparr>sh_queues := queues\<rparr>)
                  | Some q \<Rightarrow> do {
                      (_, queue) \<leftarrow> publish_contiguous (qs_queue q) ready;
                      Some (Inr ready, sh\<lparr>sh_queues := queues(queue_id \<mapsto> q\<lparr>qs_queue := queue\<rparr>)\<rparr>)
                    })
               }
               else Some (Inr ready, sh)))
       })"

section \<open>Delivery\<close>

definition EVENT_REDELIVERED :: "8 word" where
  "EVENT_REDELIVERED = 1"

definition event_flags :: "8 word \<Rightarrow> 8 word" where
  "event_flags flags = (if flags_contain flags DELIVERY_REDELIVERED then EVENT_REDELIVERED else 0)"

text \<open>One segment of the session's batch: a range that continues the previous range is merged into it.\<close>

definition new_range_segment :: "(nat \<Rightarrow> nat option) option \<Rightarrow> TaggedRange \<Rightarrow> DeliveryEventSegment" where
  "new_range_segment seq_payloads r =
     (let base_handle = (case seq_payloads of
            None \<Rightarrow> dr_start_seq (tr_range r)
          | Some m \<Rightarrow> (case m (dr_start_seq (tr_range r)) of None \<Rightarrow> dr_start_seq (tr_range r) | Some h \<Rightarrow> h))
      in EventRange \<lparr>drs_start_tag = tr_first_tag r, drs_start_seq = dr_start_seq (tr_range r), drs_len = dr_len (tr_range r),
           drs_payloads = Contiguous base_handle (dr_len (tr_range r)), drs_flags = event_flags (tr_flags r)\<rparr>)"

fun emit_segment :: "(nat \<Rightarrow> nat option) option \<Rightarrow> TaggedDeliverySegment \<Rightarrow> DeliveryEventSegment list \<Rightarrow> DeliveryEventSegment list option" where
  "emit_segment seq_payloads (TagRange r) segments =
     (case (if segments = [] then None else Some (last segments)) of
        Some (EventRange prev) \<Rightarrow> do {
          e \<leftarrow> add_u64 (drs_start_seq prev) (drs_len prev);
          (if e = dr_start_seq (tr_range r) then do {
             l \<leftarrow> add_u32 (drs_len prev) (dr_len (tr_range r));
             p \<leftarrow> (case drs_payloads prev of
                 Contiguous base pl \<Rightarrow> do { pl \<leftarrow> add_u32 pl (dr_len (tr_range r)); Some (Contiguous base pl) }
               | Sparse v \<Rightarrow> Some (Sparse v));
             Some (butlast segments @ [EventRange (prev\<lparr>drs_len := l, drs_payloads := p\<rparr>)])
           }
           else Some (segments @ [new_range_segment seq_payloads r]))
        }
      | _ \<Rightarrow> Some (segments @ [new_range_segment seq_payloads r]))"
| "emit_segment seq_payloads (TagMask m) segments =
     Some (segments @ [EventMask \<lparr>dms_base_tag = tm_first_tag m, dms_block = dm_block (tm_mask m), dms_word = dm_word (tm_mask m),
       dms_mask = dm_mask (tm_mask m), dms_flags = event_flags (tm_flags m)\<rparr>])"

fun emit_segments :: "(nat \<Rightarrow> nat option) option \<Rightarrow> TaggedDeliverySegment list \<Rightarrow> DeliveryEventSegment list \<Rightarrow> DeliveryEventSegment list option" where
  "emit_segments seq_payloads [] segments = Some segments"
| "emit_segments seq_payloads (s # ss) segments = do {
     segments \<leftarrow> emit_segment seq_payloads s segments;
     emit_segments seq_payloads ss segments
   }"

definition emit_delivery ::
  "InMemoryShardExecutor \<Rightarrow> nat \<Rightarrow> 32 word \<Rightarrow> ShardOutputBatch \<Rightarrow> (InMemoryShardExecutor \<times> ShardOutputBatch) option" where
  "emit_delivery sh consumer_id queue_id sink = (case sh_consumers sh consumer_id of
       None \<Rightarrow> Some (sh, sink)
     | Some consumer \<Rightarrow>
         (if sb_segments (crs_out consumer) = [] then Some (sh, sink)
          else do {
            let seq_payloads = map_option qs_seq_payloads (sh_queues sh queue_id);
            segments \<leftarrow> emit_segments seq_payloads (sb_segments (crs_out consumer)) [];
            let sh = sh\<lparr>sh_consumers := (sh_consumers sh)(consumer_id \<mapsto> consumer\<lparr>crs_out := batch_clear (crs_out consumer)\<rparr>)\<rparr>;
            Some (sh, on_delivery \<lparr>de_consumer_id = consumer_id, de_queue_id = queue_id, de_channel_id = crs_channel_id consumer,
              de_segments = segments, de_metadata = metadata_default\<rparr> sink)
          }))"

text \<open>The state of a queue and of a consumer of it after a call of the consumer's session.\<close>

definition put_session ::
  "InMemoryShardExecutor \<Rightarrow> 32 word \<Rightarrow> QueueState \<Rightarrow> HybridRangeBlockQueue \<Rightarrow> nat \<Rightarrow> ConsumerRuntimeState \<Rightarrow> InMemoryShardExecutor" where
  "put_session sh queue_id q queue consumer_id c =
     sh\<lparr>sh_queues := (sh_queues sh)(queue_id \<mapsto> q\<lparr>qs_queue := queue\<rparr>), sh_consumers := (sh_consumers sh)(consumer_id \<mapsto> c)\<rparr>"

text \<open>The loop ends when nothing more can be delivered; that it does is a lemma and not part of the definition.\<close>

partial_function (option) deliver_consumer_loop ::
  "InMemoryShardExecutor \<Rightarrow> nat \<Rightarrow> 32 word \<Rightarrow> nat \<Rightarrow> ShardOutputBatch \<Rightarrow> (nat \<times> InMemoryShardExecutor \<times> ShardOutputBatch) option" where
  "deliver_consumer_loop sh consumer_id queue_id total_n sink =
     (case sh_queues sh queue_id of
        None \<Rightarrow> Some (total_n, sh, sink)
      | Some q \<Rightarrow> (case sh_consumers sh consumer_id of
          None \<Rightarrow> Some (total_n, sh, sink)
        | Some c \<Rightarrow>
            Option.bind (deliver_from_queue (crs_session c) (qs_queue q) 256 (crs_out c)) (\<lambda>(r, s, queue, out).
              let sh = put_session sh queue_id q queue consumer_id (c\<lparr>crs_session := s, crs_out := out\<rparr>) in
              (case r of
                 Inl _ \<Rightarrow> Some (total_n, sh, sink)
               | Inr n \<Rightarrow>
                   if n = 0 then Some (total_n, sh, sink)
                   else Option.bind (add_u32 total_n n) (\<lambda>total_n.
                     Option.bind (emit_delivery sh consumer_id queue_id sink) (\<lambda>(sh, sink).
                       deliver_consumer_loop sh consumer_id queue_id total_n sink))))))"

declare deliver_consumer_loop.simps [code]

definition deliver_consumer ::
  "InMemoryShardExecutor \<Rightarrow> nat \<Rightarrow> ShardOutputBatch \<Rightarrow> (nat \<times> InMemoryShardExecutor \<times> ShardOutputBatch) option" where
  "deliver_consumer sh consumer_id sink = (case consumer_queue_id (sh_consumers sh) consumer_id of
       None \<Rightarrow> Some (0, sh, sink)
     | Some queue_id \<Rightarrow> deliver_consumer_loop sh consumer_id queue_id 0 sink)"

fun deliver_pass ::
  "nat list \<Rightarrow> InMemoryShardExecutor \<Rightarrow> nat \<Rightarrow> ShardOutputBatch \<Rightarrow> (nat \<times> InMemoryShardExecutor \<times> ShardOutputBatch) option" where
  "deliver_pass [] sh delivered sink = Some (delivered, sh, sink)"
| "deliver_pass (cid # cids) sh delivered sink = do {
     (n, sh, sink) \<leftarrow> deliver_consumer sh cid sink;
     delivered \<leftarrow> add_u32 delivered n;
     deliver_pass cids sh delivered sink
   }"

text \<open>The passes over the consumers, at most as many as the scheduler allows.\<close>

fun drive_passes ::
  "nat \<Rightarrow> 32 word \<Rightarrow> nat list \<Rightarrow> InMemoryShardExecutor \<Rightarrow> ShardOutputBatch \<Rightarrow> (InMemoryShardExecutor \<times> ShardOutputBatch) option" where
  "drive_passes 0 queue_id ids sh sink = Some (sh, sink)"
| "drive_passes (Suc passes) queue_id ids sh sink = do {
     let start = (case sh_queues sh queue_id of None \<Rightarrow> 0 | Some q \<Rightarrow> qs_next_consumer_index q);
     (delivered, sh, sink) \<leftarrow> deliver_pass (map (\<lambda>i. ids ! ((start + i) mod length ids)) [0..<length ids]) sh 0 sink;
     (if delivered = 0 then Some (sh, sink)
      else do {
        let sh = (case sh_queues sh queue_id of
            None \<Rightarrow> sh
          | Some q \<Rightarrow> sh\<lparr>sh_queues := (sh_queues sh)(queue_id \<mapsto> q\<lparr>qs_next_consumer_index := (start + 1) mod length ids\<rparr>)\<rparr>);
        drive_passes passes queue_id ids sh sink
      })
   }"

definition drive_queue ::
  "InMemoryShardExecutor \<Rightarrow> 32 word \<Rightarrow> ShardOutputBatch \<Rightarrow> (InMemoryShardExecutor \<times> ShardOutputBatch) option" where
  "drive_queue sh queue_id sink = (case sh_queues sh queue_id of
       None \<Rightarrow> Some (sh, sink)
     | Some q \<Rightarrow> (if qs_consumers q = [] then Some (sh, sink) else drive_passes (sh_max_delivery_passes sh) queue_id (qs_consumers q) sh sink))"

fun deliver_pending ::
  "32 word list \<Rightarrow> InMemoryShardExecutor \<Rightarrow> ShardOutputBatch \<Rightarrow> (InMemoryShardExecutor \<times> ShardOutputBatch) option" where
  "deliver_pending [] sh sink = Some (sh, sink)"
| "deliver_pending (qid # qids) sh sink = do { (sh, sink) \<leftarrow> drive_queue sh qid sink; deliver_pending qids sh sink }"

fun retry_queues :: "32 word list \<Rightarrow> InMemoryShardExecutor \<Rightarrow> InMemoryShardExecutor option" where
  "retry_queues [] sh = Some sh"
| "retry_queues (qid # qids) sh = (case sh_queues sh qid of
       None \<Rightarrow> retry_queues qids sh
     | Some q \<Rightarrow> do {
         (_, queue) \<leftarrow> retry_all_now (qs_queue q);
         retry_queues qids (sh\<lparr>sh_queues := (sh_queues sh)(qid \<mapsto> q\<lparr>qs_queue := queue\<rparr>)\<rparr>)
       })"

definition retry_all_and_deliver ::
  "32 word list \<Rightarrow> 32 word list \<Rightarrow> InMemoryShardExecutor \<Rightarrow> ShardOutputBatch \<Rightarrow> (InMemoryShardExecutor \<times> ShardOutputBatch) option" where
  "retry_all_and_deliver qids qids' sh sink = do { sh \<leftarrow> retry_queues qids sh; deliver_pending qids' sh sink }"

end
