(* ===== verification/Shard_Exec.thy ===== *)
theory Shard_Exec
  imports Shard
begin

text \<open>
  The command handlers of \<open>InMemoryShardExecutor\<close>: one definition per handler, with its guards, the error
  events it emits and the deliveries it triggers.
\<close>

section \<open>Queues and consumers\<close>

definition exec_declare_queue :: "InMemoryShardExecutor \<Rightarrow> DeclareQueue \<Rightarrow> ShardOutputBatch \<Rightarrow> InMemoryShardExecutor \<times> ShardOutputBatch" where
  "exec_declare_queue sh cmd sink = (case create_queue (sh_queues sh) (dq_queue_id cmd) of
       (Inr _, queues) \<Rightarrow> (sh\<lparr>sh_queues := queues\<rparr>, sink)
     | (Inl _, queues) \<Rightarrow> (sh\<lparr>sh_queues := queues\<rparr>, on_error [error_queue ErrDuplicateQueue (dq_queue_id cmd)] sink))"

text \<open>The payloads that go to the durable log are zero bytes of the recorded lengths.\<close>

definition durable_payloads :: "ShardPublishBatch \<Rightarrow> byte list list" where
  "durable_payloads b = (if sp_records b = [] then replicate (publish_count b) [0]
     else map (\<lambda>r. replicate (pb_payload_len r) 0) (sp_records b))"

fun insert_payloads :: "nat \<Rightarrow> nat \<Rightarrow> PublishRecord list \<Rightarrow> (nat \<Rightarrow> nat option) \<Rightarrow> (nat \<Rightarrow> nat option) option" where
  "insert_payloads base_seq i [] m = Some m"
| "insert_payloads base_seq i (rec # recs) m = do {
     s \<leftarrow> add_u64 base_seq i;
     insert_payloads base_seq (Suc i) recs (m(s \<mapsto> pb_payload rec))
   }"

definition publish_in_memory :: "InMemoryShardExecutor \<Rightarrow> QueueState \<Rightarrow> ShardPublishBatch \<Rightarrow> ShardOutputBatch \<Rightarrow> (InMemoryShardExecutor \<times> ShardOutputBatch) option" where
  "publish_in_memory sh q batch sink = do {
     let base_seq = q_len (qs_queue q);
     (_, queue) \<leftarrow> publish_contiguous (qs_queue q) (publish_count batch);
     payloads \<leftarrow> insert_payloads base_seq 0 (sp_records batch) (qs_seq_payloads q);
     let sh = sh\<lparr>sh_queues := (sh_queues sh)(sp_queue_id batch \<mapsto> q\<lparr>qs_queue := queue, qs_seq_payloads := payloads\<rparr>)\<rparr>;
     let sink = (if sp_confirm_mode batch \<noteq> ConfirmNone then on_confirm \<lparr>pc_source = sp_source batch, pc_batch_id = sp_batch_id batch,
         pc_accepted = publish_count batch, pc_first_seq = None, pc_mode = sp_confirm_mode batch\<rparr> sink else sink);
     drive_queue sh (sp_queue_id batch) sink
   }"

definition exec_publish ::
  "(byte list \<Rightarrow> 32 word) \<Rightarrow> InMemoryShardExecutor \<Rightarrow> ShardPublishBatch \<Rightarrow> ShardOutputBatch \<Rightarrow> (InMemoryShardExecutor \<times> ShardOutputBatch) option" where
  "exec_publish crc32c sh batch sink = (case sh_queues sh (sp_queue_id batch) of
       None \<Rightarrow> Some (sh, on_error [error_queue ErrQueueNotFound (sp_queue_id batch)] sink)
     | Some q \<Rightarrow> (case sh_durable sh of
           None \<Rightarrow> publish_in_memory sh q batch sink
         | Some store \<Rightarrow> do {
             (r, store) \<leftarrow> storage_append_publish crc32c store (sp_queue_id batch) (q_len (qs_queue q)) (durable_payloads batch);
             let sh = sh\<lparr>sh_durable := Some store\<rparr>;
             (case r of
                Inl _ \<Rightarrow> Some (sh, on_error [error_global ErrInternalInvariantViolation] sink)
              | Inr _ \<Rightarrow> publish_in_memory sh q batch sink)
           }))"

definition exec_consume_start :: "InMemoryShardExecutor \<Rightarrow> ConsumeStart \<Rightarrow> ShardOutputBatch \<Rightarrow> (InMemoryShardExecutor \<times> ShardOutputBatch) option" where
  "exec_consume_start sh cmd sink =
     (if sh_queues sh (cm_queue_id cmd) = None then Some (sh, on_error [error_queue ErrQueueNotFound (cm_queue_id cmd)] sink)
      else
        (let prefetch = (if cm_prefetch cmd = 0 then Unlimited else Limited (cm_prefetch cmd));
             state = \<lparr>crs_queue_id = cm_queue_id cmd, crs_channel_id = cm_channel_id cmd,
               crs_session = session_new (cm_consumer_id cmd) (cm_channel_id cmd) prefetch, crs_out = \<lparr>sb_segments = []\<rparr>, crs_flags = CONSUMER_RT_ACTIVE\<rparr>
         in (case consumer_insert (sh_consumers sh) (cm_consumer_id cmd) state of
               (Inr _, consumers) \<Rightarrow>
                 (case attach_consumer (sh_queues sh) (cm_queue_id cmd) (cm_consumer_id cmd) of
                    (Inl _, queues) \<Rightarrow> Some (sh\<lparr>sh_queues := queues, sh_consumers := consumers(cm_consumer_id cmd := None)\<rparr>,
                      on_error [error_queue ErrQueueNotFound (cm_queue_id cmd)] sink)
                  | (Inr _, queues) \<Rightarrow>
                      drive_queue (sh\<lparr>sh_queues := queues, sh_consumers := consumers\<rparr>) (cm_queue_id cmd)
                        (on_consumer \<lparr>ev_consumer_id = cm_consumer_id cmd, ev_kind = ConsumerStarted\<rparr> sink))
             | (Inl ConsumerDuplicate, consumers) \<Rightarrow> Some (sh\<lparr>sh_consumers := consumers\<rparr>,
                 on_error [error_consumer ErrDuplicateConsumer (cm_consumer_id cmd)] sink)
             | (Inl ConsumerMissing, consumers) \<Rightarrow> Some (sh\<lparr>sh_consumers := consumers\<rparr>, sink))))"

definition exec_credit_update :: "InMemoryShardExecutor \<Rightarrow> CreditUpdate \<Rightarrow> ShardOutputBatch \<Rightarrow> (InMemoryShardExecutor \<times> ShardOutputBatch) option" where
  "exec_credit_update sh cmd sink = (case sh_consumers sh (cu_consumer_id cmd) of
       None \<Rightarrow> Some (sh, on_error [error_consumer ErrConsumerNotFound (cu_consumer_id cmd)] sink)
     | Some consumer \<Rightarrow> drive_queue sh (crs_queue_id consumer) sink)"

section \<open>Settlement\<close>

definition consumer_error :: "nat \<Rightarrow> ConsumerError \<Rightarrow> CommandError" where
  "consumer_error consumer_id e = (case e of
       InvalidDeliveryTag \<Rightarrow> error_consumer ErrInvalidDeliveryTag consumer_id
     | DeliveryTagAlreadySettled \<Rightarrow> error_consumer ErrDeliveryTagAlreadySettled consumer_id
     | ConsumerCancelled \<Rightarrow> error_consumer ErrConsumerCancelled consumer_id
     | _ \<Rightarrow> error_consumer ErrInternalInvariantViolation consumer_id)"

lemma clear_lowest_less:
  assumes "w \<noteq> 0"
  shows "unat (w AND (w - 1)) < unat (w :: 'a::len word)"
proof -
  have "w AND (w - 1) \<le> w - 1" by (simp add: and.commute word_and_le1)
  also have "w - 1 < w" using assms by (simp add: word_less_nat_alt unat_minus_one unat_gt_0)
  finally show ?thesis by (simp add: word_less_nat_alt)
qed

function ack_mask_loop ::
  "nat \<Rightarrow> 64 word \<Rightarrow> nat \<Rightarrow> AckApplyResult \<Rightarrow> ConsumerSession \<Rightarrow> HybridRangeBlockQueue \<Rightarrow> (AckApplyResult \<times> ConsumerSession \<times> HybridRangeBlockQueue) option" where
  "ack_mask_loop base remaining seq res s q =
     (if remaining = 0 then Some (res, s, q)
      else do {
        let remaining' = remaining AND (remaining - 1);
        tag \<leftarrow> add_u64 base seq;
        (r, s, q) \<leftarrow> session_ack s (ack_request_one tag) q;
        res \<leftarrow> (case r of
            Inl _ \<Rightarrow> Some res
          | Inr a \<Rightarrow> do { n \<leftarrow> add_u32 (aa_acked res) (aa_acked a); Some (res\<lparr>aa_acked := n, aa_ranges := aa_ranges res @ aa_ranges a\<rparr>) });
        ack_mask_loop base remaining' (Suc seq) res s q
      })"
  by pat_completeness auto
termination
  by (relation "measure (\<lambda>(base, remaining, seq, res, s, q). unat remaining)") (auto simp: clear_lowest_less)

declare ack_mask_loop.simps [simp del]

definition session_ack_command ::
  "AckCommand \<Rightarrow> ConsumerSession \<Rightarrow> HybridRangeBlockQueue \<Rightarrow> ((ConsumerError + AckApplyResult) \<times> ConsumerSession \<times> HybridRangeBlockQueue) option" where
  "session_ack_command cmd s q = (case cmd of
       AckTag tag SettleOne \<Rightarrow> session_ack s (ack_request_one tag) q
     | AckTag tag SettleMultiple \<Rightarrow> session_ack s (ack_request_multiple tag) q
     | AckTagRange start end_tag \<Rightarrow> session_ack s (ack_request_multiple end_tag) q
     | AckTagMask base msk \<Rightarrow> do {
         (res, s, q) \<leftarrow> ack_mask_loop base msk 0 \<lparr>aa_acked = 0, aa_released_credit = 0, aa_ranges = []\<rparr> s q;
         Some (Inr res, s, q)
       })"

definition exec_ack_command ::
  "(byte list \<Rightarrow> 32 word) \<Rightarrow> InMemoryShardExecutor \<Rightarrow> nat \<Rightarrow> AckCommand \<Rightarrow> ((CommandError + AckApplyResult) \<times> InMemoryShardExecutor) option" where
  "exec_ack_command crc32c sh consumer_id cmd = (case consumer_queue_id (sh_consumers sh) consumer_id of
       None \<Rightarrow> Some (Inl (error_consumer ErrConsumerNotFound consumer_id), sh)
     | Some queue_id \<Rightarrow> (case sh_queues sh queue_id of
         None \<Rightarrow> Some (Inl (error_queue ErrQueueNotFound queue_id), sh)
       | Some q \<Rightarrow> (case sh_consumers sh consumer_id of
           None \<Rightarrow> Some (Inl (error_consumer ErrConsumerNotFound consumer_id), sh)
         | Some c \<Rightarrow> do {
             (r, s, queue) \<leftarrow> session_ack_command cmd (crs_session c) (qs_queue q);
             let sh = put_session sh queue_id q queue consumer_id (c\<lparr>crs_session := s\<rparr>);
             (case r of
                Inl e \<Rightarrow> Some (Inl (consumer_error consumer_id e), sh)
              | Inr result \<Rightarrow> (case sh_durable sh of
                  None \<Rightarrow> Some (Inr result, sh)
                | Some store \<Rightarrow> do {
                    (sr, store) \<leftarrow> storage_append_ack_ranges crc32c store queue_id (aa_ranges result);
                    let sh = sh\<lparr>sh_durable := Some store\<rparr>;
                    (case sr of
                       Inl _ \<Rightarrow> Some (Inl (error_global ErrInternalInvariantViolation), sh)
                     | Inr _ \<Rightarrow> Some (Inr result, sh))
                  }))
           })))"

fun exec_ack_items ::
  "(byte list \<Rightarrow> 32 word) \<Rightarrow> nat \<Rightarrow> AckCommand list \<Rightarrow> InMemoryShardExecutor \<Rightarrow> nat \<Rightarrow> CommandError list \<Rightarrow> (nat \<times> CommandError list \<times> InMemoryShardExecutor) option" where
  "exec_ack_items crc32c cid [] sh settled_n errs = Some (settled_n, errs, sh)"
| "exec_ack_items crc32c cid (cmd # cmds) sh settled_n errs = do {
     (r, sh) \<leftarrow> exec_ack_command crc32c sh cid cmd;
     (case r of
        Inr result \<Rightarrow> do { settled_n \<leftarrow> add_u32 settled_n (aa_acked result); exec_ack_items crc32c cid cmds sh settled_n errs }
      | Inl e \<Rightarrow> exec_ack_items crc32c cid cmds sh settled_n (errs @ [e]))
   }"

definition report_errors :: "CommandError list \<Rightarrow> ShardOutputBatch \<Rightarrow> ShardOutputBatch" where
  "report_errors errs sink = (if errs \<noteq> [] then on_error errs sink else sink)"

definition exec_ack_batch ::
  "(byte list \<Rightarrow> 32 word) \<Rightarrow> InMemoryShardExecutor \<Rightarrow> AckCommandBatch \<Rightarrow> ShardOutputBatch \<Rightarrow> (InMemoryShardExecutor \<times> ShardOutputBatch) option" where
  "exec_ack_batch crc32c sh batch sink = do {
     let cid = akb_consumer_id batch;
     (settled_n, errs, sh) \<leftarrow> exec_ack_items crc32c cid (akb_items batch) sh 0 [];
     (sh, sink) \<leftarrow>
       (if 0 < settled_n then
          (let sink = on_settlement \<lparr>sr_consumer_id = cid, sr_kind_of = SettledAck, sr_settled = settled_n\<rparr> sink in
           case consumer_queue_id (sh_consumers sh) cid of
             None \<Rightarrow> Some (sh, sink)
           | Some qid \<Rightarrow> drive_queue sh qid sink)
        else Some (sh, sink));
     Some (sh, report_errors errs sink)
   }"

definition nack_reason_of :: "NackDisposition \<Rightarrow> NackReason" where
  "nack_reason_of d = (case d of NackRequeue \<Rightarrow> Requeue | NackDeadLetter \<Rightarrow> DeadLetter | NackDrop \<Rightarrow> Reject)"

lemma drop_lowest_less:
  assumes "w \<noteq> 0"
  shows "unat (drop_bit (Suc n) w) < unat (w :: 'a::len word)"
proof -
  have "unat (drop_bit (Suc n) w) = unat w div 2 ^ Suc n" by (subst unat_drop_bit_eq) (rule drop_bit_eq_div)
  also have "\<dots> < unat w" using assms using one_less_power [of "2 :: nat" "Suc n"] by (intro div_less_dividend) (simp_all add: unat_gt_0 del: power_Suc)
  finally show ?thesis .
qed

function nack_mask_loop ::
  "nat \<Rightarrow> 64 word \<Rightarrow> nat \<Rightarrow> NackReason \<Rightarrow> nat \<Rightarrow> ConsumerSession \<Rightarrow> HybridRangeBlockQueue \<Rightarrow> (nat \<times> ConsumerSession \<times> HybridRangeBlockQueue) option" where
  "nack_mask_loop base remaining bit_pos reason total_n s q =
     (if remaining = 0 then Some (total_n, s, q)
      else do {
        let tz = trailing_zeros remaining;
        tag \<leftarrow> add_u64 base (bit_pos + tz);
        (r, s, q) \<leftarrow> session_nack s (nack_request_one tag reason) q;
        total_n \<leftarrow> (case r of Inl _ \<Rightarrow> Some total_n | Inr a \<Rightarrow> add_u32 total_n (na_nacked a));
        nack_mask_loop base (drop_bit (Suc tz) remaining) (bit_pos + tz + 1) reason total_n s q
      })"
  by pat_completeness auto
termination
  by (relation "measure (\<lambda>(base, remaining, bit_pos, reason, total_n, s, q). unat remaining)") (auto simp: drop_lowest_less)

declare nack_mask_loop.simps [simp del]

definition session_nack_command ::
  "NackCommand \<Rightarrow> ConsumerSession \<Rightarrow> HybridRangeBlockQueue \<Rightarrow> ((ConsumerError + nat) \<times> ConsumerSession \<times> HybridRangeBlockQueue) option" where
  "session_nack_command cmd s q = (case cmd of
       NackTag tag SettleOne d \<Rightarrow> do { (r, s, q) \<leftarrow> session_nack s (nack_request_one tag (nack_reason_of d)) q; Some (map_sum id na_nacked r, s, q) }
     | NackTag tag SettleMultiple d \<Rightarrow> do { (r, s, q) \<leftarrow> session_nack s (nack_request_multiple tag (nack_reason_of d)) q; Some (map_sum id na_nacked r, s, q) }
     | NackTagRange start end_tag d \<Rightarrow> do { (r, s, q) \<leftarrow> session_nack s (nack_request_multiple end_tag (nack_reason_of d)) q; Some (map_sum id na_nacked r, s, q) }
     | NackTagMask base msk d \<Rightarrow> do { (n, s, q) \<leftarrow> nack_mask_loop base msk 0 (nack_reason_of d) 0 s q; Some (Inr n, s, q) })"

definition exec_nack_command ::
  "InMemoryShardExecutor \<Rightarrow> nat \<Rightarrow> NackCommand \<Rightarrow> ((CommandError + nat) \<times> InMemoryShardExecutor) option" where
  "exec_nack_command sh consumer_id cmd = (case consumer_queue_id (sh_consumers sh) consumer_id of
       None \<Rightarrow> Some (Inl (error_consumer ErrConsumerNotFound consumer_id), sh)
     | Some queue_id \<Rightarrow> (case sh_queues sh queue_id of
         None \<Rightarrow> Some (Inl (error_queue ErrQueueNotFound queue_id), sh)
       | Some q \<Rightarrow> (case sh_consumers sh consumer_id of
           None \<Rightarrow> Some (Inl (error_consumer ErrConsumerNotFound consumer_id), sh)
         | Some c \<Rightarrow> do {
             (r, s, queue) \<leftarrow> session_nack_command cmd (crs_session c) (qs_queue q);
             let sh = put_session sh queue_id q queue consumer_id (c\<lparr>crs_session := s\<rparr>);
             Some (map_sum (\<lambda>_. error_consumer ErrInvalidDeliveryTag consumer_id) id r, sh)
           })))"

fun exec_nack_items ::
  "nat \<Rightarrow> NackCommand list \<Rightarrow> InMemoryShardExecutor \<Rightarrow> nat \<Rightarrow> CommandError list \<Rightarrow> (nat \<times> CommandError list \<times> InMemoryShardExecutor) option" where
  "exec_nack_items cid [] sh settled_n errs = Some (settled_n, errs, sh)"
| "exec_nack_items cid (cmd # cmds) sh settled_n errs = do {
     (r, sh) \<leftarrow> exec_nack_command sh cid cmd;
     (case r of
        Inr n \<Rightarrow> do { settled_n \<leftarrow> add_u32 settled_n n; exec_nack_items cid cmds sh settled_n errs }
      | Inl e \<Rightarrow> exec_nack_items cid cmds sh settled_n (errs @ [e]))
   }"

definition exec_nack_batch ::
  "InMemoryShardExecutor \<Rightarrow> NackCommandBatch \<Rightarrow> ShardOutputBatch \<Rightarrow> (InMemoryShardExecutor \<times> ShardOutputBatch) option" where
  "exec_nack_batch sh batch sink = do {
     let cid = nkb_consumer_id batch;
     (settled_n, errs, sh) \<leftarrow> exec_nack_items cid (nkb_items batch) sh 0 [];
     (sh, sink) \<leftarrow>
       (if 0 < settled_n then
          (let sink = on_settlement \<lparr>sr_consumer_id = cid, sr_kind_of = SettledNack, sr_settled = settled_n\<rparr> sink in
           case consumer_queue_id (sh_consumers sh) cid of
             None \<Rightarrow> Some (sh, sink)
           | Some qid \<Rightarrow> do { sh \<leftarrow> retry_queues [qid] sh; drive_queue sh qid sink })
        else Some (sh, sink));
     Some (sh, report_errors errs sink)
   }"

definition exec_reject_command ::
  "InMemoryShardExecutor \<Rightarrow> nat \<Rightarrow> RejectCommand \<Rightarrow> ((CommandError + nat) \<times> InMemoryShardExecutor) option" where
  "exec_reject_command sh consumer_id cmd = (case consumer_queue_id (sh_consumers sh) consumer_id of
       None \<Rightarrow> Some (Inl (error_consumer ErrConsumerNotFound consumer_id), sh)
     | Some queue_id \<Rightarrow> (case sh_queues sh queue_id of
         None \<Rightarrow> Some (Inl (error_queue ErrQueueNotFound queue_id), sh)
       | Some q \<Rightarrow> (case sh_consumers sh consumer_id of
           None \<Rightarrow> Some (Inl (error_consumer ErrConsumerNotFound consumer_id), sh)
         | Some c \<Rightarrow> do {
             (r, s, queue) \<leftarrow> session_nack (crs_session c) (nack_request_one (rj_tag cmd) (nack_reason_of (rj_disposition cmd))) (qs_queue q);
             let sh = put_session sh queue_id q queue consumer_id (c\<lparr>crs_session := s\<rparr>);
             Some (map_sum (\<lambda>_. error_consumer ErrInvalidDeliveryTag consumer_id) na_nacked r, sh)
           })))"

fun exec_reject_items :: "nat \<Rightarrow> RejectCommand list \<Rightarrow> InMemoryShardExecutor \<Rightarrow> nat \<Rightarrow> (nat \<times> InMemoryShardExecutor) option" where
  "exec_reject_items cid [] sh settled_n = Some (settled_n, sh)"
| "exec_reject_items cid (cmd # cmds) sh settled_n = do {
     (r, sh) \<leftarrow> exec_reject_command sh cid cmd;
     (case r of
        Inr n \<Rightarrow> do { settled_n \<leftarrow> add_u32 settled_n n; exec_reject_items cid cmds sh settled_n }
      | Inl _ \<Rightarrow> exec_reject_items cid cmds sh settled_n)
   }"

definition exec_reject_batch ::
  "InMemoryShardExecutor \<Rightarrow> RejectCommandBatch \<Rightarrow> ShardOutputBatch \<Rightarrow> (InMemoryShardExecutor \<times> ShardOutputBatch) option" where
  "exec_reject_batch sh batch sink = do {
     let cid = rjb_consumer_id batch;
     (settled_n, sh) \<leftarrow> exec_reject_items cid (rjb_items batch) sh 0;
     (if 0 < settled_n then
        (let sink = on_settlement \<lparr>sr_consumer_id = cid, sr_kind_of = SettledReject, sr_settled = settled_n\<rparr> sink in
         case consumer_queue_id (sh_consumers sh) cid of
           None \<Rightarrow> Some (sh, sink)
         | Some qid \<Rightarrow> drive_queue sh qid sink)
      else Some (sh, sink))
   }"

section \<open>Cancellation and dispatch\<close>

definition cancel_disposition :: "CancelDispositionCommand \<Rightarrow> CancelDisposition" where
  "cancel_disposition d = (case d of CmdRequeueUnacked \<Rightarrow> RequeueUnacked | CmdDropUnacked \<Rightarrow> DropUnacked | CmdDeadLetterUnacked \<Rightarrow> DropUnacked)"

definition exec_cancel ::
  "InMemoryShardExecutor \<Rightarrow> nat \<Rightarrow> CancelDispositionCommand \<Rightarrow> ShardOutputBatch \<Rightarrow> (InMemoryShardExecutor \<times> ShardOutputBatch) option" where
  "exec_cancel sh consumer_id disposition sink = (case sh_consumers sh consumer_id of
       None \<Rightarrow> Some (sh, on_error [error_consumer ErrConsumerNotFound consumer_id] sink)
     | Some c \<Rightarrow>
         (if crs_flags c AND CONSUMER_RT_CANCELLED = CONSUMER_RT_CANCELLED then Some (sh, on_error [error_consumer ErrConsumerCancelled consumer_id] sink)
          else (case sh_queues sh (crs_queue_id c) of
              None \<Rightarrow> Some (sh, sink)
            | Some q \<Rightarrow> do {
                (_, s, queue) \<leftarrow> session_cancel (crs_session c) (cancel_disposition disposition) (qs_queue q);
                let sh = put_session sh (crs_queue_id c) q queue consumer_id (c\<lparr>crs_session := s, crs_flags := crs_flags c OR CONSUMER_RT_CANCELLED\<rparr>);
                let sh = sh\<lparr>sh_queues := detach_consumer (sh_queues sh) (crs_queue_id c) consumer_id,
                  sh_consumers := (sh_consumers sh)(consumer_id := None)\<rparr>;
                let sink = on_consumer \<lparr>ev_consumer_id = consumer_id, ev_kind = ConsumerWasCancelled\<rparr> sink;
                (if disposition = CmdRequeueUnacked then drive_queue sh (crs_queue_id c) sink else Some (sh, sink))
              })))"

text \<open>A handler that runs over the items of a batch.\<close>

fun exec_each ::
  "(InMemoryShardExecutor \<Rightarrow> 'c \<Rightarrow> ShardOutputBatch \<Rightarrow> (InMemoryShardExecutor \<times> ShardOutputBatch) option) \<Rightarrow> 'c list \<Rightarrow>
   InMemoryShardExecutor \<Rightarrow> ShardOutputBatch \<Rightarrow> (InMemoryShardExecutor \<times> ShardOutputBatch) option" where
  "exec_each f [] sh sink = Some (sh, sink)"
| "exec_each f (cmd # cmds) sh sink = do { (sh, sink) \<leftarrow> f sh cmd sink; exec_each f cmds sh sink }"

definition execute ::
  "(byte list \<Rightarrow> 32 word) \<Rightarrow> InMemoryShardExecutor \<Rightarrow> ShardCommandBatch \<Rightarrow> ShardOutputBatch \<Rightarrow> (InMemoryShardExecutor \<times> ShardOutputBatch) option" where
  "execute crc32c sh batch sink = (case batch of
       CmdDeclare items \<Rightarrow> exec_each (\<lambda>sh cmd sink. Some (exec_declare_queue sh cmd sink)) items sh sink
     | CmdPublish b \<Rightarrow> exec_publish crc32c sh b sink
     | CmdConsume items \<Rightarrow> exec_each exec_consume_start items sh sink
     | CmdCredit items \<Rightarrow> exec_each exec_credit_update items sh sink
     | CmdAck b \<Rightarrow> exec_ack_batch crc32c sh b sink
     | CmdNack b \<Rightarrow> exec_nack_batch sh b sink
     | CmdReject b \<Rightarrow> exec_reject_batch sh b sink
     | CmdCancel items \<Rightarrow> exec_each (\<lambda>sh cmd sink. exec_cancel sh (cx_consumer_id cmd) (cx_disposition cmd) sink) items sh sink)"

end
