(* ===== verification/Broker.thy ===== *)
theory Broker
  imports Shard_Exec
begin

text \<open>
  The in-memory broker, \<open>crates/aurum-broker/src/in_memory/broker.rs\<close> and \<open>routing.rs\<close>: a route table in
  front of one shard. Ingress commands resolve routes and publish to a queue or, through the table, to every
  queue of a route. The execution of a shard command has no error result, so the branch of
  \<open>publish_to_queue\<close> for one does not occur.
\<close>

record InMemoryBroker =
  br_route_table :: RouteTable
  br_shard :: InMemoryShardExecutor

definition VERSION_INITIAL :: "64 word" where
  "VERSION_INITIAL = 1"

definition with_route_table :: "RouteTable \<Rightarrow> InMemoryBroker" where
  "with_route_table route_table = \<lparr>br_route_table = route_table, br_shard = shard_new 0\<rparr>"

definition single_shard :: InMemoryBroker where
  "single_shard = with_route_table (table_new_empty VERSION_INITIAL)"

definition broker_execute ::
  "(byte list \<Rightarrow> 32 word) \<Rightarrow> InMemoryBroker \<Rightarrow> ShardCommandBatch \<Rightarrow> (ShardOutputBatch \<times> InMemoryBroker) option" where
  "broker_execute crc32c br batch = do {
     (sh, out) \<leftarrow> execute crc32c (br_shard br) batch output_default;
     Some (out, br\<lparr>br_shard := sh\<rparr>)
   }"

definition install_route_table :: "InMemoryBroker \<Rightarrow> RouteTable \<Rightarrow> InMemoryBroker" where
  "install_route_table br t = br\<lparr>br_route_table := t\<rparr>"

definition map_resolve_error :: "RouteResolveError \<Rightarrow> CommandErrorKind" where
  "map_resolve_error e = (case e of
       ResolveExchangeNotFound \<Rightarrow> ErrExchangeNotFound
     | ResolveUnsupportedExchangeKind \<Rightarrow> ErrInvalidRoute
     | ResolveUnroutable \<Rightarrow> ErrUnroutable)"

definition map_lookup_error :: "RouteLookupError \<Rightarrow> CommandErrorKind" where
  "map_lookup_error e = (case e of
       RouteTableVersionMismatch \<Rightarrow> ErrStaleRouteEpoch
     | RouteGenerationMismatch \<Rightarrow> ErrRouteGenerationMismatch
     | RouteIdInvalid \<Rightarrow> ErrRouteIdInvalid
     | LookupUnroutable \<Rightarrow> ErrUnroutable)"

section \<open>Resolving routes\<close>

text \<open>Which byte strings \<open>std::str::from_utf8\<close> accepts.\<close>

definition utf8_tail :: "byte \<Rightarrow> bool" where
  "utf8_tail b \<longleftrightarrow> 0x80 \<le> b \<and> b \<le> 0xBF"

fun utf8_valid :: "byte list \<Rightarrow> bool" where
  "utf8_valid [] \<longleftrightarrow> True"
| "utf8_valid (a # bs) \<longleftrightarrow>
     (if a < 0x80 then utf8_valid bs
      else if 0xC2 \<le> a \<and> a \<le> 0xDF then (case bs of b # bs \<Rightarrow> utf8_tail b \<and> utf8_valid bs | _ \<Rightarrow> False)
      else if 0xE0 \<le> a \<and> a \<le> 0xEF then (case bs of b # c # bs \<Rightarrow>
          utf8_tail b \<and> (a = 0xE0 \<longrightarrow> 0xA0 \<le> b) \<and> (a = 0xED \<longrightarrow> b \<le> 0x9F) \<and> utf8_tail c \<and> utf8_valid bs | _ \<Rightarrow> False)
      else if 0xF0 \<le> a \<and> a \<le> 0xF4 then (case bs of b # c # d # bs \<Rightarrow>
          utf8_tail b \<and> (a = 0xF0 \<longrightarrow> 0x90 \<le> b) \<and> (a = 0xF4 \<longrightarrow> b \<le> 0x8F) \<and> utf8_tail c \<and> utf8_tail d \<and> utf8_valid bs | _ \<Rightarrow> False)
      else False)"

definition resolve_command :: "RouteTable \<Rightarrow> ResolveRouteCommand \<Rightarrow> (RouteResolveError + ResolvedRoute) option" where
  "resolve_command t cmd =
     (if rv_exchange_name cmd \<noteq> [] then
        (if utf8_valid (rv_exchange_name cmd) then resolve_direct_by_name t (rv_exchange_name cmd) (rv_routing_key cmd)
         else Some (Inl ResolveExchangeNotFound))
      else resolve_direct t (rv_exchange_id cmd) (rv_routing_key cmd))"

fun exec_resolve_route :: "RouteTable \<Rightarrow> ResolveRouteCommand list \<Rightarrow> ShardOutputBatch \<Rightarrow> ShardOutputBatch option" where
  "exec_resolve_route t [] out = Some out"
| "exec_resolve_route t (cmd # cmds) out = do {
     resolved \<leftarrow> resolve_command t cmd;
     exec_resolve_route t cmds (case resolved of
         Inr resolved \<Rightarrow> out\<lparr>so_route_resolved := so_route_resolved out @
           [\<lparr>rv_event_request_id = rv_request_id cmd, rv_event_route_id = rr_route_id resolved,
             rv_event_route_version = rr_version resolved, rv_event_flags = rr_flags resolved\<rparr>]\<rparr>
       | Inl err \<Rightarrow> push_errors [error_global (map_resolve_error err)] out)
   }"

section \<open>Publishing\<close>

definition merge_output :: "ShardOutputBatch \<Rightarrow> ShardOutputBatch \<Rightarrow> ShardOutputBatch" where
  "merge_output dst src = dst\<lparr>
     so_deliveries := so_deliveries dst @ so_deliveries src,
     so_confirms := so_confirms dst @ so_confirms src,
     so_settlements := so_settlements dst @ so_settlements src,
     so_consumer_events := so_consumer_events dst @ so_consumer_events src,
     so_route_resolved := so_route_resolved dst @ so_route_resolved src,
     so_errors := so_errors dst @ so_errors src\<rparr>"

definition ensure_queue :: "(byte list \<Rightarrow> 32 word) \<Rightarrow> InMemoryShardExecutor \<Rightarrow> 32 word \<Rightarrow> InMemoryShardExecutor option" where
  "ensure_queue crc32c sh queue_id =
     (if sh_queues sh queue_id = None then do {
        (sh, _) \<leftarrow> execute crc32c sh (CmdDeclare (declare_queue_one queue_id)) output_default;
        Some sh
      }
      else Some sh)"

definition publish_to_queue ::
  "(byte list \<Rightarrow> 32 word) \<Rightarrow> InMemoryShardExecutor \<Rightarrow> IngressPublishBatch \<Rightarrow> 32 word \<Rightarrow> RouteId option \<Rightarrow> ShardOutputBatch \<Rightarrow>
   (InMemoryShardExecutor \<times> ShardOutputBatch) option" where
  "publish_to_queue crc32c sh batch queue_id route_id out = do {
     sh \<leftarrow> ensure_queue crc32c sh queue_id;
     let shard_batch = \<lparr>sp_batch_id = ip_batch_id batch, sp_source = ip_source batch, sp_queue_id = queue_id, sp_route_id = route_id,
       sp_flags = ip_flags batch, sp_confirm_mode = ip_confirm_mode batch, sp_record_count = as_u32 (length (ip_records batch)),
       sp_records = ip_records batch\<rparr>;
     let n = (if 0 < sp_record_count shard_batch then sp_record_count shard_batch else as_u32 (length (sp_records shard_batch)));
     (sh, scratch) \<leftarrow> execute crc32c sh (CmdPublish (shard_batch\<lparr>sp_record_count := n\<rparr>)) output_default;
     Some (sh, merge_output out scratch)
   }"

fun publish_to_targets ::
  "(byte list \<Rightarrow> 32 word) \<Rightarrow> IngressPublishBatch \<Rightarrow> RouteId \<Rightarrow> 16 word \<Rightarrow> QueueTarget list \<Rightarrow> InMemoryShardExecutor \<Rightarrow> ShardOutputBatch \<Rightarrow>
   (InMemoryShardExecutor \<times> ShardOutputBatch) option" where
  "publish_to_targets crc32c batch route_id local_shard [] sh out = Some (sh, out)"
| "publish_to_targets crc32c batch route_id local_shard (t # ts) sh out =
     (if qt_shard_id t \<noteq> local_shard then
        publish_to_targets crc32c batch route_id local_shard ts sh (push_errors [error_global ErrInvalidRoute] out)
      else do {
        sh \<leftarrow> ensure_queue crc32c sh (qt_queue_id t);
        (sh, out) \<leftarrow> publish_to_queue crc32c sh batch (qt_queue_id t) (Some route_id) out;
        publish_to_targets crc32c batch route_id local_shard ts sh out
      })"

definition publish_by_route ::
  "(byte list \<Rightarrow> 32 word) \<Rightarrow> InMemoryBroker \<Rightarrow> IngressPublishBatch \<Rightarrow> RoutePublishTarget \<Rightarrow> ShardOutputBatch \<Rightarrow>
   (InMemoryBroker \<times> ShardOutputBatch) option" where
  "publish_by_route crc32c br batch target out =
     (case get_by_route_id (br_route_table br) (rp_route_id target) (rp_route_version target) of
        Inl err \<Rightarrow> Some (br, push_errors [error_global (map_lookup_error err)] out)
      | Inr set_ref \<Rightarrow>
          (if target_count set_ref = 0 then Some (br, push_errors [error_global ErrUnroutable] out)
           else do {
             targets \<leftarrow> targets_vec set_ref;
             (sh, out) \<leftarrow> publish_to_targets crc32c batch (rp_route_id target) (sh_shard_id (br_shard br)) targets (br_shard br) out;
             Some (br\<lparr>br_shard := sh\<rparr>, out)
           }))"

definition exec_ingress_publish ::
  "(byte list \<Rightarrow> 32 word) \<Rightarrow> InMemoryBroker \<Rightarrow> IngressPublishBatch \<Rightarrow> ShardOutputBatch \<Rightarrow> (InMemoryBroker \<times> ShardOutputBatch) option" where
  "exec_ingress_publish crc32c br batch out = (case ip_target batch of
       ToQueue queue_id \<Rightarrow> do {
         (sh, out) \<leftarrow> publish_to_queue crc32c (br_shard br) batch queue_id None out;
         Some (br\<lparr>br_shard := sh\<rparr>, out)
       }
     | ToRoute target \<Rightarrow> publish_by_route crc32c br batch target out
     | ToExchangeKey _ _ \<Rightarrow> Some (br, push_errors [error_global ErrInvalidRoute] out))"

definition execute_ingress ::
  "(byte list \<Rightarrow> 32 word) \<Rightarrow> InMemoryBroker \<Rightarrow> IngressCommandBatch \<Rightarrow> (ShardOutputBatch \<times> InMemoryBroker) option" where
  "execute_ingress crc32c br batch = (case batch of
       IngressPublish p \<Rightarrow> do { (br, out) \<leftarrow> exec_ingress_publish crc32c br p output_default; Some (out, br) }
     | IngressResolveRoute r \<Rightarrow> do { out \<leftarrow> exec_resolve_route (br_route_table br) r output_default; Some (out, br) }
     | IngressControl \<Rightarrow> Some (output_default, br))"

end
