(* ===== verification/Session_Books.thy ===== *)
theory Session_Books
  imports Consumer_Steps
begin

text \<open>
  The calls of a consumer session and the statistics of its queue: every settlement keeps the
  ledger of the queue, so the counters stay within their widths as long as the deliveries do. A run of
  settlements is one relation, which the command handlers of the shard compose.
\<close>

section \<open>The ledger of the queue\<close>

definition books :: "HybridRangeBlockQueue \<Rightarrow> HybridRangeBlockQueue \<Rightarrow> bool" where
  "books q q' \<longleftrightarrow> (ledger q \<longrightarrow> ledger q') \<and> q_next_seq q' = q_next_seq q \<and>
     total_delivered (q_stats q') = total_delivered (q_stats q)"

lemma books_refl [simp]: "books q q"
  by (simp add: books_def)

lemma books_trans: "books q q' \<Longrightarrow> books q' q'' \<Longrightarrow> books q q''"
  by (simp add: books_def)

lemma apply_ack_books:
  assumes "queue_inv q" "ack_batch_wf b" "distinct (ack_seqs b)" "\<forall>x\<in>set (ack_seqs b). status q x = Some Inflight"
    "total_acked (q_stats q) + length (ack_seqs b) \<le> u64_max" and run: "apply_ack_batch q b = Some q'"
  shows "books q q'"
  using ok_SomeD [OF ack_inv [OF assms(1-5)] run] ledger_step [OF step_ack [OF run assms(2-5)] assms(1)]
  by (simp add: books_def same_seqs_def)

lemma apply_nack_books:
  assumes "queue_inv q" "nack_batch_wf b" "distinct (nack_seqs b)" "\<forall>x\<in>set (nack_seqs b). status q x = Some Inflight"
    "total_nacked (q_stats q) + length (nack_seqs b) \<le> u64_max" and run: "apply_nack_batch q b = Some q'"
  shows "books q q'"
  using ok_SomeD [OF nack_inv [OF assms(1-5)] run] ledger_step [OF step_nack [OF run assms(2-5)] assms(1)]
  by (simp add: books_def same_seqs_def)

text \<open>A queue whose ledger holds and whose deliveries were counted without overflow.\<close>

definition booked :: "HybridRangeBlockQueue \<Rightarrow> bool" where
  "booked q \<longleftrightarrow> ledger q \<and> total_delivered (q_stats q) \<le> u64_max"

lemma booked_books: "booked q \<Longrightarrow> books q q' \<Longrightarrow> booked q'"
  by (simp add: booked_def books_def)

lemma qcount_le_next: "qcount v q \<le> q_next_seq q"
  unfolding qcount_def using card_mono [of "{..<q_next_seq q}" "{x. status q x = Some v}"] by (auto dest: status_Some_less)

lemma qcount_sum_le_next:
  assumes "u \<noteq> v"
  shows "qcount u q + qcount v q \<le> q_next_seq q"
proof -
  have "qcount u q + qcount v q = card ({x. status q x = Some u} \<union> {x. status q x = Some v})"
    unfolding qcount_def using assms by (subst card_Un_disjoint) auto
  also have "\<dots> \<le> card {..<q_next_seq q}" by (rule card_mono) (auto dest: status_Some_less)
  finally show ?thesis by simp
qed

lemma unacked_le_inflight:
  assumes "session_inv s q"
  shows "sw_unacked (cs_window s) \<le> qcount Inflight q"
proof -
  have u: "sw_unacked (cs_window s) = length (window_entries (cs_window s))"
    and d: "distinct (map snd (window_entries (cs_window s)))"
    and i: "\<forall>e\<in>set (window_entries (cs_window s)). status q (snd e) = Some Inflight"
    using assms unfolding session_inv_def window_inv_def by blast+
  have "sw_unacked (cs_window s) = card (set (map snd (window_entries (cs_window s))))" using u distinct_card [OF d] by simp
  also have "\<dots> \<le> qcount Inflight q" unfolding qcount_def by (rule card_mono) (use i in auto)
  finally show ?thesis .
qed

lemma booked_bounds:
  assumes "session_inv s q" "booked q"
  shows "total_acked (q_stats q) + sw_unacked (cs_window s) \<le> u64_max" "total_nacked (q_stats q) + sw_unacked (cs_window s) \<le> u64_max"
  using unacked_le_inflight [OF assms(1)] assms(2) by (auto simp: booked_def ledger_def)

section \<open>Runs of settlements\<close>

text \<open>
  What any sequence of settlements of one session does: \<open>n\<close> messages leave the window, no tag is
  issued, no message becomes available for delivery, and the books stay balanced.
\<close>

definition settle_run :: "nat \<Rightarrow> ConsumerSession \<Rightarrow> HybridRangeBlockQueue \<Rightarrow> ConsumerSession \<Rightarrow> HybridRangeBlockQueue \<Rightarrow> bool" where
  "settle_run n s q s' q' \<longleftrightarrow> owner_step s q s' q' \<and> books q q' \<and>
     n + sw_unacked (cs_window s') = sw_unacked (cs_window s) \<and> cs_next_tag s' = cs_next_tag s \<and>
     cc_mode (cs_credit s') = cc_mode (cs_credit s) \<and> cs_flags s' = cs_flags s \<and>
     (\<forall>x v. v = Ready \<or> v = SparseReady \<longrightarrow> (status q' x = Some v) = (status q x = Some v))"

lemma owner_step_trans:
  assumes a: "owner_step s q s1 q1" and b: "owner_step s1 q1 s2 q2"
  shows "owner_step s q s2 q2"
proof -
  let ?S = "set (session_seqs s)" and ?S1 = "set (session_seqs s1)" and ?S2 = "set (session_seqs s2)"
  have a1: "(status q1 x = Some Inflight) = (if x \<in> ?S then x \<in> ?S1 else status q x = Some Inflight \<or> x \<in> ?S1)"
    and a2: "x \<in> ?S1 \<Longrightarrow> x \<in> ?S \<or> status q x \<noteq> Some Inflight"
    and b1: "(status q2 x = Some Inflight) = (if x \<in> ?S1 then x \<in> ?S2 else status q1 x = Some Inflight \<or> x \<in> ?S2)"
    and b2: "x \<in> ?S2 \<Longrightarrow> x \<in> ?S1 \<or> status q1 x \<noteq> Some Inflight" for x
    using a b unfolding owner_step_def by blast+
  have "(status q2 x = Some Inflight) = (if x \<in> ?S then x \<in> ?S2 else status q x = Some Inflight \<or> x \<in> ?S2)" for x
    using a1 [of x] a2 [of x] b1 [of x] b2 [of x] by (auto split: if_splits)
  moreover have "x \<in> ?S \<or> status q x \<noteq> Some Inflight" if "x \<in> ?S2" for x
    using a1 [of x] a2 [of x] b2 [OF that] by (auto split: if_splits)
  moreover have "session_inv s2 q2" using b by (simp add: owner_step_def)
  ultimately show ?thesis unfolding owner_step_def by blast
qed

lemma settle_run_refl: "session_inv s q \<Longrightarrow> settle_run 0 s q s q"
  by (simp add: settle_run_def owner_step_refl)

lemma settle_run_trans: "settle_run n s q s' q' \<Longrightarrow> settle_run m s' q' s'' q'' \<Longrightarrow> settle_run (n + m) s q s'' q''"
  unfolding settle_run_def by (auto intro: owner_step_trans books_trans)

lemma settle_run_inv:
  assumes "settle_run n s q s' q'"
  shows "session_inv s' q'" "booked q \<Longrightarrow> booked q'" "is_cancelled s' = is_cancelled s"
  using assms by (auto simp: settle_run_def owner_step_def is_cancelled_def intro: booked_books)

lemma settle_run_intro:
  assumes sinv: "session_inv s q" and st: "session_settles P v s q s' q'" and v: "v = Retry \<or> v = Acked"
    and "books q q'" and "cs_flags s' = cs_flags s"
  shows "settle_run (length (filter P (window_entries (cs_window s)))) s q s' q'"
proof -
  let ?es = "window_entries (cs_window s)"
  have "session_inv s' q'" "window_entries (cs_window s') = filter (\<lambda>e. \<not> P e) ?es" using st by (simp_all add: session_settles_def)
  then have "length (filter P ?es) + sw_unacked (cs_window s') = sw_unacked (cs_window s)"
    using sinv sum_length_filter_compl [of P ?es] unfolding session_inv_def window_inv_def by simp
  moreover have "status q x = Some Inflight" if "x \<in> snd ` set (filter P ?es)" for x
    using sinv that unfolding session_inv_def by auto
  ultimately show ?thesis
    using assms owner_step_settles [OF sinv st] v unfolding settle_run_def session_settles_def by auto
qed

section \<open>Each call\<close>

lemma session_ack_books:
  assumes sinv: "session_inv s q" and nc: "\<not> is_cancelled s" and b: "booked q"
    and tag: "aq_tag req \<in> fst ` set (window_entries (cs_window s))"
    and run: "session_ack s req q = Some (r, s', q')"
  shows "books q q'"
proof -
  have w: "window_inv (cs_next_tag s) (cs_window s)" and qi: "queue_inv q" using sinv unfolding session_inv_def by blast+
  have "ok (case aq_mode req of AckOne \<Rightarrow> ack_one (cs_window s) (aq_tag req) | AckMultiple \<Rightarrow> ack_multiple (cs_window s) (aq_tag req))
    (\<lambda>(r, w'). \<exists>batch. r = Inr batch \<and> ack_batch_wf batch \<and> settled (cs_next_tag s) (cs_window s) (ack_selects req) (ack_seqs batch) w')"
    using ack_one_ok [OF w tag] ack_multiple_ok [OF w tag] unfolding ack_selects_def by (cases "aq_mode req") simp_all
  then obtain batch w' where op: "(case aq_mode req of AckOne \<Rightarrow> ack_one (cs_window s) (aq_tag req) |
      AckMultiple \<Rightarrow> ack_multiple (cs_window s) (aq_tag req)) = Some (Inr batch, w')"
    and wf: "ack_batch_wf batch" and st: "settled (cs_next_tag s) (cs_window s) (ack_selects req) (ack_seqs batch) w'"
    by (auto elim!: okE)
  note ss = settled_seqs [OF sinv st]
  have "q' = q \<or> apply_ack_batch q batch = Some q'"
    using run op by (auto simp: session_ack_def Let_def split: if_splits bind_splits)
  then show ?thesis
    using apply_ack_books [OF qi wf ss(1,2)] booked_bounds [OF sinv b] ss(3) by auto
qed

lemma session_nack_batch_books:
  assumes sinv: "session_inv s q" and b: "booked q"
    and wf: "nack_batch_wf batch" and st: "settled (cs_next_tag s) (cs_window s) P (nack_seqs batch) w'"
  shows "apply_nack_batch q batch = Some q' \<Longrightarrow> books q q'" "apply_ack_batch q (nack_batch_as_ack batch) = Some q' \<Longrightarrow> books q q'"
proof -
  have qi: "queue_inv q" using sinv unfolding session_inv_def by blast
  note ss = settled_seqs [OF sinv st] and bb = booked_bounds [OF sinv b]
  show "books q q'" if "apply_nack_batch q batch = Some q'"
    using apply_nack_books [OF qi wf ss(1,2) _ that] bb(2) ss(3) by simp
  show "books q q'" if "apply_ack_batch q (nack_batch_as_ack batch) = Some q'"
    using apply_ack_books [OF qi nack_batch_as_ack_ok(2) [OF wf] _ _ _ that, unfolded nack_batch_as_ack_ok(1), OF ss(1,2)] bb(1) ss(3) by simp
qed

lemma session_nack_books:
  assumes sinv: "session_inv s q" and b: "booked q" and tag: "nq_tag req \<in> fst ` set (window_entries (cs_window s))"
    and run: "session_nack s req q = Some (r, s', q')"
  shows "books q q'"
proof -
  have w: "window_inv (cs_next_tag s) (cs_window s)" using sinv unfolding session_inv_def by blast
  let ?op = "case nq_mode req of NackOne \<Rightarrow> nack_one (cs_window s) (nq_tag req) (nq_reason req) |
      NackMultiple \<Rightarrow> nack_multiple (cs_window s) (nq_tag req) (nq_reason req)"
  have "ok ?op (\<lambda>(r, w'). \<exists>batch. r = Inr batch \<and> nack_batch_wf batch \<and> nb_reason batch = nq_reason req \<and>
      settled (cs_next_tag s) (cs_window s) (nack_selects req) (nack_seqs batch) w')"
    using nack_one_ok [OF w tag] nack_multiple_ok [OF w tag] unfolding nack_selects_def by (cases "nq_mode req") simp_all
  then obtain batch w' where op: "?op = Some (Inr batch, w')" and wf: "nack_batch_wf batch"
    and st: "settled (cs_next_tag s) (cs_window s) (nack_selects req) (nack_seqs batch) w'"
    by (auto elim!: okE)
  have "q' = q \<or> apply_nack_batch q batch = Some q' \<or> apply_ack_batch q (nack_batch_as_ack batch) = Some q'"
    using run op by (auto simp: session_nack_def session_apply_nack_batch_def Let_def split: if_splits bind_splits NackReason.splits)
  then show ?thesis using session_nack_batch_books [OF sinv b wf st] by auto
qed

lemma session_cancel_books:
  assumes sinv: "session_inv s q" and b: "booked q" and run: "session_cancel s disp q = Some (r, s', q')"
  shows "books q q'"
proof -
  have w: "window_inv (cs_next_tag s) (cs_window s)" using sinv unfolding session_inv_def by blast
  obtain batch w' where op: "drain_all (cs_window s) Requeue = Some (batch, w')"
    and wf: "nack_batch_wf batch" and st: "settled (cs_next_tag s) (cs_window s) (\<lambda>_. True) (nack_seqs batch) w'"
    using drain_all_ok [OF w, of Requeue] by (auto elim!: okE)
  have "apply_nack_batch q batch = Some q' \<or> apply_ack_batch q (nack_batch_as_ack batch) = Some q'"
    using run op by (auto simp: session_cancel_def Let_def split: bind_splits CancelDisposition.splits)
  then show ?thesis using session_nack_batch_books [OF sinv b wf st] by auto
qed

lemma session_ack_run:
  assumes sinv: "session_inv s q" and nc: "\<not> is_cancelled s" and b: "booked q"
  shows "ok (session_ack s req q) (\<lambda>(r, s', q'). settle_run (case r of Inl _ \<Rightarrow> 0 | Inr a \<Rightarrow> aa_acked a) s q s' q')"
proof (cases "aq_tag req \<in> fst ` set (window_entries (cs_window s))")
  case True
  show ?thesis
    by (rule ok_mono_eq [OF session_ack_ok [OF sinv nc True booked_bounds(1) [OF sinv b]]])
      (auto intro!: settle_run_intro [OF sinv] session_ack_books [OF sinv nc b True])
next
  case False
  show ?thesis using settle_refused(1) [OF sinv nc False] settle_run_refl [OF sinv] by simp
qed

lemma session_nack_run:
  assumes sinv: "session_inv s q" and nc: "\<not> is_cancelled s" and b: "booked q"
  shows "ok (session_nack s req q) (\<lambda>(r, s', q'). settle_run (case r of Inl _ \<Rightarrow> 0 | Inr a \<Rightarrow> na_nacked a) s q s' q')"
proof (cases "nq_tag req \<in> fst ` set (window_entries (cs_window s))")
  case True
  have v: "nack_state (nq_reason req) = Retry \<or> nack_state (nq_reason req) = Acked" by (simp add: nack_state_def split: NackReason.splits)
  show ?thesis
    by (rule ok_mono_eq [OF session_nack_ok [OF sinv nc True booked_bounds [OF sinv b]]])
      (auto intro!: settle_run_intro [OF sinv _ v] session_nack_books [OF sinv b True])
next
  case False
  show ?thesis using settle_refused(2) [OF sinv nc False] settle_run_refl [OF sinv] by simp
qed

section \<open>Deliveries\<close>

definition ready :: "HybridRangeBlockQueue \<Rightarrow> nat" where
  "ready q = qcount Ready q + qcount SparseReady q"

lemma ready_le_next: "ready q \<le> q_next_seq q"
  unfolding ready_def by (rule qcount_sum_le_next) simp

lemma settle_run_ready:
  assumes "settle_run n s q s' q'"
  shows "ready q' = ready q"
proof -
  have "{x. status q' x = Some v} = {x. status q x = Some v}" if "v = Ready \<or> v = SparseReady" for v
    using assms that unfolding settle_run_def by blast
  then show ?thesis by (simp add: ready_def qcount_def)
qed

lemma ready_moved:
  assumes "status q' = (\<lambda>x. if x \<in> S then Some Inflight else status q x)"
    and "\<forall>x\<in>S. status q x = Some Ready \<or> status q x = Some SparseReady"
  shows "ready q = ready q' + card S"
proof -
  define R where "R p = {x. status p x = Some Ready} \<union> {x. status p x = Some SparseReady}" for p
  have c: "ready p = card (R p)" for p
    unfolding ready_def qcount_def R_def by (subst card_Un_disjoint) auto
  have "R q = R q' \<union> S" "R q' \<inter> S = {}" using assms by (auto simp: R_def split: if_splits)
  moreover have "finite (R p)" for p by (simp add: R_def)
  ultimately show ?thesis unfolding c by (metis card_Un_disjoint finite_Un)
qed

text \<open>The books after a delivery of \<open>n\<close> messages.\<close>

lemma session_deliver_books:
  assumes sinv: "session_inv s q" and mx: "mx \<le> u32_max" "total_delivered (q_stats q) + mx \<le> u64_max"
    and d: "session_delivers s q mx n s' q' out'"
  shows "ledger q \<Longrightarrow> ledger q'" "q_next_seq q' = q_next_seq q" "ready q = ready q' + n"
    "total_delivered (q_stats q') = total_delivered (q_stats q) + n"
proof -
  let ?av = "min (credit_available (cs_credit s)) mx"
  have qi: "queue_inv q" using sinv unfolding session_inv_def by blast
  obtain seqs where l: "length seqs = n" "distinct seqs" and a: "\<forall>x\<in>set seqs. status q x = Some Ready \<or> status q x = Some SparseReady"
    and st: "status q' = (\<lambda>x. if x \<in> set seqs then Some Inflight else status q x)"
    and w: "if ?av = 0 then q' = q else \<exists>work. deliver q ?av work_default = Some (n, work, q') \<and> work_seqs work = seqs"
    using d unfolding session_delivers_def by blast
  have n: "n \<le> ?av" using d unfolding session_delivers_def by linarith
  show "ready q = ready q' + n" using ready_moved [OF st a] l distinct_card [OF l(2)] by simp
  have av: "?av \<le> u32_max" "total_delivered (q_stats q) + ?av \<le> u64_max" using mx by linarith+
  have "(ledger q \<longrightarrow> ledger q') \<and> q_next_seq q' = q_next_seq q \<and> total_delivered (q_stats q') = total_delivered (q_stats q) + n"
  proof (cases "?av = 0")
    case True
    then show ?thesis using w n by simp
  next
    case False
    then obtain work where run: "deliver q ?av work_default = Some (n, work, q')" using w by (simp del: min_less_iff_conj) blast
    show ?thesis
      using ok_SomeD [OF deliver_inv [OF qi av] run] ledger_step [OF step_deliver [OF run av] qi] by (simp add: delivers_def)
  qed
  then show "ledger q \<Longrightarrow> ledger q'" "q_next_seq q' = q_next_seq q" "total_delivered (q_stats q') = total_delivered (q_stats q) + n"
    by blast+
qed

text \<open>A batch is one range of fresh messages, if any, followed by masks.\<close>

lemma tag_ranges_segments:
  "tag_ranges rs s out = Some (s', out') \<Longrightarrow> \<exists>ts. sb_segments out' = sb_segments out @ map TagRange ts \<and> map tr_range ts = rs"
proof (induction rs arbitrary: s out)
  case (Cons r rs)
  define o1 where "o1 = out\<lparr>sb_segments := sb_segments out @ [TagRange \<lparr>tr_first_tag = cs_next_tag s, tr_range = r, tr_flags = 0\<rparr>]\<rparr>"
  obtain s1 where "tag_ranges rs s1 o1 = Some (s', out')" using Cons.prems by (auto simp: Let_def o1_def split: bind_splits)
  from Cons.IH [OF this] obtain ts where "sb_segments out' = sb_segments o1 @ map TagRange ts" "map tr_range ts = rs" by blast
  then have "sb_segments out' = sb_segments out @ map TagRange (\<lparr>tr_first_tag = cs_next_tag s, tr_range = r, tr_flags = 0\<rparr> # ts)"
    "map tr_range (\<lparr>tr_first_tag = cs_next_tag s, tr_range = r, tr_flags = 0\<rparr> # ts) = r # rs" by (simp_all add: o1_def)
  then show ?case by (intro exI conjI)
qed simp

lemma tag_masks_segments:
  "tag_masks q ms s out = Some (s', out') \<Longrightarrow>
   \<exists>ts. sb_segments out' = sb_segments out @ map TagMask ts \<and> (\<forall>t\<in>set ts. tm_count t = count_ones (dm_mask (tm_mask t)) mod 2 ^ 8)"
proof (induction ms arbitrary: s out)
  case (Cons m ms)
  let ?t = "\<lambda>f. \<lparr>tm_first_tag = cs_next_tag s, tm_mask = m, tm_count = count_ones (dm_mask m) mod 2 ^ 8, tm_flags = f\<rparr>"
  obtain s1 f where "tag_masks q ms s1 (out\<lparr>sb_segments := sb_segments out @ [TagMask (?t f)]\<rparr>) = Some (s', out')"
    using Cons.prems by (auto simp: Let_def split: bind_splits)
  from Cons.IH [OF this] obtain ts where "sb_segments out' = (sb_segments out @ [TagMask (?t f)]) @ map TagMask ts"
    "\<forall>t\<in>set ts. tm_count t = count_ones (dm_mask (tm_mask t)) mod 2 ^ 8" by auto
  then have "sb_segments out' = sb_segments out @ map TagMask (?t f # ts)"
    "\<forall>t\<in>set (?t f # ts). tm_count t = count_ones (dm_mask (tm_mask t)) mod 2 ^ 8" by simp_all
  then show ?case by blast
qed simp

lemma deliver_from_queue_shape:
  assumes qi: "queue_inv q" and mx: "mx \<le> u32_max" "total_delivered (q_stats q) + mx \<le> u64_max"
    and run: "deliver_from_queue s q mx out = Some (r, s', q', out')"
  shows "\<exists>rs ms. sb_segments out' = map TagRange rs @ map TagMask ms \<and> length rs \<le> 1 \<and>
    (\<forall>t\<in>set ms. tm_count t = count_ones (dm_mask (tm_mask t)))"
proof (cases "sb_segments out' = []")
  case False
  let ?av = "min (credit_available (cs_credit s)) mx"
  have av: "?av \<le> u32_max" "total_delivered (q_stats q) + ?av \<le> u64_max" using mx by linarith+
  obtain n work q1 s1 out1 s2 where d: "deliver q ?av work_default = Some (n, work, q1)"
    and t1: "tag_ranges (dw_ranges work) s (batch_clear out) = Some (s1, out1)"
    and t2: "tag_masks q1 (dw_masks work) s1 out1 = Some (s2, out')"
    using run False by (auto simp: deliver_from_queue_def batch_clear_def Let_def split: if_splits bind_splits)
  have l: "length (dw_ranges work) \<le> 1"
    using ok_SomeD [OF deliver_inv [OF qi av] d] by (auto simp: delivers_def Let_def)
  obtain rs where rs: "sb_segments out1 = map TagRange rs" "map tr_range rs = dw_ranges work"
    using tag_ranges_segments [OF t1] by (auto simp: batch_clear_def)
  have "length rs \<le> 1" using l rs(2) by (metis length_map)
  moreover obtain ms where ms: "sb_segments out' = map TagRange rs @ map TagMask ms"
    "\<forall>t\<in>set ms. tm_count t = count_ones (dm_mask (tm_mask t)) mod 2 ^ 8"
    using tag_masks_segments [OF t2] rs(1) by auto
  moreover have "count_ones (dm_mask (tm_mask t)) mod 2 ^ 8 = count_ones (dm_mask (tm_mask t))" for t
    using count_ones_le [of "dm_mask (tm_mask t)"] by simp
  ultimately show ?thesis by (intro exI [of _ rs] exI [of _ ms]) auto
qed simp

end
