(* ===== verification/Shard_Inv.thy ===== *)
theory Shard_Inv
  imports Shard_Exec Session_Books
begin

text \<open>
  The invariant of a shard: every consumer is attached to its queue, once, and the sessions attached to
  a queue hold exactly its messages in flight. The deliveries keep it, return, and report in their events
  exactly the messages that they put into the windows of the consumers.
\<close>

section \<open>Invariant\<close>

definition session_of :: "ConsumerRegistry \<Rightarrow> nat \<Rightarrow> ConsumerSession" where
  "session_of cs cid = crs_session (the (cs cid))"

definition attached :: "32 word \<Rightarrow> QueueState \<Rightarrow> ConsumerRuntimeState \<Rightarrow> bool" where
  "attached qid q c \<longleftrightarrow> crs_queue_id c = qid \<and> \<not> is_cancelled (crs_session c) \<and> crs_flags c = CONSUMER_RT_ACTIVE \<and>
     cs_next_tag (crs_session c) \<le> total_delivered (q_stats (qs_queue q)) + FIRST_TAG"

definition queue_state_inv :: "ConsumerRegistry \<Rightarrow> 32 word \<Rightarrow> QueueState \<Rightarrow> bool" where
  "queue_state_inv cs qid q \<longleftrightarrow> qs_id q = qid \<and> distinct (qs_consumers q) \<and> ledger (qs_queue q) \<and>
     (\<forall>cid\<in>set (qs_consumers q). \<exists>c. cs cid = Some c \<and> attached qid q c) \<and>
     consumers_inv (map (session_of cs) (qs_consumers q)) (qs_queue q)"

definition shard_inv :: "InMemoryShardExecutor \<Rightarrow> bool" where
  "shard_inv sh \<longleftrightarrow>
     (\<forall>qid q. sh_queues sh qid = Some q \<longrightarrow> queue_state_inv (sh_consumers sh) qid q) \<and>
     (\<forall>cid c. sh_consumers sh cid = Some c \<longrightarrow>
        (\<exists>q. sh_queues sh (crs_queue_id c) = Some q \<and> cid \<in> set (qs_consumers q)))"

text \<open>
  Enough room in the counters of a queue for everything that it can still deliver without a further
  publication or retry: sequence numbers within 32 bits and delivery tags within 64.
\<close>

definition queue_room :: "HybridRangeBlockQueue \<Rightarrow> bool" where
  "queue_room q \<longleftrightarrow> q_next_seq q + 256 \<le> u32_max \<and> total_delivered (q_stats q) + ready q + 256 + FIRST_TAG \<le> u64_max"

definition shard_room :: "InMemoryShardExecutor \<Rightarrow> bool" where
  "shard_room sh \<longleftrightarrow> (\<forall>qid q. sh_queues sh qid = Some q \<longrightarrow> queue_room (qs_queue q))"

lemma shard_invD:
  assumes "shard_inv sh" "sh_consumers sh cid = Some c" "crs_queue_id c = qid"
  shows "\<exists>q. sh_queues sh qid = Some q \<and> cid \<in> set (qs_consumers q) \<and> queue_state_inv (sh_consumers sh) qid q \<and>
    attached qid q c \<and> session_inv (crs_session c) (qs_queue q)"
proof -
  obtain q where q: "sh_queues sh qid = Some q" "cid \<in> set (qs_consumers q)" "queue_state_inv (sh_consumers sh) qid q"
    using assms unfolding shard_inv_def by blast
  have "session_of (sh_consumers sh) cid \<in> set (map (session_of (sh_consumers sh)) (qs_consumers q))" using q(2) by auto
  then have "session_inv (crs_session c) (qs_queue q)"
    using q(3) assms(2) unfolding queue_state_inv_def consumers_inv_def session_of_def by auto
  moreover have "attached qid q c" using q(2,3) assms(2) unfolding queue_state_inv_def by auto
  ultimately show ?thesis using q by blast
qed

lemma room_booked: "queue_room q \<Longrightarrow> ledger q \<Longrightarrow> booked q"
  by (simp add: queue_room_def booked_def)

text \<open>A call of one session that only touches what the session holds.\<close>

lemma queue_state_inv_put:
  assumes qi: "queue_state_inv cs qid q" and c: "cs cid = Some c" "cid \<in> set (qs_consumers q)"
    and st: "owner_step (crs_session c) (qs_queue q) (crs_session c') q'" and l: "ledger q'"
    and a: "attached qid (q\<lparr>qs_queue := q'\<rparr>) c'"
    and m: "total_delivered (q_stats (qs_queue q)) \<le> total_delivered (q_stats q')"
  shows "queue_state_inv (cs(cid \<mapsto> c')) qid (q\<lparr>qs_queue := q'\<rparr>)"
proof -
  obtain us vs where uv: "qs_consumers q = us @ cid # vs" using c(2) by (meson split_list)
  have id: "qs_id q = qid" and d: "distinct (qs_consumers q)" and ci: "consumers_inv (map (session_of cs) (qs_consumers q)) (qs_queue q)"
    and at: "\<forall>k\<in>set (qs_consumers q). \<exists>d. cs k = Some d \<and> attached qid q d"
    using qi unfolding queue_state_inv_def by blast+
  have n: "cid \<notin> set us" "cid \<notin> set vs" using d uv by auto
  have mp: "map (session_of (cs(cid \<mapsto> c'))) us = map (session_of cs) us" "map (session_of (cs(cid \<mapsto> c'))) vs = map (session_of cs) vs"
    using n by (auto simp: session_of_def)
  have "consumers_inv (map (session_of cs) us @ crs_session c # map (session_of cs) vs) (qs_queue q)"
    using ci c(1) unfolding uv list.map map_append by (simp add: session_of_def)
  from consumers_owner_step [OF this st]
  have "consumers_inv (map (session_of (cs(cid \<mapsto> c'))) (us @ cid # vs)) q'" unfolding list.map map_append mp by (simp add: session_of_def)
  then have "consumers_inv (map (session_of (cs(cid \<mapsto> c'))) (qs_consumers q)) q'" by (simp only: uv)
  moreover have "\<exists>d. (cs(cid \<mapsto> c')) k = Some d \<and> attached qid (q\<lparr>qs_queue := q'\<rparr>) d" if k: "k \<in> set (qs_consumers q)" for k
  proof (cases "k = cid")
    case False
    obtain d where "cs k = Some d" "attached qid q d" using bspec [OF at k] by blast
    then show ?thesis using False m by (auto simp: attached_def)
  qed (use a in simp)
  ultimately show ?thesis unfolding queue_state_inv_def using l id d by (intro conjI ballI) simp_all
qed

lemma queue_state_inv_other:
  assumes "queue_state_inv cs qid q" "cid \<notin> set (qs_consumers q)"
  shows "queue_state_inv (cs(cid := x)) qid q"
proof -
  have "map (session_of (cs(cid := x))) (qs_consumers q) = map (session_of cs) (qs_consumers q)"
    using assms(2) by (auto simp: session_of_def)
  then show ?thesis using assms by (auto simp: queue_state_inv_def simp del: map_eq_conv)
qed

lemma attached_once:
  assumes "shard_inv sh" "sh_consumers sh cid = Some c" "sh_queues sh qid = Some q" "cid \<in> set (qs_consumers q)"
  shows "crs_queue_id c = qid"
  using assms unfolding shard_inv_def queue_state_inv_def attached_def by fastforce

lemma shard_inv_put:
  assumes inv: "shard_inv sh" and c: "sh_consumers sh cid = Some c" "crs_queue_id c = qid" and q: "sh_queues sh qid = Some q"
    and st: "owner_step (crs_session c) (qs_queue q) (crs_session c') q'" and l: "ledger q'"
    and a: "attached qid (q\<lparr>qs_queue := q'\<rparr>) c'"
    and m: "total_delivered (q_stats (qs_queue q)) \<le> total_delivered (q_stats q')"
  shows "shard_inv (put_session sh qid q q' cid c')"
proof -
  have qi: "queue_state_inv (sh_consumers sh) qid q" and mem: "cid \<in> set (qs_consumers q)"
    using shard_invD [OF inv c] q by auto
  have "queue_state_inv ((sh_consumers sh)(cid \<mapsto> c')) k p" if "sh_queues sh k = Some p" "k \<noteq> qid" for k p
  proof (rule queue_state_inv_other)
    show "queue_state_inv (sh_consumers sh) k p" using inv that by (simp add: shard_inv_def)
    show "cid \<notin> set (qs_consumers p)" using attached_once [OF inv c(1) that(1)] that(2) c(2) by blast
  qed
  moreover have "\<exists>p. ((sh_queues sh)(qid \<mapsto> q\<lparr>qs_queue := q'\<rparr>)) (crs_queue_id d) = Some p \<and> k \<in> set (qs_consumers p)"
    if kd: "((sh_consumers sh)(cid \<mapsto> c')) k = Some d" for k d
  proof (cases "k = cid")
    case True
    then show ?thesis using kd a mem by (simp add: attached_def)
  next
    case False
    then obtain p where "sh_queues sh (crs_queue_id d) = Some p" "k \<in> set (qs_consumers p)"
      using kd inv unfolding shard_inv_def by (metis fun_upd_apply)
    then show ?thesis using q by auto
  qed
  ultimately show ?thesis
    using queue_state_inv_put [OF qi c(1) mem st l a m] unfolding shard_inv_def put_session_def by simp
qed

text \<open>A change of the queue alone that leaves what is in flight.\<close>

lemma shard_inv_queue:
  assumes inv: "shard_inv sh" and q: "sh_queues sh qid = Some q"
    and q': "qs_id q' = qs_id q" "qs_consumers q' = qs_consumers q" "queue_inv (qs_queue q')" "ledger (qs_queue q')"
      "total_delivered (q_stats (qs_queue q)) \<le> total_delivered (q_stats (qs_queue q'))"
      "\<forall>x. status (qs_queue q') x = Some Inflight \<longleftrightarrow> status (qs_queue q) x = Some Inflight"
  shows "shard_inv (sh\<lparr>sh_queues := (sh_queues sh)(qid \<mapsto> q')\<rparr>)"
proof -
  have qi: "queue_state_inv (sh_consumers sh) qid q" using inv q by (simp add: shard_inv_def)
  have "attached qid q' d" if "attached qid q d" for d using that q'(5) by (auto simp: attached_def)
  then have "queue_state_inv (sh_consumers sh) qid q'"
    using qi q' consumers_queue_step [OF _ q'(3,6)] unfolding queue_state_inv_def by auto
  moreover have "\<exists>p. ((sh_queues sh)(qid \<mapsto> q')) (crs_queue_id d) = Some p \<and> k \<in> set (qs_consumers p)"
    if "sh_consumers sh k = Some d" for k d
    using that inv q q'(2) unfolding shard_inv_def by (metis fun_upd_apply option.inject)
  ultimately show ?thesis using inv unfolding shard_inv_def by simp
qed

end
