(* ===== verification/Shard_Delivery.thy ===== *)
theory Shard_Delivery
  imports Shard_Inv
begin

text \<open>
  The delivery loops of the shard. A delivery event is read as the list of its messages, each with its
  tag, its sequence number and the redelivery mark; the relation \<open>driven\<close> says what the loops do to the
  shard and which events they emit, and it composes.
\<close>

section \<open>What an event carries\<close>

fun event_msgs :: "DeliveryEventSegment \<Rightarrow> (nat \<times> nat \<times> bool) list" where
  "event_msgs (EventRange r) = zip [drs_start_tag r..<drs_start_tag r + drs_len r]
     (map (\<lambda>x. (x, flags_contain (drs_flags r) EVENT_REDELIVERED)) [drs_start_seq r..<drs_start_seq r + drs_len r])"
| "event_msgs (EventMask m) = zip [dms_base_tag m..<dms_base_tag m + count_ones (dms_mask m)]
     (map (\<lambda>x. (x, flags_contain (dms_flags m) EVENT_REDELIVERED)) (mask_list (dms_block m) (dms_word m) (dms_mask m)))"

definition delivered_msgs :: "DeliveryEventBatch list \<Rightarrow> (nat \<times> nat \<times> bool) list" where
  "delivered_msgs evs = concat (map (\<lambda>e. concat (map event_msgs (de_segments e))) evs)"

definition told :: "nat \<Rightarrow> DeliveryEventBatch list \<Rightarrow> (nat \<times> nat \<times> bool) list" where
  "told cid evs = delivered_msgs (filter (\<lambda>e. de_consumer_id e = cid) evs)"

lemma delivered_msgs_append [simp]: "delivered_msgs (a @ b) = delivered_msgs a @ delivered_msgs b"
  by (simp add: delivered_msgs_def)

lemma told_append [simp]: "told cid (a @ b) = told cid a @ told cid b"
  by (simp add: told_def)

lemma delivered_msgs_Nil [simp]: "delivered_msgs [] = []"
  by (simp add: delivered_msgs_def)

lemma told_Nil [simp]: "told cid [] = []"
  by (simp add: told_def)

lemma told_all: "\<forall>e\<in>set evs. de_consumer_id e = cid \<Longrightarrow> told k evs = (if k = cid then delivered_msgs evs else [])"
  by (auto simp: told_def filter_empty_conv filter_id_conv)

lemma event_flags_redelivered: "flags_contain (event_flags f) EVENT_REDELIVERED = flags_contain f DELIVERY_REDELIVERED"
  by (simp add: event_flags_def flags_contain_def EVENT_REDELIVERED_def)

text \<open>The events of a batch carry the messages of the batch.\<close>

lemma emit_masks:
  "\<forall>t\<in>set ms. tm_count t = count_ones (dm_mask (tm_mask t)) \<Longrightarrow>
   ok (emit_segments sp (map TagMask ms) segs) (\<lambda>segs'. concat (map event_msgs segs') = concat (map event_msgs segs) @ concat (map segment_msgs (map TagMask ms)))"
proof (induction ms arbitrary: segs)
  case (Cons t ms)
  let ?seg = "EventMask \<lparr>dms_base_tag = tm_first_tag t, dms_block = dm_block (tm_mask t), dms_word = dm_word (tm_mask t),
    dms_mask = dm_mask (tm_mask t), dms_flags = event_flags (tm_flags t)\<rparr>"
  have "ok (emit_segments sp (map TagMask ms) (segs @ [?seg]))
    (\<lambda>segs'. concat (map event_msgs segs') = concat (map event_msgs (segs @ [?seg])) @ concat (map segment_msgs (map TagMask ms)))"
    by (rule Cons.IH) (use Cons.prems in simp)
  moreover have "event_msgs ?seg = segment_msgs (TagMask t)" using Cons.prems by (simp add: event_flags_redelivered)
  ultimately show ?case by (simp del: event_msgs.simps segment_msgs.simps)
qed simp

lemma emit_segments_ok:
  assumes "sb_segments out = map TagRange rs @ map TagMask ms" "length rs \<le> 1"
    "\<forall>t\<in>set ms. tm_count t = count_ones (dm_mask (tm_mask t))"
  shows "ok (emit_segments sp (sb_segments out) []) (\<lambda>segs. concat (map event_msgs segs) = batch_msgs out)"
proof (cases rs)
  case Nil
  then show ?thesis using emit_masks [OF assms(3), of sp "[]"] assms(1) by (simp add: batch_msgs_def)
next
  case (Cons r rs')
  have r: "rs = [r]" using assms(2) Cons by (cases rs') simp_all
  have "event_msgs (new_range_segment sp r) = segment_msgs (TagRange r)"
    by (simp add: new_range_segment_def event_flags_redelivered Let_def)
  then show ?thesis
    using emit_masks [OF assms(3), of sp "[new_range_segment sp r]"] assms(1) r by (simp add: batch_msgs_def)
qed

section \<open>Driven deliveries\<close>

definition ready_at :: "32 word \<Rightarrow> InMemoryShardExecutor \<Rightarrow> nat" where
  "ready_at qid sh = (case sh_queues sh qid of None \<Rightarrow> 0 | Some q \<Rightarrow> ready (qs_queue q))"

definition queue_driven :: "(nat \<times> nat \<times> bool) list \<Rightarrow> QueueState option \<Rightarrow> QueueState option \<Rightarrow> bool" where
  "queue_driven ms a b \<longleftrightarrow> (case a of None \<Rightarrow> b = None \<and> ms = [] | Some q \<Rightarrow> (\<exists>q'. b = Some q' \<and>
     qs_consumers q' = qs_consumers q \<and> qs_seq_payloads q' = qs_seq_payloads q \<and> q_next_seq (qs_queue q') = q_next_seq (qs_queue q) \<and>
     total_delivered (q_stats (qs_queue q')) = total_delivered (q_stats (qs_queue q)) + length ms \<and>
     ready (qs_queue q) = ready (qs_queue q') + length ms \<and>
     status (qs_queue q') = (\<lambda>x. if x \<in> (fst \<circ> snd) ` set ms then Some Inflight else status (qs_queue q) x) \<and>
     (\<forall>t x r. (t, x, r) \<in> set ms \<longrightarrow> status (qs_queue q) x = Some (if r then SparseReady else Ready))))"

definition consumer_driven :: "(nat \<times> nat \<times> bool) list \<Rightarrow> ConsumerRuntimeState option \<Rightarrow> ConsumerRuntimeState option \<Rightarrow> bool" where
  "consumer_driven ms a b \<longleftrightarrow> (case a of None \<Rightarrow> b = None | Some c \<Rightarrow> (\<exists>c'. b = Some c' \<and>
     crs_queue_id c' = crs_queue_id c \<and> crs_channel_id c' = crs_channel_id c \<and> crs_flags c' = crs_flags c \<and>
     cs_flags (crs_session c') = cs_flags (crs_session c) \<and>
     cc_mode (cs_credit (crs_session c')) = cc_mode (cs_credit (crs_session c)) \<and>
     window_entries (cs_window (crs_session c')) = window_entries (cs_window (crs_session c)) @ map (\<lambda>(t, x, r). (t, x)) ms))"

definition driven :: "32 word \<Rightarrow> InMemoryShardExecutor \<Rightarrow> ShardOutputBatch \<Rightarrow> InMemoryShardExecutor \<Rightarrow> ShardOutputBatch \<Rightarrow> bool" where
  "driven qid sh sink sh' sink' \<longleftrightarrow> shard_inv sh' \<and> shard_room sh' \<and>
     sh_shard_id sh' = sh_shard_id sh \<and> sh_max_delivery_passes sh' = sh_max_delivery_passes sh \<and> sh_durable sh' = sh_durable sh \<and>
     (\<forall>k. k \<noteq> qid \<longrightarrow> sh_queues sh' k = sh_queues sh k) \<and>
     (\<exists>evs. sink' = sink\<lparr>so_deliveries := so_deliveries sink @ evs\<rparr> \<and> (\<forall>e\<in>set evs. de_queue_id e = qid) \<and>
        queue_driven (delivered_msgs evs) (sh_queues sh qid) (sh_queues sh' qid) \<and>
        (\<forall>k. consumer_driven (told k evs) (sh_consumers sh k) (sh_consumers sh' k)))"

lemma queue_driven_refl: "queue_driven [] a a"
  by (simp add: queue_driven_def split: option.splits)

lemma consumer_driven_refl: "consumer_driven [] a a"
  by (simp add: consumer_driven_def split: option.splits)

lemma driven_refl: "shard_inv sh \<Longrightarrow> shard_room sh \<Longrightarrow> driven qid sh sink sh sink"
  unfolding driven_def using queue_driven_refl consumer_driven_refl by (auto intro!: exI [of _ "[]"])

lemma queue_driven_trans:
  assumes a: "queue_driven ms a b" and b: "queue_driven ns b c"
  shows "queue_driven (ms @ ns) a c"
proof (cases a)
  case None
  then show ?thesis using assms by (simp add: queue_driven_def)
next
  case (Some q)
  obtain q1 where q1: "b = Some q1" "qs_consumers q1 = qs_consumers q" "qs_seq_payloads q1 = qs_seq_payloads q"
    "q_next_seq (qs_queue q1) = q_next_seq (qs_queue q)" "ready (qs_queue q) = ready (qs_queue q1) + length ms"
    "total_delivered (q_stats (qs_queue q1)) = total_delivered (q_stats (qs_queue q)) + length ms"
    "status (qs_queue q1) = (\<lambda>x. if x \<in> (fst \<circ> snd) ` set ms then Some Inflight else status (qs_queue q) x)"
    "\<forall>t x r. (t, x, r) \<in> set ms \<longrightarrow> status (qs_queue q) x = Some (if r then SparseReady else Ready)"
    using a Some unfolding queue_driven_def by auto
  obtain q2 where q2: "c = Some q2" "qs_consumers q2 = qs_consumers q1" "qs_seq_payloads q2 = qs_seq_payloads q1"
    "q_next_seq (qs_queue q2) = q_next_seq (qs_queue q1)" "ready (qs_queue q1) = ready (qs_queue q2) + length ns"
    "total_delivered (q_stats (qs_queue q2)) = total_delivered (q_stats (qs_queue q1)) + length ns"
    "status (qs_queue q2) = (\<lambda>x. if x \<in> (fst \<circ> snd) ` set ns then Some Inflight else status (qs_queue q1) x)"
    "\<forall>t x r. (t, x, r) \<in> set ns \<longrightarrow> status (qs_queue q1) x = Some (if r then SparseReady else Ready)"
    using b q1(1) unfolding queue_driven_def by auto
  have "status (qs_queue q) x = Some (if r then SparseReady else Ready)" if "(t, x, r) \<in> set ns" for t x r
    using q2(8) [rule_format, OF that] unfolding q1(7) by (cases "x \<in> (fst \<circ> snd) ` set ms"; cases r) auto
  moreover have "status (qs_queue q2) = (\<lambda>x. if x \<in> (fst \<circ> snd) ` set (ms @ ns) then Some Inflight else status (qs_queue q) x)"
    unfolding q2(7) q1(7) by (auto simp: fun_eq_iff)
  ultimately show ?thesis
    unfolding queue_driven_def Some option.case q2(1) using q1 q2(2-6) by auto
qed

lemma consumer_driven_trans: "consumer_driven ms a b \<Longrightarrow> consumer_driven ns b c \<Longrightarrow> consumer_driven (ms @ ns) a c"
  by (cases a; cases b) (auto simp: consumer_driven_def)

lemma driven_trans:
  assumes a: "driven qid sh sink sh1 sink1" and b: "driven qid sh1 sink1 sh2 sink2"
  shows "driven qid sh sink sh2 sink2"
proof -
  obtain es where es: "sink1 = sink\<lparr>so_deliveries := so_deliveries sink @ es\<rparr>" "\<forall>e\<in>set es. de_queue_id e = qid"
    "queue_driven (delivered_msgs es) (sh_queues sh qid) (sh_queues sh1 qid)"
    "\<forall>k. consumer_driven (told k es) (sh_consumers sh k) (sh_consumers sh1 k)"
    using a unfolding driven_def by blast
  obtain fs where fs: "sink2 = sink1\<lparr>so_deliveries := so_deliveries sink1 @ fs\<rparr>" "\<forall>e\<in>set fs. de_queue_id e = qid"
    "queue_driven (delivered_msgs fs) (sh_queues sh1 qid) (sh_queues sh2 qid)"
    "\<forall>k. consumer_driven (told k fs) (sh_consumers sh1 k) (sh_consumers sh2 k)"
    using b unfolding driven_def by blast
  have "queue_driven (delivered_msgs (es @ fs)) (sh_queues sh qid) (sh_queues sh2 qid)"
    using queue_driven_trans [OF es(3) fs(3)] by simp
  moreover have "consumer_driven (told k (es @ fs)) (sh_consumers sh k) (sh_consumers sh2 k)" for k
    using consumer_driven_trans [OF es(4) [rule_format] fs(4) [rule_format]] by simp
  moreover have "sink2 = sink\<lparr>so_deliveries := so_deliveries sink @ es @ fs\<rparr>" using es(1) fs(1) by simp
  moreover have "\<forall>e\<in>set (es @ fs). de_queue_id e = qid" using es(2) fs(2) by auto
  ultimately show ?thesis using a b unfolding driven_def by (intro conjI exI [of _ "es @ fs"]) simp_all
qed

section \<open>One delivery\<close>

lemma deliver_guards:
  assumes "attached qid q c" "queue_room (qs_queue q)" "session_inv (crs_session c) (qs_queue q)"
  shows "256 \<le> u32_max" "sw_unacked (cs_window (crs_session c)) + min (credit_available (cs_credit (crs_session c))) 256 \<le> u32_max"
    "cs_next_tag (crs_session c) + 256 \<le> u64_max" "total_delivered (q_stats (qs_queue q)) + 256 \<le> u64_max"
  using assms unacked_le_inflight [OF assms(3)] qcount_le_next [of Inflight "qs_queue q"]
  unfolding attached_def queue_room_def by linarith+

text \<open>A delivery to one consumer, with events that carry the messages of the session's batch.\<close>

lemma deliver_driven:
  assumes inv: "shard_inv sh" and room: "shard_room sh" and c: "sh_consumers sh cid = Some c" "crs_queue_id c = qid"
    and q: "sh_queues sh qid = Some q" and d: "session_delivers (crs_session c) (qs_queue q) 256 n s queue out"
    and evs: "\<forall>e\<in>set evs. de_consumer_id e = cid \<and> de_queue_id e = qid" "delivered_msgs evs = batch_msgs out"
  shows "driven qid sh sink (put_session sh qid q queue cid (c\<lparr>crs_session := s, crs_out := out'\<rparr>))
    (sink\<lparr>so_deliveries := so_deliveries sink @ evs\<rparr>)" (is "driven _ _ _ ?sh' ?sink'")
    and "ready (qs_queue q) = ready queue + n"
proof -
  let ?s = "crs_session c" and ?q = "qs_queue q" and ?c' = "c\<lparr>crs_session := s, crs_out := out'\<rparr>"
  have at: "attached qid q c" and si: "session_inv ?s ?q" and l: "ledger ?q" and qr: "queue_room ?q"
    using shard_invD [OF inv c] q room by (auto simp: queue_state_inv_def shard_room_def)
  note g = deliver_guards [OF at qr si]
  note b = session_deliver_books [OF si g(1,4) d]
  show "ready ?q = ready queue + n" by (rule b(3))
  obtain seqs where seqs: "length seqs = n" "\<forall>x\<in>set seqs. status ?q x = Some Ready \<or> status ?q x = Some SparseReady"
    "status queue = (\<lambda>x. if x \<in> set seqs then Some Inflight else status ?q x)"
    "window_entries (cs_window s) = window_entries (cs_window ?s) @ zip [cs_next_tag ?s..<cs_next_tag ?s + n] seqs"
    "batch_msgs out = zip [cs_next_tag ?s..<cs_next_tag ?s + n] (map (\<lambda>x. (x, status ?q x = Some SparseReady)) seqs)"
    using d unfolding session_delivers_def by blast
  have f: "cs_next_tag s = cs_next_tag ?s + n" "cs_flags s = cs_flags ?s" "cc_mode (cs_credit s) = cc_mode (cs_credit ?s)"
    using d unfolding session_delivers_def by blast+
  have "shard_inv ?sh'"
  proof (rule shard_inv_put [OF inv c q])
    show "owner_step ?s ?q (crs_session ?c') queue" using owner_step_delivers [OF si d] by simp
    show "attached qid (q\<lparr>qs_queue := queue\<rparr>) ?c'" using at f b(4) by (simp add: attached_def is_cancelled_def)
  qed (use b l in simp_all)
  moreover have "shard_room ?sh'"
    using room b qr by (auto simp: shard_room_def put_session_def queue_room_def)
  moreover have m: "set (batch_msgs out) = {(t, x, r). (t, x) \<in> set (zip [cs_next_tag ?s..<cs_next_tag ?s + n] seqs) \<and> r = (status ?q x = Some SparseReady)}"
    unfolding seqs(5) zip_map2 by auto
  have "queue_driven (delivered_msgs evs) (sh_queues sh qid) (sh_queues ?sh' qid)"
  proof -
    have "map snd (batch_msgs out) = map (\<lambda>x. (x, status ?q x = Some SparseReady)) seqs" unfolding seqs(5) using seqs(1) by simp
    then have "map fst (map snd (batch_msgs out)) = seqs" by (simp only: map_map comp_def fst_conv map_ident)
    then have "map (fst \<circ> snd) (batch_msgs out) = seqs" by (simp only: map_map)
    then have "(fst \<circ> snd) ` set (batch_msgs out) = set seqs" by (metis set_map)
    moreover have "status ?q x = Some (if r then SparseReady else Ready)" if "(t, x, r) \<in> set (batch_msgs out)" for t x r
      using that seqs(2) unfolding m by (auto dest: set_zip_rightD)
    moreover have "length (batch_msgs out) = n" using seqs(1,5) by simp
    ultimately show ?thesis
      unfolding queue_driven_def q option.case evs(2) using b seqs(3) by (auto simp: put_session_def)
  qed
  moreover have "map (\<lambda>(t, x, r). (t, x)) (batch_msgs out) = zip [cs_next_tag ?s..<cs_next_tag ?s + n] seqs"
    unfolding seqs(5) zip_map2 by (induction rule: list.induct [of _ "zip [cs_next_tag ?s..<cs_next_tag ?s + n] seqs"]) auto
  then have "consumer_driven (told k evs) (sh_consumers sh k) (sh_consumers ?sh' k)" for k
    using told_all [of evs cid k] evs c(1) seqs(4) f consumer_driven_refl [of "sh_consumers sh k"]
    by (auto simp: put_session_def consumer_driven_def)
  moreover have "sh_shard_id ?sh' = sh_shard_id sh" "sh_max_delivery_passes ?sh' = sh_max_delivery_passes sh" "sh_durable ?sh' = sh_durable sh"
    "\<forall>k. k \<noteq> qid \<longrightarrow> sh_queues ?sh' k = sh_queues sh k" by (simp_all add: put_session_def)
  moreover have "\<forall>e\<in>set evs. de_queue_id e = qid" using evs(1) by blast
  ultimately show "driven qid sh sink ?sh' ?sink'" unfolding driven_def by blast
qed

section \<open>The loops\<close>

text \<open>A consumer that can take nothing more.\<close>

definition exhausted :: "32 word \<Rightarrow> nat \<Rightarrow> InMemoryShardExecutor \<Rightarrow> bool" where
  "exhausted qid cid sh \<longleftrightarrow> ready_at qid sh = 0 \<or>
     (\<forall>c. sh_consumers sh cid = Some c \<longrightarrow> credit_available (cs_credit (crs_session c)) = 0)"

lemma credit_available_eq:
  assumes "session_inv s q"
  shows "credit_available (cs_credit s) =
    (case cc_mode (cs_credit s) of Unlimited \<Rightarrow> u32_max | Limited l \<Rightarrow> l - length (window_entries (cs_window s)))"
  using assms by (auto simp: session_inv_def window_inv_def credit_covers_def credit_available_def split: PrefetchMode.splits)

lemma exhausted_driven:
  assumes inv: "shard_inv sh" and d: "driven qid sh sink sh' sink'" and e: "exhausted qid k sh"
  shows "exhausted qid k sh'"
proof -
  obtain evs where qd: "queue_driven (delivered_msgs evs) (sh_queues sh qid) (sh_queues sh' qid)"
    and cd: "consumer_driven (told k evs) (sh_consumers sh k) (sh_consumers sh' k)" and i': "shard_inv sh'"
    using d unfolding driven_def by blast
  have r: "ready_at qid sh' \<le> ready_at qid sh" using qd by (auto simp: queue_driven_def ready_at_def split: option.splits)
  show ?thesis
  proof (cases "ready_at qid sh = 0")
    case False
    have "credit_available (cs_credit (crs_session c')) = 0" if c': "sh_consumers sh' k = Some c'" for c'
    proof -
      obtain c where c: "sh_consumers sh k = Some c" "cc_mode (cs_credit (crs_session c')) = cc_mode (cs_credit (crs_session c))"
        "length (window_entries (cs_window (crs_session c))) \<le> length (window_entries (cs_window (crs_session c')))"
        using cd c' by (cases "sh_consumers sh k") (auto simp: consumer_driven_def)
      have "credit_available (cs_credit (crs_session c)) = 0" using e False c(1) by (simp add: exhausted_def)
      moreover obtain p p' where "session_inv (crs_session c) p" "session_inv (crs_session c') p'"
        using shard_invD [OF inv c(1) refl] shard_invD [OF i' c' refl] by blast
      ultimately show ?thesis using c(2,3) by (auto simp: credit_available_eq u32_max_def split: PrefetchMode.splits)
    qed
    then show ?thesis by (simp add: exhausted_def)
  qed (use r in \<open>simp add: exhausted_def\<close>)
qed

lemma driven_inv:
  assumes "driven qid sh sink sh' sink'"
  shows "shard_inv sh'" "shard_room sh'" "sh_max_delivery_passes sh' = sh_max_delivery_passes sh" "sh_durable sh' = sh_durable sh"
    "ready_at qid sh' \<le> ready_at qid sh" "map_option qs_consumers (sh_queues sh' k) = map_option qs_consumers (sh_queues sh k)"
    "consumer_queue_id (sh_consumers sh') cid = consumer_queue_id (sh_consumers sh) cid"
proof -
  obtain evs where qd: "queue_driven (delivered_msgs evs) (sh_queues sh qid) (sh_queues sh' qid)"
    and cd: "\<forall>k. consumer_driven (told k evs) (sh_consumers sh k) (sh_consumers sh' k)"
    and fr: "\<forall>k. k \<noteq> qid \<longrightarrow> sh_queues sh' k = sh_queues sh k"
    using assms unfolding driven_def by blast
  show "ready_at qid sh' \<le> ready_at qid sh" using qd by (auto simp: queue_driven_def ready_at_def split: option.splits)
  show "map_option qs_consumers (sh_queues sh' k) = map_option qs_consumers (sh_queues sh k)"
    using qd fr by (cases "k = qid") (auto simp: queue_driven_def split: option.splits)
  show "consumer_queue_id (sh_consumers sh') cid = consumer_queue_id (sh_consumers sh) cid"
    using spec [OF cd, of cid] by (auto simp: consumer_driven_def consumer_queue_id_def split: option.splits)
qed (use assms in \<open>simp_all add: driven_def\<close>)

lemma delivers_none_exhausted:
  assumes si: "session_inv s q" and d: "session_delivers s q 256 0 s' q' out"
  shows "ready q' = 0 \<or> credit_available (cs_credit s') = 0"
proof -
  have z: "min (min (credit_available (cs_credit s)) 256) (ready q) = 0" and si': "session_inv s' q'"
    and f: "cc_mode (cs_credit s') = cc_mode (cs_credit s)" "window_entries (cs_window s') = window_entries (cs_window s)"
    and st: "status q' = status q"
    using d unfolding session_delivers_def ready_def by auto
  have "credit_available (cs_credit s') = credit_available (cs_credit s)"
    unfolding credit_available_eq [OF si] credit_available_eq [OF si'] f ..
  moreover have "ready q' = ready q" using st by (simp add: ready_def qcount_def)
  ultimately show ?thesis using z by linarith
qed

text \<open>One turn of the loop of a consumer: the delivery and its event.\<close>

lemma deliver_turn:
  assumes inv: "shard_inv sh" and room: "shard_room sh" and c: "sh_consumers sh cid = Some c" "crs_queue_id c = qid"
    and q: "sh_queues sh qid = Some q"
  shows "ok (deliver_from_queue (crs_session c) (qs_queue q) 256 (crs_out c)) (\<lambda>(r, s, queue, out). \<exists>n. r = Inr n \<and>
    (let sh1 = put_session sh qid q queue cid (c\<lparr>crs_session := s, crs_out := out\<rparr>) in
     ready (qs_queue q) = ready queue + n \<and>
     (if n = 0 then driven qid sh sink sh1 sink \<and> exhausted qid cid sh1
      else ok (emit_delivery sh1 cid qid sink) (\<lambda>(sh2, sink2). driven qid sh sink sh2 sink2 \<and> ready_at qid sh2 = ready queue))))"
proof -
  have at: "attached qid q c" and si: "session_inv (crs_session c) (qs_queue q)" and qr: "queue_room (qs_queue q)"
    using shard_invD [OF inv c] q room by (auto simp: shard_room_def)
  have nc: "\<not> is_cancelled (crs_session c)" using at by (simp add: attached_def)
  note g = deliver_guards [OF at qr si]
  have qi: "queue_inv (qs_queue q)" using si by (simp add: session_inv_def)
  show ?thesis
  proof (rule ok_mono_eq [OF deliver_from_queue_ok [OF si nc g]], clarify)
    fix r s queue out n
    assume run: "deliver_from_queue (crs_session c) (qs_queue q) 256 (crs_out c) = Some (Inr n, s, queue, out)"
      and d: "session_delivers (crs_session c) (qs_queue q) 256 n s queue out"
    let ?sh1 = "put_session sh qid q queue cid (c\<lparr>crs_session := s, crs_out := out\<rparr>)"
    note dd = deliver_driven [OF inv room c q d]
    have bl: "length (batch_msgs out) = n" using d unfolding session_delivers_def by auto
    have zero: "driven qid sh sink ?sh1 sink \<and> exhausted qid cid ?sh1" if n0: "n = 0"
      using dd(1) [of "[]" sink out] bl n0 delivers_none_exhausted [OF si d [unfolded n0]]
      by (auto simp: exhausted_def put_session_def ready_at_def)
    have pos: "ok (emit_delivery ?sh1 cid qid sink) (\<lambda>(sh2, sink2). driven qid sh sink sh2 sink2 \<and> ready_at qid sh2 = ready queue)"
      if n: "n \<noteq> 0"
    proof -
      have ne: "sb_segments out \<noteq> []" using bl n by (auto simp: batch_msgs_def)
      obtain rs ms where "sb_segments out = map TagRange rs @ map TagMask ms" "length rs \<le> 1"
        "\<forall>t\<in>set ms. tm_count t = count_ones (dm_mask (tm_mask t))"
        using deliver_from_queue_shape [OF qi g(1,4) run] by blast
      from emit_segments_ok [OF this, of "map_option qs_seq_payloads (sh_queues ?sh1 qid)"]
      obtain segs where segs: "emit_segments (map_option qs_seq_payloads (sh_queues ?sh1 qid)) (sb_segments out) [] = Some segs"
        "concat (map event_msgs segs) = batch_msgs out" by (auto elim: okE)
      let ?e = "\<lparr>de_consumer_id = cid, de_queue_id = qid, de_channel_id = crs_channel_id c, de_segments = segs, de_metadata = metadata_default\<rparr>"
      have "delivered_msgs [?e] = batch_msgs out" using segs(2) by (simp add: delivered_msgs_def)
      from dd(1) [of "[?e]", OF _ this, of sink "batch_clear out"] show ?thesis
        using ne segs(1) by (simp add: emit_delivery_def put_session_def on_delivery_def ready_at_def)
    qed
    show "\<exists>na. Inr n = Inr na \<and> (let sh1 = ?sh1 in ready (qs_queue q) = ready queue + na \<and>
       (if na = 0 then driven qid sh sink sh1 sink \<and> exhausted qid cid sh1
        else ok (emit_delivery sh1 cid qid sink) (\<lambda>(sh2, sink2). driven qid sh sink sh2 sink2 \<and> ready_at qid sh2 = ready queue)))"
      using zero pos dd(2) [of "[]"] d session_deliver_books(3) [OF si g(1,4) d] by (simp add: Let_def)
  qed
qed

end
