(* ===== verification/Shard_Drive.thy ===== *)
theory Shard_Drive
  imports Shard_Delivery
begin

text \<open>
  The scheduler of a shard: the loop of one consumer ends, a pass serves every consumer of the queue, and
  after \<open>drive_queue\<close> either nothing is ready or no consumer of the queue has credit left.
\<close>

lemma deliver_consumer_loop_ok:
  "shard_inv sh \<Longrightarrow> shard_room sh \<Longrightarrow> consumer_queue_id (sh_consumers sh) cid = Some qid \<Longrightarrow> total_n + ready_at qid sh \<le> u32_max \<Longrightarrow>
   ok (deliver_consumer_loop sh cid qid total_n sink) (\<lambda>(m, sh', sink'). driven qid sh sink sh' sink' \<and>
     m + ready_at qid sh' = total_n + ready_at qid sh \<and> exhausted qid cid sh')"
proof (induction "ready_at qid sh" arbitrary: sh total_n sink rule: less_induct)
  case less
  note inv = less.prems(1) and room = less.prems(2)
  obtain c where c: "sh_consumers sh cid = Some c" "crs_queue_id c = qid"
    using less.prems(3) by (auto simp: consumer_queue_id_def)
  obtain q where q: "sh_queues sh qid = Some q" using shard_invD [OF inv c] by blast
  have rq: "ready_at qid sh = ready (qs_queue q)" using q by (simp add: ready_at_def)
  show ?case
    unfolding deliver_consumer_loop.simps [of sh] q c(1) option.case ok_bind
  proof (rule ok_mono [OF deliver_turn [OF inv room c q, of sink]], clarify)
    fix r s queue out n
    let ?sh1 = "put_session sh qid q queue cid (c\<lparr>crs_session := s, crs_out := out\<rparr>)"
    assume "let sh1 = ?sh1 in ready (qs_queue q) = ready queue + n \<and>
      (if n = 0 then driven qid sh sink sh1 sink \<and> exhausted qid cid sh1
       else ok (emit_delivery sh1 cid qid sink) (\<lambda>(sh2, sink2). driven qid sh sink sh2 sink2 \<and> ready_at qid sh2 = ready queue))"
    then have n: "ready (qs_queue q) = ready queue + n" and z: "n = 0 \<Longrightarrow> driven qid sh sink ?sh1 sink \<and> exhausted qid cid ?sh1"
      and p: "n \<noteq> 0 \<Longrightarrow> ok (emit_delivery ?sh1 cid qid sink) (\<lambda>(sh2, sink2). driven qid sh sink sh2 sink2 \<and> ready_at qid sh2 = ready queue)"
      by (simp_all add: Let_def)
    have zero: "ready_at qid ?sh1 = ready queue" by (simp add: ready_at_def put_session_def)
    have rest: "ok (deliver_consumer_loop sh2 cid qid (total_n + n) sink2) (\<lambda>(m, sh', sink'). driven qid sh sink sh' sink' \<and>
        m + ready_at qid sh' = total_n + ready_at qid sh \<and> exhausted qid cid sh')"
      if d: "driven qid sh sink sh2 sink2" and r2: "ready_at qid sh2 = ready queue" and "n \<noteq> 0" for sh2 sink2
    proof -
      have "ok (deliver_consumer_loop sh2 cid qid (total_n + n) sink2) (\<lambda>(m, sh', sink'). driven qid sh2 sink2 sh' sink' \<and>
          m + ready_at qid sh' = (total_n + n) + ready_at qid sh2 \<and> exhausted qid cid sh')"
        by (rule less.hyps) (use r2 n rq \<open>n \<noteq> 0\<close> driven_inv [OF d] less.prems(3,4) in auto)
      then show ?thesis by (rule ok_mono) (use r2 n rq in \<open>auto intro: driven_trans [OF d]\<close>)
    qed
    show "ok (let sh = ?sh1 in case Inr n of Inl x \<Rightarrow> Some (total_n, sh, sink)
        | Inr n \<Rightarrow> if n = 0 then Some (total_n, sh, sink) else Option.bind (add_u32 total_n n)
            (\<lambda>total_n. Option.bind (emit_delivery sh cid qid sink) (\<lambda>(sh, sink). deliver_consumer_loop sh cid qid total_n sink)))
      (\<lambda>(m, sh', sink'). driven qid sh sink sh' sink' \<and> m + ready_at qid sh' = total_n + ready_at qid sh \<and> exhausted qid cid sh')"
    proof (cases "n = 0")
      case True
      then show ?thesis using z zero n rq by (simp add: Let_def)
    next
      case False
      have "total_n + n \<le> u32_max" using less.prems(4) rq n by linarith
      then show ?thesis using False by (simp add: Let_def) (rule ok_mono [OF p [OF False]], use rest False in auto)
    qed
  qed
qed

lemma deliver_consumer_ok:
  assumes "shard_inv sh" "shard_room sh" "consumer_queue_id (sh_consumers sh) cid = Some qid" "ready_at qid sh \<le> u32_max"
  shows "ok (deliver_consumer sh cid sink) (\<lambda>(m, sh', sink'). driven qid sh sink sh' sink' \<and>
     m + ready_at qid sh' = ready_at qid sh \<and> exhausted qid cid sh')"
  using deliver_consumer_loop_ok [OF assms(1-3), of 0] assms(3,4) by (simp add: deliver_consumer_def)

lemma deliver_pass_ok:
  "shard_inv sh \<Longrightarrow> shard_room sh \<Longrightarrow> \<forall>cid\<in>set cids. consumer_queue_id (sh_consumers sh) cid = Some qid \<Longrightarrow>
   delivered + ready_at qid sh \<le> u32_max \<Longrightarrow>
   ok (deliver_pass cids sh delivered sink) (\<lambda>(m, sh', sink'). driven qid sh sink sh' sink' \<and>
     m + ready_at qid sh' = delivered + ready_at qid sh \<and> (\<forall>cid\<in>set cids. exhausted qid cid sh'))"
proof (induction cids arbitrary: sh delivered sink)
  case Nil
  then show ?case by (simp add: driven_refl)
next
  case (Cons cid cids)
  have c: "consumer_queue_id (sh_consumers sh) cid = Some qid" and r: "ready_at qid sh \<le> u32_max" using Cons.prems(3,4) by auto
  have rest: "n + delivered \<le> u32_max \<and> ok (deliver_pass cids sh1 (delivered + n) sink1) (\<lambda>(m, sh', sink'). driven qid sh sink sh' sink' \<and>
      m + ready_at qid sh' = delivered + ready_at qid sh \<and> (\<forall>cid\<in>set (cid # cids). exhausted qid cid sh'))"
    if d: "driven qid sh sink sh1 sink1" and n: "n + ready_at qid sh1 = ready_at qid sh" and e: "exhausted qid cid sh1" for n sh1 sink1
  proof
    note di = driven_inv [OF d]
    have "ok (deliver_pass cids sh1 (delivered + n) sink1) (\<lambda>(m, sh', sink'). driven qid sh1 sink1 sh' sink' \<and>
        m + ready_at qid sh' = (delivered + n) + ready_at qid sh1 \<and> (\<forall>cid\<in>set cids. exhausted qid cid sh'))"
      by (rule Cons.IH) (use di Cons.prems(3,4) n in auto)
    then show "ok (deliver_pass cids sh1 (delivered + n) sink1) (\<lambda>(m, sh', sink'). driven qid sh sink sh' sink' \<and>
        m + ready_at qid sh' = delivered + ready_at qid sh \<and> (\<forall>cid\<in>set (cid # cids). exhausted qid cid sh'))"
      by (rule ok_mono) (use n e exhausted_driven [OF di(1)] in \<open>auto intro: driven_trans [OF d]\<close>)
    show "n + delivered \<le> u32_max" using n Cons.prems(4) by linarith
  qed
  show ?case
    unfolding deliver_pass.simps ok_bind
    by (rule ok_mono [OF deliver_consumer_ok [OF Cons.prems(1,2) c r]]) (use rest in \<open>auto simp: add.commute\<close>)
qed

lemma rotation_set:
  assumes "ids \<noteq> []"
  shows "set (map (\<lambda>i. ids ! ((start + i) mod length ids)) [0..<length ids]) = set ids"
proof -
  let ?n = "length ids"
  have "\<exists>i<?n. (start + i) mod ?n = j" if j: "j < ?n" for j
  proof -
    let ?i = "(j + (?n - start mod ?n)) mod ?n"
    have "(start + ?i) mod ?n = (start mod ?n + (j + (?n - start mod ?n))) mod ?n" by (metis mod_add_left_eq mod_add_right_eq)
    also have "start mod ?n + (j + (?n - start mod ?n)) = j + ?n" using mod_less_divisor [of ?n start] j by linarith
    finally have "(start + ?i) mod ?n = j" using j by simp
    moreover have "?i < ?n" using j by (intro mod_less_divisor) linarith
    ultimately show ?thesis by blast
  qed
  then have "{..<?n} \<subseteq> (\<lambda>i. (start + i) mod ?n) ` {..<?n}" by (fastforce simp: image_iff)
  moreover have "(\<lambda>i. (start + i) mod ?n) ` {..<?n} \<subseteq> {..<?n}" using assms by auto
  ultimately have "(\<lambda>i. (start + i) mod ?n) ` {..<?n} = {..<?n}" by (rule equalityI [rotated])
  then have "(\<lambda>k. ids ! k) ` (\<lambda>i. (start + i) mod ?n) ` {..<?n} = set ids" by (metis nth_image order_refl take_all lessThan_atLeast0)
  then show ?thesis by (simp add: image_image lessThan_atLeast0)
qed

lemma ready_at_room: "shard_room sh \<Longrightarrow> ready_at qid sh \<le> u32_max"
  using ready_le_next by (fastforce simp: shard_room_def queue_room_def ready_at_def split: option.splits intro: order_trans)

lemma index_driven:
  assumes inv: "shard_inv sh" and room: "shard_room sh" and q: "sh_queues sh qid = Some q"
  shows "driven qid sh sink (sh\<lparr>sh_queues := (sh_queues sh)(qid \<mapsto> q\<lparr>qs_next_consumer_index := i\<rparr>)\<rparr>) sink"
proof -
  let ?sh' = "sh\<lparr>sh_queues := (sh_queues sh)(qid \<mapsto> q\<lparr>qs_next_consumer_index := i\<rparr>)\<rparr>"
  have "queue_inv (qs_queue q)" "ledger (qs_queue q)"
    using inv q by (auto simp: shard_inv_def queue_state_inv_def consumers_inv_def)
  then have "shard_inv ?sh'" by (intro shard_inv_queue [OF inv q]) simp_all
  moreover have "shard_room ?sh'" using room q by (auto simp: shard_room_def)
  moreover have "queue_driven [] (sh_queues sh qid) (sh_queues ?sh' qid)" using q by (simp add: queue_driven_def)
  ultimately show ?thesis
    unfolding driven_def by (intro conjI exI [of _ "[]"]) (simp_all add: consumer_driven_refl)
qed

lemma queue_consumers:
  assumes "shard_inv sh" "sh_queues sh qid = Some q" "cid \<in> set (qs_consumers q)"
  shows "consumer_queue_id (sh_consumers sh) cid = Some qid"
  using assms unfolding shard_inv_def queue_state_inv_def attached_def consumer_queue_id_def by fastforce

lemma drive_passes_ok:
  "shard_inv sh \<Longrightarrow> shard_room sh \<Longrightarrow> map_option qs_consumers (sh_queues sh qid) = Some ids \<Longrightarrow> ids \<noteq> [] \<Longrightarrow>
   ok (drive_passes n qid ids sh sink) (\<lambda>(sh', sink'). driven qid sh sink sh' sink' \<and> (0 < n \<longrightarrow> (\<forall>cid\<in>set ids. exhausted qid cid sh')))"
proof (induction n arbitrary: sh sink)
  case 0
  then show ?case by (simp add: driven_refl)
next
  case (Suc n)
  note inv = Suc.prems(1) and room = Suc.prems(2)
  obtain q where q: "sh_queues sh qid = Some q" "qs_consumers q = ids" using Suc.prems(3) by auto
  let ?start = "qs_next_consumer_index q"
  let ?pass = "map (\<lambda>i. ids ! ((?start + i) mod length ids)) [0..<length ids]"
  have set: "set ?pass = set ids" by (rule rotation_set [OF Suc.prems(4)])
  have all: "\<forall>cid\<in>set ?pass. consumer_queue_id (sh_consumers sh) cid = Some qid"
    unfolding set using queue_consumers [OF inv q(1)] q(2) by simp
  have pass: "ok (deliver_pass ?pass sh 0 sink) (\<lambda>(m, sh', sink'). driven qid sh sink sh' sink' \<and> (\<forall>cid\<in>set ids. exhausted qid cid sh'))"
  proof -
    have "ok (deliver_pass ?pass sh 0 sink) (\<lambda>(m, sh', sink'). driven qid sh sink sh' sink' \<and>
        m + ready_at qid sh' = 0 + ready_at qid sh \<and> (\<forall>cid\<in>set ids. exhausted qid cid sh'))"
      using deliver_pass_ok [OF inv room all, of 0 sink] ready_at_room [OF room, of qid] unfolding set by simp
    then show ?thesis by (rule ok_mono) auto
  qed
  have rest: "ok (drive_passes n qid ids (case sh_queues sh1 qid of None \<Rightarrow> sh1
        | Some q \<Rightarrow> sh1\<lparr>sh_queues := (sh_queues sh1)(qid \<mapsto> q\<lparr>qs_next_consumer_index := (?start + 1) mod length ids\<rparr>)\<rparr>) sink1)
      (\<lambda>(sh', sink'). driven qid sh sink sh' sink' \<and> (\<forall>cid\<in>set ids. exhausted qid cid sh'))"
    if d: "driven qid sh sink sh1 sink1" and e: "\<forall>cid\<in>set ids. exhausted qid cid sh1" for sh1 sink1
  proof -
    note di = driven_inv [OF d]
    obtain q1 where q1: "sh_queues sh1 qid = Some q1" "qs_consumers q1 = ids" using di(6) [of qid] Suc.prems(3) by auto
    let ?sh2 = "sh1\<lparr>sh_queues := (sh_queues sh1)(qid \<mapsto> q1\<lparr>qs_next_consumer_index := (?start + 1) mod length ids\<rparr>)\<rparr>"
    note i = index_driven [OF di(1,2) q1(1), of sink1 "(?start + 1) mod length ids"]
    note ii = driven_inv [OF i]
    have "ok (drive_passes n qid ids ?sh2 sink1) (\<lambda>(sh', sink'). driven qid ?sh2 sink1 sh' sink' \<and> (0 < n \<longrightarrow> (\<forall>cid\<in>set ids. exhausted qid cid sh')))"
      by (rule Suc.IH [OF ii(1,2) _ Suc.prems(4)]) (simp add: q1)
    then have "ok (drive_passes n qid ids ?sh2 sink1) (\<lambda>(sh', sink'). driven qid sh sink sh' sink' \<and> (\<forall>cid\<in>set ids. exhausted qid cid sh'))"
    proof (rule ok_mono, clarify)
      fix sh' sink' assume d': "driven qid ?sh2 sink1 sh' sink'"
      note t = driven_trans [OF i d']
      show "driven qid sh sink sh' sink' \<and> (\<forall>cid\<in>set ids. exhausted qid cid sh')"
        using driven_trans [OF d t] exhausted_driven [OF di(1) t] e by blast
    qed
    then show ?thesis using q1 by simp
  qed
  show ?case
    unfolding drive_passes.simps Let_def q(1) option.case ok_bind
    by (rule ok_mono [OF pass]) (use rest in \<open>auto split del: option.split\<close>)
qed

text \<open>After \<open>drive_queue\<close> no consumer of the queue can take more.\<close>

definition served :: "32 word \<Rightarrow> InMemoryShardExecutor \<Rightarrow> bool" where
  "served qid sh \<longleftrightarrow> (\<forall>q. sh_queues sh qid = Some q \<longrightarrow> (\<forall>cid\<in>set (qs_consumers q). exhausted qid cid sh))"

lemma drive_queue_ok:
  assumes inv: "shard_inv sh" and room: "shard_room sh"
  shows "ok (drive_queue sh qid sink) (\<lambda>(sh', sink'). driven qid sh sink sh' sink' \<and> (0 < sh_max_delivery_passes sh \<longrightarrow> served qid sh'))"
proof (cases "sh_queues sh qid")
  case None
  then show ?thesis using driven_refl [OF assms] by (simp add: drive_queue_def served_def)
next
  case (Some q)
  show ?thesis
  proof (cases "qs_consumers q = []")
    case True
    then show ?thesis using driven_refl [OF assms] Some by (simp add: drive_queue_def served_def)
  next
    case False
    have "ok (drive_passes (sh_max_delivery_passes sh) qid (qs_consumers q) sh sink)
      (\<lambda>(sh', sink'). driven qid sh sink sh' sink' \<and> (0 < sh_max_delivery_passes sh \<longrightarrow> (\<forall>cid\<in>set (qs_consumers q). exhausted qid cid sh')))"
      by (rule drive_passes_ok [OF inv room _ False]) (simp add: Some)
    then have "ok (drive_passes (sh_max_delivery_passes sh) qid (qs_consumers q) sh sink)
      (\<lambda>(sh', sink'). driven qid sh sink sh' sink' \<and> (0 < sh_max_delivery_passes sh \<longrightarrow> served qid sh'))"
    proof (rule ok_mono)
      fix x assume x: "case x of (sh', sink') \<Rightarrow> driven qid sh sink sh' sink' \<and>
        (0 < sh_max_delivery_passes sh \<longrightarrow> (\<forall>cid\<in>set (qs_consumers q). exhausted qid cid sh'))"
      obtain sh' sink' where y: "x = (sh', sink')" by (cases x)
      have "qs_consumers q' = qs_consumers q" if "sh_queues sh' qid = Some q'" for q'
        using driven_inv(6) [of qid sh sink sh' sink' qid] x y that Some by simp
      then show "case x of (sh', sink') \<Rightarrow> driven qid sh sink sh' sink' \<and> (0 < sh_max_delivery_passes sh \<longrightarrow> served qid sh')"
        using x y unfolding served_def by auto
    qed
    then show ?thesis using Some False by (simp add: drive_queue_def)
  qed
qed

end
