(* ===== verification/Shard_Commands.thy ===== *)
theory Shard_Commands
  imports Shard_Drive
begin

text \<open>
  The command handlers keep the invariant of the shard and return. The only other way not to return is a
  panic inside the durable storage, so the statements are about all results, and about the existence of
  one where the shard has no durable storage.
\<close>

section \<open>Results that may be missing\<close>

definition returns :: "bool \<Rightarrow> 'a option \<Rightarrow> ('a \<Rightarrow> bool) \<Rightarrow> bool" where
  "returns d m P \<longleftrightarrow> (case m of None \<Rightarrow> d | Some x \<Rightarrow> P x)"

lemma returns_Some [simp]: "returns d (Some x) P = P x"
  by (simp add: returns_def)

lemma returns_bind [simp]: "returns d (Option.bind m f) P = returns d m (\<lambda>x. returns d (f x) P)"
  by (cases m) (simp_all add: returns_def)

lemma returns_case_prod [simp]: "returns d (case p of (a, b) \<Rightarrow> f a b) P = (case p of (a, b) \<Rightarrow> returns d (f a b) P)"
  by (cases p) simp

lemma returns_mono: "returns d m P \<Longrightarrow> (\<And>x. P x \<Longrightarrow> Q x) \<Longrightarrow> returns d m Q"
  by (auto simp: returns_def split: option.splits)

lemma returns_ok: "ok m P \<Longrightarrow> returns d m P"
  by (auto simp: returns_def ok_def)

lemma returns_any: "(\<And>x. P x) \<Longrightarrow> d \<Longrightarrow> returns d m P"
  by (simp add: returns_def split: option.splits)

lemma ok_returns: "returns d m P \<Longrightarrow> \<not> d \<Longrightarrow> ok m P"
  by (auto simp: returns_def ok_def split: option.splits)

lemma ok_first: "ok m (\<lambda>(a, b). P a b \<and> Q a b) \<Longrightarrow> ok m (\<lambda>(a, b). P a b)"
  by (auto simp: ok_def)

section \<open>What a handler keeps\<close>

definition keeps :: "InMemoryShardExecutor \<Rightarrow> InMemoryShardExecutor \<Rightarrow> bool" where
  "keeps sh sh' \<longleftrightarrow> shard_inv sh' \<and> shard_room sh' \<and> (sh_durable sh' = None \<longleftrightarrow> sh_durable sh = None) \<and>
     sh_max_delivery_passes sh' = sh_max_delivery_passes sh"

lemma keeps_refl: "shard_inv sh \<Longrightarrow> shard_room sh \<Longrightarrow> keeps sh sh"
  by (simp add: keeps_def)

lemma keeps_trans: "keeps sh sh1 \<Longrightarrow> keeps sh1 sh2 \<Longrightarrow> keeps sh sh2"
  by (simp add: keeps_def)

lemma driven_keeps: "driven qid sh sink sh' sink' \<Longrightarrow> keeps sh sh'"
  by (simp add: driven_def keeps_def)

lemma drive_queue_keeps:
  assumes "keeps sh0 sh"
  shows "ok (drive_queue sh qid sink) (\<lambda>(sh', sink'). keeps sh0 sh' \<and> (0 < sh_max_delivery_passes sh0 \<longrightarrow> served qid sh'))"
  by (rule ok_mono [OF drive_queue_ok]) (use assms in \<open>auto simp: keeps_def driven_def\<close>)

section \<open>Queues\<close>

lemma ledger_empty: "ledger q_empty"
  by (simp add: ledger_def q_empty_def stats_default_def qcount_def status_def)

lemma shard_inv_new_queue:
  assumes inv: "shard_inv sh" and none: "sh_queues sh qid = None" and q: "qs_id q = qid" "qs_consumers q = []" "qs_queue q = q_empty"
  shows "shard_inv (sh\<lparr>sh_queues := (sh_queues sh)(qid \<mapsto> q)\<rparr>)"
proof -
  have "consumers_inv [] q_empty" using queue_inv_empty by (simp add: consumers_inv_def status_def q_empty_def)
  then have "queue_state_inv (sh_consumers sh) qid q" using q ledger_empty by (simp add: queue_state_inv_def)
  moreover have "crs_queue_id c \<noteq> qid" if "sh_consumers sh cid = Some c" for cid c
    using inv that none unfolding shard_inv_def by (metis option.distinct(1))
  ultimately show ?thesis using inv unfolding shard_inv_def by (auto split: if_splits)
qed

lemma exec_declare_queue_keeps:
  assumes "shard_inv sh" "shard_room sh"
  shows "keeps sh (fst (exec_declare_queue sh cmd sink))"
proof (cases "sh_queues sh (dq_queue_id cmd)")
  case None
  have "queue_room q_empty" by (simp add: queue_room_def ready_def qcount_def status_def q_empty_def stats_default_def FIRST_TAG_def u32_max_def u64_max_def)
  then show ?thesis
    using assms shard_inv_new_queue [OF assms(1) None] None
    by (auto simp: exec_declare_queue_def create_queue_def keeps_def shard_room_def)
next
  case (Some q)
  then show ?thesis using assms by (simp add: exec_declare_queue_def create_queue_def keeps_def)
qed

lemma publish_room:
  assumes "status q' = (\<lambda>s. if s \<in> {q_next_seq q..<q_next_seq q + n} then Some Ready else status q s)"
  shows "ready q' = ready q + n"
proof -
  have none: "\<forall>s\<in>{q_next_seq q..<q_next_seq q + n}. status q s \<noteq> Some u" for u by (auto dest: status_Some_less)
  show ?thesis using qcount_gain [OF assms _ none] qcount_keep [OF assms _ none] by (simp add: ready_def)
qed

definition publish_guard :: "InMemoryShardExecutor \<Rightarrow> ShardPublishBatch \<Rightarrow> bool" where
  "publish_guard sh b \<longleftrightarrow> length (sp_records b) \<le> u32_max \<and> (\<forall>q. sh_queues sh (sp_queue_id b) = Some q \<longrightarrow>
     q_next_seq (qs_queue q) + publish_count b + 256 \<le> u32_max \<and>
     total_delivered (q_stats (qs_queue q)) + ready (qs_queue q) + publish_count b + 256 + FIRST_TAG \<le> u64_max)"

lemma insert_payloads_ok: "base + i + length recs \<le> u64_max \<Longrightarrow> \<exists>m'. insert_payloads base i recs m = Some m'"
proof (induction recs arbitrary: i m)
  case (Cons rec recs)
  then show ?case using Cons.IH [of "Suc i" "m(base + i \<mapsto> pb_payload rec)"] by (simp add: add_u64_def)
qed simp

text \<open>The shard after the messages have entered the queue and before they are delivered.\<close>

definition with_published :: "InMemoryShardExecutor \<Rightarrow> QueueState \<Rightarrow> ShardPublishBatch \<Rightarrow> InMemoryShardExecutor \<Rightarrow> bool" where
  "with_published sh q b sh1 \<longleftrightarrow> (\<exists>queue m. sh1 = sh\<lparr>sh_queues := (sh_queues sh)(sp_queue_id b \<mapsto> q\<lparr>qs_queue := queue, qs_seq_payloads := m\<rparr>)\<rparr> \<and>
     q_next_seq queue = q_next_seq (qs_queue q) + publish_count b \<and>
     insert_payloads (q_next_seq (qs_queue q)) 0 (sp_records b) (qs_seq_payloads q) = Some m \<and>
     status queue = (\<lambda>s. if s \<in> {q_next_seq (qs_queue q)..<q_next_seq (qs_queue q) + publish_count b} then Some Ready else status (qs_queue q) s))"

lemma publish_in_memory_driven:
  assumes inv: "shard_inv sh" and room: "shard_room sh" and g: "publish_guard sh b" and q: "sh_queues sh (sp_queue_id b) = Some q"
  shows "ok (publish_in_memory sh q b sink) (\<lambda>(sh', sink'). \<exists>sh1 sink1. with_published sh q b sh1 \<and> keeps sh sh1 \<and>
    so_errors sink1 = so_errors sink \<and> driven (sp_queue_id b) sh1 sink1 sh' sink' \<and> (0 < sh_max_delivery_passes sh \<longrightarrow> served (sp_queue_id b) sh'))"
proof -
  let ?q = "qs_queue q" and ?n = "publish_count b"
  have qi: "queue_inv ?q" and l: "ledger ?q" using inv q by (auto simp: shard_inv_def queue_state_inv_def consumers_inv_def)
  have g': "length (sp_records b) \<le> u32_max" "q_next_seq ?q + ?n + 256 \<le> u32_max"
    "total_delivered (q_stats ?q) + ready ?q + ?n + 256 + FIRST_TAG \<le> u64_max" using g q by (simp_all add: publish_guard_def)
  have b: "q_next_seq ?q + ?n \<le> 256 * u32_max" "total_published (q_stats ?q) + ?n \<le> u64_max" "q_next_seq ?q + 0 + length (sp_records b) \<le> u64_max"
    using g' l by (simp_all add: ledger_def u32_max_def u64_max_def)
  obtain rg queue where p: "publish_contiguous ?q ?n = Some (rg, queue)" "queue_inv queue" "q_next_seq queue = q_next_seq ?q + ?n"
    "q_stats queue = (q_stats ?q)\<lparr>total_published := total_published (q_stats ?q) + ?n\<rparr>"
    "status queue = (\<lambda>s. if s \<in> {q_next_seq ?q..<q_next_seq ?q + ?n} then Some Ready else status ?q s)"
    using publish_inv [OF qi b(1,2)] by (auto elim!: okE)
  obtain m where m: "insert_payloads (q_next_seq ?q) 0 (sp_records b) (qs_seq_payloads q) = Some m"
    using insert_payloads_ok [OF b(3)] by auto
  let ?sh1 = "sh\<lparr>sh_queues := (sh_queues sh)(sp_queue_id b \<mapsto> q\<lparr>qs_queue := queue, qs_seq_payloads := m\<rparr>)\<rparr>"
  have "ledger queue" using ledger_step [OF step_publish [OF p(1) b(1,2)] qi l] .
  then have i1: "shard_inv ?sh1"
    using p by (intro shard_inv_queue [OF inv q]) (auto dest: status_Some_less)
  have r1: "shard_room ?sh1" using room g' p(3,4) publish_room [OF p(5)] by (auto simp: shard_room_def queue_room_def)
  have w: "with_published sh q b ?sh1" unfolding with_published_def using p(3,5) m by blast
  have k: "keeps sh ?sh1" using i1 r1 by (simp add: keeps_def)
  let ?sink = "if sp_confirm_mode b \<noteq> ConfirmNone then on_confirm \<lparr>pc_source = sp_source b, pc_batch_id = sp_batch_id b,
      pc_accepted = publish_count b, pc_first_seq = None, pc_mode = sp_confirm_mode b\<rparr> sink else sink"
  have e: "so_errors ?sink = so_errors sink" by (simp add: on_confirm_def)
  have "ok (drive_queue ?sh1 (sp_queue_id b) ?sink) (\<lambda>(sh', sink'). \<exists>sh1 sink1. with_published sh q b sh1 \<and> keeps sh sh1 \<and>
    so_errors sink1 = so_errors sink \<and> driven (sp_queue_id b) sh1 sink1 sh' sink' \<and> (0 < sh_max_delivery_passes sh \<longrightarrow> served (sp_queue_id b) sh'))"
  proof (rule ok_mono [OF drive_queue_ok [OF i1 r1]])
    fix x assume a: "case x of (sh', sink') \<Rightarrow> driven (sp_queue_id b) ?sh1 ?sink sh' sink' \<and> (0 < sh_max_delivery_passes ?sh1 \<longrightarrow> served (sp_queue_id b) sh')"
    obtain sh' sink' where x: "x = (sh', sink')" by (cases x)
    have p: "sh_max_delivery_passes ?sh1 = sh_max_delivery_passes sh" by simp
    show "case x of (sh', sink') \<Rightarrow> \<exists>sh1 sink1. with_published sh q b sh1 \<and> keeps sh sh1 \<and> so_errors sink1 = so_errors sink \<and>
        driven (sp_queue_id b) sh1 sink1 sh' sink' \<and> (0 < sh_max_delivery_passes sh \<longrightarrow> served (sp_queue_id b) sh')"
      using a unfolding x prod.case p by (elim conjE, intro exI conjI) (rule w, rule k, rule e, assumption+)
  qed
  then show ?thesis using p(1) m by (simp add: publish_in_memory_def Let_def q_len_def)
qed

lemma publish_in_memory_ok:
  assumes "shard_inv sh" "shard_room sh" "publish_guard sh b" "sh_queues sh (sp_queue_id b) = Some q"
  shows "ok (publish_in_memory sh q b sink) (\<lambda>(sh', sink'). keeps sh sh' \<and> (0 < sh_max_delivery_passes sh \<longrightarrow> served (sp_queue_id b) sh'))"
  by (rule ok_mono [OF publish_in_memory_driven [OF assms]]) (auto intro: keeps_trans driven_keeps)

lemma shard_durable [simp]:
  "shard_inv (sh\<lparr>sh_durable := d\<rparr>) = shard_inv sh" "shard_room (sh\<lparr>sh_durable := d\<rparr>) = shard_room sh"
  "publish_guard (sh\<lparr>sh_durable := d\<rparr>) b = publish_guard sh b"
  by (simp_all add: shard_inv_def shard_room_def publish_guard_def)

lemma exec_publish_keeps:
  assumes inv: "shard_inv sh" and room: "shard_room sh" and g: "publish_guard sh b"
  shows "returns (sh_durable sh \<noteq> None) (exec_publish crc sh b sink) (\<lambda>(sh', sink'). keeps sh sh')"
proof (cases "sh_queues sh (sp_queue_id b)")
  case None
  then show ?thesis using keeps_refl [OF inv room] by (simp add: exec_publish_def)
next
  case (Some q)
  note mem = publish_in_memory_ok [OF _ _ _ Some]
  show ?thesis
  proof (cases "sh_durable sh")
    case None
    show ?thesis using returns_ok [OF ok_first [OF mem [OF inv room g]]] Some None \<open>sh_queues sh (sp_queue_id b) = Some q\<close> by (simp add: exec_publish_def)
  next
    case (Some store)
    have mem': "ok (publish_in_memory (sh\<lparr>sh_durable := Some st\<rparr>) q b sink) (\<lambda>(sh', sink'). keeps sh sh')" for st
      by (rule ok_mono [OF publish_in_memory_ok [of "sh\<lparr>sh_durable := Some st\<rparr>"]])
        (use inv room g \<open>sh_queues sh (sp_queue_id b) = Some q\<close> Some in \<open>auto simp: keeps_def\<close>)
    have "keeps sh (sh\<lparr>sh_durable := Some st\<rparr>)" for st using inv room Some by (simp add: keeps_def)
    then have "returns True (let sh = sh\<lparr>sh_durable := Some st\<rparr> in case r of
          Inl _ \<Rightarrow> Some (sh, on_error [error_global ErrInternalInvariantViolation] sink)
        | Inr _ \<Rightarrow> publish_in_memory sh q b sink) (\<lambda>(sh', sink'). keeps sh sh')" for r :: "StorageError + unit" and st
      using returns_ok [OF mem'] by (cases r) (simp_all add: Let_def)
    then show ?thesis
      using \<open>sh_queues sh (sp_queue_id b) = Some q\<close> Some unfolding exec_publish_def by (simp only: option.case returns_bind) (rule returns_any; simp)
  qed
qed

section \<open>Consumers\<close>

lemma shard_inv_new_consumer:
  assumes inv: "shard_inv sh" and none: "sh_consumers sh cid = None" and q: "sh_queues sh qid = Some q"
    and c: "crs_queue_id c = qid" "crs_session c = session_new i ch mode" "crs_flags c = CONSUMER_RT_ACTIVE" and mode: "\<forall>l. mode = Limited l \<longrightarrow> l \<le> u32_max"
  shows "cid \<notin> set (qs_consumers q)"
    "shard_inv (sh\<lparr>sh_queues := (sh_queues sh)(qid \<mapsto> q\<lparr>qs_consumers := qs_consumers q @ [cid]\<rparr>), sh_consumers := (sh_consumers sh)(cid \<mapsto> c)\<rparr>)"
proof -
  have fresh: "cid \<notin> set (qs_consumers p)" if "sh_queues sh k = Some p" for k p
    using inv none that unfolding shard_inv_def queue_state_inv_def by fastforce
  show "cid \<notin> set (qs_consumers q)" by (rule fresh [OF q])
  let ?cs = "(sh_consumers sh)(cid \<mapsto> c)" and ?q = "q\<lparr>qs_consumers := qs_consumers q @ [cid]\<rparr>"
  have old: "queue_state_inv ?cs k p" if "sh_queues sh k = Some p" for k p
    using queue_state_inv_other [OF _ fresh [OF that]] inv that by (simp add: shard_inv_def)
  have "consumers_inv (map (session_of ?cs) (qs_consumers q) @ [session_new i ch mode]) (qs_queue q)"
    by (rule consumers_subscribe [OF _ mode]) (use old [OF q] in \<open>simp add: queue_state_inv_def\<close>)
  then have "consumers_inv (map (session_of ?cs) (qs_consumers ?q)) (qs_queue ?q)" using c(2) by (simp add: session_of_def)
  moreover have "attached qid ?q c" using c by (simp add: attached_def session_new_def is_cancelled_def flags_contain_def CONSUMER_CANCELLED_def)
  moreover have at: "attached qid ?q d = attached qid q d" for d by (simp add: attached_def)
  ultimately have "queue_state_inv ?cs qid ?q"
    using old [OF q] fresh [OF q] unfolding queue_state_inv_def at by (simp del: fun_upd_apply) (simp add: at)
  moreover have "\<exists>p. ((sh_queues sh)(qid \<mapsto> ?q)) (crs_queue_id d) = Some p \<and> k \<in> set (qs_consumers p)" if kd: "?cs k = Some d" for k d
  proof (cases "k = cid")
    case True
    then show ?thesis using kd c(1) by simp
  next
    case False
    then obtain p where "sh_queues sh (crs_queue_id d) = Some p" "k \<in> set (qs_consumers p)"
      using kd inv unfolding shard_inv_def by (metis fun_upd_apply)
    then show ?thesis using q by auto
  qed
  ultimately show "shard_inv (sh\<lparr>sh_queues := (sh_queues sh)(qid \<mapsto> ?q), sh_consumers := ?cs\<rparr>)"
    using old unfolding shard_inv_def by simp
qed

lemma exec_consume_start_keeps:
  assumes inv: "shard_inv sh" and room: "shard_room sh" and p: "cm_prefetch cmd \<le> u32_max"
  shows "ok (exec_consume_start sh cmd sink) (\<lambda>(sh', sink'). keeps sh sh')"
proof -
  let ?qid = "cm_queue_id cmd" and ?cid = "cm_consumer_id cmd"
  let ?mode = "if cm_prefetch cmd = 0 then Unlimited else Limited (cm_prefetch cmd)"
  let ?c = "\<lparr>crs_queue_id = ?qid, crs_channel_id = cm_channel_id cmd, crs_session = session_new ?cid (cm_channel_id cmd) ?mode,
    crs_out = \<lparr>sb_segments = []\<rparr>, crs_flags = CONSUMER_RT_ACTIVE\<rparr>"
  consider "sh_queues sh ?qid = None" | q c where "sh_queues sh ?qid = Some q" "sh_consumers sh ?cid = Some c"
    | q where "sh_queues sh ?qid = Some q" "sh_consumers sh ?cid = None" by fastforce
  then show ?thesis
  proof cases
    case 1
    then show ?thesis using keeps_refl [OF inv room] by (simp add: exec_consume_start_def)
  next
    case 2
    then show ?thesis using keeps_refl [OF inv room] by (simp add: exec_consume_start_def consumer_insert_def Let_def)
  next
    case (3 q)
    let ?sh = "sh\<lparr>sh_queues := (sh_queues sh)(?qid \<mapsto> q\<lparr>qs_consumers := qs_consumers q @ [?cid]\<rparr>), sh_consumers := (sh_consumers sh)(?cid \<mapsto> ?c)\<rparr>"
    have nc: "?cid \<notin> set (qs_consumers q)" and i: "shard_inv ?sh"
      using shard_inv_new_consumer [OF inv 3(2,1), of ?c ?cid "cm_channel_id cmd" ?mode] p by simp_all
    have "shard_room ?sh" using room 3(1) by (auto simp: shard_room_def)
    with i have "keeps sh ?sh" by (simp add: keeps_def)
    from ok_first [OF drive_queue_keeps [OF this]] show ?thesis
      using 3 nc by (simp add: exec_consume_start_def consumer_insert_def attach_consumer_def Let_def split del: if_split)
  qed
qed

lemma exec_credit_update_keeps:
  assumes "shard_inv sh" "shard_room sh"
  shows "ok (exec_credit_update sh cmd sink) (\<lambda>(sh', sink'). keeps sh sh')"
  using keeps_refl [OF assms] ok_first [OF drive_queue_keeps [OF keeps_refl [OF assms]]]
  by (simp add: exec_credit_update_def split: option.splits)

end
