(* ===== verification/Shard_Settle.thy ===== *)
theory Shard_Settle
  imports Shard_Commands
begin

text \<open>
  The settlement handlers of the shard: acknowledge, nack, reject and cancel, with the loops over masks
  and over the items of a batch, and the dispatch of a command batch.
\<close>

section \<open>Commands of a session\<close>

text \<open>The mask loops add tags to their base, so the base leaves room for the bits of the mask.\<close>

fun ack_guard :: "AckCommand \<Rightarrow> bool" where
  "ack_guard (AckTagMask base msk) \<longleftrightarrow> base + 64 \<le> u64_max"
| "ack_guard _ \<longleftrightarrow> True"

fun nack_guard :: "NackCommand \<Rightarrow> bool" where
  "nack_guard (NackTagMask base msk d) \<longleftrightarrow> base + 64 \<le> u64_max"
| "nack_guard _ \<longleftrightarrow> True"

lemma session_unacked_u32: "session_inv s q \<Longrightarrow> sw_unacked (cs_window s) \<le> u32_max"
  by (simp add: session_inv_def window_inv_def)

lemma ack_mask_loop_ok:
  "session_inv s q \<Longrightarrow> \<not> is_cancelled s \<Longrightarrow> booked q \<Longrightarrow> base + seq + count_ones remaining \<le> u64_max \<Longrightarrow>
   aa_acked res + sw_unacked (cs_window s) \<le> u32_max \<Longrightarrow>
   ok (ack_mask_loop base remaining seq res s q)
     (\<lambda>(res', s', q'). \<exists>n. aa_acked res' = aa_acked res + n \<and> settle_run n s q s' q')"
proof (induction base remaining seq res s q rule: ack_mask_loop.induct)
  case (1 base remaining seq res s q)
  show ?case
  proof (cases "remaining = 0")
    case True
    then show ?thesis using settle_run_refl [OF 1(2)] by (simp add: ack_mask_loop.simps)
  next
    case False
    let ?tag = "base + seq"
    have c: "count_ones remaining = Suc (count_ones (remaining AND (remaining - 1)))" by (rule count_ones_clear [OF False])
    have t: "add_u64 base seq = Some ?tag" using 1(5) by (simp add: add_u64_def)
    obtain r s1 q1 where run: "session_ack s (ack_request_one ?tag) q = Some (r, s1, q1)"
      and st: "settle_run (case r of Inl _ \<Rightarrow> 0 | Inr a \<Rightarrow> aa_acked a) s q s1 q1"
      using session_ack_run [OF 1(2-4)] by (blast elim: okE)
    let ?n = "case r of Inl _ \<Rightarrow> 0 | Inr a \<Rightarrow> aa_acked a"
    have n: "?n + sw_unacked (cs_window s1) = sw_unacked (cs_window s)" using st by (simp add: settle_run_def)
    obtain res1 where res1: "(case r of Inl _ \<Rightarrow> Some res
          | Inr a \<Rightarrow> Option.bind (add_u32 (aa_acked res) (aa_acked a)) (\<lambda>n. Some (res\<lparr>aa_acked := n, aa_ranges := aa_ranges res @ aa_ranges a\<rparr>))) = Some res1"
      "aa_acked res1 = aa_acked res + ?n"
      using 1(6) n by (cases r) (auto simp: add_u32_def)
    note i = settle_run_inv [OF st]
    have "ok (ack_mask_loop base (remaining AND (remaining - 1)) (Suc seq) res1 s1 q1)
      (\<lambda>(res', s', q'). \<exists>m. aa_acked res' = aa_acked res1 + m \<and> settle_run m s1 q1 s' q')"
      by (rule 1(1) [OF False refl t run refl refl res1(1)]) (use i 1(3-6) c n res1(2) in simp_all)
    then have "ok (ack_mask_loop base (remaining AND (remaining - 1)) (Suc seq) res1 s1 q1)
      (\<lambda>(res', s', q'). \<exists>m. aa_acked res' = aa_acked res + m \<and> settle_run m s q s' q')"
      by (rule ok_mono) (use res1(2) in \<open>auto intro: settle_run_trans [OF st]\<close>)
    then show ?thesis
      using False t run res1(1) by (subst ack_mask_loop.simps) (simp add: Let_def)
  qed
qed

lemma session_ack_command_ok:
  assumes s: "session_inv s q" "\<not> is_cancelled s" "booked q" and g: "ack_guard cmd"
  shows "ok (session_ack_command cmd s q) (\<lambda>(r, s', q'). \<exists>n. (case r of Inl _ \<Rightarrow> True | Inr a \<Rightarrow> aa_acked a = n) \<and> settle_run n s q s' q')"
proof -
  have one: "ok (session_ack s req q) (\<lambda>(r, s', q'). \<exists>n. (case r of Inl _ \<Rightarrow> True | Inr a \<Rightarrow> aa_acked a = n) \<and> settle_run n s q s' q')" for req
    by (rule ok_mono [OF session_ack_run [OF s]]) (auto split: sum.splits)
  have msk: "ok (ack_mask_loop base msk 0 \<lparr>aa_acked = 0, aa_released_credit = 0, aa_ranges = []\<rparr> s q)
      (\<lambda>(res', s', q'). \<exists>n. aa_acked res' = n \<and> settle_run n s q s' q')" if "base + 64 \<le> u64_max" for base msk
    using ack_mask_loop_ok [OF s, of base 0 msk "\<lparr>aa_acked = 0, aa_released_credit = 0, aa_ranges = []\<rparr>"]
      that count_ones_le [of msk] session_unacked_u32 [OF s(1)] by simp
  show ?thesis
    using one msk g unfolding session_ack_command_def by (cases cmd) (auto split: SettlementMode.splits)
qed

text \<open>The bits of a mask that is shifted to the right stay bits of the mask.\<close>

lemma nack_mask_loop_ok:
  "session_inv s q \<Longrightarrow> \<not> is_cancelled s \<Longrightarrow> booked q \<Longrightarrow> base + 64 \<le> u64_max \<Longrightarrow> remaining = drop_bit bit_pos msk \<Longrightarrow>
   total_n + sw_unacked (cs_window s) \<le> u32_max \<Longrightarrow>
   ok (nack_mask_loop base remaining bit_pos reason total_n s q)
     (\<lambda>(m, s', q'). \<exists>n. m = total_n + n \<and> settle_run n s q s' q')"
proof (induction base remaining bit_pos reason total_n s q rule: nack_mask_loop.induct)
  case (1 base remaining bit_pos reason total_n s q)
  show ?case
  proof (cases "remaining = 0")
    case True
    then show ?thesis using settle_run_refl [OF 1(2)] by (simp add: nack_mask_loop.simps)
  next
    case False
    let ?tz = "trailing_zeros remaining"
    have "bit msk (bit_pos + ?tz)" using trailing_zeros_bit [OF False] 1(6) by (simp add: bit_drop_bit_eq)
    then have "bit_pos + ?tz < 64" using bit_imp_le_length [of msk] by fastforce
    then have t: "add_u64 base (bit_pos + ?tz) = Some (base + (bit_pos + ?tz))" using 1(5) by (simp add: add_u64_def)
    obtain r s1 q1 where run: "session_nack s (nack_request_one (base + (bit_pos + ?tz)) reason) q = Some (r, s1, q1)"
      and st: "settle_run (case r of Inl _ \<Rightarrow> 0 | Inr a \<Rightarrow> na_nacked a) s q s1 q1"
      using session_nack_run [OF 1(2-4)] by (blast elim: okE)
    let ?n = "case r of Inl _ \<Rightarrow> 0 | Inr a \<Rightarrow> na_nacked a"
    have n: "?n + sw_unacked (cs_window s1) = sw_unacked (cs_window s)" using st by (simp add: settle_run_def)
    have t1: "(case r of Inl _ \<Rightarrow> Some total_n | Inr a \<Rightarrow> add_u32 total_n (na_nacked a)) = Some (total_n + ?n)"
      using 1(7) n by (cases r) (auto simp: add_u32_def)
    note i = settle_run_inv [OF st]
    have "ok (nack_mask_loop base (drop_bit (Suc ?tz) remaining) (bit_pos + ?tz + 1) reason (total_n + ?n) s1 q1)
      (\<lambda>(m, s', q'). \<exists>k. m = (total_n + ?n) + k \<and> settle_run k s1 q1 s' q')"
      by (rule 1(1) [OF False refl t run refl refl t1]) (use i 1(3-7) n in \<open>simp_all add: ac_simps\<close>)
    then have "ok (nack_mask_loop base (drop_bit (Suc ?tz) remaining) (bit_pos + ?tz + 1) reason (total_n + ?n) s1 q1)
      (\<lambda>(m, s', q'). \<exists>k. m = total_n + k \<and> settle_run k s q s' q')"
      by (rule ok_mono) (auto intro: settle_run_trans [OF st])
    then show ?thesis
      using False t run t1 by (subst nack_mask_loop.simps) (simp add: Let_def)
  qed
qed

lemma session_nack_command_ok:
  assumes s: "session_inv s q" "\<not> is_cancelled s" "booked q" and g: "nack_guard cmd"
  shows "ok (session_nack_command cmd s q) (\<lambda>(r, s', q'). \<exists>n. (case r of Inl _ \<Rightarrow> True | Inr a \<Rightarrow> a = n) \<and> settle_run n s q s' q')"
proof -
  have one: "ok (session_nack s req q) (\<lambda>(r, s', q'). \<exists>n. (case map_sum id na_nacked r of Inl _ \<Rightarrow> True | Inr a \<Rightarrow> a = n) \<and> settle_run n s q s' q')" for req
    by (rule ok_mono [OF session_nack_run [OF s]]) (auto split: sum.splits)
  have msk: "ok (nack_mask_loop base msk 0 reason 0 s q) (\<lambda>(m, s', q'). \<exists>n. m = n \<and> settle_run n s q s' q')" if "base + 64 \<le> u64_max" for base msk reason
    using nack_mask_loop_ok [OF s that, of msk 0 msk 0] session_unacked_u32 [OF s(1)] by simp
  show ?thesis
    using one msk g unfolding session_nack_command_def by (cases cmd) (auto split: SettlementMode.splits)
qed

section \<open>Commands of the shard\<close>

definition unacked_at :: "nat \<Rightarrow> InMemoryShardExecutor \<Rightarrow> nat" where
  "unacked_at cid sh = (case sh_consumers sh cid of None \<Rightarrow> 0 | Some c \<Rightarrow> sw_unacked (cs_window (crs_session c)))"

text \<open>A settlement of a consumer: nothing is delivered, and the counters of the queues stay.\<close>

definition shard_settles :: "InMemoryShardExecutor \<Rightarrow> InMemoryShardExecutor \<Rightarrow> bool" where
  "shard_settles sh sh' \<longleftrightarrow> keeps sh sh' \<and>
     (\<forall>k. consumer_queue_id (sh_consumers sh') k = consumer_queue_id (sh_consumers sh) k) \<and>
     (\<forall>k. map_option (\<lambda>q. (q_next_seq (qs_queue q), total_delivered (q_stats (qs_queue q)))) (sh_queues sh' k) =
        map_option (\<lambda>q. (q_next_seq (qs_queue q), total_delivered (q_stats (qs_queue q)))) (sh_queues sh k))"

lemma shard_settles_refl: "shard_inv sh \<Longrightarrow> shard_room sh \<Longrightarrow> shard_settles sh sh"
  by (simp add: shard_settles_def keeps_refl)

lemma shard_settles_trans: "shard_settles sh sh1 \<Longrightarrow> shard_settles sh1 sh2 \<Longrightarrow> shard_settles sh sh2"
  unfolding shard_settles_def by (auto intro: keeps_trans)

lemma shard_settles_inv: "shard_settles sh sh' \<Longrightarrow> shard_inv sh' \<and> shard_room sh' \<and> keeps sh sh'"
  by (simp add: shard_settles_def keeps_def)

lemma unacked_at_u32:
  assumes "shard_inv sh"
  shows "unacked_at cid sh \<le> u32_max"
proof (cases "sh_consumers sh cid")
  case (Some c)
  obtain q :: QueueState where "session_inv (crs_session c) (qs_queue q)" using shard_invD [OF assms Some refl] by blast
  then show ?thesis using session_unacked_u32 Some by (auto simp: unacked_at_def)
qed (simp add: unacked_at_def)

text \<open>What a handler finds when it looks a consumer and its queue up.\<close>

lemma shard_lookup:
  assumes "shard_inv sh" "shard_room sh" "sh_consumers sh cid = Some c"
  shows "\<exists>q. sh_queues sh (crs_queue_id c) = Some q \<and> attached (crs_queue_id c) q c \<and> session_inv (crs_session c) (qs_queue q) \<and>
    \<not> is_cancelled (crs_session c) \<and> booked (qs_queue q)"
  using shard_invD [OF assms(1,3) refl] assms(2) room_booked
  unfolding attached_def shard_room_def queue_state_inv_def by blast

lemma settle_put:
  assumes inv: "shard_inv sh" and room: "shard_room sh" and c: "sh_consumers sh cid = Some c"
    and q: "sh_queues sh (crs_queue_id c) = Some q" and st: "settle_run n (crs_session c) (qs_queue q) s' q'"
  defines "sh' \<equiv> put_session sh (crs_queue_id c) q q' cid (c\<lparr>crs_session := s'\<rparr>)"
  shows "shard_settles sh sh'" "n + unacked_at cid sh' = unacked_at cid sh"
proof -
  have at: "attached (crs_queue_id c) q c" and l: "ledger (qs_queue q)" and qr: "queue_room (qs_queue q)"
    using shard_invD [OF inv c refl] q room by (auto simp: queue_state_inv_def shard_room_def)
  have b: "ledger q'" "q_next_seq q' = q_next_seq (qs_queue q)" "total_delivered (q_stats q') = total_delivered (q_stats (qs_queue q))"
    and f: "cs_next_tag s' = cs_next_tag (crs_session c)" "cs_flags s' = cs_flags (crs_session c)"
    using st l by (simp_all add: settle_run_def books_def)
  have "shard_inv sh'"
    unfolding sh'_def
  proof (rule shard_inv_put [OF inv c refl q])
    show "owner_step (crs_session c) (qs_queue q) (crs_session (c\<lparr>crs_session := s'\<rparr>)) q'" using st by (simp add: settle_run_def)
    show "attached (crs_queue_id c) (q\<lparr>qs_queue := q'\<rparr>) (c\<lparr>crs_session := s'\<rparr>)" using at b f by (simp add: attached_def is_cancelled_def)
  qed (use b in simp_all)
  moreover have "shard_room sh'"
    using room qr b settle_run_ready [OF st] by (auto simp: sh'_def shard_room_def put_session_def queue_room_def)
  ultimately show "shard_settles sh sh'" using c q b by (auto simp: shard_settles_def keeps_def sh'_def put_session_def consumer_queue_id_def)
  show "n + unacked_at cid sh' = unacked_at cid sh" using st c by (simp add: settle_run_def unacked_at_def sh'_def put_session_def)
qed

lemma shard_settles_durable: "shard_settles sh sh' \<Longrightarrow> sh_durable sh' \<noteq> None \<Longrightarrow> shard_settles sh (sh'\<lparr>sh_durable := Some st\<rparr>)"
  by (auto simp: shard_settles_def keeps_def)

lemma unacked_durable [simp]: "unacked_at cid (sh\<lparr>sh_durable := d\<rparr>) = unacked_at cid sh"
  by (simp add: unacked_at_def)

lemma exec_ack_command_ok:
  assumes inv: "shard_inv sh" and room: "shard_room sh" and g: "ack_guard cmd"
  shows "returns (sh_durable sh \<noteq> None) (exec_ack_command crc sh cid cmd)
    (\<lambda>(r, sh'). shard_settles sh sh' \<and> (case r of Inl _ \<Rightarrow> 0 | Inr a \<Rightarrow> aa_acked a) + unacked_at cid sh' \<le> unacked_at cid sh)"
proof (cases "sh_consumers sh cid")
  case None
  then show ?thesis using shard_settles_refl [OF inv room] by (simp add: exec_ack_command_def consumer_queue_id_def)
next
  case (Some c)
  obtain q where q: "sh_queues sh (crs_queue_id c) = Some q" and si: "session_inv (crs_session c) (qs_queue q)"
    "\<not> is_cancelled (crs_session c)" "booked (qs_queue q)" using shard_lookup [OF inv room Some] by blast
  obtain r s' q' n where run: "session_ack_command cmd (crs_session c) (qs_queue q) = Some (r, s', q')"
    and n: "case r of Inl _ \<Rightarrow> True | Inr a \<Rightarrow> aa_acked a = n" and st: "settle_run n (crs_session c) (qs_queue q) s' q'"
    using session_ack_command_ok [OF si g] by (blast elim: okE)
  note sp = settle_put [OF inv room Some q st]
  let ?sh = "put_session sh (crs_queue_id c) q q' cid (c\<lparr>crs_session := s'\<rparr>)"
  have d: "sh_durable ?sh = sh_durable sh" by (simp add: put_session_def)
  have fin: "returns (sh_durable sh \<noteq> None) (case r of
        Inl e \<Rightarrow> Some (Inl (consumer_error cid e), ?sh)
      | Inr result \<Rightarrow> (case sh_durable ?sh of None \<Rightarrow> Some (Inr result, ?sh)
        | Some store \<Rightarrow> Option.bind (storage_append_ack_ranges crc store (crs_queue_id c) (aa_ranges result)) (\<lambda>(sr, store).
            let sh = ?sh\<lparr>sh_durable := Some store\<rparr> in
            (case sr of Inl _ \<Rightarrow> Some (Inl (error_global ErrInternalInvariantViolation), sh) | Inr _ \<Rightarrow> Some (Inr result, sh)))))
      (\<lambda>(r, sh'). shard_settles sh sh' \<and> (case r of Inl _ \<Rightarrow> 0 | Inr a \<Rightarrow> aa_acked a) + unacked_at cid sh' \<le> unacked_at cid sh)"
  proof (cases r)
    case (Inl e)
    then show ?thesis using sp by simp
  next
    case (Inr res)
    show ?thesis
    proof (cases "sh_durable sh")
      case None
      then show ?thesis using sp n Inr d by simp
    next
      case (Some store)
      then have "shard_settles sh (?sh\<lparr>sh_durable := Some st\<rparr>)" for st using shard_settles_durable [OF sp(1)] d by simp
      then show ?thesis using sp(2) n Inr d Some by (simp add: Let_def) (rule returns_any; auto split: sum.splits)
    qed
  qed
  then show ?thesis using Some q run by (simp add: exec_ack_command_def consumer_queue_id_def Let_def)
qed

lemma exec_nack_command_ok:
  assumes inv: "shard_inv sh" and room: "shard_room sh" and g: "nack_guard cmd"
  shows "ok (exec_nack_command sh cid cmd) (\<lambda>(r, sh'). shard_settles sh sh' \<and> (case r of Inl _ \<Rightarrow> 0 | Inr m \<Rightarrow> m) + unacked_at cid sh' \<le> unacked_at cid sh)"
proof (cases "sh_consumers sh cid")
  case None
  then show ?thesis using shard_settles_refl [OF inv room] by (simp add: exec_nack_command_def consumer_queue_id_def)
next
  case (Some c)
  obtain q where q: "sh_queues sh (crs_queue_id c) = Some q" and si: "session_inv (crs_session c) (qs_queue q)"
    "\<not> is_cancelled (crs_session c)" "booked (qs_queue q)" using shard_lookup [OF inv room Some] by blast
  obtain r s' q' n where run: "session_nack_command cmd (crs_session c) (qs_queue q) = Some (r, s', q')"
    and n: "case r of Inl _ \<Rightarrow> True | Inr m \<Rightarrow> m = n" and st: "settle_run n (crs_session c) (qs_queue q) s' q'"
    using session_nack_command_ok [OF si g] by (blast elim: okE)
  show ?thesis
    using settle_put [OF inv room Some q st] Some q run n by (cases r) (simp_all add: exec_nack_command_def consumer_queue_id_def Let_def)
qed

lemma exec_reject_command_ok:
  assumes inv: "shard_inv sh" and room: "shard_room sh"
  shows "ok (exec_reject_command sh cid cmd) (\<lambda>(r, sh'). shard_settles sh sh' \<and> (case r of Inl _ \<Rightarrow> 0 | Inr m \<Rightarrow> m) + unacked_at cid sh' \<le> unacked_at cid sh)"
proof (cases "sh_consumers sh cid")
  case None
  then show ?thesis using shard_settles_refl [OF inv room] by (simp add: exec_reject_command_def consumer_queue_id_def)
next
  case (Some c)
  obtain q where q: "sh_queues sh (crs_queue_id c) = Some q" and si: "session_inv (crs_session c) (qs_queue q)"
    "\<not> is_cancelled (crs_session c)" "booked (qs_queue q)" using shard_lookup [OF inv room Some] by blast
  obtain r s' q' where run: "session_nack (crs_session c) (nack_request_one (rj_tag cmd) (nack_reason_of (rj_disposition cmd))) (qs_queue q) = Some (r, s', q')"
    and st: "settle_run (case r of Inl _ \<Rightarrow> 0 | Inr a \<Rightarrow> na_nacked a) (crs_session c) (qs_queue q) s' q'"
    using session_nack_run [OF si] by (blast elim: okE)
  show ?thesis
    using settle_put [OF inv room Some q st] Some q run by (cases r) (simp_all add: exec_reject_command_def consumer_queue_id_def Let_def)
qed

section \<open>Batches\<close>

lemma exec_ack_items_ok:
  "shard_inv sh \<Longrightarrow> shard_room sh \<Longrightarrow> \<forall>cmd\<in>set cmds. ack_guard cmd \<Longrightarrow> settled_n + unacked_at cid sh \<le> u32_max \<Longrightarrow>
   returns (sh_durable sh \<noteq> None) (exec_ack_items crc cid cmds sh settled_n errs) (\<lambda>(m, errs', sh'). shard_settles sh sh')"
proof (induction cmds arbitrary: sh settled_n errs)
  case Nil
  then show ?case by (simp add: shard_settles_refl)
next
  case (Cons cmd cmds)
  have rest: "returns (sh_durable sh \<noteq> None) (exec_ack_items crc cid cmds sh1 k errs1) (\<lambda>(m, errs', sh'). shard_settles sh sh')"
    if s: "shard_settles sh sh1" and k: "k + unacked_at cid sh1 \<le> u32_max" for sh1 k errs1
  proof -
    have "returns (sh_durable sh1 \<noteq> None) (exec_ack_items crc cid cmds sh1 k errs1) (\<lambda>(m, errs', sh'). shard_settles sh1 sh')"
      by (rule Cons.IH) (use shard_settles_inv [OF s] Cons.prems k in auto)
    moreover have "(sh_durable sh1 \<noteq> None) = (sh_durable sh \<noteq> None)" using s by (simp add: shard_settles_def keeps_def)
    ultimately show ?thesis by (auto elim!: returns_mono intro: shard_settles_trans [OF s])
  qed
  have g: "ack_guard cmd" using Cons.prems(3) by simp
  show ?case
    unfolding exec_ack_items.simps returns_bind
  proof (rule returns_mono [OF exec_ack_command_ok [OF Cons.prems(1,2) g]], clarify)
    fix r :: "CommandError + AckApplyResult" and sh1
    assume s: "shard_settles sh sh1" and n: "(case r of Inl _ \<Rightarrow> 0 | Inr a \<Rightarrow> aa_acked a) + unacked_at cid sh1 \<le> unacked_at cid sh"
    show "returns (sh_durable sh \<noteq> None) (case r of
        Inl e \<Rightarrow> exec_ack_items crc cid cmds sh1 settled_n (errs @ [e])
      | Inr result \<Rightarrow> Option.bind (add_u32 settled_n (aa_acked result)) (\<lambda>settled_n. exec_ack_items crc cid cmds sh1 settled_n errs))
      (\<lambda>(m, errs', sh'). shard_settles sh sh')"
      using rest [OF s] n Cons.prems(4) by (cases r) (simp_all add: add_u32_def)
  qed
qed

lemma exec_nack_items_ok:
  "shard_inv sh \<Longrightarrow> shard_room sh \<Longrightarrow> \<forall>cmd\<in>set cmds. nack_guard cmd \<Longrightarrow> settled_n + unacked_at cid sh \<le> u32_max \<Longrightarrow>
   ok (exec_nack_items cid cmds sh settled_n errs) (\<lambda>(m, errs', sh'). shard_settles sh sh')"
proof (induction cmds arbitrary: sh settled_n errs)
  case Nil
  then show ?case by (simp add: shard_settles_refl)
next
  case (Cons cmd cmds)
  have rest: "ok (exec_nack_items cid cmds sh1 k errs1) (\<lambda>(m, errs', sh'). shard_settles sh sh')"
    if s: "shard_settles sh sh1" and k: "k + unacked_at cid sh1 \<le> u32_max" for sh1 k errs1
  proof -
    have "ok (exec_nack_items cid cmds sh1 k errs1) (\<lambda>(m, errs', sh'). shard_settles sh1 sh')"
      by (rule Cons.IH) (use shard_settles_inv [OF s] Cons.prems k in auto)
    then show ?thesis by (rule ok_mono) (auto intro: shard_settles_trans [OF s])
  qed
  have g: "nack_guard cmd" using Cons.prems(3) by simp
  show ?case
    unfolding exec_nack_items.simps ok_bind
  proof (rule ok_mono [OF exec_nack_command_ok [OF Cons.prems(1,2) g]], clarify)
    fix r :: "CommandError + nat" and sh1
    assume s: "shard_settles sh sh1" and n: "(case r of Inl _ \<Rightarrow> 0 | Inr m \<Rightarrow> m) + unacked_at cid sh1 \<le> unacked_at cid sh"
    show "ok (case r of
        Inl e \<Rightarrow> exec_nack_items cid cmds sh1 settled_n (errs @ [e])
      | Inr n \<Rightarrow> Option.bind (add_u32 settled_n n) (\<lambda>settled_n. exec_nack_items cid cmds sh1 settled_n errs))
      (\<lambda>(m, errs', sh'). shard_settles sh sh')"
      using rest [OF s] n Cons.prems(4) by (cases r) simp_all
  qed
qed

lemma exec_reject_items_ok:
  "shard_inv sh \<Longrightarrow> shard_room sh \<Longrightarrow> settled_n + unacked_at cid sh \<le> u32_max \<Longrightarrow>
   ok (exec_reject_items cid cmds sh settled_n) (\<lambda>(m, sh'). shard_settles sh sh')"
proof (induction cmds arbitrary: sh settled_n)
  case Nil
  then show ?case by (simp add: shard_settles_refl)
next
  case (Cons cmd cmds)
  have rest: "ok (exec_reject_items cid cmds sh1 k) (\<lambda>(m, sh'). shard_settles sh sh')"
    if s: "shard_settles sh sh1" and k: "k + unacked_at cid sh1 \<le> u32_max" for sh1 k
  proof -
    have "ok (exec_reject_items cid cmds sh1 k) (\<lambda>(m, sh'). shard_settles sh1 sh')"
      by (rule Cons.IH) (use shard_settles_inv [OF s] k in auto)
    then show ?thesis by (rule ok_mono) (auto intro: shard_settles_trans [OF s])
  qed
  show ?case
    unfolding exec_reject_items.simps ok_bind
  proof (rule ok_mono [OF exec_reject_command_ok [OF Cons.prems(1,2)]], clarify)
    fix r :: "CommandError + nat" and sh1
    assume s: "shard_settles sh sh1" and n: "(case r of Inl _ \<Rightarrow> 0 | Inr m \<Rightarrow> m) + unacked_at cid sh1 \<le> unacked_at cid sh"
    show "ok (case r of Inl e \<Rightarrow> exec_reject_items cid cmds sh1 settled_n
      | Inr n \<Rightarrow> Option.bind (add_u32 settled_n n) (\<lambda>settled_n. exec_reject_items cid cmds sh1 settled_n)) (\<lambda>(m, sh'). shard_settles sh sh')"
      using rest [OF s] n Cons.prems(3) by (cases r) simp_all
  qed
qed

lemma settled_drive:
  assumes "keeps sh sh1"
  shows "ok (case oq of None \<Rightarrow> Some (sh1, sink) | Some qid \<Rightarrow> drive_queue sh1 qid sink) (\<lambda>(sh', sink'). keeps sh sh')"
  using assms ok_first [OF drive_queue_keeps [OF assms]] by (cases oq) simp_all

lemma exec_ack_batch_keeps:
  assumes inv: "shard_inv sh" and room: "shard_room sh" and g: "\<forall>cmd\<in>set (akb_items b). ack_guard cmd"
  shows "returns (sh_durable sh \<noteq> None) (exec_ack_batch crc sh b sink) (\<lambda>(sh', sink'). keeps sh sh')"
proof -
  have u: "0 + unacked_at (akb_consumer_id b) sh \<le> u32_max" using unacked_at_u32 [OF inv] by simp
  show ?thesis
    unfolding exec_ack_batch_def Let_def returns_bind
  proof (rule returns_mono [OF exec_ack_items_ok [OF inv room g u]], clarify)
    fix m :: nat and errs sh1 assume s: "shard_settles sh sh1"
    have k: "keeps sh sh1" using shard_settles_inv [OF s] by blast
    show "returns (sh_durable sh \<noteq> None) (Option.bind
        (if 0 < m then case consumer_queue_id (sh_consumers sh1) (akb_consumer_id b) of
            None \<Rightarrow> Some (sh1, on_settlement \<lparr>sr_consumer_id = akb_consumer_id b, sr_kind_of = SettledAck, sr_settled = m\<rparr> sink)
          | Some qid \<Rightarrow> drive_queue sh1 qid (on_settlement \<lparr>sr_consumer_id = akb_consumer_id b, sr_kind_of = SettledAck, sr_settled = m\<rparr> sink)
         else Some (sh1, sink))
        (\<lambda>(sh, sink). Some (sh, report_errors errs sink))) (\<lambda>(sh', sink'). keeps sh sh')"
      using returns_ok [OF settled_drive [OF k]] k by (cases "0 < m") simp_all
  qed
qed

lemma exec_reject_batch_keeps:
  assumes inv: "shard_inv sh" and room: "shard_room sh"
  shows "ok (exec_reject_batch sh b sink) (\<lambda>(sh', sink'). keeps sh sh')"
proof -
  have u: "0 + unacked_at (rjb_consumer_id b) sh \<le> u32_max" using unacked_at_u32 [OF inv] by simp
  show ?thesis
    unfolding exec_reject_batch_def Let_def ok_bind
  proof (rule ok_mono [OF exec_reject_items_ok [OF inv room u]], clarify)
    fix m :: nat and sh1 assume s: "shard_settles sh sh1"
    have k: "keeps sh sh1" using shard_settles_inv [OF s] by blast
    show "ok (if 0 < m then case consumer_queue_id (sh_consumers sh1) (rjb_consumer_id b) of
            None \<Rightarrow> Some (sh1, on_settlement \<lparr>sr_consumer_id = rjb_consumer_id b, sr_kind_of = SettledReject, sr_settled = m\<rparr> sink)
          | Some qid \<Rightarrow> drive_queue sh1 qid (on_settlement \<lparr>sr_consumer_id = rjb_consumer_id b, sr_kind_of = SettledReject, sr_settled = m\<rparr> sink)
         else Some (sh1, sink)) (\<lambda>(sh', sink'). keeps sh sh')"
      using settled_drive [OF k] k by (cases "0 < m") simp_all
  qed
qed

section \<open>Retries\<close>

text \<open>Room for the redelivery of everything that the queue holds.\<close>

definition retry_guard :: "InMemoryShardExecutor \<Rightarrow> 32 word \<Rightarrow> bool" where
  "retry_guard sh qid \<longleftrightarrow> (\<forall>q. sh_queues sh qid = Some q \<longrightarrow>
     total_delivered (q_stats (qs_queue q)) + q_next_seq (qs_queue q) + 256 + FIRST_TAG \<le> u64_max)"

lemma retry_guard_settles: "shard_settles sh sh' \<Longrightarrow> retry_guard sh qid \<Longrightarrow> retry_guard sh' qid"
  unfolding shard_settles_def retry_guard_def by (cases "sh_queues sh qid"; cases "sh_queues sh' qid") (auto dest!: spec [of _ qid])

lemma retry_queue_ok:
  assumes inv: "shard_inv sh" and room: "shard_room sh" and g: "retry_guard sh qid"
  shows "ok (retry_queues [qid] sh) (\<lambda>sh'. keeps sh sh' \<and> (\<forall>k. retry_guard sh k \<longrightarrow> retry_guard sh' k))"
proof (cases "sh_queues sh qid")
  case None
  then show ?thesis using keeps_refl [OF inv room] by simp
next
  case (Some q)
  let ?q = "qs_queue q"
  have qi: "queue_inv ?q" and l: "ledger ?q" and qr: "queue_room ?q"
    using inv room Some by (auto simp: shard_inv_def queue_state_inv_def consumers_inv_def shard_room_def)
  have g': "total_delivered (q_stats ?q) + q_next_seq ?q + 256 + FIRST_TAG \<le> u64_max" using g Some by (simp add: retry_guard_def)
  have b: "qcount Retry ?q \<le> u32_max" "total_retried (q_stats ?q) + qcount Retry ?q \<le> u64_max"
    using qcount_le_next [of Retry ?q] qr g' l by (simp_all add: queue_room_def ledger_def)
  obtain k queue where p: "retry_all_now ?q = Some (k, queue)" "queue_inv queue" "same_seqs ?q queue"
    "q_stats queue = (q_stats ?q)\<lparr>total_retried := total_retried (q_stats ?q) + qcount Retry ?q\<rparr>"
    "status queue = (\<lambda>s. if status ?q s = Some Retry then Some SparseReady else status ?q s)"
    using retry_inv [OF qi b] by (auto elim!: okE)
  have "ledger queue" using ledger_step [OF step_retry [OF p(1) b] qi l] .
  then have "shard_inv (sh\<lparr>sh_queues := (sh_queues sh)(qid \<mapsto> q\<lparr>qs_queue := queue\<rparr>)\<rparr>)"
    using p by (intro shard_inv_queue [OF inv Some]) auto
  moreover have "shard_room (sh\<lparr>sh_queues := (sh_queues sh)(qid \<mapsto> q\<lparr>qs_queue := queue\<rparr>)\<rparr>)"
    using room g' qr p(3,4) ready_le_next [of queue] by (auto simp: shard_room_def queue_room_def same_seqs_def)
  moreover have "retry_guard (sh\<lparr>sh_queues := (sh_queues sh)(qid \<mapsto> q\<lparr>qs_queue := queue\<rparr>)\<rparr>) k" if "retry_guard sh k" for k
    using that g' p(3,4) by (auto simp: retry_guard_def same_seqs_def)
  ultimately show ?thesis using p(1) Some by (simp add: keeps_def)
qed

lemma exec_nack_batch_keeps:
  assumes inv: "shard_inv sh" and room: "shard_room sh" and g: "\<forall>cmd\<in>set (nkb_items b). nack_guard cmd"
    and r: "\<forall>qid. consumer_queue_id (sh_consumers sh) (nkb_consumer_id b) = Some qid \<longrightarrow> retry_guard sh qid"
  shows "ok (exec_nack_batch sh b sink) (\<lambda>(sh', sink'). keeps sh sh')"
proof -
  have u: "0 + unacked_at (nkb_consumer_id b) sh \<le> u32_max" using unacked_at_u32 [OF inv] by simp
  show ?thesis
    unfolding exec_nack_batch_def Let_def ok_bind
  proof (rule ok_mono [OF exec_nack_items_ok [OF inv room g u]], clarify)
    fix m :: nat and errs sh1 assume s: "shard_settles sh sh1"
    have k: "keeps sh sh1" and i: "shard_inv sh1" "shard_room sh1" using shard_settles_inv [OF s] by blast+
    have d: "ok (retry_queues [qid] sh1) (\<lambda>x. ok (drive_queue x qid sink') (\<lambda>(sh', sink'). keeps sh sh'))"
      if "consumer_queue_id (sh_consumers sh1) (nkb_consumer_id b) = Some qid" for qid sink'
    proof -
      have "retry_guard sh1 qid" using r that s retry_guard_settles [OF s] by (simp add: shard_settles_def)
      from retry_queue_ok [OF i this] show ?thesis
        by (rule ok_mono) (auto intro!: ok_first [OF drive_queue_keeps] keeps_trans [OF k])
    qed
    show "ok (Option.bind (if 0 < m then case consumer_queue_id (sh_consumers sh1) (nkb_consumer_id b) of
            None \<Rightarrow> Some (sh1, on_settlement \<lparr>sr_consumer_id = nkb_consumer_id b, sr_kind_of = SettledNack, sr_settled = m\<rparr> sink)
          | Some qid \<Rightarrow> Option.bind (retry_queues [qid] sh1)
              (\<lambda>sh. drive_queue sh qid (on_settlement \<lparr>sr_consumer_id = nkb_consumer_id b, sr_kind_of = SettledNack, sr_settled = m\<rparr> sink))
         else Some (sh1, sink))
        (\<lambda>(sh, sink). Some (sh, report_errors errs sink))) (\<lambda>(sh', sink'). keeps sh sh')"
      using d k by (cases "0 < m"; cases "consumer_queue_id (sh_consumers sh1) (nkb_consumer_id b)") (simp_all del: retry_queues.simps)
  qed
qed

end
