(* ===== verification/Shard_Steps.thy ===== *)
theory Shard_Steps
  imports Shard_Settle
begin

text \<open>
  Cancellation, the dispatch of command batches and the shard as a state machine: a step per call of the
  executor, with the guards that keep the counters within their widths.
\<close>

section \<open>Cancellation\<close>

lemma settles_ready:
  assumes sinv: "session_inv s q" and st: "session_settles P v s q s' q'" and v: "v = Retry \<or> v = Acked"
  shows "ready q' = ready q"
proof -
  define A where "A = snd ` set (filter P (window_entries (cs_window s)))"
  have "status q x = Some Inflight" if "x \<in> A" for x
    using sinv that unfolding session_inv_def A_def by auto
  moreover have "status q' = (\<lambda>x. if x \<in> A then Some v else status q x)" using st unfolding session_settles_def A_def by blast
  ultimately have "{x. status q' x = Some u} = {x. status q x = Some u}" if "u = Ready \<or> u = SparseReady" for u
    using v that by (auto split: if_splits)
  then show ?thesis by (simp add: ready_def qcount_def)
qed

lemma consumers_inv_drop:
  assumes "consumers_inv (us @ s # vs) q" "session_seqs s = []"
  shows "consumers_inv (us @ vs) q"
  using assms by (simp add: consumers_inv_def)

lemma queue_state_inv_cancel:
  assumes qi: "queue_state_inv cs qid q" and c: "cs cid = Some c" "cid \<in> set (qs_consumers q)"
    and st: "owner_step (crs_session c) (qs_queue q) s' q'" and e: "session_seqs s' = []" and l: "ledger q'"
    and m: "total_delivered (q_stats q') = total_delivered (q_stats (qs_queue q))"
  shows "queue_state_inv (cs(cid := None)) qid (q\<lparr>qs_queue := q', qs_consumers := filter (\<lambda>i. i \<noteq> cid) (qs_consumers q), qs_next_consumer_index := ix\<rparr>)"
    (is "queue_state_inv _ _ ?q")
proof -
  obtain us vs where uv: "qs_consumers q = us @ cid # vs" using c(2) by (meson split_list)
  have id: "qs_id q = qid" and d: "distinct (qs_consumers q)" and ci: "consumers_inv (map (session_of cs) (qs_consumers q)) (qs_queue q)"
    and at: "\<forall>k\<in>set (qs_consumers q). \<exists>d. cs k = Some d \<and> attached qid q d"
    using qi unfolding queue_state_inv_def by blast+
  have n: "cid \<notin> set us" "cid \<notin> set vs" using d uv by auto
  have f: "filter (\<lambda>i. i \<noteq> cid) (qs_consumers q) = us @ vs"
  proof -
    have "filter (\<lambda>i. i \<noteq> cid) us = us" "filter (\<lambda>i. i \<noteq> cid) vs = vs" using n by (metis (full_types) filter_True)+
    then show ?thesis unfolding uv by simp
  qed
  have mp: "map (session_of (cs(cid := None))) us = map (session_of cs) us" "map (session_of (cs(cid := None))) vs = map (session_of cs) vs"
    using n by (auto simp: session_of_def)
  have "consumers_inv (map (session_of cs) us @ crs_session c # map (session_of cs) vs) (qs_queue q)"
    using ci c(1) unfolding uv list.map map_append by (simp add: session_of_def)
  from consumers_inv_drop [OF consumers_owner_step [OF this st] e]
  have ci': "consumers_inv (map (session_of (cs(cid := None))) (us @ vs)) q'" unfolding map_append mp .
  have at': "\<exists>d. (cs(cid := None)) k = Some d \<and> attached qid ?q d" if k: "k \<in> set (us @ vs)" for k
  proof -
    obtain d where "cs k = Some d" "attached qid q d" using bspec [OF at, of k] k uv by auto
    then show ?thesis using k n m by (auto simp: attached_def)
  qed
  have d': "distinct (us @ vs)" using d uv by simp
  have s: "qs_consumers ?q = us @ vs" "qs_queue ?q = q'" "qs_id ?q = qid" using f id by simp_all
  show ?thesis unfolding queue_state_inv_def s using d' l ci' at' by blast
qed

lemma shard_inv_cancel:
  assumes inv: "shard_inv sh" and c: "sh_consumers sh cid = Some c" "crs_queue_id c = qid" and q: "sh_queues sh qid = Some q"
    and st: "owner_step (crs_session c) (qs_queue q) s' q'" and e: "session_seqs s' = []" and l: "ledger q'"
    and m: "total_delivered (q_stats q') = total_delivered (q_stats (qs_queue q))"
  shows "shard_inv (sh\<lparr>sh_queues := (sh_queues sh)(qid \<mapsto>
      q\<lparr>qs_queue := q', qs_consumers := filter (\<lambda>i. i \<noteq> cid) (qs_consumers q), qs_next_consumer_index := ix\<rparr>),
    sh_consumers := (sh_consumers sh)(cid := None)\<rparr>)" (is "shard_inv (_\<lparr>sh_queues := _(qid \<mapsto> ?q), sh_consumers := ?cs\<rparr>)")
proof -
  have qi: "queue_state_inv (sh_consumers sh) qid q" and mem: "cid \<in> set (qs_consumers q)" using shard_invD [OF inv c] q by auto
  have "queue_state_inv ?cs k p" if "sh_queues sh k = Some p" "k \<noteq> qid" for k p
  proof (rule queue_state_inv_other)
    show "queue_state_inv (sh_consumers sh) k p" using inv that by (simp add: shard_inv_def)
    show "cid \<notin> set (qs_consumers p)" using attached_once [OF inv c(1) that(1)] that(2) c(2) by blast
  qed
  moreover have "\<exists>p. ((sh_queues sh)(qid \<mapsto> ?q)) (crs_queue_id d) = Some p \<and> k \<in> set (qs_consumers p)" if kd: "?cs k = Some d" for k d
  proof -
    have k: "k \<noteq> cid" using kd by auto
    then obtain p where "sh_queues sh (crs_queue_id d) = Some p" "k \<in> set (qs_consumers p)"
      using kd inv unfolding shard_inv_def by (metis fun_upd_apply)
    then show ?thesis using q k by auto
  qed
  ultimately show ?thesis
    using queue_state_inv_cancel [OF qi c(1) mem st e l m] unfolding shard_inv_def by simp
qed

lemma exec_cancel_keeps:
  assumes inv: "shard_inv sh" and room: "shard_room sh"
  shows "ok (exec_cancel sh cid disp sink) (\<lambda>(sh', sink'). keeps sh sh')"
proof (cases "sh_consumers sh cid")
  case None
  then show ?thesis using keeps_refl [OF inv room] by (simp add: exec_cancel_def)
next
  case (Some c)
  let ?qid = "crs_queue_id c" and ?v = "case cancel_disposition disp of RequeueUnacked \<Rightarrow> Retry | DropUnacked \<Rightarrow> Acked"
  obtain q where q: "sh_queues sh ?qid = Some q" and at: "attached ?qid q c" and si: "session_inv (crs_session c) (qs_queue q)"
    and b: "booked (qs_queue q)" using shard_lookup [OF inv room Some] by blast
  have v: "?v = Retry \<or> ?v = Acked" by (cases "cancel_disposition disp") simp_all
  obtain r s' q' where run: "session_cancel (crs_session c) (cancel_disposition disp) (qs_queue q) = Some (r, s', q')"
    and st: "session_settles (\<lambda>_. True) ?v (crs_session c) (qs_queue q) s' q'"
    using session_cancel_ok [OF si booked_bounds [OF si b], of "cancel_disposition disp"] by (auto elim!: okE)
  have bk: "books (qs_queue q) q'" by (rule session_cancel_books [OF si b run])
  have e: "session_seqs s' = []" using st by (simp add: session_settles_def session_seqs_def)
  have os: "owner_step (crs_session c) (qs_queue q) s' q'" by (rule owner_step_settles [OF si st]) (use v in auto)
  let ?cs = "filter (\<lambda>i. i \<noteq> cid) (qs_consumers q)"
  let ?q = "q\<lparr>qs_queue := q', qs_consumers := ?cs, qs_next_consumer_index := (if length ?cs \<le> qs_next_consumer_index q then 0 else qs_next_consumer_index q)\<rparr>"
  let ?sh = "sh\<lparr>sh_queues := (sh_queues sh)(?qid \<mapsto> ?q), sh_consumers := (sh_consumers sh)(cid := None)\<rparr>"
  have "shard_inv ?sh" by (rule shard_inv_cancel [OF inv Some refl q os e]) (use bk b in \<open>simp_all add: books_def booked_def\<close>)
  moreover have "shard_room ?sh"
    using room q bk settles_ready [OF si st v] by (auto simp: shard_room_def queue_room_def books_def)
  ultimately have k: "keeps sh ?sh" by (simp add: keeps_def)
  have a: "crs_flags c AND CONSUMER_RT_CANCELLED \<noteq> CONSUMER_RT_CANCELLED"
    using at by (simp add: attached_def CONSUMER_RT_ACTIVE_def CONSUMER_RT_CANCELLED_def)
  have "exec_cancel sh cid disp sink = (let sink = on_consumer \<lparr>ev_consumer_id = cid, ev_kind = ConsumerWasCancelled\<rparr> sink in
      if disp = CmdRequeueUnacked then drive_queue ?sh ?qid sink else Some (?sh, sink))"
    using Some q run a by (simp add: exec_cancel_def put_session_def detach_consumer_def Let_def)
  then show ?thesis using k ok_first [OF drive_queue_keeps [OF k]] by (simp add: Let_def)
qed

section \<open>Command batches\<close>

lemma exec_each_keeps:
  assumes f: "\<And>sh cmd sink. shard_inv sh \<Longrightarrow> shard_room sh \<Longrightarrow> cmd \<in> set cmds \<Longrightarrow> ok (f sh cmd sink) (\<lambda>(sh', sink'). keeps sh sh')"
  shows "shard_inv sh \<Longrightarrow> shard_room sh \<Longrightarrow> ok (exec_each f cmds sh sink) (\<lambda>(sh', sink'). keeps sh sh')"
  using f
proof (induction cmds arbitrary: sh sink)
  case Nil
  then show ?case by (simp add: keeps_refl)
next
  case (Cons cmd cmds)
  have rest: "ok (exec_each f cmds sh1 sink1) (\<lambda>(sh', sink'). keeps sh sh')" if k: "keeps sh sh1" for sh1 sink1
  proof -
    have "ok (exec_each f cmds sh1 sink1) (\<lambda>(sh', sink'). keeps sh1 sh')"
      by (rule Cons.IH) (use k Cons.prems(3) in \<open>auto simp: keeps_def\<close>)
    then show ?thesis by (rule ok_mono) (auto intro: keeps_trans [OF k])
  qed
  have "ok (f sh cmd sink) (\<lambda>(sh', sink'). keeps sh sh')" by (rule Cons.prems(3)) (use Cons.prems in auto)
  then show ?case
    unfolding exec_each.simps ok_bind by (rule ok_mono) (use rest in auto)
qed

text \<open>The room that a command needs in the counters.\<close>

definition command_guard :: "InMemoryShardExecutor \<Rightarrow> ShardCommandBatch \<Rightarrow> bool" where
  "command_guard sh batch \<longleftrightarrow> (case batch of
       CmdPublish b \<Rightarrow> publish_guard sh b
     | CmdConsume items \<Rightarrow> (\<forall>cmd\<in>set items. cm_prefetch cmd \<le> u32_max)
     | CmdAck b \<Rightarrow> (\<forall>cmd\<in>set (akb_items b). ack_guard cmd)
     | CmdNack b \<Rightarrow> (\<forall>cmd\<in>set (nkb_items b). nack_guard cmd) \<and>
         (\<forall>qid. consumer_queue_id (sh_consumers sh) (nkb_consumer_id b) = Some qid \<longrightarrow> retry_guard sh qid)
     | _ \<Rightarrow> True)"

lemma execute_keeps:
  assumes inv: "shard_inv sh" and room: "shard_room sh" and g: "command_guard sh batch"
  shows "returns (sh_durable sh \<noteq> None) (execute crc sh batch sink) (\<lambda>(sh', sink'). keeps sh sh')"
proof (cases batch)
  case (CmdDeclare items)
  have "ok (exec_each (\<lambda>sh cmd sink. Some (exec_declare_queue sh cmd sink)) items sh sink) (\<lambda>(sh', sink'). keeps sh sh')"
    by (rule exec_each_keeps [OF _ inv room]) (use exec_declare_queue_keeps in \<open>simp add: case_prod_beta\<close>)
  then show ?thesis using CmdDeclare by (simp add: execute_def returns_ok)
next
  case (CmdPublish b)
  then show ?thesis using exec_publish_keeps [OF inv room] g by (simp add: execute_def command_guard_def)
next
  case (CmdConsume items)
  have "ok (exec_each exec_consume_start items sh sink) (\<lambda>(sh', sink'). keeps sh sh')"
    by (rule exec_each_keeps [OF _ inv room]) (use exec_consume_start_keeps g CmdConsume in \<open>simp add: command_guard_def\<close>)
  then show ?thesis using CmdConsume by (simp add: execute_def returns_ok)
next
  case (CmdCredit items)
  have "ok (exec_each exec_credit_update items sh sink) (\<lambda>(sh', sink'). keeps sh sh')"
    by (rule exec_each_keeps [OF exec_credit_update_keeps inv room])
  then show ?thesis using CmdCredit by (simp add: execute_def returns_ok)
next
  case (CmdAck b)
  then show ?thesis using exec_ack_batch_keeps [OF inv room] g by (simp add: execute_def command_guard_def)
next
  case (CmdNack b)
  then show ?thesis using returns_ok [OF exec_nack_batch_keeps [OF inv room]] g by (simp add: execute_def command_guard_def)
next
  case (CmdReject b)
  then show ?thesis using returns_ok [OF exec_reject_batch_keeps [OF inv room]] by (simp add: execute_def)
next
  case (CmdCancel items)
  have "ok (exec_each (\<lambda>sh cmd sink. exec_cancel sh (cx_consumer_id cmd) (cx_disposition cmd) sink) items sh sink) (\<lambda>(sh', sink'). keeps sh sh')"
    by (rule exec_each_keeps [OF exec_cancel_keeps inv room])
  then show ?thesis using CmdCancel by (simp add: execute_def returns_ok)
qed

section \<open>Calls outside a command batch\<close>

lemma deliver_pending_keeps:
  "shard_inv sh \<Longrightarrow> shard_room sh \<Longrightarrow> ok (deliver_pending qids sh sink) (\<lambda>(sh', sink'). keeps sh sh')"
proof (induction qids arbitrary: sh sink)
  case Nil
  then show ?case by (simp add: keeps_refl)
next
  case (Cons qid qids)
  have rest: "ok (deliver_pending qids sh1 sink1) (\<lambda>(sh', sink'). keeps sh sh')" if k: "keeps sh sh1" for sh1 sink1
  proof -
    have "ok (deliver_pending qids sh1 sink1) (\<lambda>(sh', sink'). keeps sh1 sh')" by (rule Cons.IH) (use k in \<open>auto simp: keeps_def\<close>)
    then show ?thesis by (rule ok_mono) (auto intro: keeps_trans [OF k])
  qed
  show ?case
    unfolding deliver_pending.simps ok_bind
    by (rule ok_mono [OF ok_first [OF drive_queue_keeps [OF keeps_refl [OF Cons.prems]]]]) (use rest in auto)
qed

lemma retry_queues_Cons: "retry_queues (qid # qids) sh = Option.bind (retry_queues [qid] sh) (retry_queues qids)"
  by (cases "sh_queues sh qid"; cases "retry_all_now (qs_queue (the (sh_queues sh qid)))") auto

lemma retry_queues_keeps:
  "shard_inv sh \<Longrightarrow> shard_room sh \<Longrightarrow> \<forall>qid. retry_guard sh qid \<Longrightarrow> ok (retry_queues qids sh) (\<lambda>sh'. keeps sh sh')"
proof (induction qids arbitrary: sh)
  case Nil
  then show ?case by (simp add: keeps_refl)
next
  case (Cons qid qids)
  have rest: "ok (retry_queues qids sh1) (\<lambda>sh'. keeps sh sh')" if k: "keeps sh sh1 \<and> (\<forall>k. retry_guard sh k \<longrightarrow> retry_guard sh1 k)" for sh1
  proof -
    have "ok (retry_queues qids sh1) (\<lambda>sh'. keeps sh1 sh')" by (rule Cons.IH) (use k Cons.prems(3) in \<open>auto simp: keeps_def\<close>)
    then show ?thesis by (rule ok_mono) (use k in \<open>auto intro: keeps_trans\<close>)
  qed
  show ?case
    by (subst retry_queues_Cons, subst ok_bind) (rule ok_mono [OF retry_queue_ok [OF Cons.prems(1,2) spec [OF Cons.prems(3)]] rest])
qed

lemma retry_all_and_deliver_keeps:
  assumes "shard_inv sh" "shard_room sh" "\<forall>qid. retry_guard sh qid"
  shows "ok (retry_all_and_deliver qids qids' sh sink) (\<lambda>(sh', sink'). keeps sh sh')"
  unfolding retry_all_and_deliver_def ok_bind
proof (rule ok_mono [OF retry_queues_keeps [OF assms]])
  fix sh1 assume k: "keeps sh sh1"
  have "ok (deliver_pending qids' sh1 sink) (\<lambda>(sh', sink'). keeps sh1 sh')" by (rule deliver_pending_keeps) (use k in \<open>auto simp: keeps_def\<close>)
  then show "ok (deliver_pending qids' sh1 sink) (\<lambda>(sh', sink'). keeps sh sh')" by (rule ok_mono) (auto intro: keeps_trans [OF k])
qed

section \<open>The shard as a state machine\<close>

inductive shard_step :: "(byte list \<Rightarrow> 32 word) \<Rightarrow> InMemoryShardExecutor \<Rightarrow> InMemoryShardExecutor \<Rightarrow> bool" for crc where
  ss_execute: "shard_step crc sh sh'" if "execute crc sh batch sink = Some (sh', sink')" "command_guard sh batch"
| ss_deliver: "shard_step crc sh sh'" if "deliver_pending qids sh sink = Some (sh', sink')"
| ss_retry: "shard_step crc sh sh'" if "retry_all_and_deliver qids qids' sh sink = Some (sh', sink')" "\<forall>qid. retry_guard sh qid"

inductive shard_reachable :: "(byte list \<Rightarrow> 32 word) \<Rightarrow> InMemoryShardExecutor \<Rightarrow> bool" for crc where
  sr_new: "shard_reachable crc (shard_new shard_id)"
| sr_durable: "shard_reachable crc (shard_with_durable_storage shard_id store)"
| sr_step: "shard_reachable crc sh'" if "shard_reachable crc sh" "shard_step crc sh sh'"

lemma shard_step_keeps: "shard_step crc sh sh' \<Longrightarrow> shard_inv sh \<Longrightarrow> shard_room sh \<Longrightarrow> keeps sh sh'"
proof (induction rule: shard_step.induct)
  case (ss_execute sh batch sink sh' sink')
  then show ?case using execute_keeps [of sh batch crc sink] by (simp add: returns_def)
next
  case (ss_deliver qids sh sink sh' sink')
  then show ?case using ok_SomeD [OF deliver_pending_keeps ss_deliver(1)] by simp
next
  case (ss_retry qids qids' sh sink sh' sink')
  then show ?case using ok_SomeD [OF retry_all_and_deliver_keeps ss_retry(1)] by simp
qed

lemma shard_reachable_inv: "shard_reachable crc sh \<Longrightarrow> shard_inv sh \<and> shard_room sh"
proof (induction rule: shard_reachable.induct)
  case (sr_step sh sh')
  then show ?case using shard_step_keeps by (auto simp: keeps_def)
qed (simp_all add: shard_inv_def shard_room_def shard_new_def shard_with_durable_storage_def)

end
