(* ===== verification/Shard_Properties.thy ===== *)
theory Shard_Properties
  imports Shard_Steps "HOL-Library.Code_Target_Nat"
begin

text \<open>
  The properties of the shard executor: exclusive ownership of the messages in flight in every reachable
  shard, that command batches return, and what \<open>drive_queue\<close> delivers and reports. The runs at the end
  show where the executor departs from what its commands document.
\<close>

section \<open>Runs\<close>

text \<open>Guards that can be evaluated; they imply the guards of the steps.\<close>

definition guard_ok :: "InMemoryShardExecutor \<Rightarrow> ShardCommandBatch \<Rightarrow> bool" where
  "guard_ok sh batch \<longleftrightarrow> (case batch of
       CmdPublish b \<Rightarrow> length (sp_records b) \<le> u32_max \<and> (case sh_queues sh (sp_queue_id b) of None \<Rightarrow> True | Some q \<Rightarrow>
         q_next_seq (qs_queue q) + publish_count b + 256 \<le> u32_max \<and>
         total_delivered (q_stats (qs_queue q)) + q_next_seq (qs_queue q) + publish_count b + 256 + FIRST_TAG \<le> u64_max)
     | CmdConsume items \<Rightarrow> list_all (\<lambda>cmd. cm_prefetch cmd \<le> u32_max) items
     | CmdAck b \<Rightarrow> list_all ack_guard (akb_items b)
     | CmdNack b \<Rightarrow> list_all nack_guard (nkb_items b) \<and> (case consumer_queue_id (sh_consumers sh) (nkb_consumer_id b) of None \<Rightarrow> True
         | Some qid \<Rightarrow> (case sh_queues sh qid of None \<Rightarrow> True | Some q \<Rightarrow>
             total_delivered (q_stats (qs_queue q)) + q_next_seq (qs_queue q) + 256 + FIRST_TAG \<le> u64_max))
     | _ \<Rightarrow> True)"

lemma guard_ok_command:
  assumes "guard_ok sh batch"
  shows "command_guard sh batch"
proof (cases batch)
  case (CmdPublish b)
  have "total_delivered (q_stats (qs_queue q)) + ready (qs_queue q) + publish_count b + 256 + FIRST_TAG \<le> u64_max"
    if "total_delivered (q_stats (qs_queue q)) + q_next_seq (qs_queue q) + publish_count b + 256 + FIRST_TAG \<le> u64_max" for q :: QueueState
    using that ready_le_next [of "qs_queue q"] by linarith
  then show ?thesis using assms CmdPublish by (auto simp: guard_ok_def command_guard_def publish_guard_def)
qed (use assms in \<open>auto simp: guard_ok_def command_guard_def retry_guard_def list_all_iff\<close>)

fun run_commands ::
  "(byte list \<Rightarrow> 32 word) \<Rightarrow> ShardCommandBatch list \<Rightarrow> InMemoryShardExecutor \<Rightarrow> ShardOutputBatch \<Rightarrow> (InMemoryShardExecutor \<times> ShardOutputBatch) option" where
  "run_commands crc [] sh sink = Some (sh, sink)"
| "run_commands crc (b # bs) sh sink =
     (if guard_ok sh b then do { (sh, sink) \<leftarrow> execute crc sh b sink; run_commands crc bs sh sink } else None)"

lemma run_commands_reachable:
  "shard_reachable crc sh \<Longrightarrow> run_commands crc bs sh sink = Some (sh', sink') \<Longrightarrow> shard_reachable crc sh'"
proof (induction bs arbitrary: sh sink)
  case (Cons b bs)
  then obtain sh1 sink1 where e: "guard_ok sh b" "execute crc sh b sink = Some (sh1, sink1)" "run_commands crc bs sh1 sink1 = Some (sh', sink')"
    by (auto split: if_splits bind_splits)
  have "shard_step crc sh sh1" by (rule ss_execute [OF e(2) guard_ok_command [OF e(1)]])
  then show ?case using Cons.IH [OF _ e(3)] sr_step [OF Cons.prems(1)] by blast
qed simp

section \<open>Properties\<close>

text \<open>
  C6: in every reachable shard each message in flight of a queue is outstanding in the session of exactly
  one consumer, and that consumer is attached to the queue.
\<close>

theorem shard_exclusive:
  assumes "shard_reachable crc sh" and "sh_queues sh qid = Some q" and "status (qs_queue q) x = Some Inflight"
  shows "\<exists>!cid. \<exists>c. sh_consumers sh cid = Some c \<and> crs_queue_id c = qid \<and> x \<in> set (session_seqs (crs_session c))"
proof -
  have inv: "shard_inv sh" using shard_reachable_inv [OF assms(1)] by blast
  let ?f = "session_of (sh_consumers sh)"
  have qi: "queue_state_inv (sh_consumers sh) qid q" using inv assms(2) by (simp add: shard_inv_def)
  have d: "distinct (concat (map session_seqs (map ?f (qs_consumers q))))"
    and fl: "set (concat (map session_seqs (map ?f (qs_consumers q)))) = {x. status (qs_queue q) x = Some Inflight}"
    and dc: "distinct (qs_consumers q)" using qi unfolding queue_state_inv_def consumers_inv_def by blast+
  have mem: "cid \<in> set (qs_consumers q) \<longleftrightarrow> (\<exists>c. sh_consumers sh cid = Some c \<and> crs_queue_id c = qid)" for cid
    using queue_consumers [OF inv assms(2)] shard_invD [OF inv] assms(2) by (fastforce simp: consumer_queue_id_def)
  obtain cid where c: "cid \<in> set (qs_consumers q)" "x \<in> set (session_seqs (?f cid))" using fl assms(3) by auto
  have u: "k = cid" if k: "k \<in> set (qs_consumers q)" "x \<in> set (session_seqs (?f k))" for k
  proof (rule ccontr)
    assume ne: "k \<noteq> cid"
    have "set (session_seqs (?f a)) \<inter> set (session_seqs (?f b)) = {}"
      if "a \<noteq> b" "a \<in> set cs" "b \<in> set cs" "distinct cs" "distinct (concat (map session_seqs (map ?f cs)))" for a b cs
      using that by (induction cs) auto
    from this [OF ne k(1) c(1) dc d] k(2) c(2) show False by blast
  qed
  show ?thesis
  proof (rule ex1I [of _ cid])
    show "\<exists>c. sh_consumers sh cid = Some c \<and> crs_queue_id c = qid \<and> x \<in> set (session_seqs (crs_session c))"
      using c mem by (auto simp: session_of_def)
    fix k assume "\<exists>c. sh_consumers sh k = Some c \<and> crs_queue_id c = qid \<and> x \<in> set (session_seqs (crs_session c))"
    then show "k = cid" using u mem by (auto simp: session_of_def)
  qed
qed

text \<open>
  C8: a command batch on a reachable shard without durable storage returns, whatever the commands name,
  as long as the counters have room for it; the result is reachable again. With durable storage every
  result is reachable.
\<close>

theorem shard_execute_returns:
  assumes "shard_reachable crc sh" and "command_guard sh batch"
  shows "(sh_durable sh = None \<longrightarrow> (\<exists>sh' sink'. execute crc sh batch sink = Some (sh', sink') \<and> shard_reachable crc sh' \<and> sh_durable sh' = None)) \<and>
    (\<forall>sh' sink'. execute crc sh batch sink = Some (sh', sink') \<longrightarrow> shard_reachable crc sh')"
proof -
  have r: "returns (sh_durable sh \<noteq> None) (execute crc sh batch sink) (\<lambda>(sh', sink'). keeps sh sh')"
    using execute_keeps shard_reachable_inv [OF assms(1)] assms(2) by blast
  have "shard_reachable crc sh'" if "execute crc sh batch sink = Some (sh', sink')" for sh' sink'
    by (rule sr_step [OF assms(1) ss_execute [OF that assms(2)]])
  then show ?thesis using r by (auto simp: returns_def keeps_def split: option.splits)
qed

text \<open>
  C7: on a reachable shard \<open>drive_queue\<close> returns. The messages of its delivery events are exactly what it adds to the
  windows of the consumers, in order and under the same tags; they were ready before, the ones marked as redelivered and
  only those after a retry. Afterwards nothing is ready in the queue or no consumer attached to it has credit.
\<close>

theorem drive_queue_serves:
  assumes "shard_reachable crc sh" and "0 < sh_max_delivery_passes sh" and "sh_queues sh qid = Some q"
  shows "\<exists>sh' q' evs. drive_queue sh qid sink = Some (sh', sink\<lparr>so_deliveries := so_deliveries sink @ evs\<rparr>) \<and> sh_queues sh' qid = Some q' \<and>
    (\<forall>cid c. sh_consumers sh cid = Some c \<longrightarrow> (\<exists>c'. sh_consumers sh' cid = Some c' \<and>
       window_entries (cs_window (crs_session c')) = window_entries (cs_window (crs_session c)) @ map (\<lambda>(t, x, r). (t, x)) (told cid evs))) \<and>
    status (qs_queue q') = (\<lambda>x. if x \<in> (fst \<circ> snd) ` set (delivered_msgs evs) then Some Inflight else status (qs_queue q) x) \<and>
    (\<forall>t x r. (t, x, r) \<in> set (delivered_msgs evs) \<longrightarrow> status (qs_queue q) x = Some (if r then SparseReady else Ready)) \<and>
    ((\<forall>x. status (qs_queue q') x \<noteq> Some Ready \<and> status (qs_queue q') x \<noteq> Some SparseReady) \<or>
     (\<forall>cid\<in>set (qs_consumers q). \<forall>c'. sh_consumers sh' cid = Some c' \<longrightarrow> credit_available (cs_credit (crs_session c')) = 0))"
proof -
  have inv: "shard_inv sh" "shard_room sh" using shard_reachable_inv [OF assms(1)] by blast+
  obtain sh' sink' where run: "drive_queue sh qid sink = Some (sh', sink')" and d: "driven qid sh sink sh' sink'" and sv: "served qid sh'"
    using drive_queue_ok [OF inv, of qid sink] assms(2) by (auto elim!: okE)
  obtain evs where sink': "sink' = sink\<lparr>so_deliveries := so_deliveries sink @ evs\<rparr>"
    and qd: "queue_driven (delivered_msgs evs) (sh_queues sh qid) (sh_queues sh' qid)"
    and cd: "\<forall>k. consumer_driven (told k evs) (sh_consumers sh k) (sh_consumers sh' k)"
    using d unfolding driven_def by blast
  obtain q' where q': "sh_queues sh' qid = Some q'" "qs_consumers q' = qs_consumers q"
    "status (qs_queue q') = (\<lambda>x. if x \<in> (fst \<circ> snd) ` set (delivered_msgs evs) then Some Inflight else status (qs_queue q) x)"
    "\<forall>t x r. (t, x, r) \<in> set (delivered_msgs evs) \<longrightarrow> status (qs_queue q) x = Some (if r then SparseReady else Ready)"
    using qd assms(3) unfolding queue_driven_def by auto
  have w: "\<exists>c'. sh_consumers sh' cid = Some c' \<and>
       window_entries (cs_window (crs_session c')) = window_entries (cs_window (crs_session c)) @ map (\<lambda>(t, x, r). (t, x)) (told cid evs)"
    if "sh_consumers sh cid = Some c" for cid c
    using spec [OF cd, of cid] that by (auto simp: consumer_driven_def)
  have ex: "\<forall>cid\<in>set (qs_consumers q). exhausted qid cid sh'" using sv q'(1,2) by (simp add: served_def)
  have fin: "(\<forall>x. status (qs_queue q') x \<noteq> Some Ready \<and> status (qs_queue q') x \<noteq> Some SparseReady) \<or>
     (\<forall>cid\<in>set (qs_consumers q). \<forall>c'. sh_consumers sh' cid = Some c' \<longrightarrow> credit_available (cs_credit (crs_session c')) = 0)"
  proof (cases "ready (qs_queue q') = 0")
    case True
    then show ?thesis by (auto simp: ready_def qcount_def)
  next
    case False
    then show ?thesis using ex q'(1) by (auto simp: exhausted_def ready_at_def)
  qed
  show ?thesis using run [unfolded sink'] q'(1) w q'(3,4) fin by (intro exI [of _ sh'] exI [of _ q'] exI [of _ evs]) blast
qed

section \<open>A run\<close>

text \<open>Two queues; three publications, the second to the other queue; then a consumer of the first queue.\<close>

definition demo_crc :: "byte list \<Rightarrow> 32 word" where
  "demo_crc _ = 0"

definition demo_commands :: "ShardCommandBatch list" where
  "demo_commands = [CmdDeclare [\<lparr>dq_queue_id = 1\<rparr>, \<lparr>dq_queue_id = 2\<rparr>],
     CmdPublish (shard_publish_new 1 [publish_record_simple 10 5]),
     CmdPublish (shard_publish_new 2 [publish_record_simple 11 5]),
     CmdPublish (shard_publish_new 1 [publish_record_simple 12 5])]"

definition demo_consume :: ShardCommandBatch where
  "demo_consume = CmdConsume [consume_start_new 9 1 1 0]"

definition shard_after :: "ShardCommandBatch list \<Rightarrow> InMemoryShardExecutor" where
  "shard_after bs = fst (the (run_commands demo_crc bs (shard_new 0) output_default))"

definition events_after :: "ShardCommandBatch list \<Rightarrow> ShardOutputBatch" where
  "events_after bs = snd (the (run_commands demo_crc bs (shard_new 0) output_default))"

definition queue_after :: "ShardCommandBatch list \<Rightarrow> 32 word \<Rightarrow> QueueState" where
  "queue_after bs qid = the (sh_queues (shard_after bs) qid)"

lemma shard_after_reachable:
  assumes "run_commands demo_crc bs (shard_new 0) output_default \<noteq> None"
  shows "shard_reachable demo_crc (shard_after bs)"
proof -
  obtain sh sink where r: "run_commands demo_crc bs (shard_new 0) output_default = Some (sh, sink)" using assms by auto
  then show ?thesis using run_commands_reachable [OF sr_new r] by (simp add: shard_after_def)
qed

text \<open>The facts of the run, evaluated once.\<close>

definition announced_handles :: "ShardOutputBatch \<Rightarrow> nat list option list" where
  "announced_handles sink = concat (map (\<lambda>e. map (\<lambda>s. case s of EventRange r \<Rightarrow> span_handles (drs_payloads r) | EventMask m \<Rightarrow> None)
     (de_segments e)) (so_deliveries sink))"

lemma demo_run:
  "case run_commands demo_crc demo_commands (shard_new 0) output_default of None \<Rightarrow> False
   | Some (sh, sink) \<Rightarrow> guard_ok sh demo_consume \<and> Option.is_none (sh_durable sh) \<and>
       (case execute demo_crc sh demo_consume sink of None \<Rightarrow> False
        | Some (sh', sink') \<Rightarrow> sh_max_delivery_passes sh' = 16 \<and> announced_handles sink' = [Some [10, 11]] \<and>
            (case sh_queues sh' 1 of None \<Rightarrow> False
             | Some q' \<Rightarrow> status (qs_queue q') 1 = Some Inflight \<and> map (qs_seq_payloads q') [0, 1] = [Some 10, Some 12]))"
  by code_simp

lemma run_commands_append:
  "run_commands crc (as @ bs) sh sink = Option.bind (run_commands crc as sh sink) (\<lambda>(sh, sink). run_commands crc bs sh sink)"
proof (induction as arbitrary: sh sink)
  case (Cons a as)
  then show ?case by (cases "execute crc sh a sink") auto
qed simp

abbreviation "demo_all \<equiv> demo_commands @ [demo_consume]"

lemma demo_facts:
  "run_commands demo_crc demo_commands (shard_new 0) output_default \<noteq> None" "run_commands demo_crc demo_all (shard_new 0) output_default \<noteq> None"
  "guard_ok (shard_after demo_commands) demo_consume" "sh_durable (shard_after demo_commands) = None"
  "sh_max_delivery_passes (shard_after demo_all) = 16" "announced_handles (events_after demo_all) = [Some [10, 11]]"
  "sh_queues (shard_after demo_all) 1 = Some (queue_after demo_all 1)" "status (qs_queue (queue_after demo_all 1)) 1 = Some Inflight"
  "map (qs_seq_payloads (queue_after demo_all 1)) [0, 1] = [Some 10, Some 12]"
proof -
  obtain sh sink where r: "run_commands demo_crc demo_commands (shard_new 0) output_default = Some (sh, sink)"
    using demo_run by (cases "run_commands demo_crc demo_commands (shard_new 0) output_default") auto
  note d = demo_run [unfolded r option.case prod.case]
  obtain sh' sink' where e: "execute demo_crc sh demo_consume sink = Some (sh', sink')" using d by (cases "execute demo_crc sh demo_consume sink") auto
  note d' = d [unfolded e option.case prod.case]
  obtain q' where q: "sh_queues sh' 1 = Some q'" using d' by (cases "sh_queues sh' 1") auto
  note d'' = d' [unfolded q option.case]
  have a: "run_commands demo_crc demo_all (shard_new 0) output_default = Some (sh', sink')"
    unfolding run_commands_append r using d'' e by simp
  note df = shard_after_def events_after_def queue_after_def r a option.sel fst_conv snd_conv q
  show "run_commands demo_crc demo_commands (shard_new 0) output_default \<noteq> None" "run_commands demo_crc demo_all (shard_new 0) output_default \<noteq> None"
    "guard_ok (shard_after demo_commands) demo_consume" "sh_durable (shard_after demo_commands) = None"
    "sh_max_delivery_passes (shard_after demo_all) = 16" "announced_handles (events_after demo_all) = [Some [10, 11]]"
    "sh_queues (shard_after demo_all) 1 = Some (queue_after demo_all 1)" "status (qs_queue (queue_after demo_all 1)) 1 = Some Inflight"
    "map (qs_seq_payloads (queue_after demo_all 1)) [0, 1] = [Some 10, Some 12]"
    unfolding df using d'' by (simp_all add: Option.is_none_def)
qed

lemmas demo_reachable = shard_after_reachable [OF demo_facts(1)] shard_after_reachable [OF demo_facts(2)]

theorem shard_exclusive_witness:
  "status (qs_queue (queue_after demo_all 1)) 1 = Some Inflight \<and>
   (\<exists>!cid. \<exists>c. sh_consumers (shard_after demo_all) cid = Some c \<and> crs_queue_id c = 1 \<and> 1 \<in> set (session_seqs (crs_session c)))"
  using shard_exclusive [OF demo_reachable(2) demo_facts(7,8)] demo_facts(8) by blast

theorem shard_execute_returns_witness:
  "command_guard (shard_after demo_commands) demo_consume \<and>
   (\<exists>sh' sink'. execute demo_crc (shard_after demo_commands) demo_consume output_default = Some (sh', sink') \<and> shard_reachable demo_crc sh')"
  using shard_execute_returns [OF demo_reachable(1) guard_ok_command [OF demo_facts(3)], of output_default] demo_facts(4)
    guard_ok_command [OF demo_facts(3)] by blast

theorem drive_queue_serves_witness:
  "\<exists>sh' evs. drive_queue (shard_after demo_all) 1 output_default = Some (sh', output_default\<lparr>so_deliveries := evs\<rparr>)"
  using drive_queue_serves [OF demo_reachable(2) _ demo_facts(7), of output_default] demo_facts(5) by (auto simp: output_default_def)

section \<open>Departures from the documented commands\<close>

text \<open>
  The payload handles of a delivered range are numbered on from the handle of its first message. When another queue got a
  publication in between, the second message of the range is announced with the payload of the other queue.
\<close>

lemma payload_handles_shifted:
  "announced_handles (events_after demo_all) = [Some [10, 11]] \<and> map (qs_seq_payloads (queue_after demo_all 1)) [0, 1] = [Some 10, Some 12]"
  using demo_facts(6,9) by blast

definition outstanding_after :: "ShardCommandBatch list \<Rightarrow> nat \<Rightarrow> (nat \<times> nat) list" where
  "outstanding_after bs cid = (case sh_consumers (shard_after bs) cid of None \<Rightarrow> [] | Some c \<Rightarrow> window_entries (cs_window (crs_session c)))"

definition three_outstanding :: "ShardCommandBatch list" where
  "three_outstanding = [CmdDeclare [\<lparr>dq_queue_id = 1\<rparr>], CmdPublish (shard_publish_contiguous 1 3), CmdConsume [consume_start_new 9 1 1 0]]"

text \<open>A mask acknowledges as many tags as it has bits, from the base on, wherever the bits are.\<close>

lemma ack_mask_wrong_tags:
  "outstanding_after three_outstanding 9 = [(1, 0), (2, 1), (3, 2)] \<and>
   outstanding_after (three_outstanding @ [CmdAck \<lparr>akb_consumer_id = 9, akb_flags = 0, akb_items = [AckTagMask 1 4]\<rparr>]) 9 = [(2, 1), (3, 2)]"
  by code_simp

text \<open>A range acknowledges everything up to its end, its start is ignored.\<close>

lemma ack_range_ignores_start:
  "outstanding_after (three_outstanding @ [CmdAck \<lparr>akb_consumer_id = 9, akb_flags = 0, akb_items = [AckTagRange 3 3]\<rparr>]) 9 = []"
  by code_simp

text \<open>Messages that a cancelled consumer gives back wait for a retry that nothing starts, although another consumer has credit.\<close>

lemma cancel_requeue_waits:
  "outstanding_after (three_outstanding @ [CmdConsume [consume_start_new 8 1 1 0], CmdCancel [cancel_requeue 9]]) 8 = [] \<and>
   status (qs_queue (queue_after (three_outstanding @ [CmdConsume [consume_start_new 8 1 1 0], CmdCancel [cancel_requeue 9]]) 1)) 0 = Some Retry"
  by code_simp

text \<open>The first consumer takes every message that its credit allows; the others get nothing.\<close>

lemma first_consumer_takes_all:
  "outstanding_after [CmdDeclare [\<lparr>dq_queue_id = 1\<rparr>], CmdConsume [consume_start_new 9 1 1 0, consume_start_new 8 1 1 0],
       CmdPublish (shard_publish_contiguous 1 3)] 8 = []"
  by code_simp

text \<open>A credit update does not change the credit.\<close>

lemma credit_update_ignored: "exec_credit_update sh (cmd\<lparr>cu_delta := d, cu_new_prefetch := p\<rparr>) sink = exec_credit_update sh cmd sink"
  by (simp add: exec_credit_update_def split: option.split)

text \<open>The durable log receives zero bytes in the place of the payloads.\<close>

lemma durable_payloads_zero: "\<forall>p\<in>set (durable_payloads b). \<forall>x\<in>set p. x = 0"
  by (simp add: durable_payloads_def)

end
