(* ===== verification/Routing_Lemmas.thy ===== *)
theory Routing_Lemmas
  imports Routing
begin

text \<open>What the route compiler keeps: the tables map every bound key to a route whose queue set has its targets.\<close>

section \<open>Queue sets\<close>

definition entry_ref :: "QueueSetEntry \<Rightarrow> QueueSetRef" where
  "entry_ref e = (case e of EmptySet \<Rightarrow> EmptyRef | One t \<Rightarrow> OneRef t | Small s \<Rightarrow> SmallRef s | ShardGrouped g \<Rightarrow> ShardGroupedRef g)"

lemma storage_get_ref_entry: "unat i < length sets \<Longrightarrow> storage_get_ref sets i = entry_ref (sets ! unat i)"
  by (auto simp: storage_get_ref_def storage_get_def entry_ref_def split: QueueSetEntry.splits)

lemma retain_new_set: "set (retain_new ts seen) = set ts - seen" and retain_new_distinct: "distinct (retain_new ts seen)"
  by (induction ts seen rule: retain_new.induct) auto

lemma dedupe_targets_ok [simp]: "set (dedupe_targets ts) = set ts" "distinct (dedupe_targets ts)"
  by (simp_all add: dedupe_targets_def retain_new_set retain_new_distinct)

lemma dedupe_targets_sorted: "sorted (map (\<lambda>t. (qt_shard_id t, qt_queue_id t)) (dedupe_targets ts))"
  by (simp add: dedupe_targets_def)

lemma dedupe_targets_Nil [simp]: "dedupe_targets ts = [] \<longleftrightarrow> ts = []"
  by (metis dedupe_targets_ok(1) set_empty)

lemma insert_shard_ok: "sorted_wrt (<) xs \<Longrightarrow> sorted_wrt (<) (insert_shard s xs) \<and> set (insert_shard s xs) = insert s (set xs)"
  by (induction s xs rule: insert_shard.induct) auto

lemma shard_groups_ok: "sorted_wrt (<) (shard_groups ts) \<and> set (shard_groups ts) = qt_shard_id ` set ts"
proof -
  have "sorted_wrt (<) xs \<Longrightarrow> sorted_wrt (<) (fold (\<lambda>t. insert_shard (qt_shard_id t)) ts xs) \<and>
      set (fold (\<lambda>t. insert_shard (qt_shard_id t)) ts xs) = set xs \<union> qt_shard_id ` set ts" for xs
    by (induction ts arbitrary: xs) (auto simp: insert_shard_ok)
  then show ?thesis by (simp add: shard_groups_def)
qed

lemma group_queues_ok:
  "distinct (qs @ map qt_queue_id (filter (\<lambda>t. qt_shard_id t = s) ts)) \<Longrightarrow>
   group_queues s ts qs = qs @ map qt_queue_id (filter (\<lambda>t. qt_shard_id t = s) ts)"
  by (induction s ts qs rule: group_queues.induct) auto

text \<open>A list sorted by a key is its groups in the order of the keys.\<close>

lemma sorted_groups:
  fixes f :: "'a \<Rightarrow> 'k::linorder"
  assumes "sorted (map f xs)" and "sorted_wrt (<) ks" and "set ks = f ` set xs"
  shows "concat (map (\<lambda>k. filter (\<lambda>x. f x = k) xs) ks) = xs"
  using assms
proof (induction ks arbitrary: xs)
  case (Cons k ks)
  let ?a = "filter (\<lambda>x. f x = k) xs" and ?b = "filter (\<lambda>x. f x \<noteq> k) xs"
  have le: "\<forall>x\<in>set xs. k \<le> f x" using Cons.prems(2,3) by (metis image_eqI le_less set_ConsD sorted_wrt.simps(2))
  have split: "xs = ?a @ ?b" using Cons.prems(1) le
  proof (induction xs)
    case (Cons y ys)
    show ?case
    proof (cases "f y = k")
      case False
      then have "\<forall>z\<in>set ys. f z \<noteq> k" using Cons.prems by (metis antisym list.set_intros(1) list.simps(9) set_map image_eqI sorted_simps(2))
      then show ?thesis using False by (simp add: filter_empty_conv filter_id_conv)
    qed (use Cons in simp)
  qed simp
  have nk: "k \<notin> set ks" using Cons.prems(2) by auto
  have "set ks = f ` set ?b" using Cons.prems(3) nk by auto
  moreover have "sorted (map f ?b)" using Cons.prems(1) sorted_filter by blast
  ultimately have "concat (map (\<lambda>k. filter (\<lambda>x. f x = k) ?b) ks) = ?b" using Cons.IH [of ?b] Cons.prems(2) by simp
  moreover have "map (\<lambda>k'. filter (\<lambda>x. f x = k') ?b) ks = map (\<lambda>k'. filter (\<lambda>x. f x = k') xs) ks"
    using nk by (auto intro!: filter_cong)
  ultimately have "concat (map (\<lambda>k'. filter (\<lambda>x. f x = k') xs) ks) = ?b" by (simp only:)
  then show ?case using split by (metis concat.simps(2) list.simps(9))
qed simp

lemma fold_update: "k + length ts \<le> length arr \<Longrightarrow> fold (\<lambda>(i, t) arr. arr[i := t]) (enumerate k ts) arr = take k arr @ ts @ drop (k + length ts) arr"
proof (induction ts arbitrary: k arr)
  case (Cons t ts)
  have "take (Suc k) (arr[k := t]) = take k arr @ [t]" using Cons.prems by (simp add: take_Suc_conv_app_nth)
  then show ?case using Cons by simp
qed simp

lemma queue_set_build_ok:
  assumes d: "distinct ts" and s: "sorted (map (\<lambda>t. (qt_shard_id t, qt_queue_id t)) ts)"
  shows "for_each_target (entry_ref (queue_set_build ts)) = Some ts" "target_count (entry_ref (queue_set_build ts)) = length ts"
proof -
  have "for_each_target (entry_ref (queue_set_build ts)) = Some ts \<and> target_count (entry_ref (queue_set_build ts)) = length ts"
  proof (cases "length ts \<le> 1")
    case True
    then show ?thesis by (cases ts) (auto simp: queue_set_build_def entry_ref_def for_each_target_def target_count_def)
  next
    case l: False
    then have ne: "ts \<noteq> []" "length ts \<noteq> 1" by auto
    show ?thesis
    proof (cases "length ts \<le> 4 \<and> length (shard_groups ts) = 1")
      case True
      have "unat (of_nat (length ts) :: byte) = length ts" using True by (simp add: unat_of_nat take_bit_nat_eq_self)
      then show ?thesis
        using True ne fold_update [of 0 ts "replicate 4 \<lparr>qt_shard_id = 0, qt_queue_id = 0\<rparr>"]
        by (simp add: queue_set_build_def entry_ref_def for_each_target_def target_count_def slice_def)
    next
      case False
      have q: "group_queues k ts [] = map qt_queue_id (filter (\<lambda>t. qt_shard_id t = k) ts)" for k
      proof -
        have "inj_on qt_queue_id {t \<in> set ts. qt_shard_id t = k}" by (auto simp: inj_on_def)
        then show ?thesis using group_queues_ok [of "[]" k ts] d by (simp add: distinct_map)
      qed
      let ?g = "\<lambda>k. map (\<lambda>q. \<lparr>qt_shard_id = k, qt_queue_id = q\<rparr>) (map qt_queue_id (filter (\<lambda>t. qt_shard_id t = k) ts))"
      have g: "?g k = filter (\<lambda>t. qt_shard_id t = k) ts" for k by (auto intro!: map_idI)
      have "sorted (map qt_shard_id ts)" using s unfolding sorted_wrt_map by (rule sorted_wrt_mono_rel [rotated]) auto
      then have c: "concat (map (\<lambda>k. filter (\<lambda>t. qt_shard_id t = k) ts) (shard_groups ts)) = ts"
        using shard_groups_ok [of ts] by (intro sorted_groups) auto
      have "sum_list (map (\<lambda>k. length (filter (\<lambda>t. qt_shard_id t = k) ts)) (shard_groups ts)) = length ts"
        using arg_cong [OF c, of length] by (simp add: length_concat comp_def)
      moreover have "queue_set_build ts = ShardGrouped (map (\<lambda>k. \<lparr>sg_shard_id = k, sg_queues = map qt_queue_id (filter (\<lambda>t. qt_shard_id t = k) ts)\<rparr>) (shard_groups ts))"
        using False ne by (auto simp: queue_set_build_def Let_def q)
      ultimately show ?thesis using c g by (simp add: entry_ref_def for_each_target_def target_count_def comp_def)
    qed
  qed
  then show "for_each_target (entry_ref (queue_set_build ts)) = Some ts" "target_count (entry_ref (queue_set_build ts)) = length ts" by simp_all
qed

section \<open>Bindings by key\<close>

lemma push_by_keys: "fst ` set (push_by k v m) = insert k (fst ` set m)"
  by (induction k v m rule: push_by.induct) auto

lemma push_by_ok:
  assumes "sorted_wrt (<) (map fst m)"
  shows "sorted_wrt (<) (map fst (push_by k v m))"
    "map_of (push_by k v m) = (map_of m)(k \<mapsto> (case map_of m k of None \<Rightarrow> [v] | Some vs \<Rightarrow> vs @ [v]))"
proof -
  show "sorted_wrt (<) (map fst (push_by k v m))" using assms
  proof (induction k v m rule: push_by.induct)
    case (2 k v k' vs xs)
    have "\<forall>a\<in>fst ` set (push_by k v xs). k' < a" if "\<not> k < k'" "k \<noteq> k'" using 2(2) that unfolding push_by_keys by auto
    then show ?case using 2 by auto
  qed simp
  show "map_of (push_by k v m) = (map_of m)(k \<mapsto> (case map_of m k of None \<Rightarrow> [v] | Some vs \<Rightarrow> vs @ [v]))" using assms
  proof (induction k v m rule: push_by.induct)
    case (2 k v k' vs xs)
    have "k < k' \<Longrightarrow> map_of xs k = None" using 2(2) by (auto simp: map_of_eq_None_iff)
    then show ?case using 2 by (auto simp: fun_eq_iff)
  qed simp
qed

definition matching :: "RoutingConfig \<Rightarrow> 32 word \<Rightarrow> byte list \<Rightarrow> BindingDecl list" where
  "matching c x key = filter (\<lambda>b. bd_exchange_id b = x \<and> bd_routing_key b = key) (rc_bindings c)"

lemma targets_by_key_ok:
  fixes c x
  defines "m \<equiv> targets_by_key x (rc_bindings c) []"
  shows "sorted_wrt (<) (map fst m)"
    "map_of m key = (if matching c x key = [] then None else Some (map binding_target (matching c x key)))"
proof -
  have "sorted_wrt (<) (map fst n) \<Longrightarrow> sorted_wrt (<) (map fst (targets_by_key x bs n)) \<and>
      (\<forall>key. let ts = map binding_target (filter (\<lambda>b. bd_exchange_id b = x \<and> bd_routing_key b = key) bs) in
        map_of (targets_by_key x bs n) key = (if ts = [] then map_of n key else Some (case map_of n key of None \<Rightarrow> ts | Some vs \<Rightarrow> vs @ ts)))" for bs n
  proof (induction x bs n rule: targets_by_key.induct)
    case (2 x b bs n)
    then show ?case
      by (cases "bd_exchange_id b = x") (auto simp: Let_def push_by_ok split: option.splits if_splits)
  qed simp
  from this [of "[]" "rc_bindings c"] show "sorted_wrt (<) (map fst m)"
    "map_of m key = (if matching c x key = [] then None else Some (map binding_target (matching c x key)))"
    by (auto simp: m_def matching_def Let_def)
qed

section \<open>Routes\<close>

definition route_to :: "RouteTable \<Rightarrow> RouteId \<Rightarrow> QueueTarget list \<Rightarrow> bool" where
  "route_to t r ts \<longleftrightarrow> unat (ri_index r) < length (rt_route_entries t) \<and> ri_generation r = 1 \<and>
     (let e = rt_route_entries t ! unat (ri_index r) in re_generation e = 1 \<and> unat (re_queue_set_id e) < length (rt_queue_sets t) \<and>
        rt_queue_sets t ! unat (re_queue_set_id e) = queue_set_build ts \<and> (route_flags_contain (re_flags e) UNROUTABLE \<longleftrightarrow> ts = []))"

definition extends :: "RouteTable \<Rightarrow> RouteTable \<Rightarrow> bool" where
  "extends t t' \<longleftrightarrow> rt_version t' = rt_version t \<and> (\<exists>es. rt_route_entries t' = rt_route_entries t @ es) \<and> (\<exists>ss. rt_queue_sets t' = rt_queue_sets t @ ss)"

lemma extends_refl [simp]: "extends t t" and extends_trans: "extends t t' \<Longrightarrow> extends t' t'' \<Longrightarrow> extends t t''"
  by (auto simp: extends_def)

lemma route_to_extends: "route_to t r ts \<Longrightarrow> extends t t' \<Longrightarrow> route_to t' r ts"
  by (auto simp: route_to_def extends_def Let_def nth_append)

lemma extends_length: "extends t t' \<Longrightarrow> length (rt_route_entries t) \<le> length (rt_route_entries t')"
  by (auto simp: extends_def)

lemma route_flags_unroutable:
  assumes "base = ROUTE_DIRECT \<or> base = ROUTE_FANOUT"
  shows "route_flags_contain (route_flags_for_entry (queue_set_build ts) base) UNROUTABLE \<longleftrightarrow> ts = []"
proof -
  have c: "\<not> route_flags_contain ROUTE_DIRECT UNROUTABLE" "\<not> route_flags_contain (ROUTE_DIRECT OR HAS_MULTIPLE_TARGETS) UNROUTABLE" "route_flags_contain (ROUTE_DIRECT OR UNROUTABLE) UNROUTABLE"
    "\<not> route_flags_contain ROUTE_FANOUT UNROUTABLE" "\<not> route_flags_contain (ROUTE_FANOUT OR HAS_MULTIPLE_TARGETS) UNROUTABLE" "route_flags_contain (ROUTE_FANOUT OR UNROUTABLE) UNROUTABLE"
    by code_simp+
  have e: "queue_set_build ts = EmptySet \<longleftrightarrow> ts = []" by (simp add: queue_set_build_def Let_def)
  show ?thesis using assms c e by (cases "queue_set_build ts") (auto simp: route_flags_for_entry_def)
qed

section \<open>Compiling an exchange\<close>

definition aligned :: "RouteTable \<Rightarrow> bool" where
  "aligned t \<longleftrightarrow> length (rt_queue_sets t) = length (rt_route_entries t)"

lemma route_to_pushed:
  assumes "aligned t" and "length (rt_route_entries t) < 2 ^ 32"
    and "rt_route_entries t' = rt_route_entries t @ [e]" and "rt_queue_sets t' = rt_queue_sets t @ [queue_set_build ts]"
    and "re_generation e = 1" and "re_queue_set_id e = of_nat (length (rt_queue_sets t))" and "route_flags_contain (re_flags e) UNROUTABLE \<longleftrightarrow> ts = []"
  shows "route_to t' \<lparr>ri_index = of_nat (length (rt_route_entries t)), ri_generation = 1\<rparr> ts"
proof -
  have "unat (of_nat (length (rt_route_entries t)) :: 32 word) = length (rt_route_entries t)" using assms(2) by (simp add: unat_of_nat take_bit_nat_eq_self)
  then show ?thesis using assms by (simp add: route_to_def aligned_def nth_append)
qed

lemma compile_key_ok:
  fixes t x key ts
  defines "t' \<equiv> compile_key x (key, ts) t"
  assumes a: "aligned t" and l: "length (rt_route_entries t') \<le> 2 ^ 32"
  shows "extends t t'" "aligned t'" "rt_exchanges t' = rt_exchanges t" "rt_exchange_by_id t' = rt_exchange_by_id t" "rt_exchange_names t' = rt_exchange_names t"
    "\<exists>r. rt_direct_index t' = (rt_direct_index t)((x, key) \<mapsto> r) \<and> route_to t' r (dedupe_targets ts)"
proof -
  note d = t'_def compile_key_def Let_def storage_push_def push_route_entry_def map_direct_def
  show "extends t t'" "aligned t'" "rt_exchanges t' = rt_exchanges t" "rt_exchange_by_id t' = rt_exchange_by_id t" "rt_exchange_names t' = rt_exchange_names t"
    using a by (simp_all add: d extends_def aligned_def)
  have "length (rt_route_entries t) < 2 ^ 32" using l by (simp add: d)
  then have "route_to t' \<lparr>ri_index = of_nat (length (rt_route_entries t)), ri_generation = 1\<rparr> (dedupe_targets ts)"
    by (rule route_to_pushed [OF a]) (simp add: d route_flags_unroutable)+
  then show "\<exists>r. rt_direct_index t' = (rt_direct_index t)((x, key) \<mapsto> r) \<and> route_to t' r (dedupe_targets ts)" by (intro exI conjI) (simp add: d)
qed

lemma compile_keys_ok:
  assumes "aligned t" and "distinct (map fst kts)" and "length (rt_route_entries (fold (compile_key x) kts t)) \<le> 2 ^ 32"
  shows "extends t (fold (compile_key x) kts t)" "aligned (fold (compile_key x) kts t)" "rt_exchanges (fold (compile_key x) kts t) = rt_exchanges t"
    "rt_exchange_by_id (fold (compile_key x) kts t) = rt_exchange_by_id t" "rt_exchange_names (fold (compile_key x) kts t) = rt_exchange_names t"
    "\<forall>x' key. (x' \<noteq> x \<or> map_of kts key = None) \<longrightarrow> rt_direct_index (fold (compile_key x) kts t) (x', key) = rt_direct_index t (x', key)"
    "\<forall>key ts. map_of kts key = Some ts \<longrightarrow> (\<exists>r. rt_direct_index (fold (compile_key x) kts t) (x, key) = Some r \<and>
       route_to (fold (compile_key x) kts t) r (dedupe_targets ts))"
proof -
  let ?P = "\<lambda>t t' kts. extends t t' \<and> aligned t' \<and> rt_exchanges t' = rt_exchanges t \<and> rt_exchange_by_id t' = rt_exchange_by_id t \<and>
    rt_exchange_names t' = rt_exchange_names t \<and> (\<forall>x' key. (x' \<noteq> x \<or> map_of kts key = None) \<longrightarrow> rt_direct_index t' (x', key) = rt_direct_index t (x', key)) \<and>
    (\<forall>key ts. map_of kts key = Some ts \<longrightarrow> (\<exists>r. rt_direct_index t' (x, key) = Some r \<and> route_to t' r (dedupe_targets ts)))"
  have "?P t (fold (compile_key x) kts t) kts" using assms
  proof (induction kts arbitrary: t)
    case (Cons kt kts)
    obtain key ts where kt: "kt = (key, ts)" by fastforce
    let ?t1 = "compile_key x (key, ts) t" and ?t2 = "fold (compile_key x) kts (compile_key x (key, ts) t)"
    have al: "aligned ?t1" using Cons.prems(1) by (simp add: compile_key_def Let_def storage_push_def push_route_entry_def map_direct_def aligned_def)
    have IH: "?P ?t1 ?t2 kts" using Cons.IH [OF al] Cons.prems(2,3) by (simp add: kt)
    have "length (rt_route_entries ?t1) \<le> 2 ^ 32" using IH extends_length [of ?t1 ?t2] Cons.prems(3) by (simp add: kt)
    note k = compile_key_ok [OF Cons.prems(1) this]
    obtain r where r: "rt_direct_index ?t1 = (rt_direct_index t)((x, key) \<mapsto> r)" "route_to ?t1 r (dedupe_targets ts)" using k(6) by blast
    have nk: "map_of kts key = None" using Cons.prems(2) by (auto simp: kt map_of_eq_None_iff)
    have "extends t ?t2" using IH k(1) extends_trans by blast
    moreover have "rt_direct_index ?t2 (x, key) = Some r" "route_to ?t2 r (dedupe_targets ts)" using IH r nk route_to_extends by auto
    ultimately show ?case using IH k r by (auto simp: kt)
  qed simp
  then show "extends t (fold (compile_key x) kts t)" "aligned (fold (compile_key x) kts t)" "rt_exchanges (fold (compile_key x) kts t) = rt_exchanges t"
    "rt_exchange_by_id (fold (compile_key x) kts t) = rt_exchange_by_id t" "rt_exchange_names (fold (compile_key x) kts t) = rt_exchange_names t"
    "\<forall>x' key. (x' \<noteq> x \<or> map_of kts key = None) \<longrightarrow> rt_direct_index (fold (compile_key x) kts t) (x', key) = rt_direct_index t (x', key)"
    "\<forall>key ts. map_of kts key = Some ts \<longrightarrow> (\<exists>r. rt_direct_index (fold (compile_key x) kts t) (x, key) = Some r \<and>
       route_to (fold (compile_key x) kts t) r (dedupe_targets ts))" by blast+
qed

section \<open>The table of the exchanges compiled so far\<close>

definition fanout_targets :: "RoutingConfig \<Rightarrow> 32 word \<Rightarrow> QueueTarget list" where
  "fanout_targets c x = map binding_target (filter (\<lambda>b. bd_exchange_id b = x) (rc_bindings c))"

definition direct_ok :: "RoutingConfig \<Rightarrow> RouteTable \<Rightarrow> 32 word \<Rightarrow> bool" where
  "direct_ok c t x \<longleftrightarrow> (\<forall>key. case rt_direct_index t (x, key) of
      None \<Rightarrow> matching c x key = []
    | Some r \<Rightarrow> matching c x key \<noteq> [] \<and> route_to t r (dedupe_targets (map binding_target (matching c x key))))"

definition exchange_ok :: "RoutingConfig \<Rightarrow> RouteTable \<Rightarrow> ExchangeDecl \<Rightarrow> bool" where
  "exchange_ok c t d \<longleftrightarrow> (\<exists>ce. exchange_at t (xd_id d) = Some ce \<and> ce_kind ce = xd_kind d \<and>
     (xd_kind d = Direct \<longrightarrow> direct_ok c t (xd_id d)) \<and>
     (xd_kind d = Fanout \<longrightarrow> (\<exists>i. ce_fanout_route_index ce = Some i \<and> route_to t \<lparr>ri_index = i, ri_generation = 1\<rparr> (dedupe_targets (fanout_targets c (xd_id d))))))"

definition table_inv :: "RoutingConfig \<Rightarrow> ExchangeDecl list \<Rightarrow> RouteTable \<Rightarrow> bool" where
  "table_inv c ds t \<longleftrightarrow> rt_version t = rc_version c \<and> aligned t \<and> (\<forall>d\<in>set ds. exchange_ok c t d) \<and>
     (\<forall>x. x \<notin> xd_id ` set ds \<longrightarrow> rt_exchange_by_id t x = None \<and> (\<forall>key. rt_direct_index t (x, key) = None))"

lemma table_inv_empty: "table_inv c [] (table_new_empty (rc_version c))"
  by (simp add: table_inv_def table_new_empty_def aligned_def)

text \<open>Exchanges that were compiled before keep their entries when the table grows for another exchange.\<close>

lemma exchange_ok_grows:
  assumes "exchange_ok c t d" and "extends t t'" and "xd_id d \<noteq> x"
    and "rt_exchange_by_id t' = (rt_exchange_by_id t)(x \<mapsto> n)" and "\<exists>es. rt_exchanges t' = rt_exchanges t @ es"
    and "\<forall>x' key. x' \<noteq> x \<longrightarrow> rt_direct_index t' (x', key) = rt_direct_index t (x', key)"
  shows "exchange_ok c t' d"
proof -
  obtain ce where ce: "exchange_at t (xd_id d) = Some ce" "ce_kind ce = xd_kind d" "xd_kind d = Direct \<Longrightarrow> direct_ok c t (xd_id d)"
    "xd_kind d = Fanout \<Longrightarrow> \<exists>i. ce_fanout_route_index ce = Some i \<and> route_to t \<lparr>ri_index = i, ri_generation = 1\<rparr> (dedupe_targets (fanout_targets c (xd_id d)))"
    using assms(1) by (auto simp: exchange_ok_def)
  have "exchange_at t' (xd_id d) = Some ce"
    using ce(1) assms(3-5) by (auto simp: exchange_at_def nth_append split: if_splits Option.bind_splits)
  moreover have "direct_ok c t' (xd_id d)" if "xd_kind d = Direct"
    unfolding direct_ok_def
  proof
    fix key
    have "rt_direct_index t' (xd_id d, key) = rt_direct_index t (xd_id d, key)" using assms(3,6) by blast
    then show "case rt_direct_index t' (xd_id d, key) of None \<Rightarrow> matching c (xd_id d) key = []
        | Some r \<Rightarrow> matching c (xd_id d) key \<noteq> [] \<and> route_to t' r (dedupe_targets (map binding_target (matching c (xd_id d) key)))"
      using spec [OF ce(3) [OF that, unfolded direct_ok_def], of key] route_to_extends [OF _ assms(2)] by (auto split: option.splits)
  qed
  ultimately show ?thesis unfolding exchange_ok_def using ce(2,4) route_to_extends [OF _ assms(2)] by blast
qed

lemma compile_direct_inv:
  assumes inv: "table_inv c ds t" and x: "xd_id d \<notin> xd_id ` set ds" and k: "xd_kind d = Direct"
    and l: "length (rt_route_entries (compile_direct d c t)) \<le> 2 ^ 32"
  shows "table_inv c (ds @ [d]) (compile_direct d c t)" "extends t (compile_direct d c t)"
proof -
  let ?m = "targets_by_key (xd_id d) (rc_bindings c) []"
  define t1 where "t1 = push_exchange \<lparr>ce_id = xd_id d, ce_kind = Direct, ce_flags = xd_flags d, ce_fanout_route_index = None\<rparr> (xd_name d) t"
  define t' where "t' = compile_direct d c t"
  have t': "t' = fold (compile_key (xd_id d)) ?m t1" by (simp add: t'_def t1_def compile_direct_def Let_def)
  have t1: "aligned t1" "extends t t1" "rt_direct_index t1 = rt_direct_index t" using inv by (simp_all add: t1_def push_exchange_def table_inv_def aligned_def extends_def)
  have dist: "distinct (map fst ?m)" using targets_by_key_ok(1) strict_sorted_iff by blast
  note f = compile_keys_ok [OF t1(1) dist l [folded t'_def, unfolded t'], folded t']
  show ext: "extends t (compile_direct d c t)" using f(1) t1(2) extends_trans unfolding t'_def [symmetric] by blast
  have "direct_ok c t' (xd_id d)" unfolding direct_ok_def
  proof
    fix key
    have n: "rt_direct_index t (xd_id d, key) = None" using inv x by (simp add: table_inv_def)
    show "case rt_direct_index t' (xd_id d, key) of None \<Rightarrow> matching c (xd_id d) key = []
        | Some r \<Rightarrow> matching c (xd_id d) key \<noteq> [] \<and> route_to t' r (dedupe_targets (map binding_target (matching c (xd_id d) key)))"
    proof (cases "matching c (xd_id d) key = []")
      case True
      then have "map_of ?m key = None" using targets_by_key_ok(2) [of "xd_id d" c key] by simp
      then have "rt_direct_index t' (xd_id d, key) = None" using f(6) [rule_format, of "xd_id d" key] n t1(3) by simp
      then show ?thesis using True by simp
    next
      case False
      then have "map_of ?m key = Some (map binding_target (matching c (xd_id d) key))" using targets_by_key_ok(2) [of "xd_id d" c key] by simp
      then obtain r where "rt_direct_index t' (xd_id d, key) = Some r" "route_to t' r (dedupe_targets (map binding_target (matching c (xd_id d) key)))"
        using f(7) by blast
      then show ?thesis using False by simp
    qed
  qed
  moreover have "exchange_at t' (xd_id d) = Some \<lparr>ce_id = xd_id d, ce_kind = Direct, ce_flags = xd_flags d, ce_fanout_route_index = None\<rparr>"
    using f(3,4) by (simp add: exchange_at_def t1_def push_exchange_def)
  ultimately have "exchange_ok c t' d" using k by (simp add: exchange_ok_def)
  moreover have "exchange_ok c t' d'" if "d' \<in> set ds" for d'
  proof (rule exchange_ok_grows)
    show "exchange_ok c t d'" "xd_id d' \<noteq> xd_id d" "extends t t'" using that inv x ext by (simp add: table_inv_def, metis image_eqI, simp add: t'_def)
    show "rt_exchange_by_id t' = (rt_exchange_by_id t)(xd_id d \<mapsto> length (rt_exchanges t))" "\<exists>es. rt_exchanges t' = rt_exchanges t @ es"
      using f(3,4) by (simp_all add: t1_def push_exchange_def)
    show "\<forall>x' key. x' \<noteq> xd_id d \<longrightarrow> rt_direct_index t' (x', key) = rt_direct_index t (x', key)" using f(6) t1(3) by simp
  qed
  moreover have "rt_exchange_by_id t' y = None \<and> (\<forall>key. rt_direct_index t' (y, key) = None)" if "y \<notin> xd_id ` set (ds @ [d])" for y
  proof -
    have y: "y \<noteq> xd_id d" "rt_exchange_by_id t y = None" "\<forall>key. rt_direct_index t (y, key) = None" using that inv by (auto simp: table_inv_def)
    then have "rt_direct_index t' (y, key) = None" for key using f(6) [rule_format, of y key] t1(3) by simp
    then show ?thesis using f(4) y by (simp add: t1_def push_exchange_def)
  qed
  moreover have "rt_version t' = rc_version c" using ext inv by (simp add: extends_def t'_def table_inv_def)
  ultimately show "table_inv c (ds @ [d]) (compile_direct d c t)" using f(2) unfolding t'_def [symmetric] table_inv_def by simp
qed

lemma compile_fanout_inv:
  assumes inv: "table_inv c ds t" and x: "xd_id d \<notin> xd_id ` set ds" and k: "xd_kind d = Fanout"
    and l: "length (rt_route_entries (compile_fanout d c t)) \<le> 2 ^ 32"
  shows "table_inv c (ds @ [d]) (compile_fanout d c t)" "extends t (compile_fanout d c t)"
proof -
  define t' where "t' = compile_fanout d c t"
  note d = t'_def compile_fanout_def Let_def storage_push_def push_route_entry_def push_exchange_def
  let ?ts = "dedupe_targets (fanout_targets c (xd_id d))" and ?i = "of_nat (length (rt_route_entries t)) :: 32 word"
  have al: "aligned t" using inv by (simp add: table_inv_def)
  show ext: "extends t (compile_fanout d c t)" by (simp add: d extends_def)
  have b: "(if ?ts = [] then EmptySet else queue_set_build ?ts) = queue_set_build ?ts" by (simp add: queue_set_build_def)
  have e: "route_flags_contain (route_flags_for_entry EmptySet ROUTE_FANOUT OR UNROUTABLE) UNROUTABLE" by code_simp
  have "length (rt_route_entries t) < 2 ^ 32" using l by (simp add: d)
  then have r: "route_to t' \<lparr>ri_index = ?i, ri_generation = 1\<rparr> ?ts"
    by (rule route_to_pushed [OF al]) (use b e route_flags_unroutable in \<open>simp add: d fanout_targets_def [symmetric]\<close>)+
  have "exchange_at t' (xd_id d) = Some \<lparr>ce_id = xd_id d, ce_kind = Fanout, ce_flags = xd_flags d, ce_fanout_route_index = Some ?i\<rparr>"
    by (simp add: exchange_at_def d)
  then have "exchange_ok c t' d" using k r by (simp add: exchange_ok_def)
  moreover have "exchange_ok c t' d'" if "d' \<in> set ds" for d'
  proof (rule exchange_ok_grows)
    show "exchange_ok c t d'" "xd_id d' \<noteq> xd_id d" "extends t t'" using that inv x ext by (simp add: table_inv_def, metis image_eqI, simp add: t'_def)
    show "rt_exchange_by_id t' = (rt_exchange_by_id t)(xd_id d \<mapsto> length (rt_exchanges t))" "\<exists>es. rt_exchanges t' = rt_exchanges t @ es"
      "\<forall>x' key. x' \<noteq> xd_id d \<longrightarrow> rt_direct_index t' (x', key) = rt_direct_index t (x', key)" by (simp_all add: d)
  qed
  moreover have "rt_exchange_by_id t' y = None \<and> (\<forall>key. rt_direct_index t' (y, key) = None)" if "y \<notin> xd_id ` set (ds @ [d])" for y
    using that inv by (simp add: table_inv_def d)
  moreover have "aligned t'" using al by (simp add: d aligned_def)
  moreover have "rt_version t' = rc_version c" using ext inv by (simp add: extends_def t'_def table_inv_def)
  ultimately show "table_inv c (ds @ [d]) (compile_fanout d c t)" unfolding t'_def [symmetric] table_inv_def by simp
qed

lemma compile_exchanges_extends: "compile_exchanges es c t = Inr t' \<Longrightarrow> extends t t'"
proof (induction es c t rule: compile_exchanges.induct)
  case (2 x xs c t)
  have k: "extends t (compile_key i kt t)" for i kt t
    by (cases kt) (simp add: compile_key_def Let_def storage_push_def push_route_entry_def map_direct_def extends_def)
  have f: "extends t (fold (compile_key i) kts t)" for i kts t
  proof (induction kts arbitrary: t)
    case (Cons kt kts)
    show ?case using extends_trans [OF k Cons.IH] by simp
  qed simp
  have "extends t (compile_direct x c t)"
    unfolding compile_direct_def Let_def by (rule extends_trans [OF _ f]) (simp add: push_exchange_def extends_def)
  moreover have "extends t (compile_fanout x c t)" by (simp add: compile_fanout_def Let_def storage_push_def push_route_entry_def push_exchange_def extends_def)
  ultimately show ?case using 2 extends_trans by (cases "xd_kind x") auto
qed simp

lemma compile_exchanges_inv:
  assumes "compile_exchanges es c t = Inr t'" and "table_inv c ds t" and "distinct (map xd_id (ds @ es))" and l: "length (rt_route_entries t') \<le> 2 ^ 32"
  shows "table_inv c (ds @ es) t'"
  using assms(1-3)
proof (induction es arbitrary: ds t)
  case (Cons x es)
  have x: "xd_id x \<notin> xd_id ` set ds" "distinct (map xd_id ((ds @ [x]) @ es))" using Cons.prems(3) by auto
  show ?case
  proof (cases "xd_kind x")
    case Direct
    then have c: "compile_exchanges es c (compile_direct x c t) = Inr t'" using Cons.prems(1) by simp
    have "length (rt_route_entries (compile_direct x c t)) \<le> 2 ^ 32" using extends_length [OF compile_exchanges_extends [OF c]] l by simp
    from Cons.IH [OF c compile_direct_inv(1) [OF Cons.prems(2) x(1) Direct this] x(2)] show ?thesis by simp
  next
    case Fanout
    then have c: "compile_exchanges es c (compile_fanout x c t) = Inr t'" using Cons.prems(1) by simp
    have "length (rt_route_entries (compile_fanout x c t)) \<le> 2 ^ 32" using extends_length [OF compile_exchanges_extends [OF c]] l by simp
    from Cons.IH [OF c compile_fanout_inv(1) [OF Cons.prems(2) x(1) Fanout this] x(2)] show ?thesis by simp
  qed (use Cons.prems(1) in simp_all)
qed simp

lemma has_duplicate_iff: "has_duplicate xs seen \<longleftrightarrow> \<not> (distinct (map xd_id xs) \<and> xd_id ` set xs \<inter> seen = {})"
  by (induction xs seen rule: has_duplicate.induct) auto

lemma compile_inv:
  assumes c: "compile c = Inr t" and l: "length (rt_route_entries t) \<le> 2 ^ 32"
  shows "table_inv c (rc_exchanges c) t"
proof -
  have "compile_exchanges (rc_exchanges c) c (table_new_empty (rc_version c)) = Inr t" "distinct (map xd_id (rc_exchanges c))"
    using c by (auto simp: compile_def has_duplicate_iff split: if_splits)
  then show ?thesis using compile_exchanges_inv [OF _ table_inv_empty _ l] by fastforce
qed

end
