(* ===== verification/Routing_Properties.thy ===== *)
theory Routing_Properties
  imports Routing_Lemmas "HOL-Library.Code_Target_Nat"
begin

text \<open>The properties of the route compiler: what a compiled table routes, and which configurations compile.\<close>

section \<open>Routes of a configuration\<close>

text \<open>
  The targets that a configuration gives to an exchange and a routing key, read off its bindings:
  \<open>None\<close> when there is no such exchange.
\<close>

definition routed :: "RoutingConfig \<Rightarrow> 32 word \<Rightarrow> byte list \<Rightarrow> QueueTarget set option" where
  "routed c x key = (if x \<notin> xd_id ` set (rc_exchanges c) then None
     else Some (binding_target ` {b \<in> set (rc_bindings c). bd_exchange_id b = x \<and>
       ((\<exists>d\<in>set (rc_exchanges c). xd_id d = x \<and> xd_kind d = Fanout) \<or> bd_routing_key b = key)}))"

lemma get_by_route_id_ok:
  assumes "route_to t r ts" and "ts \<noteq> []" and "distinct ts" and "sorted (map (\<lambda>t. (qt_shard_id t, qt_queue_id t)) ts)"
  shows "\<exists>s. get_by_route_id t r (rt_version t) = Inr s \<and> targets_vec s = Some ts \<and> target_count s = length ts"
  using assms queue_set_build_ok [OF assms(3,4)]
  by (auto simp: route_to_def get_by_route_id_def Let_def storage_get_ref_entry targets_vec_def)

lemma compile_kinds: "compile c = Inr t \<Longrightarrow> d \<in> set (rc_exchanges c) \<Longrightarrow> xd_kind d = Direct \<or> xd_kind d = Fanout"
proof -
  have "compile_exchanges es c t0 = Inr t \<Longrightarrow> d \<in> set es \<Longrightarrow> xd_kind d = Direct \<or> xd_kind d = Fanout" for es t0
    by (induction es c t0 rule: compile_exchanges.induct) (auto split: ExchangeKind.splits)
  then show "compile c = Inr t \<Longrightarrow> d \<in> set (rc_exchanges c) \<Longrightarrow> xd_kind d = Direct \<or> xd_kind d = Fanout" by (auto simp: compile_def split: if_splits)
qed

lemma resolve_exchange:
  assumes e: "exchange_ok c t d" and k: "xd_kind d = Direct \<or> xd_kind d = Fanout"
    and ts: "ts = dedupe_targets (if xd_kind d = Direct then map binding_target (matching c (xd_id d) key) else fanout_targets c (xd_id d))"
  shows "if ts = [] then resolve_direct t (xd_id d) key = Some (Inl ResolveUnroutable)
    else \<exists>r f. resolve_direct t (xd_id d) key = Some (Inr \<lparr>rr_route_id = r, rr_version = rt_version t, rr_flags = f\<rparr>) \<and> route_to t r ts"
proof -
  obtain ce where ce: "exchange_at t (xd_id d) = Some ce" "ce_kind ce = xd_kind d" "xd_kind d = Direct \<Longrightarrow> direct_ok c t (xd_id d)"
    "xd_kind d = Fanout \<Longrightarrow> \<exists>i. ce_fanout_route_index ce = Some i \<and> route_to t \<lparr>ri_index = i, ri_generation = 1\<rparr> (dedupe_targets (fanout_targets c (xd_id d)))"
    using e by (auto simp: exchange_ok_def)
  show ?thesis
  proof (cases "xd_kind d = Direct")
    case True
    note o = spec [OF ce(3) [OF True, unfolded direct_ok_def], of key]
    show ?thesis
    proof (cases "rt_direct_index t (xd_id d, key)")
      case None
      then show ?thesis using o ce(1,2) True ts by (simp add: resolve_direct_def)
    next
      case (Some r)
      then have "ts \<noteq> []" "route_to t r ts" using o True ts by auto
      then show ?thesis using Some ce(1,2) True by (auto simp: resolve_direct_def route_to_def Let_def)
    qed
  next
    case False
    then have f: "xd_kind d = Fanout" using k by blast
    obtain i where i: "ce_fanout_route_index ce = Some i" "route_to t \<lparr>ri_index = i, ri_generation = 1\<rparr> ts" using ce(4) [OF f] False ts by auto
    then show ?thesis using ce(1,2) f by (auto simp: resolve_direct_def route_to_def Let_def)
  qed
qed

lemma route_resolution:
  assumes c: "compile c = Inr t" and l: "length (rt_route_entries t) \<le> 2 ^ 32"
  shows "ok (resolve_direct t x key) (\<lambda>r. case routed c x key of
      None \<Rightarrow> r = Inl ResolveExchangeNotFound
    | Some T \<Rightarrow> if T = {} then r = Inl ResolveUnroutable
        else \<exists>rr s ts. r = Inr rr \<and> rr_version rr = rc_version c \<and> get_by_route_id t (rr_route_id rr) (rr_version rr) = Inr s \<and>
          targets_vec s = Some ts \<and> set ts = T \<and> distinct ts \<and> sorted (map (\<lambda>t. (qt_shard_id t, qt_queue_id t)) ts) \<and> target_count s = length ts)"
proof -
  note inv = compile_inv [OF c l]
  show ?thesis
  proof (cases "x \<in> xd_id ` set (rc_exchanges c)")
    case False
    then have "exchange_at t x = None" using inv by (simp add: table_inv_def exchange_at_def)
    then show ?thesis using False by (simp add: resolve_direct_def routed_def)
  next
    case True
    then obtain d where d: "d \<in> set (rc_exchanges c)" "xd_id d = x" by auto
    define ts where "ts = dedupe_targets (if xd_kind d = Direct then map binding_target (matching c x key) else fanout_targets c x)"
    have uniq: "d' = d" if "d' \<in> set (rc_exchanges c)" "xd_id d' = x" for d'
    proof -
      have "distinct (map xd_id (rc_exchanges c))" using c by (auto simp: compile_def has_duplicate_iff split: if_splits)
      then show ?thesis using that d by (metis distinct_map inj_onD)
    qed
    note k = compile_kinds [OF c d(1)]
    have "set ts = binding_target ` {b \<in> set (rc_bindings c). bd_exchange_id b = x \<and> (xd_kind d = Fanout \<or> bd_routing_key b = key)}"
      using k by (auto simp: ts_def matching_def fanout_targets_def)
    moreover have "(\<exists>d\<in>set (rc_exchanges c). xd_id d = x \<and> xd_kind d = Fanout) \<longleftrightarrow> xd_kind d = Fanout" using uniq d by blast
    ultimately have T: "routed c x key = Some (set ts)" using True by (simp add: routed_def)
    have e: "exchange_ok c t d" "rt_version t = rc_version c" using inv d(1) by (simp_all add: table_inv_def)
    have ds: "distinct ts" "sorted (map (\<lambda>t. (qt_shard_id t, qt_queue_id t)) ts)" by (simp_all add: ts_def dedupe_targets_sorted del: sorted_wrt_map)
    note r = resolve_exchange [OF e(1) k ts_def [folded d(2)], unfolded d(2)]
    show ?thesis
    proof (cases "ts = []")
      case True
      then show ?thesis using r T by simp
    next
      case False
      then obtain rr f where rr: "resolve_direct t x key = Some (Inr \<lparr>rr_route_id = rr, rr_version = rt_version t, rr_flags = f\<rparr>)" "route_to t rr ts"
        using r by auto
      obtain s where "get_by_route_id t rr (rt_version t) = Inr s" "targets_vec s = Some ts" "target_count s = length ts"
        using get_by_route_id_ok [OF rr(2) False ds] by blast
      then show ?thesis using rr(1) T False ds e(2) by auto
    qed
  qed
qed

text \<open>
  C40. A compiled table routes exactly as its bindings say. For every exchange and routing key, resolving
  never panics; it reports an unknown exchange exactly when the configuration has none of that number, and
  no route exactly when no binding matches (on a fanout exchange every binding of the exchange matches,
  on a direct one those with the same key). Otherwise the route number it returns, with the version of the
  table, gives a queue set that lists every bound target once, ordered by shard and queue, and
  counts them correctly. The condition is that the route numbers fit their 32 bits.
\<close>

theorem compile_routes:
  assumes c: "compile c = Inr t" and l: "length (rt_route_entries t) \<le> 2 ^ 32"
  shows "ok (resolve_direct t x key) (\<lambda>r. case routed c x key of
      None \<Rightarrow> r = Inl ResolveExchangeNotFound
    | Some T \<Rightarrow> if T = {} then r = Inl ResolveUnroutable
        else \<exists>rr s ts. r = Inr rr \<and> rr_version rr = rc_version c \<and> get_by_route_id t (rr_route_id rr) (rr_version rr) = Inr s \<and>
          targets_vec s = Some ts \<and> set ts = T \<and> distinct ts \<and> sorted (map (\<lambda>t. (qt_shard_id t, qt_queue_id t)) ts) \<and> target_count s = length ts)"
  by (rule route_resolution [OF c l])

definition demo_config :: RoutingConfig where
  "demo_config = add_binding (add_binding (add_binding (add_exchange (add_exchange (config_new 1) (exchange_direct 1 [120])) (exchange_fanout 2 [121]))
     (binding_direct 1 11 [107])) (binding_direct 1 10 [107])) (binding_direct 1 11 [107])"

lemma demo_compiles: "case compile demo_config of Inl _ \<Rightarrow> False | Inr t \<Rightarrow> length (rt_route_entries t) = 2"
  by code_simp

lemma demo_routed: "routed demo_config 1 [107] = Some {\<lparr>qt_shard_id = 0, qt_queue_id = 10\<rparr>, \<lparr>qt_shard_id = 0, qt_queue_id = 11\<rparr>}"
  by code_simp

theorem compile_routes_witness:
  "\<exists>t r s ts. compile demo_config = Inr t \<and> resolve_direct t 1 [107] = Some (Inr r) \<and> get_by_route_id t (rr_route_id r) (rr_version r) = Inr s \<and>
     targets_vec s = Some ts \<and> distinct ts \<and> set ts = {\<lparr>qt_shard_id = 0, qt_queue_id = 10\<rparr>, \<lparr>qt_shard_id = 0, qt_queue_id = 11\<rparr>}"
proof -
  obtain t where t: "compile demo_config = Inr t" "length (rt_route_entries t) \<le> 2 ^ 32" using demo_compiles by (auto split: sum.splits)
  show ?thesis using compile_routes [OF t, of 1 "[107]"] t(1) unfolding demo_routed by (auto simp: ok_def split: option.splits)
qed

section \<open>Which configurations compile\<close>

text \<open>
  The compiler accepts exactly the well-formed configurations and names the first defect of the others:
  no exchange, then two exchanges with one number, then a binding to an unknown exchange, then an exchange
  of a kind that is not supported. What is accepted carries the version of the configuration, and a route number is
  refused under every other version, so a stale number never reaches a queue.
\<close>

theorem compile_accepts:
  "case compile c of
     Inl e \<Rightarrow> e = (if rc_exchanges c = [] then EmptyConfig else if \<not> distinct (map xd_id (rc_exchanges c)) then DuplicateExchangeId
       else if \<exists>b\<in>set (rc_bindings c). bd_exchange_id b \<notin> xd_id ` set (rc_exchanges c) then CompileExchangeNotFound
       else CompileUnsupportedExchangeKind)
   | Inr t \<Rightarrow> rc_exchanges c \<noteq> [] \<and> distinct (map xd_id (rc_exchanges c)) \<and> bd_exchange_id ` set (rc_bindings c) \<subseteq> xd_id ` set (rc_exchanges c) \<and>
       xd_kind ` set (rc_exchanges c) \<subseteq> {Direct, Fanout} \<and> rt_version t = rc_version c \<and>
       (\<forall>r v. v \<noteq> rc_version c \<longrightarrow> get_by_route_id t r v = Inl RouteTableVersionMismatch)"
proof (cases "compile c")
  case (Inl e)
  have "compile_exchanges es c t0 = Inl e' \<Longrightarrow> e' = CompileUnsupportedExchangeKind" for es t0 e'
    by (induction es c t0 rule: compile_exchanges.induct) (auto split: ExchangeKind.splits)
  then show ?thesis using Inl by (auto simp: compile_def has_duplicate_iff split: if_splits)
next
  case (Inr t)
  then have "compile_exchanges (rc_exchanges c) c (table_new_empty (rc_version c)) = Inr t" by (auto simp: compile_def split: if_splits)
  then have v: "rt_version t = rc_version c" using compile_exchanges_extends by (fastforce simp: extends_def table_new_empty_def)
  have k: "xd_kind ` set (rc_exchanges c) \<subseteq> {Direct, Fanout}" using compile_kinds [OF Inr] by blast
  show ?thesis using Inr v k by (auto simp: compile_def has_duplicate_iff get_by_route_id_def split: if_splits)
qed

theorem compile_accepts_witness: "compile (add_binding (add_exchange (config_new 1) (exchange_direct 1 [120])) (binding_direct 2 10 [107])) = Inl CompileExchangeNotFound"
  using compile_accepts [of "add_binding (add_exchange (config_new 1) (exchange_direct 1 [120])) (binding_direct 2 10 [107])"]
  by (auto simp: add_binding_def add_exchange_def config_new_def exchange_direct_def binding_direct_def split: sum.splits)

text \<open>The flags of a binding, among them the one that says it is active, have no influence on the table.\<close>

lemma binding_flags_ignored: "compile (c\<lparr>rc_bindings := map (\<lambda>b. b\<lparr>bd_flags := f b\<rparr>) (rc_bindings c)\<rparr>) = compile c"
proof -
  let ?g = "map (\<lambda>b. b\<lparr>bd_flags := f b\<rparr>)" and ?c = "c\<lparr>rc_bindings := map (\<lambda>b. b\<lparr>bd_flags := f b\<rparr>) (rc_bindings c)\<rparr>"
  have k: "targets_by_key x (?g bs) m = targets_by_key x bs m" for x bs m
    by (induction x bs m rule: targets_by_key.induct) (simp_all add: binding_target_def)
  have "compile_direct x ?c t = compile_direct x c t" for x t by (simp add: compile_direct_def k)
  moreover have "compile_fanout x ?c t = compile_fanout x c t" for x t
  proof -
    have "binding_target (b\<lparr>bd_flags := v\<rparr>) = binding_target b" for b v by (simp add: binding_target_def)
    then show ?thesis by (simp add: compile_fanout_def filter_map comp_def)
  qed
  ultimately have "compile_exchanges es ?c t = compile_exchanges es c t" for es t
    by (induction es arbitrary: t) (auto split: ExchangeKind.splits)
  then show ?thesis by (simp add: compile_def)
qed

end
