(* ===== verification/Broker_Properties.thy ===== *)
theory Broker_Properties
  imports Broker Shard_Properties Routing_Properties
begin

text \<open>
  Routing and the shard together: a publication on a route that the compiled table gives reaches every bound
  queue once, and no other queue.
\<close>

section \<open>One publication\<close>

definition seq_at :: "32 word \<Rightarrow> InMemoryShardExecutor \<Rightarrow> nat" where
  "seq_at k sh = (case sh_queues sh k of None \<Rightarrow> 0 | Some q \<Rightarrow> q_next_seq (qs_queue q))"

definition payload_at :: "32 word \<Rightarrow> InMemoryShardExecutor \<Rightarrow> nat \<Rightarrow> nat option" where
  "payload_at k sh x = (case sh_queues sh k of None \<Rightarrow> None | Some q \<Rightarrow> qs_seq_payloads q x)"

text \<open>Room in the counters of a queue for \<open>n\<close> more messages.\<close>

definition room_for :: "nat \<Rightarrow> InMemoryShardExecutor \<Rightarrow> 32 word \<Rightarrow> bool" where
  "room_for n sh k \<longleftrightarrow> seq_at k sh + n + 256 \<le> u32_max \<and> (\<forall>q. sh_queues sh k = Some q \<longrightarrow>
     total_delivered (q_stats (qs_queue q)) + ready (qs_queue q) + n + 256 + FIRST_TAG \<le> u64_max)"

lemma insert_payloads_exact:
  "insert_payloads base i recs m = Some m' \<Longrightarrow>
   m' x = (if base + i \<le> x \<and> x < base + i + length recs then Some (pb_payload (recs ! (x - (base + i)))) else m x)"
proof (induction recs arbitrary: i m)
  case (Cons rec recs)
  then have r: "insert_payloads base (Suc i) recs (m(base + i \<mapsto> pb_payload rec)) = Some m'" by (auto simp: add_u64_def split: if_splits)
  have e: "x - (base + i) = Suc (x - (base + Suc i))" if "base + Suc i \<le> x" using that by simp
  show ?case using Cons.IH [OF r] e by (auto simp: nth_Cons')
qed auto

text \<open>What a step of the shard leaves alone: every queue but one, the storage and the number of the shard.\<close>

definition only_queue :: "32 word \<Rightarrow> InMemoryShardExecutor \<Rightarrow> InMemoryShardExecutor \<Rightarrow> bool" where
  "only_queue k sh sh' \<longleftrightarrow> (\<forall>j. j \<noteq> k \<longrightarrow> sh_queues sh' j = sh_queues sh j) \<and> sh_durable sh' = sh_durable sh \<and> sh_shard_id sh' = sh_shard_id sh"

lemma only_queue_trans: "only_queue k sh sh1 \<Longrightarrow> only_queue k sh1 sh2 \<Longrightarrow> only_queue k sh sh2"
  by (simp add: only_queue_def)

lemma ensure_queue_ok:
  assumes "shard_reachable crc sh"
  shows "ok (ensure_queue crc sh k) (\<lambda>sh'. shard_reachable crc sh' \<and> only_queue k sh sh' \<and> sh_queues sh' k \<noteq> None \<and>
    seq_at k sh' = seq_at k sh \<and> (room_for n sh k \<longrightarrow> room_for n sh' k) \<and> (sh_queues sh k \<noteq> None \<longrightarrow> sh' = sh))"
proof (cases "sh_queues sh k")
  case None
  let ?q = "\<lparr>qs_id = k, qs_queue = q_empty, qs_consumers = [], qs_next_consumer_index = 0, qs_flags = QUEUE_ACTIVE, qs_seq_payloads = Map.empty\<rparr>"
  let ?sh = "sh\<lparr>sh_queues := (sh_queues sh)(k \<mapsto> ?q)\<rparr>"
  have e: "execute crc sh (CmdDeclare (declare_queue_one k)) output_default = Some (?sh, output_default)"
    using None by (simp add: execute_def declare_queue_one_def exec_declare_queue_def create_queue_def)
  have "shard_reachable crc ?sh" by (rule sr_step [OF assms ss_execute [OF e]]) (simp add: command_guard_def)
  moreover have "room_for n sh k \<longrightarrow> room_for n ?sh k"
    using None by (simp add: room_for_def seq_at_def q_empty_def stats_default_def ready_def qcount_def status_def FIRST_TAG_def u32_max_def u64_max_def)
  ultimately show ?thesis using None e by (simp add: ensure_queue_def only_queue_def seq_at_def q_empty_def)
next
  case (Some q)
  then show ?thesis using assms by (simp add: ensure_queue_def only_queue_def)
qed

lemma exec_publish_exact:
  assumes r: "shard_reachable crc sh" and d: "sh_durable sh = None" and q: "sh_queues sh (sp_queue_id b) = Some q"
    and l: "length (sp_records b) \<le> u32_max" and g: "room_for (publish_count b) sh (sp_queue_id b)"
  shows "ok (execute crc sh (CmdPublish b) out) (\<lambda>(sh', out'). shard_reachable crc sh' \<and> only_queue (sp_queue_id b) sh sh' \<and>
    seq_at (sp_queue_id b) sh' = seq_at (sp_queue_id b) sh + publish_count b \<and> so_errors out' = so_errors out \<and>
    (\<forall>i<length (sp_records b). payload_at (sp_queue_id b) sh' (seq_at (sp_queue_id b) sh + i) = Some (pb_payload (sp_records b ! i))))"
proof -
  have inv: "shard_inv sh" "shard_room sh" using shard_reachable_inv [OF r] by blast+
  have pg: "publish_guard sh b" using g l q by (auto simp: publish_guard_def room_for_def seq_at_def)
  have e: "execute crc sh (CmdPublish b) out = publish_in_memory sh q b out" using q d by (simp add: execute_def exec_publish_def)
  have cg: "command_guard sh (CmdPublish b)" using pg by (simp add: command_guard_def)
  show ?thesis
    unfolding e
  proof (rule ok_mono_eq [OF publish_in_memory_driven [OF inv pg q]], clarify)
    fix sh' out' sh1 out1
    assume run: "publish_in_memory sh q b out = Some (sh', out')" and w: "with_published sh q b sh1" and dr: "driven (sp_queue_id b) sh1 out1 sh' out'"
      and er: "so_errors out1 = so_errors out"
    obtain queue m where sh1: "sh1 = sh\<lparr>sh_queues := (sh_queues sh)(sp_queue_id b \<mapsto> q\<lparr>qs_queue := queue, qs_seq_payloads := m\<rparr>)\<rparr>"
      "q_next_seq queue = q_next_seq (qs_queue q) + publish_count b" "insert_payloads (q_next_seq (qs_queue q)) 0 (sp_records b) (qs_seq_payloads q) = Some m"
      using w unfolding with_published_def by blast
    obtain evs where ev: "out' = out1\<lparr>so_deliveries := so_deliveries out1 @ evs\<rparr>"
      "queue_driven (delivered_msgs evs) (sh_queues sh1 (sp_queue_id b)) (sh_queues sh' (sp_queue_id b))"
      using dr unfolding driven_def by blast
    obtain q' where q': "sh_queues sh' (sp_queue_id b) = Some q'" "qs_seq_payloads q' = m" "q_next_seq (qs_queue q') = q_next_seq queue"
      using ev(2) sh1(1) by (auto simp: queue_driven_def)
    have "shard_reachable crc sh'" by (rule sr_step [OF r ss_execute [OF run [folded e] cg]])
    moreover have "only_queue (sp_queue_id b) sh sh'" using dr sh1(1) by (simp add: only_queue_def driven_def)
    moreover have "payload_at (sp_queue_id b) sh' (seq_at (sp_queue_id b) sh + i) = Some (pb_payload (sp_records b ! i))" if "i < length (sp_records b)" for i
      using insert_payloads_exact [OF sh1(3), of "q_next_seq (qs_queue q) + i"] that q' q by (simp add: payload_at_def seq_at_def)
    ultimately show "shard_reachable crc sh' \<and> only_queue (sp_queue_id b) sh sh' \<and>
        seq_at (sp_queue_id b) sh' = seq_at (sp_queue_id b) sh + publish_count b \<and> so_errors out' = so_errors out \<and>
        (\<forall>i<length (sp_records b). payload_at (sp_queue_id b) sh' (seq_at (sp_queue_id b) sh + i) = Some (pb_payload (sp_records b ! i)))"
      using q q' sh1(2) ev(1) er by (simp add: seq_at_def)
  qed
qed

section \<open>All targets of a route\<close>

text \<open>The batch has entered the queues \<open>ks\<close>, once each and behind what they held, and no other queue.\<close>

definition published_to :: "32 word set \<Rightarrow> PublishRecord list \<Rightarrow> InMemoryShardExecutor \<Rightarrow> InMemoryShardExecutor \<Rightarrow> bool" where
  "published_to ks recs sh sh' \<longleftrightarrow>
     (\<forall>k. seq_at k sh' = seq_at k sh + (if k \<in> ks then length recs else 0)) \<and>
     (\<forall>k\<in>ks. \<forall>i<length recs. payload_at k sh' (seq_at k sh + i) = Some (pb_payload (recs ! i))) \<and>
     (\<forall>k. k \<notin> ks \<longrightarrow> payload_at k sh' = payload_at k sh)"

lemma published_to_trans:
  assumes a: "published_to {k} recs sh sh1" and b: "published_to B recs sh1 sh2" and n: "k \<notin> B"
  shows "published_to (insert k B) recs sh sh2"
  unfolding published_to_def
proof (intro conjI allI ballI impI)
  fix j
  show "seq_at j sh2 = seq_at j sh + (if j \<in> insert k B then length recs else 0)"
    using a b n unfolding published_to_def by (cases "j = k") auto
next
  fix j i assume j: "j \<in> insert k B" "i < length recs"
  show "payload_at j sh2 (seq_at j sh + i) = Some (pb_payload (recs ! i))"
  proof (cases "j = k")
    case True
    then show ?thesis using a b n j unfolding published_to_def by auto
  next
    case False
    then have "seq_at j sh1 = seq_at j sh" using a unfolding published_to_def by auto
    then show ?thesis using b j False unfolding published_to_def by auto
  qed
next
  fix j assume "j \<notin> insert k B"
  then show "payload_at j sh2 = payload_at j sh" using a b unfolding published_to_def by auto
qed

lemma published_to_before:
  assumes "only_queue k sh sh1" "seq_at k sh1 = seq_at k sh" "published_to {k} recs sh1 sh2"
  shows "published_to {k} recs sh sh2"
proof -
  have "seq_at j sh1 = seq_at j sh" for j using assms(1,2) by (cases "j = k") (simp_all add: only_queue_def seq_at_def)
  moreover have "payload_at j sh1 = payload_at j sh" if "j \<noteq> k" for j using assms(1) that by (simp add: only_queue_def payload_at_def fun_eq_iff)
  ultimately show ?thesis using assms(3) unfolding published_to_def by auto
qed

lemma published_to_one:
  assumes "only_queue k sh sh'" "seq_at k sh' = seq_at k sh + length recs"
    "\<forall>i<length recs. payload_at k sh' (seq_at k sh + i) = Some (pb_payload (recs ! i))"
  shows "published_to {k} recs sh sh'"
proof -
  have "seq_at j sh' = seq_at j sh" "payload_at j sh' = payload_at j sh" if "j \<noteq> k" for j
    using assms(1) that by (simp_all add: only_queue_def seq_at_def payload_at_def fun_eq_iff)
  then show ?thesis using assms(2,3) unfolding published_to_def by auto
qed

lemma publish_to_queue_ok:
  assumes r: "shard_reachable crc sh" and d: "sh_durable sh = None" and l: "length (ip_records batch) \<le> u32_max"
    and g: "room_for (length (ip_records batch)) sh k"
  shows "ok (publish_to_queue crc sh batch k route_id out) (\<lambda>(sh', out'). shard_reachable crc sh' \<and> only_queue k sh sh' \<and>
    so_errors out' = so_errors out \<and> published_to {k} (ip_records batch) sh sh')"
  unfolding publish_to_queue_def ok_bind
proof (rule ok_mono [OF ensure_queue_ok [OF r, of k "length (ip_records batch)"]])
  fix sh1 assume s1: "shard_reachable crc sh1 \<and> only_queue k sh sh1 \<and> sh_queues sh1 k \<noteq> None \<and> seq_at k sh1 = seq_at k sh \<and>
    (room_for (length (ip_records batch)) sh k \<longrightarrow> room_for (length (ip_records batch)) sh1 k) \<and> (sh_queues sh k \<noteq> None \<longrightarrow> sh1 = sh)"
  let ?n = "as_u32 (length (ip_records batch))"
  let ?b = "\<lparr>sp_batch_id = ip_batch_id batch, sp_source = ip_source batch, sp_queue_id = k, sp_route_id = route_id,
    sp_flags = ip_flags batch, sp_confirm_mode = ip_confirm_mode batch, sp_record_count = ?n, sp_records = ip_records batch\<rparr>"
  have e: "(if 0 < sp_record_count ?b then sp_record_count ?b else as_u32 (length (sp_records ?b))) = ?n" by simp
  have n: "?n = length (ip_records batch)" using l by (simp add: as_u32_def u32_max_def)
  have c: "publish_count ?b = length (ip_records batch)" using n by (simp add: publish_count_def as_u32_def)
  obtain q where q: "sh_queues sh1 (sp_queue_id ?b) = Some q" using s1 by auto
  have "ok (execute crc sh1 (CmdPublish ?b) output_default) (\<lambda>(sh', out'). shard_reachable crc sh' \<and> only_queue k sh1 sh' \<and>
      seq_at k sh' = seq_at k sh1 + length (ip_records batch) \<and> so_errors out' = [] \<and>
      (\<forall>i<length (ip_records batch). payload_at k sh' (seq_at k sh1 + i) = Some (pb_payload (ip_records batch ! i))))"
    using exec_publish_exact [of crc sh1 ?b q output_default] s1 q d g l c by (simp add: only_queue_def output_default_def)
  then have "ok (execute crc sh1 (CmdPublish ?b) output_default) (\<lambda>(sh', scratch). shard_reachable crc sh' \<and> only_queue k sh sh' \<and>
      so_errors (merge_output out scratch) = so_errors out \<and> published_to {k} (ip_records batch) sh sh')"
    by (rule ok_mono) (use s1 in \<open>auto simp: merge_output_def intro!: published_to_before [of k sh sh1] published_to_one intro: only_queue_trans [of k sh sh1]\<close>)
  then show "ok (let shard_batch = ?b in let n = if 0 < sp_record_count shard_batch then sp_record_count shard_batch else as_u32 (length (sp_records shard_batch)) in
      Option.bind (execute crc sh1 (CmdPublish (shard_batch\<lparr>sp_record_count := n\<rparr>)) output_default) (\<lambda>(sh, scratch). Some (sh, merge_output out scratch)))
    (\<lambda>(sh', out'). shard_reachable crc sh' \<and> only_queue k sh sh' \<and> so_errors out' = so_errors out \<and> published_to {k} (ip_records batch) sh sh')"
    unfolding Let_def e by simp
qed

lemma publish_to_targets_ok:
  "shard_reachable crc sh \<Longrightarrow> sh_durable sh = None \<Longrightarrow> length (ip_records batch) \<le> u32_max \<Longrightarrow>
   \<forall>t\<in>set ts. qt_shard_id t = sh_shard_id sh \<Longrightarrow> distinct (map qt_queue_id ts) \<Longrightarrow>
   \<forall>t\<in>set ts. room_for (length (ip_records batch)) sh (qt_queue_id t) \<Longrightarrow>
   ok (publish_to_targets crc batch rid (sh_shard_id sh) ts sh out) (\<lambda>(sh', out'). shard_reachable crc sh' \<and> sh_durable sh' = None \<and>
     so_errors out' = so_errors out \<and> published_to (qt_queue_id ` set ts) (ip_records batch) sh sh')"
proof (induction ts arbitrary: sh out)
  case Nil
  then show ?case by (simp add: published_to_def)
next
  case (Cons t ts)
  let ?k = "qt_queue_id t" and ?n = "length (ip_records batch)"
  have g: "room_for ?n sh ?k" using Cons.prems(6) by simp
  obtain sh1 where e1: "ensure_queue crc sh ?k = Some sh1" and s1: "shard_reachable crc sh1" "only_queue ?k sh sh1" "seq_at ?k sh1 = seq_at ?k sh" "room_for ?n sh1 ?k"
    using ensure_queue_ok [OF Cons.prems(1), of ?k ?n] g by (auto elim!: okE)
  have d1: "sh_durable sh1 = None" using s1(2) Cons.prems(2) by (simp add: only_queue_def)
  obtain sh2 out2 where e2: "publish_to_queue crc sh1 batch ?k (Some rid) out = Some (sh2, out2)" and s2: "shard_reachable crc sh2"
    "only_queue ?k sh1 sh2" "so_errors out2 = so_errors out" "published_to {?k} (ip_records batch) sh1 sh2"
    using publish_to_queue_ok [OF s1(1) d1 Cons.prems(3) s1(4), of "Some rid" out] by (auto elim!: okE)
  have oq: "only_queue ?k sh sh2" by (rule only_queue_trans [OF s1(2) s2(2)])
  then have f: "sh_durable sh2 = None" "sh_shard_id sh2 = sh_shard_id sh" "\<forall>j. j \<noteq> ?k \<longrightarrow> sh_queues sh2 j = sh_queues sh j"
    using Cons.prems(2) by (simp_all add: only_queue_def)
  have ne: "qt_queue_id u \<noteq> ?k" if "u \<in> set ts" for u using that Cons.prems(5) by (metis distinct.simps(2) image_eqI list.set_map list.simps(9))
  have nk: "?k \<notin> qt_queue_id ` set ts" using ne by (metis imageE)
  have "ok (publish_to_targets crc batch rid (sh_shard_id sh2) ts sh2 out2) (\<lambda>(sh', out'). shard_reachable crc sh' \<and> sh_durable sh' = None \<and>
     so_errors out' = so_errors out2 \<and> published_to (qt_queue_id ` set ts) (ip_records batch) sh2 sh')"
  proof (rule Cons.IH [OF s2(1) f(1) Cons.prems(3)])
    show "\<forall>u\<in>set ts. room_for ?n sh2 (qt_queue_id u)"
      using Cons.prems(6) ne f(3) by (auto simp: room_for_def seq_at_def)
  qed (use Cons.prems(4,5) f(2) in simp_all)
  then have "ok (publish_to_targets crc batch rid (sh_shard_id sh) ts sh2 out2) (\<lambda>(sh', out'). shard_reachable crc sh' \<and> sh_durable sh' = None \<and>
     so_errors out' = so_errors out \<and> published_to (qt_queue_id ` set (t # ts)) (ip_records batch) sh sh')"
    unfolding f(2)
    by (rule ok_mono) (use s2(3) published_to_trans [OF published_to_before [OF s1(2,3) s2(4)] _ ] nk in auto)
  then show ?case using Cons.prems(4) e1 e2 by simp
qed

section \<open>Publishing through the router\<close>

lemma one_shard_distinct:
  fixes ts :: "QueueTarget list"
  assumes "distinct ts" "\<forall>t\<in>set ts. qt_shard_id t = k"
  shows "distinct (map qt_queue_id ts)"
  using assms by (auto simp: distinct_map intro!: inj_onI QueueTarget.equality)

lemma route_publication:
  assumes c: "compile c = Inr (br_route_table br)" and l: "length (rt_route_entries (br_route_table br)) \<le> 2 ^ 32"
    and r: "shard_reachable crc (br_shard br)" and d: "sh_durable (br_shard br) = None"
    and T: "routed c x key = Some T" and res: "resolve_direct (br_route_table br) x key = Some (Inr rr)"
    and tgt: "ip_target batch = ToRoute \<lparr>rp_route_id = rr_route_id rr, rp_route_version = rr_version rr\<rparr>"
    and loc: "\<forall>t\<in>T. qt_shard_id t = sh_shard_id (br_shard br)"
    and len: "length (ip_records batch) \<le> u32_max"
    and room: "\<forall>t\<in>T. room_for (length (ip_records batch)) (br_shard br) (qt_queue_id t)"
  shows "\<exists>out sh'. execute_ingress crc br (IngressPublish batch) = Some (out, br\<lparr>br_shard := sh'\<rparr>) \<and> so_errors out = [] \<and>
    shard_reachable crc sh' \<and> sh_durable sh' = None \<and> T \<noteq> {} \<and> published_to (qt_queue_id ` T) (ip_records batch) (br_shard br) sh'"
proof -
  note rl = route_resolution [OF c l, of x key, unfolded T res option.case ok_Some]
  then have ne: "T \<noteq> {}" by auto
  obtain s ts where g: "get_by_route_id (br_route_table br) (rr_route_id rr) (rr_version rr) = Inr s" and
    ts: "targets_vec s = Some ts" "set ts = T" "distinct ts" "target_count s = length ts"
    using rl [unfolded if_not_P [OF ne]] by blast
  have "target_count s \<noteq> 0" using ts(2,4) ne by auto
  moreover obtain sh' out where "publish_to_targets crc batch (rr_route_id rr) (sh_shard_id (br_shard br)) ts (br_shard br) output_default = Some (sh', out)"
      and p: "shard_reachable crc sh'" "sh_durable sh' = None" "so_errors out = so_errors output_default"
        "published_to (qt_queue_id ` T) (ip_records batch) (br_shard br) sh'"
    using publish_to_targets_ok [OF r d len _ one_shard_distinct [OF ts(3)]] loc room ts(2) by (fastforce elim!: okE)
  ultimately have "execute_ingress crc br (IngressPublish batch) = Some (out, br\<lparr>br_shard := sh'\<rparr>)" using g ts(1) tgt
    by (simp add: execute_ingress_def exec_ingress_publish_def publish_by_route_def)
  then show ?thesis using p ne by (auto simp: output_default_def)
qed


definition demo_table :: RouteTable where
  "demo_table = (case compile demo_config of Inr t \<Rightarrow> t | Inl _ \<Rightarrow> table_new_empty 0)"

definition demo_batch :: "RouteId \<Rightarrow> 64 word \<Rightarrow> IngressPublishBatch" where
  "demo_batch route version = \<lparr>ip_batch_id = 1, ip_source = 2, ip_target = ToRoute \<lparr>rp_route_id = route, rp_route_version = version\<rparr>,
     ip_flags = 0, ip_confirm_mode = ConfirmNone, ip_records = [publish_record_simple 70 5, publish_record_simple 71 6]\<rparr>"

lemma demo_resolves:
  "length (rt_route_entries demo_table) \<le> 2 ^ 32 \<and> (case resolve_direct demo_table 1 [107] of Some (Inr _) \<Rightarrow> True | _ \<Rightarrow> False)"
  by code_simp

abbreviation demo_broker :: InMemoryBroker where
  "demo_broker \<equiv> with_route_table demo_table"

lemma demo_broker_facts:
  "compile demo_config = Inr (br_route_table demo_broker)" "length (rt_route_entries (br_route_table demo_broker)) \<le> 2 ^ 32"
  "shard_reachable demo_crc (br_shard demo_broker)" "sh_durable (br_shard demo_broker) = None" "sh_shard_id (br_shard demo_broker) = 0"
  "seq_at k (br_shard demo_broker) = 0" "n \<le> 1000 \<Longrightarrow> room_for n (br_shard demo_broker) k"
  using demo_compiles demo_resolves sr_new [of demo_crc 0, unfolded shard_new_def]
  by (auto simp: demo_table_def with_route_table_def shard_new_def seq_at_def room_for_def u32_max_def split: sum.splits)


end
