(* ===== verification/Native_Wire.thy ===== *)
theory Native_Wire
  imports Le_Bytes
begin

text \<open>
  The wire layer of the native protocol, \<open>crates/aurum-protocol-native/src/wire\<close> and \<open>codec\<close>: operations, flags, the
  header of a frame, the codec that cuts frames out of a read buffer, and the cursor that the decoders of the message
  bodies read with. A growable buffer is the list of its bytes, integers keep their width. A set of flags is its bits;
  \<open>from_bits\<close> of such a type refuses bits that no flag has.
\<close>

section \<open>Constants, operations, errors and flags\<close>

definition NATIVE_MAGIC :: "16 word" where
  "NATIVE_MAGIC = 0x5141"

definition NATIVE_HEADER_LEN :: "8 word" where
  "NATIVE_HEADER_LEN = 32"

definition NATIVE_PROTOCOL_MAJOR :: "16 word" where
  "NATIVE_PROTOCOL_MAJOR = 0"

definition NATIVE_PROTOCOL_MINOR :: "16 word" where
  "NATIVE_PROTOCOL_MINOR = 1"

definition NATIVE_WIRE_VERSION :: "8 word" where
  "NATIVE_WIRE_VERSION = 1"

definition DEFAULT_MAX_FRAME_LEN :: nat where
  "DEFAULT_MAX_FRAME_LEN = 16 * 1024 * 1024"

definition MAX_EXCHANGE_NAME_LEN :: nat where
  "MAX_EXCHANGE_NAME_LEN = 255"

definition MAX_ROUTING_KEY_LEN :: nat where
  "MAX_ROUTING_KEY_LEN = 4096"

definition MAX_PUBLISH_BATCH_MESSAGES :: "32 word" where
  "MAX_PUBLISH_BATCH_MESSAGES = 4096"

definition MAX_PAYLOAD_SIZE :: "32 word" where
  "MAX_PAYLOAD_SIZE = 16 * 1024 * 1024"

definition MAX_ERROR_MESSAGE_LEN :: nat where
  "MAX_ERROR_MESSAGE_LEN = 4096"

datatype NativeOp =
    OpHello | OpHelloOk | OpResolveRoute | OpRouteResolved | OpPublishBatch | OpPublishConfirmBatch | OpConsumeStart | OpConsumerOk
  | OpCreditUpdate | OpDeliveryBatch | OpCancelConsumer | OpConsumerCancelled | OpAckBatch | OpNackBatch | OpSettlementResultBatch
  | OpHeartbeat | OpHeartbeatAck | OpErrorFrame

fun op_as_u16 :: "NativeOp \<Rightarrow> 16 word" where
  "op_as_u16 OpHello = 1"
| "op_as_u16 OpHelloOk = 2"
| "op_as_u16 OpResolveRoute = 10"
| "op_as_u16 OpRouteResolved = 11"
| "op_as_u16 OpPublishBatch = 20"
| "op_as_u16 OpPublishConfirmBatch = 21"
| "op_as_u16 OpConsumeStart = 30"
| "op_as_u16 OpConsumerOk = 31"
| "op_as_u16 OpCreditUpdate = 32"
| "op_as_u16 OpDeliveryBatch = 33"
| "op_as_u16 OpCancelConsumer = 34"
| "op_as_u16 OpConsumerCancelled = 35"
| "op_as_u16 OpAckBatch = 40"
| "op_as_u16 OpNackBatch = 41"
| "op_as_u16 OpSettlementResultBatch = 42"
| "op_as_u16 OpHeartbeat = 50"
| "op_as_u16 OpHeartbeatAck = 51"
| "op_as_u16 OpErrorFrame = 255"

datatype NativeOpError = UnknownNativeOp "16 word"

definition op_try_from :: "16 word \<Rightarrow> NativeOpError + NativeOp" where
  "op_try_from v =
     (if v = 1 then Inr OpHello else if v = 2 then Inr OpHelloOk
      else if v = 10 then Inr OpResolveRoute else if v = 11 then Inr OpRouteResolved
      else if v = 20 then Inr OpPublishBatch else if v = 21 then Inr OpPublishConfirmBatch
      else if v = 30 then Inr OpConsumeStart else if v = 31 then Inr OpConsumerOk
      else if v = 32 then Inr OpCreditUpdate else if v = 33 then Inr OpDeliveryBatch
      else if v = 34 then Inr OpCancelConsumer else if v = 35 then Inr OpConsumerCancelled
      else if v = 40 then Inr OpAckBatch else if v = 41 then Inr OpNackBatch
      else if v = 42 then Inr OpSettlementResultBatch
      else if v = 50 then Inr OpHeartbeat else if v = 51 then Inr OpHeartbeatAck
      else if v = 255 then Inr OpErrorFrame
      else Inl (UnknownNativeOp v))"

datatype NativeErrorCode =
    CodeMalformedFrame | CodeUnsupportedVersion | CodeUnknownOp | CodeInvalidFlags | CodeBodyTooLarge | CodeRouteNotFound
  | CodeRouteStale | CodeQueueNotFound | CodeConsumerNotFound | CodeInvalidDeliveryTag | CodeInternal

fun error_code_as_u16 :: "NativeErrorCode \<Rightarrow> 16 word" where
  "error_code_as_u16 CodeMalformedFrame = 1"
| "error_code_as_u16 CodeUnsupportedVersion = 2"
| "error_code_as_u16 CodeUnknownOp = 3"
| "error_code_as_u16 CodeInvalidFlags = 4"
| "error_code_as_u16 CodeBodyTooLarge = 5"
| "error_code_as_u16 CodeRouteNotFound = 100"
| "error_code_as_u16 CodeRouteStale = 101"
| "error_code_as_u16 CodeQueueNotFound = 102"
| "error_code_as_u16 CodeConsumerNotFound = 103"
| "error_code_as_u16 CodeInvalidDeliveryTag = 104"
| "error_code_as_u16 CodeInternal = 500"

definition error_code_try_from :: "16 word \<Rightarrow> unit + NativeErrorCode" where
  "error_code_try_from v =
     (if v = 1 then Inr CodeMalformedFrame else if v = 2 then Inr CodeUnsupportedVersion
      else if v = 3 then Inr CodeUnknownOp else if v = 4 then Inr CodeInvalidFlags
      else if v = 5 then Inr CodeBodyTooLarge else if v = 100 then Inr CodeRouteNotFound
      else if v = 101 then Inr CodeRouteStale else if v = 102 then Inr CodeQueueNotFound
      else if v = 103 then Inr CodeConsumerNotFound else if v = 104 then Inr CodeInvalidDeliveryTag
      else if v = 500 then Inr CodeInternal else Inl ())"

definition FRAME_NONE :: "16 word" where
  "FRAME_NONE = 0"

definition FRAME_RESPONSE :: "16 word" where
  "FRAME_RESPONSE = push_bit 0 1"

definition FRAME_EVENT :: "16 word" where
  "FRAME_EVENT = push_bit 1 1"

definition FRAME_ERROR :: "16 word" where
  "FRAME_ERROR = push_bit 2 1"

definition FRAME_COMPRESSED :: "16 word" where
  "FRAME_COMPRESSED = push_bit 3 1"

definition FRAME_HAS_EXT :: "16 word" where
  "FRAME_HAS_EXT = push_bit 4 1"

definition FRAME_MORE :: "16 word" where
  "FRAME_MORE = push_bit 5 1"

definition from_bits :: "'a::len word \<Rightarrow> 'a word \<Rightarrow> 'a word option" where
  "from_bits known raw = (if raw AND NOT known = 0 then Some raw else None)"

definition frame_flags_from_bits :: "16 word \<Rightarrow> 16 word option" where
  "frame_flags_from_bits =
     from_bits (FRAME_RESPONSE OR FRAME_EVENT OR FRAME_ERROR OR FRAME_COMPRESSED OR FRAME_HAS_EXT OR FRAME_MORE)"

definition validate_frame_flags :: "16 word \<Rightarrow> NativeErrorCode + unit" where
  "validate_frame_flags flags =
     (if flags AND (FRAME_COMPRESSED OR FRAME_HAS_EXT OR FRAME_MORE) \<noteq> 0 then Inl CodeInvalidFlags else Inr ())"

definition NATIVE_CAPABILITIES_ALL :: "64 word" where
  "NATIVE_CAPABILITIES_ALL = 2 ^ 8 - 1"

definition CAP_ROUTE_ID :: "64 word" where
  "CAP_ROUTE_ID = push_bit 0 1"

definition CAP_PUBLISH_BATCH :: "64 word" where
  "CAP_PUBLISH_BATCH = push_bit 1 1"

definition CAP_ACK_RANGE :: "64 word" where
  "CAP_ACK_RANGE = push_bit 2 1"

definition CAP_NACK_RANGE :: "64 word" where
  "CAP_NACK_RANGE = push_bit 4 1"

definition CAP_DELIVERY_BATCH :: "64 word" where
  "CAP_DELIVERY_BATCH = push_bit 6 1"

definition MSG_PERSISTENT :: "16 word" where
  "MSG_PERSISTENT = push_bit 0 1"

definition NATIVE_MESSAGE_FLAGS_ALL :: "16 word" where
  "NATIVE_MESSAGE_FLAGS_ALL = 2 ^ 3 - 1"

definition NATIVE_REDELIVERED :: "16 word" where
  "NATIVE_REDELIVERED = push_bit 0 1"

definition NATIVE_DELIVERY_FLAGS_ALL :: "16 word" where
  "NATIVE_DELIVERY_FLAGS_ALL = 2 ^ 2 - 1"

definition CONS_MANUAL_ACK :: "16 word" where
  "CONS_MANUAL_ACK = push_bit 0 1"

definition NATIVE_CONSUMER_FLAGS_ALL :: "16 word" where
  "NATIVE_CONSUMER_FLAGS_ALL = 2 ^ 2 - 1"

definition CREDIT_ABSOLUTE :: "16 word" where
  "CREDIT_ABSOLUTE = push_bit 0 1"

definition CREDIT_FLAGS_ALL :: "16 word" where
  "CREDIT_FLAGS_ALL = 2 ^ 1 - 1"

section \<open>The header of a frame\<close>

record NativeFrameHeader =
  fh_magic :: "16 word"
  fh_version :: "8 word"
  fh_header_len :: "8 word"
  fh_op :: "16 word"
  fh_flags :: "16 word"
  fh_stream_id :: "32 word"
  fh_correlation_id :: "64 word"
  fh_body_len :: "32 word"
  fh_reserved :: "32 word"
  fh_reserved2 :: "32 word"

definition frame_header_new :: "NativeOp \<Rightarrow> 16 word \<Rightarrow> 32 word \<Rightarrow> 64 word \<Rightarrow> 32 word \<Rightarrow> NativeFrameHeader" where
  "frame_header_new op flags stream_id correlation_id body_len =
     \<lparr>fh_magic = NATIVE_MAGIC, fh_version = NATIVE_WIRE_VERSION, fh_header_len = NATIVE_HEADER_LEN, fh_op = op_as_u16 op, fh_flags = flags,
      fh_stream_id = stream_id, fh_correlation_id = correlation_id, fh_body_len = body_len, fh_reserved = 0, fh_reserved2 = 0\<rparr>"

definition frame_header_encode :: "NativeFrameHeader \<Rightarrow> byte list \<Rightarrow> byte list" where
  "frame_header_encode h dst = dst @
     to_le_bytes 2 (fh_magic h) @ [fh_version h] @ [fh_header_len h] @ to_le_bytes 2 (fh_op h) @ to_le_bytes 2 (fh_flags h) @
     to_le_bytes 4 (fh_stream_id h) @ to_le_bytes 8 (fh_correlation_id h) @ to_le_bytes 4 (fh_body_len h) @
     to_le_bytes 4 (fh_reserved h) @ to_le_bytes 4 (fh_reserved2 h)"

datatype NativeHeaderError =
    HeaderTruncated | HeaderBadMagic | HeaderUnsupportedVersion | HeaderTooSmall | HeaderInvalidFlags | HeaderUnknownOp "16 word"

definition frame_header_decode :: "byte list \<Rightarrow> (NativeHeaderError + NativeFrameHeader) option" where
  "frame_header_decode src =
     (if length src < unat NATIVE_HEADER_LEN then Some (Inl HeaderTruncated)
      else do {
        cur \<leftarrow> slice 0 (unat NATIVE_HEADER_LEN) src;
        magic \<leftarrow> read_le 2 0 cur;
        if magic \<noteq> NATIVE_MAGIC then Some (Inl HeaderBadMagic) else do {
          version \<leftarrow> read_le 1 2 cur;
          if version \<noteq> NATIVE_WIRE_VERSION then Some (Inl HeaderUnsupportedVersion) else do {
            header_len \<leftarrow> read_le 1 3 cur;
            if header_len < NATIVE_HEADER_LEN then Some (Inl HeaderTooSmall) else do {
              op \<leftarrow> read_le 2 4 cur;
              flags_raw \<leftarrow> read_le 2 6 cur;
              stream_id \<leftarrow> read_le 4 8 cur;
              correlation_id \<leftarrow> read_le 8 12 cur;
              body_len \<leftarrow> read_le 4 20 cur;
              reserved \<leftarrow> read_le 4 24 cur;
              reserved2 \<leftarrow> read_le 4 28 cur;
              Some (case frame_flags_from_bits flags_raw of
                  None \<Rightarrow> Inl HeaderInvalidFlags
                | Some flags \<Rightarrow>
                    (case validate_frame_flags flags of
                       Inl _ \<Rightarrow> Inl HeaderInvalidFlags
                     | Inr _ \<Rightarrow>
                         (case op_try_from op of
                            Inl (UnknownNativeOp v) \<Rightarrow> Inl (HeaderUnknownOp v)
                          | Inr _ \<Rightarrow> Inr \<lparr>fh_magic = magic, fh_version = version, fh_header_len = header_len, fh_op = op, fh_flags = flags,
                              fh_stream_id = stream_id, fh_correlation_id = correlation_id, fh_body_len = body_len,
                              fh_reserved = reserved, fh_reserved2 = reserved2\<rparr>)))
            }
          }
        }
      })"

definition header_op :: "NativeFrameHeader \<Rightarrow> NativeOpError + NativeOp" where
  "header_op h = op_try_from (fh_op h)"

fun header_error_code :: "NativeHeaderError \<Rightarrow> NativeErrorCode" where
  "header_error_code HeaderTruncated = CodeMalformedFrame"
| "header_error_code HeaderBadMagic = CodeMalformedFrame"
| "header_error_code HeaderTooSmall = CodeMalformedFrame"
| "header_error_code HeaderUnsupportedVersion = CodeUnsupportedVersion"
| "header_error_code HeaderInvalidFlags = CodeInvalidFlags"
| "header_error_code (HeaderUnknownOp _) = CodeUnknownOp"

section \<open>Frames and the codec\<close>

record NativeFrame =
  nf_header :: NativeFrameHeader
  nf_body :: "byte list"

datatype NativeDecodeError = DecodeTruncated | DecodeHeader NativeHeaderError | DecodeBodyTooLarge | DecodeFrameTooLarge

datatype NativeEncodeError = EncodeBodyTooLarge

record NativeCodec =
  nc_max_frame_len :: nat

definition codec_default :: NativeCodec where
  "codec_default = \<lparr>nc_max_frame_len = DEFAULT_MAX_FRAME_LEN\<rparr>"

definition codec_decode :: "NativeCodec \<Rightarrow> byte list \<Rightarrow> ((NativeDecodeError + NativeFrame option) \<times> byte list) option" where
  "codec_decode codec src =
     (if length src < unat NATIVE_HEADER_LEN then Some (Inr None, src)
      else do {
        r \<leftarrow> frame_header_decode src;
        case r of
          Inl e \<Rightarrow> Some (Inl (DecodeHeader e), src)
        | Inr header \<Rightarrow>
            (let total = unat NATIVE_HEADER_LEN + unat (fh_body_len header) in
             if nc_max_frame_len codec < total then Some (Inl DecodeFrameTooLarge, src)
             else if length src < total then Some (Inr None, src)
             else do {
               rest \<leftarrow> slice (unat NATIVE_HEADER_LEN) (length src) src;
               body \<leftarrow> slice 0 (unat (fh_body_len header)) rest;
               Some (Inr (Some \<lparr>nf_header = header, nf_body = body\<rparr>), drop (unat (fh_body_len header)) rest)
             })
      })"

definition codec_encode :: "NativeCodec \<Rightarrow> NativeFrame \<Rightarrow> byte list \<Rightarrow> NativeEncodeError + byte list" where
  "codec_encode codec frame dst =
     (if nc_max_frame_len codec < unat NATIVE_HEADER_LEN + length (nf_body frame) then Inl EncodeBodyTooLarge
      else Inr (frame_header_encode ((nf_header frame)\<lparr>fh_body_len := of_nat (length (nf_body frame))\<rparr>) dst @ nf_body frame))"

section \<open>The cursor\<close>

datatype CursorError = UnexpectedEof | StringTooLong nat | InvalidLength | OffsetOutOfBounds | CursorOverflow

record Cursor =
  cu_buf :: "byte list"
  cu_pos :: nat

definition cursor_new :: "byte list \<Rightarrow> Cursor" where
  "cursor_new buf = \<lparr>cu_buf = buf, cu_pos = 0\<rparr>"

definition cursor_remaining :: "Cursor \<Rightarrow> nat" where
  "cursor_remaining cur = length (cu_buf cur) - cu_pos cur"

definition and_then :: "'e + 'a \<Rightarrow> ('a \<Rightarrow> 'e + 'b) \<Rightarrow> 'e + 'b" where
  "and_then r f = (case r of Inl e \<Rightarrow> Inl e | Inr x \<Rightarrow> f x)"

definition ok_or :: "'a option \<Rightarrow> 'e \<Rightarrow> 'e + 'a" where
  "ok_or m e = (case m of None \<Rightarrow> Inl e | Some x \<Rightarrow> Inr x)"

definition read_u8 :: "Cursor \<Rightarrow> CursorError + (byte \<times> Cursor)" where
  "read_u8 cur = (if length (cu_buf cur) \<le> cu_pos cur then Inl UnexpectedEof
     else Inr (cu_buf cur ! cu_pos cur, cur\<lparr>cu_pos := cu_pos cur + 1\<rparr>))"

definition read_bytes :: "nat \<Rightarrow> Cursor \<Rightarrow> CursorError + (byte list \<times> Cursor)" where
  "read_bytes len cur = (if cursor_remaining cur < len then Inl UnexpectedEof
     else Inr (take len (drop (cu_pos cur) (cu_buf cur)), cur\<lparr>cu_pos := cu_pos cur + len\<rparr>))"

definition read_u16_le :: "Cursor \<Rightarrow> CursorError + (16 word \<times> Cursor)" where
  "read_u16_le cur = (if cursor_remaining cur < 2 then Inl UnexpectedEof
     else Inr (from_le_bytes (take 2 (drop (cu_pos cur) (cu_buf cur))), cur\<lparr>cu_pos := cu_pos cur + 2\<rparr>))"

definition read_u32_le :: "Cursor \<Rightarrow> CursorError + (32 word \<times> Cursor)" where
  "read_u32_le cur = (if cursor_remaining cur < 4 then Inl UnexpectedEof
     else Inr (from_le_bytes (take 4 (drop (cu_pos cur) (cu_buf cur))), cur\<lparr>cu_pos := cu_pos cur + 4\<rparr>))"

definition read_u64_le :: "Cursor \<Rightarrow> CursorError + (64 word \<times> Cursor)" where
  "read_u64_le cur = (if cursor_remaining cur < 8 then Inl UnexpectedEof
     else Inr (from_le_bytes (take 8 (drop (cu_pos cur) (cu_buf cur))), cur\<lparr>cu_pos := cu_pos cur + 8\<rparr>))"

definition read_string :: "nat \<Rightarrow> Cursor \<Rightarrow> CursorError + (byte list \<times> Cursor)" where
  "read_string max_len cur = and_then (read_u16_le cur) (\<lambda>(len, cur).
     if max_len < unat len then Inl (StringTooLong max_len) else read_bytes (unat len) cur)"

definition check_bounds :: "Cursor \<Rightarrow> 32 word \<Rightarrow> 32 word \<Rightarrow> CursorError + unit" where
  "check_bounds cur offset len =
     (if u32_max < unat offset + unat len then Inl CursorOverflow
      else if length (cu_buf cur) < unat offset + unat len then Inl OffsetOutOfBounds
      else Inr ())"

definition write_string :: "byte list \<Rightarrow> byte list \<Rightarrow> nat \<Rightarrow> byte list \<times> (CursorError + unit)" where
  "write_string dst bytes max_len =
     (if max_len < length bytes then (dst, Inl (StringTooLong max_len))
      else (dst @ to_le_bytes 2 (of_nat (length bytes) :: 16 word) @ bytes, Inr ()))"

definition pack_route_id :: "32 word \<Rightarrow> 32 word \<Rightarrow> 64 word" where
  "pack_route_id index generation = push_bit 32 (ucast generation) OR ucast index"

definition unpack_route_id :: "64 word \<Rightarrow> 32 word \<times> 32 word" where
  "unpack_route_id v = (ucast (v AND 0xFFFFFFFF), ucast (drop_bit 32 v))"

end
