(* ===== verification/Native_Message.thy ===== *)
theory Native_Message
  imports Native_Wire
begin

text \<open>
  The bodies of the native protocol, \<open>crates/aurum-protocol-native/src/message\<close>: one record and one pair of \<open>encode\<close> and
  \<open>decode\<close> per message. An encoder takes the buffer it appends to and returns it, also when it fails half way. The
  only places where these functions index a buffer directly or multiply without a check are the payloads after a table
  of descriptors and the length of such a table; there the result is \<open>None\<close> for a panic. Reserving capacity for a
  vector has no effect on its content.
\<close>

section \<open>Hello\<close>

record HelloBody =
  hb_client_major :: "16 word"
  hb_client_minor :: "16 word"
  hb_client_capabilities :: "64 word"
  hb_client_name :: "byte list"

definition hello_decode :: "byte list \<Rightarrow> CursorError + HelloBody" where
  "hello_decode body =
     and_then (read_u16_le (cursor_new body)) (\<lambda>(client_major, cur).
     and_then (read_u16_le cur) (\<lambda>(client_minor, cur).
     and_then (read_u64_le cur) (\<lambda>(caps, cur).
     and_then (ok_or (from_bits NATIVE_CAPABILITIES_ALL caps) InvalidLength) (\<lambda>client_capabilities.
     and_then (read_string 255 cur) (\<lambda>(client_name, cur).
       Inr \<lparr>hb_client_major = client_major, hb_client_minor = client_minor, hb_client_capabilities = client_capabilities,
            hb_client_name = client_name\<rparr>)))))"

definition hello_encode :: "HelloBody \<Rightarrow> byte list \<Rightarrow> byte list \<times> (CursorError + unit)" where
  "hello_encode b dst =
     write_string (dst @ to_le_bytes 2 (hb_client_major b) @ to_le_bytes 2 (hb_client_minor b) @ to_le_bytes 8 (hb_client_capabilities b))
       (hb_client_name b) 255"

record HelloOkBody =
  ho_server_major :: "16 word"
  ho_server_minor :: "16 word"
  ho_server_capabilities :: "64 word"
  ho_connection_id :: "64 word"

definition hello_ok_default_server :: "64 word \<Rightarrow> HelloOkBody" where
  "hello_ok_default_server connection_id =
     \<lparr>ho_server_major = NATIVE_PROTOCOL_MAJOR, ho_server_minor = NATIVE_PROTOCOL_MINOR,
      ho_server_capabilities = CAP_ROUTE_ID OR CAP_PUBLISH_BATCH OR CAP_ACK_RANGE OR CAP_NACK_RANGE OR CAP_DELIVERY_BATCH,
      ho_connection_id = connection_id\<rparr>"

definition hello_ok_decode :: "byte list \<Rightarrow> CursorError + HelloOkBody" where
  "hello_ok_decode body =
     and_then (read_u16_le (cursor_new body)) (\<lambda>(server_major, cur).
     and_then (read_u16_le cur) (\<lambda>(server_minor, cur).
     and_then (read_u64_le cur) (\<lambda>(caps, cur).
     and_then (ok_or (from_bits NATIVE_CAPABILITIES_ALL caps) InvalidLength) (\<lambda>server_capabilities.
     and_then (read_u64_le cur) (\<lambda>(connection_id, cur).
       Inr \<lparr>ho_server_major = server_major, ho_server_minor = server_minor, ho_server_capabilities = server_capabilities,
            ho_connection_id = connection_id\<rparr>)))))"

definition hello_ok_encode :: "HelloOkBody \<Rightarrow> byte list \<Rightarrow> byte list" where
  "hello_ok_encode b dst =
     dst @ to_le_bytes 2 (ho_server_major b) @ to_le_bytes 2 (ho_server_minor b) @ to_le_bytes 8 (ho_server_capabilities b) @
     to_le_bytes 8 (ho_connection_id b)"

section \<open>Routes\<close>

record ResolveRouteBody =
  rrb_route_table_version_hint :: "64 word"
  rrb_exchange_id_hint :: "32 word"
  rrb_exchange :: "byte list"
  rrb_routing_key :: "byte list"

definition resolve_route_decode :: "byte list \<Rightarrow> CursorError + ResolveRouteBody" where
  "resolve_route_decode body =
     and_then (read_u64_le (cursor_new body)) (\<lambda>(hint, cur).
     and_then (read_u32_le cur) (\<lambda>(exchange_id_hint, cur).
     and_then (read_u16_le cur) (\<lambda>(exchange_len, cur).
     and_then (read_u16_le cur) (\<lambda>(routing_key_len, cur).
       if MAX_EXCHANGE_NAME_LEN < unat exchange_len then Inl (StringTooLong MAX_EXCHANGE_NAME_LEN)
       else if MAX_ROUTING_KEY_LEN < unat routing_key_len then Inl (StringTooLong MAX_ROUTING_KEY_LEN)
       else
         and_then (read_bytes (unat exchange_len) cur) (\<lambda>(exchange, cur).
         and_then (read_bytes (unat routing_key_len) cur) (\<lambda>(routing_key, cur).
           Inr \<lparr>rrb_route_table_version_hint = hint, rrb_exchange_id_hint = exchange_id_hint, rrb_exchange = exchange,
                rrb_routing_key = routing_key\<rparr>))))))"

definition resolve_route_encode :: "ResolveRouteBody \<Rightarrow> byte list \<Rightarrow> byte list \<times> (CursorError + unit)" where
  "resolve_route_encode b dst =
     (if MAX_EXCHANGE_NAME_LEN < length (rrb_exchange b) \<or> MAX_ROUTING_KEY_LEN < length (rrb_routing_key b)
      then (dst, Inl (StringTooLong MAX_EXCHANGE_NAME_LEN))
      else (dst @ to_le_bytes 8 (rrb_route_table_version_hint b) @ to_le_bytes 4 (rrb_exchange_id_hint b) @
              to_le_bytes 2 (of_nat (length (rrb_exchange b)) :: 16 word) @ to_le_bytes 2 (of_nat (length (rrb_routing_key b)) :: 16 word) @
              rrb_exchange b @ rrb_routing_key b, Inr ()))"

record RouteResolvedBody =
  rsb_route_table_version :: "64 word"
  rsb_route_id_packed :: "64 word"

definition route_resolved_parts :: "RouteResolvedBody \<Rightarrow> 32 word \<times> 32 word" where
  "route_resolved_parts b = unpack_route_id (rsb_route_id_packed b)"

definition route_resolved_decode :: "byte list \<Rightarrow> CursorError + RouteResolvedBody" where
  "route_resolved_decode body =
     and_then (read_u64_le (cursor_new body)) (\<lambda>(version, cur).
     and_then (read_u64_le cur) (\<lambda>(packed, cur).
       Inr \<lparr>rsb_route_table_version = version, rsb_route_id_packed = packed\<rparr>))"

definition route_resolved_encode :: "RouteResolvedBody \<Rightarrow> byte list \<Rightarrow> byte list" where
  "route_resolved_encode b dst = dst @ to_le_bytes 8 (rsb_route_table_version b) @ to_le_bytes 8 (rsb_route_id_packed b)"

definition route_resolved_from_route :: "64 word \<Rightarrow> 32 word \<Rightarrow> 32 word \<Rightarrow> RouteResolvedBody" where
  "route_resolved_from_route version index generation =
     \<lparr>rsb_route_table_version = version, rsb_route_id_packed = pack_route_id index generation\<rparr>"

section \<open>Publishing\<close>

record PublishDescriptor =
  pd_payload_offset :: "32 word"
  pd_payload_len :: "32 word"
  pd_message_flags :: "16 word"

record PublishBatchBody =
  pbb_route_table_version :: "64 word"
  pbb_route_id_packed :: "64 word"
  pbb_batch_flags :: "32 word"
  pbb_descriptors :: "PublishDescriptor list"
  pbb_payloads :: "byte list"

fun publish_descriptors_decode :: "nat \<Rightarrow> Cursor \<Rightarrow> CursorError + (PublishDescriptor list \<times> Cursor)" where
  "publish_descriptors_decode 0 cur = Inr ([], cur)"
| "publish_descriptors_decode (Suc n) cur =
     and_then (read_u32_le cur) (\<lambda>(payload_offset, cur).
     and_then (read_u32_le cur) (\<lambda>(payload_len, cur).
     and_then (read_u16_le cur) (\<lambda>(flags_raw, cur).
     and_then (read_u16_le cur) (\<lambda>(reserved, cur).
       if MAX_PAYLOAD_SIZE < payload_len then Inl InvalidLength
       else
         and_then (check_bounds cur payload_offset payload_len) (\<lambda>_.
         and_then (ok_or (from_bits NATIVE_MESSAGE_FLAGS_ALL flags_raw) InvalidLength) (\<lambda>message_flags.
         and_then (publish_descriptors_decode n cur) (\<lambda>(ds, cur).
           Inr (\<lparr>pd_payload_offset = payload_offset, pd_payload_len = payload_len, pd_message_flags = message_flags\<rparr> # ds, cur))))))))"

definition publish_batch_fields :: "byte list \<Rightarrow> CursorError + (64 word \<times> 64 word \<times> 32 word \<times> PublishDescriptor list \<times> nat)" where
  "publish_batch_fields body =
     and_then (read_u64_le (cursor_new body)) (\<lambda>(version, cur).
     and_then (read_u64_le cur) (\<lambda>(packed, cur).
     and_then (read_u32_le cur) (\<lambda>(batch_flags, cur).
     and_then (read_u32_le cur) (\<lambda>(n, cur).
     and_then (read_u32_le cur) (\<lambda>(descriptor_table_len, cur).
       if n = 0 \<or> MAX_PUBLISH_BATCH_MESSAGES < n then Inl InvalidLength
       else if u32_max < unat n * 12 then Inl CursorOverflow
       else if unat descriptor_table_len \<noteq> unat n * 12 then Inl InvalidLength
       else and_then (publish_descriptors_decode (unat n) cur) (\<lambda>(ds, cur). Inr (version, packed, batch_flags, ds, cu_pos cur)))))))"

definition publish_batch_decode :: "byte list \<Rightarrow> (CursorError + PublishBatchBody) option" where
  "publish_batch_decode body =
     (case publish_batch_fields body of
        Inl e \<Rightarrow> Some (Inl e)
      | Inr (version, packed, batch_flags, ds, payload_start) \<Rightarrow> do {
          payloads \<leftarrow> slice payload_start (length body) body;
          Some (Inr \<lparr>pbb_route_table_version = version, pbb_route_id_packed = packed, pbb_batch_flags = batch_flags, pbb_descriptors = ds,
            pbb_payloads = payloads\<rparr>)
        })"

fun publish_descriptors_encode :: "PublishDescriptor list \<Rightarrow> byte list \<Rightarrow> byte list \<times> (CursorError + unit)" where
  "publish_descriptors_encode [] dst = (dst, Inr ())"
| "publish_descriptors_encode (d # ds) dst =
     (if MAX_PAYLOAD_SIZE < pd_payload_len d then (dst, Inl InvalidLength)
      else publish_descriptors_encode ds
        (dst @ to_le_bytes 4 (pd_payload_offset d) @ to_le_bytes 4 (pd_payload_len d) @ to_le_bytes 2 (pd_message_flags d) @
         to_le_bytes 2 (0 :: 16 word)))"

definition publish_batch_encode :: "PublishBatchBody \<Rightarrow> byte list \<Rightarrow> (byte list \<times> (CursorError + unit)) option" where
  "publish_batch_encode b dst =
     (let n = of_nat (length (pbb_descriptors b)) :: 32 word in
      if n = 0 \<or> MAX_PUBLISH_BATCH_MESSAGES < n then Some (dst, Inl InvalidLength)
      else do {
        guard (unat n * 12 \<le> u32_max);
        let (dst, r) = publish_descriptors_encode (pbb_descriptors b)
          (dst @ to_le_bytes 8 (pbb_route_table_version b) @ to_le_bytes 8 (pbb_route_id_packed b) @ to_le_bytes 4 (pbb_batch_flags b) @
           to_le_bytes 4 n @ to_le_bytes 4 (n * 12));
        Some (case r of Inl e \<Rightarrow> (dst, Inl e) | Inr _ \<Rightarrow> (dst @ pbb_payloads b, Inr ()))
      })"

definition payload_slice :: "PublishBatchBody \<Rightarrow> PublishDescriptor \<Rightarrow> CursorError + byte list" where
  "payload_slice b d =
     (let start = unat (pd_payload_offset d); len = unat (pd_payload_len d) in
      if u64_max < start + len then Inl CursorOverflow
      else ok_or (slice start (start + len) (pbb_payloads b)) OffsetOutOfBounds)"

record PublishConfirmBatchBody =
  pcb_accepted_count :: "32 word"
  pcb_failed_count :: "32 word"

definition publish_confirm_decode :: "byte list \<Rightarrow> CursorError + PublishConfirmBatchBody" where
  "publish_confirm_decode body =
     and_then (read_u32_le (cursor_new body)) (\<lambda>(accepted, cur).
     and_then (read_u32_le cur) (\<lambda>(failed, cur). Inr \<lparr>pcb_accepted_count = accepted, pcb_failed_count = failed\<rparr>))"

definition publish_confirm_encode :: "PublishConfirmBatchBody \<Rightarrow> byte list \<Rightarrow> byte list" where
  "publish_confirm_encode b dst = dst @ to_le_bytes 4 (pcb_accepted_count b) @ to_le_bytes 4 (pcb_failed_count b)"

section \<open>Consuming\<close>

record ConsumeStartBody =
  csb_queue_id :: "32 word"
  csb_consumer_id_hint :: "32 word"
  csb_prefetch :: "32 word"
  csb_consumer_flags :: "16 word"

definition consume_start_decode :: "byte list \<Rightarrow> CursorError + ConsumeStartBody" where
  "consume_start_decode body =
     and_then (read_u32_le (cursor_new body)) (\<lambda>(queue_id, cur).
     and_then (read_u32_le cur) (\<lambda>(consumer_id_hint, cur).
     and_then (read_u32_le cur) (\<lambda>(prefetch, cur).
     and_then (read_u16_le cur) (\<lambda>(flags_raw, cur).
     and_then (ok_or (from_bits NATIVE_CONSUMER_FLAGS_ALL flags_raw) InvalidLength) (\<lambda>consumer_flags.
       Inr \<lparr>csb_queue_id = queue_id, csb_consumer_id_hint = consumer_id_hint, csb_prefetch = prefetch,
            csb_consumer_flags = consumer_flags\<rparr>)))))"

definition consume_start_encode :: "ConsumeStartBody \<Rightarrow> byte list \<Rightarrow> byte list" where
  "consume_start_encode b dst =
     dst @ to_le_bytes 4 (csb_queue_id b) @ to_le_bytes 4 (csb_consumer_id_hint b) @ to_le_bytes 4 (csb_prefetch b) @
     to_le_bytes 2 (csb_consumer_flags b)"

record ConsumerOkBody =
  cob_queue_id :: "32 word"
  cob_consumer_id :: "64 word"
  cob_effective_prefetch :: "32 word"

definition consumer_ok_decode :: "byte list \<Rightarrow> CursorError + ConsumerOkBody" where
  "consumer_ok_decode body =
     and_then (read_u32_le (cursor_new body)) (\<lambda>(queue_id, cur).
     and_then (read_u64_le cur) (\<lambda>(consumer_id, cur).
     and_then (read_u32_le cur) (\<lambda>(prefetch, cur).
       Inr \<lparr>cob_queue_id = queue_id, cob_consumer_id = consumer_id, cob_effective_prefetch = prefetch\<rparr>)))"

definition consumer_ok_encode :: "ConsumerOkBody \<Rightarrow> byte list \<Rightarrow> byte list" where
  "consumer_ok_encode b dst =
     dst @ to_le_bytes 4 (cob_queue_id b) @ to_le_bytes 8 (cob_consumer_id b) @ to_le_bytes 4 (cob_effective_prefetch b)"

record CreditUpdateBody =
  cub_consumer_id :: "64 word"
  cub_credit_delta :: "32 word"
  cub_flags :: "16 word"

definition credit_update_decode :: "byte list \<Rightarrow> CursorError + CreditUpdateBody" where
  "credit_update_decode body =
     and_then (read_u64_le (cursor_new body)) (\<lambda>(consumer_id, cur).
     and_then (read_u32_le cur) (\<lambda>(credit_delta, cur).
     and_then (read_u16_le cur) (\<lambda>(flags_raw, cur).
     and_then (ok_or (from_bits CREDIT_FLAGS_ALL flags_raw) InvalidLength) (\<lambda>flags.
       Inr \<lparr>cub_consumer_id = consumer_id, cub_credit_delta = credit_delta, cub_flags = flags\<rparr>))))"

definition credit_update_encode :: "CreditUpdateBody \<Rightarrow> byte list \<Rightarrow> byte list" where
  "credit_update_encode b dst =
     dst @ to_le_bytes 8 (cub_consumer_id b) @ to_le_bytes 4 (cub_credit_delta b) @ to_le_bytes 2 (cub_flags b)"

record CancelConsumerBody =
  ccb_consumer_id :: "64 word"
  ccb_cancel_disposition :: byte

definition cancel_consumer_decode :: "byte list \<Rightarrow> CursorError + CancelConsumerBody" where
  "cancel_consumer_decode body =
     and_then (read_u64_le (cursor_new body)) (\<lambda>(consumer_id, cur).
     and_then (read_u8 cur) (\<lambda>(disposition, cur). Inr \<lparr>ccb_consumer_id = consumer_id, ccb_cancel_disposition = disposition\<rparr>))"

definition cancel_consumer_encode :: "CancelConsumerBody \<Rightarrow> byte list \<Rightarrow> byte list" where
  "cancel_consumer_encode b dst = dst @ to_le_bytes 8 (ccb_consumer_id b) @ [ccb_cancel_disposition b]"

section \<open>Deliveries\<close>

record DeliveryDescriptor =
  dd_delivery_tag :: "64 word"
  dd_payload_offset :: "32 word"
  dd_payload_len :: "32 word"
  dd_delivery_flags :: "16 word"

record DeliveryBatchBody =
  dbb_consumer_id :: "64 word"
  dbb_descriptors :: "DeliveryDescriptor list"
  dbb_payloads :: "byte list"

fun delivery_descriptors_decode :: "nat \<Rightarrow> Cursor \<Rightarrow> CursorError + (DeliveryDescriptor list \<times> Cursor)" where
  "delivery_descriptors_decode 0 cur = Inr ([], cur)"
| "delivery_descriptors_decode (Suc n) cur =
     and_then (read_u64_le cur) (\<lambda>(delivery_tag, cur).
     and_then (read_u32_le cur) (\<lambda>(payload_offset, cur).
     and_then (read_u32_le cur) (\<lambda>(payload_len, cur).
     and_then (read_u16_le cur) (\<lambda>(flags_raw, cur).
     and_then (read_u16_le cur) (\<lambda>(reserved, cur).
     and_then (check_bounds cur payload_offset payload_len) (\<lambda>_.
     and_then (ok_or (from_bits NATIVE_DELIVERY_FLAGS_ALL flags_raw) InvalidLength) (\<lambda>delivery_flags.
     and_then (delivery_descriptors_decode n cur) (\<lambda>(ds, cur).
       Inr (\<lparr>dd_delivery_tag = delivery_tag, dd_payload_offset = payload_offset, dd_payload_len = payload_len,
             dd_delivery_flags = delivery_flags\<rparr> # ds, cur)))))))))"

definition delivery_batch_decode :: "byte list \<Rightarrow> (CursorError + DeliveryBatchBody) option" where
  "delivery_batch_decode body =
     (case
        and_then (read_u64_le (cursor_new body)) (\<lambda>(consumer_id, cur).
        and_then (read_u32_le cur) (\<lambda>(n, cur).
        and_then (read_u32_le cur) (\<lambda>(descriptor_table_len, cur).
          if u32_max < unat n * 20 then Inl CursorOverflow
          else if unat descriptor_table_len \<noteq> unat n * 20 \<or> n = 0 then Inl InvalidLength
          else and_then (delivery_descriptors_decode (unat n) cur) (\<lambda>(ds, cur). Inr (consumer_id, ds, cu_pos cur)))))
      of Inl e \<Rightarrow> Some (Inl e)
       | Inr (consumer_id, ds, payload_start) \<Rightarrow> do {
           payloads \<leftarrow> slice payload_start (length body) body;
           Some (Inr \<lparr>dbb_consumer_id = consumer_id, dbb_descriptors = ds, dbb_payloads = payloads\<rparr>)
         })"

fun delivery_descriptors_encode :: "DeliveryDescriptor list \<Rightarrow> byte list \<Rightarrow> byte list" where
  "delivery_descriptors_encode [] dst = dst"
| "delivery_descriptors_encode (d # ds) dst =
     delivery_descriptors_encode ds
       (dst @ to_le_bytes 8 (dd_delivery_tag d) @ to_le_bytes 4 (dd_payload_offset d) @ to_le_bytes 4 (dd_payload_len d) @
        to_le_bytes 2 (dd_delivery_flags d) @ to_le_bytes 2 (0 :: 16 word))"

definition delivery_batch_encode :: "DeliveryBatchBody \<Rightarrow> byte list \<Rightarrow> (byte list \<times> (CursorError + unit)) option" where
  "delivery_batch_encode b dst =
     (let n = of_nat (length (dbb_descriptors b)) :: 32 word in
      if n = 0 then Some (dst, Inl InvalidLength)
      else do {
        guard (unat n * 20 \<le> u32_max);
        Some (delivery_descriptors_encode (dbb_descriptors b)
                (dst @ to_le_bytes 8 (dbb_consumer_id b) @ to_le_bytes 4 n @ to_le_bytes 4 (n * 20)) @ dbb_payloads b, Inr ())
      })"

section \<open>Settlements and errors\<close>

datatype NativeAckOpKind = KindOne | KindRange | KindMultipleUpTo

fun ack_op_kind_as_u8 :: "NativeAckOpKind \<Rightarrow> byte" where
  "ack_op_kind_as_u8 KindOne = 1"
| "ack_op_kind_as_u8 KindRange = 2"
| "ack_op_kind_as_u8 KindMultipleUpTo = 3"

definition ack_op_kind_try_from :: "byte \<Rightarrow> CursorError + NativeAckOpKind" where
  "ack_op_kind_try_from v =
     (if v = 1 then Inr KindOne else if v = 2 then Inr KindRange else if v = 3 then Inr KindMultipleUpTo else Inl InvalidLength)"

datatype NativeAckOp = NativeAckOne "64 word" | NativeAckRange "64 word" "32 word" | NativeAckMultiple "64 word"

record AckBatchBody =
  abb_consumer_id :: "64 word"
  abb_flags :: "16 word"
  abb_ops :: "NativeAckOp list"

fun ack_ops_decode :: "nat \<Rightarrow> Cursor \<Rightarrow> CursorError + (NativeAckOp list \<times> Cursor)" where
  "ack_ops_decode 0 cur = Inr ([], cur)"
| "ack_ops_decode (Suc n) cur =
     and_then (read_u8 cur) (\<lambda>(k, cur).
     and_then (ack_op_kind_try_from k) (\<lambda>kind.
     and_then (read_u8 cur) (\<lambda>(_, cur).
     and_then (read_u16_le cur) (\<lambda>(_, cur).
     and_then (read_u64_le cur) (\<lambda>(tag, cur).
     and_then (read_u32_le cur) (\<lambda>(len_or_zero, cur).
     and_then (read_u32_le cur) (\<lambda>(_, cur).
     and_then (ack_ops_decode n cur) (\<lambda>(ops, cur).
       Inr ((case kind of KindOne \<Rightarrow> NativeAckOne tag | KindRange \<Rightarrow> NativeAckRange tag len_or_zero
             | KindMultipleUpTo \<Rightarrow> NativeAckMultiple tag) # ops, cur)))))))))"

definition ack_batch_decode :: "byte list \<Rightarrow> CursorError + AckBatchBody" where
  "ack_batch_decode body =
     and_then (read_u64_le (cursor_new body)) (\<lambda>(consumer_id, cur).
     and_then (read_u32_le cur) (\<lambda>(op_count, cur).
     and_then (read_u16_le cur) (\<lambda>(flags, cur).
     and_then (ack_ops_decode (unat op_count) cur) (\<lambda>(ops, cur).
       Inr \<lparr>abb_consumer_id = consumer_id, abb_flags = flags, abb_ops = ops\<rparr>))))"

definition put_op :: "NativeAckOpKind \<Rightarrow> byte \<Rightarrow> 64 word \<Rightarrow> 32 word \<Rightarrow> byte list" where
  "put_op kind second tag len =
     [ack_op_kind_as_u8 kind] @ [second] @ to_le_bytes 2 (0 :: 16 word) @ to_le_bytes 8 tag @ to_le_bytes 4 len @ to_le_bytes 4 (0 :: 32 word)"

fun ack_ops_encode :: "NativeAckOp list \<Rightarrow> byte list \<Rightarrow> byte list" where
  "ack_ops_encode [] dst = dst"
| "ack_ops_encode (NativeAckOne tag # ops) dst = ack_ops_encode ops (dst @ put_op KindOne 0 tag 0)"
| "ack_ops_encode (NativeAckRange first_tag len # ops) dst = ack_ops_encode ops (dst @ put_op KindRange 0 first_tag len)"
| "ack_ops_encode (NativeAckMultiple tag # ops) dst = ack_ops_encode ops (dst @ put_op KindMultipleUpTo 0 tag 0)"

definition ack_batch_encode :: "AckBatchBody \<Rightarrow> byte list \<Rightarrow> byte list" where
  "ack_batch_encode b dst =
     ack_ops_encode (abb_ops b)
       (dst @ to_le_bytes 8 (abb_consumer_id b) @ to_le_bytes 4 (of_nat (length (abb_ops b)) :: 32 word) @ to_le_bytes 2 (abb_flags b))"

datatype NativeNackDisposition = NativeRequeue | NativeDrop | NativeDeadLetter

fun nack_disposition_as_u8 :: "NativeNackDisposition \<Rightarrow> byte" where
  "nack_disposition_as_u8 NativeRequeue = 1"
| "nack_disposition_as_u8 NativeDrop = 2"
| "nack_disposition_as_u8 NativeDeadLetter = 3"

definition nack_disposition_try_from :: "byte \<Rightarrow> CursorError + NativeNackDisposition" where
  "nack_disposition_try_from v =
     (if v = 1 then Inr NativeRequeue else if v = 2 then Inr NativeDrop else if v = 3 then Inr NativeDeadLetter else Inl InvalidLength)"

datatype NativeNackOp =
    NativeNackOne "64 word" NativeNackDisposition
  | NativeNackRange "64 word" "32 word" NativeNackDisposition
  | NativeNackMultiple "64 word" NativeNackDisposition

record NackBatchBody =
  nbb_consumer_id :: "64 word"
  nbb_flags :: "16 word"
  nbb_ops :: "NativeNackOp list"

fun nack_ops_decode :: "nat \<Rightarrow> Cursor \<Rightarrow> CursorError + (NativeNackOp list \<times> Cursor)" where
  "nack_ops_decode 0 cur = Inr ([], cur)"
| "nack_ops_decode (Suc n) cur =
     and_then (read_u8 cur) (\<lambda>(k, cur).
     and_then (ack_op_kind_try_from k) (\<lambda>kind.
     and_then (read_u8 cur) (\<lambda>(d, cur).
     and_then (nack_disposition_try_from d) (\<lambda>disposition.
     and_then (read_u16_le cur) (\<lambda>(_, cur).
     and_then (read_u64_le cur) (\<lambda>(tag, cur).
     and_then (read_u32_le cur) (\<lambda>(len_or_zero, cur).
     and_then (read_u32_le cur) (\<lambda>(_, cur).
     and_then (nack_ops_decode n cur) (\<lambda>(ops, cur).
       Inr ((case kind of KindOne \<Rightarrow> NativeNackOne tag disposition | KindRange \<Rightarrow> NativeNackRange tag len_or_zero disposition
             | KindMultipleUpTo \<Rightarrow> NativeNackMultiple tag disposition) # ops, cur))))))))))"

definition nack_batch_decode :: "byte list \<Rightarrow> CursorError + NackBatchBody" where
  "nack_batch_decode body =
     and_then (read_u64_le (cursor_new body)) (\<lambda>(consumer_id, cur).
     and_then (read_u32_le cur) (\<lambda>(op_count, cur).
     and_then (read_u16_le cur) (\<lambda>(flags, cur).
     and_then (nack_ops_decode (unat op_count) cur) (\<lambda>(ops, cur).
       Inr \<lparr>nbb_consumer_id = consumer_id, nbb_flags = flags, nbb_ops = ops\<rparr>))))"

fun nack_ops_encode :: "NativeNackOp list \<Rightarrow> byte list \<Rightarrow> byte list" where
  "nack_ops_encode [] dst = dst"
| "nack_ops_encode (NativeNackOne tag disposition # ops) dst =
     nack_ops_encode ops (dst @ put_op KindOne (nack_disposition_as_u8 disposition) tag 0)"
| "nack_ops_encode (NativeNackRange first_tag len disposition # ops) dst =
     nack_ops_encode ops (dst @ put_op KindRange (nack_disposition_as_u8 disposition) first_tag len)"
| "nack_ops_encode (NativeNackMultiple tag disposition # ops) dst =
     nack_ops_encode ops (dst @ put_op KindMultipleUpTo (nack_disposition_as_u8 disposition) tag 0)"

definition nack_batch_encode :: "NackBatchBody \<Rightarrow> byte list \<Rightarrow> byte list" where
  "nack_batch_encode b dst =
     nack_ops_encode (nbb_ops b)
       (dst @ to_le_bytes 8 (nbb_consumer_id b) @ to_le_bytes 4 (of_nat (length (nbb_ops b)) :: 32 word) @ to_le_bytes 2 (nbb_flags b))"

record SettlementResultBatchBody =
  srb_consumer_id :: "64 word"
  srb_settled :: "32 word"
  srb_kind :: byte

definition settlement_result_decode :: "byte list \<Rightarrow> CursorError + SettlementResultBatchBody" where
  "settlement_result_decode body =
     and_then (read_u64_le (cursor_new body)) (\<lambda>(consumer_id, cur).
     and_then (read_u32_le cur) (\<lambda>(settled, cur).
     and_then (read_u8 cur) (\<lambda>(kind, cur). Inr \<lparr>srb_consumer_id = consumer_id, srb_settled = settled, srb_kind = kind\<rparr>)))"

definition settlement_result_encode :: "SettlementResultBatchBody \<Rightarrow> byte list \<Rightarrow> byte list" where
  "settlement_result_encode b dst = dst @ to_le_bytes 8 (srb_consumer_id b) @ to_le_bytes 4 (srb_settled b) @ [srb_kind b]"

record ErrorBody =
  eb_error_code :: "16 word"
  eb_correlation_id :: "64 word"
  eb_message :: "byte list"

definition error_body_decode :: "byte list \<Rightarrow> CursorError + ErrorBody" where
  "error_body_decode body =
     and_then (read_u16_le (cursor_new body)) (\<lambda>(error_code, cur).
     and_then (read_u16_le cur) (\<lambda>(message_len, cur).
     and_then (read_u64_le cur) (\<lambda>(correlation_id, cur).
       if MAX_ERROR_MESSAGE_LEN < unat message_len then Inl (StringTooLong MAX_ERROR_MESSAGE_LEN)
       else and_then (read_bytes (unat message_len) cur) (\<lambda>(message, cur).
         Inr \<lparr>eb_error_code = error_code, eb_correlation_id = correlation_id, eb_message = message\<rparr>))))"

definition error_body_encode :: "ErrorBody \<Rightarrow> byte list \<Rightarrow> byte list \<times> (CursorError + unit)" where
  "error_body_encode b dst =
     (if MAX_ERROR_MESSAGE_LEN < length (eb_message b) then (dst, Inl (StringTooLong MAX_ERROR_MESSAGE_LEN))
      else (dst @ to_le_bytes 2 (eb_error_code b) @ to_le_bytes 2 (of_nat (length (eb_message b)) :: 16 word) @
              to_le_bytes 8 (eb_correlation_id b) @ eb_message b, Inr ()))"

end
