(* ===== verification/Native_Codec.thy ===== *)
theory Native_Codec
  imports Native_Message
begin

text \<open>
  The codec of the native protocol: what an encoder writes, the decoder reads back. A cursor is described by what it has
  read and what is left; reading a field from the front of what is left is then one rewrite rule per field type, and
  the round trip of a body is a computation with these rules. A pair of encoder and decoder is an instance of the
  locale \<open>wire_body\<close>, the codec of whole frames cuts frames out of a buffer however the buffer was filled.
\<close>

section \<open>Reading what was written\<close>

named_theorems cursor_simps

definition cursor_at :: "byte list \<Rightarrow> byte list \<Rightarrow> Cursor" where
  "cursor_at seen rest = \<lparr>cu_buf = seen @ rest, cu_pos = length seen\<rparr>"

lemma and_then_Inr [simp]: "and_then (Inr x) f = f x"
  and and_then_Inl [simp]: "and_then (Inl e) f = Inl e"
  by (simp_all add: and_then_def)

lemma and_then_eq_Inr: "and_then r f = Inr y \<longleftrightarrow> (\<exists>x. r = Inr x \<and> f x = Inr y)"
  by (cases r) simp_all

lemma ok_or_simps [simp]: "ok_or (Some x) e = Inr x" "ok_or None e = Inl e"
  by (simp_all add: ok_or_def)

lemma cursor_new_at [cursor_simps]: "cursor_new buf = cursor_at [] buf"
  by (simp add: cursor_new_def cursor_at_def)

lemma cursor_at_sel [simp]: "cu_buf (cursor_at seen rest) = seen @ rest" "cu_pos (cursor_at seen rest) = length seen"
  by (simp_all add: cursor_at_def)

lemma from_to_le_bytes_id: "8 * n = LENGTH('a) \<Longrightarrow> from_le_bytes (to_le_bytes n w) = (w :: 'a::len word)"
  by (simp add: from_to_le_bytes take_bit_word_eq_self)

lemma read_fields [cursor_simps]:
  "read_u8 (cursor_at seen (b # rest)) = Inr (b, cursor_at (seen @ [b]) rest)"
  "read_u16_le (cursor_at seen (to_le_bytes 2 v @ rest)) = Inr (v, cursor_at (seen @ to_le_bytes 2 v) rest)"
  "read_u32_le (cursor_at seen (to_le_bytes 4 w @ rest)) = Inr (w, cursor_at (seen @ to_le_bytes 4 w) rest)"
  "read_u64_le (cursor_at seen (to_le_bytes 8 x @ rest)) = Inr (x, cursor_at (seen @ to_le_bytes 8 x) rest)"
  by (simp_all add: read_u8_def read_u16_le_def read_u32_le_def read_u64_le_def cursor_remaining_def cursor_at_def from_to_le_bytes_id nth_append)

lemma read_last [cursor_simps]:
  "read_u16_le (cursor_at seen (to_le_bytes 2 v)) = Inr (v, cursor_at (seen @ to_le_bytes 2 v) [])"
  "read_u32_le (cursor_at seen (to_le_bytes 4 w)) = Inr (w, cursor_at (seen @ to_le_bytes 4 w) [])"
  "read_u64_le (cursor_at seen (to_le_bytes 8 x)) = Inr (x, cursor_at (seen @ to_le_bytes 8 x) [])"
  using read_fields(2-4) [of seen _ "[]"] by simp_all

lemma read_bytes_at [cursor_simps]: "n = length bs \<Longrightarrow> read_bytes n (cursor_at seen (bs @ rest)) = Inr (bs, cursor_at (seen @ bs) rest)"
  by (simp add: read_bytes_def cursor_remaining_def cursor_at_def)

lemma read_bytes_last [cursor_simps]: "n = length bs \<Longrightarrow> read_bytes n (cursor_at seen bs) = Inr (bs, cursor_at (seen @ bs) [])"
  using read_bytes_at [of n bs seen "[]"] by simp

lemma unat_len16: "n \<le> 4096 \<Longrightarrow> unat (of_nat n :: 16 word) = n"
  by (simp add: unat_of_nat)

lemma pack_unpack_route_id [simp]: "unpack_route_id (pack_route_id i g) = (i, g)"
proof -
  have m: "(0xFFFFFFFF :: 64 word) = mask 32" by (simp add: mask_eq_exp_minus_1)
  have "\<not> bit i (32 + n)" for n using bit_imp_le_length [of i "32 + n"] by auto
  then have "ucast (drop_bit 32 (pack_route_id i g)) = g" by (intro bit_word_eqI) (simp add: pack_route_id_def bit_simps)
  moreover have "ucast (pack_route_id i g AND mask 32) = i" by (intro bit_word_eqI) (simp add: pack_route_id_def bit_simps)
  ultimately show ?thesis by (simp add: unpack_route_id_def m)
qed

section \<open>Bodies\<close>

text \<open>Which bodies can be sent: the lengths fit their fields, the flags are known, the descriptors stay within the payloads.\<close>

definition known :: "'a::len word \<Rightarrow> 'a word \<Rightarrow> bool" where
  "known all_flags w \<longleftrightarrow> from_bits all_flags w = Some w"

definition hello_ok :: "HelloBody \<Rightarrow> bool" where
  "hello_ok b \<longleftrightarrow> known NATIVE_CAPABILITIES_ALL (hb_client_capabilities b) \<and> length (hb_client_name b) \<le> 255"

definition hello_ok_ok :: "HelloOkBody \<Rightarrow> bool" where
  "hello_ok_ok b \<longleftrightarrow> known NATIVE_CAPABILITIES_ALL (ho_server_capabilities b)"

definition resolve_route_ok :: "ResolveRouteBody \<Rightarrow> bool" where
  "resolve_route_ok b \<longleftrightarrow> length (rrb_exchange b) \<le> MAX_EXCHANGE_NAME_LEN \<and> length (rrb_routing_key b) \<le> MAX_ROUTING_KEY_LEN"

definition publish_descriptor_ok :: "nat \<Rightarrow> PublishDescriptor \<Rightarrow> bool" where
  "publish_descriptor_ok n d \<longleftrightarrow> pd_payload_len d \<le> MAX_PAYLOAD_SIZE \<and> unat (pd_payload_offset d) + unat (pd_payload_len d) \<le> min n u32_max \<and>
     known NATIVE_MESSAGE_FLAGS_ALL (pd_message_flags d)"

definition publish_batch_ok :: "PublishBatchBody \<Rightarrow> bool" where
  "publish_batch_ok b \<longleftrightarrow> pbb_descriptors b \<noteq> [] \<and> length (pbb_descriptors b) \<le> 4096 \<and>
     list_all (publish_descriptor_ok (length (pbb_payloads b))) (pbb_descriptors b)"

definition delivery_descriptor_ok :: "nat \<Rightarrow> DeliveryDescriptor \<Rightarrow> bool" where
  "delivery_descriptor_ok n d \<longleftrightarrow> unat (dd_payload_offset d) + unat (dd_payload_len d) \<le> min n u32_max \<and>
     known NATIVE_DELIVERY_FLAGS_ALL (dd_delivery_flags d)"

definition delivery_batch_ok :: "DeliveryBatchBody \<Rightarrow> bool" where
  "delivery_batch_ok b \<longleftrightarrow> dbb_descriptors b \<noteq> [] \<and> length (dbb_descriptors b) * 20 \<le> u32_max \<and>
     list_all (delivery_descriptor_ok (length (dbb_payloads b))) (dbb_descriptors b)"

definition consume_start_ok :: "ConsumeStartBody \<Rightarrow> bool" where
  "consume_start_ok b \<longleftrightarrow> known NATIVE_CONSUMER_FLAGS_ALL (csb_consumer_flags b)"

definition credit_update_ok :: "CreditUpdateBody \<Rightarrow> bool" where
  "credit_update_ok b \<longleftrightarrow> known CREDIT_FLAGS_ALL (cub_flags b)"

definition ack_batch_ok :: "AckBatchBody \<Rightarrow> bool" where
  "ack_batch_ok b \<longleftrightarrow> length (abb_ops b) \<le> u32_max"

definition nack_batch_ok :: "NackBatchBody \<Rightarrow> bool" where
  "nack_batch_ok b \<longleftrightarrow> length (nbb_ops b) \<le> u32_max"

definition error_body_ok :: "ErrorBody \<Rightarrow> bool" where
  "error_body_ok b \<longleftrightarrow> length (eb_message b) \<le> MAX_ERROR_MESSAGE_LEN"

subsection \<open>Tables of descriptors and lists of operations\<close>

definition publish_descriptor_bytes :: "PublishDescriptor \<Rightarrow> byte list" where
  "publish_descriptor_bytes d = to_le_bytes 4 (pd_payload_offset d) @ to_le_bytes 4 (pd_payload_len d) @
     to_le_bytes 2 (pd_message_flags d) @ to_le_bytes 2 (0 :: 16 word)"

definition delivery_descriptor_bytes :: "DeliveryDescriptor \<Rightarrow> byte list" where
  "delivery_descriptor_bytes d = to_le_bytes 8 (dd_delivery_tag d) @ to_le_bytes 4 (dd_payload_offset d) @ to_le_bytes 4 (dd_payload_len d) @
     to_le_bytes 2 (dd_delivery_flags d) @ to_le_bytes 2 (0 :: 16 word)"

lemma publish_descriptors_encode_eq:
  "list_all (publish_descriptor_ok n) ds \<Longrightarrow>
   publish_descriptors_encode ds dst = (dst @ concat (map publish_descriptor_bytes ds), Inr ())"
  by (induction ds arbitrary: dst) (auto simp: publish_descriptor_ok_def publish_descriptor_bytes_def not_less)

lemma publish_descriptors_decode_eq:
  "list_all (publish_descriptor_ok (length rest)) ds \<Longrightarrow>
   publish_descriptors_decode (length ds) (cursor_at seen (concat (map publish_descriptor_bytes ds) @ rest)) =
     Inr (ds, cursor_at (seen @ concat (map publish_descriptor_bytes ds)) rest)"
proof (induction ds arbitrary: seen)
  case (Cons d ds)
  then show ?case
    by (auto simp: publish_descriptor_bytes_def publish_descriptor_ok_def known_def check_bounds_def cursor_simps not_less)
qed simp

lemma delivery_descriptors_encode_eq:
  "delivery_descriptors_encode ds dst = dst @ concat (map delivery_descriptor_bytes ds)"
  by (induction ds arbitrary: dst) (simp_all add: delivery_descriptor_bytes_def)

lemma delivery_descriptors_decode_eq:
  "list_all (delivery_descriptor_ok (length rest)) ds \<Longrightarrow>
   delivery_descriptors_decode (length ds) (cursor_at seen (concat (map delivery_descriptor_bytes ds) @ rest)) =
     Inr (ds, cursor_at (seen @ concat (map delivery_descriptor_bytes ds)) rest)"
proof (induction ds arbitrary: seen)
  case (Cons d ds)
  then show ?case
    by (auto simp: delivery_descriptor_bytes_def delivery_descriptor_ok_def known_def check_bounds_def cursor_simps not_less)
qed simp

fun ack_op_bytes :: "NativeAckOp \<Rightarrow> byte list" where
  "ack_op_bytes (NativeAckOne tag) = put_op KindOne 0 tag 0"
| "ack_op_bytes (NativeAckRange tag len) = put_op KindRange 0 tag len"
| "ack_op_bytes (NativeAckMultiple tag) = put_op KindMultipleUpTo 0 tag 0"

fun nack_op_bytes :: "NativeNackOp \<Rightarrow> byte list" where
  "nack_op_bytes (NativeNackOne tag d) = put_op KindOne (nack_disposition_as_u8 d) tag 0"
| "nack_op_bytes (NativeNackRange tag len d) = put_op KindRange (nack_disposition_as_u8 d) tag len"
| "nack_op_bytes (NativeNackMultiple tag d) = put_op KindMultipleUpTo (nack_disposition_as_u8 d) tag 0"

lemma tag_bytes [simp]:
  "ack_op_kind_try_from (ack_op_kind_as_u8 k) = Inr k" "nack_disposition_try_from (nack_disposition_as_u8 d) = Inr d"
  by (cases k; simp add: ack_op_kind_try_from_def) (cases d; simp add: nack_disposition_try_from_def)

lemma ack_ops_encode_eq: "ack_ops_encode ops dst = dst @ concat (map ack_op_bytes ops)"
  by (induction ops dst rule: ack_ops_encode.induct) simp_all

lemma nack_ops_encode_eq: "nack_ops_encode ops dst = dst @ concat (map nack_op_bytes ops)"
  by (induction ops dst rule: nack_ops_encode.induct) simp_all

lemma ack_ops_decode_eq:
  "ack_ops_decode (length ops) (cursor_at seen (concat (map ack_op_bytes ops))) = Inr (ops, cursor_at (seen @ concat (map ack_op_bytes ops)) [])"
proof (induction ops arbitrary: seen)
  case (Cons op ops)
  then show ?case by (cases op) (simp_all add: put_op_def cursor_simps del: ack_op_kind_as_u8.simps)
qed simp

lemma nack_ops_decode_eq:
  "nack_ops_decode (length ops) (cursor_at seen (concat (map nack_op_bytes ops))) = Inr (ops, cursor_at (seen @ concat (map nack_op_bytes ops)) [])"
proof (induction ops arbitrary: seen)
  case (Cons op ops)
  then show ?case by (cases op) (simp_all add: put_op_def cursor_simps del: ack_op_kind_as_u8.simps nack_disposition_as_u8.simps)
qed simp

section \<open>Frames\<close>

lemma header_len_32 [simp]: "unat NATIVE_HEADER_LEN = 32"
  by (simp add: NATIVE_HEADER_LEN_def)

lemma op_round_trip [simp]: "op_try_from (op_as_u16 op) = Inr op"
  by (cases op) (simp_all add: op_try_from_def)

lemma error_code_round_trip: "error_code_try_from (error_code_as_u16 c) = Inr c"
  by (cases c) (simp_all add: error_code_try_from_def)

definition frame_header_ok :: "NativeFrameHeader \<Rightarrow> bool" where
  "frame_header_ok h \<longleftrightarrow> fh_magic h = NATIVE_MAGIC \<and> fh_version h = NATIVE_WIRE_VERSION \<and> NATIVE_HEADER_LEN \<le> fh_header_len h \<and>
     frame_flags_from_bits (fh_flags h) = Some (fh_flags h) \<and> validate_frame_flags (fh_flags h) = Inr () \<and> (\<exists>op. op_try_from (fh_op h) = Inr op)"

definition frame_ok :: "NativeCodec \<Rightarrow> NativeFrame \<Rightarrow> bool" where
  "frame_ok codec f \<longleftrightarrow> frame_header_ok (nf_header f) \<and> unat (fh_body_len (nf_header f)) = length (nf_body f) \<and>
     32 + length (nf_body f) \<le> nc_max_frame_len codec"

abbreviation header_bytes :: "NativeFrameHeader \<Rightarrow> byte list" where
  "header_bytes h \<equiv> frame_header_encode h []"

lemma header_bytes_length [simp]: "length (header_bytes h) = 32"
  by (simp add: frame_header_encode_def)

lemma frame_header_encode_append: "frame_header_encode h dst = dst @ header_bytes h"
  by (simp add: frame_header_encode_def)

lemma read_le_Cons_numeral: "read_le n (numeral k) (b # ys) = read_le n (pred_numeral k) ys"
  by (simp add: numeral_eq_Suc read_le_Cons)

lemma read_le_byte: "read_le (Suc 0) 0 (b # ys) = Some (b :: byte)"
  by (simp add: read_le_def slice_def)

lemma header_fields:
  "read_le 2 0 (header_bytes h) = Some (fh_magic h)" "read_le (Suc 0) 2 (header_bytes h) = Some (fh_version h)"
  "read_le (Suc 0) 3 (header_bytes h) = Some (fh_header_len h)" "read_le 2 4 (header_bytes h) = Some (fh_op h)"
  "read_le 2 6 (header_bytes h) = Some (fh_flags h)" "read_le 4 8 (header_bytes h) = Some (fh_stream_id h)"
  "read_le 8 12 (header_bytes h) = Some (fh_correlation_id h)" "read_le 4 20 (header_bytes h) = Some (fh_body_len h)"
  "read_le 4 24 (header_bytes h) = Some (fh_reserved h)" "read_le 4 28 (header_bytes h) = Some (fh_reserved2 h)"
  by (simp_all add: frame_header_encode_def read_le_skip read_le_Cons read_le_Cons_numeral read_le_byte read_le_first read_le_last)

lemma frame_header_round_trip: "frame_header_ok h \<Longrightarrow> frame_header_decode (header_bytes h @ rest) = Some (Inr h)"
  by (auto simp: frame_header_decode_def slice_def header_fields frame_header_ok_def)

text \<open>Decoding a header looks at the first 32 bytes only.\<close>

lemma frame_header_decode_local: "32 \<le> length src \<Longrightarrow> frame_header_decode (src @ later) = frame_header_decode src"
  by (simp add: frame_header_decode_def slice_def)

lemma frame_header_decode_returns: "frame_header_decode src \<noteq> None"
proof (cases "length src < 32")
  case False
  then show ?thesis by (simp add: frame_header_decode_def slice_def read_le_Some)
qed (simp add: frame_header_decode_def)

definition frame_bytes :: "NativeFrame \<Rightarrow> byte list" where
  "frame_bytes f = header_bytes (nf_header f) @ nf_body f"

lemma codec_encode_ok: "frame_ok codec f \<Longrightarrow> codec_encode codec f dst = Inr (dst @ frame_bytes f)"
proof -
  assume f: "frame_ok codec f"
  have "of_nat (length (nf_body f)) = fh_body_len (nf_header f)" using f by (metis frame_ok_def of_nat_unat ucast_id)
  then have "(nf_header f)\<lparr>fh_body_len := of_nat (length (nf_body f))\<rparr> = nf_header f" by simp
  then show ?thesis using f
    by (simp add: codec_encode_def frame_ok_def frame_bytes_def frame_header_encode_append [of _ dst])
qed

lemma codec_decode_ok:
  assumes "frame_ok codec f"
  shows "codec_decode codec (frame_bytes f @ rest) = Some (Inr (Some f), rest)"
  using assms by (simp add: codec_decode_def frame_ok_def frame_bytes_def frame_header_round_trip slice_def)

text \<open>
  Appending to the buffer never changes what was already decided: a complete frame and an error stay what they are,
  and only an incomplete frame waits for more.
\<close>

lemma codec_decode_cases:
  obtains (frame) f rest where "codec_decode codec src = Some (Inr (Some f), rest)" "length rest < length src"
      "\<And>later. codec_decode codec (src @ later) = Some (Inr (Some f), rest @ later)"
    | (wait) "codec_decode codec src = Some (Inr None, src)"
    | (refuse) e where "\<And>later. codec_decode codec (src @ later) = Some (Inl e, src @ later)"
proof (cases "length src < 32")
  case True
  then show ?thesis by (intro wait) (simp add: codec_decode_def)
next
  case False
  note loc = frame_header_decode_local [of src]
  obtain r where r: "frame_header_decode src = Some r" using frame_header_decode_returns by blast
  show ?thesis
  proof (cases r)
    case (Inl e)
    then show ?thesis using False r loc by (intro refuse [of "DecodeHeader e"]) (simp add: codec_decode_def)
  next
    case (Inr h)
    consider (big) "nc_max_frame_len codec < 32 + unat (fh_body_len h)"
      | (short) "\<not> nc_max_frame_len codec < 32 + unat (fh_body_len h)" "length src < 32 + unat (fh_body_len h)"
      | (full) "\<not> nc_max_frame_len codec < 32 + unat (fh_body_len h)" "32 + unat (fh_body_len h) \<le> length src" by linarith
    then show ?thesis
    proof cases
      case big
      then show ?thesis using False r loc Inr by (intro refuse [of DecodeFrameTooLarge]) (simp add: codec_decode_def)
    next
      case short
      then show ?thesis using False r Inr by (intro wait) (simp add: codec_decode_def)
    next
      case full
      then show ?thesis using False r loc Inr
        by (intro frame [of "\<lparr>nf_header = h, nf_body = take (unat (fh_body_len h)) (drop 32 src)\<rparr>" "drop (32 + unat (fh_body_len h)) src"])
           (simp_all add: codec_decode_def slice_def add.commute)
    qed
  qed
qed

section \<open>Messages\<close>

text \<open>
  The contract of a message type: a body that can be sent is encoded without an error, and decoding the bytes gives it
  back. Then a frame around the bytes brings the body through the codec, and no two bodies share their bytes.
\<close>

definition message_frame :: "NativeOp \<Rightarrow> 16 word \<Rightarrow> 32 word \<Rightarrow> 64 word \<Rightarrow> byte list \<Rightarrow> NativeFrame" where
  "message_frame op flags stream_id correlation_id bytes =
     \<lparr>nf_header = frame_header_new op flags stream_id correlation_id (of_nat (length bytes)), nf_body = bytes\<rparr>"

definition sendable_flags :: "16 word \<Rightarrow> bool" where
  "sendable_flags flags \<longleftrightarrow> frame_flags_from_bits flags = Some flags \<and> validate_frame_flags flags = Inr ()"

definition travels ::
  "('b \<Rightarrow> (byte list \<times> (CursorError + unit)) option) \<Rightarrow> (byte list \<Rightarrow> (CursorError + 'b) option) \<Rightarrow> 'b \<Rightarrow> bool" where
  "travels enc dec b \<longleftrightarrow> (\<exists>bytes. enc b = Some (bytes, Inr ()) \<and>
     (\<forall>codec op flags stream_id correlation_id rest.
        sendable_flags flags \<and> 32 + length bytes \<le> nc_max_frame_len codec \<and> length bytes \<le> u32_max \<longrightarrow>
        (\<exists>wire f. codec_encode codec (message_frame op flags stream_id correlation_id bytes) [] = Inr wire \<and>
           codec_decode codec (wire @ rest) = Some (Inr (Some f), rest) \<and> header_op (nf_header f) = Inr op \<and>
           fh_stream_id (nf_header f) = stream_id \<and> fh_correlation_id (nf_header f) = correlation_id \<and>
           dec (nf_body f) = Some (Inr b))))"

lemma message_frame_ok:
  assumes "sendable_flags flags" "32 + length bytes \<le> nc_max_frame_len codec" "length bytes \<le> u32_max"
  shows "frame_ok codec (message_frame op flags stream_id correlation_id bytes)"
  using assms by (simp add: frame_ok_def frame_header_ok_def message_frame_def frame_header_new_def sendable_flags_def unat_of_nat u32_max_def)

locale wire_body =
  fixes enc :: "'b \<Rightarrow> (byte list \<times> (CursorError + unit)) option"
    and dec :: "byte list \<Rightarrow> (CursorError + 'b) option"
    and wf :: "'b \<Rightarrow> bool"
  assumes round_trip: "wf b \<Longrightarrow> \<exists>bytes. enc b = Some (bytes, Inr ()) \<and> dec bytes = Some (Inr b)"
begin

lemma injective: "wf b \<Longrightarrow> wf c \<Longrightarrow> enc b = enc c \<Longrightarrow> b = c"
  using round_trip [of b] round_trip [of c] by auto

lemma arrives: assumes "wf b" shows "travels enc dec b"
proof -
  obtain bytes where b: "enc b = Some (bytes, Inr ())" "dec bytes = Some (Inr b)" using round_trip [OF assms] by blast
  have "\<exists>wire f. codec_encode codec (message_frame op flags stream_id correlation_id bytes) [] = Inr wire \<and>
      codec_decode codec (wire @ rest) = Some (Inr (Some f), rest) \<and> header_op (nf_header f) = Inr op \<and>
      fh_stream_id (nf_header f) = stream_id \<and> fh_correlation_id (nf_header f) = correlation_id \<and> dec (nf_body f) = Some (Inr b)"
    if "sendable_flags flags \<and> 32 + length bytes \<le> nc_max_frame_len codec \<and> length bytes \<le> u32_max"
    for codec op flags stream_id correlation_id rest
  proof -
    have f: "frame_ok codec (message_frame op flags stream_id correlation_id bytes)" using that by (intro message_frame_ok) simp_all
    show ?thesis using codec_encode_ok [OF f] codec_decode_ok [OF f] b
      by (auto simp: message_frame_def frame_header_new_def header_op_def)
  qed
  then show ?thesis unfolding travels_def using b(1) by blast
qed

end

interpretation hello: wire_body "\<lambda>b. Some (hello_encode b [])" "\<lambda>bs. Some (hello_decode bs)" hello_ok
  by unfold_locales
     (auto simp: hello_encode_def hello_decode_def hello_ok_def known_def write_string_def read_string_def cursor_simps unat_len16)

interpretation hello_ok: wire_body "\<lambda>b. Some (hello_ok_encode b [], Inr ())" "\<lambda>bs. Some (hello_ok_decode bs)" hello_ok_ok
  by unfold_locales (simp add: hello_ok_encode_def hello_ok_decode_def hello_ok_ok_def known_def cursor_simps)

interpretation resolve_route: wire_body "\<lambda>b. Some (resolve_route_encode b [])" "\<lambda>bs. Some (resolve_route_decode bs)" resolve_route_ok
  by unfold_locales
     (auto simp: resolve_route_encode_def resolve_route_decode_def resolve_route_ok_def MAX_EXCHANGE_NAME_LEN_def MAX_ROUTING_KEY_LEN_def
       cursor_simps unat_len16)

interpretation route_resolved: wire_body "\<lambda>b. Some (route_resolved_encode b [], Inr ())" "\<lambda>bs. Some (route_resolved_decode bs)" "\<lambda>_. True"
  by unfold_locales (simp add: route_resolved_encode_def route_resolved_decode_def cursor_simps)

interpretation publish_confirm: wire_body "\<lambda>b. Some (publish_confirm_encode b [], Inr ())" "\<lambda>bs. Some (publish_confirm_decode bs)" "\<lambda>_. True"
  by unfold_locales (simp add: publish_confirm_encode_def publish_confirm_decode_def cursor_simps)

interpretation consume_start: wire_body "\<lambda>b. Some (consume_start_encode b [], Inr ())" "\<lambda>bs. Some (consume_start_decode bs)" consume_start_ok
  by unfold_locales (simp add: consume_start_encode_def consume_start_decode_def consume_start_ok_def known_def cursor_simps)

interpretation consumer_ok: wire_body "\<lambda>b. Some (consumer_ok_encode b [], Inr ())" "\<lambda>bs. Some (consumer_ok_decode bs)" "\<lambda>_. True"
  by unfold_locales (simp add: consumer_ok_encode_def consumer_ok_decode_def cursor_simps)

interpretation credit_update: wire_body "\<lambda>b. Some (credit_update_encode b [], Inr ())" "\<lambda>bs. Some (credit_update_decode bs)" credit_update_ok
  by unfold_locales (simp add: credit_update_encode_def credit_update_decode_def credit_update_ok_def known_def cursor_simps)

interpretation cancel_consumer: wire_body "\<lambda>b. Some (cancel_consumer_encode b [], Inr ())" "\<lambda>bs. Some (cancel_consumer_decode bs)" "\<lambda>_. True"
  by unfold_locales (simp add: cancel_consumer_encode_def cancel_consumer_decode_def cursor_simps)

interpretation ack_batch: wire_body "\<lambda>b. Some (ack_batch_encode b [], Inr ())" "\<lambda>bs. Some (ack_batch_decode bs)" ack_batch_ok
  by unfold_locales
     (simp add: ack_batch_encode_def ack_batch_decode_def ack_batch_ok_def ack_ops_encode_eq ack_ops_decode_eq unat_of_nat u32_max_def cursor_simps)

interpretation nack_batch: wire_body "\<lambda>b. Some (nack_batch_encode b [], Inr ())" "\<lambda>bs. Some (nack_batch_decode bs)" nack_batch_ok
  by unfold_locales
     (simp add: nack_batch_encode_def nack_batch_decode_def nack_batch_ok_def nack_ops_encode_eq nack_ops_decode_eq unat_of_nat u32_max_def cursor_simps)

interpretation settlement_result: wire_body "\<lambda>b. Some (settlement_result_encode b [], Inr ())" "\<lambda>bs. Some (settlement_result_decode bs)" "\<lambda>_. True"
  by unfold_locales (simp add: settlement_result_encode_def settlement_result_decode_def cursor_simps)

interpretation error_body: wire_body "\<lambda>b. Some (error_body_encode b [])" "\<lambda>bs. Some (error_body_decode bs)" error_body_ok
  by unfold_locales
     (auto simp: error_body_encode_def error_body_decode_def error_body_ok_def MAX_ERROR_MESSAGE_LEN_def cursor_simps unat_len16)

lemma publish_batch_round_trip:
  assumes "publish_batch_ok b"
  shows "\<exists>bytes. publish_batch_encode b [] = Some (bytes, Inr ()) \<and> publish_batch_decode bytes = Some (Inr b)"
proof -
  let ?ds = "pbb_descriptors b" and ?n = "of_nat (length (pbb_descriptors b)) :: 32 word"
  have l: "0 < length ?ds" "length ?ds \<le> 4096" and ok: "list_all (publish_descriptor_ok (length (pbb_payloads b))) ?ds"
    using assms by (simp_all add: publish_batch_ok_def)
  have n: "unat ?n = length ?ds" using l by (simp add: unat_of_nat)
  have n0: "?n \<noteq> 0" using n l by auto
  have m: "\<not> MAX_PUBLISH_BATCH_MESSAGES < ?n" using n l by (simp add: MAX_PUBLISH_BATCH_MESSAGES_def word_less_nat_alt)
  have t: "unat (?n * 12) = length ?ds * 12" using n l by (simp add: unat_word_ariths)
  have u: "\<not> u32_max < length ?ds * 12" using l by (simp add: u32_max_def)
  show ?thesis using publish_descriptors_encode_eq [OF ok] n n0 m t u publish_descriptors_decode_eq [OF ok]
    by (auto simp: publish_batch_encode_def publish_batch_decode_def publish_batch_fields_def Let_def cursor_simps slice_def)
qed

interpretation publish_batch: wire_body "\<lambda>b. publish_batch_encode b []" publish_batch_decode publish_batch_ok
  by unfold_locales (rule publish_batch_round_trip)

lemma delivery_batch_round_trip:
  assumes "delivery_batch_ok b"
  shows "\<exists>bytes. delivery_batch_encode b [] = Some (bytes, Inr ()) \<and> delivery_batch_decode bytes = Some (Inr b)"
proof -
  let ?ds = "dbb_descriptors b" and ?n = "of_nat (length (dbb_descriptors b)) :: 32 word"
  have l: "0 < length ?ds" "length ?ds * 20 \<le> u32_max" and ok: "list_all (delivery_descriptor_ok (length (dbb_payloads b))) ?ds"
    using assms by (simp_all add: delivery_batch_ok_def)
  have n: "unat ?n = length ?ds" using l by (simp add: unat_of_nat u32_max_def)
  have n0: "?n \<noteq> 0" using n l by auto
  have t: "unat (?n * 20) = length ?ds * 20" using n l by (simp add: unat_word_ariths u32_max_def)
  show ?thesis using n n0 t l delivery_descriptors_decode_eq [OF ok]
    by (auto simp: delivery_batch_encode_def delivery_batch_decode_def delivery_descriptors_encode_eq Let_def cursor_simps slice_def)
qed

interpretation delivery_batch: wire_body "\<lambda>b. delivery_batch_encode b []" delivery_batch_decode delivery_batch_ok
  by unfold_locales (rule delivery_batch_round_trip)

end
