(* ===== verification/Native_Adapter.thy ===== *)
theory Native_Adapter
  imports Native_Message Broker
begin

text \<open>
  The adapter of the native protocol, \<open>crates/aurum-protocol-native/src/adapter\<close>: the state of a session, the translation
  of a frame into a command of the broker or an immediate answer, and the translation of the broker's output into
  frames; and \<open>in_memory/native_harness.rs\<close>, which puts codec, adapters and broker together. Numbers that the broker
  model keeps as naturals are read from the words of the wire with \<open>unat\<close>.
\<close>

section \<open>The session\<close>

record ConsumerInfo =
  ci_queue_id :: "32 word"
  ci_prefetch :: "32 word"

record NativeSessionState =
  ns_protocol_major :: "16 word"
  ns_protocol_minor :: "16 word"
  ns_connection_id :: "64 word"
  ns_capabilities :: "64 word"
  ns_last_seen_route_table_version :: "64 word"
  ns_next_consumer_id :: nat
  ns_consumers :: "nat \<rightharpoonup> ConsumerInfo"
  ns_hello_done :: bool

definition session_state_new :: "64 word \<Rightarrow> NativeSessionState" where
  "session_state_new connection_id =
     \<lparr>ns_protocol_major = NATIVE_PROTOCOL_MAJOR, ns_protocol_minor = NATIVE_PROTOCOL_MINOR, ns_connection_id = connection_id,
      ns_capabilities = CAP_ROUTE_ID OR CAP_PUBLISH_BATCH OR CAP_ACK_RANGE OR CAP_NACK_RANGE OR CAP_DELIVERY_BATCH,
      ns_last_seen_route_table_version = VERSION_INITIAL, ns_next_consumer_id = 1, ns_consumers = Map.empty, ns_hello_done = False\<rparr>"

definition mark_hello :: "16 word \<Rightarrow> 16 word \<Rightarrow> 64 word \<Rightarrow> NativeSessionState \<Rightarrow> NativeSessionState" where
  "mark_hello major minor caps s =
     s\<lparr>ns_protocol_major := major, ns_protocol_minor := minor, ns_capabilities := caps, ns_hello_done := True\<rparr>"

definition assign_consumer_id :: "32 word \<Rightarrow> NativeSessionState \<Rightarrow> (nat \<times> NativeSessionState) option" where
  "assign_consumer_id hint s =
     (if hint = 0 then do {
        nxt \<leftarrow> add_u64 (ns_next_consumer_id s) 1;
        Some (ns_next_consumer_id s, s\<lparr>ns_next_consumer_id := nxt\<rparr>)
      } else Some (unat hint, s))"

definition register_consumer :: "nat \<Rightarrow> 32 word \<Rightarrow> 32 word \<Rightarrow> NativeSessionState \<Rightarrow> NativeSessionState" where
  "register_consumer i queue_id prefetch s =
     s\<lparr>ns_consumers := (ns_consumers s)(i \<mapsto> \<lparr>ci_queue_id = queue_id, ci_prefetch = prefetch\<rparr>)\<rparr>"

definition hello_ok_body :: "NativeSessionState \<Rightarrow> HelloOkBody" where
  "hello_ok_body s =
     \<lparr>ho_server_major = NATIVE_PROTOCOL_MAJOR, ho_server_minor = NATIVE_PROTOCOL_MINOR, ho_server_capabilities = ns_capabilities s,
      ho_connection_id = ns_connection_id s\<rparr>"

definition update_route_version :: "64 word \<Rightarrow> NativeSessionState \<Rightarrow> NativeSessionState" where
  "update_route_version version s = s\<lparr>ns_last_seen_route_table_version := version\<rparr>"

definition route_id_from_packed :: "64 word \<Rightarrow> RouteId" where
  "route_id_from_packed packed = (case unpack_route_id packed of (index, generation) \<Rightarrow> \<lparr>ri_index = index, ri_generation = generation\<rparr>)"

section \<open>Inbound frames\<close>

datatype BrokerCommandBatch = BrokerIngress IngressCommandBatch | BrokerShard ShardCommandBatch

datatype NativeInboundResult = BrokerCommand BrokerCommandBatch | ImmediateResponse NativeFrame

datatype NativeAdapterError = AdapterProtocol NativeErrorCode | AdapterDecode CursorError | AdapterState string

record NativeInboundAdapter =
  na_session :: NativeSessionState
  na_next_payload_handle :: nat

definition inbound_new :: "NativeSessionState \<Rightarrow> NativeInboundAdapter" where
  "inbound_new session = \<lparr>na_session = session, na_next_payload_handle = 1\<rparr>"

type_synonym inbound_result = "((NativeAdapterError + NativeInboundResult) \<times> NativeInboundAdapter) option"

definition response_frame :: "NativeOp \<Rightarrow> 16 word \<Rightarrow> 32 word \<Rightarrow> 64 word \<Rightarrow> byte list \<Rightarrow> NativeFrame" where
  "response_frame op flags stream_id correlation_id buf =
     \<lparr>nf_header = frame_header_new op flags stream_id correlation_id (of_nat (length buf)), nf_body = buf\<rparr>"

definition translate_hello :: "NativeInboundAdapter \<Rightarrow> NativeFrame \<Rightarrow> inbound_result" where
  "translate_hello a frame =
     (case hello_decode (nf_body frame) of
        Inl e \<Rightarrow> Some (Inl (AdapterDecode e), a)
      | Inr body \<Rightarrow>
          (if hb_client_major body \<noteq> NATIVE_PROTOCOL_MAJOR then Some (Inl (AdapterProtocol CodeUnsupportedVersion), a)
           else
             (let session = mark_hello (hb_client_major body) (hb_client_minor body) (hb_client_capabilities body) (na_session a);
                  buf = hello_ok_encode (hello_ok_body session) []
              in Some (Inr (ImmediateResponse (response_frame OpHelloOk FRAME_RESPONSE (fh_stream_id (nf_header frame))
                   (fh_correlation_id (nf_header frame)) buf)), a\<lparr>na_session := session\<rparr>))))"

definition heartbeat_ack :: "NativeFrame \<Rightarrow> NativeFrame" where
  "heartbeat_ack frame =
     \<lparr>nf_header = frame_header_new OpHeartbeatAck FRAME_RESPONSE (fh_stream_id (nf_header frame)) (fh_correlation_id (nf_header frame)) 0,
      nf_body = []\<rparr>"

definition translate_resolve_route :: "NativeInboundAdapter \<Rightarrow> NativeFrame \<Rightarrow> inbound_result" where
  "translate_resolve_route a frame =
     (case resolve_route_decode (nf_body frame) of
        Inl e \<Rightarrow> Some (Inl (AdapterDecode e), a)
      | Inr body \<Rightarrow>
          (let request_id = unat (fh_correlation_id (nf_header frame));
               cmd = (if rrb_exchange body = [] \<and> rrb_exchange_id_hint body \<noteq> 0
                      then resolve_by_id request_id (rrb_exchange_id_hint body) (rrb_routing_key body)
                      else resolve_by_name request_id (rrb_exchange body) (rrb_routing_key body))
           in Some (Inr (BrokerCommand (BrokerIngress (IngressResolveRoute [cmd]))), a)))"

definition MESSAGE_HAS_PAYLOAD_REF :: "8 word" where
  "MESSAGE_HAS_PAYLOAD_REF = 0x08"

definition PUBLISH_ROUTED_BY_ID :: "16 word" where
  "PUBLISH_ROUTED_BY_ID = 0x0008"

definition CONSUME_AUTO_ACK :: "8 word" where
  "CONSUME_AUTO_ACK = 0x04"

fun publish_records :: "PublishBatchBody \<Rightarrow> PublishDescriptor list \<Rightarrow> nat \<Rightarrow> ((CursorError + PublishRecord list) \<times> nat) option" where
  "publish_records body [] handle = Some (Inr [], handle)"
| "publish_records body (d # ds) handle =
     (case payload_slice body d of
        Inl e \<Rightarrow> Some (Inl e, handle)
      | Inr _ \<Rightarrow> do {
          nxt \<leftarrow> add_u64 handle 1;
          (r, last_handle) \<leftarrow> publish_records body ds nxt;
          let msg_flags = (if pd_message_flags d AND MSG_PERSISTENT = MSG_PERSISTENT then MESSAGE_HAS_PAYLOAD_REF else 0);
          Some (case r of
              Inl e \<Rightarrow> (Inl e, last_handle)
            | Inr rs \<Rightarrow> (Inr (\<lparr>pb_payload = handle, pb_payload_len = unat (pd_payload_len d), pb_message_flags = msg_flags, pb_priority = 0,
                              pb_expiration_ms = None, pb_key_hash = 0\<rparr> # rs), last_handle))
        })"

definition translate_publish :: "NativeInboundAdapter \<Rightarrow> NativeFrame \<Rightarrow> inbound_result" where
  "translate_publish a frame = do {
     r \<leftarrow> publish_batch_decode (nf_body frame);
     case r of
       Inl e \<Rightarrow> Some (Inl (AdapterDecode e), a)
     | Inr body \<Rightarrow> do {
         let route_id = route_id_from_packed (pbb_route_id_packed body);
         let route_version = pbb_route_table_version body;
         let a = a\<lparr>na_session := update_route_version route_version (na_session a)\<rparr>;
         (rs, nxt) \<leftarrow> publish_records body (pbb_descriptors body) (na_next_payload_handle a);
         let a = a\<lparr>na_next_payload_handle := nxt\<rparr>;
         Some (case rs of
             Inl e \<Rightarrow> (Inl (AdapterDecode e), a)
           | Inr records \<Rightarrow>
               (Inr (BrokerCommand (BrokerIngress (IngressPublish
                  \<lparr>ip_batch_id = unat (fh_correlation_id (nf_header frame)), ip_source = unat (ns_connection_id (na_session a)),
                   ip_target = ToRoute \<lparr>rp_route_id = route_id, rp_route_version = route_version\<rparr>, ip_flags = PUBLISH_ROUTED_BY_ID,
                   ip_confirm_mode = ConfirmAccepted, ip_records = records\<rparr>))), a))
       }
   }"

definition translate_consume_start :: "NativeInboundAdapter \<Rightarrow> NativeFrame \<Rightarrow> inbound_result" where
  "translate_consume_start a frame =
     (case consume_start_decode (nf_body frame) of
        Inl e \<Rightarrow> Some (Inl (AdapterDecode e), a)
      | Inr body \<Rightarrow> do {
          (consumer_id, session) \<leftarrow> assign_consumer_id (csb_consumer_id_hint body) (na_session a);
          let queue_id = csb_queue_id body;
          let session = register_consumer consumer_id queue_id (csb_prefetch body) session;
          let flags = (if csb_consumer_flags body AND CONS_MANUAL_ACK = CONS_MANUAL_ACK then 0 else CONSUME_AUTO_ACK);
          Some (Inr (BrokerCommand (BrokerShard (CmdConsume
                  [\<lparr>cm_consumer_id = consumer_id, cm_channel_id = unat (fh_stream_id (nf_header frame)), cm_queue_id = queue_id,
                    cm_prefetch = unat (csb_prefetch body), cm_flags = flags\<rparr>]))), a\<lparr>na_session := session\<rparr>)
        })"

definition translate_credit :: "NativeInboundAdapter \<Rightarrow> NativeFrame \<Rightarrow> inbound_result" where
  "translate_credit a frame =
     (case credit_update_decode (nf_body frame) of
        Inl e \<Rightarrow> Some (Inl (AdapterDecode e), a)
      | Inr body \<Rightarrow>
          (let consumer_id = unat (cub_consumer_id body);
               update = (if cub_flags body AND CREDIT_ABSOLUTE = CREDIT_ABSOLUTE
                         then credit_update_set_prefetch consumer_id (unat (cub_credit_delta body))
                         else credit_update_delta consumer_id (sint (cub_credit_delta body)))
           in Some (Inr (BrokerCommand (BrokerShard (CmdCredit [update]))), a)))"

definition range_end :: "64 word \<Rightarrow> 32 word \<Rightarrow> NativeAdapterError + nat" where
  "range_end first_tag len =
     (if len = 0 then Inl (AdapterProtocol CodeInvalidDeliveryTag)
      else ok_or (add_u64 (unat first_tag) (unat len - 1)) (AdapterProtocol CodeInvalidDeliveryTag))"

fun ack_items :: "NativeAckOp list \<Rightarrow> NativeAdapterError + AckCommand list" where
  "ack_items [] = Inr []"
| "ack_items (NativeAckOne tag # ops) = and_then (ack_items ops) (\<lambda>items. Inr (ack_command_one (unat tag) # items))"
| "ack_items (NativeAckRange first_tag len # ops) =
     and_then (range_end first_tag len) (\<lambda>last_tag. and_then (ack_items ops) (\<lambda>items. Inr (AckTagRange (unat first_tag) last_tag # items)))"
| "ack_items (NativeAckMultiple tag # ops) = and_then (ack_items ops) (\<lambda>items. Inr (ack_command_multiple (unat tag) # items))"

definition translate_ack :: "NativeInboundAdapter \<Rightarrow> NativeFrame \<Rightarrow> inbound_result" where
  "translate_ack a frame =
     (case ack_batch_decode (nf_body frame) of
        Inl e \<Rightarrow> Some (Inl (AdapterDecode e), a)
      | Inr body \<Rightarrow>
          (case ack_items (abb_ops body) of
             Inl e \<Rightarrow> Some (Inl e, a)
           | Inr items \<Rightarrow> Some (Inr (BrokerCommand (BrokerShard (CmdAck
               \<lparr>akb_consumer_id = unat (abb_consumer_id body), akb_flags = 0, akb_items = items\<rparr>))), a)))"

fun map_nack_disposition :: "NativeNackDisposition \<Rightarrow> NackDisposition" where
  "map_nack_disposition NativeRequeue = NackRequeue"
| "map_nack_disposition NativeDrop = NackDrop"
| "map_nack_disposition NativeDeadLetter = NackDeadLetter"

fun nack_items :: "NativeNackOp list \<Rightarrow> NativeAdapterError + NackCommand list" where
  "nack_items [] = Inr []"
| "nack_items (NativeNackOne tag d # ops) =
     and_then (nack_items ops) (\<lambda>items. Inr (NackTag (unat tag) SettleOne (map_nack_disposition d) # items))"
| "nack_items (NativeNackRange first_tag len d # ops) =
     and_then (range_end first_tag len) (\<lambda>last_tag. and_then (nack_items ops) (\<lambda>items.
       Inr (NackTagRange (unat first_tag) last_tag (map_nack_disposition d) # items)))"
| "nack_items (NativeNackMultiple tag d # ops) =
     and_then (nack_items ops) (\<lambda>items. Inr (NackTag (unat tag) SettleMultiple (map_nack_disposition d) # items))"

definition translate_nack :: "NativeInboundAdapter \<Rightarrow> NativeFrame \<Rightarrow> inbound_result" where
  "translate_nack a frame =
     (case nack_batch_decode (nf_body frame) of
        Inl e \<Rightarrow> Some (Inl (AdapterDecode e), a)
      | Inr body \<Rightarrow>
          (case nack_items (nbb_ops body) of
             Inl e \<Rightarrow> Some (Inl e, a)
           | Inr items \<Rightarrow> Some (Inr (BrokerCommand (BrokerShard (CmdNack
               \<lparr>nkb_consumer_id = unat (nbb_consumer_id body), nkb_flags = 0, nkb_items = items\<rparr>))), a)))"

definition translate_cancel :: "NativeInboundAdapter \<Rightarrow> NativeFrame \<Rightarrow> inbound_result" where
  "translate_cancel a frame =
     (case cancel_consumer_decode (nf_body frame) of
        Inl e \<Rightarrow> Some (Inl (AdapterDecode e), a)
      | Inr body \<Rightarrow>
          (let consumer_id = unat (ccb_consumer_id body);
               cmd = (if ccb_cancel_disposition body = 1 then cancel_requeue consumer_id else cancel_drop_unacked consumer_id)
           in Some (Inr (BrokerCommand (BrokerShard (CmdCancel [cmd]))), a)))"

definition translate_frame :: "NativeInboundAdapter \<Rightarrow> NativeFrame \<Rightarrow> inbound_result" where
  "translate_frame a frame =
     (case header_op (nf_header frame) of
        Inl _ \<Rightarrow> Some (Inl (AdapterProtocol CodeUnknownOp), a)
      | Inr op \<Rightarrow>
          (case op of
             OpHello \<Rightarrow> translate_hello a frame
           | OpHeartbeat \<Rightarrow> Some (Inr (ImmediateResponse (heartbeat_ack frame)), a)
           | OpResolveRoute \<Rightarrow> translate_resolve_route a frame
           | OpPublishBatch \<Rightarrow> translate_publish a frame
           | OpConsumeStart \<Rightarrow> translate_consume_start a frame
           | OpCreditUpdate \<Rightarrow> translate_credit a frame
           | OpAckBatch \<Rightarrow> translate_ack a frame
           | OpNackBatch \<Rightarrow> translate_nack a frame
           | OpCancelConsumer \<Rightarrow> translate_cancel a frame
           | _ \<Rightarrow> Some (Inl (AdapterProtocol CodeUnknownOp), a)))"

section \<open>Outbound frames\<close>

definition route_resolved_frame :: "RouteResolvedEvent \<Rightarrow> 64 word \<Rightarrow> 32 word \<Rightarrow> NativeFrame" where
  "route_resolved_frame ev correlation_id stream_id =
     response_frame OpRouteResolved FRAME_RESPONSE stream_id correlation_id
       (route_resolved_encode (route_resolved_from_route (rv_event_route_version ev) (ri_index (rv_event_route_id ev))
         (ri_generation (rv_event_route_id ev))) [])"

definition confirm_frame :: "32 word \<Rightarrow> 32 word \<Rightarrow> 64 word \<Rightarrow> 32 word \<Rightarrow> NativeFrame" where
  "confirm_frame accepted failed correlation_id stream_id =
     response_frame OpPublishConfirmBatch FRAME_RESPONSE stream_id correlation_id
       (publish_confirm_encode \<lparr>pcb_accepted_count = accepted, pcb_failed_count = failed\<rparr> [])"

definition put_delivery ::
  "nat \<Rightarrow> nat option \<Rightarrow> 16 word \<Rightarrow> DeliveryDescriptor list \<times> byte list \<Rightarrow> DeliveryDescriptor list \<times> byte list" where
  "put_delivery tag handle flags acc = (case acc of (ds, payloads) \<Rightarrow>
     (let bytes = (case handle of None \<Rightarrow> [] | Some h \<Rightarrow> to_le_bytes 8 (of_nat h :: 64 word)) in
      (ds @ [\<lparr>dd_delivery_tag = of_nat tag, dd_payload_offset = of_nat (length payloads), dd_payload_len = of_nat (length bytes),
              dd_delivery_flags = flags\<rparr>], payloads @ bytes)))"

fun range_deliveries ::
  "DeliveryRangeSegment \<Rightarrow> nat list \<Rightarrow> DeliveryDescriptor list \<times> byte list \<Rightarrow> (DeliveryDescriptor list \<times> byte list) option" where
  "range_deliveries r [] acc = Some acc"
| "range_deliveries r (i # is') acc = do {
     tag \<leftarrow> add_u64 (drs_start_tag r) i;
     handle \<leftarrow> span_get (drs_payloads r) i;
     range_deliveries r is' (put_delivery tag handle
       (if flags_contain (drs_flags r) EVENT_REDELIVERED then NATIVE_REDELIVERED else 0) acc)
   }"

fun segment_deliveries ::
  "DeliveryEventSegment list \<Rightarrow> DeliveryDescriptor list \<times> byte list \<Rightarrow> (DeliveryDescriptor list \<times> byte list) option" where
  "segment_deliveries [] acc = Some acc"
| "segment_deliveries (EventRange r # segs) acc = do {
     acc \<leftarrow> range_deliveries r [0..<drs_len r] acc;
     segment_deliveries segs acc
   }"
| "segment_deliveries (EventMask m # segs) acc = do {
     hs \<leftarrow> mask_handles m;
     segment_deliveries segs (fold (\<lambda>(tag, handle). put_delivery tag (Some handle) 0) hs acc)
   }"

definition delivery_frame :: "DeliveryEventBatch \<Rightarrow> 32 word \<Rightarrow> NativeFrame option option" where
  "delivery_frame batch stream_id = do {
     (ds, payloads) \<leftarrow> segment_deliveries (de_segments batch) ([], []);
     if ds = [] then Some None else do {
       (buf, r) \<leftarrow> delivery_batch_encode \<lparr>dbb_consumer_id = of_nat (de_consumer_id batch), dbb_descriptors = ds, dbb_payloads = payloads\<rparr> [];
       Some (case r of Inl _ \<Rightarrow> None | Inr _ \<Rightarrow> Some (response_frame OpDeliveryBatch FRAME_EVENT stream_id 0 buf))
     }
   }"

fun settlement_kind_byte :: "SettlementKind \<Rightarrow> byte" where
  "settlement_kind_byte SettledAck = 0"
| "settlement_kind_byte SettledNack = 1"
| "settlement_kind_byte SettledReject = 2"
| "settlement_kind_byte SettledCancel = 3"

definition settlement_frame :: "nat \<Rightarrow> nat \<Rightarrow> SettlementKind \<Rightarrow> 32 word \<Rightarrow> NativeFrame" where
  "settlement_frame consumer_id n kind stream_id =
     response_frame OpSettlementResultBatch FRAME_RESPONSE stream_id 0
       (settlement_result_encode \<lparr>srb_consumer_id = of_nat consumer_id, srb_settled = of_nat n, srb_kind = settlement_kind_byte kind\<rparr> [])"

definition consumer_ok_frame :: "32 word \<Rightarrow> nat \<Rightarrow> 32 word \<Rightarrow> 64 word \<Rightarrow> 32 word \<Rightarrow> NativeFrame" where
  "consumer_ok_frame queue_id consumer_id prefetch correlation_id stream_id =
     response_frame OpConsumerOk FRAME_RESPONSE stream_id correlation_id
       (consumer_ok_encode \<lparr>cob_queue_id = queue_id, cob_consumer_id = of_nat consumer_id, cob_effective_prefetch = prefetch\<rparr> [])"

fun map_command_error :: "CommandErrorKind \<Rightarrow> NativeErrorCode" where
  "map_command_error ErrStaleRouteEpoch = CodeRouteStale"
| "map_command_error ErrRouteGenerationMismatch = CodeRouteStale"
| "map_command_error ErrExchangeNotFound = CodeRouteNotFound"
| "map_command_error ErrUnroutable = CodeRouteNotFound"
| "map_command_error ErrInvalidRoute = CodeRouteNotFound"
| "map_command_error ErrRouteIdInvalid = CodeRouteNotFound"
| "map_command_error ErrQueueNotFound = CodeQueueNotFound"
| "map_command_error ErrConsumerNotFound = CodeConsumerNotFound"
| "map_command_error ErrConsumerCancelled = CodeConsumerNotFound"
| "map_command_error ErrDuplicateConsumer = CodeConsumerNotFound"
| "map_command_error ErrInvalidDeliveryTag = CodeInvalidDeliveryTag"
| "map_command_error ErrDeliveryTagAlreadySettled = CodeInvalidDeliveryTag"
| "map_command_error _ = CodeInternal"

fun error_message :: "CommandErrorKind \<Rightarrow> byte list" where
  "error_message ErrInvalidRoute = map of_char ''InvalidRoute''"
| "error_message ErrStaleRouteEpoch = map of_char ''StaleRouteEpoch''"
| "error_message ErrQueueNotFound = map of_char ''QueueNotFound''"
| "error_message ErrConsumerNotFound = map of_char ''ConsumerNotFound''"
| "error_message ErrInvalidDeliveryTag = map of_char ''InvalidDeliveryTag''"
| "error_message ErrDeliveryTagAlreadySettled = map of_char ''DeliveryTagAlreadySettled''"
| "error_message ErrCreditExceeded = map of_char ''CreditExceeded''"
| "error_message ErrPermissionDenied = map of_char ''PermissionDenied''"
| "error_message ErrBackpressure = map of_char ''Backpressure''"
| "error_message ErrInternalInvariantViolation = map of_char ''InternalInvariantViolation''"
| "error_message ErrDuplicateQueue = map of_char ''DuplicateQueue''"
| "error_message ErrDuplicateConsumer = map of_char ''DuplicateConsumer''"
| "error_message ErrConsumerCancelled = map of_char ''ConsumerCancelled''"
| "error_message ErrExchangeNotFound = map of_char ''ExchangeNotFound''"
| "error_message ErrUnroutable = map of_char ''Unroutable''"
| "error_message ErrRouteIdInvalid = map of_char ''RouteIdInvalid''"
| "error_message ErrRouteGenerationMismatch = map of_char ''RouteGenerationMismatch''"

definition error_frame :: "CommandError \<Rightarrow> 64 word \<Rightarrow> 32 word \<Rightarrow> NativeFrame" where
  "error_frame err correlation_id stream_id =
     response_frame OpErrorFrame (FRAME_ERROR OR FRAME_RESPONSE) stream_id correlation_id
       (fst (error_body_encode \<lparr>eb_error_code = error_code_as_u16 (map_command_error (er_kind err)), eb_correlation_id = correlation_id,
          eb_message = error_message (er_kind err)\<rparr> []))"

definition translate_outputs ::
  "NativeSessionState \<Rightarrow> ShardOutputBatch \<Rightarrow> 64 word \<Rightarrow> 32 word \<Rightarrow> NativeFrame list \<Rightarrow> NativeFrame list option" where
  "translate_outputs session outputs correlation_id stream_id out = do {
     deliveries \<leftarrow> those (map (\<lambda>b. delivery_frame b stream_id) (so_deliveries outputs));
     Some (out @
       map (\<lambda>ev. route_resolved_frame ev correlation_id stream_id) (so_route_resolved outputs) @
       map (\<lambda>b. confirm_frame (of_nat (pc_accepted b)) 0 correlation_id stream_id) (so_confirms outputs) @
       List.map_filter (\<lambda>f. f) deliveries @
       map (\<lambda>b. settlement_frame (sr_consumer_id b) (sr_settled b) (sr_kind_of b) stream_id) (so_settlements outputs) @
       List.map_filter (\<lambda>b. if ev_kind b = ConsumerStarted
         then map_option (\<lambda>info. consumer_ok_frame (ci_queue_id info) (ev_consumer_id b) (ci_prefetch info) correlation_id stream_id)
           (ns_consumers session (ev_consumer_id b))
         else None) (so_consumer_events outputs) @
       map (\<lambda>e. error_frame e correlation_id stream_id) (so_errors outputs))
   }"

section \<open>The harness\<close>

record NativeInMemoryHarness =
  nh_codec :: NativeCodec
  nh_inbound :: NativeInboundAdapter
  nh_broker :: InMemoryBroker
  nh_read_buf :: "byte list"

definition harness_with_route_table :: "RouteTable \<Rightarrow> NativeInMemoryHarness" where
  "harness_with_route_table route_table =
     \<lparr>nh_codec = codec_default, nh_inbound = inbound_new (session_state_new 1), nh_broker = with_route_table route_table, nh_read_buf = []\<rparr>"

definition harness_with_orders_route :: "NativeInMemoryHarness option" where
  "harness_with_orders_route =
     (case compile (add_binding (add_exchange (config_new VERSION_INITIAL) (exchange_direct 1 (map of_char ''orders'')))
        (binding_direct 1 10 (map of_char ''created''))) of
        Inl _ \<Rightarrow> None
      | Inr table \<Rightarrow> Some (harness_with_route_table table))"

definition execute_command ::
  "(byte list \<Rightarrow> 32 word) \<Rightarrow> InMemoryBroker \<Rightarrow> BrokerCommandBatch \<Rightarrow> (ShardOutputBatch \<times> InMemoryBroker) option" where
  "execute_command crc32c br cmd = (case cmd of
       BrokerIngress ing \<Rightarrow> execute_ingress crc32c br ing
     | BrokerShard sh \<Rightarrow> broker_execute crc32c br sh)"

definition adapter_error_frame :: "64 word \<Rightarrow> 32 word \<Rightarrow> NativeFrame" where
  "adapter_error_frame correlation_id stream_id =
     response_frame OpErrorFrame (FRAME_ERROR OR FRAME_RESPONSE) stream_id correlation_id
       (fst (error_body_encode \<lparr>eb_error_code = error_code_as_u16 CodeInternal, eb_correlation_id = correlation_id,
          eb_message = map of_char ''adapter error''\<rparr> []))"

definition send_frame ::
  "(byte list \<Rightarrow> 32 word) \<Rightarrow> NativeInMemoryHarness \<Rightarrow> NativeFrame \<Rightarrow> (NativeFrame list \<times> NativeInMemoryHarness) option" where
  "send_frame crc32c h frame = do {
     let correlation_id = fh_correlation_id (nf_header frame);
     let stream_id = fh_stream_id (nf_header frame);
     (r, inbound) \<leftarrow> translate_frame (nh_inbound h) frame;
     let h = h\<lparr>nh_inbound := inbound\<rparr>;
     case r of
       Inr (ImmediateResponse resp) \<Rightarrow> Some ([resp], h)
     | Inr (BrokerCommand cmd) \<Rightarrow> do {
         (output, br) \<leftarrow> execute_command crc32c (nh_broker h) cmd;
         frames \<leftarrow> translate_outputs (na_session inbound) output correlation_id stream_id [];
         Some (frames, h\<lparr>nh_broker := br\<rparr>)
       }
     | Inl _ \<Rightarrow> Some ([adapter_error_frame correlation_id stream_id], h)
   }"

fun encode_responses :: "NativeCodec \<Rightarrow> NativeFrame list \<Rightarrow> byte list \<Rightarrow> byte list option" where
  "encode_responses codec [] out_bytes = Some out_bytes"
| "encode_responses codec (resp # resps) out_bytes =
     (case codec_encode codec resp [] of
        Inl _ \<Rightarrow> None
      | Inr buf \<Rightarrow> encode_responses codec resps (out_bytes @ buf))"

lemma codec_decode_shrinks:
  assumes "codec_decode codec src = Some (Inr (Some frame), rest)"
  shows "length rest < length src"
  using assms unfolding codec_decode_def
  by (clarsimp simp: Option.bind_eq_Some_conv split: if_split_asm)
     (auto simp: Let_def slice_def NATIVE_HEADER_LEN_def Option.bind_eq_Some_conv split: if_split_asm sum.split_asm)

lemma send_frame_read_buf: "send_frame crc h frame = Some (fs, h') \<Longrightarrow> nh_read_buf h' = nh_read_buf h"
  by (clarsimp simp: send_frame_def Let_def Option.bind_eq_Some_conv)
     (auto simp: Option.bind_eq_Some_conv split: sum.split_asm NativeInboundResult.split_asm)

function send_loop ::
  "(byte list \<Rightarrow> 32 word) \<Rightarrow> NativeInMemoryHarness \<Rightarrow> byte list \<Rightarrow> (byte list \<times> NativeInMemoryHarness) option" where
  "send_loop crc32c h out_bytes =
     (case codec_decode (nh_codec h) (nh_read_buf h) of
        None \<Rightarrow> None
      | Some (Inr (Some frame), rest) \<Rightarrow>
          (case send_frame crc32c (h\<lparr>nh_read_buf := rest\<rparr>) frame of
             None \<Rightarrow> None
           | Some (responses, h') \<Rightarrow>
               (case encode_responses (nh_codec h) responses out_bytes of
                  None \<Rightarrow> None
                | Some out_bytes \<Rightarrow> send_loop crc32c h' out_bytes))
      | Some (_, rest) \<Rightarrow> Some (out_bytes, h\<lparr>nh_read_buf := rest\<rparr>))"
  by pat_completeness auto
termination
  by (relation "measure (\<lambda>(crc, h, out). length (nh_read_buf h))") (auto dest!: codec_decode_shrinks send_frame_read_buf)

declare send_loop.simps [simp del]

definition send_bytes ::
  "(byte list \<Rightarrow> 32 word) \<Rightarrow> NativeInMemoryHarness \<Rightarrow> byte list \<Rightarrow> (byte list \<times> NativeInMemoryHarness) option" where
  "send_bytes crc32c h bytes = send_loop crc32c (h\<lparr>nh_read_buf := nh_read_buf h @ bytes\<rparr>) []"

end
