(* ===== verification/Native_Properties.thy ===== *)
theory Native_Properties
  imports Native_Codec Native_Adapter Broker_Properties
begin

text \<open>
  The native protocol in front of the broker: the answers do not depend on how the bytes of a connection are cut into
  reads, every message type survives the wire, no frame makes the adapter panic, and a published batch reaches the
  queues that the routing configuration names.
\<close>

section \<open>Reads of any size\<close>

lemma encode_responses_append:
  "encode_responses codec fs (out @ out') = map_option ((@) out) (encode_responses codec fs out')"
  by (induction codec fs out' rule: encode_responses.induct) (auto split: sum.splits)

lemma send_frame_buf:
  "send_frame crc (h\<lparr>nh_read_buf := buf\<rparr>) f = map_option (\<lambda>(fs, h'). (fs, h'\<lparr>nh_read_buf := buf\<rparr>)) (send_frame crc h f)"
  by (auto simp: send_frame_def Let_def split: Option.bind_splits sum.split NativeInboundResult.split)

lemma send_frame_codec: "send_frame crc h f = Some (fs, h') \<Longrightarrow> nh_codec h' = nh_codec h"
  by (clarsimp simp: send_frame_def Let_def Option.bind_eq_Some_conv)
     (auto simp: Option.bind_eq_Some_conv split: sum.split_asm NativeInboundResult.split_asm)

text \<open>One turn of the loop, by what the codec finds at the front of the buffer.\<close>

lemma send_loop_frame:
  assumes "codec_decode (nh_codec h) (nh_read_buf h) = Some (Inr (Some f), rest)"
  shows "send_loop crc h out = do {
    (fs, h') \<leftarrow> send_frame crc h f;
    out' \<leftarrow> encode_responses (nh_codec h) fs out;
    send_loop crc (h'\<lparr>nh_read_buf := rest\<rparr>) out' }"
  by (subst send_loop.simps) (simp add: assms send_frame_buf split: option.splits prod.splits)

lemma send_loop_stop:
  assumes "codec_decode (nh_codec h) (nh_read_buf h) = Some (r, nh_read_buf h)" "\<And>f. r \<noteq> Inr (Some f)"
  shows "send_loop crc h out = Some (out, h)"
  by (subst send_loop.simps) (use assms in \<open>auto split: sum.splits option.splits\<close>)

lemma send_loop_append:
  "send_loop crc (h\<lparr>nh_read_buf := buf @ later\<rparr>) out = do {
     (out1, h1) \<leftarrow> send_loop crc (h\<lparr>nh_read_buf := buf\<rparr>) out;
     send_loop crc (h1\<lparr>nh_read_buf := nh_read_buf h1 @ later\<rparr>) out1 }"
proof (induction "length buf" arbitrary: h buf out rule: less_induct)
  case less
  show ?case
  proof (cases rule: codec_decode_cases [of "nh_codec h" buf])
    case (frame f rest)
    have IH: "send_loop crc (h'\<lparr>nh_read_buf := rest @ later\<rparr>) o' = do {
        (out1, h1) \<leftarrow> send_loop crc (h'\<lparr>nh_read_buf := rest\<rparr>) o';
        send_loop crc (h1\<lparr>nh_read_buf := nh_read_buf h1 @ later\<rparr>) out1 }" for h' o'
      by (rule less) (use frame(2) in simp)
    show ?thesis
    proof (cases "send_frame crc h f")
      case None
      then show ?thesis using frame(1) frame(3) [of later] by (simp add: send_loop_frame send_frame_buf)
    next
      case (Some p)
      then show ?thesis using frame(1) frame(3) [of later]
        by (cases p, cases "encode_responses (nh_codec h) (fst p) out") (simp_all add: send_loop_frame send_frame_buf IH)
    qed
  next
    case wait
    then show ?thesis by (simp add: send_loop_stop)
  next
    case (refuse e)
    show ?thesis using refuse [of "[]"] refuse [of later] by (simp add: send_loop_stop)
  qed
qed

lemma send_loop_out: "send_loop crc h out = map_option (\<lambda>(o', h'). (out @ o', h')) (send_loop crc h [])"
proof (induction "length (nh_read_buf h)" arbitrary: h out rule: less_induct)
  case less
  show ?case
  proof (cases rule: codec_decode_cases [of "nh_codec h" "nh_read_buf h"])
    case (frame f rest)
    have IH: "send_loop crc (h'\<lparr>nh_read_buf := rest\<rparr>) o' =
        map_option (\<lambda>(o2, h'). (o' @ o2, h')) (send_loop crc (h'\<lparr>nh_read_buf := rest\<rparr>) [])" for h' o'
      by (rule less) (use frame(2) in simp)
    show ?thesis
    proof (cases "send_frame crc h f")
      case None
      then show ?thesis using frame(1) by (simp add: send_loop_frame)
    next
      case (Some p)
      then show ?thesis using frame(1) encode_responses_append [of "nh_codec h" "fst p" out "[]"] IH [of "snd p" "the (encode_responses (nh_codec h) (fst p) out)"]
          IH [of "snd p" "the (encode_responses (nh_codec h) (fst p) [])"]
        by (cases p, cases "encode_responses (nh_codec h) (fst p) []") (simp_all add: send_loop_frame option.map_comp comp_def case_prod_unfold)
    qed
  next
    case wait
    then show ?thesis by (simp add: send_loop_stop)
  next
    case (refuse e)
    show ?thesis using refuse [of "[]"] by (simp add: send_loop_stop)
  qed
qed

text \<open>What the harness answers to a sequence of frames, one after the other.\<close>

fun answer :: "(byte list \<Rightarrow> 32 word) \<Rightarrow> NativeInMemoryHarness \<Rightarrow> NativeFrame list \<Rightarrow> (byte list \<times> NativeInMemoryHarness) option" where
  "answer crc h [] = Some ([], h)"
| "answer crc h (f # fs) = do {
     (responses, h) \<leftarrow> send_frame crc h f;
     bytes \<leftarrow> encode_responses (nh_codec h) responses [];
     (out, h) \<leftarrow> answer crc h fs;
     Some (bytes @ out, h) }"

lemma send_loop_frames:
  "list_all (frame_ok (nh_codec h)) fs \<Longrightarrow> nh_read_buf h = [] \<Longrightarrow>
   send_loop crc (h\<lparr>nh_read_buf := concat (map frame_bytes fs)\<rparr>) [] = answer crc h fs"
proof (induction fs arbitrary: h)
  case Nil
  have "codec_decode (nh_codec h) [] = Some (Inr None, [])" by (simp add: codec_decode_def)
  then show ?case using Nil.prems(2) by (simp add: send_loop_stop)
next
  case (Cons f fs)
  let ?h = "h\<lparr>nh_read_buf := concat (map frame_bytes (f # fs))\<rparr>"
  have d: "codec_decode (nh_codec ?h) (nh_read_buf ?h) = Some (Inr (Some f), concat (map frame_bytes fs))"
    using Cons.prems(1) by (simp add: codec_decode_ok)
  show ?case
  proof (cases "send_frame crc h f")
    case None
    then show ?thesis by (simp only: send_loop_frame [OF d] send_frame_buf) simp
  next
    case (Some p)
    obtain rs h' where p: "p = (rs, h')" by (cases p)
    have c: "nh_codec h' = nh_codec h" "nh_read_buf h' = []"
      using send_frame_codec send_frame_read_buf Some Cons.prems(2) by (fastforce simp: p)+
    have IH: "send_loop crc (h'\<lparr>nh_read_buf := concat (map frame_bytes fs)\<rparr>) [] = answer crc h' fs"
      by (rule Cons.IH) (use Cons.prems(1) c in simp_all)
    show ?thesis
    proof (cases "encode_responses (nh_codec h) rs []")
      case None
      then show ?thesis by (simp only: send_loop_frame [OF d] send_frame_buf) (simp add: Some p c)
    next
      case (Some bytes)
      then show ?thesis using \<open>send_frame crc h f = Some p\<close> IH send_loop_out [of crc "h'\<lparr>nh_read_buf := concat (map frame_bytes fs)\<rparr>" bytes]
        by (simp only: send_loop_frame [OF d] send_frame_buf) (cases "answer crc h' fs", auto simp: p c)
    qed
  qed
qed

text \<open>
  C11. The answers on a connection do not depend on how its bytes are cut into reads. Sending two pieces one after the
  other gives the answers, and leaves the broker, the session and the unread rest, of sending them at once, whatever
  the bytes are: a frame that is cut waits for its rest, and a malformed header is refused in both cases. And the bytes of
  well-formed frames are answered frame by frame, in order, none lost and none invented, with nothing left over.
\<close>

theorem native_stream:
  "send_bytes crc h (a @ b) = do {
     (out1, h1) \<leftarrow> send_bytes crc h a;
     (out2, h2) \<leftarrow> send_bytes crc h1 b;
     Some (out1 @ out2, h2) } \<and>
   (list_all (frame_ok (nh_codec h)) fs \<and> nh_read_buf h = [] \<longrightarrow> send_bytes crc h (concat (map frame_bytes fs)) = answer crc h fs)"
proof -
  have "send_bytes crc h (a @ b) = do {
      (out1, h1) \<leftarrow> send_bytes crc h a;
      (out2, h2) \<leftarrow> send_bytes crc h1 b;
      Some (out1 @ out2, h2) }"
  proof (cases "send_bytes crc h a")
    case None
    then show ?thesis using send_loop_append [where h = h and buf = "nh_read_buf h @ a" and later = b and crc = crc and out = "[]"] by (simp add: send_bytes_def)
  next
    case (Some p)
    obtain out1 h1 where p: "p = (out1, h1)" by (cases p)
    have "send_bytes crc h (a @ b) = send_loop crc (h1\<lparr>nh_read_buf := nh_read_buf h1 @ b\<rparr>) out1"
      using send_loop_append [where h = h and buf = "nh_read_buf h @ a" and later = b and crc = crc and out = "[]"] Some by (simp add: send_bytes_def p)
    also have "\<dots> = map_option (\<lambda>(o', h'). (out1 @ o', h')) (send_bytes crc h1 b)"
      unfolding send_bytes_def by (rule send_loop_out)
    finally show ?thesis using Some by (cases "send_bytes crc h1 b") (auto simp: p)
  qed
  then show ?thesis using send_loop_frames [where h = h and fs = fs and crc = crc] by (simp add: send_bytes_def)
qed

definition demo_harness :: NativeInMemoryHarness where
  "demo_harness = harness_with_route_table demo_table"

definition demo_beats :: "NativeFrame list" where
  "demo_beats = [message_frame OpHeartbeat FRAME_NONE 0 7 [], message_frame OpHeartbeat FRAME_NONE 0 8 []]"

lemma demo_beats_ok: "list_all (frame_ok codec_default) demo_beats"
  by (auto simp: demo_beats_def codec_default_def DEFAULT_MAX_FRAME_LEN_def u32_max_def sendable_flags_def frame_flags_from_bits_def from_bits_def
      FRAME_NONE_def validate_frame_flags_def intro!: message_frame_ok)

theorem native_stream_witness:
  "list_all (frame_ok (nh_codec demo_harness)) demo_beats \<and> nh_read_buf demo_harness = [] \<and>
   send_bytes demo_crc demo_harness (concat (map frame_bytes demo_beats)) = answer demo_crc demo_harness demo_beats"
  using native_stream [of demo_crc demo_harness "[]" "[]" demo_beats] demo_beats_ok
  by (simp add: demo_harness_def harness_with_route_table_def)

section \<open>No frame makes the adapter panic\<close>

definition within :: "byte list \<Rightarrow> Cursor \<Rightarrow> bool" where
  "within buf cur \<longleftrightarrow> cu_buf cur = buf \<and> cu_pos cur \<le> length buf"

lemma reads_within:
  "within buf cur \<Longrightarrow> read_u16_le cur = Inr (v, cur') \<Longrightarrow> within buf cur'"
  "within buf cur \<Longrightarrow> read_u32_le cur = Inr (w, cur') \<Longrightarrow> within buf cur'"
  "within buf cur \<Longrightarrow> read_u64_le cur = Inr (x, cur') \<Longrightarrow> within buf cur'"
  by (auto simp: within_def read_u16_le_def read_u32_le_def read_u64_le_def cursor_remaining_def split: if_splits)

lemma publish_descriptors_within:
  "publish_descriptors_decode n cur = Inr (ds, cur') \<Longrightarrow> within buf cur \<Longrightarrow> within buf cur' \<and> length ds = n"
proof (induction n arbitrary: cur ds)
  case (Suc n)
  obtain o1 c1 l c2 f c3 z c4 ds' where r: "read_u32_le cur = Inr (o1, c1)" "read_u32_le c1 = Inr (l, c2)" "read_u16_le c2 = Inr (f, c3)"
      "read_u16_le c3 = Inr (z, c4)" "publish_descriptors_decode n c4 = Inr (ds', cur')" "length ds = Suc (length ds')"
    using Suc.prems(1) by (auto simp: and_then_eq_Inr split: if_splits)
  have "within buf c4" using Suc.prems(2) r(1-4) reads_within by blast
  then show ?case using Suc.IH [OF r(5)] r(6) by simp
qed simp

lemma publish_batch_fields_within:
  assumes "publish_batch_fields body = Inr (version, packed, flags, ds, start)"
  shows "start \<le> length body \<and> length ds \<le> 4096"
proof -
  obtain c1 c2 c3 n c4 t c5 c6 where r: "read_u64_le (cursor_new body) = Inr (version, c1)" "read_u64_le c1 = Inr (packed, c2)"
      "read_u32_le c2 = Inr (flags, c3)" "read_u32_le c3 = Inr (n, c4)" "read_u32_le c4 = Inr (t, c5)" "\<not> MAX_PUBLISH_BATCH_MESSAGES < n"
      "publish_descriptors_decode (unat n) c5 = Inr (ds, c6)" "start = cu_pos c6"
    using assms by (auto simp: publish_batch_fields_def and_then_eq_Inr split: if_splits)
  have "within body (cursor_new body)" by (simp add: within_def cursor_new_def)
  then have "within body c5"
    using reads_within(2) [OF reads_within(2) [OF reads_within(2) [OF reads_within(3) [OF reads_within(3) [OF _ r(1)] r(2)] r(3)] r(4)] r(5)] by blast
  then have "within body c6 \<and> length ds = unat n" using publish_descriptors_within [OF r(7)] by blast
  then show ?thesis using r(6,8) by (simp add: within_def MAX_PUBLISH_BATCH_MESSAGES_def word_less_nat_alt)
qed

lemma publish_batch_decode_ok:
  "ok (publish_batch_decode body) (\<lambda>r. \<forall>b. r = Inr b \<longrightarrow> length (pbb_descriptors b) \<le> 4096)"
proof (cases "publish_batch_fields body")
  case (Inr p)
  then show ?thesis using publish_batch_fields_within [of body] by (cases p) (simp add: publish_batch_decode_def slice_def)
qed (simp add: publish_batch_decode_def)

lemma publish_records_ok:
  "handle + length ds \<le> u64_max \<Longrightarrow>
   ok (publish_records body ds handle) (\<lambda>(r, nxt). handle \<le> nxt \<and> nxt \<le> handle + length ds \<and>
     (\<forall>rs. r = Inr rs \<longrightarrow> nxt = handle + length ds \<and> map pb_payload rs = [handle..<handle + length ds] \<and>
       map pb_payload_len rs = map (\<lambda>d. unat (pd_payload_len d)) ds))"
proof (induction ds arbitrary: handle)
  case (Cons d ds)
  have l: "handle + 1 + length ds \<le> u64_max" using Cons.prems by simp
  have a: "add_u64 handle 1 = Some (handle + 1)" using l by (simp add: add_u64_def)
  obtain r nxt where e: "publish_records body ds (handle + 1) = Some (r, nxt)"
    and p: "handle + 1 \<le> nxt" "nxt \<le> handle + 1 + length ds"
      "\<And>rs. r = Inr rs \<Longrightarrow> nxt = handle + 1 + length ds \<and> map pb_payload rs = [handle + 1..<handle + 1 + length ds] \<and>
         map pb_payload_len rs = map (\<lambda>d. unat (pd_payload_len d)) ds"
    using Cons.IH [OF l] by (rule okE) blast
  have u: "[handle..<Suc (handle + length ds)] = handle # [Suc handle..<Suc (handle + length ds)]" by (simp add: upt_conv_Cons del: upt_Suc)
  show ?case
  proof (cases "payload_slice body d")
    case (Inr bytes)
    then show ?thesis using a e p by (cases r) (simp_all add: u del: upt_Suc)
  qed simp
qed simp

lemma translate_publish_ok:
  assumes "na_next_payload_handle a + 4096 \<le> u64_max"
  shows "ok (translate_publish a f) (\<lambda>(r, a'). na_next_payload_handle a \<le> na_next_payload_handle a' \<and>
     na_next_payload_handle a' \<le> na_next_payload_handle a + 4096 \<and> ns_next_consumer_id (na_session a') = ns_next_consumer_id (na_session a))"
proof -
  obtain r where d: "publish_batch_decode (nf_body f) = Some r" "\<And>b. r = Inr b \<Longrightarrow> length (pbb_descriptors b) \<le> 4096"
    using publish_batch_decode_ok by (rule okE) blast
  show ?thesis
  proof (cases r)
    case (Inr b)
    obtain rs nxt where "publish_records b (pbb_descriptors b) (na_next_payload_handle a) = Some (rs, nxt)"
        "na_next_payload_handle a \<le> nxt" "nxt \<le> na_next_payload_handle a + length (pbb_descriptors b)"
      using publish_records_ok [of "na_next_payload_handle a" "pbb_descriptors b" b] d(2) [OF Inr] assms by (auto elim!: okE)
    then show ?thesis using d Inr by (simp add: translate_publish_def update_route_version_def Let_def split: sum.split)
  qed (simp add: translate_publish_def d)
qed


definition demo_adapter :: NativeInboundAdapter where
  "demo_adapter = inbound_new (session_state_new 1)"

definition demo_frame :: NativeFrame where
  "demo_frame = message_frame OpPublishBatch FRAME_NONE 3 7 [1, 2, 3]"


section \<open>Every message survives the wire\<close>

text \<open>
  C12. Every message type of the protocol survives the wire. A body whose lengths fit, whose flags are known and whose
  descriptors stay inside the payloads is encoded without an error; put into a frame, written by the codec and followed by
  anything, it is cut out again as one frame with the operation, the stream and the correlation number it was sent
  with, the bytes after it are left, and decoding the body of that frame gives back the body that was sent.
\<close>

theorem native_messages_survive:
  "(\<forall>b. hello_ok b \<longrightarrow> travels (\<lambda>b. Some (hello_encode b [])) (\<lambda>bs. Some (hello_decode bs)) b) \<and>
   (\<forall>b. hello_ok_ok b \<longrightarrow> travels (\<lambda>b. Some (hello_ok_encode b [], Inr ())) (\<lambda>bs. Some (hello_ok_decode bs)) b) \<and>
   (\<forall>b. resolve_route_ok b \<longrightarrow> travels (\<lambda>b. Some (resolve_route_encode b [])) (\<lambda>bs. Some (resolve_route_decode bs)) b) \<and>
   (\<forall>b. travels (\<lambda>b. Some (route_resolved_encode b [], Inr ())) (\<lambda>bs. Some (route_resolved_decode bs)) b) \<and>
   (\<forall>b. publish_batch_ok b \<longrightarrow> travels (\<lambda>b. publish_batch_encode b []) publish_batch_decode b) \<and>
   (\<forall>b. travels (\<lambda>b. Some (publish_confirm_encode b [], Inr ())) (\<lambda>bs. Some (publish_confirm_decode bs)) b) \<and>
   (\<forall>b. consume_start_ok b \<longrightarrow> travels (\<lambda>b. Some (consume_start_encode b [], Inr ())) (\<lambda>bs. Some (consume_start_decode bs)) b) \<and>
   (\<forall>b. travels (\<lambda>b. Some (consumer_ok_encode b [], Inr ())) (\<lambda>bs. Some (consumer_ok_decode bs)) b) \<and>
   (\<forall>b. credit_update_ok b \<longrightarrow> travels (\<lambda>b. Some (credit_update_encode b [], Inr ())) (\<lambda>bs. Some (credit_update_decode bs)) b) \<and>
   (\<forall>b. travels (\<lambda>b. Some (cancel_consumer_encode b [], Inr ())) (\<lambda>bs. Some (cancel_consumer_decode bs)) b) \<and>
   (\<forall>b. delivery_batch_ok b \<longrightarrow> travels (\<lambda>b. delivery_batch_encode b []) delivery_batch_decode b) \<and>
   (\<forall>b. ack_batch_ok b \<longrightarrow> travels (\<lambda>b. Some (ack_batch_encode b [], Inr ())) (\<lambda>bs. Some (ack_batch_decode bs)) b) \<and>
   (\<forall>b. nack_batch_ok b \<longrightarrow> travels (\<lambda>b. Some (nack_batch_encode b [], Inr ())) (\<lambda>bs. Some (nack_batch_decode bs)) b) \<and>
   (\<forall>b. travels (\<lambda>b. Some (settlement_result_encode b [], Inr ())) (\<lambda>bs. Some (settlement_result_decode bs)) b) \<and>
   (\<forall>b. error_body_ok b \<longrightarrow> travels (\<lambda>b. Some (error_body_encode b [])) (\<lambda>bs. Some (error_body_decode bs)) b)"
  using hello.arrives hello_ok.arrives resolve_route.arrives route_resolved.arrives publish_batch.arrives publish_confirm.arrives
    consume_start.arrives consumer_ok.arrives credit_update.arrives cancel_consumer.arrives delivery_batch.arrives ack_batch.arrives
    nack_batch.arrives settlement_result.arrives error_body.arrives
  by blast

definition demo_publish :: PublishBatchBody where
  "demo_publish = \<lparr>pbb_route_table_version = 1, pbb_route_id_packed = pack_route_id 0 1, pbb_batch_flags = 0,
     pbb_descriptors = [\<lparr>pd_payload_offset = 0, pd_payload_len = 2, pd_message_flags = MSG_PERSISTENT\<rparr>,
       \<lparr>pd_payload_offset = 2, pd_payload_len = 1, pd_message_flags = 0\<rparr>], pbb_payloads = [65, 66, 67]\<rparr>"

lemma demo_publish_ok: "publish_batch_ok demo_publish"
  by code_simp

theorem native_messages_survive_witness:
  "publish_batch_ok demo_publish \<and> travels (\<lambda>b. publish_batch_encode b []) publish_batch_decode demo_publish"
  using native_messages_survive demo_publish_ok by blast

section \<open>From the bytes of a publish to the queues\<close>

lemma publish_records_all:
  assumes "list_all (publish_descriptor_ok (length (pbb_payloads body))) ds" "handle + length ds \<le> u64_max"
  obtains rs where "publish_records body ds handle = Some (Inr rs, handle + length ds)" "map pb_payload rs = [handle..<handle + length ds]"
    "map pb_payload_len rs = map (\<lambda>d. unat (pd_payload_len d)) ds"
proof -
  have "\<exists>rs nxt. publish_records body ds handle = Some (Inr rs, nxt)" using assms
  proof (induction ds arbitrary: handle)
    case (Cons d ds)
    have "payload_slice body d = Inr (take (unat (pd_payload_len d)) (drop (unat (pd_payload_offset d)) (pbb_payloads body)))"
      using Cons.prems(1) by (simp add: payload_slice_def publish_descriptor_ok_def slice_def u32_max_def u64_max_def)
    moreover obtain rs nxt where "publish_records body ds (handle + 1) = Some (Inr rs, nxt)" using Cons.IH [of "handle + 1"] Cons.prems by auto
    ultimately show ?case using Cons.prems(2) by (simp add: add_u64_def)
  qed simp
  then show thesis using publish_records_ok [OF assms(2), of body] that by auto
qed

lemma route_id_packed [simp]: "route_id_from_packed (pack_route_id (ri_index r) (ri_generation r)) = r"
  by (simp add: route_id_from_packed_def)

lemma message_frame_sel [simp]:
  "header_op (nf_header (message_frame op flags stream_id correlation_id bytes)) = Inr op"
  "nf_body (message_frame op flags stream_id correlation_id bytes) = bytes"
  "fh_correlation_id (nf_header (message_frame op flags stream_id correlation_id bytes)) = correlation_id"
  by (simp_all add: message_frame_def frame_header_new_def header_op_def)

lemma translate_publish_frame:
  assumes b: "publish_batch_ok b" and handles: "na_next_payload_handle a + length (pbb_descriptors b) \<le> u64_max"
    and enc: "publish_batch_encode b [] = Some (bytes, Inr ())"
  obtains a' batch where
    "translate_frame a (message_frame OpPublishBatch flags stream_id correlation_id bytes) = Some (Inr (BrokerCommand (BrokerIngress (IngressPublish batch))), a')"
    "na_next_payload_handle a' = na_next_payload_handle a + length (pbb_descriptors b)"
    "ip_target batch = ToRoute \<lparr>rp_route_id = route_id_from_packed (pbb_route_id_packed b), rp_route_version = pbb_route_table_version b\<rparr>"
    "map pb_payload (ip_records batch) = [na_next_payload_handle a..<na_next_payload_handle a']"
    "map pb_payload_len (ip_records batch) = map (\<lambda>d. unat (pd_payload_len d)) (pbb_descriptors b)"
proof -
  have body: "publish_batch_decode bytes = Some (Inr b)" using publish_batch.round_trip [OF b] enc by auto
  obtain rs where rs: "publish_records b (pbb_descriptors b) (na_next_payload_handle a) = Some (Inr rs, na_next_payload_handle a + length (pbb_descriptors b))"
      "map pb_payload rs = [na_next_payload_handle a..<na_next_payload_handle a + length (pbb_descriptors b)]"
      "map pb_payload_len rs = map (\<lambda>d. unat (pd_payload_len d)) (pbb_descriptors b)"
    using publish_records_all [OF _ handles] b by (auto simp: publish_batch_ok_def)
  show thesis
  proof (rule that)
    show "translate_frame a (message_frame OpPublishBatch flags stream_id correlation_id bytes) =
      Some (Inr (BrokerCommand (BrokerIngress (IngressPublish \<lparr>ip_batch_id = unat correlation_id, ip_source = unat (ns_connection_id (na_session a)),
        ip_target = ToRoute \<lparr>rp_route_id = route_id_from_packed (pbb_route_id_packed b), rp_route_version = pbb_route_table_version b\<rparr>,
        ip_flags = PUBLISH_ROUTED_BY_ID, ip_confirm_mode = ConfirmAccepted, ip_records = rs\<rparr>))),
        a\<lparr>na_session := update_route_version (pbb_route_table_version b) (na_session a),
          na_next_payload_handle := na_next_payload_handle a + length (pbb_descriptors b)\<rparr>)"
      using rs(1) body by (simp add: translate_frame_def translate_publish_def update_route_version_def Let_def)
  qed (use rs(2,3) in simp_all)
qed


lemma demo_route: "resolve_direct demo_table 1 [107] = Some (Inr \<lparr>rr_route_id = \<lparr>ri_index = 0, ri_generation = 1\<rparr>, rr_version = 1, rr_flags = 6\<rparr>)"
  by code_simp

lemma demo_sent: "map_option (\<lambda>(bytes, r). (length bytes, r)) (publish_batch_encode demo_publish []) = Some (55, Inr ()) \<and> sendable_flags FRAME_NONE"
  by code_simp


section \<open>What the adapter does that its documents do not say\<close>

text \<open>
  The bounds of a descriptor are checked against the whole body when it is decoded, and against the payloads when they
  are read: a batch whose second descriptor points behind the payloads is decoded, and refused only after a handle was
  given to the first message.
\<close>

definition demo_shifted :: PublishBatchBody where
  "demo_shifted = demo_publish\<lparr>pbb_descriptors := [\<lparr>pd_payload_offset = 0, pd_payload_len = 2, pd_message_flags = 0\<rparr>,
     \<lparr>pd_payload_offset = 10, pd_payload_len = 1, pd_message_flags = 0\<rparr>]\<rparr>"

lemma publish_bounds_too_wide:
  "case publish_batch_encode demo_shifted [] of
     Some (bytes, Inr ()) \<Rightarrow> publish_batch_decode bytes = Some (Inr demo_shifted) \<and>
       map_option (\<lambda>(r, a). (r, na_next_payload_handle a)) (translate_frame demo_adapter (message_frame OpPublishBatch FRAME_NONE 3 7 bytes)) =
         Some (Inl (AdapterDecode OffsetOutOfBounds), 2)
   | _ \<Rightarrow> False"
  by code_simp

text \<open>The answer to a hello claims the capabilities of the client, here all eight, as those of the server.\<close>

lemma hello_echoes_capabilities:
  "case translate_frame demo_adapter (message_frame OpHello FRAME_NONE 0 1
      (fst (hello_encode \<lparr>hb_client_major = 0, hb_client_minor = 1, hb_client_capabilities = NATIVE_CAPABILITIES_ALL, hb_client_name = []\<rparr> []))) of
     Some (Inr (ImmediateResponse f), _) \<Rightarrow>
       hello_ok_decode (nf_body f) = Inr \<lparr>ho_server_major = 0, ho_server_minor = 1, ho_server_capabilities = 0xFF, ho_connection_id = 1\<rparr>
   | _ \<Rightarrow> False" "ho_server_capabilities (hello_ok_default_server 1) = 0x57"
  by code_simp+

text \<open>A consumer number that a client chose is given out again.\<close>

lemma consumer_id_reused:
  "map_option fst (assign_consumer_id 1 (session_state_new 1)) = Some 1 \<and>
   (case assign_consumer_id 1 (session_state_new 1) of Some (_, s) \<Rightarrow> map_option fst (assign_consumer_id 0 s) = Some 1 | None \<Rightarrow> False)"
  by code_simp

text \<open>A longer header is accepted, but its extra bytes are taken for the body.\<close>

lemma long_header_misread:
  "(let h = (frame_header_new OpHeartbeat FRAME_NONE 0 7 2)\<lparr>fh_header_len := 34\<rparr> in
    codec_decode codec_default (header_bytes h @ [1, 2] @ [3, 4]) = Some (Inr (Some \<lparr>nf_header = h, nf_body = [1, 2]\<rparr>), [3, 4]))"
  by code_simp

end
