(* ===== verification/Spec2Isabelle.thy ===== *)
theory Spec2Isabelle
  imports List_Properties Model_Properties Consumer_Properties Session_Refine_Properties Storage_Properties Broker_Properties Native_Properties
begin

text \<open>
  A verification of the message broker AurumMQ. This header is completed as the components are.
\<close>

end
